(* ===== verification/Rust_Prelude.thy ===== *)
theory Rust_Prelude
  imports Main "HOL-Library.Word"
begin

text \<open>
  What the components share: Rust's machine integers, its \<open>Result\<close> type with the
  question mark operator, the little and big endian byte conversions of its integers, the decimal
  printing and parsing of \<open>i32\<close>, and generic lemmas on lists. An unsigned integer is a
  \<open>word\<close> of its width; a signed integer is an \<open>int\<close>, whose range is the predicate
  \<open>i32_range\<close> or \<open>i64_range\<close> and whose wrap-around (release builds, no
  overflow checks are configured in the workspace) is \<open>wrap_i32\<close> or \<open>wrap_i64\<close>.
\<close>

unbundle bit_operations_syntax

named_theorems result_simps \<open>rewriting of results\<close>
named_theorems codec_simps \<open>round trips of encoders and decoders\<close>

section \<open>Integers\<close>

type_synonym u8 = "8 word"
type_synonym u16 = "16 word"
type_synonym u32 = "32 word"
type_synonym u64 = "64 word"
type_synonym i32 = int
type_synonym i64 = int
type_synonym bytes = "u8 list"

definition i32_range :: "int \<Rightarrow> bool" where
  "i32_range x \<longleftrightarrow> - (2 ^ 31) \<le> x \<and> x < 2 ^ 31"

definition i64_range :: "int \<Rightarrow> bool" where
  "i64_range x \<longleftrightarrow> - (2 ^ 63) \<le> x \<and> x < 2 ^ 63"

definition wrap_i32 :: "int \<Rightarrow> i32" where
  "wrap_i32 x = sint (word_of_int x :: 32 word)"

definition wrap_i64 :: "int \<Rightarrow> i64" where
  "wrap_i64 x = sint (word_of_int x :: 64 word)"

lemma wrap_i32_id: "i32_range x \<Longrightarrow> wrap_i32 x = x"
  by (simp add: wrap_i32_def i32_range_def signed_of_int
      signed_take_bit_int_eq_self_iff)

lemma wrap_i64_id: "i64_range x \<Longrightarrow> wrap_i64 x = x"
  by (simp add: wrap_i64_def i64_range_def signed_of_int
      signed_take_bit_int_eq_self_iff)

lemma i32_range_sint [simp]: "i32_range (sint (w :: 32 word))"
  using sint_ge [of w] sint_lt [of w] by (simp add: i32_range_def)

lemma i64_range_sint [simp]: "i64_range (sint (w :: 64 word))"
  using sint_ge [of w] sint_lt [of w] by (simp add: i64_range_def)

lemma i32_range_wrap [simp]: "i32_range (wrap_i32 x)"
  by (simp add: wrap_i32_def)

lemma i64_range_wrap [simp]: "i64_range (wrap_i64 x)"
  by (simp add: wrap_i64_def)

text \<open>\<open>i32::midpoint\<close>: the average rounded towards zero, computed without overflow.\<close>

definition midpoint :: "i32 \<Rightarrow> i32 \<Rightarrow> i32" where
  "midpoint a b = (let s = a + b in if 0 \<le> s then s div 2 else - ((- s) div 2))"

lemma midpoint_between: "a \<le> b \<Longrightarrow> a \<le> midpoint a b \<and> midpoint a b \<le> b"
  by (auto simp: midpoint_def Let_def)

lemma midpoint_less: "0 \<le> a \<Longrightarrow> a < b \<Longrightarrow> midpoint a b < b"
  by (auto simp: midpoint_def Let_def)

section \<open>Results\<close>

text \<open>
  \<open>Result<T, E>\<close> is \<open>'e + 'a\<close>, with the error on the left. \<open>bindr\<close> is the
  question mark operator.
\<close>

definition bindr :: "'e + 'a \<Rightarrow> ('a \<Rightarrow> 'e + 'b) \<Rightarrow> 'e + 'b" where
  "bindr r f = (case r of Inl e \<Rightarrow> Inl e | Inr a \<Rightarrow> f a)"

definition map_err :: "('e \<Rightarrow> 'f) \<Rightarrow> 'e + 'a \<Rightarrow> 'f + 'a" where
  "map_err f r = (case r of Inl e \<Rightarrow> Inl (f e) | Inr a \<Rightarrow> Inr a)"

definition map_ok :: "('a \<Rightarrow> 'b) \<Rightarrow> 'e + 'a \<Rightarrow> 'e + 'b" where
  "map_ok f r = (case r of Inl e \<Rightarrow> Inl e | Inr a \<Rightarrow> Inr (f a))"

definition ok_or :: "'e \<Rightarrow> 'a option \<Rightarrow> 'e + 'a" where
  "ok_or e x = (case x of None \<Rightarrow> Inl e | Some a \<Rightarrow> Inr a)"

definition is_ok :: "'e + 'a \<Rightarrow> bool" where
  "is_ok r = (case r of Inl _ \<Rightarrow> False | Inr _ \<Rightarrow> True)"

lemma bindr_simps [simp, result_simps]:
  "bindr (Inl e) f = Inl e"
  "bindr (Inr a) f = f a"
  by (simp_all add: bindr_def)

lemma map_err_simps [simp, result_simps]:
  "map_err f (Inl e) = Inl (f e)"
  "map_err f (Inr a) = Inr a"
  by (simp_all add: map_err_def)

lemma map_ok_simps [simp, result_simps]:
  "map_ok f (Inl e) = Inl e"
  "map_ok f (Inr a) = Inr (f a)"
  by (simp_all add: map_ok_def)

lemma ok_or_simps [simp, result_simps]:
  "ok_or e None = Inl e"
  "ok_or e (Some a) = Inr a"
  by (simp_all add: ok_or_def)

lemma is_ok_simps [simp, result_simps]:
  "is_ok (Inl e) = False"
  "is_ok (Inr a) = True"
  by (simp_all add: is_ok_def)

lemma bindr_eq_Inr: "bindr r f = Inr b \<longleftrightarrow> (\<exists>a. r = Inr a \<and> f a = Inr b)"
  by (cases r) simp_all

lemma bindr_eq_Inl: "bindr r f = Inl e \<longleftrightarrow> r = Inl e \<or> (\<exists>a. r = Inr a \<and> f a = Inl e)"
  by (cases r) simp_all

lemma ok_or_eq_Inr: "ok_or e m = Inr a \<longleftrightarrow> m = Some a"
  by (cases m) simp_all

lemma map_ok_eq_Inr: "map_ok f r = Inr b \<longleftrightarrow> (\<exists>a. r = Inr a \<and> b = f a)"
  by (cases r) auto

lemma map_err_eq_Inr: "map_err f r = Inr a \<longleftrightarrow> r = Inr a"
  by (cases r) simp_all

section \<open>Integers as bytes\<close>

fun le_bytes :: "nat \<Rightarrow> nat \<Rightarrow> bytes" where
  "le_bytes 0 x = []"
| "le_bytes (Suc n) x = word_of_nat (x mod 256) # le_bytes n (x div 256)"

fun of_le_bytes :: "bytes \<Rightarrow> nat" where
  "of_le_bytes [] = 0"
| "of_le_bytes (b # bs) = unat b + 256 * of_le_bytes bs"

definition be_bytes :: "nat \<Rightarrow> nat \<Rightarrow> bytes" where
  "be_bytes n x = rev (le_bytes n x)"

definition of_be_bytes :: "bytes \<Rightarrow> nat" where
  "of_be_bytes bs = of_le_bytes (rev bs)"

lemma length_le_bytes [simp]: "length (le_bytes n x) = n"
  by (induction n arbitrary: x) simp_all

lemma length_be_bytes [simp]: "length (be_bytes n x) = n"
  by (simp add: be_bytes_def)

lemma unat_byte_of_nat [simp]: "unat (word_of_nat (x mod 256) :: u8) = x mod 256"
  by (simp add: unat_of_nat)

lemma of_le_bytes_le_bytes: "of_le_bytes (le_bytes n x) = x mod 256 ^ n"
proof (induction n arbitrary: x)
  case (Suc n)
  have "x mod (256 * 256 ^ n) = 256 * (x div 256 mod 256 ^ n) + x mod 256"
    by (rule mod_mult2_eq)
  with Suc show ?case by simp
qed simp

lemma of_le_bytes_bound: "of_le_bytes bs < 256 ^ length bs"
proof (induction bs)
  case (Cons b bs)
  have "unat b < 256" using unsigned_less [of b, where ?'a = nat] by simp
  with Cons show ?case by simp
qed simp

lemma le_bytes_of_le_bytes: "le_bytes (length bs) (of_le_bytes bs) = bs"
proof (induction bs)
  case (Cons b bs)
  have "unat b < 256" using unsigned_less [of b, where ?'a = nat] by simp
  then have "(unat b + 256 * of_le_bytes bs) mod 256 = unat b"
    and "(unat b + 256 * of_le_bytes bs) div 256 = of_le_bytes bs"
    by simp_all
  with Cons show ?case by simp
qed simp

lemma of_be_bytes_be_bytes: "of_be_bytes (be_bytes n x) = x mod 256 ^ n"
  by (simp add: of_be_bytes_def be_bytes_def of_le_bytes_le_bytes)

lemma be_bytes_of_be_bytes: "be_bytes (length bs) (of_be_bytes bs) = bs"
  using le_bytes_of_le_bytes [of "rev bs"] by (simp add: of_be_bytes_def be_bytes_def)

text \<open>
  The conversions of the fixed-width integers: \<open>to_le_bytes\<close>, \<open>from_le_bytes\<close>,
  \<open>to_be_bytes\<close> and \<open>from_be_bytes\<close> of \<open>u16\<close>, \<open>u32\<close>, \<open>i32\<close> and \<open>i64\<close>.
\<close>

definition u32_to_le :: "u32 \<Rightarrow> bytes" where
  "u32_to_le w = le_bytes 4 (unat w)"

definition u32_of_le :: "bytes \<Rightarrow> u32" where
  "u32_of_le bs = word_of_nat (of_le_bytes bs)"

definition u32_to_be :: "u32 \<Rightarrow> bytes" where
  "u32_to_be w = be_bytes 4 (unat w)"

definition u32_of_be :: "bytes \<Rightarrow> u32" where
  "u32_of_be bs = word_of_nat (of_be_bytes bs)"

definition u16_to_be :: "u16 \<Rightarrow> bytes" where
  "u16_to_be w = be_bytes 2 (unat w)"

definition u16_of_be :: "bytes \<Rightarrow> u16" where
  "u16_of_be bs = word_of_nat (of_be_bytes bs)"

definition i32_to_le :: "i32 \<Rightarrow> bytes" where
  "i32_to_le x = le_bytes 4 (unat (word_of_int x :: 32 word))"

definition i32_of_le :: "bytes \<Rightarrow> i32" where
  "i32_of_le bs = sint (word_of_nat (of_le_bytes bs) :: 32 word)"

definition i64_to_le :: "i64 \<Rightarrow> bytes" where
  "i64_to_le x = le_bytes 8 (unat (word_of_int x :: 64 word))"

definition i64_of_le :: "bytes \<Rightarrow> i64" where
  "i64_of_le bs = sint (word_of_nat (of_le_bytes bs) :: 64 word)"

definition i64_to_be :: "i64 \<Rightarrow> bytes" where
  "i64_to_be x = be_bytes 8 (unat (word_of_int x :: 64 word))"

lemma int_bytes_length [simp]:
  "length (u32_to_le w) = 4" "length (u32_to_be w) = 4" "length (u16_to_be v) = 2"
  "length (i32_to_le x) = 4" "length (i64_to_le x) = 8" "length (i64_to_be x) = 8"
  by (simp_all add: u32_to_le_def u32_to_be_def u16_to_be_def i32_to_le_def i64_to_le_def
      i64_to_be_def)

lemma word_of_nat_unat_mod32 [simp]: "word_of_nat (unat w mod 4294967296) = (w :: 32 word)"
  using unsigned_less [of w, where ?'a = nat] by simp

lemma word_of_nat_unat_mod64 [simp]:
  "word_of_nat (unat w mod 18446744073709551616) = (w :: 64 word)"
  using unsigned_less [of w, where ?'a = nat] by simp

lemma word_of_nat_unat_mod8 [simp]: "word_of_nat (unat w mod 256) = (w :: 8 word)"
  using unsigned_less [of w, where ?'a = nat] by simp

lemma word_of_nat_unat_mod16 [simp]: "word_of_nat (unat w mod 65536) = (w :: 16 word)"
  using unsigned_less [of w, where ?'a = nat] by simp

lemma u32_le_roundtrip [simp, codec_simps]: "u32_of_le (u32_to_le w) = w"
  by (simp add: u32_of_le_def u32_to_le_def of_le_bytes_le_bytes)

lemma u32_be_roundtrip [simp, codec_simps]: "u32_of_be (u32_to_be w) = w"
  by (simp add: u32_of_be_def u32_to_be_def of_be_bytes_be_bytes)

lemma u16_be_roundtrip [simp, codec_simps]: "u16_of_be (u16_to_be w) = w"
  by (simp add: u16_of_be_def u16_to_be_def of_be_bytes_be_bytes)

lemma i32_le_roundtrip [simp, codec_simps]: "i32_range x \<Longrightarrow> i32_of_le (i32_to_le x) = x"
  by (simp add: i32_of_le_def i32_to_le_def of_le_bytes_le_bytes wrap_i32_id
      flip: wrap_i32_def)

lemma i64_le_roundtrip [simp, codec_simps]: "i64_range x \<Longrightarrow> i64_of_le (i64_to_le x) = x"
  by (simp add: i64_of_le_def i64_to_le_def of_le_bytes_le_bytes wrap_i64_id
      flip: wrap_i64_def)

lemma u16_to_be_of_be: "length bs = 2 \<Longrightarrow> u16_to_be (u16_of_be bs) = bs"
proof -
  assume len: "length bs = 2"
  have "of_le_bytes (rev bs) < 256 ^ length (rev bs)" by (rule of_le_bytes_bound)
  with len have "of_be_bytes bs < 65536" by (simp add: of_be_bytes_def)
  then have "unat (u16_of_be bs) = of_be_bytes bs"
    by (simp add: u16_of_be_def unat_of_nat)
  with len show ?thesis using be_bytes_of_be_bytes [of bs] by (simp add: u16_to_be_def)
qed

section \<open>Decimal integers\<close>

text \<open>
  \<open>Display\<close> and \<open>FromStr\<close> of \<open>i32\<close>. The parser accepts an optional sign and at
  least one digit, and checks every multiplication and addition for overflow.
\<close>

datatype int_error_kind = EmptyInt | InvalidDigit | PosOverflow | NegOverflow

definition digit_char :: "nat \<Rightarrow> char" where
  "digit_char d = char_of (48 + d)"

definition digit_val :: "char \<Rightarrow> nat option" where
  "digit_val c = (let n = of_char c in if 48 \<le> n \<and> n < 58 then Some (n - 48) else None)"

fun dec_nat :: "nat \<Rightarrow> string" where
  "dec_nat n = (if n < 10 then [digit_char n] else dec_nat (n div 10) @ [digit_char (n mod 10)])"

declare dec_nat.simps [simp del]

definition show_i32 :: "i32 \<Rightarrow> string" where
  "show_i32 x = (if x < 0 then CHR ''-'' # dec_nat (nat (- x)) else dec_nat (nat x))"

fun parse_pos :: "int \<Rightarrow> string \<Rightarrow> int_error_kind + i32" where
  "parse_pos acc [] = Inr acc"
| "parse_pos acc (c # cs) =
     (case digit_val c of
        None \<Rightarrow> Inl InvalidDigit
      | Some d \<Rightarrow>
          if \<not> i32_range (acc * 10) then Inl PosOverflow
          else if \<not> i32_range (acc * 10 + int d) then Inl PosOverflow
          else parse_pos (acc * 10 + int d) cs)"

fun parse_neg :: "int \<Rightarrow> string \<Rightarrow> int_error_kind + i32" where
  "parse_neg acc [] = Inr acc"
| "parse_neg acc (c # cs) =
     (case digit_val c of
        None \<Rightarrow> Inl InvalidDigit
      | Some d \<Rightarrow>
          if \<not> i32_range (acc * 10) then Inl NegOverflow
          else if \<not> i32_range (acc * 10 - int d) then Inl NegOverflow
          else parse_neg (acc * 10 - int d) cs)"

definition from_str_i32 :: "string \<Rightarrow> int_error_kind + i32" where
  "from_str_i32 s =
     (case s of
        [] \<Rightarrow> Inl EmptyInt
      | c # cs \<Rightarrow>
          if (c = CHR ''+'' \<or> c = CHR ''-'') \<and> cs = [] then Inl InvalidDigit
          else if c = CHR ''+'' then parse_pos 0 cs
          else if c = CHR ''-'' then parse_neg 0 cs
          else parse_pos 0 s)"

lemma digit_val_char [simp]: "d < 10 \<Longrightarrow> digit_val (digit_char d) = Some d"
  by (simp add: digit_val_def digit_char_def Let_def)

lemma digit_char_not_sign [simp]:
  "d < 10 \<Longrightarrow> digit_char d \<noteq> CHR ''+''" "d < 10 \<Longrightarrow> digit_char d \<noteq> CHR ''-''"
  "d < 10 \<Longrightarrow> digit_char d \<noteq> CHR '':''"
  by (auto dest!: arg_cong [where f = "of_char :: char \<Rightarrow> nat"] simp: digit_char_def)

lemma dec_nat_nonempty [simp]: "dec_nat n \<noteq> []"
  by (subst dec_nat.simps) simp

lemma dec_nat_digits: "c \<in> set (dec_nat n) \<Longrightarrow> \<exists>d < 10. c = digit_char d"
proof (induction n rule: dec_nat.induct)
  case (1 n)
  have "\<exists>d < 10. digit_char (n mod 10) = digit_char d" by (rule exI [of _ "n mod 10"]) simp
  with 1 show ?case by (cases "n < 10") (auto simp: dec_nat.simps [of n])
qed

lemma parse_pos_append:
  "parse_pos acc (xs @ ys) = bindr (parse_pos acc xs) (\<lambda>a. parse_pos a ys)"
  by (induction xs arbitrary: acc) (auto split: option.split)

lemma parse_neg_append:
  "parse_neg acc (xs @ ys) = bindr (parse_neg acc xs) (\<lambda>a. parse_neg a ys)"
  by (induction xs arbitrary: acc) (auto split: option.split)

lemma int_div_mod_10: "int (n div 10) * 10 + int (n mod 10) = int n"
  by (metis div_mult_mod_eq of_nat_add of_nat_mult of_nat_numeral)

lemma parse_pos_dec_nat: "int n < 2 ^ 31 \<Longrightarrow> parse_pos 0 (dec_nat n) = Inr (int n)"
proof (induction n rule: dec_nat.induct)
  case (1 n)
  show ?case
  proof (cases "n < 10")
    case True
    then show ?thesis by (simp add: dec_nat.simps [of n] i32_range_def)
  next
    case False
    with 1 have "parse_pos 0 (dec_nat (n div 10)) = Inr (int (n div 10))" by simp
    with False 1(2) int_div_mod_10 [of n] show ?thesis
      by (simp add: dec_nat.simps [of n] parse_pos_append i32_range_def)
  qed
qed

lemma parse_neg_dec_nat: "int n \<le> 2 ^ 31 \<Longrightarrow> parse_neg 0 (dec_nat n) = Inr (- int n)"
proof (induction n rule: dec_nat.induct)
  case (1 n)
  show ?case
  proof (cases "n < 10")
    case True
    then show ?thesis by (simp add: dec_nat.simps [of n] i32_range_def)
  next
    case False
    with 1 have "parse_neg 0 (dec_nat (n div 10)) = Inr (- int (n div 10))" by simp
    with False 1(2) int_div_mod_10 [of n] show ?thesis
      by (simp add: dec_nat.simps [of n] parse_neg_append i32_range_def)
  qed
qed

lemma from_str_show_i32: "i32_range x \<Longrightarrow> from_str_i32 (show_i32 x) = Inr x"
proof (cases "x < 0")
  case True
  assume "i32_range x"
  with True have "parse_neg 0 (dec_nat (nat (- x))) = Inr x"
    by (subst parse_neg_dec_nat) (auto simp: i32_range_def)
  with True show ?thesis by (simp add: from_str_i32_def show_i32_def)
next
  case False
  assume r: "i32_range x"
  obtain c cs where cs: "dec_nat (nat x) = c # cs" by (meson dec_nat_nonempty neq_Nil_conv)
  with dec_nat_digits [of c "nat x"] obtain d where "d < 10" "c = digit_char d" by auto
  moreover from False r have "parse_pos 0 (dec_nat (nat x)) = Inr x"
    by (subst parse_pos_dec_nat) (auto simp: i32_range_def)
  ultimately show ?thesis using False cs by (simp add: from_str_i32_def show_i32_def)
qed

lemma parse_pos_range: "i32_range acc \<Longrightarrow> parse_pos acc s = Inr x \<Longrightarrow> i32_range x"
  by (induction acc s rule: parse_pos.induct) (auto split: option.splits if_splits)

lemma parse_neg_range: "i32_range acc \<Longrightarrow> parse_neg acc s = Inr x \<Longrightarrow> i32_range x"
  by (induction acc s rule: parse_neg.induct) (auto split: option.splits if_splits)

lemma i32_range_0 [simp]: "i32_range 0"
  by (simp add: i32_range_def)

lemma from_str_i32_range: "from_str_i32 s = Inr x \<Longrightarrow> i32_range x"
  using parse_pos_range [OF i32_range_0] parse_neg_range [OF i32_range_0]
  by (auto simp: from_str_i32_def simp del: parse_pos.simps parse_neg.simps
      split: list.splits if_splits)

lemma show_i32_no_colon: "CHR '':'' \<notin> set (show_i32 x)"
proof
  assume "CHR '':'' \<in> set (show_i32 x)"
  then have "\<exists>n. CHR '':'' \<in> set (dec_nat n)" by (auto simp: show_i32_def split: if_splits)
  then obtain d where "d < 10" "CHR '':'' = digit_char d" by (blast dest: dec_nat_digits)
  with digit_char_not_sign(3) [of d] show False by simp
qed

section \<open>Strings\<close>

text \<open>
  \<open>str::split_once\<close> and \<open>str::replace\<close> for one-byte patterns. A \<open>String\<close> is its
  UTF-8 bytes, so \<open>length\<close> is \<open>str::len\<close>.
\<close>

fun split_once :: "char \<Rightarrow> string \<Rightarrow> (string \<times> string) option" where
  "split_once d [] = None"
| "split_once d (c # cs) =
     (if c = d then Some ([], cs)
      else map_option (\<lambda>(l, r). (c # l, r)) (split_once d cs))"

definition replace_char :: "char \<Rightarrow> char \<Rightarrow> string \<Rightarrow> string" where
  "replace_char a b s = map (\<lambda>c. if c = a then b else c) s"

lemma split_once_append:
  "d \<notin> set xs \<Longrightarrow> split_once d (xs @ d # ys) = Some (xs, ys)"
  by (induction xs) auto

lemma split_once_Some: "split_once d s = Some (l, r) \<Longrightarrow> s = l @ d # r \<and> d \<notin> set l"
  by (induction s arbitrary: l) (auto split: if_splits)

lemma split_once_None: "split_once d s = None \<longleftrightarrow> d \<notin> set s"
  by (induction s) auto

lemma length_replace_char [simp]: "length (replace_char a b s) = length s"
  by (simp add: replace_char_def)

section \<open>Lists\<close>

lemma in_set_take_nth: "x \<in> set (take i xs) \<longleftrightarrow> (\<exists>a < i. a < length xs \<and> xs ! a = x)"
  by (auto simp: in_set_conv_nth)

lemma in_set_drop_nth: "x \<in> set (drop j xs) \<longleftrightarrow> (\<exists>c \<ge> j. c < length xs \<and> xs ! c = x)"
proof
  assume "x \<in> set (drop j xs)"
  then obtain k where "k < length xs - j" "xs ! (j + k) = x" by (auto simp: in_set_conv_nth)
  then show "\<exists>c \<ge> j. c < length xs \<and> xs ! c = x" by (intro exI [of _ "j + k"]) auto
next
  assume "\<exists>c \<ge> j. c < length xs \<and> xs ! c = x"
  then obtain c where "j \<le> c" "c < length xs" "xs ! c = x" by blast
  then show "x \<in> set (drop j xs)" by (auto simp: in_set_conv_nth intro!: exI [of _ "c - j"])
qed

section \<open>Polling\<close>

text \<open>
  \<open>std::task::Poll\<close>, and the result of code that may panic: \<open>Inl\<close> carries the message.
\<close>

datatype 'a poll = Ready 'a | Pending

type_synonym 'a may_panic = "string + 'a"

section \<open>Results in lists\<close>

text \<open>\<open>collect::<Result<Vec<_>>>\<close> and loops that stop at the first error.\<close>

fun try_map :: "('a \<Rightarrow> 'e + 'b) \<Rightarrow> 'a list \<Rightarrow> 'e + 'b list" where
  "try_map f [] = Inr []"
| "try_map f (x # xs) = bindr (f x) (\<lambda>y. map_ok ((#) y) (try_map f xs))"

lemma try_map_cong [fundef_cong]:
  "xs = ys \<Longrightarrow> (\<And>x. x \<in> set ys \<Longrightarrow> f x = g x) \<Longrightarrow> try_map f xs = try_map g ys"
  by (induction ys arbitrary: xs) auto

lemma try_map_eq_Inr: "try_map f xs = Inr ys \<longleftrightarrow> list_all2 (\<lambda>x y. f x = Inr y) xs ys"
  by (induction xs arbitrary: ys) (auto simp: bindr_eq_Inr map_ok_eq_Inr list_all2_Cons1)

end
