(* ===== verification/Std_Codecs.thy ===== *)
theory Std_Codecs
  imports Rust_Prelude
begin

text \<open>
  The standard encodings behind the third-party crates that the addresses use: base64 of RFC 4648
  (the standard and the URL safe alphabet), hexadecimal, and CRC-16/XMODEM. They instantiate
  the parameters of the address model, so that its hypotheses are met by the functions the crates
  document.
\<close>

section \<open>Base64\<close>

definition b64_char :: "char \<Rightarrow> char \<Rightarrow> nat \<Rightarrow> char" where
  "b64_char c62 c63 n =
     (if n < 26 then char_of (65 + n) else if n < 52 then char_of (71 + n)
      else if n < 62 then char_of (n - 4) else if n = 62 then c62 else c63)"

definition b64_val :: "char \<Rightarrow> nat option" where
  "b64_val c =
     (let n = of_char c :: nat in
      if 65 \<le> n \<and> n < 91 then Some (n - 65) else if 97 \<le> n \<and> n < 123 then Some (n - 71)
      else if 48 \<le> n \<and> n < 58 then Some (n + 4) else if c = CHR ''+'' then Some 62
      else if c = CHR ''/'' then Some 63 else None)"

text \<open>
  Only whole groups of three bytes and of four characters: an address is twelve such groups, and
  padded input does not decode to 36 bytes.
\<close>

fun b64_url_encode :: "bytes \<Rightarrow> string" where
  "b64_url_encode (a # b # c # bs) =
     (let n = unat a * 65536 + unat b * 256 + unat c; e = b64_char CHR ''-'' CHR ''_'' in
      [e (n div 262144), e (n div 4096 mod 64), e (n div 64 mod 64), e (n mod 64)]
      @ b64_url_encode bs)"
| "b64_url_encode _ = []"

fun b64_std_decode :: "string \<Rightarrow> bytes option" where
  "b64_std_decode [] = Some []"
| "b64_std_decode (w # x # y # z # cs) =
     (case (b64_val w, b64_val x, b64_val y, b64_val z, b64_std_decode cs) of
        (Some i, Some j, Some k, Some l, Some bs) \<Rightarrow>
          let n = ((i * 64 + j) * 64 + k) * 64 + l in
          Some ([word_of_nat (n div 65536), word_of_nat (n div 256 mod 256),
                 word_of_nat (n mod 256)] @ bs)
      | _ \<Rightarrow> None)"
| "b64_std_decode _ = None"

definition b64_to_std :: "char \<Rightarrow> char" where
  "b64_to_std c = (if c = CHR ''-'' then CHR ''+'' else if c = CHR ''_'' then CHR ''/'' else c)"

lemma char_of_eq_iff: "m < 256 \<Longrightarrow> char_of m = c \<longleftrightarrow> m = (of_char c :: nat)"
  by (metis char_of_char mod_less of_char_of)

lemma b64_val_char: "n < 64 \<Longrightarrow> b64_val (b64_to_std (b64_char CHR ''-'' CHR ''_'' n)) = Some n"
  by (auto simp: b64_val_def b64_to_std_def b64_char_def Let_def char_of_eq_iff)

lemma length_b64_url_encode: "3 dvd length bs \<Longrightarrow> 3 * length (b64_url_encode bs) = 4 * length bs"
proof (induction bs rule: b64_url_encode.induct)
  case (1 a b c bs)
  then have "3 dvd length bs" by simp presburger
  with 1 show ?case by (simp add: Let_def)
qed (simp_all add: dvd_def, presburger)

lemma sextets:
  fixes n :: nat
  assumes "n < 16777216"
  shows "((n div 262144 * 64 + n div 4096 mod 64) * 64 + n div 64 mod 64) * 64 + n mod 64 = n"
    and "n div 262144 < 64"
proof -
  have q: "n div 4096 = n div 64 div 64" "n div 262144 = n div 64 div 64 div 64"
    by (simp_all flip: div_mult2_eq)
  show "((n div 262144 * 64 + n div 4096 mod 64) * 64 + n div 64 mod 64) * 64 + n mod 64 = n"
    by (simp only: q div_mult_mod_eq)
  show "n div 262144 < 64" using assms by (simp add: less_mult_imp_div_less)
qed

lemma octets:
  fixes a b c :: nat
  assumes "a < 256" "b < 256" "c < 256"
  shows "(a * 65536 + b * 256 + c) div 65536 = a"
    and "(a * 65536 + b * 256 + c) div 256 mod 256 = b"
    and "(a * 65536 + b * 256 + c) mod 256 = c"
    and "a * 65536 + b * 256 + c < 16777216"
proof -
  have r: "b * 256 + c < 65536" using assms by simp
  have "(b * 256 + c + a * 65536) div 65536 = a" using r by simp
  then show "(a * 65536 + b * 256 + c) div 65536 = a" by (simp add: ac_simps)
  have e: "a * 65536 + b * 256 + c = c + (a * 256 + b) * 256" by simp
  show "(a * 65536 + b * 256 + c) div 256 mod 256 = b"
    using assms by (simp only: e div_mult_self1) simp
  show "(a * 65536 + b * 256 + c) mod 256 = c" using assms by (simp only: e mod_mult_self1) simp
  show "a * 65536 + b * 256 + c < 16777216" using assms by simp
qed

lemma b64_decode_encode:
  "3 dvd length bs \<Longrightarrow> b64_std_decode (map b64_to_std (b64_url_encode bs)) = Some bs"
proof (induction bs rule: b64_url_encode.induct)
  case (1 a b c bs)
  define n where "n = unat a * 65536 + unat b * 256 + unat c"
  have abc: "unat a < 256" "unat b < 256" "unat c < 256"
    using unsigned_less [where ?'a = nat, of a] unsigned_less [where ?'a = nat, of b]
      unsigned_less [where ?'a = nat, of c] by simp_all
  note oct = octets [OF abc, folded n_def]
  note sx = sextets [OF oct(4)]
  from 1(2) have "3 dvd length bs" by simp presburger
  with 1(1) have IH: "b64_std_decode (map b64_to_std (b64_url_encode bs)) = Some bs" by simp
  show ?case
    using sx oct(1-3) by (simp add: Let_def IH b64_val_char sx(2) flip: n_def)
qed (simp_all add: dvd_def, presburger)

section \<open>Hexadecimal\<close>

definition hex_char :: "nat \<Rightarrow> char" where
  "hex_char n = (if n < 10 then char_of (48 + n) else char_of (87 + n))"

definition hex_val :: "char \<Rightarrow> nat option" where
  "hex_val c =
     (let n = of_char c :: nat in
      if 48 \<le> n \<and> n < 58 then Some (n - 48) else if 97 \<le> n \<and> n < 103 then Some (n - 87)
      else if 65 \<le> n \<and> n < 71 then Some (n - 55) else None)"

definition hex_enc :: "bytes \<Rightarrow> string" where
  "hex_enc bs = concat (map (\<lambda>b. [hex_char (unat b div 16), hex_char (unat b mod 16)]) bs)"

fun hex_dec :: "string \<Rightarrow> bytes option" where
  "hex_dec [] = Some []"
| "hex_dec (x # y # cs) =
     (case (hex_val x, hex_val y, hex_dec cs) of
        (Some i, Some j, Some bs) \<Rightarrow> Some (word_of_nat (i * 16 + j) # bs)
      | _ \<Rightarrow> None)"
| "hex_dec _ = None"

definition hex_dec_to_slice :: "nat \<Rightarrow> string \<Rightarrow> bytes option" where
  "hex_dec_to_slice n s = (if length s = 2 * n then hex_dec s else None)"

lemma hex_val_char: "n < 16 \<Longrightarrow> hex_val (hex_char n) = Some n"
  by (auto simp: hex_val_def hex_char_def Let_def)

lemma length_hex_enc [simp]: "length (hex_enc bs) = 2 * length bs"
  by (induction bs) (simp_all add: hex_enc_def)

lemma hex_dec_enc: "hex_dec (hex_enc bs) = Some bs"
proof (induction bs)
  case (Cons b bs)
  have "unat b < 256" using unsigned_less [where ?'a = nat, of b] by simp
  then have "unat b div 16 < 16" "unat b div 16 * 16 + unat b mod 16 = unat b" by simp_all
  with Cons show ?case by (simp add: hex_enc_def hex_val_char)
qed (simp add: hex_enc_def)

lemma length_hex_dec: "hex_dec s = Some bs \<Longrightarrow> 2 * length bs = length s"
  by (induction s arbitrary: bs rule: hex_dec.induct) (auto split: option.splits)

section \<open>CRC-16/XMODEM\<close>

definition crc16_bit :: "u16 \<Rightarrow> u16" where
  "crc16_bit r = (if bit r 15 then push_bit 1 r XOR 0x1021 else push_bit 1 r)"

definition crc16_byte :: "u16 \<Rightarrow> u8 \<Rightarrow> u16" where
  "crc16_byte r b =
     crc16_bit (crc16_bit (crc16_bit (crc16_bit (crc16_bit (crc16_bit (crc16_bit (crc16_bit
       (r XOR push_bit 8 (ucast b)))))))))"

definition crc16_xmodem :: "bytes \<Rightarrow> u16" where
  "crc16_xmodem bs = foldl crc16_byte 0 bs"

end
