(* ===== verification/Ton_Address.thy ===== *)
theory Ton_Address
  imports Rust_Prelude Std_Codecs
begin

text \<open>
  The \<open>ton-address\<close> crate: smart contract addresses in raw and in user friendly form,
  parsing, printing and the conversions between the two forms. The base64, hex and CRC16
  implementations are third-party crates: they are the fields of \<open>addr_codecs\<close>, and
  \<open>base64_laws\<close> and \<open>hex_laws\<close> say what the code relies on. At the end, the
  standard base64 and hex encodings and CRC-16/XMODEM as a concrete instance.
\<close>

section \<open>The address type and the codecs it uses\<close>

type_synonym WorkchainId = i32

datatype SmartContractAddress =
    Raw WorkchainId bytes
  | UserFriendly u8 WorkchainId bytes

record addr_codecs =
  base64_standard_decode :: "string \<Rightarrow> bytes option"
  base64_url_safe_encode :: "bytes \<Rightarrow> string"
  crc16_checksum :: "bytes \<Rightarrow> u16"
  hex_encode :: "bytes \<Rightarrow> string"
  hex_decode_to_slice :: "nat \<Rightarrow> string \<Rightarrow> bytes option"

datatype address_error =
    InvalidBase64Address string
  | InvalidBase64AddressCrc16 string
  | ParseIntError int_error_kind
  | FromHexError
  | InvalidAddress string

definition BOUNCEABLE :: u8 where "BOUNCEABLE = 0x11"

definition NON_BOUNCEABLE :: u8 where "NON_BOUNCEABLE = 0x51"

section \<open>Operations\<close>

definition url_safe_to_standard :: "string \<Rightarrow> string" where
  "url_safe_to_standard s = replace_char CHR ''_'' CHR ''/'' (replace_char CHR ''-'' CHR ''+'' s)"

text \<open>The slice pattern \<open>[flags, workchain_id, data @ .., crc16_l, crc16_r]\<close>.\<close>

fun address_slice :: "bytes \<Rightarrow> (u8 \<times> u8 \<times> bytes \<times> u8 \<times> u8) option" where
  "address_slice (f # w # r) =
     (if 2 \<le> length r
      then Some (f, w, take (length r - 2) r, r ! (length r - 2), r ! (length r - 1))
      else None)"
| "address_slice _ = None"

definition from_str :: "addr_codecs \<Rightarrow> string \<Rightarrow> address_error + SmartContractAddress" where
  "from_str c s =
     (if length s = 48 then
        let s' = url_safe_to_standard s in
        case base64_standard_decode c s' of
          None \<Rightarrow> Inl (InvalidBase64Address s')
        | Some data \<Rightarrow>
            if length data \<noteq> 36 then Inl (InvalidBase64Address s')
            else
              let crc16 = crc16_checksum c (take 34 data) in
              (case address_slice data of
                 None \<Rightarrow> Inl (InvalidBase64Address s')
               | Some (flags, workchain_id, d, crc16_l, crc16_r) \<Rightarrow>
                   if u16_of_be [crc16_l, crc16_r] \<noteq> crc16
                   then Inl (InvalidBase64AddressCrc16 s')
                   else Inr (UserFriendly flags
                          (if workchain_id = 255 then -1 else uint workchain_id)
                          (take 32 d)))
      else
        case split_once CHR '':'' s of
          Some (wc, hex_bytes) \<Rightarrow>
            if length hex_bytes = 64 then
              bindr (map_err ParseIntError (from_str_i32 wc)) (\<lambda>workchain_id.
              bindr (ok_or FromHexError (hex_decode_to_slice c 32 hex_bytes)) (\<lambda>data.
                Inr (Raw workchain_id data)))
            else Inl (InvalidAddress s)
        | None \<Rightarrow> Inl (InvalidAddress s))"

definition workchain_byte :: "WorkchainId \<Rightarrow> u8" where
  "workchain_byte w = (if w = -1 then 255 else word_of_int w)"

definition user_friendly_buf :: "addr_codecs \<Rightarrow> u8 \<Rightarrow> WorkchainId \<Rightarrow> bytes \<Rightarrow> bytes" where
  "user_friendly_buf c flags w data =
     (let buf = [flags, workchain_byte w] @ data in buf @ u16_to_be (crc16_checksum c buf))"

fun to_string :: "addr_codecs \<Rightarrow> SmartContractAddress \<Rightarrow> string" where
  "to_string c (Raw w data) = show_i32 w @ CHR '':'' # hex_encode c data"
| "to_string c (UserFriendly flags w data) =
     base64_url_safe_encode c (user_friendly_buf c flags w data)"

definition raw :: "WorkchainId \<Rightarrow> bytes \<Rightarrow> SmartContractAddress" where
  "raw w data = Raw w data"

fun workchain_id :: "SmartContractAddress \<Rightarrow> WorkchainId" where
  "workchain_id (Raw w d) = w"
| "workchain_id (UserFriendly f w d) = w"

fun data_as_bytes :: "SmartContractAddress \<Rightarrow> bytes" where
  "data_as_bytes (Raw w d) = d"
| "data_as_bytes (UserFriendly f w d) = d"

fun to_bounceable :: "SmartContractAddress \<Rightarrow> SmartContractAddress" where
  "to_bounceable (Raw w d) = UserFriendly BOUNCEABLE w d"
| "to_bounceable (UserFriendly f w d) = UserFriendly BOUNCEABLE w d"

fun to_non_bounceable :: "SmartContractAddress \<Rightarrow> SmartContractAddress" where
  "to_non_bounceable (Raw w d) = UserFriendly NON_BOUNCEABLE w d"
| "to_non_bounceable (UserFriendly f w d) = UserFriendly NON_BOUNCEABLE w d"

fun to_raw :: "SmartContractAddress \<Rightarrow> SmartContractAddress" where
  "to_raw (Raw w d) = Raw w d"
| "to_raw (UserFriendly f w d) = Raw w d"

fun to_internal :: "SmartContractAddress \<Rightarrow> bytes" where
  "to_internal (Raw w d) = d"
| "to_internal (UserFriendly f w d) = d"

definition into_bytes :: "SmartContractAddress \<Rightarrow> bytes" where
  "into_bytes a = (case a of Raw _ d \<Rightarrow> d | UserFriendly _ _ d \<Rightarrow> d)"

definition internal_to_string :: "addr_codecs \<Rightarrow> bytes \<Rightarrow> string" where
  "internal_to_string c d = hex_encode c d"

text \<open>
  The values of the Rust type: 32 bytes of data and an \<open>i32\<close> workchain.
  \<open>printable\<close> are the workchains whose user friendly byte is read back.
\<close>

fun wf_address :: "SmartContractAddress \<Rightarrow> bool" where
  "wf_address (Raw w d) \<longleftrightarrow> i32_range w \<and> length d = 32"
| "wf_address (UserFriendly f w d) \<longleftrightarrow> i32_range w \<and> length d = 32"

fun printable :: "SmartContractAddress \<Rightarrow> bool" where
  "printable (Raw w d) \<longleftrightarrow> True"
| "printable (UserFriendly f w d) \<longleftrightarrow> -1 \<le> w \<and> w < 255"

section \<open>What the codecs promise\<close>

definition base64_laws :: "addr_codecs \<Rightarrow> bool" where
  "base64_laws c \<longleftrightarrow>
     (\<forall>bs. length bs = 36 \<longrightarrow>
        length (base64_url_safe_encode c bs) = 48
        \<and> base64_standard_decode c (url_safe_to_standard (base64_url_safe_encode c bs)) = Some bs)"

definition hex_laws :: "addr_codecs \<Rightarrow> bool" where
  "hex_laws c \<longleftrightarrow>
     (\<forall>bs. length (hex_encode c bs) = 2 * length bs
        \<and> hex_decode_to_slice c (length bs) (hex_encode c bs) = Some bs)
     \<and> (\<forall>n s bs. hex_decode_to_slice c n s = Some bs \<longrightarrow> length bs = n)"

lemma base64_lawsD:
  assumes "base64_laws c" "length bs = 36"
  shows "length (base64_url_safe_encode c bs) = 48"
    and "base64_standard_decode c (url_safe_to_standard (base64_url_safe_encode c bs)) = Some bs"
  using assms by (auto simp: base64_laws_def)

lemma hex_lawsD:
  assumes "hex_laws c"
  shows "length (hex_encode c bs) = 2 * length bs"
    and "length bs = n \<Longrightarrow> hex_decode_to_slice c n (hex_encode c bs) = Some bs"
    and "hex_decode_to_slice c n s = Some bs \<Longrightarrow> length bs = n"
  using assms by (auto simp: hex_laws_def)

section \<open>Helper lemmas\<close>

lemma user_friendly_buf_length [simp]:
  "length (user_friendly_buf c f w d) = length d + 4"
  by (simp add: user_friendly_buf_def Let_def)

lemma u16_to_be_pair: "\<exists>l r. u16_to_be v = [l, r]"
  using length_Suc_conv [of "u16_to_be v" 1] by (auto simp: length_Suc_conv)

lemma u16_to_be_eq:
  "u16_to_be w = [word_of_nat (unat w div 256 mod 256), word_of_nat (unat w mod 256)]"
  unfolding u16_to_be_def be_bytes_def numeral_2_eq_2 by simp

lemma address_slice_buf:
  assumes "u16_to_be (crc16_checksum c (f # b # d)) = [l, r]"
  shows "address_slice (f # b # d @ u16_to_be (crc16_checksum c (f # b # d)))
         = Some (f, b, d, l, r)"
  using assms by (simp add: nth_append)

lemma uint_ge_nonpos: "k \<le> 0 \<Longrightarrow> k \<le> uint b"
  by (rule order_trans [OF _ uint_ge_0])

lemma uint_neq_minus_1: "uint b \<noteq> -1" "-1 \<noteq> uint b"
  using uint_ge_0 [of b] by linarith+

lemma workchain_byte_eq: "workchain_byte w = word_of_int w"
  by (simp add: workchain_byte_def)

lemma workchain_byte_roundtrip:
  "-1 \<le> w \<Longrightarrow> w < 255 \<Longrightarrow>
   (if workchain_byte w = 255 then -1 else uint (workchain_byte w)) = w"
proof (cases "w = -1")
  case False
  assume "-1 \<le> w" "w < 255"
  with False have r: "0 \<le> w" "w < 255" by auto
  then have u: "uint (word_of_int w :: u8) = w"
    by (simp add: uint_word_of_int_eq take_bit_int_eq_self)
  with r have "(word_of_int w :: u8) \<noteq> 255" by auto
  with False u show ?thesis by (simp add: workchain_byte_def)
qed (simp add: workchain_byte_def)

lemma from_str_decoded:
  assumes "length s = 48" and "length d = 32"
    and "base64_standard_decode c (url_safe_to_standard s) = Some (user_friendly_buf c f w d)"
  shows "from_str c s = Inr (UserFriendly f (if workchain_byte w = 255 then -1 else uint (workchain_byte w)) d)"
proof -
  let ?b = "workchain_byte w" and ?buf = "user_friendly_buf c f w d"
  obtain l r where lr: "u16_to_be (crc16_checksum c (f # ?b # d)) = [l, r]"
    using u16_to_be_pair by blast
  then have crc: "u16_of_be [l, r] = crc16_checksum c (f # ?b # d)"
    by (metis u16_be_roundtrip)
  have buf: "?buf = f # ?b # d @ [l, r]" by (simp add: user_friendly_buf_def Let_def lr)
  have slice: "address_slice ?buf = Some (f, ?b, d, l, r)"
    using address_slice_buf [OF lr] by (simp add: buf lr)
  have "take 34 ?buf = f # ?b # d" by (simp add: buf assms(2))
  with slice crc assms show ?thesis by (simp add: from_str_def Let_def)
qed

lemma from_str_user_friendly_buf:
  assumes "base64_laws c" and "length d = 32"
  shows "from_str c (base64_url_safe_encode c (user_friendly_buf c f w d))
         = Inr (UserFriendly f (if workchain_byte w = 255 then -1 else uint (workchain_byte w)) d)"
  using from_str_decoded [OF _ assms(2)] base64_lawsD [OF assms(1), of "user_friendly_buf c f w d"] assms(2) by simp

lemma address_slice_Some:
  assumes "address_slice xs = Some (f, w, d, l, r)"
  shows "xs = f # w # d @ [l, r]"
proof -
  from assms obtain ys where xs: "xs = f # w # ys" and len: "2 \<le> length ys"
    and d: "d = take (length ys - 2) ys" and l: "l = ys ! (length ys - 2)"
    and r: "r = ys ! (length ys - 1)"
    by (cases xs rule: address_slice.cases) (auto split: if_splits)
  from len have "drop (length ys - 2) ys = [l, r]"
    by (intro nth_equalityI) (auto simp: l r less_Suc_eq numeral_2_eq_2 nth_Cons')
  then have "ys = d @ [l, r]" by (metis append_take_drop_id d)
  with xs show ?thesis by simp
qed

lemma from_str_user_friendlyD:
  assumes "from_str c s = Inr (UserFriendly f w d)"
  shows "\<exists>b l r. length s = 48
      \<and> base64_standard_decode c (url_safe_to_standard s) = Some (f # b # d @ [l, r])
      \<and> length d = 32 \<and> u16_of_be [l, r] = crc16_checksum c (f # b # d)
      \<and> w = (if b = 255 then -1 else uint b)"
proof -
  have s: "length s = 48"
    using assms by (auto simp: from_str_def bindr_eq_Inr split: if_splits option.splits)
  with assms obtain data b d' l r
    where dec: "base64_standard_decode c (url_safe_to_standard s) = Some data"
      and len: "length data = 36" and sl: "address_slice data = Some (f, b, d', l, r)"
      and crc: "u16_of_be [l, r] = crc16_checksum c (take 34 data)"
      and w: "w = (if b = 255 then -1 else uint b)" and d: "d = take 32 d'"
    by (auto simp: from_str_def Let_def split: if_splits option.splits)
  from address_slice_Some [OF sl] len have "data = f # b # d' @ [l, r]" "length d' = 32"
    by auto
  with s dec crc w d show ?thesis by auto
qed

section \<open>The standard codecs meet the laws\<close>

definition std_codecs :: addr_codecs where
  "std_codecs = \<lparr>base64_standard_decode = b64_std_decode, base64_url_safe_encode = b64_url_encode,
     crc16_checksum = crc16_xmodem, hex_encode = hex_enc, hex_decode_to_slice = hex_dec_to_slice\<rparr>"

lemma url_safe_to_standard_map: "url_safe_to_standard s = map b64_to_std s"
  by (auto simp: url_safe_to_standard_def replace_char_def b64_to_std_def)

lemma std_base64_laws: "base64_laws std_codecs"
proof -
  have "length (b64_url_encode bs) = 48" if "length bs = 36" for bs
    using length_b64_url_encode [of bs] that by simp
  moreover have "b64_std_decode (map b64_to_std (b64_url_encode bs)) = Some bs"
    if "length bs = 36" for bs using b64_decode_encode [of bs] that by simp
  ultimately show ?thesis
    by (simp add: base64_laws_def std_codecs_def url_safe_to_standard_map)
qed

lemma std_hex_laws: "hex_laws std_codecs"
  by (auto simp: hex_laws_def std_codecs_def hex_dec_to_slice_def hex_dec_enc
      dest: length_hex_dec split: if_splits)

text \<open>The account of the crate's own tests (the example of TEP 2).\<close>

definition tep_account :: bytes where
  "tep_account = [229, 103, 84, 248, 52, 38, 246, 155, 9, 38, 123, 216, 118, 172, 151, 196, 72, 33,
     52, 91, 126, 38, 107, 217, 86, 167, 191, 191, 185, 141, 243, 92]"

lemma tep_text:
  "to_string std_codecs (UserFriendly 17 (-1) tep_account)
     = ''Ef_lZ1T4NCb2mwkme9h2rJfESCE0W34ma9lWp7-_uY3zXDvq''"
proof -
  have "crc16_xmodem ([17, 255] @ tep_account) = 0x3bea"
    by (simp add: crc16_xmodem_def crc16_byte_def crc16_bit_def tep_account_def)
  moreover have "u16_to_be 0x3bea = [0x3b, 0xea]"
    by (simp add: u16_to_be_eq)
  moreover have "b64_url_encode ([17, 255] @ tep_account @ [0x3b, 0xea])
      = ''Ef_lZ1T4NCb2mwkme9h2rJfESCE0W34ma9lWp7-_uY3zXDvq''"
    by (simp add: tep_account_def Let_def b64_char_def char_of_eq_iff)
  ultimately show ?thesis
    by (simp add: std_codecs_def user_friendly_buf_def workchain_byte_def Let_def)
qed

lemma tep_account_length [simp]: "length tep_account = 32"
  by (simp add: tep_account_def)

section \<open>Properties\<close>

text \<open>
  C35. Printing a well-formed address and parsing the text gives the address back: a raw address
  with any \<open>i32\<close> workchain, and a user friendly address with a workchain that its
  single byte can hold (-1 and 0 to 254).
\<close>

theorem address_roundtrip:
  assumes "base64_laws c" and "hex_laws c" and "wf_address a" and "printable a"
  shows "from_str c (to_string c a) = Inr a"
proof (cases a)
  case (Raw w d)
  with assms have w: "i32_range w" and d: "length d = 32" by auto
  have h: "length (hex_encode c d) = 64" "hex_decode_to_slice c 32 (hex_encode c d) = Some d"
    using hex_lawsD(1,2) [OF assms(2), of d] d by simp_all
  have "split_once CHR '':'' (to_string c a) = Some (show_i32 w, hex_encode c d)"
    using Raw split_once_append [OF show_i32_no_colon] by simp
  moreover have "length (to_string c a) \<noteq> 48" using Raw h by simp
  ultimately show ?thesis
    using Raw h from_str_show_i32 [OF w] by (simp add: from_str_def)
next
  case (UserFriendly f w d)
  with assms show ?thesis
    using from_str_user_friendly_buf [OF assms(1), of d f w] workchain_byte_roundtrip [of w] by simp
qed

theorem address_roundtrip_witness:
  "from_str std_codecs ''Ef_lZ1T4NCb2mwkme9h2rJfESCE0W34ma9lWp7-_uY3zXDvq''
     = Inr (UserFriendly 17 (-1) tep_account)"
  using address_roundtrip [OF std_base64_laws std_hex_laws, of "UserFriendly 17 (-1) tep_account"]
  by (simp add: tep_text i32_range_def del: to_string.simps)

lemma from_str_checksum:
  assumes "from_str c s = Inr (UserFriendly f w d)"
  shows "base64_standard_decode c (url_safe_to_standard s) = Some (user_friendly_buf c f w d)"
    and "-1 \<le> w" and "w < 255"
proof -
  from assms obtain b l r
    where dec: "base64_standard_decode c (url_safe_to_standard s) = Some (f # b # d @ [l, r])"
      and crc: "u16_of_be [l, r] = crc16_checksum c (f # b # d)"
      and w: "w = (if b = 255 then -1 else uint b)"
    by (auto dest: from_str_user_friendlyD)
  have "workchain_byte w = b" by (simp add: w workchain_byte_eq)
  moreover have "u16_to_be (crc16_checksum c (f # b # d)) = [l, r]"
    using u16_to_be_of_be [of "[l, r]"] crc by simp
  ultimately show "base64_standard_decode c (url_safe_to_standard s) = Some (user_friendly_buf c f w d)"
    using dec by (simp add: user_friendly_buf_def Let_def)
  have "uint b < 256" "b \<noteq> 255 \<longrightarrow> uint b \<noteq> 255"
    using unsigned_less [of b, where ?'a = int] by (auto simp: word_uint_eq_iff)
  then show "-1 \<le> w" "w < 255" using w uint_ge_nonpos [of "-1" b] by (auto split: if_splits)
qed

text \<open>
  C36. Which texts the parser accepts, for any codecs. A text is read as a user friendly address exactly if it has 48
  characters and decodes to the bytes that the address prints, its checksum included, with a workchain from -1
  to 254; and as a raw address exactly if it is a number of type \<open>i32\<close>, a colon (the first in the text) and
  64 digits that decode to the account.
\<close>

theorem accepted_texts:
  "(from_str c s = Inr (UserFriendly f w d) \<longleftrightarrow>
      length s = 48 \<and> length d = 32 \<and> -1 \<le> w \<and> w < 255
      \<and> base64_standard_decode c (url_safe_to_standard s) = Some (user_friendly_buf c f w d))
   \<and> (from_str c s = Inr (Raw v e) \<longleftrightarrow>
      (\<exists>number digits. s = number @ CHR '':'' # digits \<and> CHR '':'' \<notin> set number \<and> length digits = 64
        \<and> from_str_i32 number = Inr v \<and> hex_decode_to_slice c 32 digits = Some e))"
proof
  show "from_str c s = Inr (UserFriendly f w d) \<longleftrightarrow>
      length s = 48 \<and> length d = 32 \<and> -1 \<le> w \<and> w < 255
      \<and> base64_standard_decode c (url_safe_to_standard s) = Some (user_friendly_buf c f w d)"
    using from_str_checksum [of c s f w d] from_str_user_friendlyD [of c s f w d]
      from_str_decoded [of s d c f w] workchain_byte_roundtrip [of w] by auto
  show "from_str c s = Inr (Raw v e) \<longleftrightarrow>
      (\<exists>number digits. s = number @ CHR '':'' # digits \<and> CHR '':'' \<notin> set number \<and> length digits = 64
        \<and> from_str_i32 number = Inr v \<and> hex_decode_to_slice c 32 digits = Some e)"
    by (auto simp: from_str_def Let_def bindr_eq_Inr map_err_eq_Inr ok_or_eq_Inr split_once_append
        split: if_splits option.splits dest: split_once_Some)
qed

text \<open>
  C37. The user friendly form stores the workchain in one byte: two addresses that differ in the
  workchain print the same text exactly when the workchains agree modulo 256, and workchain 255 is
  read back as -1.
\<close>

theorem user_friendly_workchain_truncated:
  assumes "base64_laws c" and "length d = 32"
  shows "(to_string c (UserFriendly f v d) = to_string c (UserFriendly f w d)
            \<longleftrightarrow> v mod 256 = w mod 256)
    \<and> from_str c (to_string c (UserFriendly f 255 d)) = Inr (UserFriendly f (-1) d)"
proof -
  note parse = from_str_user_friendly_buf [OF assms]
  have "to_string c (UserFriendly f v d) = to_string c (UserFriendly f w d)
      \<longleftrightarrow> workchain_byte v = workchain_byte w"
  proof
    assume "to_string c (UserFriendly f v d) = to_string c (UserFriendly f w d)"
    with parse [of f v] parse [of f w] show "workchain_byte v = workchain_byte w"
      using uint_neq_minus_1 [of "workchain_byte v"] uint_neq_minus_1 [of "workchain_byte w"]
      by (auto simp: word_uint_eq_iff split: if_splits)
  qed (simp add: user_friendly_buf_def)
  also have "\<dots> \<longleftrightarrow> v mod 256 = w mod 256"
    by (simp add: workchain_byte_eq word_uint_eq_iff uint_word_of_int)
  finally show ?thesis using parse [of f 255] by (simp add: workchain_byte_eq)
qed

theorem user_friendly_workchain_truncated_witness:
  "to_string std_codecs (UserFriendly 17 1 tep_account)
     = to_string std_codecs (UserFriendly 17 257 tep_account)"
  using user_friendly_workchain_truncated [OF std_base64_laws tep_account_length, of 17 1 257]
  by simp

text \<open>
  The conversions between the forms keep the workchain and the account, go through the raw form
  without loss, and are idempotent.
\<close>

lemma address_conversions:
  "workchain_id (to_raw a) = workchain_id a \<and> data_as_bytes (to_raw a) = data_as_bytes a
   \<and> workchain_id (to_bounceable a) = workchain_id a
   \<and> data_as_bytes (to_bounceable a) = data_as_bytes a
   \<and> to_raw (to_bounceable a) = to_raw a \<and> to_raw (to_non_bounceable a) = to_raw a
   \<and> to_bounceable (to_non_bounceable a) = to_bounceable a
   \<and> to_raw a = raw (workchain_id a) (into_bytes a)
   \<and> to_internal a = data_as_bytes a
   \<and> to_bounceable a \<noteq> to_non_bounceable a"
  by (cases a) (simp_all add: raw_def into_bytes_def BOUNCEABLE_def NON_BOUNCEABLE_def)

end
