(* ===== verification/Tl_Serde.thy ===== *)
theory Tl_Serde
  imports Rust_Prelude
begin

text \<open>
  The TL wire format of the \<open>adnl-tcp\<close> crate: \<open>Serializer\<close>, \<open>Deserializer\<close> and the
  vector and result codecs of \<open>types.rs\<close>. A serializer appends to its output; a deserializer
  returns its result together with the input that is left, on the error paths too, since a
  failed attempt may have consumed bytes. A read beyond the end of the input panics
  (\<open>bytes::Buf\<close>), which is the error \<open>TlPanic\<close>. The locale \<open>tl_codec\<close> is the contract
  between a writer and its reader; every pair of operations is an interpretation of it.
\<close>

named_theorems de_simps \<open>steps of the deserializer\<close>

section \<open>State and errors\<close>

record Serializer =
  se_output :: bytes

record Deserializer =
  de_input :: bytes

datatype de_cause = FromUtf8Error | InputNotEmpty

datatype tl_error =
    TlPanic
  | UnexpectedConstructorNumber u32
  | DeserializeError de_cause

type_synonym 'a de = "Deserializer \<Rightarrow> (tl_error + 'a) \<times> Deserializer"
type_synonym 'a ser = "'a \<Rightarrow> Serializer \<Rightarrow> Serializer"
type_synonym Int256 = bytes

section \<open>Serializer\<close>

definition put :: "bytes \<Rightarrow> Serializer \<Rightarrow> Serializer" where
  "put bs se = se\<lparr>se_output := se_output se @ bs\<rparr>"

definition write_constructor_number :: "u32 ser" where
  "write_constructor_number crc32 = put (u32_to_be crc32)"

definition write_i32 :: "i32 ser" where
  "write_i32 val = put (i32_to_le val)"

definition write_i31 :: "i32 ser" where
  "write_i31 val = put (i32_to_le (val AND 0x7fffffff))"

definition write_i64 :: "i64 ser" where
  "write_i64 val = put (i64_to_le val)"

definition write_i256 :: "Int256 ser" where
  "write_i256 val = put val"

definition write_bytes :: "bytes ser" where
  "write_bytes val se =
     (let n = length val in
      if n \<le> 253 then
        let padding = (n + 1) mod 4 in
        if padding > 0
        then put (replicate (4 - padding) 0) (put val (put [word_of_nat n] se))
        else put val (put [word_of_nat n] se)
      else
        let padding = (n + 4) mod 4; len3 = take 3 (u32_to_le (word_of_nat n)) in
        if padding > 0
        then put (replicate (4 - padding) 0) (put val (put len3 (put [254] se)))
        else put val (put len3 (put [254] se)))"

definition write_string :: "bytes ser" where
  "write_string val = write_bytes val"

definition to_bytes_boxed :: "'a ser \<Rightarrow> 'a \<Rightarrow> bytes" where
  "to_bytes_boxed serialize_boxed v = se_output (serialize_boxed v \<lparr>se_output = []\<rparr>)"

section \<open>Deserializer\<close>

definition ret_de :: "'a \<Rightarrow> 'a de" where
  "ret_de a d = (Inr a, d)"

definition fail_de :: "tl_error \<Rightarrow> 'a de" where
  "fail_de e d = (Inl e, d)"

definition bind_de :: "'a de \<Rightarrow> ('a \<Rightarrow> 'b de) \<Rightarrow> 'b de" where
  "bind_de m f d = (case m d of (Inl e, d') \<Rightarrow> (Inl e, d') | (Inr a, d') \<Rightarrow> f a d')"

definition copy_to_slice :: "nat \<Rightarrow> bytes de" where
  "copy_to_slice n d =
     (if length (de_input d) < n then (Inl TlPanic, d)
      else (Inr (take n (de_input d)), d\<lparr>de_input := drop n (de_input d)\<rparr>))"

definition advance :: "nat \<Rightarrow> unit de" where
  "advance n = bind_de (copy_to_slice n) (\<lambda>_. ret_de ())"

definition get_u8 :: "u8 de" where
  "get_u8 = bind_de (copy_to_slice 1) (\<lambda>bs. ret_de (hd bs))"

definition parse_constructor_number :: "u32 de" where
  "parse_constructor_number = bind_de (copy_to_slice 4) (\<lambda>bs. ret_de (u32_of_be bs))"

definition parse_i31 :: "i32 de" where
  "parse_i31 = bind_de (copy_to_slice 4) (\<lambda>bs. ret_de (i32_of_le bs AND 0x7fffffff))"

definition parse_i32 :: "i32 de" where
  "parse_i32 = bind_de (copy_to_slice 4) (\<lambda>bs. ret_de (i32_of_le bs))"

definition parse_i64 :: "i64 de" where
  "parse_i64 = bind_de (copy_to_slice 8) (\<lambda>bs. ret_de (i64_of_le bs))"

definition parse_i256 :: "Int256 de" where
  "parse_i256 = copy_to_slice 32"

definition parse_bytes :: "bytes de" where
  "parse_bytes =
     bind_de get_u8 (\<lambda>len.
       if len \<le> 253 then
         bind_de (copy_to_slice (unat len)) (\<lambda>result.
           let padding = unat ((len + 1) mod 4) in
           if padding > 0 then bind_de (advance (4 - padding)) (\<lambda>_. ret_de result)
           else ret_de result)
       else
         bind_de (copy_to_slice 3) (\<lambda>l3.
           let len = u32_of_le (l3 @ [0]) in
           bind_de (copy_to_slice (unat len)) (\<lambda>result.
             let padding = unat (len mod 4) in
             if padding > 0 then bind_de (advance (4 - padding)) (\<lambda>_. ret_de result)
             else ret_de result)))"

text \<open>\<open>String::from_utf8\<close> is the parameter \<open>utf8\<close>.\<close>

definition parse_string :: "(bytes \<Rightarrow> bool) \<Rightarrow> bytes de" where
  "parse_string utf8 =
     bind_de parse_bytes (\<lambda>bs. if utf8 bs then ret_de bs else fail_de (DeserializeError FromUtf8Error))"

definition from_bytes_boxed :: "(u32 \<Rightarrow> 'a de) \<Rightarrow> bytes \<Rightarrow> tl_error + 'a" where
  "from_bytes_boxed deserialize_boxed bs =
     fst (bind_de parse_constructor_number (\<lambda>constructor_number.
       bind_de (deserialize_boxed constructor_number) (\<lambda>t d.
         if de_input d = [] then ret_de t d else fail_de (DeserializeError InputNotEmpty) d))
       \<lparr>de_input = bs\<rparr>)"

section \<open>Vectors and results\<close>

fun write_all :: "'a ser \<Rightarrow> 'a list ser" where
  "write_all s [] se = se"
| "write_all s (x # xs) se = write_all s xs (s x se)"

fun parse_n :: "nat \<Rightarrow> 'a de \<Rightarrow> 'a list de" where
  "parse_n 0 p = ret_de []"
| "parse_n (Suc n) p = bind_de p (\<lambda>x. bind_de (parse_n n p) (\<lambda>xs. ret_de (x # xs)))"

definition vector_serialize :: "'a ser \<Rightarrow> 'a list ser" where
  "vector_serialize s xs se = write_all s xs (write_i31 (wrap_i32 (int (length xs))) se)"

definition vector_deserialize :: "'a de \<Rightarrow> 'a list de" where
  "vector_deserialize p = bind_de parse_i31 (\<lambda>len. parse_n (nat len) p)"

definition vector_int256_serialize :: "Int256 list ser" where
  "vector_int256_serialize = vector_serialize write_i256"

definition vector_int256_deserialize :: "Int256 list de" where
  "vector_int256_deserialize = vector_deserialize parse_i256"

definition vector_int32_serialize :: "i32 list ser" where
  "vector_int32_serialize = vector_serialize write_i32"

definition vector_int32_deserialize :: "i32 list de" where
  "vector_int32_deserialize = vector_deserialize parse_i32"

definition vector_int64_serialize :: "i64 list ser" where
  "vector_int64_serialize = vector_serialize write_i64"

definition vector_int64_deserialize :: "i64 list de" where
  "vector_int64_deserialize = vector_deserialize parse_i64"

text \<open>\<open>Result<T, E>\<close>: the error type is tried on the input that the failed attempt left.\<close>

definition result_deserialize_boxed :: "(u32 \<Rightarrow> 'a de) \<Rightarrow> (u32 \<Rightarrow> 'e de) \<Rightarrow> u32 \<Rightarrow> ('e + 'a) de" where
  "result_deserialize_boxed t e cn d =
     (case t cn d of
        (Inr val, d') \<Rightarrow> (Inr (Inr val), d')
      | (Inl (UnexpectedConstructorNumber n), d') \<Rightarrow> bind_de (e cn) (\<lambda>v. ret_de (Inl v)) d'
      | (Inl (DeserializeError c), d') \<Rightarrow> (Inl (DeserializeError c), d')
      | (Inl TlPanic, d') \<Rightarrow> (Inl TlPanic, d'))"

definition result_deserialize :: "(u32 \<Rightarrow> 'a de) \<Rightarrow> (u32 \<Rightarrow> 'e de) \<Rightarrow> ('e + 'a) de" where
  "result_deserialize t e =
     bind_de parse_constructor_number (\<lambda>cn. result_deserialize_boxed t e cn)"

section \<open>The contract of a writer and its reader\<close>

definition enc_of :: "'a ser \<Rightarrow> 'a \<Rightarrow> bytes" where
  "enc_of s x = se_output (s x \<lparr>se_output = []\<rparr>)"

lemma put_put [simp]: "put b (put a se) = put (a @ b) se"
  by (simp add: put_def)

lemma put_Nil [simp]: "put [] se = se"
  by (simp add: put_def)

lemma se_output_put [simp]: "se_output (put bs se) = se_output se @ bs"
  by (simp add: put_def)

lemma copy_to_slice_exact [de_simps]:
  "length bs = n \<Longrightarrow> copy_to_slice n \<lparr>de_input = bs @ rest\<rparr> = (Inr bs, \<lparr>de_input = rest\<rparr>)"
  by (simp add: copy_to_slice_def)

lemma bind_de_Inr [de_simps]: "m d = (Inr a, d') \<Longrightarrow> bind_de m f d = f a d'"
  by (simp add: bind_de_def)

lemma bind_de_Inl [de_simps]: "m d = (Inl e, d') \<Longrightarrow> bind_de m f d = (Inl e, d')"
  by (simp add: bind_de_def)

lemma ret_de_simp [de_simps]: "ret_de a d = (Inr a, d)"
  by (simp add: ret_de_def)

lemma advance_exact [de_simps]:
  "length bs = n \<Longrightarrow> advance n \<lparr>de_input = bs @ rest\<rparr> = (Inr (), \<lparr>de_input = rest\<rparr>)"
  by (simp add: advance_def de_simps)

lemma get_u8_Cons [de_simps]: "get_u8 \<lparr>de_input = b # rest\<rparr> = (Inr b, \<lparr>de_input = rest\<rparr>)"
  by (simp add: get_u8_def bind_de_def copy_to_slice_def ret_de_def)

lemma and_i31: "0 \<le> x \<Longrightarrow> x < 2 ^ 31 \<Longrightarrow> x AND 0x7fffffff = (x :: int)"
proof -
  assume "0 \<le> x" "x < 2 ^ 31"
  moreover have "x AND 0x7fffffff = take_bit 31 x"
    by (simp add: take_bit_eq_mask mask_eq_exp_minus_1)
  ultimately show ?thesis by (simp add: take_bit_int_eq_self)
qed

lemma i31_of_nat: "n < 2 ^ 31 \<Longrightarrow> wrap_i32 (int n) AND 0x7fffffff = int n"
  by (subst wrap_i32_id) (auto simp: i32_range_def and_i31)

locale tl_codec =
  fixes ser :: "'a ser"
    and de :: "'a de"
    and valid :: "'a \<Rightarrow> bool"
  assumes ser_append: "ser x se = put (enc_of ser x) se"
    and roundtrip: "valid x \<Longrightarrow> de \<lparr>de_input = enc_of ser x @ rest\<rparr> = (Inr x, \<lparr>de_input = rest\<rparr>)"
begin

lemma prefix_free:
  assumes "valid x" "valid y" "enc_of ser x @ r = enc_of ser y @ s"
  shows "x = y \<and> r = s"
proof -
  have "(Inr x, \<lparr>de_input = r\<rparr>) = (Inr y :: tl_error + 'a, \<lparr>de_input = s\<rparr>)"
    by (metis assms roundtrip)
  then show ?thesis by simp
qed

lemma write_all_append: "write_all ser xs se = put (concat (map (enc_of ser) xs)) se"
proof (induction xs arbitrary: se)
  case (Cons x xs)
  then show ?case using ser_append [of x se] by simp
qed simp

lemma parse_n_roundtrip:
  "list_all valid xs \<Longrightarrow>
   parse_n (length xs) de \<lparr>de_input = concat (map (enc_of ser) xs) @ rest\<rparr>
   = (Inr xs, \<lparr>de_input = rest\<rparr>)"
proof (induction xs)
  case (Cons x xs)
  with roundtrip [of x "concat (map (enc_of ser) xs) @ rest"] show ?case by (simp add: de_simps)
qed (simp add: de_simps)

lemma enc_of_vector:
  "enc_of (vector_serialize ser) xs
     = i32_to_le (wrap_i32 (int (length xs)) AND 0x7fffffff) @ concat (map (enc_of ser) xs)"
  by (simp add: enc_of_def [of "vector_serialize ser"] vector_serialize_def write_all_append
      write_i31_def)

lemma vector_codec:
  "tl_codec (vector_serialize ser) (vector_deserialize de)
     (\<lambda>xs. length xs < 2 ^ 31 \<and> list_all valid xs)"
proof
  fix xs se
  show "vector_serialize ser xs se = put (enc_of (vector_serialize ser) xs) se"
    by (simp add: vector_serialize_def write_all_append write_i31_def enc_of_vector)
next
  fix xs :: "'a list" and rest
  assume v: "length xs < 2 ^ 31 \<and> list_all valid xs"
  then have "wrap_i32 (int (length xs)) AND 0x7fffffff = int (length xs)"
    by (intro i31_of_nat) simp
  moreover have "i32_range (int (length xs))" using v by (simp add: i32_range_def)
  ultimately show "vector_deserialize de \<lparr>de_input = enc_of (vector_serialize ser) xs @ rest\<rparr>
      = (Inr xs, \<lparr>de_input = rest\<rparr>)"
    using v parse_n_roundtrip [of xs rest] i31_of_nat [of "length xs"]
    by (simp add: enc_of_vector vector_deserialize_def parse_i31_def de_simps wrap_i32_id)
qed

end

text \<open>
  A reader is local when it consumes a prefix of the input and does not look further. A local
  reader of a codec fails on every proper prefix of an encoding.
\<close>

definition local_de :: "'a de \<Rightarrow> bool" where
  "local_de p \<longleftrightarrow>
     (\<forall>xs x d. p \<lparr>de_input = xs\<rparr> = (Inr x, d) \<longrightarrow>
        (\<exists>pre. xs = pre @ de_input d \<and>
           (\<forall>zs. p \<lparr>de_input = pre @ zs\<rparr> = (Inr x, \<lparr>de_input = zs\<rparr>))))"

lemma local_deD:
  assumes "local_de p" "p \<lparr>de_input = xs\<rparr> = (Inr x, d)"
  obtains pre where "xs = pre @ de_input d"
    and "\<And>zs. p \<lparr>de_input = pre @ zs\<rparr> = (Inr x, \<lparr>de_input = zs\<rparr>)"
  using assms unfolding local_de_def by blast

lemma local_ret [intro!]: "local_de (ret_de a)"
  by (auto simp: local_de_def ret_de_def)

lemma local_fail [intro!]: "local_de (fail_de e)"
  by (simp add: local_de_def fail_de_def)

lemma local_copy [intro!]: "local_de (copy_to_slice n)"
  unfolding local_de_def
proof (intro allI impI)
  fix xs x d assume "copy_to_slice n \<lparr>de_input = xs\<rparr> = (Inr x, d)"
  then show "\<exists>pre. xs = pre @ de_input d \<and>
      (\<forall>zs. copy_to_slice n \<lparr>de_input = pre @ zs\<rparr> = (Inr x, \<lparr>de_input = zs\<rparr>))"
    by (intro exI [of _ "take n xs"]) (auto simp: copy_to_slice_def split: if_splits)
qed

lemma local_bind [intro]:
  assumes m: "local_de m" and f: "\<And>a. local_de (f a)"
  shows "local_de (bind_de m f)"
  unfolding local_de_def
proof (intro allI impI)
  fix xs x d assume run: "bind_de m f \<lparr>de_input = xs\<rparr> = (Inr x, d)"
  then obtain a d1 where m1: "m \<lparr>de_input = xs\<rparr> = (Inr a, d1)" and f1: "f a d1 = (Inr x, d)"
    by (auto simp: bind_de_def split: prod.splits sum.splits)
  have d1: "d1 = \<lparr>de_input = de_input d1\<rparr>" by simp
  obtain p where p: "xs = p @ de_input d1"
    "\<And>zs. m \<lparr>de_input = p @ zs\<rparr> = (Inr a, \<lparr>de_input = zs\<rparr>)"
    using local_deD [OF m m1] by blast
  obtain q where q: "de_input d1 = q @ de_input d"
    "\<And>zs. f a \<lparr>de_input = q @ zs\<rparr> = (Inr x, \<lparr>de_input = zs\<rparr>)"
    using local_deD [OF f, of a "de_input d1" x d] f1 d1 by metis
  show "\<exists>pre. xs = pre @ de_input d \<and>
      (\<forall>zs. bind_de m f \<lparr>de_input = pre @ zs\<rparr> = (Inr x, \<lparr>de_input = zs\<rparr>))"
    by (rule exI [of _ "p @ q"]) (simp add: p q bind_de_def)
qed

lemma local_if [intro]: "local_de p \<Longrightarrow> local_de q \<Longrightarrow> local_de (if b then p else q)"
  by simp

lemma local_parse_n [intro]: "local_de p \<Longrightarrow> local_de (parse_n n p)"
  by (induction n) auto

lemma local_primitives [intro!]:
  "local_de (advance n)" "local_de get_u8" "local_de parse_i31" "local_de parse_i32"
  "local_de parse_i64" "local_de parse_i256" "local_de parse_constructor_number"
  by (auto simp: advance_def get_u8_def parse_i31_def parse_i32_def parse_i64_def parse_i256_def
      parse_constructor_number_def)

lemma local_parse_bytes [intro!]: "local_de parse_bytes"
  unfolding parse_bytes_def Let_def by (intro local_bind local_if) auto

lemma local_vector [intro]: "local_de p \<Longrightarrow> local_de (vector_deserialize p)"
  unfolding vector_deserialize_def by auto

locale tl_local_codec = tl_codec +
  assumes de_local: "local_de de"
begin

lemma truncated_fails:
  assumes "valid x" "i < length (enc_of ser x)"
  shows "\<exists>e. fst (de \<lparr>de_input = take i (enc_of ser x)\<rparr>) = Inl e"
proof (rule ccontr)
  let ?t = "take i (enc_of ser x)" and ?r = "drop i (enc_of ser x)"
  assume "\<nexists>e. fst (de \<lparr>de_input = ?t\<rparr>) = Inl e"
  then obtain y d where "de \<lparr>de_input = ?t\<rparr> = (Inr y, d)"
    by (metis obj_sumE prod.collapse)
  then obtain pre where pre: "?t = pre @ de_input d"
    "\<And>zs. de \<lparr>de_input = pre @ zs\<rparr> = (Inr y, \<lparr>de_input = zs\<rparr>)"
    using local_deD [OF de_local] by blast
  have whole: "enc_of ser x = pre @ de_input d @ ?r"
    by (metis append.assoc append_take_drop_id pre(1))
  have "(Inr x, \<lparr>de_input = []\<rparr>) = (Inr y :: tl_error + 'a, \<lparr>de_input = de_input d @ ?r\<rparr>)"
    using roundtrip [OF assms(1), of "[]"] pre(2) [of "de_input d @ ?r"]
    by (metis append_Nil2 whole)
  then have "de_input d @ ?r = []" by (metis Deserializer.select_convs(1) prod.inject)
  with assms(2) show False by simp
qed

lemma vector_local_codec:
  "tl_local_codec (vector_serialize ser) (vector_deserialize de)
     (\<lambda>xs. length xs < 2 ^ 31 \<and> list_all valid xs)"
  by (intro tl_local_codec.intro tl_local_codec_axioms.intro vector_codec local_vector de_local)

end

section \<open>The codecs of the primitive types\<close>

text \<open>The abstract encoding of a byte string: a length header, the bytes, zeros to a multiple of four.\<close>

definition tl_header :: "nat \<Rightarrow> bytes" where
  "tl_header n = (if n \<le> 253 then [word_of_nat n] else 254 # le_bytes 3 n)"

definition tl_bytes :: "bytes \<Rightarrow> bytes" where
  "tl_bytes v = (let h = tl_header (length v) in
     h @ v @ replicate ((4 - (length h + length v) mod 4) mod 4) 0)"

lemma le_bytes_mod: "le_bytes n (x mod 256 ^ n) = le_bytes n x"
proof (induction n arbitrary: x)
  case (Suc n)
  have "x mod 256 ^ Suc n = 256 * (x div 256 mod 256 ^ n) + x mod 256"
    by (simp add: mod_mult2_eq)
  then have "x mod 256 ^ Suc n div 256 = x div 256 mod 256 ^ n"
    and "x mod 256 ^ Suc n mod 256 = x mod 256" by simp_all
  then show ?case using Suc [of "x div 256"] by simp
qed simp

lemma take_le_bytes: "m \<le> n \<Longrightarrow> take m (le_bytes n x) = le_bytes m x"
proof (induction n arbitrary: m x)
  case (Suc n)
  then show ?case by (cases m) simp_all
qed simp

lemma len3_eq: "take 3 (u32_to_le (word_of_nat n)) = le_bytes 3 n"
proof -
  have "take 3 (u32_to_le (word_of_nat n)) = le_bytes 3 (n mod 4294967296)"
    by (simp add: u32_to_le_def unat_of_nat take_le_bytes)
  also have "\<dots> = le_bytes 3 (n mod 4294967296 mod 256 ^ 3)" by (simp only: le_bytes_mod)
  also have "n mod 4294967296 mod 256 ^ 3 = n mod 256 ^ 3" by (rule mod_mod_cancel) simp
  finally show ?thesis by (simp only: le_bytes_mod)
qed

lemma of_le_bytes_append_0: "of_le_bytes (bs @ [0]) = of_le_bytes bs"
  by (induction bs) simp_all

lemma u32_of_len3: "unat (u32_of_le (le_bytes 3 n @ [0])) = n mod 2 ^ 24"
proof -
  have "n mod 16777216 < 4294967296"
    using mod_less_divisor [of 16777216 n] by linarith
  then show ?thesis
    by (simp add: u32_of_le_def of_le_bytes_append_0 of_le_bytes_le_bytes unat_of_nat)
qed

lemma write_bytes_tl_bytes: "write_bytes v se = put (tl_bytes v) se"
proof -
  have "(4 - x mod 4) mod 4 = (if 0 < x mod 4 then 4 - x mod 4 else 0)" for x :: nat by auto
  then show ?thesis
    by (simp add: write_bytes_def tl_bytes_def tl_header_def Let_def len3_eq)
qed

lemma enc_of_write_bytes [simp]: "enc_of write_bytes v = tl_bytes v"
  by (simp add: enc_of_def write_bytes_tl_bytes)

lemma parse_bytes_short:
  assumes "n = length v" "n \<le> 253" "length pad = (4 - (n + 1) mod 4) mod 4"
  shows "parse_bytes \<lparr>de_input = word_of_nat n # v @ pad @ rest\<rparr> = (Inr v, \<lparr>de_input = rest\<rparr>)"
proof -
  have u: "unat (word_of_nat n :: u8) = n" using assms by (simp add: unat_of_nat)
  have "unat ((word_of_nat n + 1) mod 4 :: u8) = (n + 1) mod 4"
    using assms(2) u by (simp add: unat_mod unat_word_ariths)
  moreover have "(word_of_nat n :: u8) \<le> 253" using assms(2) u by (simp add: word_le_nat_alt)
  moreover have "pad = []" if "(n + 1) mod 4 = 0" using assms(3) that by simp
  ultimately show ?thesis using assms(1,3) u
    by (auto simp: parse_bytes_def Let_def de_simps)
qed

lemma parse_bytes_long:
  assumes "m = n mod 2 ^ 24" "length v = m" "length pad = (4 - m mod 4) mod 4"
  shows "parse_bytes \<lparr>de_input = 254 # le_bytes 3 n @ v @ pad @ rest\<rparr>
    = (Inr v, \<lparr>de_input = rest\<rparr>)"
proof -
  have u: "unat (u32_of_le (le_bytes 3 n @ [0])) = m" using assms(1) by (simp add: u32_of_len3)
  then have "unat (u32_of_le (le_bytes 3 n @ [0]) mod 4) = m mod 4" by (simp add: unat_mod)
  moreover have "\<not> (254 :: u8) \<le> 253" by simp
  moreover have "pad = []" if "m mod 4 = 0" using assms(3) that by simp
  ultimately show ?thesis using assms(2,3) u
    by (auto simp: parse_bytes_def Let_def de_simps)
qed

lemma parse_tl_bytes:
  assumes "length v < 2 ^ 24"
  shows "parse_bytes \<lparr>de_input = tl_bytes v @ rest\<rparr> = (Inr v, \<lparr>de_input = rest\<rparr>)"
proof (cases "length v \<le> 253")
  case True
  then show ?thesis
    using parse_bytes_short [of "length v" v] by (simp add: tl_bytes_def tl_header_def)
next
  case False
  then show ?thesis
    using parse_bytes_long [of "length v" "length v" v] assms
    by (simp add: tl_bytes_def tl_header_def)
qed

interpretation i32: tl_local_codec write_i32 parse_i32 i32_range
  by unfold_locales
    (auto simp: write_i32_def enc_of_def parse_i32_def de_simps)

interpretation i64: tl_local_codec write_i64 parse_i64 i64_range
  by unfold_locales
    (auto simp: write_i64_def enc_of_def parse_i64_def de_simps)

interpretation i31: tl_local_codec write_i31 parse_i31 "\<lambda>x. 0 \<le> x \<and> x < 2 ^ 31"
  by unfold_locales
    (auto simp: write_i31_def enc_of_def parse_i31_def de_simps and_i31 i32_range_def)

interpretation i256: tl_local_codec write_i256 parse_i256 "\<lambda>v. length v = 32"
  by unfold_locales (auto simp: write_i256_def enc_of_def parse_i256_def de_simps)

interpretation constructor_number: tl_local_codec write_constructor_number
  parse_constructor_number "\<lambda>_. True"
  by unfold_locales
    (auto simp: write_constructor_number_def enc_of_def parse_constructor_number_def de_simps)

interpretation tl_byte_string: tl_local_codec write_bytes parse_bytes "\<lambda>v. length v < 2 ^ 24"
  by unfold_locales (auto simp: parse_tl_bytes write_bytes_tl_bytes)

interpretation vector_int256: tl_local_codec vector_int256_serialize vector_int256_deserialize
  "\<lambda>xs. length xs < 2 ^ 31 \<and> list_all (\<lambda>v. length v = 32) xs"
  unfolding vector_int256_serialize_def vector_int256_deserialize_def
  by (rule i256.vector_local_codec)

interpretation vector_int32: tl_local_codec vector_int32_serialize vector_int32_deserialize
  "\<lambda>xs. length xs < 2 ^ 31 \<and> list_all i32_range xs"
  unfolding vector_int32_serialize_def vector_int32_deserialize_def
  by (rule i32.vector_local_codec)

interpretation vector_int64: tl_local_codec vector_int64_serialize vector_int64_deserialize
  "\<lambda>xs. length xs < 2 ^ 31 \<and> list_all i64_range xs"
  unfolding vector_int64_serialize_def vector_int64_deserialize_def
  by (rule i64.vector_local_codec)

text \<open>The only failure of the primitive readers is the panic at the end of the input.\<close>

definition panics_only :: "'a de \<Rightarrow> bool" where
  "panics_only p \<longleftrightarrow> (\<forall>d e d'. p d = (Inl e, d') \<longrightarrow> e = TlPanic)"

lemma panics_only_ret [intro!]: "panics_only (ret_de a)"
  by (simp add: panics_only_def ret_de_def)

lemma panics_only_copy [intro!]: "panics_only (copy_to_slice n)"
  by (simp add: panics_only_def copy_to_slice_def)

lemma panics_only_bind [intro]:
  "panics_only m \<Longrightarrow> (\<And>a. panics_only (f a)) \<Longrightarrow> panics_only (bind_de m f)"
  unfolding panics_only_def bind_de_def by (fastforce split: prod.splits sum.splits)

lemma panics_only_if [intro]: "panics_only p \<Longrightarrow> panics_only q \<Longrightarrow> panics_only (if b then p else q)"
  by simp

lemma panics_only_parse_bytes: "panics_only parse_bytes"
  unfolding parse_bytes_def get_u8_def advance_def Let_def
  by (intro panics_only_bind panics_only_if panics_only_copy panics_only_ret)

lemma panics_only_parse_n: "panics_only p \<Longrightarrow> panics_only (parse_n n p)"
  by (induction n) auto

section \<open>Properties\<close>

text \<open>
  A byte string of less than 16 MiB is read back from what \<open>write_bytes\<close> wrote, with the
  reader left exactly after it, and every encoding is a whole number of 32-bit words.
\<close>

lemma tl_bytes_roundtrip:
  assumes "length v < 2 ^ 24"
  shows "parse_bytes \<lparr>de_input = se_output (write_bytes v \<lparr>se_output = []\<rparr>) @ rest\<rparr>
      = (Inr v, \<lparr>de_input = rest\<rparr>)
    \<and> 4 dvd length (se_output (write_bytes v \<lparr>se_output = []\<rparr>))"
proof -
  have pad: "4 dvd x + (4 - x mod 4) mod 4" for x :: nat
  proof -
    have "x + (4 - x mod 4) = 4 * (x div 4) + 4" 
      using div_mult_mod_eq [of x 4] mod_less_divisor [of 4 x] by linarith
    then have "4 dvd x + (4 - x mod 4)" by simp
    then show ?thesis by (simp add: dvd_eq_mod_eq_0 mod_add_right_eq)
  qed
  have "4 dvd length (tl_bytes v)"
    using pad [of "length (tl_header (length v)) + length v"]
    by (simp add: tl_bytes_def Let_def add.assoc)
  with parse_tl_bytes [OF assms] show ?thesis by (simp add: write_bytes_tl_bytes)
qed

text \<open>
  The header has three length bytes: a value of 16 MiB or more is written with its length modulo
  \<open>2 ^ 24\<close>, and reading it back returns only that many of its first bytes.
\<close>

lemma tl_bytes_length_truncated:
  assumes "2 ^ 24 \<le> length v"
  shows "fst (parse_bytes \<lparr>de_input = se_output (write_bytes v \<lparr>se_output = []\<rparr>)\<rparr>)
    = Inr (take (length v mod 2 ^ 24) v)"
proof -
  define n m p where "n = length v" and "m = n mod 2 ^ 24" and "p = (4 - m mod 4) mod 4"
  have "2 ^ 24 * 1 \<le> 2 ^ 24 * (n div 2 ^ 24)"
    using assms by (intro mult_le_mono2) (simp add: n_def div_greater_zero_iff Suc_leI)
  moreover have "m + 2 ^ 24 * (n div 2 ^ 24) = n" unfolding m_def by (rule mod_mult_div_eq)
  moreover have "p \<le> 3" "(3 :: nat) \<le> 2 ^ 24" by (simp_all add: p_def)
  ultimately have mp: "m + p \<le> n" by linarith
  obtain r where r: "tl_bytes v = 254 # le_bytes 3 n @ v @ r"
    using assms by (auto simp: tl_bytes_def tl_header_def n_def Let_def)
  have "v = take m v @ take p (drop m v) @ drop p (drop m v)"
    by (simp only: append_take_drop_id)
  then have "v @ r = take m v @ take p (drop m v) @ (drop p (drop m v) @ r)"
    by (metis append.assoc)
  with r have "tl_bytes v
      = 254 # le_bytes 3 n @ take m v @ take p (drop m v) @ (drop p (drop m v) @ r)" by simp
  moreover have l: "length (take m v) = m" "length (take p (drop m v)) = (4 - m mod 4) mod 4"
    using mp by (simp_all add: n_def flip: p_def)
  moreover have "fst (parse_bytes \<lparr>de_input = 254 # le_bytes 3 n @ take m v @ take p (drop m v)
      @ (drop p (drop m v) @ r)\<rparr>) = Inr (take m v)"
    using parse_bytes_long [OF m_def l] by simp
  ultimately show ?thesis by (simp add: write_bytes_tl_bytes m_def n_def)
qed

text \<open>
  A truncated byte string never yields a value: on every proper prefix of an encoding the reader
  panics (it does not return the error its type announces).
\<close>

lemma tl_bytes_truncated_panics:
  assumes "length v < 2 ^ 24" and "i < length (se_output (write_bytes v \<lparr>se_output = []\<rparr>))"
  shows "fst (parse_bytes
    \<lparr>de_input = take i (se_output (write_bytes v \<lparr>se_output = []\<rparr>))\<rparr>) = Inl TlPanic"
proof -
  let ?d = "\<lparr>de_input = take i (tl_bytes v)\<rparr>"
  have "\<exists>e. fst (parse_bytes ?d) = Inl e"
    using tl_byte_string.truncated_fails [of v i] assms by (simp add: write_bytes_tl_bytes)
  then obtain e d' where "parse_bytes ?d = (Inl e, d')" by (metis prod.collapse)
  with panics_only_parse_bytes show ?thesis
    by (auto simp: panics_only_def write_bytes_tl_bytes)
qed

text \<open>
  Vectors of fixed-width integers and hashes are read back with the reader left after them, and no
  encoding of a vector is a prefix of another one.
\<close>

lemma tl_vector_roundtrip:
  assumes "length hs < 2 ^ 31" and "\<forall>h \<in> set hs. length h = 32"
    and "length xs < 2 ^ 31" and "\<forall>x \<in> set xs. i64_range x"
  shows "bind_de vector_int256_deserialize (\<lambda>h. bind_de vector_int64_deserialize (\<lambda>x. ret_de (h, x)))
      \<lparr>de_input = se_output (vector_int64_serialize xs (vector_int256_serialize hs \<lparr>se_output = []\<rparr>))
         @ rest\<rparr>
    = (Inr (hs, xs), \<lparr>de_input = rest\<rparr>)"
proof -
  have "se_output (vector_int64_serialize xs (vector_int256_serialize hs \<lparr>se_output = []\<rparr>))
      = enc_of vector_int256_serialize hs @ enc_of vector_int64_serialize xs"
    using vector_int256.ser_append [of hs] vector_int64.ser_append [of xs] by simp
  with assms show ?thesis
    using vector_int256.roundtrip [of hs] vector_int64.roundtrip [of xs]
    by (simp add: de_simps list_all_iff)
qed

end
