(* ===== verification/Tl_Codegen.thy ===== *)
theory Tl_Codegen
  imports Tl_Serde
begin

text \<open>
  The TL schema (the data types and methods of \<open>tl-parser\<close>) and the code that
  \<open>ton-liteserver-client/build.rs\<close> generates from it: how the generated structs and enums write
  and read themselves. The generated code is modelled by functions over the field list of a combinator:
  a value of a struct is the list of the values of its fields, and the readers and writers of the types
  that are not built in are arguments, since they are again generated code. CRC-32 is a parameter.
\<close>

unbundle bit_operations_syntax

section \<open>The schema\<close>

type_synonym ConstructorNumber = u32

record Condition =
  field_ref :: string
  bit_selector :: "nat option"

datatype FieldType =
    PlainType string "Condition option"
  | Repetition "string option" "Field list"
and Field = Field "string option" FieldType bool

record OptionalField =
  opt_name :: string
  opt_type :: string

record Combinator =
  functional :: bool
  builtin :: bool
  comb_id :: string
  result_type :: string
  constructor_number :: "ConstructorNumber option"
  optional_fields :: "OptionalField list"
  comb_fields :: "Field list"

fun join :: "string \<Rightarrow> string list \<Rightarrow> string" where
  "join sep [] = []"
| "join sep [x] = x"
| "join sep (x # y # zs) = x @ sep @ join sep (y # zs)"

definition condition_form :: "Condition \<Rightarrow> string" where
  "condition_form c = (case bit_selector c of None \<Rightarrow> field_ref c | Some b \<Rightarrow> field_ref c @ ''.'' @ dec_nat b)"

definition optional_field_form :: "OptionalField \<Rightarrow> string" where
  "optional_field_form f = opt_name f @ '':'' @ opt_type f"

fun field_type_form :: "FieldType \<Rightarrow> string" and field_form :: "Field \<Rightarrow> string" where
  "field_type_form (PlainType name None) = name"
| "field_type_form (PlainType name (Some condition)) = condition_form condition @ ''?'' @ name"
| "field_type_form (Repetition None flds) = ''[ '' @ join '' '' (map field_form flds) @ '' ]''"
| "field_type_form (Repetition (Some multiplicity) flds) =
     multiplicity @ ''*[ '' @ join '' '' (map field_form flds) @ '' ]''"
| "field_form (Field None t _) = field_type_form t"
| "field_form (Field (Some name) t _) = name @ '':'' @ field_type_form t"

definition constructor_number_form :: "Combinator \<Rightarrow> string" where
  "constructor_number_form c =
     (let optional = join '' '' (map optional_field_form (optional_fields c));
          flds = join '' '' (map field_form (comb_fields c));
          lhs = join '' '' (filter (\<lambda>l. l \<noteq> []) [comb_id c, optional, flds]) in
      lhs @ '' = '' @ result_type c)"

definition constructor_number_le :: "(string \<Rightarrow> u32) \<Rightarrow> Combinator \<Rightarrow> u32" where
  "constructor_number_le crc32 c =
     (case constructor_number c of Some n \<Rightarrow> n | None \<Rightarrow> crc32 (constructor_number_form c))"

text \<open>\<open>u32::to_be\<close> on a little-endian machine swaps the bytes.\<close>

definition constructor_number_be :: "(string \<Rightarrow> u32) \<Rightarrow> Combinator \<Rightarrow> u32" where
  "constructor_number_be crc32 c = u32_of_be (u32_to_le (constructor_number_le crc32 c))"

fun field_id :: "Field \<Rightarrow> string option" where
  "field_id (Field name _ _) = name"

definition type_is_polymorphic :: "Field \<Rightarrow> bool" where
  "type_is_polymorphic f =
     (case f of Field _ (PlainType name _) _ \<Rightarrow> CHR ''<'' \<in> set name \<or> CHR '' '' \<in> set name | _ \<Rightarrow> False)"

definition field_type :: "Field \<Rightarrow> string option" where
  "field_type f =
     (case f of
        Field _ (PlainType name _) _ \<Rightarrow>
          if \<not> type_is_polymorphic f then Some name
          else (case split_once CHR ''<'' name of
                  Some (left, _) \<Rightarrow> Some left
                | None \<Rightarrow> map_option fst (split_once CHR '' '' name))
      | _ \<Rightarrow> None)"

definition type_condition :: "Field \<Rightarrow> Condition option" where
  "type_condition f = (case f of Field _ (PlainType _ c) _ \<Rightarrow> c | _ \<Rightarrow> None)"

definition type_is_optional :: "Field \<Rightarrow> bool" where
  "type_is_optional f = (case f of Field _ (PlainType _ c) _ \<Rightarrow> c \<noteq> None | _ \<Rightarrow> False)"

fun split_on :: "char \<Rightarrow> string \<Rightarrow> string list" where
  "split_on c s = (case split_once c s of None \<Rightarrow> [s]
     | Some (a, b) \<Rightarrow> (if length b < length s then a # split_on c b else [a]))"

definition trim :: "string \<Rightarrow> string" where
  "trim s = (let ws = (\<lambda>c. c \<in> set '' \<newline>'' \<or> of_char c \<in> {9 :: nat, 11, 12, 13}) in
     rev (dropWhile ws (rev (dropWhile ws s))))"

definition type_variables :: "Field \<Rightarrow> string list option" where
  "type_variables f =
     (case f of
        Field _ (PlainType name _) _ \<Rightarrow>
          if CHR '' '' \<in> set name then
            (case split_once CHR '' '' name of
               None \<Rightarrow> Some [] | Some (_, tail) \<Rightarrow> Some (map trim (split_on CHR '' '' tail)))
          else
            (case split_once CHR ''<'' name of
               None \<Rightarrow> Some []
             | Some (_, tail) \<Rightarrow> Some (map trim (split_on CHR '','' (filter (\<lambda>c. c \<noteq> CHR ''>'') tail))))
      | _ \<Rightarrow> None)"

section \<open>The generated structs\<close>

text \<open>The value of a field; the fields of other types hold a value of type \<open>'v\<close>.\<close>

datatype 'v tl_value =
    VNat i32 | VInt i32 | VLong i64 | VInt256 bytes | VBytes bytes | VString bytes | VOther 'v

text \<open>Readers and writers of the other types, and the test of \<open>String::from_utf8\<close>.\<close>

record 'v tl_env =
  other_ser :: "string \<Rightarrow> 'v ser"
  other_de :: "string \<Rightarrow> 'v de"
  utf8 :: "bytes \<Rightarrow> bool"

definition type_name :: "Field \<Rightarrow> string" where
  "type_name f = (case f of Field _ (PlainType name _) _ \<Rightarrow> name | _ \<Rightarrow> [])"

fun write_value :: "'v tl_env \<Rightarrow> Field \<Rightarrow> 'v tl_value ser" where
  "write_value E f (VNat x) = write_i31 x"
| "write_value E f (VInt x) = write_i32 x"
| "write_value E f (VLong x) = write_i64 x"
| "write_value E f (VInt256 x) = write_i256 x"
| "write_value E f (VBytes x) = write_bytes x"
| "write_value E f (VString x) = write_string x"
| "write_value E f (VOther x) = other_ser E (type_name f) x"

definition map_de :: "('a \<Rightarrow> 'b) \<Rightarrow> 'a de \<Rightarrow> 'b de" where
  "map_de f p = bind_de p (\<lambda>x. ret_de (f x))"

definition parse_value :: "'v tl_env \<Rightarrow> Field \<Rightarrow> 'v tl_value de" where
  "parse_value E f =
     (if field_type f = Some ''#'' then map_de VNat parse_i31
      else if field_type f = Some ''int'' then map_de VInt parse_i32
      else if field_type f = Some ''long'' then map_de VLong parse_i64
      else if field_type f = Some ''int256'' then map_de VInt256 parse_i256
      else if field_type f = Some ''bytes'' then map_de VBytes parse_bytes
      else if field_type f = Some ''string'' then map_de VString (parse_string (utf8 E))
      else map_de VOther (other_de E (type_name f)))"

text \<open>The mutable locals of the \<open>#\<close> fields; \<open>1 << bit\<close> is an \<open>i32\<close>.\<close>

type_synonym tl_locals = "string \<Rightarrow> i32"

definition bit_mask :: "nat \<Rightarrow> i32" where
  "bit_mask b = wrap_i32 (2 ^ b)"

text \<open>The name of a field; the generator unwraps it.\<close>

definition the_id :: "Field \<Rightarrow> string" where
  "the_id f = (case field_id f of Some n \<Rightarrow> n | None \<Rightarrow> [])"

fun serialize_def :: "Field \<times> 'v tl_value option \<Rightarrow> tl_locals \<Rightarrow> tl_locals" where
  "serialize_def (f, v) loc =
     (case type_condition f of
        None \<Rightarrow>
          (if field_type f = Some ''#'' then (case v of Some (VNat x) \<Rightarrow> loc(the_id f := x) | _ \<Rightarrow> loc) else loc)
      | Some c \<Rightarrow>
          (case (bit_selector c, v) of
             (Some b, Some _) \<Rightarrow> loc(field_ref c := loc (field_ref c) OR bit_mask b)
           | _ \<Rightarrow> loc))"

fun serialize_field :: "'v tl_env \<Rightarrow> tl_locals \<Rightarrow> Field \<times> 'v tl_value option \<Rightarrow> Serializer \<Rightarrow> Serializer" where
  "serialize_field E loc (f, v) se =
     (case type_condition f of
        None \<Rightarrow>
          (if field_type f = Some ''#'' then write_i31 (loc (the_id f)) se
           else (case v of Some x \<Rightarrow> write_value E f x se | None \<Rightarrow> se))
      | Some c \<Rightarrow> (case v of None \<Rightarrow> se | Some x \<Rightarrow> write_value E f x se))"

definition struct_serialize :: "'v tl_env \<Rightarrow> Field list \<Rightarrow> 'v tl_value option list ser" where
  "struct_serialize E fs vs se =
     (let loc = fold serialize_def (zip fs vs) (\<lambda>_. 0) in
      fold (serialize_field E loc) (zip fs vs) se)"

fun deserialize_fields :: "'v tl_env \<Rightarrow> tl_locals \<Rightarrow> Field list \<Rightarrow> 'v tl_value option list de" where
  "deserialize_fields E loc [] = ret_de []"
| "deserialize_fields E loc (f # fs) =
     (case type_condition f of
        None \<Rightarrow>
          bind_de (parse_value E f) (\<lambda>v.
            let loc' = (case v of VNat x \<Rightarrow> loc(the_id f := x) | _ \<Rightarrow> loc) in
            map_de (\<lambda>vs. Some v # vs) (deserialize_fields E loc' fs))
      | Some c \<Rightarrow>
          if (case bit_selector c of
                Some b \<Rightarrow> loc (field_ref c) AND bit_mask b > 0
              | None \<Rightarrow> loc (field_ref c) \<noteq> 0)
          then bind_de (parse_value E f) (\<lambda>v.
                 map_de (\<lambda>vs. Some v # vs) (deserialize_fields E loc fs))
          else map_de (\<lambda>vs. None # vs) (deserialize_fields E loc fs))"

definition struct_deserialize :: "'v tl_env \<Rightarrow> Field list \<Rightarrow> 'v tl_value option list de" where
  "struct_deserialize E fs = deserialize_fields E (\<lambda>_. 0) fs"

definition struct_serialize_boxed ::
  "'v tl_env \<Rightarrow> u32 \<Rightarrow> Field list \<Rightarrow> 'v tl_value option list ser" where
  "struct_serialize_boxed E number fs vs se =
     struct_serialize E fs vs (write_constructor_number number se)"

definition struct_deserialize_boxed ::
  "'v tl_env \<Rightarrow> u32 \<Rightarrow> Field list \<Rightarrow> u32 \<Rightarrow> 'v tl_value option list de" where
  "struct_deserialize_boxed E number fs n =
     (if n \<noteq> number then fail_de (UnexpectedConstructorNumber n) else struct_deserialize E fs)"

section \<open>The generated enums\<close>

text \<open>An enum is the list of its variants; a value is the position of the variant and its struct.\<close>

type_synonym tl_variants = "(u32 \<times> Field list) list"

fun enum_serialize :: "'v tl_env \<Rightarrow> tl_variants \<Rightarrow> (nat \<times> 'v tl_value option list) ser" where
  "enum_serialize E vars (i, vs) se =
     struct_serialize E (snd (vars ! i)) vs (write_constructor_number (fst (vars ! i)) se)"

fun enum_match :: "'v tl_env \<Rightarrow> nat \<Rightarrow> tl_variants \<Rightarrow> u32 \<Rightarrow> (nat \<times> 'v tl_value option list) de" where
  "enum_match E i [] n = fail_de (UnexpectedConstructorNumber n)"
| "enum_match E i ((number, fs) # rest) n =
     (if n = number then map_de (Pair i) (struct_deserialize E fs) else enum_match E (Suc i) rest n)"

definition enum_deserialize_boxed ::
  "'v tl_env \<Rightarrow> tl_variants \<Rightarrow> u32 \<Rightarrow> (nat \<times> 'v tl_value option list) de" where
  "enum_deserialize_boxed E vars n = enum_match E 0 vars n"

definition enum_deserialize :: "'v tl_env \<Rightarrow> tl_variants \<Rightarrow> (nat \<times> 'v tl_value option list) de" where
  "enum_deserialize E vars = bind_de parse_constructor_number (\<lambda>n. enum_deserialize_boxed E vars n)"

text \<open>
  \<open>wait_seqno.rs\<close>: a request with a prefix that makes the liteserver wait for a block; the prefix is
  the struct \<open>liteServer.waitMasterchainSeqno seqno:int timeout_ms:int\<close>.
\<close>

definition wait_seqno_with_timeout ::
  "'r \<Rightarrow> i32 \<Rightarrow> nat \<Rightarrow> 'v tl_value option list \<times> 'r" where
  "wait_seqno_with_timeout request seqno millis =
     ([Some (VInt seqno), Some (VInt (wrap_i32 (int millis)))], request)"

definition wait_seqno_new :: "'r \<Rightarrow> i32 \<Rightarrow> 'v tl_value option list \<times> 'r" where
  "wait_seqno_new request seqno = wait_seqno_with_timeout request seqno 3000"

definition wait_seqno_serialize_boxed ::
  "'p ser \<Rightarrow> 'r ser \<Rightarrow> ('p \<times> 'r) ser" where
  "wait_seqno_serialize_boxed prefix_ser request_ser w se = request_ser (snd w) (prefix_ser (fst w) se)"

section \<open>Reading back the value of a field\<close>

text \<open>The values of a field that its type admits; \<open>valid\<close> says it for the other types.\<close>

fun value_ok :: "'v tl_env \<Rightarrow> (string \<Rightarrow> 'v \<Rightarrow> bool) \<Rightarrow> Field \<Rightarrow> 'v tl_value \<Rightarrow> bool" where
  "value_ok E valid f (VNat x) \<longleftrightarrow> field_type f = Some ''#'' \<and> 0 \<le> x \<and> x < 2 ^ 31"
| "value_ok E valid f (VInt x) \<longleftrightarrow> field_type f = Some ''int'' \<and> i32_range x"
| "value_ok E valid f (VLong x) \<longleftrightarrow> field_type f = Some ''long'' \<and> i64_range x"
| "value_ok E valid f (VInt256 x) \<longleftrightarrow> field_type f = Some ''int256'' \<and> length x = 32"
| "value_ok E valid f (VBytes x) \<longleftrightarrow> field_type f = Some ''bytes'' \<and> length x < 2 ^ 24"
| "value_ok E valid f (VString x) \<longleftrightarrow> field_type f = Some ''string'' \<and> length x < 2 ^ 24 \<and> utf8 E x"
| "value_ok E valid f (VOther x) \<longleftrightarrow> valid (type_name f) x \<and>
     field_type f \<notin> Some ` {''#'', ''int'', ''long'', ''int256'', ''bytes'', ''string''}"

definition env_ok :: "'v tl_env \<Rightarrow> (string \<Rightarrow> 'v \<Rightarrow> bool) \<Rightarrow> bool" where
  "env_ok E valid \<longleftrightarrow> (\<forall>t. tl_codec (other_ser E t) (other_de E t) (valid t))"

lemma map_de_Inr: "p d = (Inr x, d') \<Longrightarrow> map_de f p d = (Inr (f x), d')"
  by (simp add: map_de_def de_simps)

lemma write_string_bytes: "write_string = write_bytes"
  by (rule ext) (simp add: write_string_def)

lemma enc_of_write_value [simp]:
  "enc_of (write_value E f) (VNat x) = enc_of write_i31 x"
  "enc_of (write_value E f) (VInt y) = enc_of write_i32 y"
  "enc_of (write_value E f) (VLong z) = enc_of write_i64 z"
  "enc_of (write_value E f) (VInt256 h) = enc_of write_i256 h"
  "enc_of (write_value E f) (VBytes b) = enc_of write_bytes b"
  "enc_of (write_value E f) (VString b) = enc_of write_bytes b"
  "enc_of (write_value E f) (VOther v) = enc_of (other_ser E (type_name f)) v"
  by (simp_all add: enc_of_def write_string_bytes)

lemma value_codec:
  assumes "env_ok E valid"
  shows "tl_codec (write_value E f) (parse_value E f) (value_ok E valid f)"
proof
  have other: "tl_codec (other_ser E (type_name f)) (other_de E (type_name f)) (valid (type_name f))"
    using assms by (simp add: env_ok_def)
  show "write_value E f v se = put (enc_of (write_value E f) v) se" for v se
    using i31.ser_append i32.ser_append i64.ser_append i256.ser_append tl_byte_string.ser_append
      tl_codec.ser_append [OF other]
    by (cases v) (simp_all add: write_string_bytes)
  show "parse_value E f \<lparr>de_input = enc_of (write_value E f) v @ rest\<rparr> = (Inr v, \<lparr>de_input = rest\<rparr>)"
    if "value_ok E valid f v" for v rest
    using that tl_codec.roundtrip [OF other]
    by (cases v) (auto simp: parse_value_def parse_string_def de_simps i31.roundtrip i32.roundtrip
        i64.roundtrip i256.roundtrip parse_tl_bytes intro!: map_de_Inr)
qed

section \<open>Flags\<close>

lemma bit_mask_small: "b < 31 \<Longrightarrow> bit_mask b = 2 ^ b"
proof -
  assume "b < 31"
  then have "(2 :: int) ^ b \<le> 2 ^ 30" by (intro power_increasing) simp_all
  then have "i32_range (2 ^ b)" unfolding i32_range_def by (smt (verit) zero_less_power power_le_one_iff
        power_increasing_iff numeral_le_iff one_less_numeral_iff semiring_norm)
  then show ?thesis by (simp add: bit_mask_def wrap_i32_id)
qed

lemma and_bit_mask: "b < 31 \<Longrightarrow> x AND bit_mask b > 0 \<longleftrightarrow> bit x b" for x :: int
proof -
  define y where "y = x AND 2 ^ b"
  have "0 \<le> y" "y = 0 \<longleftrightarrow> \<not> bit x b" by (simp_all add: y_def and_exp_eq_0_iff_not_bit)
  then show "b < 31 \<Longrightarrow> ?thesis" by (auto simp: bit_mask_small simp flip: y_def)
qed

lemma or_i31:
  assumes "0 \<le> x" "x < 2 ^ 31" "b < 31"
  shows "0 \<le> x OR bit_mask b \<and> x OR bit_mask b < 2 ^ 31"
proof -
  have "(2 :: int) ^ b < 2 ^ 31" using assms(3) by (intro power_strict_increasing) simp_all
  with OR_upper [OF assms(1,2), of "2 ^ b"] assms show ?thesis by (simp add: bit_mask_small)
qed

text \<open>
  Field lists for which code is generated and compiles: every field has a name, the names of the flag
  fields differ, and a condition names a bit below 31 of a flag field that comes before it.
\<close>

fun wf_fields :: "string set \<Rightarrow> Field list \<Rightarrow> bool" where
  "wf_fields known [] \<longleftrightarrow> True"
| "wf_fields known (f # fs) \<longleftrightarrow>
     (case type_condition f of
        None \<Rightarrow>
          if field_type f = Some ''#'' then the_id f \<notin> known \<and> wf_fields (insert (the_id f) known) fs
          else wf_fields known fs
      | Some c \<Rightarrow>
          field_ref c \<in> known \<and> (case bit_selector c of Some b \<Rightarrow> b < 31 | None \<Rightarrow> False)
          \<and> wf_fields known fs)"

text \<open>The value of a field has the type of the field; only conditional fields may be absent.\<close>

fun typed :: "'v tl_env \<Rightarrow> (string \<Rightarrow> 'v \<Rightarrow> bool) \<Rightarrow> Field \<Rightarrow> 'v tl_value option \<Rightarrow> bool" where
  "typed E valid f (Some v) \<longleftrightarrow> value_ok E valid f v"
| "typed E valid f None \<longleftrightarrow> type_condition f \<noteq> None"

definition flag_set :: "tl_locals \<Rightarrow> Condition \<Rightarrow> bool" where
  "flag_set loc c \<longleftrightarrow> (case bit_selector c of Some b \<Rightarrow> bit (loc (field_ref c)) b | None \<Rightarrow> False)"

definition final_locals :: "Field list \<Rightarrow> 'v tl_value option list \<Rightarrow> tl_locals" where
  "final_locals fs vs = fold serialize_def (zip fs vs) (\<lambda>_. 0)"

lemma locals_range:
  assumes "wf_fields known fs" "list_all2 (typed E valid) fs vs" "\<forall>n. 0 \<le> loc n \<and> loc n < 2 ^ 31"
  shows "0 \<le> fold serialize_def (zip fs vs) loc n \<and> fold serialize_def (zip fs vs) loc n < 2 ^ 31"
  using assms
proof (induction fs arbitrary: vs loc known)
  case (Cons f fs)
  then obtain v ws where vs: "vs = v # ws" "typed E valid f v" "list_all2 (typed E valid) fs ws"
    by (auto simp: list_all2_Cons1)
  have "0 \<le> serialize_def (f, v) loc m \<and> serialize_def (f, v) loc m < 2 ^ 31" for m
    using Cons.prems vs(2) or_i31 [of "loc m"]
    by (auto split: option.splits tl_value.splits)
  moreover obtain known' where "wf_fields known' fs"
    using Cons.prems(1) by (auto split: option.splits if_splits)
  ultimately show ?case using Cons.IH [of known' ws "serialize_def (f, v) loc"] vs by simp
qed simp

lemma locals_keep:
  assumes "wf_fields known fs" "length fs = length vs" "n \<in> known" "bit (loc n) b"
  shows "bit (fold serialize_def (zip fs vs) loc n) b"
  using assms
proof (induction fs arbitrary: vs loc known)
  case (Cons f fs)
  then obtain v ws where vs: "vs = v # ws" "length fs = length ws" by (cases vs) auto
  have "bit (serialize_def (f, v) loc n) b"
    using Cons.prems by (auto simp: bit_or_iff split: option.splits tl_value.splits if_splits)
  moreover obtain known' where "wf_fields known' fs" "n \<in> known'"
    using Cons.prems(1,3) by (auto split: option.splits if_splits)
  ultimately show ?case using Cons.IH [of known' ws "serialize_def (f, v) loc"] vs by simp
qed simp

lemma locals_present:
  assumes "wf_fields known fs" "length fs = length vs" "(f, Some v) \<in> set (zip fs vs)" "type_condition f = Some c"
  shows "flag_set (fold serialize_def (zip fs vs) loc) c"
  using assms
proof (induction fs arbitrary: vs loc known)
  case (Cons g fs)
  then obtain w ws where vs: "vs = w # ws" "length fs = length ws" by (cases vs) auto
  show ?case
  proof (cases "(f, Some v) = (g, w)")
    case True
    with Cons.prems obtain b where b: "bit_selector c = Some b" "field_ref c \<in> known" "wf_fields known fs" "b < 31"
      by (auto split: option.splits)
    have "bit (serialize_def (g, w) loc (field_ref c)) b"
      using True Cons.prems(4) b by (auto simp: bit_or_iff bit_mask_small bit_exp_iff)
    with locals_keep [OF b(3) vs(2) b(2), where loc = "serialize_def (g, w) loc" and b = b] show ?thesis
      using vs b by (simp add: flag_set_def)
  next
    case False
    moreover obtain known' where "wf_fields known' fs"
      using Cons.prems(1) by (auto split: option.splits if_splits)
    ultimately show ?thesis using Cons.IH [of known' ws "serialize_def (g, w) loc"] Cons.prems vs
      by (auto simp del: serialize_def.simps)
  qed
qed simp

section \<open>Reading back a struct\<close>

definition field_bytes :: "'v tl_env \<Rightarrow> tl_locals \<Rightarrow> Field \<times> 'v tl_value option \<Rightarrow> bytes" where
  "field_bytes E loc fv = se_output (serialize_field E loc fv \<lparr>se_output = []\<rparr>)"

text \<open>What the reader gets for a field: the flag fields come back with all their bits.\<close>

definition stored :: "tl_locals \<Rightarrow> Field \<Rightarrow> 'v tl_value option \<Rightarrow> 'v tl_value option" where
  "stored loc f v =
     (if type_condition f = None \<and> field_type f = Some ''#'' then Some (VNat (loc (the_id f))) else v)"

definition fits :: "'v tl_env \<Rightarrow> (string \<Rightarrow> 'v \<Rightarrow> bool) \<Rightarrow> tl_locals \<Rightarrow> Field \<Rightarrow> 'v tl_value option \<Rightarrow> bool" where
  "fits E valid loc f v \<longleftrightarrow> typed E valid f v
     \<and> (type_condition f = None \<and> field_type f = Some ''#'' \<longrightarrow> 0 \<le> loc (the_id f) \<and> loc (the_id f) < 2 ^ 31)
     \<and> (\<forall>c. type_condition f = Some c \<longrightarrow> (v \<noteq> None \<longleftrightarrow> flag_set loc c))"

lemma fold_serialize_field:
  assumes "env_ok E valid"
  shows "fold (serialize_field E loc) fvs se = put (concat (map (field_bytes E loc) fvs)) se"
proof (induction fvs arbitrary: se)
  case (Cons fv fvs)
  have w: "write_value E f v se = put (enc_of (write_value E f) v) se" for f v se
    using tl_codec.ser_append [OF value_codec [OF assms]] .
  have "serialize_field E loc fv se = put (field_bytes E loc fv) se" for se
    by (cases fv) (auto simp: field_bytes_def w i31.ser_append [of "loc _"]
        split: option.splits simp del: write_value.simps)
  with Cons show ?case by simp
qed simp

lemma field_bytes_simps:
  assumes "env_ok E valid"
  shows "type_condition f = None \<Longrightarrow> field_type f = Some ''#'' \<Longrightarrow>
      field_bytes E loc (f, v) = enc_of (write_value E f) (VNat (loc (the_id f)))"
    and "type_condition f = None \<Longrightarrow> field_type f \<noteq> Some ''#'' \<Longrightarrow>
      field_bytes E loc (f, Some x) = enc_of (write_value E f) x"
    and "type_condition f = Some c \<Longrightarrow> field_bytes E loc (f, Some x) = enc_of (write_value E f) x"
    and "type_condition f = Some c \<Longrightarrow> field_bytes E loc (f, None) = []"
  by (simp_all add: field_bytes_def enc_of_def)

lemma deserialize_fields_roundtrip:
  assumes env: "env_ok E valid" and "wf_fields known fs" "list_all2 (fits E valid loc) fs vs"
    and "\<forall>n \<in> known. loc0 n = loc n"
  shows "deserialize_fields E loc0 fs \<lparr>de_input = concat (map (field_bytes E loc) (zip fs vs)) @ rest\<rparr>
    = (Inr (map2 (stored loc) fs vs), \<lparr>de_input = rest\<rparr>)"
  using assms(2-)
proof (induction fs arbitrary: vs loc0 known)
  case Nil
  then show ?case by (simp add: de_simps)
next
  case (Cons f fs)
  then obtain v ws where vs: "vs = v # ws" "fits E valid loc f v" "list_all2 (fits E valid loc) fs ws"
    by (auto simp: list_all2_Cons1)
  let ?rest = "concat (map (field_bytes E loc) (zip fs ws)) @ rest"
  have parse: "parse_value E f \<lparr>de_input = enc_of (write_value E f) x @ r\<rparr> = (Inr x, \<lparr>de_input = r\<rparr>)"
    if "value_ok E valid f x" for x r
    using tl_codec.roundtrip [OF value_codec [OF env]] that .
  have bindp: "bind_de (parse_value E f) g \<lparr>de_input = enc_of (write_value E f) x @ r\<rparr> = g x \<lparr>de_input = r\<rparr>"
    if "value_ok E valid f x" for x r and g :: "'a tl_value \<Rightarrow> 'a tl_value option list de"
    using parse [OF that] by (simp add: bind_de_def)
  have IH: "deserialize_fields E l fs \<lparr>de_input = ?rest\<rparr> = (Inr (map2 (stored loc) fs ws), \<lparr>de_input = rest\<rparr>)"
    if "wf_fields k fs" "\<forall>n \<in> k. l n = loc n" for k l
    using Cons.IH [OF that(1) vs(3) that(2)] .
  show ?case
  proof (cases "type_condition f")
    case None
    then obtain x where x: "v = Some x" "value_ok E valid f x" using vs(2) by (cases v) (auto simp: fits_def)
    show ?thesis
    proof (cases "field_type f = Some ''#''")
      case True
      let ?x = "VNat (loc (the_id f))"
      have "value_ok E valid f ?x" using True None vs(2) by (simp add: fits_def)
      moreover have "deserialize_fields E (loc0(the_id f := loc (the_id f))) fs \<lparr>de_input = ?rest\<rparr>
          = (Inr (map2 (stored loc) fs ws), \<lparr>de_input = rest\<rparr>)"
        using True None Cons.prems by (intro IH [of "insert (the_id f) known"]) auto
      ultimately show ?thesis using True None vs(1)
        by (simp add: field_bytes_simps [OF env] bindp stored_def map_de_Inr
            del: enc_of_write_value)
    next
      case False
      then have "(case x of VNat y \<Rightarrow> loc0(the_id f := y) | _ \<Rightarrow> loc0) = loc0"
        using x(2) by (cases x) auto
      moreover have "deserialize_fields E loc0 fs \<lparr>de_input = ?rest\<rparr>
          = (Inr (map2 (stored loc) fs ws), \<lparr>de_input = rest\<rparr>)"
        using False None Cons.prems by (intro IH [of known]) auto
      ultimately show ?thesis using False None vs(1) x
        by (simp add: field_bytes_simps [OF env] bindp stored_def map_de_Inr
            del: enc_of_write_value)
    qed
  next
    case (Some c)
    then obtain b where b: "bit_selector c = Some b" "b < 31" "field_ref c \<in> known" "wf_fields known fs"
      using Cons.prems(1) by (auto split: option.splits)
    have flag: "loc0 (field_ref c) AND bit_mask b > 0 \<longleftrightarrow> v \<noteq> None"
      using Some b vs(2) Cons.prems(3) by (simp add: and_bit_mask fits_def flag_set_def)
    have ih: "deserialize_fields E loc0 fs \<lparr>de_input = ?rest\<rparr>
        = (Inr (map2 (stored loc) fs ws), \<lparr>de_input = rest\<rparr>)"
      using b(4) Cons.prems(3) by (rule IH)
    show ?thesis
    proof (cases v)
      case None
      with Some b flag vs ih show ?thesis
        by (simp add: field_bytes_simps [OF env] stored_def map_de_Inr)
    next
      case (Some x)
      with \<open>type_condition f = Some c\<close> b flag vs ih show ?thesis
        by (simp add: field_bytes_simps [OF env] bindp fits_def stored_def map_de_Inr
            del: enc_of_write_value)
    qed
  qed
qed

definition absent_unset :: "Field list \<Rightarrow> 'v tl_value option list \<Rightarrow> bool" where
  "absent_unset fs vs \<longleftrightarrow> (\<forall>(f, v) \<in> set (zip fs vs). \<forall>c. v = None \<and> type_condition f = Some c
     \<longrightarrow> \<not> flag_set (final_locals fs vs) c)"

lemma final_fits:
  assumes "wf_fields {} fs" "list_all2 (typed E valid) fs vs" "absent_unset fs vs"
  shows "list_all2 (fits E valid (final_locals fs vs)) fs vs"
proof -
  have len: "length fs = length vs" using assms(2) by (rule list_all2_lengthD)
  have "0 \<le> final_locals fs vs n \<and> final_locals fs vs n < 2 ^ 31" for n
    unfolding final_locals_def using locals_range [OF assms(1,2)] by simp
  moreover have "flag_set (final_locals fs vs) c"
    if "(f, Some v) \<in> set (zip fs vs)" "type_condition f = Some c" for f v c
    unfolding final_locals_def using locals_present [OF assms(1) len that] .
  ultimately have "fits E valid (final_locals fs vs) f v" if "(f, v) \<in> set (zip fs vs)" for f v
    using that assms(2,3) unfolding fits_def absent_unset_def list_all2_iff by (cases v) fastforce+
  with len show ?thesis by (auto simp: list_all2_iff)
qed

lemma enc_of_struct:
  assumes "env_ok E valid"
  shows "enc_of (struct_serialize E fs) vs = concat (map (field_bytes E (final_locals fs vs)) (zip fs vs))"
  by (simp add: enc_of_def struct_serialize_def Let_def fold_serialize_field [OF assms] final_locals_def)

lemma struct_append:
  assumes "env_ok E valid"
  shows "struct_serialize E fs vs se = put (enc_of (struct_serialize E fs) vs) se"
  by (simp add: enc_of_struct [OF assms] struct_serialize_def Let_def fold_serialize_field [OF assms]
      final_locals_def)

lemma struct_reads_back:
  assumes "env_ok E valid" "wf_fields {} fs" "list_all2 (typed E valid) fs vs" "absent_unset fs vs"
  shows "struct_deserialize E fs \<lparr>de_input = enc_of (struct_serialize E fs) vs @ rest\<rparr>
    = (Inr (map2 (stored (final_locals fs vs)) fs vs), \<lparr>de_input = rest\<rparr>)"
  unfolding struct_deserialize_def enc_of_struct [OF assms(1)]
  using deserialize_fields_roundtrip [OF assms(1,2) final_fits [OF assms(2-4)]] by simp

text \<open>Values whose flag fields already carry their bits; for them the generated code is a codec.\<close>

definition consistent :: "'v tl_env \<Rightarrow> (string \<Rightarrow> 'v \<Rightarrow> bool) \<Rightarrow> Field list \<Rightarrow> 'v tl_value option list \<Rightarrow> bool" where
  "consistent E valid fs vs \<longleftrightarrow> wf_fields {} fs \<and> list_all2 (typed E valid) fs vs \<and> absent_unset fs vs
     \<and> map2 (stored (final_locals fs vs)) fs vs = vs"

lemma struct_codec:
  assumes "env_ok E valid"
  shows "tl_codec (struct_serialize E fs) (struct_deserialize E fs) (consistent E valid fs)"
  using struct_reads_back [OF assms] struct_append [OF assms]
  by unfold_locales (simp_all add: consistent_def)

lemma enum_match_nth:
  assumes "distinct (map fst vars)" "i < length vars"
  shows "enum_match E k vars (fst (vars ! i)) = map_de (Pair (k + i)) (struct_deserialize E (snd (vars ! i)))"
  using assms
proof (induction vars arbitrary: i k)
  case (Cons v vars)
  show ?case
  proof (cases i)
    case (Suc j)
    with Cons.prems have "fst (vars ! j) \<in> set (map fst vars)" by simp
    with Cons.prems(1) have "fst (vars ! j) \<noteq> fst v" by (metis distinct.simps(2) list.simps(9))
    with Cons Suc show ?thesis by (cases v) simp
  qed (cases v; simp)
qed simp

lemma enum_match_unknown:
  "n \<notin> set (map fst vars) \<Longrightarrow> enum_match E k vars n = fail_de (UnexpectedConstructorNumber n)"
  by (induction vars arbitrary: k) auto

lemma from_bytes_boxed_number:
  "from_bytes_boxed p (u32_to_be n @ bs) =
    (case p n \<lparr>de_input = bs\<rparr> of (Inl e, _) \<Rightarrow> Inl e
     | (Inr t, d) \<Rightarrow> if de_input d = [] then Inr t else Inl (DeserializeError InputNotEmpty))"
proof -
  have "parse_constructor_number \<lparr>de_input = u32_to_be n @ bs\<rparr> = (Inr n, \<lparr>de_input = bs\<rparr>)"
    by (simp add: parse_constructor_number_def de_simps)
  then show ?thesis
    by (simp add: from_bytes_boxed_def bind_de_def ret_de_def fail_de_def split: prod.splits sum.splits)
qed

lemma to_bytes_struct_boxed:
  assumes "env_ok E valid"
  shows "to_bytes_boxed (struct_serialize_boxed E n fs) vs = u32_to_be n @ enc_of (struct_serialize E fs) vs"
  by (simp add: to_bytes_boxed_def struct_serialize_boxed_def write_constructor_number_def
      struct_append [OF assms, of fs vs "put _ _"])

lemma struct_reads_all:
  assumes "env_ok E valid" "consistent E valid fs vs"
  shows "struct_deserialize E fs \<lparr>de_input = enc_of (struct_serialize E fs) vs\<rparr> = (Inr vs, \<lparr>de_input = []\<rparr>)"
  using tl_codec.roundtrip [OF struct_codec [OF assms(1)] assms(2), of "[]"] by simp

lemma struct_boxed_roundtrip:
  assumes "env_ok E valid" "consistent E valid fs vs"
  shows "from_bytes_boxed (struct_deserialize_boxed E n fs) (to_bytes_boxed (struct_serialize_boxed E n fs) vs) = Inr vs"
  unfolding to_bytes_struct_boxed [OF assms(1)] from_bytes_boxed_number
  using struct_reads_all [OF assms] by (simp add: struct_deserialize_boxed_def)

section \<open>Properties\<close>

text \<open>
  C33. A generated struct is read back from what it wrote, and the reader stops after it. The flag fields
  come back with the bits of the optional fields that are present added; this needs that no flag bit is
  set by hand for an optional field that is absent.
\<close>

theorem struct_flags_roundtrip:
  assumes "env_ok E valid" and "wf_fields {} fs" and "list_all2 (typed E valid) fs vs"
    and "absent_unset fs vs"
  shows "struct_deserialize E fs \<lparr>de_input = enc_of (struct_serialize E fs) vs @ rest\<rparr>
    = (Inr (map2 (stored (final_locals fs vs)) fs vs), \<lparr>de_input = rest\<rparr>)"
  using struct_reads_back [OF assms] .

text \<open>The request \<open>liteServer.lookupBlock mode:# id:tonNode.blockId lt:mode.1?long utime:mode.2?int\<close>.\<close>

definition lookup_block_fields :: "Field list" where
  "lookup_block_fields =
     [Field (Some ''mode'') (PlainType ''#'' None) False,
      Field (Some ''id'') (PlainType ''tonNode.blockId'' None) False,
      Field (Some ''lt'') (PlainType ''long'' (Some \<lparr>field_ref = ''mode'', bit_selector = Some 1\<rparr>)) False,
      Field (Some ''utime'') (PlainType ''int'' (Some \<lparr>field_ref = ''mode'', bit_selector = Some 2\<rparr>)) False]"

definition hash_env :: "bytes tl_env" where
  "hash_env = \<lparr>other_ser = (\<lambda>_. write_i256), other_de = (\<lambda>_. parse_i256), utf8 = (\<lambda>_. True)\<rparr>"

lemma hash_env_ok: "env_ok hash_env (\<lambda>_ v. length v = 32)"
  by (simp add: env_ok_def hash_env_def i256.tl_codec_axioms)

lemmas schema_simps = lookup_block_fields_def type_condition_def field_type_def type_is_polymorphic_def
  the_id_def type_name_def

theorem struct_flags_roundtrip_witness:
  "struct_deserialize hash_env lookup_block_fields \<lparr>de_input = enc_of (struct_serialize hash_env
      lookup_block_fields) [Some (VNat 0), Some (VOther (replicate 32 1)), Some (VLong 77), None] @ [9]\<rparr>
    = (Inr [Some (VNat 2), Some (VOther (replicate 32 1)), Some (VLong 77), None], \<lparr>de_input = [9]\<rparr>)"
  using struct_flags_roundtrip [OF hash_env_ok, of lookup_block_fields
      "[Some (VNat 0), Some (VOther (replicate 32 1)), Some (VLong 77), None]" "[9]"]
  by (simp add: absent_unset_def flag_set_def stored_def schema_simps i64_range_def final_locals_def
      bit_mask_small numeral_2_eq_2 bit_Suc)

text \<open>
  A generated enum whose variants have different constructor numbers is read back from its boxed
  encoding, and a message with another constructor number is refused with that number.
\<close>

lemma enum_boxed_roundtrip:
  assumes "env_ok E valid" and "distinct (map fst vars)"
    and "i < length vars" and "consistent E valid (snd (vars ! i)) vs"
    and "n \<notin> set (map fst vars)"
  shows "from_bytes_boxed (enum_deserialize_boxed E vars) (to_bytes_boxed (enum_serialize E vars) (i, vs))
      = Inr (i, vs)
    \<and> from_bytes_boxed (enum_deserialize_boxed E vars) (u32_to_be n @ bs) = Inl (UnexpectedConstructorNumber n)"
proof -
  let ?fs = "snd (vars ! i)" and ?n = "fst (vars ! i)"
  have bytes: "to_bytes_boxed (enum_serialize E vars) (i, vs) = u32_to_be ?n @ enc_of (struct_serialize E ?fs) vs"
    by (simp add: to_bytes_boxed_def write_constructor_number_def struct_append [OF assms(1), of ?fs vs "put _ _"])
  have "struct_deserialize E ?fs \<lparr>de_input = enc_of (struct_serialize E ?fs) vs @ []\<rparr>
      = (Inr vs, \<lparr>de_input = []\<rparr>)"
    using tl_codec.roundtrip [OF struct_codec [OF assms(1)] assms(4)] .
  with assms(2,3) show ?thesis
    unfolding bytes from_bytes_boxed_number enum_deserialize_boxed_def
    by (simp add: enum_match_nth map_de_Inr enum_match_unknown [OF assms(5)] fail_de_def)
qed

text \<open>
  An answer of the liteserver is read as what it is: a message of the expected type as the result, a
  \<open>liteServer.error\<close> as the error, whenever the constructor numbers of the two differ.
\<close>

lemma result_or_error:
  assumes "env_ok E valid" and "number \<noteq> err_number"
    and "consistent E valid fs vs" and "consistent E valid err_fs err"
  shows "from_bytes_boxed (result_deserialize_boxed (struct_deserialize_boxed E number fs)
        (struct_deserialize_boxed E err_number err_fs)) (to_bytes_boxed (struct_serialize_boxed E number fs) vs)
      = Inr (Inr vs)
    \<and> from_bytes_boxed (result_deserialize_boxed (struct_deserialize_boxed E number fs)
        (struct_deserialize_boxed E err_number err_fs))
        (to_bytes_boxed (struct_serialize_boxed E err_number err_fs) err)
      = Inr (Inl err)"
proof -
  show ?thesis
    unfolding to_bytes_struct_boxed [OF assms(1)] from_bytes_boxed_number
    using assms(2) struct_reads_all [OF assms(1,3)] struct_reads_all [OF assms(1,4)]
    by (simp add: result_deserialize_boxed_def struct_deserialize_boxed_def bind_de_def ret_de_def fail_de_def)
qed

end
