(* ===== verification/Tonlibjson_Codegen.thy ===== *)
theory Tonlibjson_Codegen
  imports Tl_Codegen "HOL-Library.Multiset"
begin

text \<open>
  The code generator of the client over the C++ library (\<open>tonlibjson-client/build.rs\<close>): from the combinators of a
  schema and the configuration in \<open>main\<close> to the declarations that are written. A declaration is kept as data; its tokens,
  as \<open>quote\<close> and \<open>prettyplease\<close> print them, are not modelled. \<open>to_case\<close> of the \<open>convert_case\<close> crate and
  the order in which a hash map is visited are arguments.
\<close>

section \<open>Configuration\<close>

record FieldConfiguration =
  fc_skip :: bool
  fc_optional :: bool
  fc_deserialize_with :: "string option"
  fc_serialize_with :: "string option"

definition configure_field :: FieldConfiguration where
  "configure_field = \<lparr>fc_skip = False, fc_optional = False, fc_deserialize_with = None, fc_serialize_with = None\<rparr>"

definition fc_set_skip :: "FieldConfiguration \<Rightarrow> FieldConfiguration" where
  "fc_set_skip c = c\<lparr>fc_skip := True\<rparr>"

definition fc_set_optional :: "FieldConfiguration \<Rightarrow> FieldConfiguration" where
  "fc_set_optional c = c\<lparr>fc_optional := True\<rparr>"

definition deserialize_with :: "string \<Rightarrow> FieldConfiguration \<Rightarrow> FieldConfiguration" where
  "deserialize_with f c = c\<lparr>fc_deserialize_with := Some f\<rparr>"

definition serialize_with :: "string \<Rightarrow> FieldConfiguration \<Rightarrow> FieldConfiguration" where
  "serialize_with f c = c\<lparr>fc_serialize_with := Some f\<rparr>"

record TypeConfiguration =
  tc_derives :: "string list"
  tc_fields :: "string \<rightharpoonup> FieldConfiguration"

definition configure_type :: TypeConfiguration where
  "configure_type = \<lparr>tc_derives = [], tc_fields = (\<lambda>_. None)\<rparr>"

definition default_type_configuration :: TypeConfiguration where
  "default_type_configuration =
     \<lparr>tc_derives = [''Debug'', ''Clone'', ''Serialize'', ''Deserialize''], tc_fields = (\<lambda>_. None)\<rparr>"

definition tc_set_derives :: "string list \<Rightarrow> TypeConfiguration \<Rightarrow> TypeConfiguration" where
  "tc_set_derives ds c = c\<lparr>tc_derives := ds @ [''Debug'']\<rparr>"

definition tc_set_field :: "string \<Rightarrow> FieldConfiguration \<Rightarrow> TypeConfiguration \<Rightarrow> TypeConfiguration" where
  "tc_set_field f fc c = c\<lparr>tc_fields := (tc_fields c)(f \<mapsto> fc)\<rparr>"

text \<open>The configured types of a generator.\<close>

type_synonym gen_types = "string \<rightharpoonup> TypeConfiguration"

definition configure_full :: "string \<Rightarrow> TypeConfiguration \<Rightarrow> gen_types \<Rightarrow> gen_types" where
  "configure_full name c types = types(name \<mapsto> c)"

definition configure :: "string \<Rightarrow> string list \<Rightarrow> gen_types \<Rightarrow> gen_types" where
  "configure name ds types = types(name \<mapsto> tc_set_derives ds configure_type)"

text \<open>\<open>main\<close>.\<close>

definition tonlib_types :: gen_types where
  "tonlib_types = fold (\<lambda>f. f)
     [configure ''ok'' [''Deserialize''],
      configure ''sync'' [''Default'', ''Serialize''],
      configure_full ''accountAddress''
        (tc_set_field ''account_address''
          (deserialize_with ''deserialize_empty_as_none'' (serialize_with ''serialize_none_as_empty'' (fc_set_optional configure_field)))
          (tc_set_derives [''Clone'', ''Deserialize'', ''Serialize''] configure_type)),
      configure ''ton.blockId'' [''Clone'', ''Serialize'', ''Deserialize'', ''Eq'', ''PartialEq'', ''Hash'', ''new''],
      configure ''ton.blockIdExt'' [''Clone'', ''Serialize'', ''Deserialize'', ''Eq'', ''PartialEq'', ''Hash'', ''new''],
      configure ''blocks.masterchainInfo'' [''Clone'', ''Deserialize'', ''Eq'', ''PartialEq''],
      configure ''internal.transactionId'' [''Clone'', ''Serialize'', ''Deserialize'', ''Eq'', ''PartialEq''],
      configure_full ''raw.transactions''
        (tc_set_field ''previous_transaction_id''
          (deserialize_with ''deserialize_default_as_none'' (fc_set_optional configure_field))
          (tc_set_derives [''Deserialize''] configure_type)),
      configure_full ''raw.transaction''
        (tc_set_field ''in_msg'' (fc_set_optional configure_field)
          (tc_set_derives [''Clone'', ''Serialize'', ''Deserialize''] configure_type)),
      configure_full ''raw.fullAccountState''
        (tc_set_field ''last_transaction_id''
          (deserialize_with ''deserialize_default_as_none'' (fc_set_optional configure_field))
          (tc_set_field ''balance''
            (deserialize_with ''deserialize_ton_account_balance'' (fc_set_optional configure_field))
            (tc_set_derives [''Deserialize''] configure_type))),
      configure ''blocks.getBlockHeader'' [''Clone'', ''Serialize'', ''Hash'', ''PartialEq'', ''Eq'', ''new''],
      configure ''getShardAccountCell'' [''Clone'', ''Serialize'', ''new''],
      configure ''getShardAccountCellByTransaction'' [''Clone'', ''Serialize'', ''new''],
      configure ''raw.getAccountState'' [''Clone'', ''Serialize'', ''new''],
      configure ''raw.getAccountStateByTransaction'' [''Clone'', ''Serialize'', ''new''],
      configure ''getAccountState'' [''Clone'', ''Serialize'', ''new''],
      configure ''blocks.getMasterchainInfo'' [''Clone'', ''Default'', ''Serialize'', ''new''],
      configure ''blocks.lookupBlock'' [''Clone'', ''Serialize'', ''new'', ''Hash'', ''Eq'', ''PartialEq''],
      configure ''blocks.getShards'' [''Clone'', ''Serialize'', ''new''],
      configure ''blocks.getTransactions'' [''Clone'', ''Serialize'', ''new''],
      configure ''raw.sendMessage'' [''Serialize'', ''new''],
      configure ''raw.sendMessageReturnHash'' [''Serialize'', ''new''],
      configure ''smc.load'' [''Clone'', ''Serialize'', ''new''],
      configure ''smc.runGetMethod'' [''Clone'', ''Serialize'', ''new''],
      configure_full ''raw.getTransactionsV2''
        (tc_set_field ''private_key'' (fc_set_skip configure_field)
          (tc_set_derives [''Clone'', ''Serialize'', ''new''] configure_type))] (\<lambda>_. None)"

section \<open>Names\<close>

definition rsplit_once :: "char \<Rightarrow> string \<Rightarrow> (string \<times> string) option" where
  "rsplit_once c s = map_option (\<lambda>(a, b). (rev b, rev a)) (split_once c (rev s))"

text \<open>\<open>is_uppercase\<close> on the letters of a schema.\<close>

definition is_upper :: "char \<Rightarrow> bool" where
  "is_upper c \<longleftrightarrow> (let n = of_char c :: nat in 65 \<le> n \<and> n \<le> 90)"

definition generate_type_name :: "(string \<Rightarrow> string) \<Rightarrow> string \<Rightarrow> string" where
  "generate_type_name camel s =
     (let (ns, name) = (case rsplit_once CHR ''.'' s of Some r \<Rightarrow> r | None \<Rightarrow> ([], s));
          boxed_prefix = (if name \<noteq> [] \<and> is_upper (hd name) then ''Boxed'' else []);
          ns_prefix = concat (map camel (split_on CHR ''.'' ns)) in
      ns_prefix @ boxed_prefix @ camel name)"

section \<open>Declarations\<close>

datatype deserializer = DeserPlain | DeserWith string | DeserNumberOrDefault

record gen_field =
  gf_name :: string
  gf_type :: string
  gf_serialize_with :: "string option"
  gf_deserialize :: deserializer

text \<open>
  A struct with the name it has in JSON and, for a function, its result; an alias; an untagged enum, whose variants are called as the
  structs they hold.
\<close>

datatype gen_decl =
    StructDecl "string list" string string "gen_field list" "string option"
  | AliasDecl string string
  | EnumDecl string "string list"

record case_lib =
  to_camel :: "string \<Rightarrow> string"
  to_snake :: "string \<Rightarrow> string"

definition field_configuration :: "TypeConfiguration \<Rightarrow> string \<Rightarrow> FieldConfiguration" where
  "field_configuration c f = (case tc_fields c f of Some fc \<Rightarrow> fc | None \<Rightarrow> configure_field)"

text \<open>The type of a field and whether it is a number that JSON may have as a text. \<open>unwrap\<close> on a missing value panics.\<close>

definition unwrap :: "'a option \<Rightarrow> string + 'a" where
  "unwrap v = ok_or ''called Option::unwrap() on a None value'' v"

definition gen_field_type :: "case_lib \<Rightarrow> FieldConfiguration \<Rightarrow> Field \<Rightarrow> string + string \<times> bool" where
  "gen_field_type L fc f =
     (if field_type f = Some ''#'' then Inr (if fc_optional fc then ''Option<Int31>'' else ''Int31'', True)
      else if type_is_polymorphic f then
        bindr (unwrap (field_type f)) (\<lambda>t.
        bindr (unwrap (type_variables f)) (\<lambda>vs.
          let arg = generate_type_name (to_camel L) t @ ''<'' @ join '','' (map (generate_type_name (to_camel L)) vs) @ ''>'' in
          Inr (if type_is_optional f \<or> fc_optional fc then ''Option<'' @ arg @ ''>'' else arg, False)))
      else
        bindr (unwrap (field_type f)) (\<lambda>t.
          let name = generate_type_name (to_camel L) t in
          Inr (if fc_optional fc then ''Option<'' @ name @ ''>'' else name, t \<in> {''int32'', ''int64'', ''int53'', ''int256''})))"

definition gen_struct_field :: "case_lib \<Rightarrow> TypeConfiguration \<Rightarrow> Field \<Rightarrow> string + gen_field" where
  "gen_struct_field L c f =
     bindr (unwrap (field_id f)) (\<lambda>i.
       let name = to_snake L i; fc = field_configuration c name in
       bindr (gen_field_type L fc f) (\<lambda>(t, number).
         Inr \<lparr>gf_name = name, gf_type = t, gf_serialize_with = fc_serialize_with fc,
           gf_deserialize = (case fc_deserialize_with fc of
               Some d \<Rightarrow> DeserWith d
             | None \<Rightarrow> if number then DeserNumberOrDefault else DeserPlain)\<rparr>))"

text \<open>The fields that are not skipped; here the configuration is looked up under the name in the schema.\<close>

definition kept_field :: "TypeConfiguration \<Rightarrow> Field \<Rightarrow> string + bool" where
  "kept_field c f = bindr (unwrap (field_id f)) (\<lambda>i. Inr (\<not> fc_skip (field_configuration c i)))"

fun gen_struct_fields :: "case_lib \<Rightarrow> TypeConfiguration \<Rightarrow> Field list \<Rightarrow> string + gen_field list" where
  "gen_struct_fields L c [] = Inr []"
| "gen_struct_fields L c (f # fs) =
     bindr (kept_field c f) (\<lambda>keep.
       if keep
       then bindr (gen_struct_field L c f) (\<lambda>g. bindr (gen_struct_fields L c fs) (\<lambda>gs. Inr (g # gs)))
       else gen_struct_fields L c fs)"

definition has_struct :: "Combinator \<Rightarrow> bool" where
  "has_struct d \<longleftrightarrow> \<not> (builtin d \<or> comb_id d = ''vector'' \<or> comb_id d = ''int256'')"

definition gen_struct :: "case_lib \<Rightarrow> gen_types \<Rightarrow> Combinator \<Rightarrow> string + gen_decl" where
  "gen_struct L types d =
     (let c = (case types (comb_id d) of Some c \<Rightarrow> c | None \<Rightarrow> default_type_configuration) in
      bindr (gen_struct_fields L c (comb_fields d)) (\<lambda>fs.
        Inr (StructDecl (tc_derives c) (comb_id d) (generate_type_name (to_camel L) (comb_id d)) fs
          (if functional d then Some (generate_type_name (to_camel L) (result_type d)) else None))))"

definition gen_boxed :: "case_lib \<Rightarrow> string \<Rightarrow> Combinator list \<Rightarrow> gen_decl" where
  "gen_boxed L type_ident types =
     (let name = generate_type_name (to_camel L); constructors = filter (\<lambda>d. \<not> functional d) types in
      if length constructors = 1 then AliasDecl (name type_ident) (name (comb_id (hd types)))
      else EnumDecl (name type_ident) (map (\<lambda>d. name (comb_id d)) constructors))"

definition skip_list :: "string list" where
  "skip_list = [''Vector t'', ''Bool'', ''Int32'', ''Int53'', ''Int64'', ''Int256'', ''Bytes'', ''SecureString'', ''SecureBytes'',
     ''Object'', ''Function'']"

definition gen_group :: "case_lib \<Rightarrow> gen_types \<Rightarrow> string \<times> Combinator list \<Rightarrow> string + gen_decl list" where
  "gen_group L types = (\<lambda>(type_ident, ds).
     if type_ident \<in> set skip_list then Inr []
     else bindr (try_map (gen_struct L types) (filter has_struct ds)) (\<lambda>ss. Inr (gen_boxed L type_ident ds # ss)))"

text \<open>The combinators by their result, in the order of the schema; the hash map is visited in any order.\<close>

definition by_result :: "Combinator list \<Rightarrow> (string \<times> Combinator list) list" where
  "by_result cs = map (\<lambda>t. (t, filter (\<lambda>d. result_type d = t) cs)) (remdups (map result_type cs))"

definition generate :: "case_lib \<Rightarrow> gen_types
    \<Rightarrow> ((string \<times> Combinator list) list \<Rightarrow> (string \<times> Combinator list) list) \<Rightarrow> Combinator list \<Rightarrow> string + gen_decl list" where
  "generate L types visit cs = map_ok concat (try_map (gen_group L types) (visit (by_result cs)))"

section \<open>What is generated\<close>

text \<open>The map is visited in some order, every entry once.\<close>

definition visits_all :: "('a list \<Rightarrow> 'a list) \<Rightarrow> bool" where
  "visits_all visit \<longleftrightarrow> (\<forall>xs. mset (visit xs) = mset xs)"

fun struct_of :: "gen_decl \<Rightarrow> (string \<times> string) list" where
  "struct_of (StructDecl _ rename name _ _) = [(rename, name)]"
| "struct_of _ = []"

definition wanted :: "Combinator \<Rightarrow> bool" where
  "wanted d \<longleftrightarrow> has_struct d \<and> result_type d \<notin> set skip_list"

lemma gen_boxed_no_struct [simp]: "struct_of (gen_boxed L t ds) = []"
  by (simp add: gen_boxed_def Let_def)

lemma gen_struct_of:
  "gen_struct L types d = Inr s \<Longrightarrow> struct_of s = [(comb_id d, generate_type_name (to_camel L) (comb_id d))]"
  by (auto simp: gen_struct_def Let_def bindr_eq_Inr)

lemma gen_structs_of:
  "try_map (gen_struct L types) ds = Inr ss \<Longrightarrow>
   concat (map struct_of ss) = map (\<lambda>d. (comb_id d, generate_type_name (to_camel L) (comb_id d))) ds"
  unfolding try_map_eq_Inr
  by (induction ds ss rule: list_all2_induct) (auto simp: gen_struct_of)

lemma gen_group_structs:
  assumes "gen_group L types (t, filter (\<lambda>d. result_type d = t) cs) = Inr ds"
  shows "concat (map struct_of ds) =
    map (\<lambda>d. (comb_id d, generate_type_name (to_camel L) (comb_id d))) (filter wanted (filter (\<lambda>d. result_type d = t) cs))"
proof (cases "t \<in> set skip_list")
  case True
  then have "filter wanted (filter (\<lambda>d. result_type d = t) cs) = []" by (auto simp: filter_empty_conv wanted_def)
  with True assms show ?thesis by (simp add: gen_group_def)
next
  case False
  have "filter has_struct (filter (\<lambda>d. result_type d = t) cs) = filter wanted (filter (\<lambda>d. result_type d = t) cs)"
    using False by (auto simp: wanted_def intro!: filter_cong)
  with False assms show ?thesis by (auto simp: gen_group_def bindr_eq_Inr dest: gen_structs_of)
qed

lemma mset_by_result:
  "mset (concat (map (\<lambda>t. filter (\<lambda>d. result_type d = t) cs) (remdups (map result_type cs)))) = mset cs"
proof -
  have "mset (concat (map (\<lambda>t. filter (\<lambda>d. result_type d = t) cs) ts)) = filter_mset (\<lambda>d. result_type d \<in> set ts) (mset cs)"
    if "distinct ts" for ts
    using that
  proof (induction ts)
    case (Cons t ts)
    have "filter_mset (\<lambda>d. result_type d \<in> set (t # ts)) (mset cs) =
      filter_mset (\<lambda>d. result_type d = t) (mset cs) + filter_mset (\<lambda>d. result_type d \<in> set ts) (mset cs)"
      using Cons.prems by (auto simp: multiset_eq_iff)
    with Cons show ?case by simp
  qed simp
  from this [of "remdups (map result_type cs)"] show ?thesis by (simp add: filter_mset_eq_conv)
qed

lemma try_map_structs:
  assumes "try_map (gen_group L types) gs = Inr dss"
    and "\<And>g. g \<in> set gs \<Longrightarrow> \<exists>t. g = (t, filter (\<lambda>d. result_type d = t) cs)"
  shows "concat (map struct_of (concat dss)) =
    map (\<lambda>d. (comb_id d, generate_type_name (to_camel L) (comb_id d))) (filter wanted (concat (map snd gs)))"
  using assms unfolding try_map_eq_Inr
proof (induction gs dss rule: list_all2_induct)
  case (Cons g gs ds dss)
  have "\<exists>t. g = (t, filter (\<lambda>d. result_type d = t) cs)" by (rule Cons.prems) simp
  then obtain t where g: "g = (t, filter (\<lambda>d. result_type d = t) cs)" by blast
  with Cons gen_group_structs [of L types t cs ds] show ?case by simp
qed simp

text \<open>
  Every combinator of the schema that is not built in has exactly one struct, with its own name in JSON, whatever the order in
  which the map is visited.
\<close>

lemma generated_structs:
  assumes v: "visits_all visit" and g: "generate L types visit cs = Inr decls"
  shows "mset (concat (map struct_of decls)) =
    image_mset (\<lambda>d. (comb_id d, generate_type_name (to_camel L) (comb_id d))) (filter_mset wanted (mset cs))"
proof -
  from g obtain dss where dss: "try_map (gen_group L types) (visit (by_result cs)) = Inr dss" "decls = concat dss"
    by (auto simp: generate_def map_ok_eq_Inr)
  have m: "mset (visit (by_result cs)) = mset (by_result cs)" using v by (simp add: visits_all_def)
  then have "set (visit (by_result cs)) = set (by_result cs)" by (metis set_mset_mset)
  then have shape: "\<exists>t. g = (t, filter (\<lambda>d. result_type d = t) cs)" if "g \<in> set (visit (by_result cs))" for g
    using that by (auto simp: by_result_def)
  have "mset (concat (map snd (visit (by_result cs)))) = mset (concat (map snd (by_result cs)))"
    unfolding mset_concat mset_map [symmetric] map_map [symmetric]
    using m by (metis mset_map sum_mset_sum_list)
  also have "\<dots> = mset cs" by (simp add: by_result_def comp_def mset_by_result)
  finally show ?thesis
    using try_map_structs [OF dss(1) shape] by (simp add: dss(2) mset_filter)
qed

text \<open>
  The alias of a type with one constructor names the first combinator with this result. In a schema that declares a type before the
  functions that return it, that is the struct of the constructor.
\<close>

lemma alias_names_constructor:
  assumes "filter (\<lambda>d. \<not> functional d) ds = [c]"
  shows "gen_boxed L t ds = AliasDecl (generate_type_name (to_camel L) t) (generate_type_name (to_camel L) (comb_id (hd ds)))"
    and "\<not> functional (hd ds) \<Longrightarrow> hd ds = c"
  using assms by (cases ds; auto simp: gen_boxed_def Let_def split: if_splits)+

text \<open>A number that JSON has as a text or not at all is read, unless the field has a reader of its own; skipped fields are left out.\<close>

lemma gen_struct_field_reader:
  assumes "gen_struct_field L c f = Inr g" and "field_id f = Some i"
  shows "gf_deserialize g = (case fc_deserialize_with (field_configuration c (to_snake L i)) of
      Some d \<Rightarrow> DeserWith d
    | None \<Rightarrow> if field_type f \<in> Some ` {''#'', ''int32'', ''int64'', ''int53'', ''int256''} \<and>
                (type_is_polymorphic f \<longrightarrow> field_type f = Some ''#'')
              then DeserNumberOrDefault else DeserPlain)"
  using assms by (auto simp: gen_struct_field_def gen_field_type_def unwrap_def Let_def bindr_eq_Inr ok_or_eq_Inr split: if_splits option.splits)

end
