(* ===== verification/Ton_Types.thy ===== *)
theory Ton_Types
  imports Ton_Address
begin

text \<open>
  The requests and responses of the \<open>ton-tower\<close> crate, and the service interface the clients
  call. A client is a value of type \<open>'s handlers\<close>: one function per request type, each of which
  takes the fields of the request and the state of the world behind the service and returns the
  response or an error with the new state. \<open>('s, 'a) io\<close> is the type of an asynchronous
  computation that is awaited to its end; the services it calls answer one after the other.
\<close>

section \<open>Responses\<close>

record BlockId =
  workchain :: i32
  shard :: i64
  seqno :: i32

record BlockIdExt = BlockId +
  root_hash :: string
  file_hash :: string

definition block_id_of :: "BlockIdExt \<Rightarrow> BlockId" where
  "block_id_of value = \<lparr>workchain = workchain value, shard = shard value, seqno = seqno value\<rparr>"

record TransactionId =
  tx_lt :: i64
  tx_hash :: string

record MasterchainInfo =
  mc_last :: BlockIdExt
  mc_state_root_hash :: string
  mc_init :: BlockIdExt

record Shards =
  shards_list :: "BlockIdExt list"

record BlockHeader =
  header_id :: BlockIdExt
  global_id :: i32
  header_version :: i32
  header_flags :: i32
  after_merge :: bool
  after_split :: bool
  before_split :: bool
  want_merge :: bool
  want_split :: bool
  validator_list_hash_short :: i32
  catchain_seqno :: i32
  min_ref_mc_seqno :: i32
  is_key_block :: bool
  prev_key_block_seqno :: i32
  start_lt :: i64
  end_lt :: i64
  gen_utime :: i64
  vert_seqno :: i32
  prev_blocks :: "BlockIdExt list"

record ShortTxId =
  short_account :: SmartContractAddress
  short_lt :: i64
  short_hash :: string

record AccountState =
  balance :: "i64 option"
  account_code :: string
  account_data :: string
  frozen_hash :: string
  last_transaction_id :: "TransactionId option"
  account_block_id :: BlockIdExt
  sync_utime :: i64

datatype MessageData =
    RawData string string
  | TextData string
  | DecryptedText string
  | EncryptedText string

record Message =
  msg_hash :: string
  msg_source :: "SmartContractAddress option"
  msg_destination :: "SmartContractAddress option"
  msg_value :: i64
  fwd_fee :: i64
  ihr_fee :: i64
  created_lt :: i64
  body_hash :: string
  msg_data :: MessageData

record Transaction =
  tx_address :: SmartContractAddress
  tx_utime :: i64
  tx_data :: string
  transaction_id :: TransactionId
  tx_fee :: i64
  storage_fee :: i64
  other_fee :: i64
  in_msg :: "Message option"
  out_msgs :: "Message list"

record Transactions =
  account_transactions :: "Transaction list"
  previous_transaction_id :: "TransactionId option"

type_synonym Cell = string

datatype StackEntry =
    StackSlice string
  | StackCell string
  | StackNumber string
  | StackTuple "StackEntry list"
  | StackList "StackEntry list"
  | StackUnsupported

record SmcRunResult =
  gas_used :: i64
  exit_code :: i32
  smc_stack :: "StackEntry list"

record BlockTransactions =
  ids_incomplete :: bool
  ids_transactions :: "ShortTxId list"

record BlockTransactionsExt =
  ext_incomplete :: bool
  ext_transactions :: "Transaction list"

section \<open>Requests\<close>

datatype request =
    GetMasterchainInfo
  | LookUpBlockBySeqno i32 i64 i32
  | LookUpBlockByLt i32 i64 i64
  | GetShards BlockIdExt
  | GetBlockHeader BlockIdExt
  | GetTransactionIds BlockIdExt "ShortTxId option" bool i32
  | GetTransactions BlockIdExt "ShortTxId option" bool i32
  | Sync
  | SendMessage string
  | SendMessageReturningHash string
  | GetAccountState SmartContractAddress
  | GetAccountStateOnBlock SmartContractAddress BlockIdExt
  | GetAccountStateByTransaction SmartContractAddress TransactionId
  | GetAccountTransactions SmartContractAddress TransactionId
  | GetShardAccountCell SmartContractAddress
  | GetShardAccountCellOnBlock SmartContractAddress BlockIdExt
  | GetShardAccountCellByTransaction SmartContractAddress TransactionId
  | RunGetMethod SmartContractAddress string "StackEntry list"

section \<open>Asynchronous computations\<close>

type_synonym anyhow = string
type_synonym ('s, 'a) io = "'s \<Rightarrow> (anyhow + 'a) \<times> 's"

definition ok_io :: "'a \<Rightarrow> ('s, 'a) io" where
  "ok_io a s = (Inr a, s)"

definition err_io :: "anyhow \<Rightarrow> ('s, 'a) io" where
  "err_io e s = (Inl e, s)"

definition bind_io :: "('s, 'a) io \<Rightarrow> ('a \<Rightarrow> ('s, 'b) io) \<Rightarrow> ('s, 'b) io" where
  "bind_io m f s = (case m s of (Inl e, s') \<Rightarrow> (Inl e, s') | (Inr a, s') \<Rightarrow> f a s')"

definition map_io :: "('a \<Rightarrow> 'b) \<Rightarrow> ('s, 'a) io \<Rightarrow> ('s, 'b) io" where
  "map_io f m = bind_io m (\<lambda>a. ok_io (f a))"

definition lift_io :: "anyhow + 'a \<Rightarrow> ('s, 'a) io" where
  "lift_io r s = (r, s)"

text \<open>\<open>call_all(iter(requests)).try_collect()\<close>: the answers in order, up to the first error.\<close>

fun collect_io :: "('a \<Rightarrow> ('s, 'b) io) \<Rightarrow> 'a list \<Rightarrow> ('s, 'b list) io" where
  "collect_io f [] = ok_io []"
| "collect_io f (x # xs) = bind_io (f x) (\<lambda>y. bind_io (collect_io f xs) (\<lambda>ys. ok_io (y # ys)))"

named_theorems io_simps

lemma ok_io_apply [io_simps]: "ok_io a s = (Inr a, s)"
  by (simp add: ok_io_def)

lemma err_io_apply [io_simps]: "err_io e s = (Inl e, s)"
  by (simp add: err_io_def)

lemma bind_io_Inr [io_simps]: "m s = (Inr a, s') \<Longrightarrow> bind_io m f s = f a s'"
  by (simp add: bind_io_def)

lemma bind_io_Inl [io_simps]: "m s = (Inl e, s') \<Longrightarrow> bind_io m f s = (Inl e, s')"
  by (simp add: bind_io_def)

lemma bind_io_ok [simp]: "bind_io (ok_io a) f = f a"
  by (rule ext) (simp add: bind_io_def ok_io_def)

lemma bind_io_err [simp]: "bind_io (err_io e) f = err_io e"
  by (rule ext) (simp add: bind_io_def err_io_def)

lemma bind_io_assoc: "bind_io (bind_io m f) g = bind_io m (\<lambda>a. bind_io (f a) g)"
  by (rule ext) (simp add: bind_io_def split: prod.splits sum.splits)

lemma bind_io_eq_Inr:
  "bind_io m f s = (Inr b, s') \<longleftrightarrow> (\<exists>a s1. m s = (Inr a, s1) \<and> f a s1 = (Inr b, s'))"
  by (auto simp: bind_io_def split: prod.splits sum.splits)

lemma map_io_Inr [io_simps]: "m s = (Inr a, s') \<Longrightarrow> map_io f m s = (Inr (f a), s')"
  by (simp add: map_io_def bind_io_def ok_io_def)

lemma map_io_Inl [io_simps]: "m s = (Inl e, s') \<Longrightarrow> map_io f m s = (Inl e, s')"
  by (simp add: map_io_def bind_io_def)

lemma collect_io_ok:
  assumes "\<And>x s. x \<in> set xs \<Longrightarrow> f x s = (Inr (g x), s)"
  shows "collect_io f xs s = (Inr (map g xs), s)"
  using assms by (induction xs) (simp_all add: io_simps)

lemma collect_io_length: "collect_io f xs s = (Inr ys, s') \<Longrightarrow> length ys = length xs"
  by (induction xs arbitrary: s ys s') (auto simp: bind_io_eq_Inr ok_io_def)

section \<open>The service interface\<close>

record 's handlers =
  on_get_masterchain_info :: "('s, MasterchainInfo) io"
  on_look_up_block_by_seqno :: "i32 \<Rightarrow> i64 \<Rightarrow> i32 \<Rightarrow> ('s, BlockIdExt) io"
  on_look_up_block_by_lt :: "i32 \<Rightarrow> i64 \<Rightarrow> i64 \<Rightarrow> ('s, BlockIdExt) io"
  on_get_shards :: "BlockIdExt \<Rightarrow> ('s, BlockIdExt list) io"
  on_get_block_header :: "BlockIdExt \<Rightarrow> ('s, BlockHeader) io"
  on_get_transaction_ids ::
    "BlockIdExt \<Rightarrow> ShortTxId option \<Rightarrow> bool \<Rightarrow> i32 \<Rightarrow> ('s, BlockTransactions) io"
  on_get_transactions ::
    "BlockIdExt \<Rightarrow> ShortTxId option \<Rightarrow> bool \<Rightarrow> i32 \<Rightarrow> ('s, BlockTransactionsExt) io"
  on_sync :: "('s, BlockIdExt) io"
  on_send_message :: "string \<Rightarrow> ('s, unit) io"
  on_send_message_returning_hash :: "string \<Rightarrow> ('s, string) io"
  on_get_account_state :: "SmartContractAddress \<Rightarrow> ('s, AccountState) io"
  on_get_account_state_on_block :: "SmartContractAddress \<Rightarrow> BlockIdExt \<Rightarrow> ('s, AccountState) io"
  on_get_account_state_by_transaction ::
    "SmartContractAddress \<Rightarrow> TransactionId \<Rightarrow> ('s, AccountState) io"
  on_get_account_transactions ::
    "SmartContractAddress \<Rightarrow> TransactionId \<Rightarrow> ('s, Transactions) io"
  on_get_shard_account_cell :: "SmartContractAddress \<Rightarrow> ('s, Cell) io"
  on_get_shard_account_cell_on_block :: "SmartContractAddress \<Rightarrow> BlockIdExt \<Rightarrow> ('s, Cell) io"
  on_get_shard_account_cell_by_transaction ::
    "SmartContractAddress \<Rightarrow> TransactionId \<Rightarrow> ('s, Cell) io"
  on_run_get_method ::
    "SmartContractAddress \<Rightarrow> string \<Rightarrow> StackEntry list \<Rightarrow> ('s, SmcRunResult) io"

end
