(* ===== verification/Binary_Search.thy ===== *)
theory Binary_Search
  imports Ton_Types
begin

text \<open>
  \<open>ton-client/src/algo/binary_search\<close>: the search for the first block at which a probe
  succeeds, its adaptors and its two users. The trait \<open>BinarySearch\<close> is a record of its
  methods, an implementation is a value of it. The loop may run forever, so it is a partial function:
  the value \<open>None\<close> stands for a search that does not return.
\<close>

section \<open>The trait, its defaults and its adaptors\<close>

datatype BinarySearchError = EmptyRange | NotFound anyhow | Bounds anyhow

record ('s, 'a) binary_search =
  probe :: "BlockId \<Rightarrow> ('s, 'a) io"
  lower_bound :: "('s, i32) io"
  upper_bound :: "('s, BlockId) io"
  starting_point :: "i32 \<Rightarrow> i32 \<Rightarrow> i32"
  tolerance :: i32

definition binary_search_default ::
  "(BlockId \<Rightarrow> ('s, 'a) io) \<Rightarrow> ('s, BlockId) io \<Rightarrow> ('s, 'a) binary_search" where
  "binary_search_default p u = \<lparr>probe = p, lower_bound = ok_io 1, upper_bound = u,
     starting_point = midpoint, tolerance = 0\<rparr>"

definition starting_at :: "i32 \<Rightarrow> ('s, 'a) binary_search \<Rightarrow> ('s, 'a) binary_search" where
  "starting_at point b = \<lparr>probe = probe b, lower_bound = lower_bound b,
     upper_bound = upper_bound b, starting_point = (\<lambda>_ _. point), tolerance = tolerance b\<rparr>"

definition with_tolerance :: "i32 \<Rightarrow> ('s, 'a) binary_search \<Rightarrow> ('s, 'a) binary_search" where
  "with_tolerance t b = \<lparr>probe = probe b, lower_bound = lower_bound b,
     upper_bound = upper_bound b, starting_point = starting_point b, tolerance = t\<rparr>"

definition search_from :: "i32 option \<Rightarrow> ('s, 'a) binary_search \<Rightarrow> ('s, 'a) binary_search" where
  "search_from lo b = \<lparr>probe = probe b,
     lower_bound = (case lo of Some n \<Rightarrow> ok_io n | None \<Rightarrow> lower_bound b),
     upper_bound = upper_bound b, starting_point = starting_point b, tolerance = tolerance b\<rparr>"

definition search_to :: "BlockId option \<Rightarrow> ('s, 'a) binary_search \<Rightarrow> ('s, 'a) binary_search" where
  "search_to hi b = \<lparr>probe = probe b, lower_bound = lower_bound b,
     upper_bound = (case hi of Some block \<Rightarrow> ok_io block | None \<Rightarrow> upper_bound b),
     starting_point = starting_point b, tolerance = tolerance b\<rparr>"

section \<open>The search\<close>

definition clamp :: "i32 \<Rightarrow> i32 \<Rightarrow> i32 \<Rightarrow> i32" where
  "clamp x lo hi = (if x < lo then lo else if hi < x then hi else x)"

text \<open>
  The loop returns the result of the last probe, the best result before it and the value that
  \<open>cur\<close> has after the loop.
\<close>

partial_function (option) search_loop ::
  "(i32 \<Rightarrow> ('s, 'a) io) \<Rightarrow> i32 \<Rightarrow> i32 \<Rightarrow> i32 \<Rightarrow> (i32 \<times> 'a) option \<Rightarrow> 's
     \<Rightarrow> (((anyhow + i32 \<times> 'a) \<times> (i32 \<times> 'a) option \<times> i32) \<times> 's) option" where
  "search_loop pr lhs rhs cur best s =
     (let rs = pr cur s; last = map_ok (\<lambda>value. (cur, value)) (fst rs) in
      if rhs \<le> lhs then Some ((last, best, cur), snd rs)
      else
        let rhs' = (if is_ok last then cur else rhs);
            lhs' = (if is_ok last then lhs else wrap_i32 (cur + 1));
            cur' = midpoint lhs' rhs' in
        if cur' = 0 then Some ((last, best, cur'), snd rs)
        else search_loop pr lhs' rhs' cur'
               (case last of Inr found \<Rightarrow> Some found | Inl _ \<Rightarrow> best) (snd rs))"

fun search_result ::
  "i32 \<Rightarrow> (anyhow + i32 \<times> 'a) \<times> (i32 \<times> 'a) option \<times> i32 \<Rightarrow> BinarySearchError + 'a" where
  "search_result tol (Inr (_, v), _, _) = Inr v"
| "search_result tol (Inl e, Some (point, v), cur) =
     (if wrap_i32 (point - cur) \<le> tol then Inr v else Inl (NotFound e))"
| "search_result tol (Inl e, None, _) = Inl (NotFound e)"

definition find :: "('s, 'a) binary_search \<Rightarrow> 's \<Rightarrow> ((BinarySearchError + 'a) \<times> 's) option" where
  "find b s =
     (case upper_bound b s of
        (Inl e, s1) \<Rightarrow> Some (Inl (Bounds e), s1)
      | (Inr upper, s1) \<Rightarrow>
          (case lower_bound b s1 of
             (Inl e, s2) \<Rightarrow> Some (Inl (Bounds e), s2)
           | (Inr lhs, s2) \<Rightarrow>
               let rhs = seqno upper in
               if rhs < lhs then Some (Inl EmptyRange, s2)
               else
                 map_option (\<lambda>(r, s'). (search_result (tolerance b) r, s'))
                   (search_loop
                      (\<lambda>cur. probe b \<lparr>workchain = workchain upper, shard = shard upper, seqno = cur\<rparr>)
                      lhs rhs (clamp (starting_point b lhs rhs) lhs rhs) None s2)))"

section \<open>The two searches of the client\<close>

definition account_tx_probe ::
  "'s handlers \<Rightarrow> SmartContractAddress \<Rightarrow> BlockId \<Rightarrow> ('s, TransactionId) io" where
  "account_tx_probe client address point =
     bind_io (on_look_up_block_by_seqno client (workchain point) (shard point) (seqno point)) (\<lambda>block_id.
     bind_io (on_get_account_state_on_block client address block_id) (\<lambda>state.
     lift_io (ok_or ''tx not found'' (last_transaction_id state))))"

definition last_master_block :: "'s handlers \<Rightarrow> ('s, BlockId) io" where
  "last_master_block client = map_io (\<lambda>r. block_id_of (mc_last r)) (on_get_masterchain_info client)"

definition AccountTxAvailability ::
  "'s handlers \<Rightarrow> SmartContractAddress \<Rightarrow> ('s, TransactionId) binary_search" where
  "AccountTxAvailability client address =
     binary_search_default (account_tx_probe client address) (last_master_block client)"

definition block_probe :: "'s handlers \<Rightarrow> BlockId \<Rightarrow> ('s, BlockHeader list) io" where
  "block_probe client point =
     bind_io (on_look_up_block_by_seqno client (workchain point) (shard point) (seqno point)) (\<lambda>block_id.
     bind_io (on_get_shards client block_id) (\<lambda>shards.
     collect_io (on_get_block_header client) (block_id # shards)))"

definition BlockAvailability :: "'s handlers \<Rightarrow> ('s, BlockHeader list) binary_search" where
  "BlockAvailability client = binary_search_default (block_probe client) (last_master_block client)"

lemmas search_defs = binary_search_default_def starting_at_def with_tolerance_def search_from_def
  search_to_def

section \<open>One step of the loop\<close>

lemma clamp_between: "lo \<le> hi \<Longrightarrow> lo \<le> clamp x lo hi \<and> clamp x lo hi \<le> hi"
  by (auto simp: clamp_def)

lemma midpoint_pos: "1 \<le> a \<Longrightarrow> 1 \<le> b \<Longrightarrow> midpoint a b \<noteq> 0"
  by (auto simp: midpoint_def Let_def)

lemma search_loop_done: "rhs \<le> lhs \<Longrightarrow> search_loop pr lhs rhs cur best s =
    Some ((map_ok (Pair cur) (fst (pr cur s)), best, cur), snd (pr cur s))"
  by (subst search_loop.simps) (simp add: Let_def)

lemma search_loop_hit:
  assumes "lhs < rhs" "fst (pr cur s) = Inr v"
  shows "search_loop pr lhs rhs cur best s =
    (if midpoint lhs cur = 0 then Some ((Inr (cur, v), best, 0), snd (pr cur s))
     else search_loop pr lhs cur (midpoint lhs cur) (Some (cur, v)) (snd (pr cur s)))"
  using assms by (subst search_loop.simps) (simp add: Let_def is_ok_def map_ok_def)

lemma search_loop_miss:
  assumes "lhs < rhs" "fst (pr cur s) = Inl e"
  shows "search_loop pr lhs rhs cur best s =
    (let lhs' = wrap_i32 (cur + 1); cur' = midpoint lhs' rhs in
     if cur' = 0 then Some ((Inl e, best, 0), snd (pr cur s))
     else search_loop pr lhs' rhs cur' best (snd (pr cur s)))"
  using assms by (subst search_loop.simps) (simp add: Let_def is_ok_def map_ok_def)

section \<open>An invariant rule that also proves termination\<close>

definition in_range :: "i32 \<Rightarrow> i32 \<Rightarrow> i32 \<Rightarrow> bool" where
  "in_range lhs rhs cur \<longleftrightarrow> 0 \<le> lhs \<and> 0 \<le> rhs \<and> cur \<le> rhs
     \<and> (lhs \<le> cur \<or> rhs < lhs \<and> cur = rhs) \<and> rhs < 2 ^ 31"

definition distance :: "i32 \<Rightarrow> i32 \<Rightarrow> i32 \<Rightarrow> nat" where
  "distance lhs rhs cur = 2 * nat (rhs - lhs) + (if cur = rhs then 1 else 0)"

lemma distance_hit:
  "in_range lhs rhs cur \<Longrightarrow> lhs < rhs \<Longrightarrow> distance lhs cur (midpoint lhs cur) < distance lhs rhs cur"
  using midpoint_less [of lhs cur] by (auto simp: in_range_def distance_def)

lemma wrap_succ: "0 \<le> cur \<Longrightarrow> cur < 2 ^ 31 - 1 \<Longrightarrow> wrap_i32 (cur + 1) = cur + 1"
  by (rule wrap_i32_id) (simp add: i32_range_def)

lemma midpoint_wrapped: "midpoint (wrap_i32 ((2 ^ 31 - 1) + 1)) (2 ^ 31 - 1) = 0"
  by (simp add: wrap_i32_def midpoint_def)

lemma distance_miss:
  assumes "in_range lhs rhs cur" "lhs < rhs" "midpoint (wrap_i32 (cur + 1)) rhs \<noteq> 0"
  shows "distance (wrap_i32 (cur + 1)) rhs (midpoint (wrap_i32 (cur + 1)) rhs) < distance lhs rhs cur"
    and "wrap_i32 (cur + 1) = cur + 1"
proof -
  have "cur \<noteq> 2 ^ 31 - 1"
  proof
    assume c: "cur = 2 ^ 31 - 1"
    moreover from c assms(1) have "rhs = 2 ^ 31 - 1" by (simp add: in_range_def)
    ultimately show False using assms(3) midpoint_wrapped by simp
  qed
  then show e: "wrap_i32 (cur + 1) = cur + 1"
    using assms by (intro wrap_succ) (auto simp: in_range_def)
  show "distance (wrap_i32 (cur + 1)) rhs (midpoint (wrap_i32 (cur + 1)) rhs) < distance lhs rhs cur"
    using assms(1,2) unfolding e by (auto simp: in_range_def distance_def)
qed

lemma search_loop_rule:
  assumes start: "I lhs rhs cur best s"
    and range: "\<And>lhs rhs cur best s. I lhs rhs cur best s \<Longrightarrow> in_range lhs rhs cur"
    and stop: "\<And>lhs rhs cur best s r s'. I lhs rhs cur best s \<Longrightarrow> rhs \<le> lhs \<Longrightarrow> pr cur s = (r, s')
      \<Longrightarrow> Q (map_ok (Pair cur) r) best cur s'"
    and hit: "\<And>lhs rhs cur best s v s'. I lhs rhs cur best s \<Longrightarrow> lhs < rhs \<Longrightarrow> pr cur s = (Inr v, s')
      \<Longrightarrow> (if midpoint lhs cur = 0 then Q (Inr (cur, v)) best 0 s'
          else I lhs cur (midpoint lhs cur) (Some (cur, v)) s')"
    and miss: "\<And>lhs rhs cur best s e s'. I lhs rhs cur best s \<Longrightarrow> lhs < rhs \<Longrightarrow> pr cur s = (Inl e, s')
      \<Longrightarrow> (if midpoint (wrap_i32 (cur + 1)) rhs = 0 then Q (Inl e) best 0 s'
          else I (cur + 1) rhs (midpoint (cur + 1) rhs) best s')"
  shows "\<exists>r b c s'. search_loop pr lhs rhs cur best s = Some ((r, b, c), s') \<and> Q r b c s'"
  using start
proof (induction "distance lhs rhs cur" arbitrary: lhs rhs cur best s rule: less_induct)
  case less
  note rng = range [OF less.prems]
  obtain r s' where p: "pr cur s = (r, s')" by (cases "pr cur s")
  consider (stop) "rhs \<le> lhs" | (hit) v where "lhs < rhs" "r = Inr v"
    | (miss) e where "lhs < rhs" "r = Inl e"
    by (cases r) force+
  then show ?case
  proof cases
    case stop
    with assms(3) [OF less.prems _ p] p show ?thesis by (simp add: search_loop_done)
  next
    case hit
    with assms(4) [OF less.prems] p less.hyps [OF distance_hit [OF rng]] show ?thesis
      by (subst search_loop_hit) (auto split: if_splits)
  next
    case miss
    with assms(5) [OF less.prems] p less.hyps [OF distance_miss(1) [OF rng]] distance_miss(2) [OF rng]
    show ?thesis by (subst search_loop_miss) (auto simp: Let_def split: if_splits)
  qed
qed

section \<open>Properties of the loop\<close>

lemma in_range_hit: "in_range lhs rhs cur \<Longrightarrow> lhs < rhs \<Longrightarrow> in_range lhs cur (midpoint lhs cur)"
  using midpoint_between [of lhs cur] by (auto simp: in_range_def)

lemma in_range_miss:
  assumes "in_range lhs rhs cur" "lhs < rhs"
  shows "in_range (cur + 1) rhs (midpoint (cur + 1) rhs)"
  using assms midpoint_between [of "cur + 1" rhs]
  by (cases "cur = rhs") (auto simp: in_range_def midpoint_def Let_def)

lemma miss_zero:
  assumes "in_range lhs rhs cur" "1 \<le> lhs" "lhs < rhs" "midpoint (wrap_i32 (cur + 1)) rhs = 0"
  shows "cur = rhs \<and> rhs = 2 ^ 31 - 1"
proof (rule ccontr)
  assume "\<not> (cur = rhs \<and> rhs = 2 ^ 31 - 1)"
  then have "wrap_i32 (cur + 1) = cur + 1"
    using assms by (intro wrap_succ) (auto simp: in_range_def)
  with assms midpoint_pos [of "cur + 1" rhs] show False by (auto simp: in_range_def)
qed

lemma search_loop_returns:
  assumes "in_range lhs rhs cur"
  shows "\<exists>x. search_loop pr lhs rhs cur best s = Some x"
  using search_loop_rule [where I = "\<lambda>l r c _ _. in_range l r c" and Q = "\<lambda>_ _ _ _. True",
      OF assms] in_range_hit in_range_miss by fastforce

lemma search_loop_first:
  assumes "1 \<le> lhs" "lhs \<le> m" "m \<le> rhs" "lhs \<le> cur" "cur \<le> rhs" "rhs < 2 ^ 31"
    and pr: "\<And>c s. lhs \<le> c \<Longrightarrow> c \<le> rhs \<Longrightarrow> fst (pr c s) = f c"
    and mono: "\<And>c. lhs \<le> c \<Longrightarrow> c \<le> rhs \<Longrightarrow> is_ok (f c) \<longleftrightarrow> m \<le> c"
  shows "\<exists>r b c s'. search_loop pr lhs rhs cur best s = Some ((r, b, c), s')
    \<and> r = map_ok (Pair m) (f m)"
proof (rule search_loop_rule [where I = "\<lambda>l r c _ _. in_range l r c \<and> lhs \<le> l \<and> l \<le> m \<and> m \<le> r
      \<and> l \<le> c \<and> r \<le> rhs" and Q = "\<lambda>r _ _ _. r = map_ok (Pair m) (f m)"], goal_cases)
  case 1 then show ?case using assms by (auto simp: in_range_def)
next
  case 2 then show ?case by simp
next
  case (3 l r c best s res s')
  then have "c = m" by (auto simp: in_range_def)
  with 3 pr [of m s] assms show ?case by simp
next
  case (4 l r c best s v s')
  then have "is_ok (f c)" using pr [of c s] by (force simp: in_range_def is_ok_def split: sum.splits)
  then have "m \<le> c" using mono [of c] 4 by (auto simp: in_range_def)
  with 4 assms(1) show ?case
    using midpoint_pos [of l c] in_range_hit [of l r c] midpoint_between [of l c]
    by (auto simp: in_range_def)
next
  case (5 l r c best s e s')
  then have "\<not> is_ok (f c)" using pr [of c s]
    by (force simp: in_range_def is_ok_def split: sum.splits)
  then have c: "c + 1 \<le> m" using mono [of c] 5 by (auto simp: in_range_def)
  then have "wrap_i32 (c + 1) = c + 1" using 5 assms by (intro wrap_succ) auto
  with 5 assms(1) c show ?case
    using midpoint_pos [of "c + 1" r] in_range_miss [of l r c] midpoint_between [of "c + 1" r] by auto
qed

lemma search_loop_all_fail:
  assumes "1 \<le> lhs" "lhs \<le> cur" "cur \<le> rhs" "rhs < 2 ^ 31"
    and pr: "\<And>c s. lhs \<le> c \<Longrightarrow> c \<le> rhs \<Longrightarrow> fst (pr c s) = Inl (err c)"
  shows "\<exists>r b c s'. search_loop pr lhs rhs cur None s = Some ((r, b, c), s')
    \<and> r = Inl (err rhs) \<and> b = None"
proof (rule search_loop_rule [where I = "\<lambda>l r c b _. in_range l r c \<and> lhs \<le> l \<and> lhs \<le> c
      \<and> r = rhs \<and> b = None" and Q = "\<lambda>r b _ _. r = Inl (err rhs) \<and> b = None"], goal_cases)
  case 1 then show ?case using assms by (auto simp: in_range_def)
next
  case 2 then show ?case by blast
next
  case (3 l r c b s res s')
  then have "c = rhs" by (auto simp: in_range_def)
  with 3 pr [of rhs s] assms show ?case by simp
next
  case (4 l r c b s v s')
  then have "fst (pr c s) = Inl (err c)" by (intro pr) (auto simp: in_range_def)
  with 4 show ?case by simp
next
  case (5 l r c b s e s')
  then have "e = err c" using pr [of c s] by (auto simp: in_range_def)
  with 5 assms(1) show ?case
    using miss_zero [of l r c] in_range_miss [of l r c] midpoint_between [of "c + 1" r]
    by (auto simp: in_range_def)
qed

text \<open>
  When the loop ends with a failed probe, either no probe succeeded, and then every predicate that
  failing probes keep still holds, or the best result is the one of the point the loop ended at.
\<close>

lemma search_loop_keeps:
  assumes "in_range lhs rhs cur" "1 \<le> lhs" "K s"
    and K: "\<And>c s e s'. K s \<Longrightarrow> pr c s = (Inl e, s') \<Longrightarrow> K s'"
  shows "\<exists>r b c s'. search_loop pr lhs rhs cur None s = Some ((r, b, c), s')
    \<and> (\<forall>e. r = Inl e \<longrightarrow> (case b of None \<Rightarrow> K s' | Some (p, _) \<Rightarrow> p = c))"
proof (rule search_loop_rule [where I = "\<lambda>l r c b s. in_range l r c \<and> 1 \<le> l
      \<and> (case b of None \<Rightarrow> K s | Some (p, _) \<Rightarrow> p = r \<and> l \<le> r \<and> (c < r \<or> l = r))"
      and Q = "\<lambda>r b c s'. \<forall>e. r = Inl e \<longrightarrow> (case b of None \<Rightarrow> K s' | Some (p, _) \<Rightarrow> p = c)"],
      goal_cases)
  case 1 then show ?case using assms by simp
next
  case 2 then show ?case by blast
next
  case (3 l r c b s res s')
  then have "c = r" by (auto simp: in_range_def)
  with 3 K [of s c] show ?case by (cases res) (auto simp: map_ok_def split: option.splits)
next
  case (4 l r c b s v s')
  then show ?case
    using in_range_hit [of l r c] midpoint_pos [of l c] midpoint_less [of l c]
      midpoint_between [of l c]
    by (auto simp: in_range_def)
next
  case (5 l r c b s e s')
  then show ?case
  proof (cases "midpoint (wrap_i32 (c + 1)) r = 0")
    case True
    with 5 miss_zero [of l r c] K [of s c] show ?thesis by (auto split: option.splits)
  next
    case False
    have "midpoint (c + 1) r < r \<or> c + 1 = r" if "c < r"
      using that 5 midpoint_less [of "c + 1" r] by (auto simp: in_range_def)
    with False 5 in_range_miss [of l r c] K [of s c] show ?thesis
      by (auto simp: in_range_def split: option.splits)
  qed
qed

text \<open>With negative bounds, \<open>midpoint\<close> rounds up and the loop may repeat one state forever.\<close>

lemma search_loop_diverges:
  assumes "rhs < 0" "lhs < cur" "cur \<le> rhs" and hit: "\<And>c s. is_ok (fst (pr c s))"
  shows "search_loop pr lhs rhs cur best s = None"
proof -
  let ?P = "\<lambda>pr lhs rhs cur best s y.
    \<not> (rhs < 0 \<and> lhs < cur \<and> cur \<le> rhs \<and> (\<forall>c s. is_ok (fst (pr c s))))"
  have m: "lhs < midpoint lhs cur \<and> midpoint lhs cur \<le> cur \<and> midpoint lhs cur \<noteq> 0"
    if "cur < 0" "lhs < cur" for lhs cur
    using that by (auto simp: midpoint_def Let_def)
  have "?P pr lhs rhs cur best s y" if "search_loop pr lhs rhs cur best s = Some y" for y
  proof (rule search_loop.raw_induct [where P = ?P, rotated, OF that], rule notI, goal_cases)
    case (1 F pr lhs rhs cur best s y)
    from 1(3) have "is_ok (fst (pr cur s))" by blast
    then obtain v where v: "fst (pr cur s) = Inr v" by (cases "fst (pr cur s)") simp_all
    with 1 m [of cur lhs]
    have "F pr lhs cur (midpoint lhs cur) (Some (cur, v)) (snd (pr cur s)) = Some y"
      by (simp add: Let_def)
    from 1(1) [OF this] 1 m [of cur lhs] show False by auto
  qed
  with assms show ?thesis by (cases "search_loop pr lhs rhs cur best s") auto
qed

section \<open>Properties of the search\<close>

lemma find_eq:
  assumes "upper_bound b s = (Inr u, s1)" "lower_bound b s1 = (Inr lo, s2)" "lo \<le> seqno u"
  shows "find b s = map_option (\<lambda>(r, s'). (search_result (tolerance b) r, s'))
    (search_loop (\<lambda>c. probe b \<lparr>workchain = workchain u, shard = shard u, seqno = c\<rparr>)
      lo (seqno u) (clamp (starting_point b lo (seqno u)) lo (seqno u)) None s2)"
  using assms by (simp add: find_def Let_def)

lemma in_range_start:
  assumes "0 \<le> lo" "lo \<le> hi" "i32_range hi"
  shows "in_range lo hi (clamp x lo hi)"
  using assms clamp_between [of lo hi x] by (auto simp: in_range_def i32_range_def)

text \<open>The searches of the unit tests: \<open>available_from(first)\<close> up to a masterchain block.\<close>

definition masterchain :: "i32 \<Rightarrow> BlockId" where
  "masterchain n = \<lparr>workchain = -1, shard = - (2 ^ 63), seqno = n\<rparr>"

definition available_from :: "i32 \<Rightarrow> (unit, i32) binary_search" where
  "available_from first = binary_search_default
     (\<lambda>p s. (if first \<le> seqno p then Inr (seqno p) else Inl ''unavailable'', s))
     (err_io ''upper bound must be provided via .to(..)'')"

text \<open>
  C38. The search returns for every probe, successful or not, monotonic or not, whenever the lower
  bound is not negative and the upper bound is an \<open>i32\<close>; errors of the bounds end it too.
\<close>

theorem find_returns:
  assumes "\<forall>s u. fst (upper_bound b s) = Inr u \<longrightarrow> i32_range (seqno u)"
    and "\<forall>s lo. fst (lower_bound b s) = Inr lo \<longrightarrow> 0 \<le> lo"
  shows "\<exists>r s'. find b s = Some (r, s')"
proof -
  obtain ru s1 where u: "upper_bound b s = (ru, s1)" by (cases "upper_bound b s")
  obtain rl s2 where l: "lower_bound b s1 = (rl, s2)" by (cases "lower_bound b s1")
  show ?thesis
  proof (cases "\<exists>u lo. ru = Inr u \<and> rl = Inr lo \<and> lo \<le> seqno u")
    case True
    then obtain v lo where v: "ru = Inr v" "rl = Inr lo" "lo \<le> seqno v" by blast
    with assms u l have "0 \<le> lo" "i32_range (seqno v)" by (metis fst_conv)+
    from search_loop_returns [OF in_range_start [OF this(1) v(3) this(2)]] show ?thesis
      using u l v by (fastforce simp: find_eq)
  next
    case False
    with u l show ?thesis by (auto simp: find_def Let_def split: sum.splits)
  qed
qed

theorem find_returns_witness:
  "\<exists>r s'. find (search_to (Some (masterchain 1000)) (available_from 700)) () = Some (r, s')"
  by (rule find_returns) (simp_all add: available_from_def masterchain_def search_defs ok_io_def
      err_io_def i32_range_def)

lemma find_first_success_loop:
  assumes "upper_bound b s = (Inr u, s1)" and "lower_bound b s1 = (Inr lo, s2)"
    and "1 \<le> lo" and "lo \<le> m" and "m \<le> seqno u" and "i32_range (seqno u)"
    and probes: "\<forall>c \<in> {lo..seqno u}. \<forall>s.
      fst (probe b \<lparr>workchain = workchain u, shard = shard u, seqno = c\<rparr> s) = f c"
    and monotonic: "\<forall>c \<in> {lo..seqno u}. is_ok (f c) \<longleftrightarrow> m \<le> c"
    and "f m = Inr v"
  shows "\<exists>s'. find b s = Some (Inr v, s')"
proof -
  let ?x = "clamp (starting_point b lo (seqno u)) lo (seqno u)"
  have "lo \<le> ?x" "?x \<le> seqno u" using assms clamp_between [of lo "seqno u"] by auto
  then have "\<exists>r bst c s'. search_loop (\<lambda>c. probe b \<lparr>workchain = workchain u, shard = shard u, seqno = c\<rparr>)
      lo (seqno u) ?x None s2 = Some ((r, bst, c), s') \<and> r = map_ok (Pair m) (f m)"
    using assms by (intro search_loop_first) (auto simp: i32_range_def)
  with assms find_eq [OF assms(1,2)] show ?thesis by (auto simp: map_ok_def)
qed

text \<open>
  C3. For a probe that succeeds from some seqno on, the search returns the result of the first success
  in the range, wherever it starts and whatever the tolerance is.
\<close>

theorem find_first_success:
  assumes "upper_bound b s = (Inr u, s1)" and "lower_bound b s1 = (Inr lo, s2)"
    and "1 \<le> lo" and "lo \<le> m" and "m \<le> seqno u" and "i32_range (seqno u)"
    and probes: "\<forall>c \<in> {lo..seqno u}. \<forall>s.
      fst (probe b \<lparr>workchain = workchain u, shard = shard u, seqno = c\<rparr> s) = f c"
    and monotonic: "\<forall>c \<in> {lo..seqno u}. is_ok (f c) \<longleftrightarrow> m \<le> c"
    and "f m = Inr v"
  shows "\<exists>s'. find b s = Some (Inr v, s')"
  using find_first_success_loop [OF assms] .

theorem find_first_success_witness:
  "find (search_to (Some (masterchain 1000)) (available_from 700)) () = Some (Inr 700, ())"
  using find_first_success [of "search_to (Some (masterchain 1000)) (available_from 700)" "()"
      "masterchain 1000" "()" 1 "()" 700 "\<lambda>c. if 700 \<le> c then Inr c else Inl ''unavailable''" 700]
  by (simp add: available_from_def masterchain_def search_defs ok_io_def i32_range_def is_ok_def)

text \<open>
  A search in which every probe fails reports the error of the probe at the upper bound.
\<close>

lemma find_not_found:
  assumes "upper_bound b s = (Inr u, s1)" and "lower_bound b s1 = (Inr lo, s2)"
    and "1 \<le> lo" and "lo \<le> seqno u" and "i32_range (seqno u)"
    and "\<forall>c \<in> {lo..seqno u}. \<forall>s.
      fst (probe b \<lparr>workchain = workchain u, shard = shard u, seqno = c\<rparr> s) = Inl (err c)"
  shows "\<exists>s'. find b s = Some (Inl (NotFound (err (seqno u))), s')"
proof -
  let ?x = "clamp (starting_point b lo (seqno u)) lo (seqno u)"
  have "lo \<le> ?x" "?x \<le> seqno u" using assms clamp_between [of lo "seqno u"] by auto
  then have "\<exists>r bst c s'. search_loop (\<lambda>c. probe b \<lparr>workchain = workchain u, shard = shard u, seqno = c\<rparr>)
      lo (seqno u) ?x None s2 = Some ((r, bst, c), s') \<and> r = Inl (err (seqno u)) \<and> bst = None"
    using assms by (intro search_loop_all_fail) (auto simp: i32_range_def)
  with assms find_eq [OF assms(1,2)] show ?thesis by auto
qed

text \<open>
  A success is never lost: for every probe, monotonic or not, a search with a tolerance of at least
  zero reports \<open>NotFound\<close> only if every probe it made failed, so that every predicate of the
  world that failing probes keep still holds at the end.
\<close>

lemma find_keeps_success:
  assumes "upper_bound b s = (Inr u, s1)" and "lower_bound b s1 = (Inr lo, s2)"
    and "1 \<le> lo" and "i32_range (seqno u)" and "0 \<le> tolerance b"
    and "K s2" and "\<forall>p s e s'. K s \<and> probe b p s = (Inl e, s') \<longrightarrow> K s'"
    and "find b s = Some (Inl (NotFound e), s')"
  shows "K s'"
proof -
  let ?x = "clamp (starting_point b lo (seqno u)) lo (seqno u)"
  have le: "lo \<le> seqno u" using assms(1,2,8) by (auto simp: find_def Let_def split: if_splits)
  with assms in_range_start [of lo "seqno u" "starting_point b lo (seqno u)"]
  have "in_range lo (seqno u) ?x" by simp
  then have "\<exists>r bst c s'. search_loop (\<lambda>c. probe b \<lparr>workchain = workchain u, shard = shard u, seqno = c\<rparr>)
      lo (seqno u) ?x None s2 = Some ((r, bst, c), s')
      \<and> (\<forall>e. r = Inl e \<longrightarrow> (case bst of None \<Rightarrow> K s' | Some (p, _) \<Rightarrow> p = c))"
    using assms by (intro search_loop_keeps) blast+
  then obtain r bst c s3 where loop: "search_loop (\<lambda>c. probe b \<lparr>workchain = workchain u,
      shard = shard u, seqno = c\<rparr>) lo (seqno u) ?x None s2 = Some ((r, bst, c), s3)"
    and q: "\<forall>e. r = Inl e \<longrightarrow> (case bst of None \<Rightarrow> K s3 | Some (p, _) \<Rightarrow> p = c)" by blast
  have "search_result (tolerance b) (r, bst, c) = Inl (NotFound e)" "s3 = s'"
    using assms(8) loop find_eq [OF assms(1,2) le] by auto
  then show ?thesis
    using q assms(5) by (cases r; cases bst) (auto simp: wrap_i32_id i32_range_def split: if_splits)
qed

text \<open>
  C39. A negative lower bound is not refused and not handled: when both bounds are negative, the lower one is
  less than the upper one and every probe succeeds, a search from the default starting point (their
  midpoint) never returns.
\<close>

theorem find_negative_diverges:
  assumes "upper_bound b s = (Inr u, s1)" and "lower_bound b s1 = (Inr lo, s2)"
    and "lo < seqno u" and "seqno u < 0" and "starting_point b = midpoint"
    and "\<forall>p s. is_ok (fst (probe b p s))"
  shows "find b s = None"
proof -
  let ?x = "clamp (midpoint lo (seqno u)) lo (seqno u)"
  have "lo < ?x" "?x \<le> seqno u" using assms by (auto simp: clamp_def midpoint_def Let_def)
  with assms show ?thesis by (simp add: find_eq search_loop_diverges)
qed

theorem find_negative_diverges_witness:
  "find (search_from (Some (-3)) (search_to (Some (masterchain (-2)))
     (binary_search_default (\<lambda>p. ok_io (seqno p)) (err_io ''no upper bound'')))) () = None"
  by (rule find_negative_diverges [of _ _ "masterchain (-2)" "()" "-3" "()"])
    (simp_all add: masterchain_def search_defs ok_io_def is_ok_def)

end
