(* ===== verification/Shard_Registry.thy ===== *)
theory Shard_Registry
  imports Ton_Types
begin

text \<open>
  \<open>ton-client/src/route\<close>: shard prefixes (\<open>shard_prefix.rs\<close>), the known range of blocks of a
  shard (\<open>shard_bounds.rs\<close>) and the registry of all of them that one liteserver client keeps
  (\<open>registry.rs\<close>). The registry is shared by several tasks: its updates are two accesses to
  concurrent maps each, and \<open>reg_step\<close> interleaves them. A panic is the value \<open>None\<close>.
\<close>

unbundle bit_operations_syntax

type_synonym Seqno = i32
type_synonym ChainId = i32
type_synonym ShardId = "i32 \<times> i64"

datatype BlockCriteria =
    CriteriaSeqno i64 i32
  | CriteriaLogicalTime bytes i64

definition shard_id_of :: "'a BlockId_scheme \<Rightarrow> ShardId" where
  "shard_id_of block_id = (workchain block_id, shard block_id)"

section \<open>Shard prefixes\<close>

definition byte_bits :: "u8 \<Rightarrow> bool list" where
  "byte_bits b = map (bit b) [7, 6, 5, 4, 3, 2, 1, 0]"

text \<open>\<open>as_bits::<Msb0>()\<close>\<close>

definition msb_bits :: "bytes \<Rightarrow> bool list" where
  "msb_bits bs = concat (map byte_bits bs)"

definition trailing_zeros :: "u64 \<Rightarrow> nat" where
  "trailing_zeros w = length (takeWhile (\<lambda>i. \<not> bit w i) [0..<64])"

text \<open>
  For the shard id 0 the index \<open>64 - idx - 1\<close> underflows: the subtraction panics with overflow
  checks and the slice is out of range without them.
\<close>

definition from_shard_id :: "u64 \<Rightarrow> bool list option" where
  "from_shard_id shard_id =
     (let idx = trailing_zeros shard_id in
      if 64 - idx < 1 then None
      else Some (take (64 - idx - 1) (msb_bits (be_bytes 8 (unat shard_id)))))"

definition prefix_matches :: "bool list \<Rightarrow> bytes \<Rightarrow> bool" where
  "prefix_matches p address \<longleftrightarrow>
     length p \<le> length (msb_bits address) \<and> take (length p) (msb_bits address) = p"

section \<open>Shard bounds\<close>

record ShardBounds =
  sb_left :: "BlockHeader option"
  sb_right :: "BlockHeader option"
  sb_right_seqno :: "Seqno option"

definition from_left :: "BlockHeader \<Rightarrow> ShardBounds" where
  "from_left h = \<lparr>sb_left = Some h, sb_right = None, sb_right_seqno = None\<rparr>"

definition from_right :: "BlockHeader \<Rightarrow> ShardBounds" where
  "from_right h = \<lparr>sb_left = None, sb_right = Some h, sb_right_seqno = Some (seqno (header_id h))\<rparr>"

definition from_right_seqno :: "Seqno \<Rightarrow> ShardBounds" where
  "from_right_seqno n = \<lparr>sb_left = None, sb_right = None, sb_right_seqno = Some n\<rparr>"

definition left_replace :: "BlockHeader \<Rightarrow> ShardBounds \<Rightarrow> ShardBounds" where
  "left_replace h b = b\<lparr>sb_left := Some h\<rparr>"

definition right_replace :: "BlockHeader \<Rightarrow> ShardBounds \<Rightarrow> ShardBounds" where
  "right_replace h b = b\<lparr>sb_right := Some h\<rparr>"

definition right_seqno_replace :: "Seqno \<Rightarrow> ShardBounds \<Rightarrow> ShardBounds" where
  "right_seqno_replace n b = b\<lparr>sb_right_seqno := Some n\<rparr>"

definition right_next_seqno :: "ShardBounds \<Rightarrow> Seqno option" where
  "right_next_seqno b =
     (case sb_right_seqno b of
        None \<Rightarrow> None
      | Some n \<Rightarrow>
          (case sb_right b of
             None \<Rightarrow> Some n
           | Some right \<Rightarrow>
               if seqno (header_id right) < n then Some (wrap_i32 (seqno (header_id right) + 1))
               else None))"

definition contains_seqno :: "ShardBounds \<Rightarrow> Seqno \<Rightarrow> bool \<Rightarrow> bool" where
  "contains_seqno b n not_available =
     (case (sb_left b, sb_right b) of
        (Some left, Some right) \<Rightarrow>
          if not_available then
            seqno (header_id left) \<le> n
            \<and> n \<le> (case sb_right_seqno b of Some m \<Rightarrow> m | None \<Rightarrow> seqno (header_id right))
          else seqno (header_id left) \<le> n \<and> n \<le> seqno (header_id right)
      | _ \<Rightarrow> False)"

definition contains_lt :: "ShardBounds \<Rightarrow> i64 \<Rightarrow> bool \<Rightarrow> bool" where
  "contains_lt b lt not_available =
     (case (sb_left b, sb_right b) of
        (Some left, Some right) \<Rightarrow>
          if not_available then
            start_lt left \<le> lt
            \<and> lt \<le> wrap_i64 (end_lt right + wrap_i64 (end_lt right - start_lt right))
          else start_lt left \<le> lt \<and> lt \<le> end_lt right
      | _ \<Rightarrow> False)"

section \<open>The registry\<close>

text \<open>The shard ids of a chain are listed in the order in which an iteration visits them.\<close>

record Registry =
  shard_registry :: "ChainId \<rightharpoonup> ShardId list"
  shard_bounds_registry :: "ShardId \<rightharpoonup> ShardBounds"

definition registry_default :: Registry where
  "registry_default = \<lparr>shard_registry = Map.empty, shard_bounds_registry = Map.empty\<rparr>"

definition update_shard_registry :: "ShardId \<Rightarrow> Registry \<Rightarrow> Registry" where
  "update_shard_registry shard_id reg =
     (let entry = (case shard_registry reg (fst shard_id) of Some e \<Rightarrow> e | None \<Rightarrow> []) in
      if shard_id \<in> set entry
      then reg\<lparr>shard_registry := (shard_registry reg)(fst shard_id \<mapsto> entry)\<rparr>
      else reg\<lparr>shard_registry := (shard_registry reg)(fst shard_id \<mapsto> entry @ [shard_id])\<rparr>)"

text \<open>\<open>entry(shard_id).and_modify(f).or_insert_with(g)\<close>\<close>

definition modify_bounds ::
  "ShardId \<Rightarrow> (ShardBounds \<Rightarrow> ShardBounds) \<Rightarrow> ShardBounds \<Rightarrow> Registry \<Rightarrow> Registry" where
  "modify_bounds shard_id f d reg =
     reg\<lparr>shard_bounds_registry := (shard_bounds_registry reg)
       (shard_id \<mapsto> (case shard_bounds_registry reg shard_id of Some b \<Rightarrow> f b | None \<Rightarrow> d))\<rparr>"

definition upsert_left :: "BlockHeader \<Rightarrow> Registry \<Rightarrow> Registry" where
  "upsert_left header reg =
     (let shard_id = shard_id_of (header_id header) in
      modify_bounds shard_id (left_replace header) (from_left header)
        (update_shard_registry shard_id reg))"

definition upsert_right :: "BlockHeader \<Rightarrow> Registry \<Rightarrow> Registry" where
  "upsert_right header reg =
     (let shard_id = shard_id_of (header_id header) in
      modify_bounds shard_id (right_replace header) (from_right header)
        (update_shard_registry shard_id reg))"

definition upsert_right_end :: "BlockIdExt \<Rightarrow> Registry \<Rightarrow> Registry" where
  "upsert_right_end block_id reg =
     (let shard_id = shard_id_of block_id in
      modify_bounds shard_id (right_seqno_replace (seqno block_id)) (from_right_seqno (seqno block_id))
        (update_shard_registry shard_id reg))"

definition right_next :: "Registry \<Rightarrow> ShardId \<Rightarrow> Seqno option" where
  "right_next reg shard_id = Option.bind (shard_bounds_registry reg shard_id) right_next_seqno"

definition get_last_seqno :: "Registry \<Rightarrow> ShardId \<Rightarrow> Seqno option" where
  "get_last_seqno reg shard_id =
     Option.bind (shard_bounds_registry reg shard_id)
       (\<lambda>b. map_option (\<lambda>h. seqno (header_id h)) (sb_right b))"

fun any_shard :: "Registry \<Rightarrow> bytes \<Rightarrow> i64 \<Rightarrow> bool \<Rightarrow> ShardId list \<Rightarrow> bool option" where
  "any_shard reg address lt not_available [] = Some False"
| "any_shard reg address lt not_available (shard_id # rest) =
     (case from_shard_id (word_of_int (snd shard_id)) of
        None \<Rightarrow> None
      | Some p \<Rightarrow>
          if prefix_matches p address
             \<and> (case shard_bounds_registry reg shard_id of
                  Some bounds \<Rightarrow> contains_lt bounds lt not_available | None \<Rightarrow> False)
          then Some True else any_shard reg address lt not_available rest)"

fun registry_contains :: "Registry \<Rightarrow> ChainId \<Rightarrow> BlockCriteria \<Rightarrow> bool \<Rightarrow> bool option" where
  "registry_contains reg chain (CriteriaLogicalTime address lt) not_available =
     (case shard_registry reg chain of
        None \<Rightarrow> Some False
      | Some shard_ids \<Rightarrow> any_shard reg address lt not_available shard_ids)"
| "registry_contains reg chain (CriteriaSeqno sh n) not_available =
     (case shard_bounds_registry reg (chain, sh) of
        None \<Rightarrow> Some False
      | Some bounds \<Rightarrow> Some (contains_seqno bounds n not_available))"

definition registry_edges_defined :: "Registry \<Rightarrow> ShardId \<Rightarrow> bool" where
  "registry_edges_defined reg shard_id =
     (case shard_bounds_registry reg shard_id of
        None \<Rightarrow> False
      | Some b \<Rightarrow> sb_left b \<noteq> None)"

lemmas bounds_defs = from_left_def from_right_def from_right_seqno_def left_replace_def
  right_replace_def right_seqno_replace_def

section \<open>What a prefix matches\<close>

lemma bit_word_of_nat: "bit (word_of_nat n :: 'a :: len word) i \<longleftrightarrow> i < LENGTH('a) \<and> bit n i"
  by transfer (simp add: bit_take_bit_iff bit_of_nat_iff_bit)

lemma bit_mod_256: "bit (x mod 256 :: nat) i \<longleftrightarrow> i < 8 \<and> bit x i"
  using bit_take_bit_iff [of 8 x i] by (simp add: take_bit_eq_mod)

lemma bits_be_bytes: "msb_bits (be_bytes n x) = map (bit x) (rev [0..<8 * n])"
proof (induction n arbitrary: x)
  case (Suc n)
  have upt: "[0..<8 + 8 * n] = [0, 1, 2, 3, 4, 5, 6, 7] @ map (\<lambda>i. i + 8) [0..<8 * n]"
  proof -
    have "[0..<8 + 8 * n] = [0..<8] @ [8..<8 + 8 * n]" by (subst upt_add_eq_append [symmetric]) simp_all
    moreover have "[8..<8 + 8 * n] = map (\<lambda>i. i + 8) [0..<8 * n]" by (subst map_add_upt) (simp add: add.commute)
    ultimately show ?thesis by (simp add: upt_rec)
  qed
  have high: "bit (x div 256) i = bit x (i + 8)" for i
    using bit_drop_bit_eq [of 8 x] by (simp add: drop_bit_eq_div add.commute)
  have "byte_bits (word_of_nat (x mod 256)) = map (bit x) [7, 6, 5, 4, 3, 2, 1, 0]"
    by (simp add: byte_bits_def bit_word_of_nat bit_mod_256)
  with Suc show ?case
    by (simp add: be_bytes_def msb_bits_def upt high rev_map comp_def)
qed (simp add: msb_bits_def be_bytes_def)

lemma length_takeWhile_all: "length (takeWhile P xs) = length xs \<longleftrightarrow> (\<forall>x \<in> set xs. P x)"
  by (induction xs) simp_all

lemma trailing_zeros_le: "trailing_zeros w \<le> 64"
  using length_takeWhile_le [of "\<lambda>i. \<not> bit w i" "[0..<64]"] by (simp add: trailing_zeros_def)

lemma from_shard_id_eq:
  "from_shard_id w = (if trailing_zeros w = 64 then None
     else Some (map (bit w) (rev [Suc (trailing_zeros w)..<64])))"
proof -
  have "64 - (63 - trailing_zeros w) = Suc (trailing_zeros w)" if "trailing_zeros w \<noteq> 64"
    using trailing_zeros_le [of w] that by simp
  moreover have "bit (unat w) = bit w" by (rule ext) (simp add: bit_unsigned_iff)
  ultimately show ?thesis
    using trailing_zeros_le [of w]
    by (auto simp: from_shard_id_def Let_def bits_be_bytes take_map rev_nth take_rev)
qed

lemma trailing_zeros_zero: "trailing_zeros w = 64 \<longleftrightarrow> w = 0"
proof -
  have "trailing_zeros w = 64 \<longleftrightarrow> (\<forall>i \<in> set [0..<64]. \<not> bit w i)"
    using length_takeWhile_all [of "\<lambda>i. \<not> bit w i" "[0..<64]"] by (simp add: trailing_zeros_def)
  also have "\<dots> \<longleftrightarrow> w = 0" by (auto simp: bit_eq_iff dest: bit_imp_le_length)
  finally show ?thesis .
qed

lemma from_shard_id_None [simp]: "from_shard_id w = None \<longleftrightarrow> w = 0"
  by (simp add: from_shard_id_eq trailing_zeros_zero)

lemma drop_bit_eq_iff:
  fixes a b :: u64
  shows "(\<forall>i \<in> set [k..<64]. bit a i = bit b i) \<longleftrightarrow> drop_bit k a = drop_bit k b"
proof
  assume all: "\<forall>i \<in> set [k..<64]. bit a i = bit b i"
  have "bit a (k + i) = bit b (k + i)" for i
    using all bit_imp_le_length [of a "k + i"] bit_imp_le_length [of b "k + i"]
    by (cases "k + i < 64") auto
  then show "drop_bit k a = drop_bit k b" by (simp add: bit_eq_iff bit_drop_bit_eq)
next
  assume "drop_bit k a = drop_bit k b"
  then have "bit a (k + (i - k)) = bit b (k + (i - k))" for i
    by (metis bit_drop_bit_eq comp_apply)
  then show "\<forall>i \<in> set [k..<64]. bit a i = bit b i" by (metis atLeastLessThan_iff le_add_diff_inverse set_upt)
qed

text \<open>The first 64 bits of an address, as the unsigned integer that shard ids are compared with.\<close>

definition address_u64 :: "bytes \<Rightarrow> u64" where
  "address_u64 address = word_of_nat (of_be_bytes (take 8 address))"

lemma bits_address:
  assumes "8 \<le> length address"
  shows "take 64 (msb_bits address) = map (bit (address_u64 address)) (rev [0..<64])"
proof -
  let ?x = "of_be_bytes (take 8 address)"
  have len: "length (msb_bits bs) = 8 * length bs" for bs
    by (induction bs) (simp_all add: msb_bits_def byte_bits_def)
  have "msb_bits address = msb_bits (take 8 address) @ msb_bits (drop 8 address)"
    by (simp add: msb_bits_def flip: concat_append map_append)
  then have "take 64 (msb_bits address) = msb_bits (take 8 address)"
    using assms len [of "take 8 address"] by simp
  also have "take 8 address = be_bytes 8 ?x"
    using be_bytes_of_be_bytes [of "take 8 address"] assms by simp
  finally have "take 64 (msb_bits address) = map (bit ?x) (rev [0..<64])"
    by (simp add: bits_be_bytes)
  also have "\<dots> = map (bit (address_u64 address)) (rev [0..<64])"
    by (simp add: address_u64_def bit_word_of_nat)
  finally show ?thesis .
qed

lemma prefix_matches_iff:
  assumes "w \<noteq> 0" "from_shard_id w = Some p" "8 \<le> length address"
  shows "prefix_matches p address \<longleftrightarrow>
    drop_bit (Suc (trailing_zeros w)) (address_u64 address) = drop_bit (Suc (trailing_zeros w)) w"
proof -
  let ?z = "trailing_zeros w" and ?a = "address_u64 address"
  have z: "?z < 64" using assms(1) trailing_zeros_le [of w] trailing_zeros_zero [of w] by simp
  then have p: "p = map (bit w) (rev [Suc ?z..<64])"
    using assms by (simp add: from_shard_id_eq)
  have len: "length (msb_bits bs) = 8 * length bs" for bs
    by (induction bs) (simp_all add: msb_bits_def byte_bits_def)
  have "take (63 - ?z) (msb_bits address) = take (63 - ?z) (take 64 (msb_bits address))"
    by simp
  also have "\<dots> = map (bit ?a) (rev [Suc ?z..<64])"
    using z assms(3) by (simp add: bits_address take_map take_rev Suc_diff_le)
  finally have "take (length p) (msb_bits address) = map (bit ?a) (rev [Suc ?z..<64])"
    using p by simp
  then have "prefix_matches p address \<longleftrightarrow> (\<forall>i \<in> set [Suc ?z..<64]. bit ?a i = bit w i)"
    using p assms(3) len [of address] by (auto simp: prefix_matches_def)
  also have "\<dots> \<longleftrightarrow> drop_bit (Suc ?z) ?a = drop_bit (Suc ?z) w"
    by (rule drop_bit_eq_iff)
  finally show ?thesis .
qed

section \<open>The contract of the registry\<close>

text \<open>
  What the tasks that discover blocks rely on: an update changes the edge it names, of the shard of its
  block, and nothing else; \<open>next\<close> asks for the block after the right edge until the right end.
\<close>

locale shard_store =
  fixes ups_left ups_right :: "BlockHeader \<Rightarrow> 'r \<Rightarrow> 'r"
    and ups_end :: "BlockIdExt \<Rightarrow> 'r \<Rightarrow> 'r"
    and left_of right_of :: "'r \<Rightarrow> ShardId \<Rightarrow> BlockHeader option"
    and end_of :: "'r \<Rightarrow> ShardId \<Rightarrow> Seqno option"
    and next_of :: "'r \<Rightarrow> ShardId \<Rightarrow> Seqno option"
  assumes left_left: "left_of (ups_left h r) sid =
      (if sid = shard_id_of (header_id h) then Some h else left_of r sid)"
    and left_right: "left_of (ups_right h r) = left_of r"
    and left_end: "left_of (ups_end b r) = left_of r"
    and right_left: "right_of (ups_left h r) = right_of r"
    and right_right: "right_of (ups_right h r) sid =
      (if sid = shard_id_of (header_id h) then Some h else right_of r sid)"
    and right_end: "right_of (ups_end b r) = right_of r"
    and end_left: "end_of (ups_left h r) = end_of r"
    and end_right: "end_of r sid = Some n \<Longrightarrow> end_of (ups_right h r) sid = Some n"
    and end_end: "end_of (ups_end b r) sid =
      (if sid = shard_id_of b then Some (seqno b) else end_of r sid)"
    and next_of: "next_of r sid = Option.bind (end_of r sid) (\<lambda>n. case right_of r sid of
        None \<Rightarrow> Some n
      | Some h \<Rightarrow> if seqno (header_id h) < n then Some (wrap_i32 (seqno (header_id h) + 1)) else None)"
begin

lemma next_after_right:
  assumes "end_of r sid = Some n" "shard_id_of (header_id h) = sid"
  shows "next_of (ups_right h r) sid =
    (if seqno (header_id h) < n then Some (wrap_i32 (seqno (header_id h) + 1)) else None)"
  using assms end_right [of r sid n h] by (simp add: next_of right_right)

lemma next_le_end:
  assumes "end_of r sid = Some n" "next_of r sid = Some k" "i32_range n"
    and "\<And>h. right_of r sid = Some h \<Longrightarrow> i32_range (seqno (header_id h))"
  shows "k \<le> n \<and> i32_range k \<and> (\<forall>h. right_of r sid = Some h \<longrightarrow> k = seqno (header_id h) + 1)"
proof (cases "right_of r sid")
  case (Some h)
  with assms(4) [OF Some] assms(1-3) have "seqno (header_id h) < n"
    and k: "k = wrap_i32 (seqno (header_id h) + 1)" and "i32_range (seqno (header_id h) + 1)"
    by (auto simp: next_of i32_range_def split: if_splits)
  with wrap_i32_id [of "seqno (header_id h) + 1"] Some show ?thesis by auto
qed (use assms in \<open>simp add: next_of\<close>)

text \<open>Storing the headers of the wanted blocks one after the other reaches the right end.\<close>

lemma catch_up:
  assumes "end_of r sid = Some n" "i32_range n" "k \<le> n" "i32_range k"
    and "next_of r sid = Some k"
    and "\<And>i. k \<le> i \<Longrightarrow> i \<le> n \<Longrightarrow> shard_id_of (header_id (hdr i)) = sid \<and> seqno (header_id (hdr i)) = i"
  shows "let r' = fold (\<lambda>i. ups_right (hdr i)) [k..n] r in
    next_of r' sid = None \<and> end_of r' sid = Some n \<and> right_of r' sid = Some (hdr n)
    \<and> left_of r' sid = left_of r sid"
  using assms
proof (induction "nat (n - k)" arbitrary: r k)
  case 0
  then have "k = n" by simp
  with 0 next_after_right [of r sid n "hdr n"] end_right [of r sid n "hdr n"] show ?case
    by (simp add: Let_def right_right left_right)
next
  case (Suc m)
  then have lt: "k < n" by simp
  let ?r = "ups_right (hdr k) r"
  have h: "shard_id_of (header_id (hdr k)) = sid" "seqno (header_id (hdr k)) = k"
    using Suc.prems(6) [of k] lt by simp_all
  have "i32_range (k + 1)" using Suc.prems lt by (simp add: i32_range_def)
  with next_after_right [OF Suc.prems(1) h(1)] have "next_of ?r sid = Some (k + 1)"
    using h lt by (simp add: wrap_i32_id)
  moreover have "[k..n] = k # [k + 1..n]" using lt by (simp add: upto_rec1)
  moreover have "end_of ?r sid = Some n" using end_right Suc.prems(1) by simp
  ultimately show ?case
    using Suc.hyps(1) [of "k + 1" ?r] Suc.hyps(2) Suc.prems \<open>i32_range (k + 1)\<close> lt
    by (simp add: left_right Let_def)
qed

text \<open>Storing the left edges of distinct shards.\<close>

lemma left_fold_other:
  "sid \<notin> (\<lambda>h. shard_id_of (header_id h)) ` set hs \<Longrightarrow> left_of (fold ups_left hs r) sid = left_of r sid"
  by (induction hs arbitrary: r) (auto simp: left_left)

lemma left_fold:
  assumes "distinct (map (\<lambda>h. shard_id_of (header_id h)) hs)" "h \<in> set hs"
  shows "left_of (fold ups_left hs r) (shard_id_of (header_id h)) = Some h"
  using assms
proof (induction hs arbitrary: r)
  case (Cons x xs)
  then show ?case
    using left_fold_other [of "shard_id_of (header_id h)" xs "ups_left x r"]
    by (cases "h = x") (auto simp: left_left)
qed simp

lemma right_fold_left: "right_of (fold ups_left hs r) = right_of r"
  by (induction hs arbitrary: r) (auto simp: right_left)

end

definition left_of :: "Registry \<Rightarrow> ShardId \<Rightarrow> BlockHeader option" where
  "left_of reg sid = Option.bind (shard_bounds_registry reg sid) sb_left"

definition right_of :: "Registry \<Rightarrow> ShardId \<Rightarrow> BlockHeader option" where
  "right_of reg sid = Option.bind (shard_bounds_registry reg sid) sb_right"

definition end_of :: "Registry \<Rightarrow> ShardId \<Rightarrow> Seqno option" where
  "end_of reg sid = Option.bind (shard_bounds_registry reg sid) sb_right_seqno"

lemma bounds_update_shard_registry [simp]:
  "shard_bounds_registry (update_shard_registry sid reg) = shard_bounds_registry reg"
  by (simp add: update_shard_registry_def Let_def)

lemmas upsert_defs = upsert_left_def upsert_right_def upsert_right_end_def modify_bounds_def Let_def

interpretation store: shard_store upsert_left upsert_right upsert_right_end left_of right_of end_of
  right_next
proof (unfold_locales, goal_cases)
  case (10 r sid)
  then show ?case
    by (cases "shard_bounds_registry r sid")
      (auto simp: right_next_def right_next_seqno_def end_of_def right_of_def split: option.splits)
qed (auto simp: upsert_defs bounds_defs left_of_def right_of_def end_of_def fun_eq_iff
    split: option.splits bind_splits)

lemma contains_seqno_edges:
  "registry_contains reg chain (CriteriaSeqno sh n) False =
    Some (\<exists>l r. left_of reg (chain, sh) = Some l \<and> right_of reg (chain, sh) = Some r
      \<and> seqno (header_id l) \<le> n \<and> n \<le> seqno (header_id r))"
  by (auto simp: left_of_def right_of_def contains_seqno_def split: option.splits bind_splits)

lemma get_last_seqno_right: "get_last_seqno reg sid = map_option (\<lambda>h. seqno (header_id h)) (right_of reg sid)"
  by (cases "shard_bounds_registry reg sid") (simp_all add: get_last_seqno_def right_of_def)

lemma edges_defined_left: "registry_edges_defined reg sid \<longleftrightarrow> left_of reg sid \<noteq> None"
  by (cases "shard_bounds_registry reg sid") (simp_all add: registry_edges_defined_def left_of_def)

section \<open>Interleaved updates\<close>

text \<open>
  Every update registers its shard first and changes the bounds of the shard in a second access; other
  tasks may run in between. The second component of a state lists the updates that are half done.
\<close>

datatype reg_op = OpLeft BlockHeader | OpRight BlockHeader | OpRightEnd BlockIdExt

fun op_shard :: "reg_op \<Rightarrow> ShardId" where
  "op_shard (OpLeft h) = shard_id_of (header_id h)"
| "op_shard (OpRight h) = shard_id_of (header_id h)"
| "op_shard (OpRightEnd b) = shard_id_of b"

definition op_begin :: "reg_op \<Rightarrow> Registry \<Rightarrow> Registry" where
  "op_begin op = update_shard_registry (op_shard op)"

fun op_finish :: "reg_op \<Rightarrow> Registry \<Rightarrow> Registry" where
  "op_finish (OpLeft h) = modify_bounds (op_shard (OpLeft h)) (left_replace h) (from_left h)"
| "op_finish (OpRight h) = modify_bounds (op_shard (OpRight h)) (right_replace h) (from_right h)"
| "op_finish (OpRightEnd b) = modify_bounds (op_shard (OpRightEnd b))
     (right_seqno_replace (seqno b)) (from_right_seqno (seqno b))"

lemma upsert_two_accesses:
  "upsert_left h = op_finish (OpLeft h) \<circ> op_begin (OpLeft h)"
  "upsert_right h = op_finish (OpRight h) \<circ> op_begin (OpRight h)"
  "upsert_right_end b = op_finish (OpRightEnd b) \<circ> op_begin (OpRightEnd b)"
  by (simp_all add: fun_eq_iff upsert_left_def upsert_right_def upsert_right_end_def op_begin_def
      Let_def)

inductive reg_step :: "Registry \<times> reg_op list \<Rightarrow> Registry \<times> reg_op list \<Rightarrow> bool" where
  begin_op: "reg_step (reg, ops) (op_begin op reg, op # ops)"
| finish_op: "op \<in> set ops \<Longrightarrow> reg_step (reg, ops) (op_finish op reg, remove1 op ops)"

inductive_cases reg_stepE: "reg_step (reg, ops) st"

inductive reg_reachable :: "Registry \<times> reg_op list \<Rightarrow> bool" where
  initial: "reg_reachable (registry_default, [])"
| step: "reg_reachable st \<Longrightarrow> reg_step st st' \<Longrightarrow> reg_reachable st'"

definition registered :: "Registry \<Rightarrow> ShardId \<Rightarrow> bool" where
  "registered reg sid \<longleftrightarrow> (\<exists>ids. shard_registry reg (fst sid) = Some ids \<and> sid \<in> set ids)"

definition reg_inv :: "Registry \<Rightarrow> bool" where
  "reg_inv reg \<longleftrightarrow> (\<forall>sid. shard_bounds_registry reg sid \<noteq> None \<longrightarrow> registered reg sid)
     \<and> (\<forall>chain ids. shard_registry reg chain = Some ids \<longrightarrow> distinct ids \<and> (\<forall>sid \<in> set ids. fst sid = chain))"

lemma registered_update: "registered (update_shard_registry sid reg) x \<longleftrightarrow> registered reg x \<or> x = sid"
  by (cases "shard_registry reg (fst sid)"; cases x; cases sid)
    (auto simp: registered_def update_shard_registry_def)

lemma registered_finish [simp]: "registered (op_finish op reg) = registered reg"
  by (cases op) (simp_all add: registered_def modify_bounds_def fun_eq_iff)

lemma bounds_finish: "shard_bounds_registry (op_finish op reg) sid \<noteq> None \<longleftrightarrow>
    shard_bounds_registry reg sid \<noteq> None \<or> sid = op_shard op"
  by (cases op) (auto simp: modify_bounds_def)

lemma shards_finish [simp]: "shard_registry (op_finish op reg) = shard_registry reg"
  by (cases op) (simp_all add: modify_bounds_def)

lemma reg_invD:
  assumes "reg_inv reg"
  shows "shard_bounds_registry reg sid = Some b \<Longrightarrow> registered reg sid"
    and "shard_registry reg chain = Some ids \<Longrightarrow> distinct ids"
    and "shard_registry reg chain = Some ids \<Longrightarrow> x \<in> set ids \<Longrightarrow> fst x = chain"
  using assms unfolding reg_inv_def by blast+

lemma update_shard_registry_entry:
  assumes "shard_registry (update_shard_registry sid reg) chain = Some ids"
  shows "shard_registry reg chain = Some ids \<or> chain = fst sid \<and>
    (\<exists>e. ids = e @ [sid] \<and> sid \<notin> set e \<and> (shard_registry reg chain = Some e \<or> e = []))
    \<or> chain = fst sid \<and> ids = []"
  using assms unfolding update_shard_registry_def
  by (cases "shard_registry reg (fst sid)"; cases "chain = fst sid")
    (auto simp: Let_def split: if_splits)

lemma reg_inv_update: "reg_inv reg \<Longrightarrow> reg_inv (update_shard_registry sid reg)"
proof -
  assume inv: "reg_inv reg"
  have "distinct ids \<and> (\<forall>x \<in> set ids. fst x = chain)"
    if "shard_registry (update_shard_registry sid reg) chain = Some ids" for chain ids
    using update_shard_registry_entry [OF that]
  proof (elim disjE conjE exE)
    fix e assume "ids = e @ [sid]" "sid \<notin> set e" "chain = fst sid" "shard_registry reg chain = Some e"
    with reg_invD(2,3) [OF inv] show ?thesis by simp
  qed (use reg_invD(2,3) [OF inv] in simp_all)
  with inv show ?thesis unfolding reg_inv_def registered_update by simp
qed

lemma reg_inv_finish: "reg_inv reg \<Longrightarrow> registered reg (op_shard op) \<Longrightarrow> reg_inv (op_finish op reg)"
  unfolding reg_inv_def bounds_finish by auto

lemma registered_upsert:
  "registered (upsert_left h reg) x \<longleftrightarrow> registered reg x \<or> x = shard_id_of (header_id h)"
  "registered (upsert_right h reg) x \<longleftrightarrow> registered reg x \<or> x = shard_id_of (header_id h)"
  "registered (upsert_right_end b reg) x \<longleftrightarrow> registered reg x \<or> x = shard_id_of b"
  by (simp_all add: upsert_two_accesses op_begin_def registered_update del: op_finish.simps)

lemma reg_inv_upsert:
  assumes "reg_inv reg"
  shows "reg_inv (upsert_left h reg)" "reg_inv (upsert_right h reg)" "reg_inv (upsert_right_end b reg)"
  using assms by (simp_all add: upsert_two_accesses op_begin_def reg_inv_finish reg_inv_update
      registered_update del: op_finish.simps)

lemma reg_inv_default: "reg_inv registry_default"
  by (simp add: reg_inv_def registry_default_def)

lemma not_registered_default [simp]: "\<not> registered registry_default x"
  by (simp add: registered_def registry_default_def)

lemma edges_default [simp]: "left_of registry_default x = None" "right_of registry_default x = None"
  "end_of registry_default x = None"
  by (simp_all add: left_of_def right_of_def end_of_def registry_default_def)

lemma reachable_inv:
  "reg_reachable st \<Longrightarrow> reg_inv (fst st) \<and> (\<forall>op \<in> set (snd st). registered (fst st) (op_shard op))"
proof (induction rule: reg_reachable.induct)
  case initial
  then show ?case by (simp add: reg_inv_default)
next
  case (step st st')
  from step(2) show ?case
  proof cases
    case (begin_op reg ops op)
    with step.IH reg_inv_update [of reg] show ?thesis by (auto simp: op_begin_def registered_update)
  next
    case (finish_op op ops reg)
    with step.IH reg_inv_finish [of reg op] set_remove1_subset [of op ops] show ?thesis by auto
  qed
qed

lemma any_shard_iff:
  assumes "\<forall>sid \<in> set ids. word_of_int (snd sid) \<noteq> (0 :: u64)"
  shows "any_shard reg address lt na ids = Some (\<exists>sid \<in> set ids. \<exists>b. shard_bounds_registry reg sid = Some b
    \<and> contains_lt b lt na \<and> prefix_matches (the (from_shard_id (word_of_int (snd sid)))) address)"
  using assms by (induction ids) (auto split: option.splits)

text \<open>
  A shard prefix matches an address exactly when the address agrees with the shard id on all bits
  above the lowest set bit of the id.
\<close>

lemma shard_prefix_matches:
  assumes "w \<noteq> 0" and "length address = 32"
  shows "\<exists>p. from_shard_id w = Some p \<and>
    (prefix_matches p address \<longleftrightarrow>
      drop_bit (Suc (trailing_zeros w)) (address_u64 address) = drop_bit (Suc (trailing_zeros w)) w)"
proof -
  obtain p where "from_shard_id w = Some p" using assms(1) by (cases "from_shard_id w") simp_all
  with prefix_matches_iff [OF assms(1) this] assms(2) show ?thesis by simp
qed

lemma contains_lt_iff:
  assumes inv: "reg_inv reg"
    and "\<forall>sid. registered reg sid \<longrightarrow> word_of_int (snd sid) \<noteq> (0 :: u64)"
  shows "registry_contains reg chain (CriteriaLogicalTime address lt) na =
    Some (\<exists>sid b p. fst sid = chain \<and> shard_bounds_registry reg sid = Some b \<and> contains_lt b lt na
      \<and> from_shard_id (word_of_int (snd sid)) = Some p \<and> prefix_matches p address)"
proof (cases "shard_registry reg chain")
  case None
  then have "shard_bounds_registry reg sid = None" if "fst sid = chain" for sid
    using reg_invD(1) [OF inv, of sid] that None by (cases "shard_bounds_registry reg sid") (auto simp: registered_def)
  with None show ?thesis by auto
next
  case (Some ids)
  then have nz: "\<forall>sid \<in> set ids. word_of_int (snd sid) \<noteq> (0 :: u64)"
    using assms(2) reg_invD(3) [OF inv Some] Some unfolding registered_def by metis
  have "sid \<in> set ids \<and> prefix_matches (the (from_shard_id (word_of_int (snd sid)))) address \<longleftrightarrow>
      fst sid = chain \<and> (\<exists>p. from_shard_id (word_of_int (snd sid)) = Some p \<and> prefix_matches p address)"
    if "shard_bounds_registry reg sid = Some b" for sid b
  proof -
    have reg: "registered reg sid" using reg_invD(1) [OF inv that] .
    then have "fst sid = chain \<Longrightarrow> sid \<in> set ids" using Some by (auto simp: registered_def)
    with reg_invD(3) [OF inv Some] have "sid \<in> set ids \<longleftrightarrow> fst sid = chain" by blast
    moreover have "word_of_int (snd sid) \<noteq> (0 :: u64)" using reg assms(2) by blast
    then obtain p where "from_shard_id (word_of_int (snd sid)) = Some p"
      by (cases "from_shard_id (word_of_int (snd sid))") simp_all
    ultimately show ?thesis by auto
  qed
  then have "(\<exists>sid \<in> set ids. \<exists>b. shard_bounds_registry reg sid = Some b \<and> contains_lt b lt na
      \<and> prefix_matches (the (from_shard_id (word_of_int (snd sid)))) address) \<longleftrightarrow>
    (\<exists>sid b p. fst sid = chain \<and> shard_bounds_registry reg sid = Some b \<and> contains_lt b lt na
      \<and> from_shard_id (word_of_int (snd sid)) = Some p \<and> prefix_matches p address)" by blast
  with nz Some show ?thesis by (simp add: any_shard_iff)
qed

text \<open>
  C15. At every point of every interleaving of updates, a search by logical time sees all the bounds
  that are stored: it answers true exactly when the bounds of some shard of the chain whose prefix
  matches the address contain the time, and it does not panic unless a shard id is zero.
\<close>

theorem contains_lt_complete:
  assumes "reg_reachable (reg, ops)"
    and "\<forall>sid. registered reg sid \<longrightarrow> word_of_int (snd sid) \<noteq> (0 :: u64)"
  shows "registry_contains reg chain (CriteriaLogicalTime address lt) na =
    Some (\<exists>sid b p. fst sid = chain \<and> shard_bounds_registry reg sid = Some b \<and> contains_lt b lt na
      \<and> from_shard_id (word_of_int (snd sid)) = Some p \<and> prefix_matches p address)"
  using contains_lt_iff [of reg] reachable_inv [OF assms(1)] assms(2) by simp

definition header_at :: "i32 \<Rightarrow> i64 \<Rightarrow> i32 \<Rightarrow> BlockHeader" where
  "header_at wc sh n = \<lparr>header_id = \<lparr>workchain = wc, shard = sh, seqno = n, root_hash = [], file_hash = []\<rparr>,
     global_id = 0, header_version = 0, header_flags = 0, after_merge = False, after_split = False,
     before_split = False, want_merge = False, want_split = False, validator_list_hash_short = 0,
     catchain_seqno = 0, min_ref_mc_seqno = 0, is_key_block = False, prev_key_block_seqno = 0,
     start_lt = 100 * n, end_lt = 100 * n + 99, gen_utime = 0, vert_seqno = 0, prev_blocks = []\<rparr>"

lemma reachable_one: "reg_reachable (op_finish op (op_begin op registry_default), [])"
proof -
  have "reg_reachable (op_begin op registry_default, [op])" by (rule reg_reachable.intros reg_step.intros)+
  from reg_reachable.step [OF this finish_op [of op]] show ?thesis by simp
qed

theorem contains_lt_complete_witness:
  "registry_contains (upsert_right (header_at 0 (2 ^ 62) 7) registry_default) 0
     (CriteriaLogicalTime (replicate 32 1) 750) False = Some False"
  using contains_lt_complete [OF reachable_one [of "OpRight (header_at 0 (2 ^ 62) 7)"],
      of 0 "replicate 32 1" 750 False]
  by (auto simp: upsert_two_accesses registered_def op_begin_def update_shard_registry_def
      registry_default_def shard_id_of_def header_at_def modify_bounds_def from_right_def
      contains_lt_def split: if_splits)

end
