(* ===== verification/Routing.thy ===== *)
theory Routing
  imports Shard_Registry "HOL-Library.AList" "HOL-Library.Multiset"
begin

text \<open>
  \<open>ton-client/src/route\<close> and \<open>ton-client/src/pool\<close>: the route of every request
  (\<open>request.rs\<close>, \<open>forward.rs\<close>), the choice of the liteserver clients that can answer a route
  (\<open>mod.rs\<close>), the routed client of one liteserver (\<open>client.rs\<close>), the router over the
  discovered clients (\<open>router.rs\<close>) and the balancer that sends a request to one of the chosen
  clients (\<open>balance.rs\<close>). A panic is the value \<open>None\<close>.
\<close>

section \<open>Routes\<close>

datatype Route = RouteBlock i32 BlockCriteria | RouteLatest

datatype route_error = RouteNotAvailable | RouteUnknown

definition block_route :: "'a BlockId_scheme \<Rightarrow> Route" where
  "block_route block_id = RouteBlock (workchain block_id) (CriteriaSeqno (shard block_id) (seqno block_id))"

definition account_route :: "SmartContractAddress \<Rightarrow> TransactionId \<Rightarrow> Route" where
  "account_route address tx =
     RouteBlock (workchain_id address) (CriteriaLogicalTime (data_as_bytes address) (tx_lt tx))"

fun to_route :: "request \<Rightarrow> Route" where
  "to_route (GetAccountStateOnBlock address block_id) = block_route block_id"
| "to_route (GetShardAccountCellOnBlock address block_id) = block_route block_id"
| "to_route GetMasterchainInfo = RouteLatest"
| "to_route Sync = RouteLatest"
| "to_route (SendMessage body) = RouteLatest"
| "to_route (SendMessageReturningHash body) = RouteLatest"
| "to_route (GetAccountState address) = RouteLatest"
| "to_route (GetAccountStateByTransaction address tx) = account_route address tx"
| "to_route (GetAccountTransactions address from) = account_route address from"
| "to_route (GetShardAccountCell address) = RouteLatest"
| "to_route (GetShardAccountCellByTransaction address tx) =
     account_route address tx"
| "to_route (RunGetMethod address method stack) = RouteLatest"
| "to_route (LookUpBlockBySeqno chain sh n) = RouteBlock chain (CriteriaSeqno sh n)"
| "to_route (LookUpBlockByLt chain sh lt) =
     RouteBlock chain (CriteriaLogicalTime (i64_to_be sh @ replicate 24 0) lt)"
| "to_route (GetShards block_id) = block_route block_id"
| "to_route (GetBlockHeader block_id) = block_route block_id"
| "to_route (GetTransactionIds block after reverse cnt) = block_route block"
| "to_route (GetTransactions block after reverse cnt) = block_route block"

text \<open>\<open>pool/forward.rs\<close>: a request with a route of its own.\<close>

datatype pool_request = Plain request | Forward Route request

fun pool_route :: "pool_request \<Rightarrow> Route" where
  "pool_route (Plain r) = to_route r"
| "pool_route (Forward route inner) = route"

fun into_request :: "pool_request \<Rightarrow> request" where
  "into_request (Plain r) = r"
| "into_request (Forward route inner) = inner"

section \<open>The choice of the clients\<close>

text \<open>The trait \<open>Routed\<close>; the two membership tests may panic.\<close>

record 'c routed =
  contains :: "'c \<Rightarrow> i32 \<Rightarrow> BlockCriteria \<Rightarrow> bool option"
  contains_not_available :: "'c \<Rightarrow> i32 \<Rightarrow> BlockCriteria \<Rightarrow> bool option"
  last_seqno :: "'c \<Rightarrow> i32 option"

fun filter_block ::
  "'c routed \<Rightarrow> i32 \<Rightarrow> BlockCriteria \<Rightarrow> 'c list \<Rightarrow> ('c list \<times> bool) option" where
  "filter_block R chain criteria [] = Some ([], False)"
| "filter_block R chain criteria (s # rest) =
     (case contains R s chain criteria of
        None \<Rightarrow> None
      | Some True \<Rightarrow> map_option (\<lambda>(clients, known). (s # clients, known)) (filter_block R chain criteria rest)
      | Some False \<Rightarrow>
          (case contains_not_available R s chain criteria of
             None \<Rightarrow> None
           | Some k \<Rightarrow>
               map_option (\<lambda>(clients, known). (clients, k \<or> known)) (filter_block R chain criteria rest)))"

text \<open>
  \<open>sorted_unstable_by_key\<close> leaves the order of equal keys open; a stable order stands for it. The
  first chunk of equal seqnos is the answer.
\<close>

definition latest_group :: "('c \<times> i32) list \<Rightarrow> 'c list" where
  "latest_group xs =
     (case sort_key (\<lambda>(_, n). wrap_i32 (- n)) xs of
        [] \<Rightarrow> []
      | (c, n) # rest \<Rightarrow> c # map fst (takeWhile (\<lambda>(_, m). m = n) rest))"

fun choose_services :: "'c routed \<Rightarrow> Route \<Rightarrow> 'c list \<Rightarrow> (route_error + 'c list) option" where
  "choose_services R (RouteBlock chain criteria) from =
     map_option (\<lambda>(clients, known).
         if clients = [] then (if known then Inl RouteNotAvailable else Inl RouteUnknown)
         else Inr clients)
       (filter_block R chain criteria from)"
| "choose_services R RouteLatest from =
     (let xs = List.map_filter (\<lambda>s. map_option (\<lambda>n. (s, n)) (last_seqno R s)) from in
      if xs = [] then Some (Inl RouteUnknown) else Some (Inr (latest_group xs)))"

section \<open>The routed client\<close>

record 'c RoutedClient =
  rc_client :: 'c
  rc_last_value :: "MasterchainInfo option"
  rc_registry :: Registry

definition rc_contains :: "'c RoutedClient \<Rightarrow> i32 \<Rightarrow> BlockCriteria \<Rightarrow> bool option" where
  "rc_contains rc chain criteria = registry_contains (rc_registry rc) chain criteria False"

definition rc_contains_not_available :: "'c RoutedClient \<Rightarrow> i32 \<Rightarrow> BlockCriteria \<Rightarrow> bool option" where
  "rc_contains_not_available rc chain criteria = registry_contains (rc_registry rc) chain criteria True"

definition rc_last_seqno :: "'c RoutedClient \<Rightarrow> i32 option" where
  "rc_last_seqno rc =
     (case rc_last_value rc of
        None \<Rightarrow> None
      | Some info \<Rightarrow> get_last_seqno (rc_registry rc) (workchain (mc_last info), shard (mc_last info)))"

definition rc_routed :: "'c RoutedClient routed" where
  "rc_routed = \<lparr>contains = rc_contains, contains_not_available = rc_contains_not_available,
     last_seqno = rc_last_seqno\<rparr>"

definition edges_defined :: "'c RoutedClient \<Rightarrow> bool" where
  "edges_defined rc =
     (case rc_last_value rc of
        None \<Rightarrow> False
      | Some info \<Rightarrow>
          registry_edges_defined (rc_registry rc) (workchain (mc_last info), shard (mc_last info)))"

definition masterchain_info_poll_ready :: "'c RoutedClient \<Rightarrow> ('e + unit) poll" where
  "masterchain_info_poll_ready rc = (if edges_defined rc then Ready (Inr ()) else Pending)"

text \<open>\<open>call\<close> panics when the last value is missing.\<close>

definition masterchain_info_call :: "'c RoutedClient \<Rightarrow> MasterchainInfo option" where
  "masterchain_info_call rc = rc_last_value rc"

definition forward_poll_ready ::
  "('c \<Rightarrow> ('e + unit) poll \<times> 'c) \<Rightarrow> 'c RoutedClient \<Rightarrow> ('e + unit) poll \<times> 'c RoutedClient" where
  "forward_poll_ready inner rc =
     (if edges_defined rc
      then (case inner (rc_client rc) of (p, c) \<Rightarrow> (p, rc\<lparr>rc_client := c\<rparr>))
      else (Pending, rc))"

section \<open>The router\<close>

datatype ('k, 'c, 'e) change = Insert 'k 'c | Remove 'k | DiscoverError 'e | DiscoverEnd

text \<open>
  \<open>rt_discover\<close> lists what the discovery yields next, as far as it is ready, and
  \<open>rt_services\<close> the services in the order in which an iteration of the map visits them.
\<close>

record ('k, 'c, 'e) Router =
  rt_discover :: "('k, 'c, 'e) change list"
  rt_services :: "('k \<times> 'c) list"

fun update_pending_from_discover ::
  "('k, 'c, 'e) change list \<Rightarrow> ('k \<times> 'c) list
     \<Rightarrow> ('e option) poll \<times> ('k, 'c, 'e) change list \<times> ('k \<times> 'c) list" where
  "update_pending_from_discover [] services = (Pending, [], services)"
| "update_pending_from_discover (DiscoverEnd # ds) services = (Ready None, ds, services)"
| "update_pending_from_discover (Remove key # ds) services =
     update_pending_from_discover ds (AList.delete key services)"
| "update_pending_from_discover (Insert key svc # ds) services =
     update_pending_from_discover ds (AList.update key svc services)"
| "update_pending_from_discover (DiscoverError e # ds) services = (Ready (Some e), ds, services)"

fun poll_services ::
  "('c \<Rightarrow> ('e + unit) poll \<times> 'c) \<Rightarrow> ('k \<times> 'c) list \<Rightarrow> bool \<times> ('k \<times> 'c) list" where
  "poll_services poll [] = (False, [])"
| "poll_services poll ((k, s) # rest) =
     (case poll s of
        (Ready (Inr _), s') \<Rightarrow> (True, (k, s') # rest)
      | (_, s') \<Rightarrow> (case poll_services poll rest of (b, rest') \<Rightarrow> (b, (k, s') # rest')))"

definition router_new :: "('k, 'c, 'e) change list \<Rightarrow> ('k, 'c, 'e) Router" where
  "router_new discover = \<lparr>rt_discover = discover, rt_services = []\<rparr>"

definition router_poll_ready ::
  "('c \<Rightarrow> ('e + unit) poll \<times> 'c) \<Rightarrow> ('k, 'c, 'e) Router \<Rightarrow> ('e + unit) poll \<times> ('k, 'c, 'e) Router" where
  "router_poll_ready poll rt =
     (case update_pending_from_discover (rt_discover rt) (rt_services rt) of
        (Ready (Some e), ds, services) \<Rightarrow>
          (Ready (Inl e), \<lparr>rt_discover = ds, rt_services = services\<rparr>)
      | (_, ds, services) \<Rightarrow>
          (case poll_services poll services of
             (ready, services') \<Rightarrow>
               (if ready then Ready (Inr ()) else Pending,
                \<lparr>rt_discover = ds, rt_services = services'\<rparr>)))"

definition router_call ::
  "'c routed \<Rightarrow> ('k, 'c, 'e) Router \<Rightarrow> Route \<Rightarrow> (route_error + 'c list) option" where
  "router_call R rt route =
     (let from = map snd (rt_services rt) in
      case choose_services R route from of
        None \<Rightarrow> None
      | Some (Inr services) \<Rightarrow> Some (Inr services)
      | Some (Inl RouteUnknown) \<Rightarrow> choose_services R RouteLatest from
      | Some (Inl RouteNotAvailable) \<Rightarrow> Some (Inl RouteNotAvailable))"

text \<open>
  \<open>Balance\<close>: \<open>pick\<close> is the choice of \<open>tower::balance::p2c\<close> among the services, and
  \<open>send\<close> the call of a service with the request.
\<close>

definition balance_call ::
  "'c routed \<Rightarrow> ('c list \<Rightarrow> 'c) \<Rightarrow> ('c \<Rightarrow> request \<Rightarrow> 'r) \<Rightarrow> ('k, 'c, 'e) Router \<Rightarrow> pool_request
     \<Rightarrow> (route_error + 'r) option" where
  "balance_call R pick send rt req =
     map_option (map_ok (\<lambda>services. send (pick services) (into_request req)))
       (router_call R rt (pool_route req))"

section \<open>The group of the latest seqno\<close>

lemma takeWhile_max_filter:
  assumes "sorted (map (\<lambda>(_, m). - m) xs)" "\<forall>(_, m) \<in> set xs. m \<le> (n :: int)"
  shows "takeWhile (\<lambda>(_, m). m = n) xs = filter (\<lambda>(_, m). m = n) xs"
  using assms
proof (induction xs)
  case (Cons x xs)
  obtain c m where x: "x = (c, m)" by (cases x)
  show ?case
  proof (cases "m = n")
    case False
    with Cons.prems x have "k < n" if "(d, k) \<in> set xs" for d k using that by fastforce
    then have "filter (\<lambda>(_, m). m = n) xs = []" by (fastforce simp: filter_empty_conv)
    with False x show ?thesis by simp
  qed (use Cons x in auto)
qed simp

lemma latest_group_mset:
  assumes "xs \<noteq> []" "\<forall>(_, n) \<in> set xs. i32_range (- n)" and M: "M = Max (snd ` set xs)"
  shows "mset (latest_group xs) = mset (map fst (filter (\<lambda>(_, n). n = M) xs))"
proof -
  define ys where "ys = sort_key (\<lambda>(_, n). wrap_i32 (- n)) xs"
  have set: "set ys = set xs" "mset ys = mset xs" by (simp_all add: ys_def)
  have "map (\<lambda>(_, n). - n) ys = map (\<lambda>(_, n). wrap_i32 (- n)) ys"
    using assms(2) set(1) by (auto simp: wrap_i32_id)
  moreover have "sorted (map (\<lambda>(_, n). wrap_i32 (- n)) ys)" by (simp add: ys_def)
  ultimately have sorted: "sorted (map (\<lambda>(_, n). - n) ys)" by (simp only:)
  obtain c n zs where ys: "ys = (c, n) # zs" using assms(1) set(1) by (cases ys) auto
  have le: "\<forall>(_, m) \<in> set zs. m \<le> n" using sorted ys by fastforce
  have "M = n" unfolding M set(1) [symmetric] ys using le by (intro Max_eqI) auto
  have "latest_group xs = map fst (filter (\<lambda>(_, m). m = n) ys)"
    unfolding latest_group_def ys_def [symmetric] ys
    using takeWhile_max_filter [of zs n] sorted ys le by simp
  then show ?thesis
    using set(2) \<open>M = n\<close> by (metis mset_filter mset_map)
qed

section \<open>The contract of a routed client and the choice\<close>

text \<open>
  \<open>ok\<close> describes the clients whose membership tests do not panic and whose seqnos can be
  negated.
\<close>

locale routed_laws =
  fixes R :: "'c routed" and ok :: "'c \<Rightarrow> bool"
  assumes contains_total: "ok c \<Longrightarrow> contains R c chain criteria \<noteq> None"
    and not_available_total: "ok c \<Longrightarrow> contains_not_available R c chain criteria \<noteq> None"
    and seqno_range: "ok c \<Longrightarrow> last_seqno R c = Some n \<Longrightarrow> i32_range (- n)"
begin

lemma filter_block_eq:
  assumes "\<forall>c \<in> set from. ok c"
  shows "filter_block R chain criteria from
      = Some (filter (\<lambda>c. contains R c chain criteria = Some True) from,
          \<exists>c \<in> set from. contains R c chain criteria \<noteq> Some True
            \<and> contains_not_available R c chain criteria = Some True)"
  using assms
proof (induction "from")
  case (Cons c cs)
  obtain a b where "contains R c chain criteria = Some a"
      "contains_not_available R c chain criteria = Some b"
    using contains_total [of c] not_available_total [of c] Cons.prems by fastforce
  with Cons show ?case by (cases a; cases b) auto
qed simp

lemma choose_block:
  assumes "\<forall>c \<in> set from. ok c"
  shows "choose_services R (RouteBlock chain criteria) from =
    Some (let holders = filter (\<lambda>c. contains R c chain criteria = Some True) from in
      if holders \<noteq> [] then Inr holders
      else if \<exists>c \<in> set from. contains_not_available R c chain criteria = Some True
      then Inl RouteNotAvailable else Inl RouteUnknown)"
proof -
  have "\<exists>c \<in> set from. contains R c chain criteria \<noteq> Some True
      \<and> contains_not_available R c chain criteria = Some True"
    if "filter (\<lambda>c. contains R c chain criteria = Some True) from = []"
      "\<exists>c \<in> set from. contains_not_available R c chain criteria = Some True"
    using that by (auto simp: filter_empty_conv)
  with filter_block_eq [OF assms, of chain criteria] show ?thesis
    by (auto simp: Let_def filter_empty_conv)
qed

lemma choose_latest:
  assumes "\<forall>c \<in> set from. ok c" "c \<in> set from" "last_seqno R c = Some n"
  defines "M \<equiv> Max {n. \<exists>c \<in> set from. last_seqno R c = Some n}"
  shows "\<exists>g. choose_services R RouteLatest from = Some (Inr g)
    \<and> mset g = mset (filter (\<lambda>c. last_seqno R c = Some M) from) \<and> g \<noteq> []"
proof -
  define xs where "xs = List.map_filter (\<lambda>s. map_option (\<lambda>n. (s, n)) (last_seqno R s)) from"
  have set: "set xs = {(c, n). c \<in> set from \<and> last_seqno R c = Some n}"
    unfolding xs_def by (induction "from") (auto simp: List.map_filter_simps split: option.splits)
  then have ne: "xs \<noteq> []" using assms(2,3) by auto
  have M: "M = Max (snd ` set xs)" unfolding M_def set by (rule arg_cong [of _ _ Max]) force
  have rng: "\<forall>(_, n) \<in> set xs. i32_range (- n)" using assms(1) seqno_range set by auto
  have "map fst (filter (\<lambda>(_, n). n = M) xs) = filter (\<lambda>c. last_seqno R c = Some M) from"
    unfolding xs_def by (induction "from") (auto simp: map_filter_def)
  with latest_group_mset [OF ne rng M]
  have g: "mset (latest_group xs) = mset (filter (\<lambda>c. last_seqno R c = Some M) from)" by simp
  moreover have "M \<in> snd ` set xs" unfolding M using ne by (intro Max_in) auto
  then have "filter (\<lambda>c. last_seqno R c = Some M) from \<noteq> []"
    unfolding set by (auto simp: filter_empty_conv)
  ultimately show ?thesis using ne by (auto simp: xs_def [symmetric] Let_def)
qed

lemma choose_latest_unknown:
  assumes "\<forall>c \<in> set from. last_seqno R c = None"
  shows "choose_services R RouteLatest from = Some (Inl RouteUnknown)"
proof -
  have "List.map_filter (\<lambda>s. map_option (\<lambda>n. (s, n)) (last_seqno R s)) from = []"
    using assms by (induction "from") (auto simp: map_filter_def)
  then show ?thesis by simp
qed

text \<open>The answer of the router is a nonempty list of holders, or of clients at the latest seqno.\<close>

lemma router_call_block:
  assumes "\<forall>c \<in> set (map snd (rt_services rt)). ok c"
  shows "\<exists>res. router_call R rt (RouteBlock chain criteria) = Some res \<and>
    (case res of
       Inr services \<Rightarrow> services \<noteq> [] \<and> set services \<subseteq> set (map snd (rt_services rt)) \<and>
         ((\<forall>c \<in> set services. contains R c chain criteria = Some True) \<or>
          (\<forall>c \<in> set (map snd (rt_services rt)). contains R c chain criteria \<noteq> Some True
             \<and> contains_not_available R c chain criteria \<noteq> Some True) \<and>
          (\<forall>c \<in> set services. \<exists>n. last_seqno R c = Some n \<and> (\<forall>c' \<in> set (map snd (rt_services rt)).
             \<forall>m. last_seqno R c' = Some m \<longrightarrow> m \<le> n)))
     | Inl RouteNotAvailable \<Rightarrow>
         (\<forall>c \<in> set (map snd (rt_services rt)). contains R c chain criteria \<noteq> Some True) \<and>
         (\<exists>c \<in> set (map snd (rt_services rt)). contains_not_available R c chain criteria = Some True)
     | Inl RouteUnknown \<Rightarrow>
         \<forall>c \<in> set (map snd (rt_services rt)). contains R c chain criteria \<noteq> Some True
           \<and> last_seqno R c = None)"
proof -
  let ?from = "map snd (rt_services rt)"
  let ?holders = "filter (\<lambda>c. contains R c chain criteria = Some True) ?from"
  note block = choose_block [OF assms, of chain criteria]
  consider (holders) "?holders \<noteq> []"
    | (known) "?holders = []" "\<exists>c \<in> set ?from. contains_not_available R c chain criteria = Some True"
    | (latest) c n where "?holders = []" "c \<in> set ?from" "last_seqno R c = Some n"
        "\<forall>c \<in> set ?from. contains_not_available R c chain criteria \<noteq> Some True"
    | (unknown) "?holders = []" "\<forall>c \<in> set ?from. last_seqno R c = None"
        "\<forall>c \<in> set ?from. contains_not_available R c chain criteria \<noteq> Some True"
    by (meson not_None_eq)
  then show ?thesis
  proof cases
    case holders
    with block show ?thesis by (auto simp del: choose_services.simps simp: router_call_def Let_def)
  next
    case known
    with block show ?thesis by (simp del: choose_services.simps add: router_call_def Let_def filter_empty_conv)
  next
    case latest
    define M where "M = Max {n. \<exists>c \<in> set ?from. last_seqno R c = Some n}"
    obtain g where g: "choose_services R RouteLatest ?from = Some (Inr g)" "g \<noteq> []"
      "mset g = mset (filter (\<lambda>c. last_seqno R c = Some M) ?from)"
      using choose_latest [OF assms latest(2,3)] unfolding M_def by auto
    have "finite {n. \<exists>c \<in> set ?from. last_seqno R c = Some n}"
      by (rule finite_subset [of _ "(the \<circ> last_seqno R) ` set ?from"]) force+
    then have "m \<le> M" if "c \<in> set ?from" "last_seqno R c = Some m" for c m
      unfolding M_def using that by (intro Max_ge) auto
    moreover have "set g = {c \<in> set ?from. last_seqno R c = Some M}"
      using mset_eq_setD [OF g(3)] by simp
    ultimately show ?thesis using latest block g
      by (auto simp del: choose_services.simps simp: router_call_def Let_def filter_empty_conv)
  next
    case unknown
    with block choose_latest_unknown [OF unknown(2)] show ?thesis
      by (simp del: choose_services.simps add: router_call_def Let_def filter_empty_conv)
  qed
qed

end

section \<open>The routed client keeps the contract\<close>

definition rc_ok :: "'c RoutedClient \<Rightarrow> bool" where
  "rc_ok rc \<longleftrightarrow> (\<forall>sid. registered (rc_registry rc) sid \<longrightarrow> word_of_int (snd sid) \<noteq> (0 :: u64))
     \<and> reg_inv (rc_registry rc)
     \<and> (\<forall>sid h. right_of (rc_registry rc) sid = Some h \<longrightarrow> i32_range (- seqno (header_id h)))"

lemma edges_defined_client [simp]: "edges_defined (rc\<lparr>rc_client := c\<rparr>) = edges_defined rc"
  by (simp add: edges_defined_def split: option.splits)

lemma registry_contains_total:
  assumes "\<forall>sid. registered reg sid \<longrightarrow> word_of_int (snd sid) \<noteq> (0 :: u64)" "reg_inv reg"
  shows "registry_contains reg chain criteria na \<noteq> None"
proof (cases criteria)
  case (CriteriaLogicalTime address lt)
  have "\<forall>sid \<in> set ids. word_of_int (snd sid) \<noteq> (0 :: u64)" if "shard_registry reg chain = Some ids" for ids
    using assms that reg_invD(3) [OF assms(2) that] unfolding registered_def by metis
  with CriteriaLogicalTime show ?thesis by (auto simp: any_shard_iff split: option.splits)
qed (auto split: option.splits)

lemma rc_last_seqno_right:
  "rc_last_seqno rc = Some n \<Longrightarrow> \<exists>sid h. right_of (rc_registry rc) sid = Some h \<and> n = seqno (header_id h)"
  unfolding rc_last_seqno_def get_last_seqno_def right_of_def
  by (fastforce split: option.splits bind_splits)

interpretation rc: routed_laws rc_routed rc_ok
proof
  fix c :: "'c RoutedClient" and chain criteria n
  assume ok: "rc_ok c"
  show "contains rc_routed c chain criteria \<noteq> None"
    "contains_not_available rc_routed c chain criteria \<noteq> None"
    using ok registry_contains_total [of "rc_registry c"]
    by (simp_all add: rc_routed_def rc_contains_def rc_contains_not_available_def rc_ok_def)
  show "last_seqno rc_routed c = Some n \<Longrightarrow> i32_range (- n)"
    using ok rc_last_seqno_right [of c n] by (auto simp: rc_routed_def rc_ok_def)
qed

lemma rc_routed_simps [simp]: "contains rc_routed = rc_contains"
  "contains_not_available rc_routed = rc_contains_not_available" "last_seqno rc_routed = rc_last_seqno"
  by (simp_all add: rc_routed_def)

section \<open>Properties\<close>

lemma rc_total:
  assumes "rc_ok c"
  shows "(rc_contains c chain criteria \<noteq> Some True) = (rc_contains c chain criteria = Some False)"
    "(rc_contains_not_available c chain criteria \<noteq> Some True)
      = (rc_contains_not_available c chain criteria = Some False)"
proof -
  obtain a b where "rc_contains c chain criteria = Some a" "rc_contains_not_available c chain criteria = Some b"
    using assms rc.contains_total [of c chain criteria] rc.not_available_total [of c chain criteria]
    by (auto simp: rc_routed_def)
  then show "(rc_contains c chain criteria \<noteq> Some True) = (rc_contains c chain criteria = Some False)"
    "(rc_contains_not_available c chain criteria \<noteq> Some True)
      = (rc_contains_not_available c chain criteria = Some False)" by auto
qed

text \<open>
  C2. A request for a block is sent to a client that holds the block. Only when no client holds or
  knows the block, it is sent to a client with the greatest last seqno; when some client knows the block
  but none has it yet, the balancer answers \<open>RouteNotAvailable\<close>. It never panics.
\<close>

theorem balance_sends_to_holder:
  fixes rt :: "('k, 'c RoutedClient, 'e) Router"
  assumes "\<forall>c \<in> set (map snd (rt_services rt)). rc_ok c"
    and "\<forall>l. l \<noteq> [] \<longrightarrow> pick l \<in> set l"
    and "pool_route req = RouteBlock chain criteria"
  shows "\<exists>res. balance_call rc_routed pick send rt req = Some res \<and>
    (case res of
       Inr r \<Rightarrow> (\<exists>c \<in> set (map snd (rt_services rt)). r = send c (into_request req) \<and>
         (rc_contains c chain criteria = Some True \<or>
          (\<forall>c' \<in> set (map snd (rt_services rt)). rc_contains c' chain criteria = Some False
             \<and> rc_contains_not_available c' chain criteria = Some False
             \<and> (\<forall>m. rc_last_seqno c' = Some m \<longrightarrow> (\<exists>n. rc_last_seqno c = Some n \<and> m \<le> n)))))
     | Inl RouteNotAvailable \<Rightarrow>
         (\<forall>c \<in> set (map snd (rt_services rt)). rc_contains c chain criteria = Some False) \<and>
         (\<exists>c \<in> set (map snd (rt_services rt)). rc_contains_not_available c chain criteria = Some True)
     | Inl RouteUnknown \<Rightarrow>
         \<forall>c \<in> set (map snd (rt_services rt)). rc_contains c chain criteria = Some False
           \<and> rc_last_seqno c = None)"
proof -
  let ?from = "set (map snd (rt_services rt))"
  have total: "(rc_contains c chain criteria \<noteq> Some True) = (rc_contains c chain criteria = Some False)"
    "(rc_contains_not_available c chain criteria \<noteq> Some True)
      = (rc_contains_not_available c chain criteria = Some False)" if "c \<in> ?from" for c
    using rc_total assms(1) that by blast+
  obtain res where res: "router_call rc_routed rt (RouteBlock chain criteria) = Some res"
    and q: "case res of
       Inr services \<Rightarrow> services \<noteq> [] \<and> set services \<subseteq> ?from \<and>
         ((\<forall>c \<in> set services. rc_contains c chain criteria = Some True) \<or>
          (\<forall>c \<in> ?from. rc_contains c chain criteria \<noteq> Some True
             \<and> rc_contains_not_available c chain criteria \<noteq> Some True) \<and>
          (\<forall>c \<in> set services. \<exists>n. rc_last_seqno c = Some n \<and> (\<forall>c' \<in> ?from.
             \<forall>m. rc_last_seqno c' = Some m \<longrightarrow> m \<le> n)))
     | Inl RouteNotAvailable \<Rightarrow> (\<forall>c \<in> ?from. rc_contains c chain criteria \<noteq> Some True) \<and>
         (\<exists>c \<in> ?from. rc_contains_not_available c chain criteria = Some True)
     | Inl RouteUnknown \<Rightarrow>
         \<forall>c \<in> ?from. rc_contains c chain criteria \<noteq> Some True \<and> rc_last_seqno c = None"
    using rc.router_call_block [OF assms(1), of chain criteria] unfolding rc_routed_simps
    by (elim exE conjE) (rule that)
  show ?thesis
  proof (cases res)
    case (Inr services)
    let ?c = "pick services"
    from q Inr have q': "services \<noteq> []" "set services \<subseteq> ?from"
      "(\<forall>c \<in> set services. rc_contains c chain criteria = Some True) \<or>
        (\<forall>c \<in> ?from. rc_contains c chain criteria \<noteq> Some True
           \<and> rc_contains_not_available c chain criteria \<noteq> Some True) \<and>
        (\<forall>c \<in> set services. \<exists>n. rc_last_seqno c = Some n \<and> (\<forall>c' \<in> ?from.
           \<forall>m. rc_last_seqno c' = Some m \<longrightarrow> m \<le> n))" by simp_all
    from q'(1) assms(2) have c: "?c \<in> set services" by blast
    have "rc_contains ?c chain criteria = Some True \<or>
        (\<forall>c' \<in> ?from. rc_contains c' chain criteria = Some False
           \<and> rc_contains_not_available c' chain criteria = Some False
           \<and> (\<forall>m. rc_last_seqno c' = Some m \<longrightarrow> (\<exists>n. rc_last_seqno ?c = Some n \<and> m \<le> n)))"
      using q'(3) c total by blast
    moreover have "balance_call rc_routed pick send rt req = Some (Inr (send ?c (into_request req)))"
      using res Inr assms(3) by (simp add: balance_call_def)
    moreover have "?c \<in> ?from" using c q'(2) by blast
    ultimately show ?thesis by (intro exI [of _ "Inr (send ?c (into_request req))"]) (subst sum.case(2), blast)
  next
    case (Inl e)
    with q total res assms(3) show ?thesis by (cases e) (simp_all add: balance_call_def)
  qed
qed

text \<open>A client of a liteserver that holds the masterchain blocks 3 to 9 and knows of block 12.\<close>

definition sample_registry :: Registry where
  "sample_registry = upsert_right (header_at (-1) (- (2 ^ 63)) 9)
     (upsert_left (header_at (-1) (- (2 ^ 63)) 3)
       (upsert_right_end (header_id (header_at (-1) (- (2 ^ 63)) 12)) registry_default))"

definition sample_client :: "string RoutedClient" where
  "sample_client = \<lparr>rc_client = ''liteserver'',
     rc_last_value = Some \<lparr>mc_last = header_id (header_at (-1) (- (2 ^ 63)) 9), mc_state_root_hash = [],
       mc_init = header_id (header_at (-1) (- (2 ^ 63)) 0)\<rparr>,
     rc_registry = sample_registry\<rparr>"

lemma shard_id_header_at [simp]: "shard_id_of (header_id (header_at wc sh n)) = (wc, sh)"
  "seqno (header_id (header_at wc sh n)) = n"
  by (simp_all add: shard_id_of_def header_at_def)

lemma sample_client_ok: "rc_ok sample_client"
proof -
  have "reg_inv sample_registry" by (simp add: sample_registry_def reg_inv_upsert reg_inv_default)
  moreover have "right_of sample_registry sid = (if sid = (-1, - (2 ^ 63))
      then Some (header_at (-1) (- (2 ^ 63)) 9) else None)" for sid
    by (simp add: sample_registry_def store.right_right store.right_left store.right_end)
  moreover have "registered sample_registry sid \<longleftrightarrow> sid = (-1, - (2 ^ 63))" for sid
    by (auto simp: sample_registry_def registered_upsert)
  ultimately show ?thesis
    by (simp add: rc_ok_def sample_client_def i32_range_def)
qed

theorem balance_sends_to_holder_witness:
  "\<exists>res. balance_call rc_routed hd (\<lambda>c r. (rc_client c, r))
     \<lparr>rt_discover = [] :: (nat, string RoutedClient, string) change list,
       rt_services = [(0, sample_client)]\<rparr> (Plain (LookUpBlockBySeqno (-1) (- (2 ^ 63)) 5)) = Some res"
  using balance_sends_to_holder [of "\<lparr>rt_discover = [] :: (nat, string RoutedClient, string) change list,
       rt_services = [(0, sample_client)]\<rparr>" hd "Plain (LookUpBlockBySeqno (-1) (- (2 ^ 63)) 5)"
       "-1" "CriteriaSeqno (- (2 ^ 63)) 5" "\<lambda>c r. (rc_client c, r)"] sample_client_ok
  by auto

lemma address_u64_shard:
  "address_u64 (i64_to_be sh @ replicate 24 0) = word_of_int sh"
  by (simp add: address_u64_def i64_to_be_def of_be_bytes_be_bytes)

lemma rc_contains_own_shard:
  assumes "rc_ok c" "shard_bounds_registry (rc_registry c) (chain, sh) = Some b" "contains_lt b lt False"
  shows "rc_contains c chain (CriteriaLogicalTime (i64_to_be sh @ replicate 24 0) lt) = Some True"
proof -
  have "reg_inv (rc_registry c)" and nz: "registered (rc_registry c) sid \<Longrightarrow> word_of_int (snd sid) \<noteq> (0 :: u64)"
    for sid using assms(1) unfolding rc_ok_def by blast+
  then have w: "word_of_int sh \<noteq> (0 :: u64)"
    using reg_invD(1) [OF _ assms(2)] nz [of "(chain, sh)"] by simp
  then obtain p where "from_shard_id (word_of_int sh) = Some p"
    by (cases "from_shard_id (word_of_int sh)") simp_all
  moreover from this have "prefix_matches p (i64_to_be sh @ replicate 24 0)"
    using prefix_matches_iff [OF w] address_u64_shard [of sh] by simp
  ultimately show ?thesis
    using contains_lt_iff [of "rc_registry c"] \<open>reg_inv _\<close> nz assms(2,3)
    by (force simp: rc_contains_def)
qed

text \<open>
  C16. Looking up a block of a shard by logical time reaches every client that holds blocks of that shard
  around that time: the address made of the shard id matches the prefix of the shard.
\<close>

theorem lookup_by_lt_reaches_shard:
  fixes rt :: "('k, 'c RoutedClient, 'e) Router"
  assumes "\<forall>c \<in> set (map snd (rt_services rt)). rc_ok c"
    and "c \<in> set (map snd (rt_services rt))"
    and "shard_bounds_registry (rc_registry c) (chain, sh) = Some b" and "contains_lt b lt False"
  shows "\<exists>services. router_call rc_routed rt (to_route (LookUpBlockByLt chain sh lt)) = Some (Inr services)
    \<and> c \<in> set services"
proof -
  let ?cr = "CriteriaLogicalTime (i64_to_be sh @ replicate 24 0) lt"
  let ?holders = "filter (\<lambda>c. rc_contains c chain ?cr = Some True) (map snd (rt_services rt))"
  have "rc_contains c chain ?cr = Some True"
    using rc_contains_own_shard [OF _ assms(3,4)] assms(1,2) by blast
  then have c: "c \<in> set ?holders" using assms(2) by auto
  then have "?holders \<noteq> []" by force
  with rc.choose_block [OF assms(1), of chain ?cr]
  have "choose_services rc_routed (RouteBlock chain ?cr) (map snd (rt_services rt)) = Some (Inr ?holders)"
    by (simp only: rc_routed_simps Let_def if_True not_False_eq_True)
  with c show ?thesis by (simp add: router_call_def Let_def del: choose_services.simps)
qed

theorem lookup_by_lt_reaches_shard_witness:
  "\<exists>services. router_call rc_routed \<lparr>rt_discover = [] :: (nat, string RoutedClient, string) change list,
      rt_services = [(0, sample_client)]\<rparr> (to_route (LookUpBlockByLt (-1) (- (2 ^ 63)) 512))
    = Some (Inr services) \<and> sample_client \<in> set services"
  by (rule lookup_by_lt_reaches_shard [of _ _ _ _ "\<lparr>sb_left = Some (header_at (-1) (- (2 ^ 63)) 3),
        sb_right = Some (header_at (-1) (- (2 ^ 63)) 9), sb_right_seqno = Some 12\<rparr>"])
    (simp_all add: sample_client_ok, simp_all add: sample_client_def sample_registry_def upsert_defs
      bounds_defs registry_default_def contains_lt_def header_at_def shard_id_of_def)

fun apply_change :: "('k, 'c, 'e) change \<Rightarrow> ('k \<rightharpoonup> 'c) \<Rightarrow> ('k \<rightharpoonup> 'c)" where
  "apply_change (Insert k c) m = m(k \<mapsto> c)"
| "apply_change (Remove k) m = m(k := None)"
| "apply_change _ m = m"

fun is_change :: "('k, 'c, 'e) change \<Rightarrow> bool" where
  "is_change (Insert _ _) = True"
| "is_change (Remove _) = True"
| "is_change _ = False"

lemma discover_replays:
  "update_pending_from_discover ds sv = (p, rest, sv') \<Longrightarrow>
    map_of sv' = fold apply_change (takeWhile is_change ds) (map_of sv)
    \<and> (distinct (map fst sv) \<longrightarrow> distinct (map fst sv'))
    \<and> rest = tl (dropWhile is_change ds)
    \<and> (p = Pending \<longleftrightarrow> dropWhile is_change ds = [])"
  by (induction ds sv rule: update_pending_from_discover.induct)
    (auto simp: update_conv' delete_conv' distinct_update distinct_delete)

text \<open>
  The table of services is what the discovery said: after a poll it is the result of all changes up
  to the first error or the end, applied in order to the previous table as a map, with one entry per key.
\<close>

lemma discover_table:
  assumes "distinct (map fst (rt_services rt))" and "router_poll_ready poll rt = (p, rt')"
  shows "fst ` set (rt_services rt')
      = dom (fold apply_change (takeWhile is_change (rt_discover rt)) (map_of (rt_services rt)))
    \<and> distinct (map fst (rt_services rt')) \<and> rt_discover rt' = tl (dropWhile is_change (rt_discover rt))"
proof -
  obtain q ds sv where u: "update_pending_from_discover (rt_discover rt) (rt_services rt) = (q, ds, sv)"
    by (cases "update_pending_from_discover (rt_discover rt) (rt_services rt)") auto
  have keys: "map fst (snd (poll_services poll sv)) = map fst sv" for sv
    by (induction sv rule: poll_services.induct [of _ poll])
      (auto split: prod.splits Rust_Prelude.poll.splits sum.splits)
  have "map fst (rt_services rt') = map fst sv \<and> rt_discover rt' = ds"
    using assms(2) u keys [of sv]
    by (auto simp: router_poll_ready_def split: prod.splits Rust_Prelude.poll.splits option.splits)
  moreover have "dom (map_of sv) = fst ` set sv" by (rule dom_map_of_conv_image_fst)
  ultimately show ?thesis
    using discover_replays [OF u] assms(1) by (metis list.set_map)
qed

text \<open>
  The router is ready only when some client has discovered both the last masterchain block and the
  first available one; the masterchain info of that client is there and asking for it does not panic.
\<close>

lemma router_ready_edges:
  fixes inner :: "'c \<Rightarrow> ('e + unit) poll \<times> 'c" and rt rt' :: "('k, 'c RoutedClient, 'e) Router"
  assumes "router_poll_ready (forward_poll_ready inner) rt = (Ready (Inr ()), rt')"
  shows "\<exists>c \<in> set (map snd (rt_services rt')). edges_defined c \<and> masterchain_info_call c \<noteq> None"
proof -
  have call: "edges_defined c \<Longrightarrow> masterchain_info_call c \<noteq> None" for c :: "'c RoutedClient"
    by (auto simp: edges_defined_def masterchain_info_call_def split: option.splits)
  have "\<exists>c \<in> set (map snd sv'). edges_defined c"
    if "poll_services (forward_poll_ready inner) sv = (True, sv')" for sv sv' :: "('k \<times> 'c RoutedClient) list"
    using that
  proof (induction sv arbitrary: sv')
    case (Cons ks sv)
    obtain k s p s' where ks: "ks = (k, s)" "forward_poll_ready inner s = (p, s')"
      by (metis prod.collapse)
    show ?case
    proof (cases "p = Ready (Inr ())")
      case True
      then have "edges_defined s'" using ks(2)
        by (auto simp: forward_poll_ready_def split: if_splits prod.splits)
      with Cons.prems ks True show ?thesis by auto
    next
      case False
      with Cons.prems ks obtain sv2 where "poll_services (forward_poll_ready inner) sv = (True, sv2)"
        "sv' = (k, s') # sv2"
        by (auto split: Rust_Prelude.poll.splits sum.splits prod.splits)
      with Cons.IH show ?thesis by auto
    qed
  qed simp
  with assms call show ?thesis
    by (fastforce simp: router_poll_ready_def split: prod.splits Rust_Prelude.poll.splits option.splits if_splits)
qed

end
