(* ===== verification/Discover.thy ===== *)
theory Discover
  imports Binary_Search Routing
begin

text \<open>
  \<open>ton-client/src/route/discover\<close>: the four tasks that fill the registry of a liteserver client.
  \<open>last_block\<close> follows the masterchain block by block, \<open>block_shards\<close> asks for the shards of a
  masterchain block, \<open>shard_header\<close> for the header of a shard block, and \<open>first_block\<close> looks
  for the first block that the liteserver still has. \<open>tokio_retry\<close> is a parameter: \<open>retry\<close>
  runs a request again when it fails, and the theorems only use that a request that succeeds at once is
  not repeated. A loop that does not end is the value \<open>None\<close>.
\<close>

section \<open>The last block\<close>

text \<open>
  \<open>lb_watch\<close> is the value of the watch channel, \<open>lb_sent\<close> the blocks sent to the task for
  shards, \<open>lb_open\<close> whether that task still receives.
\<close>

record last_block_env =
  lb_registry :: Registry
  lb_watch :: "MasterchainInfo option"
  lb_sent :: "BlockIdExt list"
  lb_open :: bool

definition wait_for_block_header ::
  "(('s, BlockHeader) io \<Rightarrow> ('s, BlockHeader) io) \<Rightarrow> 's handlers \<Rightarrow> BlockIdExt \<Rightarrow> ('s, BlockHeader) io" where
  "wait_for_block_header retry client block_id = retry (on_get_block_header client block_id)"

partial_function (option) last_block_loop ::
  "(('s, BlockHeader) io \<Rightarrow> ('s, BlockHeader) io) \<Rightarrow> 's handlers \<Rightarrow> BlockIdExt \<Rightarrow> MasterchainInfo
     \<Rightarrow> last_block_env \<Rightarrow> 's \<Rightarrow> ((anyhow + MasterchainInfo option) \<times> last_block_env \<times> 's) option" where
  "last_block_loop retry client last_block info env s =
     (case right_next (lb_registry env) (shard_id_of last_block) of
        None \<Rightarrow> Some (Inr (Some info), env, s)
      | Some n \<Rightarrow>
          (case on_look_up_block_by_seqno client (workchain last_block) (shard last_block) n s of
             (Inl e, s1) \<Rightarrow> Some (Inl e, env, s1)
           | (Inr block_id, s1) \<Rightarrow>
               (case wait_for_block_header retry client block_id s1 of
                  (Inl e, s2) \<Rightarrow> Some (Inl e, env, s2)
                | (Inr header, s2) \<Rightarrow>
                    if \<not> lb_open env then Some (Inl ''channel closed'', env, s2)
                    else
                      let info' = info\<lparr>mc_last := header_id header\<rparr>;
                          env' = env\<lparr>lb_registry := upsert_right header (lb_registry env),
                                     lb_watch := Some info', lb_sent := lb_sent env @ [last_block]\<rparr> in
                      last_block_loop retry client last_block info' env' s2)))"

definition last_block_next ::
  "(('s, BlockHeader) io \<Rightarrow> ('s, BlockHeader) io) \<Rightarrow> 's handlers \<Rightarrow> MasterchainInfo option
     \<Rightarrow> last_block_env \<Rightarrow> 's \<Rightarrow> ((anyhow + MasterchainInfo option) \<times> last_block_env \<times> 's) option" where
  "last_block_next retry client current env s =
     (case on_get_masterchain_info client s of
        (Inl e, s1) \<Rightarrow> Some (Inl e, env, s1)
      | (Inr info, s1) \<Rightarrow>
          if current = Some info then Some (Inr None, env, s1)
          else
            (case on_sync client s1 of
               (Inl e, s2) \<Rightarrow> Some (Inl e, env, s2)
             | (Inr last_block, s2) \<Rightarrow>
                 last_block_loop retry client last_block info
                   (env\<lparr>lb_registry := upsert_right_end last_block (lb_registry env)\<rparr>) s2))"

text \<open>One turn of the loop of \<open>run\<close>: only \<open>Ok(Some(info))\<close> replaces the current value.\<close>

definition last_block_tick ::
  "(('s, BlockHeader) io \<Rightarrow> ('s, BlockHeader) io) \<Rightarrow> 's handlers \<Rightarrow> MasterchainInfo option
     \<Rightarrow> last_block_env \<Rightarrow> 's \<Rightarrow> (MasterchainInfo option \<times> last_block_env \<times> 's) option" where
  "last_block_tick retry client current env s =
     map_option (\<lambda>(r, env', s').
         (case r of Inr (Some info) \<Rightarrow> Some info | Inr None \<Rightarrow> current | Inl _ \<Rightarrow> current, env', s'))
       (last_block_next retry client current env s)"

section \<open>The shards of a block and their headers\<close>

text \<open>A channel holds the blocks that the task of the shard has not handled yet.\<close>

record block_shards_env =
  bs_registry :: Registry
  bs_channels :: "ShardId \<rightharpoonup> BlockIdExt list"

definition send_shard :: "BlockIdExt \<Rightarrow> block_shards_env \<Rightarrow> block_shards_env" where
  "send_shard b env =
     (let shard_id = shard_id_of b;
          channel = (case bs_channels env shard_id of Some q \<Rightarrow> q | None \<Rightarrow> []) in
      env\<lparr>bs_registry := upsert_right_end b (bs_registry env),
          bs_channels := (bs_channels env)(shard_id \<mapsto> channel @ [b])\<rparr>)"

definition block_shards_handle ::
  "(('s, BlockIdExt list) io \<Rightarrow> ('s, BlockIdExt list) io) \<Rightarrow> 's handlers \<Rightarrow> BlockIdExt
     \<Rightarrow> block_shards_env \<Rightarrow> 's \<Rightarrow> block_shards_env \<times> 's" where
  "block_shards_handle retry client block_id env s =
     (case retry (on_get_shards client block_id) s of
        (Inl e, s1) \<Rightarrow> (env, s1)
      | (Inr shards, s1) \<Rightarrow>
          let actual_shards = set (map shard_id_of shards);
              env' = fold send_shard shards env in
          (env'\<lparr>bs_channels := bs_channels env' |` actual_shards\<rparr>, s1))"

definition shard_header_handle ::
  "(('s, BlockHeader) io \<Rightarrow> ('s, BlockHeader) io) \<Rightarrow> 's handlers \<Rightarrow> BlockIdExt
     \<Rightarrow> Registry \<Rightarrow> 's \<Rightarrow> Registry \<times> 's" where
  "shard_header_handle retry client block_id reg s =
     (case retry (on_get_block_header client block_id) s of
        (Inl e, s1) \<Rightarrow> (reg, s1)
      | (Inr header, s1) \<Rightarrow> (upsert_right header reg, s1))"

section \<open>The first block\<close>

fun search_error_text :: "BinarySearchError \<Rightarrow> anyhow" where
  "search_error_text EmptyRange = ''empty search range''"
| "search_error_text (NotFound _) = ''first point not found''"
| "search_error_text (Bounds _) = ''failed to resolve search bounds''"

definition first_block_search ::
  "'s handlers \<Rightarrow> BlockHeader option \<Rightarrow> BlockIdExt \<Rightarrow> ('s, BlockHeader list) binary_search" where
  "first_block_search client current start =
     (let lhs = map_option (\<lambda>n. seqno (header_id n)) current;
          cur = map_option (\<lambda>n. wrap_i32 (seqno (header_id n) + 32)) current in
      search_to (Some (block_id_of start))
        (search_from lhs
          (with_tolerance 4
            (starting_at (case cur of Some c \<Rightarrow> c | None \<Rightarrow> wrap_i32 (seqno start - 200000))
              (BlockAvailability client)))))"

definition first_block_next ::
  "'s handlers \<Rightarrow> BlockHeader option \<Rightarrow> BlockIdExt \<Rightarrow> Registry \<Rightarrow> 's
     \<Rightarrow> ((anyhow + BlockHeader option) \<times> Registry \<times> 's) option" where
  "first_block_next client current start reg s =
     (let available = (case current of
            None \<Rightarrow> (False, s)
          | Some mfb \<Rightarrow> (case on_get_shards client (header_id mfb) s of
                (Inl _, s1) \<Rightarrow> (False, s1) | (Inr _, s1) \<Rightarrow> (True, s1))) in
      if fst available then Some (Inr None, reg, snd available)
      else
        map_option (\<lambda>(r, s').
          (case r of
             Inl e \<Rightarrow> (Inl (search_error_text e), reg, s')
           | Inr headers \<Rightarrow>
               (let reg' = fold upsert_left headers reg in
                case headers of
                  [] \<Rightarrow> (Inr None, reg', s')
                | mfb # _ \<Rightarrow> (Inr (Some mfb), reg', s'))))
          (find (first_block_search client current start) (snd available)))"

definition first_block_tick ::
  "'s handlers \<Rightarrow> BlockHeader option \<Rightarrow> MasterchainInfo option \<Rightarrow> Registry \<Rightarrow> 's
     \<Rightarrow> (BlockHeader option \<times> Registry \<times> 's) option" where
  "first_block_tick client current last_value reg s =
     (case last_value of
        None \<Rightarrow> Some (current, reg, s)
      | Some m \<Rightarrow>
          map_option (\<lambda>(r, reg', s').
              (case r of Inr (Some mfb) \<Rightarrow> Some mfb | Inr None \<Rightarrow> current | Inl _ \<Rightarrow> current, reg', s'))
            (first_block_next client current (mc_last m) reg s))"

section \<open>Following the masterchain\<close>

text \<open>What \<open>tokio_retry\<close> promises and the theorems use: a first success is the result.\<close>

definition retry_once :: "(('s, 'a) io \<Rightarrow> ('s, 'a) io) \<Rightarrow> bool" where
  "retry_once retry \<longleftrightarrow> (\<forall>m s a s'. m s = (Inr a, s') \<longrightarrow> retry m s = (Inr a, s'))"

text \<open>The liteserver answers for a block of a shard, with the header \<open>hdr\<close> of that block.\<close>

definition serves :: "'s handlers \<Rightarrow> i32 \<Rightarrow> i64 \<Rightarrow> (i32 \<Rightarrow> BlockHeader) \<Rightarrow> i32 \<Rightarrow> bool" where
  "serves client wc sh hdr n \<longleftrightarrow>
     (\<forall>s. \<exists>s'. on_look_up_block_by_seqno client wc sh n s = (Inr (header_id (hdr n)), s'))
     \<and> (\<forall>s. \<exists>s'. on_get_block_header client (header_id (hdr n)) s = (Inr (hdr n), s'))
     \<and> shard_id_of (header_id (hdr n)) = (wc, sh) \<and> seqno (header_id (hdr n)) = n"

lemma last_block_loop_step:
  assumes "retry_once retry" "serves client (workchain b) (shard b) hdr k" "lb_open env"
    and "right_next (lb_registry env) (shard_id_of b) = Some k"
  shows "\<exists>s'. last_block_loop retry client b info env s =
    last_block_loop retry client b (info\<lparr>mc_last := header_id (hdr k)\<rparr>)
      (env\<lparr>lb_registry := upsert_right (hdr k) (lb_registry env),
           lb_watch := Some (info\<lparr>mc_last := header_id (hdr k)\<rparr>), lb_sent := lb_sent env @ [b]\<rparr>) s'"
proof -
  obtain s1 s2 where "on_look_up_block_by_seqno client (workchain b) (shard b) k s
      = (Inr (header_id (hdr k)), s1)" "on_get_block_header client (header_id (hdr k)) s1 = (Inr (hdr k), s2)"
    using assms(2) unfolding serves_def by metis
  with assms show ?thesis
    by (subst last_block_loop.simps)
      (auto simp: wait_for_block_header_def retry_once_def Let_def)
qed

lemma last_block_loop_done:
  "right_next (lb_registry env) (shard_id_of b) = None \<Longrightarrow>
    last_block_loop retry client b info env s = Some (Inr (Some info), env, s)"
  by (subst last_block_loop.simps) simp

lemma last_block_loop_catches_up:
  assumes "retry_once retry" "lb_open env" "i32_range n" "i32_range k" "k \<le> n"
    and "end_of (lb_registry env) (shard_id_of b) = Some n"
    and "right_next (lb_registry env) (shard_id_of b) = Some k"
    and "\<forall>i \<in> {k..n}. serves client (workchain b) (shard b) hdr i"
  shows "\<exists>env' s'. last_block_loop retry client b info env s
      = Some (Inr (Some (info\<lparr>mc_last := header_id (hdr n)\<rparr>)), env', s')
    \<and> lb_watch env' = Some (info\<lparr>mc_last := header_id (hdr n)\<rparr>)
    \<and> lb_registry env' = fold (\<lambda>i. upsert_right (hdr i)) [k..n] (lb_registry env)
    \<and> lb_sent env' = lb_sent env @ replicate (nat (n - k + 1)) b"
  using assms(2-)
proof (induction "nat (n - k)" arbitrary: env k info s)
  case 0
  then have k: "k = n" by simp
  obtain s' where step: "last_block_loop retry client b info env s =
    last_block_loop retry client b (info\<lparr>mc_last := header_id (hdr n)\<rparr>)
      (env\<lparr>lb_registry := upsert_right (hdr n) (lb_registry env),
           lb_watch := Some (info\<lparr>mc_last := header_id (hdr n)\<rparr>), lb_sent := lb_sent env @ [b]\<rparr>) s'"
    using last_block_loop_step [OF assms(1)] 0 k by fastforce
  have "shard_id_of (header_id (hdr n)) = shard_id_of b" "seqno (header_id (hdr n)) = n"
    using 0 by (auto simp: serves_def shard_id_of_def)
  then have "right_next (upsert_right (hdr n) (lb_registry env)) (shard_id_of b) = None"
    using store.next_after_right [OF 0(6)] by simp
  with step k show ?case by (simp add: last_block_loop_done)
next
  case (Suc m)
  let ?env = "env\<lparr>lb_registry := upsert_right (hdr k) (lb_registry env),
    lb_watch := Some (info\<lparr>mc_last := header_id (hdr k)\<rparr>), lb_sent := lb_sent env @ [b]\<rparr>"
  have lt: "k < n" using Suc(2) by simp
  have sv: "serves client (workchain b) (shard b) hdr k" using Suc.prems(7) lt by simp
  obtain s' where step: "last_block_loop retry client b info env s =
      last_block_loop retry client b (info\<lparr>mc_last := header_id (hdr k)\<rparr>) ?env s'"
    using last_block_loop_step [OF assms(1) sv Suc.prems(1,6), of info s] by blast
  have h: "shard_id_of (header_id (hdr k)) = shard_id_of b" "seqno (header_id (hdr k)) = k"
    using sv by (simp_all add: serves_def shard_id_of_def)
  have r1: "i32_range (k + 1)" using Suc.prems(2,3) lt by (simp add: i32_range_def)
  then have "right_next (lb_registry ?env) (shard_id_of b) = Some (k + 1)"
    using store.next_after_right [OF Suc.prems(5) h(1)] h lt by (simp add: wrap_i32_id)
  moreover have "end_of (lb_registry ?env) (shard_id_of b) = Some n"
    using store.end_right [OF Suc.prems(5)] by simp
  moreover have "[k..n] = k # [k + 1..n]" using lt by (simp add: upto_rec1)
  moreover have "replicate (nat (n - k + 1)) b = b # replicate (nat (n - k)) b"
    using lt by (simp add: nat_add_distrib)
  ultimately show ?case
    using Suc.hyps(1) [of "k + 1" ?env "info\<lparr>mc_last := header_id (hdr k)\<rparr>" s'] Suc.hyps(2)
      Suc.prems r1 lt step by auto
qed

lemma last_block_next_catches_up:
  fixes env :: last_block_env and b :: BlockIdExt
  defines "sid \<equiv> shard_id_of b"
  defines "first \<equiv> (case right_of (lb_registry env) sid of None \<Rightarrow> seqno b | Some h \<Rightarrow> seqno (header_id h) + 1)"
  assumes "retry_once retry" and "lb_open env"
    and "on_get_masterchain_info client s = (Inr info, s1)" and "current \<noteq> Some info"
    and "on_sync client s1 = (Inr b, s2)"
    and "i32_range (seqno b)" and "i32_range first" and "first \<le> seqno b"
    and "\<forall>n \<in> {first..seqno b}. serves client (workchain b) (shard b) hdr n"
  shows "\<exists>env' s'. last_block_next retry client current env s
      = Some (Inr (Some (info\<lparr>mc_last := header_id (hdr (seqno b))\<rparr>)), env', s')
    \<and> lb_watch env' = Some (info\<lparr>mc_last := header_id (hdr (seqno b))\<rparr>)
    \<and> right_of (lb_registry env') sid = Some (hdr (seqno b))
    \<and> right_next (lb_registry env') sid = None
    \<and> left_of (lb_registry env') sid = left_of (lb_registry env) sid
    \<and> lb_sent env' = lb_sent env @ replicate (nat (seqno b - first + 1)) b"
proof -
  let ?env = "env\<lparr>lb_registry := upsert_right_end b (lb_registry env)\<rparr>"
  have e: "end_of (lb_registry ?env) sid = Some (seqno b)"
    by (simp add: store.end_end sid_def)
  have "right_of (lb_registry ?env) sid = right_of (lb_registry env) sid"
    by (simp add: store.right_end)
  with e assms(9,10) have k: "right_next (lb_registry ?env) sid = Some first"
    unfolding store.next_of first_def by (auto simp: wrap_i32_id split: option.splits)
  from last_block_loop_catches_up [OF assms(3) _ assms(8,9,10), of ?env b client hdr info s2]
  obtain env' s' where loop: "last_block_loop retry client b info ?env s2
      = Some (Inr (Some (info\<lparr>mc_last := header_id (hdr (seqno b))\<rparr>)), env', s')"
    and env': "lb_watch env' = Some (info\<lparr>mc_last := header_id (hdr (seqno b))\<rparr>)"
      "lb_registry env' = fold (\<lambda>i. upsert_right (hdr i)) [first..seqno b] (lb_registry ?env)"
      "lb_sent env' = lb_sent ?env @ replicate (nat (seqno b - first + 1)) b"
    using e k assms(4,11) unfolding sid_def by auto
  have "shard_id_of (header_id (hdr i)) = sid \<and> seqno (header_id (hdr i)) = i" if "first \<le> i" "i \<le> seqno b" for i
    using assms(11) that by (auto simp: serves_def sid_def shard_id_of_def)
  from store.catch_up [OF e assms(8,10,9) k this] env'(2)
  have "right_next (lb_registry env') sid = None" "right_of (lb_registry env') sid = Some (hdr (seqno b))"
    "left_of (lb_registry env') sid = left_of (lb_registry env) sid"
    by (simp_all add: Let_def store.left_end)
  with loop env' assms(5,6,7) show ?thesis by (simp add: last_block_next_def)
qed

text \<open>
  C8. When the liteserver has a new last block, one step of the task stores the headers of all blocks
  after the right edge up to the synced block, publishes the last of them and stops: the registry has
  nothing more to ask for. The synced block is sent to the shards task once per stored header.
\<close>

theorem last_block_catches_up:
  fixes env :: last_block_env and b :: BlockIdExt
  defines "sid \<equiv> shard_id_of b"
  defines "first \<equiv> (case right_of (lb_registry env) sid of None \<Rightarrow> seqno b | Some h \<Rightarrow> seqno (header_id h) + 1)"
  assumes "retry_once retry" and "lb_open env"
    and "on_get_masterchain_info client s = (Inr info, s1)" and "current \<noteq> Some info"
    and "on_sync client s1 = (Inr b, s2)"
    and "i32_range (seqno b)" and "i32_range first" and "first \<le> seqno b"
    and "\<forall>n \<in> {first..seqno b}. serves client (workchain b) (shard b) hdr n"
  shows "\<exists>env' s'. last_block_next retry client current env s
      = Some (Inr (Some (info\<lparr>mc_last := header_id (hdr (seqno b))\<rparr>)), env', s')
    \<and> lb_watch env' = Some (info\<lparr>mc_last := header_id (hdr (seqno b))\<rparr>)
    \<and> right_of (lb_registry env') sid = Some (hdr (seqno b))
    \<and> right_next (lb_registry env') sid = None
    \<and> left_of (lb_registry env') sid = left_of (lb_registry env) sid
    \<and> lb_sent env' = lb_sent env @ replicate (nat (seqno b - first + 1)) b"
  using last_block_next_catches_up [OF assms(3-8), folded sid_def, folded first_def, OF assms(9-11)]
  unfolding sid_def first_def .

text \<open>A liteserver that has the masterchain blocks \<open>m\<close> to \<open>n\<close> of a chain without shards.\<close>

definition master_header :: "i32 \<Rightarrow> BlockHeader" where
  "master_header n = header_at (-1) (- (2 ^ 63)) n"

definition chain_server :: "i32 \<Rightarrow> i32 \<Rightarrow> unit handlers" where
  "chain_server m n = \<lparr>
     on_get_masterchain_info = ok_io \<lparr>mc_last = header_id (master_header n), mc_state_root_hash = [],
       mc_init = header_id (master_header 0)\<rparr>,
     on_look_up_block_by_seqno = (\<lambda>wc sh k. if wc = -1 \<and> sh = - (2 ^ 63) \<and> m \<le> k \<and> k \<le> n
       then ok_io (header_id (master_header k)) else err_io ''not in db''),
     on_look_up_block_by_lt = (\<lambda>_ _ _. err_io ''not in db''),
     on_get_shards = (\<lambda>b. if m \<le> seqno b then ok_io [] else err_io ''not in db''),
     on_get_block_header = (\<lambda>b. ok_io (header_at (workchain b) (shard b) (seqno b))),
     on_get_transaction_ids = (\<lambda>_ _ _ _. err_io ''not in db''),
     on_get_transactions = (\<lambda>_ _ _ _. err_io ''not in db''),
     on_sync = ok_io (header_id (master_header n)),
     on_send_message = (\<lambda>_. err_io ''refused''),
     on_send_message_returning_hash = (\<lambda>_. err_io ''refused''),
     on_get_account_state = (\<lambda>_. err_io ''not in db''),
     on_get_account_state_on_block = (\<lambda>_ _. err_io ''not in db''),
     on_get_account_state_by_transaction = (\<lambda>_ _. err_io ''not in db''),
     on_get_account_transactions = (\<lambda>_ _. err_io ''not in db''),
     on_get_shard_account_cell = (\<lambda>_. err_io ''not in db''),
     on_get_shard_account_cell_on_block = (\<lambda>_ _. err_io ''not in db''),
     on_get_shard_account_cell_by_transaction = (\<lambda>_ _. err_io ''not in db''),
     on_run_get_method = (\<lambda>_ _ _. err_io ''not in db'')\<rparr>"

lemma master_header_simps [simp]: "workchain (header_id (master_header k)) = -1"
  "shard (header_id (master_header k)) = - (2 ^ 63)" "seqno (header_id (master_header k)) = k"
  "shard_id_of (header_id (master_header k)) = (-1, - (2 ^ 63))"
  by (simp_all add: master_header_def header_at_def shard_id_of_def)

lemma chain_server_serves:
  "m \<le> k \<Longrightarrow> k \<le> n \<Longrightarrow> serves (chain_server m n) (-1) (- (2 ^ 63)) master_header k"
  by (simp add: serves_def chain_server_def ok_io_def) (simp add: master_header_def)

lemma retry_once_id: "retry_once (\<lambda>m. m)"
  by (simp add: retry_once_def)

lemma sample_registry_right: "right_of sample_registry (-1, - (2 ^ 63)) = Some (master_header 9)"
  by (simp add: sample_registry_def store.right_right master_header_def)

theorem last_block_catches_up_witness:
  "\<exists>env' s'. last_block_next (\<lambda>m. m) (chain_server 3 12) None
      \<lparr>lb_registry = sample_registry, lb_watch = None, lb_sent = [], lb_open = True\<rparr> ()
    = Some (Inr (Some \<lparr>mc_last = header_id (master_header 12), mc_state_root_hash = [],
        mc_init = header_id (master_header 0)\<rparr>), env', s')
    \<and> right_next (lb_registry env') (-1, - (2 ^ 63)) = None
    \<and> lb_sent env' = replicate 3 (header_id (master_header 12))"
  using last_block_catches_up [OF retry_once_id, of "\<lparr>lb_registry = sample_registry, lb_watch = None,
      lb_sent = [], lb_open = True\<rparr>" "chain_server 3 12" "()" "\<lparr>mc_last = header_id (master_header 12),
      mc_state_root_hash = [], mc_init = header_id (master_header 0)\<rparr>" "()" None
      "header_id (master_header 12)" "()" master_header]
    sample_registry_right chain_server_serves [of 3 _ 12]
  by (simp add: i32_range_def) (auto simp: chain_server_def ok_io_def)

section \<open>The first available block\<close>

lemma first_block_search_simps:
  "probe (first_block_search client current start) = block_probe client"
  "upper_bound (first_block_search client current start) = ok_io (block_id_of start)"
  "lower_bound (first_block_search client current start) =
     ok_io (case current of None \<Rightarrow> 1 | Some h \<Rightarrow> seqno (header_id h))"
  by (simp_all add: first_block_search_def search_defs BlockAvailability_def Let_def split: option.splits)

text \<open>
  When the liteserver has the masterchain blocks from \<open>m\<close> on, the first search finds the block
  \<open>m\<close> and makes the headers of this block and of its shards the left edges of their shards.
\<close>

lemma first_block_found:
  assumes "1 \<le> m" and "m \<le> seqno start" and "i32_range (seqno start)"
    and "\<forall>n \<in> {1..seqno start}. \<forall>s. fst (block_probe client
      \<lparr>workchain = workchain start, shard = shard start, seqno = n\<rparr> s) = f n"
    and "\<forall>n \<in> {1..seqno start}. is_ok (f n) \<longleftrightarrow> m \<le> n"
    and "f m = Inr (mfb # rest)"
    and "distinct (map (\<lambda>h. shard_id_of (header_id h)) (mfb # rest))"
  shows "\<exists>reg' s'. first_block_next client None start reg s = Some (Inr (Some mfb), reg', s')
    \<and> (\<forall>h \<in> set (mfb # rest). left_of reg' (shard_id_of (header_id h)) = Some h)
    \<and> registry_edges_defined reg' (shard_id_of (header_id mfb))
    \<and> right_of reg' = right_of reg"
proof -
  let ?b = "first_block_search client None start"
  have simps: "upper_bound ?b s = (Inr (block_id_of start), s)" "lower_bound ?b s = (Inr 1, s)"
    by (simp_all add: first_block_search_simps ok_io_def)
  have blk: "seqno (block_id_of start) = seqno start" "workchain (block_id_of start) = workchain start"
    "shard (block_id_of start) = shard start" by (simp_all add: block_id_of_def)
  have "\<exists>s'. find ?b s = Some (Inr (mfb # rest), s')"
    using find_first_success_loop [OF simps, of m f] assms blk by (simp add: first_block_search_simps)
  then obtain s' where "find ?b s = Some (Inr (mfb # rest), s')" by blast
  then have "first_block_next client None start reg s =
      Some (Inr (Some mfb), fold upsert_left (mfb # rest) reg, s')"
    by (simp add: first_block_next_def)
  moreover note store.left_fold [OF assms(7), of _ reg] store.right_fold_left [of "mfb # rest" reg]
  ultimately show ?thesis by (auto simp: edges_defined_left)
qed

section \<open>The shards\<close>

lemma end_fold_send_other:
  "sid \<notin> shard_id_of ` set bs \<Longrightarrow>
    end_of (bs_registry (fold send_shard bs env)) sid = end_of (bs_registry env) sid
    \<and> bs_channels (fold send_shard bs env) sid = bs_channels env sid"
  by (induction bs arbitrary: env) (auto simp: send_shard_def Let_def store.end_end)

lemma right_fold_send: "right_of (bs_registry (fold send_shard bs env)) = right_of (bs_registry env)"
  by (induction bs arbitrary: env) (auto simp: send_shard_def Let_def store.right_end)

lemma fold_send:
  assumes "distinct (map shard_id_of bs)" "b \<in> set bs"
  shows "end_of (bs_registry (fold send_shard bs env)) (shard_id_of b) = Some (seqno b)
    \<and> bs_channels (fold send_shard bs env) (shard_id_of b)
      = Some ((case bs_channels env (shard_id_of b) of Some q \<Rightarrow> q | None \<Rightarrow> []) @ [b])"
  using assms
proof (induction bs arbitrary: env)
  case (Cons x xs)
  show ?case
  proof (cases "b = x")
    case True
    have "end_of (bs_registry (send_shard b env)) (shard_id_of b) = Some (seqno b)"
      "bs_channels (send_shard b env) (shard_id_of b)
        = Some ((case bs_channels env (shard_id_of b) of Some q \<Rightarrow> q | None \<Rightarrow> []) @ [b])"
      by (simp_all add: send_shard_def Let_def store.end_end)
    with True Cons.prems end_fold_send_other [of "shard_id_of b" xs "send_shard b env"] show ?thesis
      by simp
  next
    case False
    with Cons.prems have "b \<in> set xs" by simp
    moreover from this Cons.prems(1) have "shard_id_of b \<noteq> shard_id_of x"
      by (metis distinct.simps(2) image_eqI list.simps(9) list.set_map)
    ultimately show ?thesis using Cons.IH [of "send_shard x env"] Cons.prems
      by (simp add: send_shard_def Let_def)
  qed
qed simp

text \<open>
  C32. After a masterchain block is handled there is one channel per shard of the block and no other;
  the block of each shard waits in its channel, behind what was there, and is the right end of the shard.
  Once the header task of the shard has handled it, the registry has nothing more to ask for.
\<close>

theorem block_shards_tracked:
  assumes "retry_once retry_shards" and "retry_once retry_header"
    and "on_get_shards client block_id s = (Inr shards, s1)"
    and "distinct (map shard_id_of shards)" and "b \<in> set shards"
    and "on_get_block_header client b s2 = (Inr h, s3)" and "header_id h = b"
  shows "let (env', s') = block_shards_handle retry_shards client block_id env s;
      reg' = fst (shard_header_handle retry_header client b (bs_registry env') s2) in
    dom (bs_channels env') = set (map shard_id_of shards)
    \<and> bs_channels env' (shard_id_of b)
        = Some ((case bs_channels env (shard_id_of b) of Some q \<Rightarrow> q | None \<Rightarrow> []) @ [b])
    \<and> end_of (bs_registry env') (shard_id_of b) = Some (seqno b)
    \<and> right_next reg' (shard_id_of b) = None \<and> get_last_seqno reg' (shard_id_of b) = Some (seqno b)"
proof -
  let ?env = "fold send_shard shards env"
  let ?env' = "?env\<lparr>bs_channels := bs_channels ?env |` set (map shard_id_of shards)\<rparr>"
  have handle: "block_shards_handle retry_shards client block_id env s = (?env', s1)"
    using assms(1,3) by (auto simp: block_shards_handle_def retry_once_def Let_def)
  have reg: "fst (shard_header_handle retry_header client b (bs_registry ?env') s2)
      = upsert_right h (bs_registry ?env)"
    using assms(2,6) by (auto simp: shard_header_handle_def retry_once_def)
  have b: "end_of (bs_registry ?env) (shard_id_of b) = Some (seqno b)"
    "bs_channels ?env (shard_id_of b)
      = Some ((case bs_channels env (shard_id_of b) of Some q \<Rightarrow> q | None \<Rightarrow> []) @ [b])"
    using fold_send [OF assms(4,5)] by auto
  have "dom (bs_channels ?env') = set (map shard_id_of shards)"
  proof -
    have "shard_id_of b' \<in> dom (bs_channels ?env)" if "b' \<in> set shards" for b'
      using fold_send [OF assms(4) that, of env] by blast
    then have "set (map shard_id_of shards) \<subseteq> dom (bs_channels ?env)"
      unfolding set_map by (rule image_subsetI)
    then show ?thesis by (simp add: dom_restrict Int_absorb1)
  qed
  moreover have "right_next (upsert_right h (bs_registry ?env)) (shard_id_of b) = None"
    using store.next_after_right [OF b(1), of h] assms(7) by simp
  moreover have "get_last_seqno (upsert_right h (bs_registry ?env)) (shard_id_of b) = Some (seqno b)"
    using assms(7) by (simp add: get_last_seqno_right store.right_right)
  ultimately show ?thesis unfolding handle Let_def prod.case reg using b assms(5) by simp
qed

definition two_shards :: "BlockIdExt list" where
  "two_shards = [header_id (header_at 0 (2 ^ 62) 5), header_id (header_at 0 (- (2 ^ 62)) 6)]"

theorem block_shards_tracked_witness:
  "let (env', s') = block_shards_handle (\<lambda>m. m) ((chain_server 1 9)\<lparr>on_get_shards := \<lambda>_. ok_io two_shards\<rparr>)
       (header_id (master_header 9)) \<lparr>bs_registry = registry_default, bs_channels = Map.empty\<rparr> () in
   dom (bs_channels env') = {(0, 2 ^ 62), (0, - (2 ^ 62))}"
proof -
  let ?c = "(chain_server 1 9)\<lparr>on_get_shards := \<lambda>_. ok_io two_shards\<rparr>"
  have "on_get_shards ?c (header_id (master_header 9)) () = (Inr two_shards, ())"
    "distinct (map shard_id_of two_shards)" "hd two_shards \<in> set two_shards"
    "on_get_block_header ?c (hd two_shards) () = (Inr (header_at 0 (2 ^ 62) 5), ())"
    "header_id (header_at 0 (2 ^ 62) 5) = hd two_shards"
    by (simp_all add: two_shards_def ok_io_def chain_server_def) (simp_all add: header_at_def)
  from block_shards_tracked [OF retry_once_id retry_once_id this,
      of "\<lparr>bs_registry = registry_default, bs_channels = Map.empty\<rparr>"]
  show ?thesis by (simp add: Let_def case_prod_unfold two_shards_def)
qed

end
