(* ===== verification/Adnl_Codec.thy ===== *)
theory Adnl_Codec
  imports Ton_Types
begin

text \<open>
  The \<open>adnl-tcp\<close> transport: packets (\<open>packet.rs\<close>, \<open>ping.rs\<close>), keys and the
  encryption of the session parameters (\<open>key.rs\<close>, \<open>aes_ctr.rs\<close>), the packet codec
  (\<open>codec.rs\<close>) and the handshake of client and server (\<open>client.rs\<close>, \<open>server.rs\<close>).
  AES-CTR, SHA-256 and Ed25519 are third-party crates: they are the fields of \<open>crypto\<close>, and
  \<open>cipher_laws\<close> and \<open>key_laws\<close> say what the code relies on. Random values are arguments.
\<close>

unbundle bit_operations_syntax

section \<open>The cryptography that the code calls\<close>

record ('c, 'pk, 'sk) crypto =
  cipher_new :: "bytes \<Rightarrow> bytes \<Rightarrow> 'c"
  apply_keystream :: "'c \<Rightarrow> bytes \<Rightarrow> bytes \<times> 'c"
  sha256 :: "bytes \<Rightarrow> bytes"
  vk_from_bytes :: "bytes \<Rightarrow> 'pk option"
  vk_as_bytes :: "'pk \<Rightarrow> bytes"
  signing_key :: "bytes \<Rightarrow> 'pk \<times> 'sk"
  montgomery_mul :: "'pk \<Rightarrow> 'sk \<Rightarrow> bytes"

text \<open>
  A stream cipher keeps the length, decrypts what it encrypted from the same state, and works piece by
  piece as on the whole.
\<close>

definition cipher_laws :: "('c, 'pk, 'sk) crypto \<Rightarrow> bool" where
  "cipher_laws K \<longleftrightarrow>
     (\<forall>c d. length (fst (apply_keystream K c d)) = length d)
     \<and> (\<forall>c d. apply_keystream K c (fst (apply_keystream K c d)) = (d, snd (apply_keystream K c d)))
     \<and> (\<forall>c a b. apply_keystream K c (a @ b) =
          (fst (apply_keystream K c a) @ fst (apply_keystream K (snd (apply_keystream K c a)) b),
           snd (apply_keystream K (snd (apply_keystream K c a)) b)))"

text \<open>Public keys survive encoding, both sides compute the same shared secret, digests have 32 bytes.\<close>

definition key_laws :: "('c, 'pk, 'sk) crypto \<Rightarrow> bool" where
  "key_laws K \<longleftrightarrow>
     (\<forall>pk. vk_from_bytes K (vk_as_bytes K pk) = Some pk \<and> length (vk_as_bytes K pk) = 32)
     \<and> (\<forall>a b. montgomery_mul K (fst (signing_key K a)) (snd (signing_key K b))
            = montgomery_mul K (fst (signing_key K b)) (snd (signing_key K a)))
     \<and> (\<forall>d. length (sha256 K d) = 32)"

section \<open>Packets\<close>

record Packet =
  nonce :: bytes
  checksum :: bytes
  pdata :: bytes

definition packet_new :: "('c, 'pk, 'sk) crypto \<Rightarrow> bytes \<Rightarrow> bytes \<Rightarrow> Packet" where
  "packet_new K n data = \<lparr>nonce = n, checksum = sha256 K (n @ data), pdata = data\<rparr>"

definition packet_empty :: "('c, 'pk, 'sk) crypto \<Rightarrow> bytes \<Rightarrow> Packet" where
  "packet_empty K n = packet_new K n []"

definition ping_packet :: "('c, 'pk, 'sk) crypto \<Rightarrow> bytes \<Rightarrow> u64 \<Rightarrow> Packet" where
  "ping_packet K n rnd = packet_new K n ([0x9a, 0x2b, 0x08, 0x4d] @ le_bytes 8 (unat rnd))"

definition is_ping_packet :: "Packet \<Rightarrow> bool" where
  "is_ping_packet p \<longleftrightarrow> length (pdata p) = 12 \<and> take 4 (pdata p) = [0x9a, 0x2b, 0x08, 0x4d]"

definition is_pong_packet :: "Packet \<Rightarrow> bool" where
  "is_pong_packet p \<longleftrightarrow> length (pdata p) = 12 \<and> take 4 (pdata p) = [0x03, 0xFB, 0x69, 0xDC]"

section \<open>Keys and session parameters\<close>

definition KEY_TYPE :: bytes where "KEY_TYPE = [0xC6, 0xB4, 0x13, 0x48]"

definition key_id_of :: "('c, 'pk, 'sk) crypto \<Rightarrow> bytes \<Rightarrow> bytes" where
  "key_id_of K public_key = sha256 K (KEY_TYPE @ public_key)"

record ('pk, 'sk) Ed25519Key =
  key_id :: bytes
  pub_key :: 'pk
  exp_key :: 'sk

definition key_generate :: "('c, 'pk, 'sk) crypto \<Rightarrow> bytes \<Rightarrow> ('pk, 'sk) Ed25519Key" where
  "key_generate K rnd =
     (let (pk, sk) = signing_key K rnd in
      \<lparr>key_id = key_id_of K (vk_as_bytes K pk), pub_key = pk, exp_key = sk\<rparr>)"

definition aes_cipher :: "('c, 'pk, 'sk) crypto \<Rightarrow> bytes \<Rightarrow> bytes \<Rightarrow> 'c" where
  "aes_cipher K x y = cipher_new K (take 16 x @ drop 16 (take 32 y)) (take 4 y @ drop 20 (take 32 x))"

definition aes_encrypt ::
  "('c, 'pk, 'sk) crypto \<Rightarrow> bytes \<Rightarrow> 'sk \<Rightarrow> 'pk \<Rightarrow> bytes \<times> bytes" where
  "aes_encrypt K basis secret_key verifying_key =
     (let digest = sha256 K basis;
          x = montgomery_mul K verifying_key secret_key in
      (fst (apply_keystream K (aes_cipher K x digest) basis), digest))"

definition aes_from_encrypted ::
  "('c, 'pk, 'sk) crypto \<Rightarrow> bytes \<Rightarrow> bytes \<Rightarrow> 'sk \<Rightarrow> 'pk \<Rightarrow> anyhow + bytes" where
  "aes_from_encrypted K basis digest secret_key verifying_key =
     (let x = montgomery_mul K verifying_key secret_key;
          basis_decrypted = fst (apply_keystream K (aes_cipher K x digest) basis) in
      if sha256 K basis_decrypted \<noteq> digest then Inl ''wrong handshake checksum''
      else Inr basis_decrypted)"

section \<open>The codec\<close>

record 'c PacketCodec =
  cipher_recv :: 'c
  cipher_send :: 'c
  next_len :: "nat option"

definition from_bytes_as_client :: "('c, 'pk, 'sk) crypto \<Rightarrow> bytes \<Rightarrow> 'c PacketCodec" where
  "from_bytes_as_client K bs =
     \<lparr>cipher_recv = cipher_new K (take 32 bs) (take 16 (drop 64 bs)),
      cipher_send = cipher_new K (take 32 (drop 32 bs)) (take 16 (drop 80 bs)),
      next_len = None\<rparr>"

definition from_bytes_as_server :: "('c, 'pk, 'sk) crypto \<Rightarrow> bytes \<Rightarrow> 'c PacketCodec" where
  "from_bytes_as_server K bs =
     \<lparr>cipher_recv = cipher_new K (take 32 (drop 32 bs)) (take 16 (drop 80 bs)),
      cipher_send = cipher_new K (take 32 bs) (take 16 (drop 64 bs)),
      next_len = None\<rparr>"

definition frame :: "Packet \<Rightarrow> bytes" where
  "frame p = u32_to_le (word_of_nat (length (pdata p) + 64)) @ nonce p @ pdata p @ checksum p"

definition encode ::
  "('c, 'pk, 'sk) crypto \<Rightarrow> 'c PacketCodec \<Rightarrow> Packet \<Rightarrow> bytes \<Rightarrow> 'c PacketCodec \<times> bytes" where
  "encode K codec packet dst =
     (let (enc, c) = apply_keystream K (cipher_send codec) (frame packet) in
      (codec\<lparr>cipher_send := c\<rparr>, dst @ enc))"

text \<open>The body of \<open>decode\<close> once the length is known; \<open>next_len\<close> has been taken.\<close>

definition decode_body ::
  "('c, 'pk, 'sk) crypto \<Rightarrow> 'c PacketCodec \<Rightarrow> nat \<Rightarrow> bytes
     \<Rightarrow> (anyhow + Packet option) \<times> 'c PacketCodec \<times> bytes" where
  "decode_body K codec len src =
     (if len < 64 then (Inl (''small ADNL packet: '' @ dec_nat len), codec, src)
      else if length src < len then (Inr None, codec\<lparr>next_len := Some len\<rparr>, src)
      else
        let (plain, c) = apply_keystream K (cipher_recv codec) (take len src);
            codec' = codec\<lparr>cipher_recv := c\<rparr> in
        if sha256 K (take (len - 32) plain) \<noteq> drop (len - 32) plain
        then (Inl ''incorrect checksum for ADNL packet'', codec', plain @ drop len src)
        else (Inr (Some \<lparr>nonce = take 32 plain, checksum = drop (len - 32) plain,
                         pdata = drop 32 (take (len - 32) plain)\<rparr>), codec', drop len src))"

definition decode ::
  "('c, 'pk, 'sk) crypto \<Rightarrow> 'c PacketCodec \<Rightarrow> bytes
     \<Rightarrow> (anyhow + Packet option) \<times> 'c PacketCodec \<times> bytes" where
  "decode K codec src =
     (case next_len codec of
        Some len \<Rightarrow> decode_body K (codec\<lparr>next_len := None\<rparr>) len src
      | None \<Rightarrow>
          if length src < 4 then (Inr None, codec, src)
          else
            let (plain, c) = apply_keystream K (cipher_recv codec) (take 4 src) in
            decode_body K (codec\<lparr>cipher_recv := c\<rparr>) (unat (u32_of_le plain)) (drop 4 src))"

section \<open>The handshake\<close>

text \<open>What the client writes before the first packet, and its codec afterwards.\<close>

definition client_hello ::
  "('c, 'pk, 'sk) crypto \<Rightarrow> bytes \<Rightarrow> ('pk, 'sk) Ed25519Key \<Rightarrow> bytes
     \<Rightarrow> anyhow + bytes \<times> 'c PacketCodec" where
  "client_hello K basis client_key server_key =
     (case vk_from_bytes K server_key of
        None \<Rightarrow> Inl ''invalid verifying key''
      | Some server_public_key \<Rightarrow>
          let (enc, digest) = aes_encrypt K basis (exp_key client_key) server_public_key in
          Inr (key_id_of K server_key @ vk_as_bytes K (pub_key client_key) @ digest @ enc,
               from_bytes_as_client K basis))"

text \<open>What the client does with the bytes that arrive before the stream ends or the time is over.\<close>

definition client_finish ::
  "('c, 'pk, 'sk) crypto \<Rightarrow> 'c PacketCodec \<Rightarrow> bytes \<Rightarrow> anyhow + 'c PacketCodec \<times> bytes" where
  "client_finish K codec src =
     (case decode K codec src of
        (Inl e, _) \<Rightarrow> Inl e
      | (Inr None, _) \<Rightarrow> Inl ''missed empty packet''
      | (Inr (Some packet), codec', src') \<Rightarrow>
          if pdata packet = [] then Inr (codec', src') else Inl ''empty packet expected'')"

definition server_handshake ::
  "('c, 'pk, 'sk) crypto \<Rightarrow> ('pk, 'sk) Ed25519Key \<Rightarrow> bytes \<Rightarrow> bytes
     \<Rightarrow> anyhow + 'pk \<times> 'c PacketCodec \<times> bytes \<times> bytes" where
  "server_handshake K server_key rnd stream =
     (if length stream < 256 then Inl ''early eof''
      else if take 32 stream \<noteq> key_id server_key then Inl ''wrong server key id''
      else
        case vk_from_bytes K (take 32 (drop 32 stream)) of
          None \<Rightarrow> Inl ''invalid verifying key''
        | Some client_public_key \<Rightarrow>
            bindr (aes_from_encrypted K (take 160 (drop 96 stream)) (take 32 (drop 64 stream))
                     (exp_key server_key) client_public_key) (\<lambda>basis.
              let (codec, out) = encode K (from_bytes_as_server K basis) (packet_empty K rnd) [] in
              Inr (client_public_key, codec, out, drop 256 stream)))"

section \<open>Reading from a stream\<close>

text \<open>
  The reader of \<open>Framed\<close>: what arrives is appended to the buffer, and the buffer is decoded until
  the decoder asks for more or fails. \<open>feed_all\<close> does this for a list of fragments.
\<close>

lemma decode_body_some:
  "decode_body K codec len src = (Inr (Some p), codec', src') \<Longrightarrow> 64 \<le> len \<and> len \<le> length src \<and> src' = drop len src"
  by (auto simp: decode_body_def Let_def split: if_splits prod.splits)

lemma decode_some_shorter: "decode K codec src = (Inr (Some p), codec', src') \<Longrightarrow> length src' < length src"
  by (auto simp: decode_def Let_def split: option.splits if_splits prod.splits dest!: decode_body_some)

function decode_available ::
  "('c, 'pk, 'sk) crypto \<Rightarrow> 'c PacketCodec \<Rightarrow> bytes \<Rightarrow> Packet list \<times> (anyhow + 'c PacketCodec \<times> bytes)" where
  "decode_available K codec src =
     (case decode K codec src of
        (Inl e, _) \<Rightarrow> ([], Inl e)
      | (Inr None, codec', src') \<Rightarrow> ([], Inr (codec', src'))
      | (Inr (Some p), codec', src') \<Rightarrow>
          (case decode_available K codec' src' of (ps, r) \<Rightarrow> (p # ps, r)))"
  by pat_completeness auto
termination
  by (relation "measure (\<lambda>(_, _, src). length src)") (auto dest: decode_some_shorter [OF sym])

declare decode_available.simps [simp del]

fun feed_all ::
  "('c, 'pk, 'sk) crypto \<Rightarrow> 'c PacketCodec \<Rightarrow> bytes \<Rightarrow> bytes list \<Rightarrow> Packet list \<times> (anyhow + 'c PacketCodec \<times> bytes)" where
  "feed_all K codec buf [] = ([], Inr (codec, buf))"
| "feed_all K codec buf (chunk # chunks) =
     (case decode_available K codec (buf @ chunk) of
        (ps, Inl e) \<Rightarrow> (ps, Inl e)
      | (ps, Inr (codec', buf')) \<Rightarrow> (case feed_all K codec' buf' chunks of (qs, r) \<Rightarrow> (ps @ qs, r)))"

text \<open>A sender that writes packets one after the other.\<close>

fun encode_all ::
  "('c, 'pk, 'sk) crypto \<Rightarrow> 'c PacketCodec \<Rightarrow> Packet list \<Rightarrow> bytes \<Rightarrow> 'c PacketCodec \<times> bytes" where
  "encode_all K codec [] dst = (codec, dst)"
| "encode_all K codec (p # ps) dst = (case encode K codec p dst of (codec', dst') \<Rightarrow> encode_all K codec' ps dst')"

section \<open>Fragmentation does not matter\<close>

definition wf_packet :: "('c, 'pk, 'sk) crypto \<Rightarrow> Packet \<Rightarrow> bool" where
  "wf_packet K p \<longleftrightarrow> length (nonce p) = 32 \<and> length (checksum p) = 32
     \<and> checksum p = sha256 K (nonce p @ pdata p) \<and> length (pdata p) + 64 < 2 ^ 32"

definition xorb :: "('c, 'pk, 'sk) crypto \<Rightarrow> 'c \<Rightarrow> bytes \<Rightarrow> bytes" where
  "xorb K c d = fst (apply_keystream K c d)"

definition after :: "('c, 'pk, 'sk) crypto \<Rightarrow> 'c \<Rightarrow> bytes \<Rightarrow> 'c" where
  "after K c d = snd (apply_keystream K c d)"

lemma apply_keystream_eq: "apply_keystream K c d = (xorb K c d, after K c d)"
  by (simp add: xorb_def after_def)

lemma cipher_simps:
  assumes "cipher_laws K"
  shows "length (xorb K c d) = length d" "xorb K c (xorb K c d) = d"
    "after K c (xorb K c d) = after K c d"
    "xorb K c (a @ b) = xorb K c a @ xorb K (after K c a) b" "after K c (a @ b) = after K (after K c a) b"
proof -
  have "apply_keystream K c (xorb K c d) = (d, after K c d)"
    using assms by (simp add: cipher_laws_def xorb_def after_def)
  then show "xorb K c (xorb K c d) = d" "after K c (xorb K c d) = after K c d"
    by (simp_all add: xorb_def [of K c "xorb K c d"] after_def [of K c "xorb K c d"])
qed (use assms in \<open>simp_all add: cipher_laws_def xorb_def after_def\<close>)

fun wire :: "('c, 'pk, 'sk) crypto \<Rightarrow> 'c \<Rightarrow> Packet list \<Rightarrow> bytes" where
  "wire K c [] = []"
| "wire K c (p # ps) = xorb K c (frame p) @ wire K (after K c (frame p)) ps"

lemma encode_all_wire: "snd (encode_all K codec ps dst) = dst @ wire K (cipher_send codec) ps"
  by (induction ps arbitrary: codec dst)
    (simp_all add: encode_def apply_keystream_eq)

definition body :: "Packet \<Rightarrow> bytes" where
  "body p = nonce p @ pdata p @ checksum p"

lemma frame_body: "frame p = u32_to_le (word_of_nat (length (pdata p) + 64)) @ body p"
  by (simp add: frame_def body_def)

lemma wf_packetD:
  assumes "wf_packet K p"
  shows "length (nonce p) = 32" "length (checksum p) = 32" "sha256 K (nonce p @ pdata p) = checksum p"
    "length (pdata p) + 64 < 2 ^ 32"
  using assms by (simp_all only: wf_packet_def) auto

lemma wf_body: "wf_packet K p \<Longrightarrow> length (body p) = length (pdata p) + 64"
  using wf_packetD(1,2) [of K p] by (simp add: body_def)

text \<open>
  The reader is in step with the packets \<open>ps\<close> that are still to come, when the buffer followed by
  what is not yet received is the rest of the wire: at a packet boundary or after a length.
\<close>

definition in_step ::
  "('c, 'pk, 'sk) crypto \<Rightarrow> 'c PacketCodec \<Rightarrow> bytes \<Rightarrow> Packet list \<Rightarrow> bytes \<Rightarrow> bool" where
  "in_step K codec buf ps rest \<longleftrightarrow>
     (case next_len codec of
        None \<Rightarrow> buf @ rest = wire K (cipher_recv codec) ps
      | Some len \<Rightarrow> (\<exists>p qs. ps = p # qs \<and> len = length (body p)
          \<and> buf @ rest = xorb K (cipher_recv codec) (body p) @ wire K (after K (cipher_recv codec) (body p)) qs))"

lemma decode_body_in_step:
  assumes laws: "cipher_laws K" and p: "wf_packet K p" and none: "next_len codec = None"
    and src: "src @ rest = xorb K (cipher_recv codec) (body p)
      @ wire K (after K (cipher_recv codec) (body p)) qs"
  shows "(length src < length (body p) \<and> rest \<noteq> [] \<and> (\<exists>codec'. decode_body K codec (length (body p)) src
        = (Inr None, codec', src) \<and> in_step K codec' src (p # qs) rest)) \<or>
    (\<exists>codec' src'. decode_body K codec (length (body p)) src = (Inr (Some p), codec', src')
       \<and> next_len codec' = None \<and> in_step K codec' src' qs rest)"
proof (cases "length src < length (body p)")
  case True
  then have "rest \<noteq> []" using arg_cong [OF src, of length] cipher_simps(1) [OF laws] by auto
  with True src wf_body [OF p] show ?thesis
    by (auto simp: decode_body_def in_step_def)
next
  case False
  let ?c = "cipher_recv codec" and ?n = "length (body p)"
  have take: "take ?n src = xorb K ?c (body p)"
    using False arg_cong [OF src, of "take ?n"] cipher_simps(1) [OF laws] by simp
  have drop: "drop ?n src @ rest = wire K (after K ?c (body p)) qs"
    using False arg_cong [OF src, of "drop ?n"] cipher_simps(1) [OF laws] by simp
  have dec: "apply_keystream K ?c (take ?n src) = (body p, after K ?c (body p))"
    by (simp add: take apply_keystream_eq cipher_simps [OF laws])
  have split: "take (?n - 32) (body p) = nonce p @ pdata p" "drop (?n - 32) (body p) = checksum p"
    "take 32 (body p) = nonce p" "drop 32 (nonce p @ pdata p) = pdata p"
    using wf_packetD(1,2) [OF p] wf_body [OF p] by (simp_all add: body_def)
  have "64 \<le> ?n" using wf_body [OF p] by simp
  then have "decode_body K codec ?n src
      = (Inr (Some p), codec\<lparr>cipher_recv := after K ?c (body p)\<rparr>, drop ?n src)"
    using False split wf_packetD(3) [OF p] by (simp add: decode_body_def dec)
  with none drop show ?thesis by (auto simp: in_step_def)
qed

lemma header_length:
  assumes "wf_packet K p"
  shows "unat (u32_of_le (u32_to_le (word_of_nat (length (pdata p) + 64)))) = length (body p)"
proof -
  have "unat (word_of_nat n :: u32) = n" if "n < 2 ^ 32" for n using that by (simp add: unat_of_nat)
  then show ?thesis using wf_packetD(4) [OF assms] by (simp only: u32_le_roundtrip wf_body [OF assms])
qed

text \<open>One call of the decoder takes the next packet, or asks for more while more is to come.\<close>

lemma decode_in_step:
  assumes laws: "cipher_laws K" and wf: "\<forall>p \<in> set ps. wf_packet K p" and step: "in_step K codec buf ps rest"
  shows "(\<exists>codec' buf'. decode K codec buf = (Inr None, codec', buf') \<and> in_step K codec' buf' ps rest
       \<and> (rest = [] \<longrightarrow> ps = [])) \<or>
    (\<exists>p qs codec' buf'. ps = p # qs \<and> decode K codec buf = (Inr (Some p), codec', buf')
       \<and> in_step K codec' buf' qs rest)"
proof (cases "next_len codec")
  case (Some len)
  then obtain p qs where ps: "ps = p # qs" and len: "len = length (body p)"
    and src: "buf @ rest = xorb K (cipher_recv codec) (body p) @ wire K (after K (cipher_recv codec) (body p)) qs"
    using step by (auto simp: in_step_def)
  have "decode K codec buf = decode_body K (codec\<lparr>next_len := None\<rparr>) (length (body p)) buf"
    using Some len by (simp add: decode_def)
  with decode_body_in_step [OF laws, of p "codec\<lparr>next_len := None\<rparr>" buf rest qs] src wf ps
  show ?thesis by auto
next
  case None
  let ?c = "cipher_recv codec"
  have wire: "buf @ rest = wire K ?c ps" using step None by (simp add: in_step_def)
  show ?thesis
  proof (cases "length buf < 4")
    case True
    have "ps = []" if "rest = []"
    proof (cases ps)
      case (Cons p qs)
      with True wire that show ?thesis
        using arg_cong [OF wire, of length] cipher_simps(1) [OF laws, of ?c "frame p"] by (simp add: frame_def)
    qed simp
    with True None step show ?thesis by (simp add: decode_def)
  next
    case False
    then obtain p qs where ps: "ps = p # qs" using wire by (cases ps) auto
    let ?h = "u32_to_le (word_of_nat (length (pdata p) + 64))"
    let ?c4 = "after K ?c ?h"
    have split: "buf @ rest = xorb K ?c ?h @ xorb K ?c4 (body p) @ wire K (after K ?c4 (body p)) qs"
      using wire ps by (simp add: frame_body cipher_simps [OF laws])
    have h: "take 4 buf = xorb K ?c ?h"
      using False arg_cong [OF split, of "take 4"] cipher_simps(1) [OF laws, of ?c ?h] by simp
    have src: "drop 4 buf @ rest = xorb K ?c4 (body p) @ wire K (after K ?c4 (body p)) qs"
      using False arg_cong [OF split, of "drop 4"] cipher_simps(1) [OF laws, of ?c ?h] by simp
    have wfp: "wf_packet K p" using wf ps by simp
    have "decode K codec buf = decode_body K (codec\<lparr>cipher_recv := ?c4\<rparr>) (length (body p)) (drop 4 buf)"
      using False None header_length [OF wfp]
      by (simp add: decode_def h apply_keystream_eq cipher_simps [OF laws] Let_def)
    with decode_body_in_step [OF laws wfp, of "codec\<lparr>cipher_recv := ?c4\<rparr>" "drop 4 buf" rest qs] src None ps
    show ?thesis by auto
  qed
qed

lemma decode_available_in_step:
  assumes laws: "cipher_laws K" and "\<forall>p \<in> set ps. wf_packet K p" and "in_step K codec buf ps rest"
  shows "\<exists>qs rs codec' buf'. ps = qs @ rs \<and> decode_available K codec buf = (qs, Inr (codec', buf'))
    \<and> in_step K codec' buf' rs rest \<and> (rest = [] \<longrightarrow> rs = [])"
  using assms(2,3)
proof (induction ps arbitrary: codec buf)
  case Nil
  with decode_in_step [OF laws, of "[]" codec buf rest] show ?case
    by (subst decode_available.simps) force
next
  case (Cons p ps)
  from decode_in_step [OF laws Cons.prems] show ?case
  proof (elim disjE exE conjE)
    fix codec' buf'
    assume "decode K codec buf = (Inr None, codec', buf')" "in_step K codec' buf' (p # ps) rest"
      "rest = [] \<longrightarrow> p # ps = []"
    then show ?case by (subst decode_available.simps) force
  next
    fix p' qs codec' buf'
    assume d: "p # ps = p' # qs" "decode K codec buf = (Inr (Some p'), codec', buf')"
      "in_step K codec' buf' qs rest"
    with Cons.IH [of codec' buf'] Cons.prems obtain qs' rs c b where "ps = qs' @ rs"
      "decode_available K codec' buf' = (qs', Inr (c, b))" "in_step K c b rs rest" "rest = [] \<longrightarrow> rs = []"
      by auto
    with d have "decode_available K codec buf = (p # qs', Inr (c, b))"
      by (subst decode_available.simps) simp
    with \<open>ps = qs' @ rs\<close> \<open>in_step K c b rs rest\<close> \<open>rest = [] \<longrightarrow> rs = []\<close> show ?case
      by (intro exI [of _ "p # qs'"] exI [of _ rs] exI [of _ c] exI [of _ b]) simp
  qed
qed

lemma feed_all_in_step:
  assumes laws: "cipher_laws K" and "\<forall>p \<in> set ps. wf_packet K p"
    and "in_step K codec buf ps (concat chunks)" and "concat chunks = [] \<longrightarrow> ps = []"
  shows "\<exists>codec' buf'. feed_all K codec buf chunks = (ps, Inr (codec', buf')) \<and> in_step K codec' buf' [] []"
  using assms(2-)
proof (induction chunks arbitrary: codec buf ps)
  case (Cons chunk chunks)
  have "in_step K codec (buf @ chunk) ps (concat chunks)"
    using Cons.prems(2) by (simp add: in_step_def split: option.splits)
  from decode_available_in_step [OF laws Cons.prems(1) this]
  obtain qs rs codec' buf' where ps: "ps = qs @ rs"
    and d: "decode_available K codec (buf @ chunk) = (qs, Inr (codec', buf'))"
    and s: "in_step K codec' buf' rs (concat chunks)" "concat chunks = [] \<longrightarrow> rs = []" by blast
  from Cons.IH [OF _ s] Cons.prems(1) ps obtain c b where
    "feed_all K codec' buf' chunks = (rs, Inr (c, b))" "in_step K c b [] []" by auto
  with d ps show ?case by auto
qed (auto simp: in_step_def)

section \<open>Properties\<close>

text \<open>A stream cipher that XORs the position, and a digest of 32 equal bytes, for concrete inputs.\<close>

definition demo_crypto :: "(nat, u8, u8) crypto" where
  "demo_crypto = \<lparr>cipher_new = (\<lambda>k v. of_le_bytes (k @ v)),
     apply_keystream = (\<lambda>c d. (map2 (\<lambda>b i. b XOR word_of_nat i) d [c..<c + length d], c + length d)),
     sha256 = (\<lambda>d. replicate 32 (word_of_nat (sum_list (map unat d)))),
     vk_from_bytes = (\<lambda>b. Some (hd b)),
     vk_as_bytes = (\<lambda>k. replicate 32 k),
     signing_key = (\<lambda>b. (hd b, hd b)),
     montgomery_mul = (\<lambda>pk sk. replicate 32 (pk * sk))\<rparr>"

lemma demo_cipher_laws: "cipher_laws demo_crypto"
proof -
  have inv: "map2 (\<lambda>b i. b XOR word_of_nat i) (map2 (\<lambda>b i. b XOR word_of_nat i) d xs) xs = d"
    if "length xs = length d" for d :: bytes and xs
    using that by (induction d xs rule: list_induct2') (simp_all add: xor.assoc)
  have app: "map2 f (a @ b) [c..<c + length a + length b]
      = map2 f a [c..<c + length a] @ map2 f b [c + length a..<c + length a + length b]"
    for f :: "u8 \<Rightarrow> nat \<Rightarrow> u8" and a b c
    using upt_add_eq_append [of c "c + length a" "length b"] by (simp add: zip_append)
  show ?thesis
    unfolding cipher_laws_def demo_crypto_def
    by (simp add: inv app add.assoc [symmetric])
qed

text \<open>
  C4. However the bytes of a connection are cut into fragments, the receiver gets exactly the packets
  that the sender encoded, in order and without error, and is left with an empty buffer.
\<close>

theorem codec_stream_roundtrip:
  assumes "cipher_laws K" and "\<forall>p \<in> set ps. wf_packet K p"
    and "cipher_recv receiver = cipher_send sender" and "next_len receiver = None"
    and "concat chunks = snd (encode_all K sender ps [])"
  shows "\<exists>receiver'. feed_all K receiver [] chunks = (ps, Inr (receiver', []))"
proof -
  have wire: "concat chunks = wire K (cipher_recv receiver) ps"
    using assms(3,5) by (simp add: encode_all_wire)
  have "ps = []" if "concat chunks = []"
  proof (cases ps)
    case (Cons p qs)
    with that wire have "length (xorb K (cipher_recv receiver) (frame p)) = 0" by simp
    then show ?thesis by (simp add: cipher_simps [OF assms(1)] frame_def)
  qed simp
  moreover have "in_step K receiver [] ps (concat chunks)"
    using wire assms(4) by (simp add: in_step_def)
  ultimately obtain c b where "feed_all K receiver [] chunks = (ps, Inr (c, b))" "in_step K c b [] []"
    using feed_all_in_step [OF assms(1,2)] by blast
  then show ?thesis by (auto simp: in_step_def split: option.splits)
qed

definition demo_codec :: "nat PacketCodec" where
  "demo_codec = \<lparr>cipher_recv = 3, cipher_send = 3, next_len = None\<rparr>"

definition demo_packet :: Packet where
  "demo_packet = packet_new demo_crypto (replicate 32 7) [1, 2, 3]"

lemma take_split: "k \<le> m \<Longrightarrow> take k xs @ drop k (take m xs) = take m xs"
  by (metis append_take_drop_id min.absorb1 take_take)

lemma wf_packet_new:
  assumes "length n = 32" "length d + 64 < 2 ^ 32" "length (sha256 K (n @ d)) = 32"
  shows "wf_packet K (packet_new K n d)"
  using assms by (simp add: wf_packet_def packet_new_def)

theorem codec_stream_roundtrip_witness:
  "\<exists>receiver'. feed_all demo_crypto demo_codec []
     (let w = snd (encode_all demo_crypto demo_codec [demo_packet, demo_packet] []) in
      [take 2 w, take 70 (drop 2 w), drop 72 w])
   = ([demo_packet, demo_packet], Inr (receiver', []))"
proof -
  have cut: "take 2 w @ take 70 (drop 2 w) @ drop 72 w = w" for w :: bytes
    using append_take_drop_id [of 70 "drop 2 w"] append_take_drop_id [of 2 w] by simp
  have "concat (let w = snd (encode_all demo_crypto demo_codec [demo_packet, demo_packet] []) in
      [take 2 w, take 70 (drop 2 w), drop 72 w])
    = snd (encode_all demo_crypto demo_codec [demo_packet, demo_packet] [])" (is "concat ?c = _")
    using cut by (simp only: Let_def concat.simps append_Nil2)
  moreover have "wf_packet demo_crypto demo_packet"
    unfolding demo_packet_def by (rule wf_packet_new) (simp_all add: demo_crypto_def)
  ultimately show ?thesis
    using codec_stream_roundtrip [OF demo_cipher_laws, of "[demo_packet, demo_packet]" demo_codec demo_codec ?c]
    by (simp add: demo_codec_def)
qed

text \<open>
  C34. The decoder never delivers a packet whose checksum is not the digest of its nonce and data, in
  whatever state it is and whatever it reads.
\<close>

theorem decode_checks_checksum:
  assumes "cipher_laws K" and "decode K codec src = (Inr (Some p), codec', src')"
  shows "checksum p = sha256 K (nonce p @ pdata p) \<and> length (nonce p) = 32 \<and> length (checksum p) = 32"
proof -
  have body: "checksum p = sha256 K (nonce p @ pdata p) \<and> length (nonce p) = 32 \<and> length (checksum p) = 32"
    if b: "decode_body K cdc len s = (Inr (Some p), codec', src')" for cdc len s
  proof -
    have "64 \<le> len" "len \<le> length s" using decode_body_some [OF b] by simp_all
    moreover have "length (fst (apply_keystream K (cipher_recv cdc) (take len s))) = length (take len s)"
      using assms(1) by (simp add: cipher_laws_def)
    ultimately show ?thesis using b
      by (auto simp: decode_body_def Let_def take_split split: if_splits prod.splits)
  qed
  obtain cdc len s where "decode_body K cdc len s = (Inr (Some p), codec', src')"
    using assms(2) by (auto simp: decode_def Let_def split: option.splits if_splits prod.splits)
  then show ?thesis by (rule body)
qed

lemma decode_roundtrip_one:
  assumes "cipher_laws K" "wf_packet K p" "next_len codec = None"
  shows "decode K codec (xorb K (cipher_recv codec) (frame p) @ rest)
    = (Inr (Some p), codec\<lparr>cipher_recv := after K (cipher_recv codec) (frame p)\<rparr>, rest)"
proof -
  let ?c = "cipher_recv codec" and ?h = "u32_to_le (word_of_nat (length (pdata p) + 64))"
  have h: "take 4 (xorb K ?c (frame p)) = xorb K ?c ?h"
    "drop 4 (xorb K ?c (frame p)) = xorb K (after K ?c ?h) (body p)"
    "length (xorb K ?c (frame p)) = 4 + length (body p)"
    by (simp_all add: frame_body cipher_simps [OF assms(1)])
  have body: "take (length (body p) - 32) (body p) = nonce p @ pdata p"
    "drop (length (body p) - 32) (body p) = checksum p" "take 32 (body p) = nonce p"
    "drop 32 (nonce p @ pdata p) = pdata p" "64 \<le> length (body p)"
    using wf_packetD(1,2) [OF assms(2)] wf_body [OF assms(2)] by (simp_all add: body_def)
  have "decode K codec (xorb K ?c (frame p) @ rest)
      = decode_body K (codec\<lparr>cipher_recv := after K ?c ?h\<rparr>) (length (body p))
          (xorb K (after K ?c ?h) (body p) @ rest)"
    using assms(3) header_length [OF assms(2)] h
    by (simp add: decode_def apply_keystream_eq cipher_simps [OF assms(1)] Let_def)
  then show ?thesis
    using body wf_packetD(3) [OF assms(2)]
    by (simp add: decode_body_def apply_keystream_eq cipher_simps [OF assms(1)] frame_body Let_def)
qed

text \<open>A packet that the demonstration codec reads.\<close>

theorem decode_checks_checksum_witness:
  "checksum demo_packet = sha256 demo_crypto (nonce demo_packet @ pdata demo_packet)"
proof -
  have "wf_packet demo_crypto demo_packet"
    unfolding demo_packet_def by (rule wf_packet_new) (simp_all add: demo_crypto_def)
  from decode_checks_checksum [OF demo_cipher_laws decode_roundtrip_one [OF demo_cipher_laws this, of demo_codec]]
  show ?thesis by (simp add: demo_codec_def)
qed

lemma demo_key_laws: "key_laws demo_crypto"
  by (simp add: key_laws_def demo_crypto_def mult.commute)

lemma key_generate_simps [simp]:
  "key_id (key_generate K r) = key_id_of K (vk_as_bytes K (fst (signing_key K r)))"
  "pub_key (key_generate K r) = fst (signing_key K r)" "exp_key (key_generate K r) = snd (signing_key K r)"
  by (simp_all add: key_generate_def case_prod_unfold Let_def)

lemma aes_handshake:
  fixes K :: "('c, 'pk, 'sk) crypto" and ra rb :: bytes
  assumes "cipher_laws K" "key_laws K"
  defines "client \<equiv> key_generate K ra" and "server \<equiv> key_generate K rb"
  shows "aes_from_encrypted K (fst (aes_encrypt K basis (exp_key client) (pub_key server)))
      (sha256 K basis) (exp_key server) (pub_key client) = Inr basis"
proof -
  have "montgomery_mul K (pub_key server) (exp_key client) = montgomery_mul K (pub_key client) (exp_key server)"
    using assms(2) unfolding client_def server_def key_generate_simps key_laws_def by blast
  then show ?thesis
    by (simp add: aes_from_encrypted_def aes_encrypt_def Let_def cipher_simps [OF assms(1)] flip: xorb_def)
qed

text \<open>
  C13. A server accepts the handshake of every client that knows its public key, learns the public key of
  the client and answers with an empty packet that completes the connection; afterwards each side
  decrypts with the cipher state that the other side encrypts with.
\<close>

theorem handshake_agrees:
  fixes K :: "('c, 'pk, 'sk) crypto" and ra rb :: bytes
  assumes "cipher_laws K" and "key_laws K" and "length basis = 160" and "length rnd = 32"
  defines "client_key \<equiv> key_generate K ra" and "server_key \<equiv> key_generate K rb"
  shows "\<exists>hello client server out client'.
    client_hello K basis client_key (vk_as_bytes K (pub_key server_key)) = Inr (hello, client)
    \<and> server_handshake K server_key rnd (hello @ rest) = Inr (pub_key client_key, server, out, rest)
    \<and> client_finish K client out = Inr (client', [])
    \<and> cipher_recv client' = cipher_send server \<and> cipher_send client' = cipher_recv server
    \<and> next_len client' = None \<and> next_len server = None"
proof -
  let ?srv = "vk_as_bytes K (pub_key server_key)"
  let ?enc = "fst (aes_encrypt K basis (exp_key client_key) (pub_key server_key))"
  let ?hello = "key_id_of K ?srv @ vk_as_bytes K (pub_key client_key) @ sha256 K basis @ ?enc"
  let ?c = "from_bytes_as_client K basis" and ?s = "from_bytes_as_server K basis"
  let ?p = "packet_empty K rnd"
  have keys: "vk_from_bytes K (vk_as_bytes K pk) = Some pk" "length (vk_as_bytes K pk) = 32"
    "length (sha256 K d) = 32" for pk d
    using assms(2) by (simp_all add: key_laws_def)
  have len: "length ?enc = 160" using assms(1,3)
    by (simp add: aes_encrypt_def Let_def cipher_laws_def)
  have hello: "client_hello K basis client_key ?srv = Inr (?hello, ?c)"
    by (simp add: client_hello_def keys aes_encrypt_def Let_def)
  have id: "key_id server_key = key_id_of K ?srv"
    by (simp add: server_key_def)
  define stream where "stream = ?hello @ rest"
  have slices: "take 32 stream = key_id_of K ?srv"
    "take 32 (drop 32 stream) = vk_as_bytes K (pub_key client_key)"
    "take 32 (drop 64 stream) = sha256 K basis" "take 160 (drop 96 stream) = ?enc"
    "drop 256 stream = rest" "\<not> length stream < 256"
    by (simp_all add: stream_def keys len key_id_of_def)
  obtain out where enc: "encode K ?s ?p [] = (?s\<lparr>cipher_send := after K (cipher_send ?s) (frame ?p)\<rparr>, out)"
    and out: "out = xorb K (cipher_send ?s) (frame ?p)"
    by (simp add: encode_def apply_keystream_eq)
  have srv: "server_handshake K server_key rnd stream
      = Inr (pub_key client_key, ?s\<lparr>cipher_send := after K (cipher_send ?s) (frame ?p)\<rparr>, out, rest)"
    using aes_handshake [OF assms(1,2), of basis ra rb, folded client_key_def, folded server_key_def]
      slices(6)
    unfolding server_handshake_def slices(1-5) id keys by (simp add: enc Let_def)
  have eq: "cipher_recv ?c = cipher_send ?s" "cipher_send ?c = cipher_recv ?s" "next_len ?c = None"
    "next_len ?s = None"
    by (simp_all add: from_bytes_as_client_def from_bytes_as_server_def)
  have "wf_packet K ?p" unfolding packet_empty_def
    by (rule wf_packet_new) (simp_all add: assms(4) keys)
  from decode_roundtrip_one [OF assms(1) this eq(3), of "[]"]
  have "client_finish K ?c out = Inr (?c\<lparr>cipher_recv := after K (cipher_recv ?c) (frame ?p)\<rparr>, [])"
    by (simp add: client_finish_def out eq packet_empty_def packet_new_def)
  with hello srv [unfolded stream_def] eq show ?thesis
    by (intro exI [of _ ?hello] exI [of _ ?c] exI [of _ "?s\<lparr>cipher_send := after K (cipher_send ?s) (frame ?p)\<rparr>"]
        exI [of _ out] exI [of _ "?c\<lparr>cipher_recv := after K (cipher_recv ?c) (frame ?p)\<rparr>"]) simp
qed

theorem handshake_agrees_witness:
  "\<exists>hello client server out client'.
    client_hello demo_crypto (replicate 160 5) (key_generate demo_crypto [3])
      (vk_as_bytes demo_crypto (pub_key (key_generate demo_crypto [9]))) = Inr (hello, client)
    \<and> server_handshake demo_crypto (key_generate demo_crypto [9]) (replicate 32 1) (hello @ [])
      = Inr (pub_key (key_generate demo_crypto [3]), server, out, [])
    \<and> client_finish demo_crypto client out = Inr (client', [])"
  using handshake_agrees [OF demo_cipher_laws demo_key_laws, of "replicate 160 5" "replicate 32 1" "[3]" "[9]" "[]"]
  by (simp del: append_Nil2) blast

end
