(* ===== verification/Reconnect_Service.thy ===== *)
theory Reconnect_Service
  imports Ton_Types
begin

text \<open>
  The services of \<open>ton-tower\<close> that keep a connection: \<open>Reconnect\<close> of
  \<open>service/reconnect.rs\<close>, which makes a new service whenever the current one fails, and
  \<open>SharedService\<close> of \<open>service/shared.rs\<close>, which lets many clients use one service behind a
  mutex. A service is a value of its own: polling and calling it return its next value, so that a value
  carries whatever the service will do. The loop of \<open>Reconnect::poll_ready\<close> is a partial function:
  \<open>None\<close> means that it does not return. The locale \<open>checked_service\<close> is the contract of
  tower's \<open>Service\<close> trait that the shared service relies on.
\<close>

section \<open>Reconnect\<close>

text \<open>The operations of the service maker, of the future it returns and of the services it makes.\<close>

record ('m, 't, 'f, 's, 'e, 'r, 'g) make_ops =
  mk_poll_ready :: "'m \<Rightarrow> ('e + unit) poll \<times> 'm"
  mk_make_service :: "'t \<Rightarrow> 'm \<Rightarrow> 'f \<times> 'm"
  mk_future_poll :: "'f \<Rightarrow> ('e + 's) poll \<times> 'f"
  svc_poll_ready :: "'s \<Rightarrow> ('e + unit) poll \<times> 's"
  svc_call :: "'r \<Rightarrow> 's \<Rightarrow> 'g \<times> 's"

datatype ('f, 's) State = Idle | Connecting 'f | Connected 's

record ('m, 't, 'f, 's, 'e) Reconnect =
  rec_mk_service :: 'm
  rec_state :: "('f, 's) State"
  rec_target :: 't
  rec_error :: "'e option"

datatype ('g, 'e) Inner = InnerFuture 'g | InnerError "'e option"

definition reconnect_new :: "'m \<Rightarrow> 't \<Rightarrow> ('m, 't, 'f, 's, 'e) Reconnect" where
  "reconnect_new mk target =
     \<lparr>rec_mk_service = mk, rec_state = Idle, rec_target = target, rec_error = None\<rparr>"

text \<open>One iteration of the loop: \<open>Some\<close> is what it returns, \<open>None\<close> goes on.\<close>

definition reconnect_step ::
  "('m, 't, 'f, 's, 'e, 'r, 'g) make_ops \<Rightarrow> ('m, 't, 'f, 's, 'e) Reconnect
     \<Rightarrow> ('e + unit) poll option \<times> ('m, 't, 'f, 's, 'e) Reconnect" where
  "reconnect_step ops rc =
     (case rec_state rc of
        Idle \<Rightarrow>
          (case mk_poll_ready ops (rec_mk_service rc) of
             (Ready (Inl e), mk) \<Rightarrow> (Some (Ready (Inl e)), rc\<lparr>rec_mk_service := mk\<rparr>)
           | (Pending, mk) \<Rightarrow> (Some Pending, rc\<lparr>rec_mk_service := mk\<rparr>)
           | (Ready (Inr _), mk) \<Rightarrow>
               (case mk_make_service ops (rec_target rc) mk of
                  (fut, mk') \<Rightarrow> (None, rc\<lparr>rec_mk_service := mk', rec_state := Connecting fut\<rparr>)))
      | Connecting f \<Rightarrow>
          (case mk_future_poll ops f of
             (Ready (Inr service), f') \<Rightarrow> (None, rc\<lparr>rec_state := Connected service\<rparr>)
           | (Pending, f') \<Rightarrow> (Some Pending, rc\<lparr>rec_state := Connecting f'\<rparr>)
           | (Ready (Inl e), f') \<Rightarrow> (Some (Ready (Inr ())), rc\<lparr>rec_state := Idle, rec_error := Some e\<rparr>))
      | Connected inner \<Rightarrow>
          (case svc_poll_ready ops inner of
             (Ready (Inr _), inner') \<Rightarrow> (Some (Ready (Inr ())), rc\<lparr>rec_state := Connected inner'\<rparr>)
           | (Pending, inner') \<Rightarrow> (Some Pending, rc\<lparr>rec_state := Connected inner'\<rparr>)
           | (Ready (Inl e), inner') \<Rightarrow> (None, rc\<lparr>rec_state := Idle\<rparr>)))"

partial_function (option) reconnect_poll_ready ::
  "('m, 't, 'f, 's, 'e, 'r, 'g) make_ops \<Rightarrow> ('m, 't, 'f, 's, 'e) Reconnect
     \<Rightarrow> (('e + unit) poll \<times> ('m, 't, 'f, 's, 'e) Reconnect) option" where
  "reconnect_poll_ready ops rc =
     (case reconnect_step ops rc of
        (Some r, rc') \<Rightarrow> Some (r, rc')
      | (None, rc') \<Rightarrow> reconnect_poll_ready ops rc')"

definition reconnect_call ::
  "('m, 't, 'f, 's, 'e, 'r, 'g) make_ops \<Rightarrow> 'r \<Rightarrow> ('m, 't, 'f, 's, 'e) Reconnect
     \<Rightarrow> (('g, 'e) Inner \<times> ('m, 't, 'f, 's, 'e) Reconnect) may_panic" where
  "reconnect_call ops request rc =
     (case rec_error rc of
        Some e \<Rightarrow> Inr (InnerError (Some e), rc\<lparr>rec_error := None\<rparr>)
      | None \<Rightarrow>
          (case rec_state rc of
             Connected service \<Rightarrow>
               (case svc_call ops request service of
                  (fut, service') \<Rightarrow> Inr (InnerFuture fut, rc\<lparr>rec_state := Connected service'\<rparr>))
           | _ \<Rightarrow> Inl ''service not ready; poll_ready must be called first''))"

text \<open>\<open>ResponseFuture::poll\<close>; polling the error a second time panics.\<close>

fun reconnect_future_poll ::
  "('g \<Rightarrow> ('e + 'a) poll \<times> 'g) \<Rightarrow> ('g, 'e) Inner \<Rightarrow> (('e + 'a) poll \<times> ('g, 'e) Inner) may_panic" where
  "reconnect_future_poll fpoll (InnerFuture fut) = (case fpoll fut of (p, fut') \<Rightarrow> Inr (p, InnerFuture fut'))"
| "reconnect_future_poll fpoll (InnerError (Some e)) = Inr (Ready (Inl e), InnerError None)"
| "reconnect_future_poll fpoll (InnerError None) = Inl ''polled after ready''"

section \<open>SharedService\<close>

text \<open>
  The service behind the mutex is polled and called through the two functions \<open>pr\<close> and
  \<open>call\<close>; \<open>locked\<close> says whether \<open>try_lock\<close> fails because another task holds the lock.
\<close>

datatype 'g ResponseState = Locking | Waiting 'g

record ('r, 'g) shared_future =
  sf_request :: "'r option"
  sf_state :: "'g ResponseState"

definition shared_poll_ready ::
  "('s \<Rightarrow> (('e + unit) poll \<times> 's) option) \<Rightarrow> bool \<Rightarrow> 's \<Rightarrow> (('e + unit) poll \<times> 's) option" where
  "shared_poll_ready pr locked s = (if locked then Some (Pending, s) else pr s)"

definition shared_call :: "'r \<Rightarrow> ('r, 'g) shared_future" where
  "shared_call req = \<lparr>sf_request = Some req, sf_state = Locking\<rparr>"

definition shared_waiting ::
  "('g \<Rightarrow> (('e + 'a) poll \<times> 'g) may_panic) \<Rightarrow> 'g \<Rightarrow> ('r, 'g) shared_future
     \<Rightarrow> (('e + 'a) poll \<times> ('r, 'g) shared_future) may_panic" where
  "shared_waiting fpoll g fut =
     (case fpoll g of
        Inl m \<Rightarrow> Inl m
      | Inr (p, g') \<Rightarrow> Inr (p, fut\<lparr>sf_state := Waiting g'\<rparr>))"

definition shared_future_poll ::
  "('s \<Rightarrow> (('e + unit) poll \<times> 's) option) \<Rightarrow> ('r \<Rightarrow> 's \<Rightarrow> ('g \<times> 's) may_panic)
     \<Rightarrow> ('g \<Rightarrow> (('e + 'a) poll \<times> 'g) may_panic) \<Rightarrow> bool \<Rightarrow> ('r, 'g) shared_future \<Rightarrow> 's
     \<Rightarrow> (('e + 'a) poll \<times> ('r, 'g) shared_future \<times> 's) may_panic option" where
  "shared_future_poll pr call fpoll locked fut s =
     (case sf_state fut of
        Locking \<Rightarrow>
          if locked then Some (Inr (Pending, fut, s))
          else (case pr s of
             None \<Rightarrow> None
           | Some (Pending, s') \<Rightarrow> Some (Inr (Pending, fut, s'))
           | Some (Ready (Inl e), s') \<Rightarrow> Some (Inr (Ready (Inl e), fut, s'))
           | Some (Ready (Inr _), s') \<Rightarrow>
               (case sf_request fut of
                  None \<Rightarrow> Some (Inl ''Future was polled after completion'')
                | Some req \<Rightarrow>
                    (case call req s' of
                       Inl m \<Rightarrow> Some (Inl m)
                     | Inr (g, s'') \<Rightarrow> Some (map_ok (\<lambda>(p, fut'). (p, fut', s''))
                         (shared_waiting fpoll g (fut\<lparr>sf_request := None\<rparr>))))))
      | Waiting g \<Rightarrow> Some (map_ok (\<lambda>(p, fut'). (p, fut', s)) (shared_waiting fpoll g fut)))"

definition shared_load :: "('s \<Rightarrow> 'l) \<Rightarrow> 's \<Rightarrow> 'l" where
  "shared_load load s = load s"

text \<open>
  Many tasks use clones of one shared service. A step is a poll or a call by one of them; it runs with the
  lock held or finds the lock taken. A future that is ready is dropped, and a future may be dropped before.
\<close>

record ('s, 'r, 'g) shared_world =
  sw_service :: 's
  sw_futures :: "('r, 'g) shared_future list"

definition remove_nth :: "nat \<Rightarrow> 'a list \<Rightarrow> 'a list" where
  "remove_nth i xs = take i xs @ drop (Suc i) xs"

inductive shared_step ::
  "('s \<Rightarrow> (('e + unit) poll \<times> 's) option) \<Rightarrow> ('r \<Rightarrow> 's \<Rightarrow> ('g \<times> 's) may_panic)
     \<Rightarrow> ('g \<Rightarrow> (('e + 'a) poll \<times> 'g) may_panic) \<Rightarrow> ('s, 'r, 'g) shared_world
     \<Rightarrow> ('s, 'r, 'g) shared_world may_panic \<Rightarrow> bool"
  for pr call fpoll where
  poll_ready: "shared_poll_ready pr locked (sw_service w) = Some (p, s') \<Longrightarrow>
    shared_step pr call fpoll w (Inr (w\<lparr>sw_service := s'\<rparr>))"
| call: "shared_step pr call fpoll w (Inr (w\<lparr>sw_futures := sw_futures w @ [shared_call req]\<rparr>))"
| pending: "i < length (sw_futures w) \<Longrightarrow>
    shared_future_poll pr call fpoll locked (sw_futures w ! i) (sw_service w) = Some (Inr (Pending, fut, s')) \<Longrightarrow>
    shared_step pr call fpoll w (Inr \<lparr>sw_service = s', sw_futures = (sw_futures w)[i := fut]\<rparr>)"
| finished: "i < length (sw_futures w) \<Longrightarrow>
    shared_future_poll pr call fpoll locked (sw_futures w ! i) (sw_service w) = Some (Inr (Ready r, fut, s')) \<Longrightarrow>
    shared_step pr call fpoll w (Inr \<lparr>sw_service = s', sw_futures = remove_nth i (sw_futures w)\<rparr>)"
| cancelled: "i < length (sw_futures w) \<Longrightarrow>
    shared_step pr call fpoll w (Inr (w\<lparr>sw_futures := remove_nth i (sw_futures w)\<rparr>))"
| panics: "i < length (sw_futures w) \<Longrightarrow>
    shared_future_poll pr call fpoll locked (sw_futures w ! i) (sw_service w) = Some (Inl m) \<Longrightarrow>
    shared_step pr call fpoll w (Inl m)"

inductive_cases shared_step_panic: "shared_step pr call fpoll w (Inl m)"

inductive shared_reachable ::
  "('s \<Rightarrow> (('e + unit) poll \<times> 's) option) \<Rightarrow> ('r \<Rightarrow> 's \<Rightarrow> ('g \<times> 's) may_panic)
     \<Rightarrow> ('g \<Rightarrow> (('e + 'a) poll \<times> 'g) may_panic) \<Rightarrow> 's \<Rightarrow> ('s, 'r, 'g) shared_world \<Rightarrow> bool"
  for pr call fpoll s where
  start: "shared_reachable pr call fpoll s \<lparr>sw_service = s, sw_futures = []\<rparr>"
| step: "shared_reachable pr call fpoll s w \<Longrightarrow> shared_step pr call fpoll w (Inr w') \<Longrightarrow>
    shared_reachable pr call fpoll s w'"

section \<open>The loop of the reconnecting service\<close>

text \<open>What the loop returns is what its last iteration returns; the others keep the stored error.\<close>

lemma reconnect_step_None:
  "reconnect_step ops rc = (None, rc') \<Longrightarrow> rec_error rc' = rec_error rc \<and> rec_target rc' = rec_target rc"
  by (auto simp: reconnect_step_def split: State.splits prod.splits poll.splits sum.splits)

lemma reconnect_poll_ready_last_step:
  assumes "reconnect_poll_ready ops rc = Some (r, rc')"
  obtains rc0 where "reconnect_step ops rc0 = (Some r, rc')"
    "rec_error rc0 = rec_error rc" "rec_target rc0 = rec_target rc"
proof -
  have "\<exists>rc0. reconnect_step ops rc0 = (Some (fst y), snd y)
      \<and> rec_error rc0 = rec_error rc \<and> rec_target rc0 = rec_target rc"
    if "reconnect_poll_ready ops rc = Some y" for y
  proof (rule reconnect_poll_ready.raw_induct [OF _ that], goal_cases)
    case (1 poll_ready ops rc y)
    obtain q rc1 where step: "reconnect_step ops rc = (q, rc1)" by (cases "reconnect_step ops rc")
    show ?case
    proof (cases q)
      case None
      with step 1(2) have "poll_ready ops rc1 = Some y" by simp
      from 1(1) [OF this] step None reconnect_step_None [of ops rc rc1] show ?thesis by auto
    next
      case (Some v)
      with step 1(2) show ?thesis by (intro exI [of _ rc]) auto
    qed
  qed
  from this [OF assms] show thesis using that by auto
qed

lemma reconnect_ready_step:
  assumes "reconnect_step ops rc = (Some (Ready (Inr ())), rc')"
  shows "(\<exists>f f' e. rec_state rc = Connecting f \<and> mk_future_poll ops f = (Ready (Inl e), f')
        \<and> rec_state rc' = Idle \<and> rec_error rc' = Some e)
    \<or> (\<exists>s s'. rec_state rc = Connected s \<and> svc_poll_ready ops s = (Ready (Inr ()), s')
        \<and> rec_state rc' = Connected s' \<and> rec_error rc' = rec_error rc)"
  using assms by (auto simp: reconnect_step_def split: State.splits prod.splits poll.splits sum.splits)

lemma reconnect_ready_cases:
  assumes "reconnect_poll_ready ops rc = Some (Ready (Inr ()), rc')"
  shows "(\<exists>f f' e. mk_future_poll ops f = (Ready (Inl e), f') \<and> rec_state rc' = Idle \<and> rec_error rc' = Some e)
    \<or> (\<exists>s s'. svc_poll_ready ops s = (Ready (Inr ()), s') \<and> rec_state rc' = Connected s'
        \<and> rec_error rc' = rec_error rc)"
  using assms by (rule reconnect_poll_ready_last_step) (use reconnect_ready_step in metis)

lemma reconnect_call_after_ready:
  assumes "reconnect_poll_ready ops rc = Some (Ready (Inr ()), rc')"
  shows "\<exists>fut rc''. reconnect_call ops req rc' = Inr (fut, rc'') \<and> fut \<noteq> InnerError None"
  using reconnect_ready_cases [OF assms]
  by (auto simp: reconnect_call_def split: option.splits State.splits prod.splits)

section \<open>The contract the shared service relies on\<close>

locale checked_service =
  fixes pr :: "'s \<Rightarrow> (('e + unit) poll \<times> 's) option"
    and call :: "'r \<Rightarrow> 's \<Rightarrow> ('g \<times> 's) may_panic"
    and fpoll :: "'g \<Rightarrow> (('e + 'a) poll \<times> 'g) may_panic"
    and live :: "'g \<Rightarrow> bool"
  assumes call_after_ready: "pr s = Some (Ready (Inr ()), s') \<Longrightarrow> \<exists>g s''. call r s' = Inr (g, s'') \<and> live g"
    and poll_live: "live g \<Longrightarrow> \<exists>p g'. fpoll g = Inr (p, g') \<and> (p = Pending \<longrightarrow> live g')"
begin

definition future_ok :: "('r, 'g) shared_future \<Rightarrow> bool" where
  "future_ok fut = (case sf_state fut of Locking \<Rightarrow> sf_request fut \<noteq> None | Waiting g \<Rightarrow> live g)"

lemma waiting_ok:
  assumes "live g"
  shows "\<exists>p fut'. shared_waiting fpoll g fut = Inr (p, fut') \<and> (p = Pending \<longrightarrow> future_ok fut')"
  using poll_live [OF assms] by (auto simp: shared_waiting_def future_ok_def)

lemma future_poll_ok:
  assumes "future_ok fut" and "shared_future_poll pr call fpoll locked fut s = Some r"
  shows "\<exists>p fut' s'. r = Inr (p, fut', s') \<and> (p = Pending \<longrightarrow> future_ok fut')"
proof (cases "sf_state fut")
  case (Waiting g)
  with assms(1) have "live g" by (simp add: future_ok_def)
  from waiting_ok [OF this, of fut] Waiting assms(2) show ?thesis by (auto simp: shared_future_poll_def)
next
  case Locking
  with assms(1) obtain req where req: "sf_request fut = Some req" by (auto simp: future_ok_def)
  show ?thesis
  proof (cases "locked \<or> (\<exists>x s'. pr s = Some (x, s') \<and> x \<noteq> Ready (Inr ()))")
    case True
    with Locking assms show ?thesis
      by (auto simp: shared_future_poll_def split: poll.splits sum.splits if_splits)
  next
    case False
    with Locking assms(2) obtain s' where s': "pr s = Some (Ready (Inr ()), s')" and "\<not> locked"
      by (auto simp: shared_future_poll_def split: option.splits)
    moreover obtain g s'' where g: "call req s' = Inr (g, s'')" "live g"
      using call_after_ready [OF s'] by blast
    ultimately show ?thesis
      using Locking req assms(2) waiting_ok [OF g(2), of "fut\<lparr>sf_request := None\<rparr>"]
      by (auto simp: shared_future_poll_def)
  qed
qed

lemma reachable_ok: "shared_reachable pr call fpoll s w \<Longrightarrow> \<forall>fut \<in> set (sw_futures w). future_ok fut"
proof (induction rule: shared_reachable.induct)
  case (step w w')
  from step.hyps(2) show ?case
  proof (cases rule: shared_step.cases)
    case (pending i locked fut s')
    then have "future_ok fut" using step.IH future_poll_ok [OF _ pending(3)] by fastforce
    then show ?thesis using pending(1) step.IH set_update_subset_insert [of "sw_futures w" i fut] by auto
  qed (use step.IH in \<open>auto simp: remove_nth_def future_ok_def shared_call_def dest: in_set_takeD in_set_dropD\<close>)
qed simp

lemma never_panics: "shared_reachable pr call fpoll s w \<Longrightarrow> \<not> shared_step pr call fpoll w (Inl m)"
  using reachable_ok future_poll_ok by (fastforce elim!: shared_step_panic)

end

lemma reconnect_future_live:
  assumes "fut \<noteq> InnerError None"
  shows "\<exists>p fut'. reconnect_future_poll fpoll fut = Inr (p, fut') \<and> (p = Pending \<longrightarrow> fut' \<noteq> InnerError None)"
proof (cases fut)
  case (InnerError e)
  with assms show ?thesis by (cases e) auto
qed (simp split: prod.splits)

interpretation shared_reconnect:
  checked_service "reconnect_poll_ready ops" "reconnect_call ops" "reconnect_future_poll fpoll"
    "\<lambda>fut. fut \<noteq> InnerError None" for ops fpoll
  by unfold_locales (rule reconnect_call_after_ready, assumption, rule reconnect_future_live)

section \<open>Termination of the loop\<close>

text \<open>A future that gives a service which fails as soon as it is polled.\<close>

definition future_fails :: "('m, 't, 'f, 's, 'e, 'r, 'g) make_ops \<Rightarrow> 'f \<Rightarrow> bool" where
  "future_fails ops f =
     (case mk_future_poll ops f of
        (Ready (Inr s), _) \<Rightarrow> (case svc_poll_ready ops s of (Ready (Inl _), _) \<Rightarrow> True | _ \<Rightarrow> False)
      | _ \<Rightarrow> False)"

lemma future_fails_iff:
  "future_fails ops f \<longleftrightarrow>
     (\<exists>s f' e s'. mk_future_poll ops f = (Ready (Inr s), f') \<and> svc_poll_ready ops s = (Ready (Inl e), s'))"
proof (cases "\<exists>s f'. mk_future_poll ops f = (Ready (Inr s), f')")
  case True
  then obtain s f' where made: "mk_future_poll ops f = (Ready (Inr s), f')" by blast
  then show ?thesis
    by (cases "svc_poll_ready ops s") (simp add: future_fails_def split: poll.split sum.split)
next
  case False
  then show ?thesis by (auto simp: future_fails_def split: poll.splits sum.splits prod.splits)
qed

lemma reconnect_poll_ready_step:
  "reconnect_step ops rc = (None, rc') \<Longrightarrow> reconnect_poll_ready ops rc = reconnect_poll_ready ops rc'"
  by (subst reconnect_poll_ready.simps) simp

lemma reconnect_poll_ready_return:
  "reconnect_step ops rc = (Some r, rc') \<Longrightarrow> reconnect_poll_ready ops rc = Some (r, rc')"
  by (subst reconnect_poll_ready.simps) simp

lemma reconnect_connected_returns:
  assumes "rec_state rc = Connected s"
  shows "(\<exists>r rc'. reconnect_poll_ready ops rc = Some (r, rc'))
    \<or> (\<exists>e s'. svc_poll_ready ops s = (Ready (Inl e), s')
        \<and> reconnect_poll_ready ops rc = reconnect_poll_ready ops (rc\<lparr>rec_state := Idle\<rparr>))"
proof (cases "reconnect_step ops rc")
  case (Pair q rc1)
  show ?thesis
  proof (cases q)
    case None
    with Pair assms obtain e s' where "svc_poll_ready ops s = (Ready (Inl e), s')" "rc1 = rc\<lparr>rec_state := Idle\<rparr>"
      by (auto simp: reconnect_step_def split: prod.splits poll.splits sum.splits)
    with Pair None reconnect_poll_ready_step show ?thesis by metis
  qed (use Pair reconnect_poll_ready_return in blast)
qed

lemma reconnect_connecting_returns:
  assumes "rec_state rc = Connecting f"
  shows "(\<exists>r rc'. reconnect_poll_ready ops rc = Some (r, rc'))
    \<or> (future_fails ops f \<and> reconnect_poll_ready ops rc = reconnect_poll_ready ops (rc\<lparr>rec_state := Idle\<rparr>))"
proof (cases "reconnect_step ops rc")
  case (Pair q rc1)
  show ?thesis
  proof (cases q)
    case None
    with Pair assms obtain s f' where s: "mk_future_poll ops f = (Ready (Inr s), f')" "rc1 = rc\<lparr>rec_state := Connected s\<rparr>"
      by (auto simp: reconnect_step_def split: prod.splits poll.splits sum.splits)
    with Pair None have "reconnect_poll_ready ops rc = reconnect_poll_ready ops rc1"
      using reconnect_poll_ready_step by blast
    with s reconnect_connected_returns [of rc1 s ops] show ?thesis by (auto simp: future_fails_def)
  qed (use Pair reconnect_poll_ready_return in blast)
qed

lemma reconnect_idle_returns:
  assumes "rec_state rc = Idle"
    and "\<And>m m1 f m2. mk_poll_ready ops m = (Ready (Inr ()), m1) \<Longrightarrow> mk_make_service ops (rec_target rc) m1 = (f, m2) \<Longrightarrow>
      future_fails ops f \<Longrightarrow> rank m2 < (rank m :: nat)"
  shows "\<exists>r rc'. reconnect_poll_ready ops rc = Some (r, rc')"
  using assms
proof (induction "rank (rec_mk_service rc)" arbitrary: rc rule: less_induct)
  case less
  show ?case
  proof (cases "reconnect_step ops rc")
    case (Pair q rc1)
    show ?thesis
    proof (cases q)
      case None
      with Pair less.prems(1) obtain m1 f m2 where made: "mk_poll_ready ops (rec_mk_service rc) = (Ready (Inr ()), m1)"
          "mk_make_service ops (rec_target rc) m1 = (f, m2)"
          "rc1 = rc\<lparr>rec_mk_service := m2, rec_state := Connecting f\<rparr>"
        by (auto simp: reconnect_step_def split: prod.splits poll.splits sum.splits)
      let ?rc = "rc1\<lparr>rec_state := Idle\<rparr>"
      have "\<exists>r rc'. reconnect_poll_ready ops ?rc = Some (r, rc')" if "future_fails ops f"
        using less.hyps [of ?rc] less.prems(2) made that by simp
      with reconnect_connecting_returns [of rc1 f ops] made(3)
      have "\<exists>r rc'. reconnect_poll_ready ops rc1 = Some (r, rc')" by auto
      with Pair None reconnect_poll_ready_step show ?thesis by metis
    qed (use Pair reconnect_poll_ready_return in blast)
  qed
qed

text \<open>A maker whose services all fail at once keeps the loop running.\<close>

lemma reconnect_diverges:
  fixes ops :: "('m, 't, 'f, 's, 'e, 'r, 'g) make_ops" and rc :: "('m, 't, 'f, 's, 'e) Reconnect"
  assumes "\<And>m. \<exists>m1. mk_poll_ready ops m = (Ready (Inr ()), m1)"
    and "\<And>t m. future_fails ops (fst (mk_make_service ops t m))"
    and "rec_state rc = Idle"
  shows "reconnect_poll_ready ops rc = None"
proof -
  define looping where "looping rc' \<longleftrightarrow> (case rec_state rc' of Idle \<Rightarrow> True | Connecting f \<Rightarrow> future_fails ops f
      | Connected s \<Rightarrow> (\<exists>e s'. svc_poll_ready ops s = (Ready (Inl e), s')))" for rc' :: "('m, 't, 'f, 's, 'e) Reconnect"
  have goes_on: "\<exists>rc''. reconnect_step ops rc' = (None, rc'') \<and> looping rc''" if "looping rc'" for rc'
  proof (cases "rec_state rc'")
    case Idle
    obtain m1 where "mk_poll_ready ops (rec_mk_service rc') = (Ready (Inr ()), m1)" using assms(1) by blast
    with Idle assms(2) [of "rec_target rc'" m1] show ?thesis
      by (auto simp: reconnect_step_def looping_def split: prod.splits)
  next
    case (Connecting f)
    with that obtain s f' e s' where "mk_future_poll ops f = (Ready (Inr s), f')" "svc_poll_ready ops s = (Ready (Inl e), s')"
      by (auto simp: looping_def future_fails_iff)
    with Connecting show ?thesis by (auto simp: reconnect_step_def looping_def)
  qed (use that in \<open>auto simp: reconnect_step_def looping_def\<close>)
  have "looping rc \<longrightarrow> False" if "reconnect_poll_ready ops rc = Some y" for rc y
  proof -
    have "ops' = ops \<longrightarrow> \<not> looping rc'" if "reconnect_poll_ready ops' rc' = Some y'" for ops' rc' y'
      by (rule reconnect_poll_ready.raw_induct [OF _ that]) (use goes_on in fastforce)
    with that show ?thesis by blast
  qed
  moreover have "looping rc" using assms(3) by (simp add: looping_def)
  ultimately show ?thesis by (metis not_Some_eq)
qed

lemma reconnect_stale_error:
  assumes "rec_error rc = Some e" and "rec_state rc = Connected s" and "svc_poll_ready ops s = (Ready (Inr ()), s')"
  shows "\<exists>rc'. reconnect_poll_ready ops rc = Some (Ready (Inr ()), rc') \<and> rec_state rc' = Connected s'
    \<and> reconnect_call ops req rc' = Inr (InnerError (Some e), rc'\<lparr>rec_error := None\<rparr>)"
  using assms by (subst reconnect_poll_ready.simps) (simp add: reconnect_step_def reconnect_call_def)

section \<open>Properties\<close>

text \<open>
  A maker that is given the list of services it will make: \<open>True\<close> for one that fails when it is
  polled, \<open>False\<close> for one that is ready; the list over, it makes ready ones.
\<close>

definition script_ops :: "(bool list, string, bool, bool, string, nat, nat) make_ops" where
  "script_ops = \<lparr>mk_poll_ready = (\<lambda>m. (Ready (Inr ()), m)),
     mk_make_service = (\<lambda>_ m. case m of [] \<Rightarrow> (False, []) | b # m' \<Rightarrow> (b, m')),
     mk_future_poll = (\<lambda>b. (Ready (Inr b), b)),
     svc_poll_ready = (\<lambda>b. (Ready (if b then Inl ''fail'' else Inr ()), b)),
     svc_call = (\<lambda>r b. (r, b))\<rparr>"

lemma script_ops_simps [simp]:
  "mk_poll_ready script_ops m = (Ready (Inr ()), m)"
  "mk_make_service script_ops t m = (case m of [] \<Rightarrow> (False, []) | b # m' \<Rightarrow> (b, m'))"
  "mk_future_poll script_ops b = (Ready (Inr b), b)"
  "svc_poll_ready script_ops b = (Ready (if b then Inl ''fail'' else Inr ()), b)"
  "svc_call script_ops r b = (r, b)"
  by (simp_all add: script_ops_def)

lemma script_reconnects:
  "reconnect_poll_ready script_ops (reconnect_new [True, False] t)
    = Some (Ready (Inr ()), \<lparr>rec_mk_service = [], rec_state = Connected False, rec_target = t, rec_error = None\<rparr>)"
  by (simp add: reconnect_poll_ready.simps [of script_ops] reconnect_step_def reconnect_new_def)

text \<open>
  A call after \<open>poll_ready\<close> said ready never panics. Either a failed attempt to connect is still to
  be reported: the call answers with that error and forgets it; or the request goes to a service that was
  polled and is ready, and no earlier error is lost.
\<close>

lemma reconnect_call_is_served:
  assumes "reconnect_poll_ready ops rc = Some (Ready (Inr ()), rc')"
  shows "(\<exists>e. rec_error rc' = Some e
      \<and> reconnect_call ops req rc' = Inr (InnerError (Some e), rc'\<lparr>rec_error := None\<rparr>))
    \<or> (rec_error rc = None \<and> (\<exists>s s' g s''. svc_poll_ready ops s = (Ready (Inr ()), s')
      \<and> svc_call ops req s' = (g, s'')
      \<and> reconnect_call ops req rc' = Inr (InnerFuture g, rc'\<lparr>rec_state := Connected s''\<rparr>)))"
proof (cases "rec_error rc'")
  case None
  with reconnect_ready_cases [OF assms] obtain s s' where ready: "svc_poll_ready ops s = (Ready (Inr ()), s')"
    "rec_state rc' = Connected s'" "rec_error rc = None" by auto
  obtain g s'' where "svc_call ops req s' = (g, s'')" by (cases "svc_call ops req s'")
  with None ready have "reconnect_call ops req rc' = Inr (InnerFuture g, rc'\<lparr>rec_state := Connected s''\<rparr>)"
    by (simp add: reconnect_call_def)
  with ready \<open>svc_call ops req s' = (g, s'')\<close> show ?thesis by blast
qed (simp add: reconnect_call_def)

text \<open>
  \<open>poll_ready\<close> returns whenever the maker runs out of services that fail as soon as they are
  polled: a rank of the maker that falls with every such service bounds the loop.
\<close>

lemma reconnect_returns:
  assumes "\<And>m m1 f m2. mk_poll_ready ops m = (Ready (Inr ()), m1) \<Longrightarrow> mk_make_service ops (rec_target rc) m1 = (f, m2) \<Longrightarrow>
      future_fails ops f \<Longrightarrow> rank m2 < (rank m :: nat)"
  shows "\<exists>r rc'. reconnect_poll_ready ops rc = Some (r, rc')"
proof -
  have idle: "\<exists>r rc'. reconnect_poll_ready ops (rc\<lparr>rec_state := Idle\<rparr>) = Some (r, rc')"
    by (rule reconnect_idle_returns [where rank = rank]) (use assms in simp_all)
  show ?thesis
  proof (cases "rec_state rc")
    case Idle
    then have "rc\<lparr>rec_state := Idle\<rparr> = rc" by simp
    with idle show ?thesis by metis
  next
    case (Connecting f)
    from reconnect_connecting_returns [OF this, of ops] idle show ?thesis by auto
  next
    case (Connected s)
    from reconnect_connected_returns [OF this, of ops] idle show ?thesis by auto
  qed
qed

text \<open>
  C7. However the tasks that share a reconnecting service interleave their polls, calls and drops, and
  whoever holds the lock, no poll of a response future panics: a request is handed to the service only
  while the lock is held and right after the service said ready.
\<close>

theorem shared_reconnect_never_panics:
  assumes "shared_reachable (reconnect_poll_ready ops) (reconnect_call ops) (reconnect_future_poll fpoll) rc w"
  shows "\<not> shared_step (reconnect_poll_ready ops) (reconnect_call ops) (reconnect_future_poll fpoll) w (Inl m)"
  using assms by (rule shared_reconnect.never_panics)

theorem shared_reconnect_never_panics_witness:
  "\<forall>m. \<not> shared_step (reconnect_poll_ready script_ops) (reconnect_call script_ops)
      (reconnect_future_poll (\<lambda>g. (Ready (Inr g :: string + nat), g)))
      \<lparr>sw_service = reconnect_new [True, False] ''ls'', sw_futures = [shared_call 7, shared_call 8]\<rparr> (Inl m)"
proof -
  let ?pr = "reconnect_poll_ready script_ops" and ?call = "reconnect_call script_ops"
    and ?fp = "reconnect_future_poll (\<lambda>g. (Ready (Inr g :: string + nat), g))"
    and ?rc = "reconnect_new [True, False] ''ls''"
  have "shared_reachable ?pr ?call ?fp ?rc \<lparr>sw_service = ?rc, sw_futures = [shared_call 7]\<rparr>"
    using shared_reachable.step [OF shared_reachable.start shared_step.call [of _ _ _ _ 7]] by simp
  from shared_reachable.step [OF this shared_step.call [of _ _ _ _ 8]]
  have "shared_reachable ?pr ?call ?fp ?rc \<lparr>sw_service = ?rc, sw_futures = [shared_call 7, shared_call 8]\<rparr>" by simp
  from shared_reconnect_never_panics [OF this] show ?thesis by blast
qed

end
