(* ===== verification/Service_Layers.thy ===== *)
theory Service_Layers
  imports Ton_Types
begin

text \<open>
  The layers of \<open>ton-tower\<close> around a client: the retry policy (\<open>service/retry\<close>), the timeout
  (\<open>service/timeout\<close>), the counter of requests in flight (\<open>service/metric.rs\<close>) and the
  conversion of errors (\<open>service/error.rs\<close>). The retry service and the retry budget of
  tower, the backoff of \<open>tokio_retry\<close> and the timer of tokio are parameters, with what the layers rely on as
  \<open>tower_retry_laws\<close>, \<open>backoff_laws\<close> and \<open>timer_laws\<close>. Durations and instants are natural numbers of
  milliseconds.
\<close>

section \<open>The retry policy\<close>

record ('b, 'k) retry_ops =
  budget_deposit :: "'b \<Rightarrow> 'b"
  budget_withdraw :: "'b \<Rightarrow> bool \<times> 'b"
  backoff_next :: "'k \<Rightarrow> nat option \<times> 'k"
  jitter :: "nat \<Rightarrow> nat"

record ('b, 'k) RetryPolicy =
  rp_budget :: 'b
  rp_backoff :: 'k

fun is_retryable :: "request \<Rightarrow> bool" where
  "is_retryable GetMasterchainInfo = True"
| "is_retryable Sync = True"
| "is_retryable (LookUpBlockBySeqno _ _ _) = True"
| "is_retryable (LookUpBlockByLt _ _ _) = True"
| "is_retryable (GetShards _) = True"
| "is_retryable (GetBlockHeader _) = True"
| "is_retryable (GetTransactionIds _ _ _ _) = True"
| "is_retryable (GetTransactions _ _ _ _) = True"
| "is_retryable (GetAccountState _) = True"
| "is_retryable (GetAccountStateOnBlock _ _) = True"
| "is_retryable (GetAccountStateByTransaction _ _) = True"
| "is_retryable (GetAccountTransactions _ _) = True"
| "is_retryable (GetShardAccountCell _) = True"
| "is_retryable (GetShardAccountCellOnBlock _ _) = True"
| "is_retryable (GetShardAccountCellByTransaction _ _) = True"
| "is_retryable (RunGetMethod _ _ _) = True"
| "is_retryable (SendMessage _) = False"
| "is_retryable (SendMessageReturningHash _) = False"

text \<open>
  \<open>retry\<close> returns the time to wait before the next attempt, or \<open>None\<close> to give the result back;
  \<open>unwrap\<close> panics if the backoff has come to its end.
\<close>

definition policy_retry ::
  "('b, 'k) retry_ops \<Rightarrow> request \<Rightarrow> 'e + 'a \<Rightarrow> ('b, 'k) RetryPolicy \<Rightarrow> nat option may_panic \<times> ('b, 'k) RetryPolicy" where
  "policy_retry ops req result policy =
     (if \<not> is_retryable req then (Inr None, policy)
      else (case result of
          Inr _ \<Rightarrow> (Inr None, policy\<lparr>rp_budget := budget_deposit ops (rp_budget policy)\<rparr>)
        | Inl _ \<Rightarrow>
            (case budget_withdraw ops (rp_budget policy) of
               (True, budget) \<Rightarrow>
                 (case backoff_next ops (rp_backoff policy) of
                    (Some millis, backoff) \<Rightarrow>
                      (Inr (Some (jitter ops millis)), \<lparr>rp_budget = budget, rp_backoff = backoff\<rparr>)
                  | (None, backoff) \<Rightarrow>
                      (Inl ''unwrap'', \<lparr>rp_budget = budget, rp_backoff = backoff\<rparr>))
             | (False, budget) \<Rightarrow> (Inr None, policy\<lparr>rp_budget := budget\<rparr>))))"

definition clone_request :: "request \<Rightarrow> request option" where
  "clone_request req = (if is_retryable req then Some req else None)"

definition backoff_laws :: "('b, 'k) retry_ops \<Rightarrow> bool" where
  "backoff_laws ops = (\<forall>k. fst (backoff_next ops k) \<noteq> None)"

text \<open>
  \<open>tower::retry::Retry\<close> around a service, as the trait \<open>Policy\<close> documents it: the request is cloned
  before it is passed on; without a clone the policy is not asked and the result is returned; otherwise the
  policy decides, and if it gives a delay the clone is passed on after it. Each call starts with a clone of
  the policy, whose budget all requests share: it is part of the state that \<open>call\<close> and \<open>wait\<close> transform,
  so that other requests may draw on it in between. \<open>None\<close> is a call that never returns.
\<close>

type_synonym ('s, 'e, 'a) service_call = "request \<Rightarrow> 's \<Rightarrow> ('e + 'a) \<times> 's"

definition tower_retry_laws ::
  "('b, 'k) retry_ops \<Rightarrow> ('b \<times> 's, 'e, 'a) service_call \<Rightarrow> (nat \<Rightarrow> 'b \<times> 's \<Rightarrow> 'b \<times> 's)
     \<Rightarrow> ('k \<Rightarrow> request \<Rightarrow> 'b \<times> 's \<Rightarrow> (('e + 'a) may_panic \<times> 'b \<times> 's) option) \<Rightarrow> bool" where
  "tower_retry_laws ops call wait tower \<longleftrightarrow> (\<forall>k req st. tower k req st =
     (case call req st of (result, b, s) \<Rightarrow>
        (case clone_request req of
           None \<Rightarrow> Some (Inr result, b, s)
         | Some req' \<Rightarrow>
             (case policy_retry ops req' result \<lparr>rp_budget = b, rp_backoff = k\<rparr> of
                (Inl msg, p) \<Rightarrow> Some (Inl msg, rp_budget p, s)
              | (Inr None, p) \<Rightarrow> Some (Inr result, rp_budget p, s)
              | (Inr (Some d), p) \<Rightarrow> tower (rp_backoff p) req' (wait d (rp_budget p, s))))))"

section \<open>The timeout\<close>

record 'z timer_ops =
  timer_sleep :: "nat \<Rightarrow> nat \<Rightarrow> 'z"
  timer_done :: "nat \<Rightarrow> 'z \<Rightarrow> bool"

definition timer_laws :: "'z timer_ops \<Rightarrow> bool" where
  "timer_laws tm = (\<forall>t d now. timer_done tm now (timer_sleep tm t d) \<longleftrightarrow> t + d \<le> now)"

text \<open>Every request type takes the default method, which gives no timeout of its own.\<close>

definition to_timeout :: "request \<Rightarrow> nat option" where
  "to_timeout req = None"

record 's Timeout =
  tmo_inner :: 's
  default_timeout :: nat

record ('g, 'z) timeout_future =
  tf_response :: 'g
  tf_sleep :: 'z

datatype 'e box_error = InnerBox 'e | Elapsed

definition timeout_poll_ready ::
  "('s \<Rightarrow> ('e + unit) poll \<times> 's) \<Rightarrow> 's Timeout \<Rightarrow> ('e box_error + unit) poll \<times> 's Timeout" where
  "timeout_poll_ready pr t =
     (case pr (tmo_inner t) of
        (Pending, s) \<Rightarrow> (Pending, t\<lparr>tmo_inner := s\<rparr>)
      | (Ready r, s) \<Rightarrow> (Ready (map_err InnerBox r), t\<lparr>tmo_inner := s\<rparr>))"

definition timeout_call ::
  "'z timer_ops \<Rightarrow> (request \<Rightarrow> 's \<Rightarrow> 'g \<times> 's) \<Rightarrow> nat \<Rightarrow> request \<Rightarrow> 's Timeout \<Rightarrow> ('g, 'z) timeout_future \<times> 's Timeout" where
  "timeout_call tm call now req t =
     (let timeout = (case to_timeout req of Some d \<Rightarrow> d | None \<Rightarrow> default_timeout t) in
      case call req (tmo_inner t) of
        (response, s) \<Rightarrow>
          (\<lparr>tf_response = response, tf_sleep = timer_sleep tm now timeout\<rparr>, t\<lparr>tmo_inner := s\<rparr>))"

definition timeout_load :: "('s \<Rightarrow> 'l) \<Rightarrow> 's Timeout \<Rightarrow> 'l" where
  "timeout_load load t = load (tmo_inner t)"

definition timeout_future_poll ::
  "'z timer_ops \<Rightarrow> (nat \<Rightarrow> 'g \<Rightarrow> ('e + 'a) poll \<times> 'g) \<Rightarrow> nat \<Rightarrow> ('g, 'z) timeout_future
     \<Rightarrow> ('e box_error + 'a) poll \<times> ('g, 'z) timeout_future" where
  "timeout_future_poll tm fpoll now fut =
     (case fpoll now (tf_response fut) of
        (Ready v, g) \<Rightarrow> (Ready (map_err InnerBox v), fut\<lparr>tf_response := g\<rparr>)
      | (Pending, g) \<Rightarrow>
          (if timer_done tm now (tf_sleep fut) then Ready (Inl Elapsed) else Pending, fut\<lparr>tf_response := g\<rparr>))"

text \<open>A task polls a future at a sequence of instants until it is ready.\<close>

fun poll_at :: "(nat \<Rightarrow> 'f \<Rightarrow> 'a poll \<times> 'f) \<Rightarrow> 'f \<Rightarrow> nat list \<Rightarrow> (nat \<times> 'a) option" where
  "poll_at fpoll fut [] = None"
| "poll_at fpoll fut (t # ts) =
     (case fpoll t fut of
        (Ready v, _) \<Rightarrow> Some (t, v)
      | (Pending, fut') \<Rightarrow> poll_at fpoll fut' ts)"

section \<open>Requests in flight\<close>

text \<open>
  The service and its futures share one atomic counter: \<open>cm_inflight\<close>. \<open>fetch_add\<close> and
  \<open>fetch_sub\<close> wrap. \<open>cm_futures\<close> are the futures that are not dropped yet.
\<close>

record ('s, 'g) ConcurrencyMetric =
  cm_inner :: 's
  cm_inflight :: i32
  cm_futures :: "'g list"

definition metric_new :: "'s \<Rightarrow> ('s, 'g) ConcurrencyMetric" where
  "metric_new inner = \<lparr>cm_inner = inner, cm_inflight = 0, cm_futures = []\<rparr>"

definition metric_call ::
  "('r \<Rightarrow> 's \<Rightarrow> 'g \<times> 's) \<Rightarrow> 'r \<Rightarrow> ('s, 'g) ConcurrencyMetric \<Rightarrow> ('s, 'g) ConcurrencyMetric" where
  "metric_call call req cm =
     (case call req (cm_inner cm) of
        (future, s) \<Rightarrow>
          \<lparr>cm_inner = s, cm_inflight = wrap_i32 (cm_inflight cm + 1), cm_futures = cm_futures cm @ [future]\<rparr>)"

definition metric_future_poll ::
  "('g \<Rightarrow> 'a poll \<times> 'g) \<Rightarrow> nat \<Rightarrow> ('s, 'g) ConcurrencyMetric \<Rightarrow> 'a poll \<times> ('s, 'g) ConcurrencyMetric" where
  "metric_future_poll fpoll i cm =
     (case fpoll (cm_futures cm ! i) of (p, g) \<Rightarrow> (p, cm\<lparr>cm_futures := (cm_futures cm)[i := g]\<rparr>))"

definition metric_drop :: "nat \<Rightarrow> ('s, 'g) ConcurrencyMetric \<Rightarrow> ('s, 'g) ConcurrencyMetric" where
  "metric_drop i cm =
     cm\<lparr>cm_inflight := wrap_i32 (cm_inflight cm - 1),
       cm_futures := take i (cm_futures cm) @ drop (Suc i) (cm_futures cm)\<rparr>"

definition metric_load :: "('s, 'g) ConcurrencyMetric \<Rightarrow> i32" where
  "metric_load cm = cm_inflight cm"

datatype 'r metric_event = MetricCall 'r | MetricPoll nat | MetricDrop nat

fun metric_run ::
  "('r \<Rightarrow> 's \<Rightarrow> 'g \<times> 's) \<Rightarrow> ('g \<Rightarrow> 'a poll \<times> 'g) \<Rightarrow> 'r metric_event list \<Rightarrow> ('s, 'g) ConcurrencyMetric
     \<Rightarrow> ('s, 'g) ConcurrencyMetric" where
  "metric_run call fpoll [] cm = cm"
| "metric_run call fpoll (MetricCall req # evs) cm = metric_run call fpoll evs (metric_call call req cm)"
| "metric_run call fpoll (MetricPoll i # evs) cm =
     metric_run call fpoll evs (if i < length (cm_futures cm) then snd (metric_future_poll fpoll i cm) else cm)"
| "metric_run call fpoll (MetricDrop i # evs) cm =
     metric_run call fpoll evs (if i < length (cm_futures cm) then metric_drop i cm else cm)"

section \<open>Error conversion\<close>

datatype ('a, 'b) service_error = Custom 'a | Tower 'b

definition error_poll_ready ::
  "('e \<Rightarrow> ('a, 'b) service_error) \<Rightarrow> (('a, 'b) service_error \<Rightarrow> anyhow) \<Rightarrow> ('s \<Rightarrow> ('e + unit) poll \<times> 's)
     \<Rightarrow> 's \<Rightarrow> (anyhow + unit) poll \<times> 's" where
  "error_poll_ready into report pr s =
     (case pr s of
        (Ready r, s') \<Rightarrow> (Ready (map_err (\<lambda>e. report (into e)) r), s')
      | (Pending, s') \<Rightarrow> (Pending, s'))"

definition error_future_poll ::
  "('e \<Rightarrow> ('a, 'b) service_error) \<Rightarrow> (('a, 'b) service_error \<Rightarrow> anyhow) \<Rightarrow> (nat \<Rightarrow> 'g \<Rightarrow> ('e + 'r) poll \<times> 'g)
     \<Rightarrow> nat \<Rightarrow> 'g \<Rightarrow> (anyhow + 'r) poll \<times> 'g" where
  "error_future_poll into report fpoll now g =
     (case fpoll now g of
        (Ready r, g') \<Rightarrow> (Ready (map_err (\<lambda>e. report (into e)) r), g')
      | (Pending, g') \<Rightarrow> (Pending, g'))"

section \<open>Lemmas\<close>

lemma is_retryable_iff: "is_retryable req \<longleftrightarrow> (\<forall>body. req \<noteq> SendMessage body \<and> req \<noteq> SendMessageReturningHash body)"
  by (cases req) simp_all

lemma wrap_i32_add: "wrap_i32 (wrap_i32 a + b) = wrap_i32 (a + b)"
  by (simp add: wrap_i32_def)

lemma wrap_i32_sub: "wrap_i32 (wrap_i32 a - b) = wrap_i32 (a - b)"
  by (simp add: wrap_i32_def)

definition inflight_ok :: "('s, 'g) ConcurrencyMetric \<Rightarrow> bool" where
  "inflight_ok cm = (cm_inflight cm = wrap_i32 (int (length (cm_futures cm))))"

lemma metric_call_ok: "inflight_ok cm \<Longrightarrow> inflight_ok (metric_call call req cm)"
  by (simp add: inflight_ok_def metric_call_def wrap_i32_add add.commute [of "1 :: int"] split: prod.splits)

lemma metric_poll_ok: "inflight_ok cm \<Longrightarrow> inflight_ok (snd (metric_future_poll fpoll i cm))"
  by (simp add: inflight_ok_def metric_future_poll_def split: prod.splits)

lemma metric_drop_ok: "inflight_ok cm \<Longrightarrow> i < length (cm_futures cm) \<Longrightarrow> inflight_ok (metric_drop i cm)"
  by (simp add: inflight_ok_def metric_drop_def wrap_i32_sub of_nat_diff)

lemma metric_run_ok: "inflight_ok cm \<Longrightarrow> inflight_ok (metric_run call fpoll evs cm)"
  by (induction call fpoll evs cm rule: metric_run.induct)
    (simp_all add: metric_call_ok metric_poll_ok metric_drop_ok)

lemma poll_at_find:
  assumes "\<And>t. fpoll t fut = (if ready t then Ready (v t) else Pending, fut)"
  shows "poll_at fpoll fut ts = map_option (\<lambda>t. (t, v t)) (List.find ready ts)"
  by (induction ts) (simp_all add: assms)

text \<open>
  The backoff and the state before attempt \<open>n\<close> of a request whose earlier attempts all failed and were
  granted another one; an attempt settles the request if it succeeds or the budget is spent.
\<close>

primrec before_attempt ::
  "('b, 'k) retry_ops \<Rightarrow> ('b \<times> 's, 'e, 'a) service_call \<Rightarrow> (nat \<Rightarrow> 'b \<times> 's \<Rightarrow> 'b \<times> 's) \<Rightarrow> request
     \<Rightarrow> 'k \<times> 'b \<times> 's \<Rightarrow> nat \<Rightarrow> 'k \<times> 'b \<times> 's" where
  "before_attempt ops call wait req st 0 = st"
| "before_attempt ops call wait req st (Suc n) =
     (case before_attempt ops call wait req st n of (k, st') \<Rightarrow>
        (case call req st' of (_, b, s) \<Rightarrow>
          (case backoff_next ops k of (d, k') \<Rightarrow>
            (k', wait (jitter ops (the d)) (snd (budget_withdraw ops b), s)))))"

definition settles :: "('b, 'k) retry_ops \<Rightarrow> ('e + 'a) \<times> 'b \<times> 's \<Rightarrow> bool" where
  "settles ops answer = (case answer of
       (Inr _, _) \<Rightarrow> True
     | (Inl _, b, _) \<Rightarrow> \<not> fst (budget_withdraw ops b))"

definition settled ::
  "('b, 'k) retry_ops \<Rightarrow> ('e + 'a) \<times> 'b \<times> 's \<Rightarrow> ('e + 'a) \<times> 'b \<times> 's" where
  "settled ops answer = (case answer of
       (Inr x, b, s) \<Rightarrow> (Inr x, budget_deposit ops b, s)
     | (Inl e, b, s) \<Rightarrow> (Inl e, snd (budget_withdraw ops b), s))"

lemma before_attempt_shift:
  "before_attempt ops call wait req st (Suc n)
     = before_attempt ops call wait req (before_attempt ops call wait req st 1) n"
  by (induction n) simp_all

lemma tower_settles:
  assumes "tower_retry_laws ops call wait tower" "is_retryable req" "settles ops (call req st)"
  shows "tower k req st = Some (map_prod Inr (\<lambda>x. x) (settled ops (call req st)))"
proof -
  obtain r b s where "call req st = (r, b, s)" by (cases "call req st")
  with assms show ?thesis
    unfolding assms(1) [unfolded tower_retry_laws_def, rule_format, of k req st]
    by (cases r; cases "budget_withdraw ops b")
      (auto simp: clone_request_def policy_retry_def settles_def settled_def)
qed

lemma tower_goes_on:
  assumes "tower_retry_laws ops call wait tower" "backoff_laws ops" "is_retryable req" "\<not> settles ops (call req st)"
  shows "tower k req st = (case before_attempt ops call wait req (k, st) 1 of (k', st') \<Rightarrow> tower k' req st')"
proof -
  obtain e b s where failed: "call req st = (Inl e, b, s)" "fst (budget_withdraw ops b)"
    using assms(4) by (cases "call req st") (auto simp: settles_def split: sum.splits)
  obtain d k' where "backoff_next ops k = (Some d, k')"
    using assms(2) unfolding backoff_laws_def by (metis eq_fst_iff not_Some_eq)
  with failed assms(3) show ?thesis
    unfolding assms(1) [unfolded tower_retry_laws_def, rule_format, of k req st]
    by (cases "budget_withdraw ops b") (auto simp: clone_request_def policy_retry_def)
qed

lemma tower_attempts:
  assumes "tower_retry_laws ops call wait tower" "backoff_laws ops" "is_retryable req"
    and "\<forall>i < n. \<not> settles ops (call req (snd (before_attempt ops call wait req (k, st) i)))"
    and "settles ops (call req (snd (before_attempt ops call wait req (k, st) n)))"
  shows "tower k req st
    = Some (map_prod Inr (\<lambda>x. x) (settled ops (call req (snd (before_attempt ops call wait req (k, st) n)))))"
  using assms(4,5)
proof (induction n arbitrary: k st)
  case 0
  then show ?case using tower_settles [OF assms(1,3)] by simp
next
  case (Suc n)
  obtain k' st' where next_try: "before_attempt ops call wait req (k, st) 1 = (k', st')"
    by (cases "before_attempt ops call wait req (k, st) 1")
  have "before_attempt ops call wait req (k, st) (Suc i) = before_attempt ops call wait req (k', st') i" for i
    using before_attempt_shift [of ops call wait req "(k, st)" i] next_try by simp
  with Suc have "tower k' req st'
      = Some (map_prod Inr (\<lambda>x. x) (settled ops (call req (snd (before_attempt ops call wait req (k, st) (Suc n))))))"
    by (metis Suc_less_eq)
  moreover have "\<not> settles ops (call req st)" using Suc.prems(1) by force
  ultimately show ?case using tower_goes_on [OF assms(1-3)] next_try by simp
qed

section \<open>Properties\<close>

text \<open>
  C12. How often a request reaches the service behind the retry layer. A request that sends a message reaches it
  exactly once, whatever comes back, and its result is returned with the budget as the service left it. Every
  other request is passed on again as long as it fails and the budget grants another attempt, after the delay
  that the backoff has for it: if some attempt \<open>m\<close> (from 0) would succeed or find the budget spent, the
  call returns the result of the first such attempt, after one call of the service for each attempt up to it, a
  success having paid into the budget. It does not panic, since the backoff has no end.
\<close>

theorem retry_attempts:
  assumes "tower_retry_laws ops call wait tower" "backoff_laws ops"
  shows "if \<exists>body. req \<in> {SendMessage body, SendMessageReturningHash body}
    then tower k req st = Some (map_prod Inr (\<lambda>x. x) (call req st))
    else (\<forall>m. settles ops (call req (snd (before_attempt ops call wait req (k, st) m))) \<longrightarrow>
      (\<exists>n \<le> m. (\<forall>i < n. \<not> settles ops (call req (snd (before_attempt ops call wait req (k, st) i))))
        \<and> settles ops (call req (snd (before_attempt ops call wait req (k, st) n)))
        \<and> tower k req st = Some (map_prod Inr (\<lambda>x. x)
            (settled ops (call req (snd (before_attempt ops call wait req (k, st) n)))))))"
proof (cases "is_retryable req")
  case True
  let ?settles = "\<lambda>n. settles ops (call req (snd (before_attempt ops call wait req (k, st) n)))"
  have "\<exists>n \<le> m. (\<forall>i < n. \<not> ?settles i) \<and> ?settles n \<and> tower k req st = Some (map_prod Inr (\<lambda>x. x)
      (settled ops (call req (snd (before_attempt ops call wait req (k, st) n)))))" if "?settles m" for m
  proof -
    obtain n where "n \<le> m" "\<forall>i < n. \<not> ?settles i" "?settles n"
      using ex_least_nat_le [of ?settles m] \<open>?settles m\<close> by auto
    with tower_attempts [OF assms True] show ?thesis by blast
  qed
  then show ?thesis using True by (auto simp: is_retryable_iff)
next
  case False
  then have "\<exists>body. req \<in> {SendMessage body, SendMessageReturningHash body}" by (auto simp: is_retryable_iff)
  with False show ?thesis
    unfolding assms(1) [unfolded tower_retry_laws_def, rule_format, of k req st]
    by (simp add: clone_request_def split: prod.split)
qed

text \<open>
  An instance of the retry service to evaluate with, around a service that counts its calls and fails the
  first two times, and a budget without time.
\<close>

partial_function (option) demo_tower ::
  "('b, 'k) retry_ops \<Rightarrow> ('b \<times> 's, 'e, 'a) service_call \<Rightarrow> (nat \<Rightarrow> 'b \<times> 's \<Rightarrow> 'b \<times> 's)
     \<Rightarrow> 'k \<Rightarrow> request \<Rightarrow> 'b \<times> 's \<Rightarrow> (('e + 'a) may_panic \<times> 'b \<times> 's) option" where
  "demo_tower ops call wait k req st =
     (case call req st of (result, b, s) \<Rightarrow>
        (case clone_request req of
           None \<Rightarrow> Some (Inr result, b, s)
         | Some req' \<Rightarrow>
             (case policy_retry ops req' result \<lparr>rp_budget = b, rp_backoff = k\<rparr> of
                (Inl msg, p) \<Rightarrow> Some (Inl msg, rp_budget p, s)
              | (Inr None, p) \<Rightarrow> Some (Inr result, rp_budget p, s)
              | (Inr (Some d), p) \<Rightarrow> demo_tower ops call wait (rp_backoff p) req' (wait d (rp_budget p, s)))))"

lemma demo_tower_laws: "tower_retry_laws ops call wait (demo_tower ops call wait)"
  unfolding tower_retry_laws_def by (intro allI) (rule demo_tower.simps)

definition demo_retry :: "(nat, nat) retry_ops" where
  "demo_retry = \<lparr>budget_deposit = Suc, budget_withdraw = (\<lambda>b. (0 < b, b - 1)),
     backoff_next = (\<lambda>k. (Some k, 2 * k)), jitter = (\<lambda>d. d)\<rparr>"

definition demo_call :: "(nat \<times> nat \<times> nat, string, unit) service_call" where
  "demo_call req st = (case st of (b, calls, now) \<Rightarrow>
     (if calls < 2 then Inl ''timeout'' else Inr (), b, Suc calls, now))"

definition demo_wait :: "nat \<Rightarrow> nat \<times> nat \<times> nat \<Rightarrow> nat \<times> nat \<times> nat" where
  "demo_wait d st = (case st of (b, calls, now) \<Rightarrow> (b, calls, now + d))"

theorem retry_attempts_witness:
  "demo_tower demo_retry demo_call demo_wait 128 (SendMessage ''boc'') (5, 0, 0) = Some (Inr (Inl ''timeout''), 5, 1, 0)
   \<and> demo_tower demo_retry demo_call demo_wait 128 GetMasterchainInfo (5, 0, 0) = Some (Inr (Inr ()), 4, 3, 384)"
proof
  have laws: "backoff_laws demo_retry" by (simp add: backoff_laws_def demo_retry_def)
  note attempts = retry_attempts [OF demo_tower_laws [of demo_retry demo_call demo_wait] laws]
  show "demo_tower demo_retry demo_call demo_wait 128 (SendMessage ''boc'') (5, 0, 0) = Some (Inr (Inl ''timeout''), 5, 1, 0)"
    using attempts [of "SendMessage ''boc''" 128 "(5, 0, 0)"] by (simp add: demo_call_def)
  let ?at = "before_attempt demo_retry demo_call demo_wait GetMasterchainInfo (128, 5, 0, 0)"
  have at: "?at 0 = (128, 5, 0, 0)" "?at 1 = (256, 4, 1, 128)" "?at 2 = (512, 3, 2, 384)"
    by (simp_all add: numeral_2_eq_2 demo_call_def demo_wait_def demo_retry_def)
  have outcome: "settles demo_retry (demo_call GetMasterchainInfo (snd (?at 2)))"
    "\<not> settles demo_retry (demo_call GetMasterchainInfo (snd (?at 1)))"
    "\<not> settles demo_retry (demo_call GetMasterchainInfo (snd (?at 0)))"
    unfolding at by (simp_all add: settles_def demo_call_def demo_retry_def)
  then obtain n where "n \<le> 2" and n: "demo_tower demo_retry demo_call demo_wait 128 GetMasterchainInfo (5, 0, 0)
      = Some (map_prod Inr (\<lambda>x. x) (settled demo_retry (demo_call GetMasterchainInfo (snd (?at n)))))"
    "settles demo_retry (demo_call GetMasterchainInfo (snd (?at n)))"
    using attempts [of GetMasterchainInfo 128 "(5, 0, 0)"] by simp blast
  have "n = 2" using \<open>n \<le> 2\<close> n(2) outcome(2,3) by (cases n rule: nat.exhaust) (auto simp: le_Suc_eq numeral_2_eq_2)
  with n(1) at(3) show "demo_tower demo_retry demo_call demo_wait 128 GetMasterchainInfo (5, 0, 0) = Some (Inr (Inr ()), 4, 3, 384)"
    by (simp add: settled_def demo_call_def demo_retry_def)
qed

text \<open>
  A request through the timeout and the error layer is answered by the first of two events. If the
  response is there from instant \<open>r\<close> on, the future is ready at the first poll not before \<open>r\<close>
  or the deadline, with the response if it is there at that poll and with \<open>Elapsed\<close> otherwise.
\<close>

lemma timeout_first_event:
  assumes "timer_laws tm" and "timeout_call tm call t0 req t = (fut, t')"
    and "\<forall>now. fpoll now (tf_response fut) = (if r \<le> now then Ready v else Pending, tf_response fut)"
  shows "poll_at (error_future_poll into report (timeout_future_poll tm fpoll)) fut ts
    = map_option (\<lambda>now. (now, map_err (\<lambda>e. report (into e)) (if r \<le> now then map_err InnerBox v else Inl Elapsed)))
        (List.find (\<lambda>now. r \<le> now \<or> t0 + default_timeout t \<le> now) ts)"
proof (rule poll_at_find)
  fix now
  have "timer_done tm now (tf_sleep fut) \<longleftrightarrow> t0 + default_timeout t \<le> now"
    using assms(1,2) by (auto simp: timer_laws_def timeout_call_def to_timeout_def split: prod.splits)
  then show "error_future_poll into report (timeout_future_poll tm fpoll) now fut
      = (if r \<le> now \<or> t0 + default_timeout t \<le> now
         then Ready (map_err (\<lambda>e. report (into e)) (if r \<le> now then map_err InnerBox v else Inl Elapsed))
         else Pending, fut)"
    by (simp add: error_future_poll_def timeout_future_poll_def assms(3))
qed

definition demo_timer :: "nat timer_ops" where
  "demo_timer = \<lparr>timer_sleep = (\<lambda>t d. t + d), timer_done = (\<lambda>now z. z \<le> now)\<rparr>"

text \<open>
  The load of a client is the number of its requests in flight: after any sequence of calls, polls and
  drops the counter equals the number of response futures that are alive, reduced to the range of
  \<open>i32\<close>, and equals it exactly while there are fewer than \<open>2\<^sup>31\<close> of them.
\<close>

lemma load_counts_inflight:
  "metric_load (metric_run call fpoll evs (metric_new inner))
     = wrap_i32 (int (length (cm_futures (metric_run call fpoll evs (metric_new inner)))))
   \<and> (length (cm_futures (metric_run call fpoll evs (metric_new inner))) < 2 ^ 31 \<longrightarrow>
     metric_load (metric_run call fpoll evs (metric_new inner))
       = int (length (cm_futures (metric_run call fpoll evs (metric_new inner)))))"
proof -
  let ?cm = "metric_run call fpoll evs (metric_new inner)"
  have "inflight_ok (metric_new inner)" by (simp add: inflight_ok_def metric_new_def wrap_i32_def)
  then have "metric_load ?cm = wrap_i32 (int (length (cm_futures ?cm)))"
    using metric_run_ok by (auto simp: metric_load_def inflight_ok_def)
  then show ?thesis by (simp add: wrap_i32_id i32_range_def)
qed

end
