(* ===== verification/Pool_Discover.thy ===== *)
theory Pool_Discover
  imports Routing
begin

text \<open>
  The discovery of liteservers: \<open>pool/discover.rs\<close> of \<open>ton-client\<close> turns a stream of
  configurations into changes of the pool, and the data it works on is that of \<open>ton-config\<close>. A
  \<open>HashSet\<close> is a list without repetitions; \<open>visit\<close> is the order in which an iteration of a set
  visits its elements, any permutation (\<open>hash_order\<close>). The channel to the pool accepts
  \<open>ch_room\<close> more changes before the receiver is gone, or any number of them if it is \<open>None\<close>.
\<close>

section \<open>Configurations\<close>

record LiteServerId =
  ls_key :: string

record SocketAddrV4 =
  sa_ip :: u32
  sa_port :: u16

record LiteServer =
  ls_id :: LiteServerId
  ls_addr :: SocketAddrV4

text \<open>\<open>cfg_data\<close> stands for the other members of the JSON object, kept as they are.\<close>

record 'v TonConfig =
  liteservers :: "LiteServer list"
  cfg_data :: 'v

definition with_liteserver :: "'v TonConfig \<Rightarrow> LiteServer \<Rightarrow> 'v TonConfig" where
  "with_liteserver config liteserver = \<lparr>liteservers = [liteserver], cfg_data = cfg_data config\<rparr>"

text \<open>The address goes over the wire as a signed integer.\<close>

record LiteServerWire =
  wire_id :: LiteServerId
  wire_ip :: i32
  wire_port :: u16

definition liteserver_serialize :: "LiteServer \<Rightarrow> LiteServerWire" where
  "liteserver_serialize ls =
     \<lparr>wire_id = ls_id ls, wire_ip = sint (sa_ip (ls_addr ls)), wire_port = sa_port (ls_addr ls)\<rparr>"

definition liteserver_deserialize :: "LiteServerWire \<Rightarrow> LiteServer" where
  "liteserver_deserialize wire =
     \<lparr>ls_id = wire_id wire, ls_addr = \<lparr>sa_ip = word_of_int (wire_ip wire), sa_port = wire_port wire\<rparr>\<rparr>"

lemma liteserver_wire_roundtrip: "liteserver_deserialize (liteserver_serialize ls) = ls"
  by (simp add: liteserver_deserialize_def liteserver_serialize_def)

section \<open>The discovery actor\<close>

datatype discover_error = InitialConfig anyhow | ChannelClosed | ActorJoin string

type_synonym 'v ls_change = "(LiteServerId, 'v TonConfig, discover_error) change"

record 'v channel =
  ch_sent :: "'v ls_change list"
  ch_room :: "nat option"

definition ch_send :: "'v ls_change \<Rightarrow> 'v channel \<Rightarrow> (discover_error + unit) \<times> 'v channel" where
  "ch_send change tx =
     (case ch_room tx of
        None \<Rightarrow> (Inr (), tx\<lparr>ch_sent := ch_sent tx @ [change]\<rparr>)
      | Some 0 \<Rightarrow> (Inl ChannelClosed, tx)
      | Some (Suc n) \<Rightarrow> (Inr (), \<lparr>ch_sent = ch_sent tx @ [change], ch_room = Some n\<rparr>))"

fun ch_send_all :: "'v ls_change list \<Rightarrow> 'v channel \<Rightarrow> (discover_error + unit) \<times> 'v channel" where
  "ch_send_all [] tx = (Inr (), tx)"
| "ch_send_all (c # cs) tx =
     (case ch_send c tx of
        (Inl e, tx') \<Rightarrow> (Inl e, tx')
      | (Inr _, tx') \<Rightarrow> ch_send_all cs tx')"

definition set_difference :: "'a list \<Rightarrow> 'a list \<Rightarrow> 'a list" where
  "set_difference xs ys = filter (\<lambda>x. x \<notin> set ys) xs"

definition tick_removes ::
  "(LiteServer list \<Rightarrow> LiteServer list) \<Rightarrow> LiteServer list \<Rightarrow> LiteServer list \<Rightarrow> 'v ls_change list" where
  "tick_removes visit state new = map (\<lambda>ls. Remove (ls_id ls)) (visit (set_difference state new))"

definition tick_inserts ::
  "(LiteServer list \<Rightarrow> LiteServer list) \<Rightarrow> 'v TonConfig \<Rightarrow> LiteServer list \<Rightarrow> LiteServer list \<Rightarrow> 'v ls_change list" where
  "tick_inserts visit config state new =
     map (\<lambda>ls. Insert (ls_id ls) (with_liteserver config ls)) (visit (set_difference new state))"

fun discover_run ::
  "(LiteServer list \<Rightarrow> LiteServer list) \<Rightarrow> (anyhow + 'v TonConfig) list \<Rightarrow> LiteServer list option \<Rightarrow> 'v channel
     \<Rightarrow> (discover_error + unit) \<times> 'v channel" where
  "discover_run visit [] state tx = (Inr (), tx)"
| "discover_run visit (Inl e # items) state tx =
     (if state = None then (Inl (InitialConfig e), tx) else discover_run visit items state tx)"
| "discover_run visit (Inr config # items) state tx =
     (let liteserver_new = remdups (liteservers config);
          state' = (case state of None \<Rightarrow> [] | Some s \<Rightarrow> s) in
      case ch_send_all (tick_removes visit state' liteserver_new) tx of
        (Inl e, tx') \<Rightarrow> (Inl e, tx')
      | (Inr _, tx') \<Rightarrow>
          (case ch_send_all (tick_inserts visit config state' liteserver_new) tx' of
             (Inl e, tx'') \<Rightarrow> (Inl e, tx'')
           | (Inr _, tx'') \<Rightarrow> discover_run visit items (Some liteserver_new) tx''))"

section \<open>The stream of changes\<close>

text \<open>
  The handle of the actor: the changes in the channel, whether the actor has dropped its sender, and what
  the task returned once it is over (\<open>Inl\<close> for a task that panicked or was aborted).
\<close>

record 'v discover_handle =
  dh_queue :: "'v ls_change list"
  dh_closed :: bool
  dh_join :: "(string + (discover_error + unit)) option"
  dh_finished :: bool

definition poll_next ::
  "'v discover_handle \<Rightarrow> (discover_error + 'v ls_change) option poll \<times> 'v discover_handle" where
  "poll_next h =
     (if dh_finished h then (Ready None, h)
      else (case dh_queue h of
          c # cs \<Rightarrow> (Ready (Some (Inr c)), h\<lparr>dh_queue := cs\<rparr>)
        | [] \<Rightarrow>
            if \<not> dh_closed h then (Pending, h)
            else (case dh_join h of
                None \<Rightarrow> (Pending, h)
              | Some result \<Rightarrow>
                  (Ready (case result of
                       Inr (Inr _) \<Rightarrow> None
                     | Inr (Inl config_error) \<Rightarrow> Some (Inl config_error)
                     | Inl join_error \<Rightarrow> Some (Inl (ActorJoin join_error))),
                   h\<lparr>dh_finished := True\<rparr>))))"

text \<open>What the first \<open>n\<close> polls yield.\<close>

fun polls ::
  "nat \<Rightarrow> 'v discover_handle \<Rightarrow> (discover_error + 'v ls_change) option poll list" where
  "polls 0 h = []"
| "polls (Suc n) h = (case poll_next h of (p, h') \<Rightarrow> p # polls n h')"

text \<open>
  \<open>builder.rs\<close> makes the service of a new entry from its configuration; the end of the stream and its
  error are what the router's \<open>Discover\<close> sees.
\<close>

fun pool_change ::
  "('v TonConfig \<Rightarrow> 'c) \<Rightarrow> (discover_error + 'v ls_change) option \<Rightarrow> (LiteServerId, 'c, discover_error) change" where
  "pool_change mk None = DiscoverEnd"
| "pool_change mk (Some (Inl e)) = DiscoverError e"
| "pool_change mk (Some (Inr (Insert k config))) = Insert k (mk config)"
| "pool_change mk (Some (Inr (Remove k))) = Remove k"
| "pool_change mk (Some (Inr (DiscoverError e))) = DiscoverError e"
| "pool_change mk (Some (Inr DiscoverEnd)) = DiscoverEnd"

section \<open>Lemmas\<close>

definition hash_order :: "(LiteServer list \<Rightarrow> LiteServer list) \<Rightarrow> bool" where
  "hash_order visit = (\<forall>xs. mset (visit xs) = mset xs)"

lemma hash_order_set: "hash_order visit \<Longrightarrow> set (visit xs) = set xs"
  unfolding hash_order_def by (metis set_mset_mset)

lemma ch_send_all_open:
  "ch_room tx = None \<Longrightarrow> ch_send_all cs tx = (Inr (), tx\<lparr>ch_sent := ch_sent tx @ cs\<rparr>)"
  by (induction cs arbitrary: tx) (simp_all add: ch_send_def)

lemma fold_removes:
  "fold apply_change (map (\<lambda>x. Remove (key x)) xs) m k = (if k \<in> key ` set xs then None else m k)"
  by (induction xs arbitrary: m) auto

lemma fold_inserts_other:
  "k \<notin> key ` set xs \<Longrightarrow> fold apply_change (map (\<lambda>x. Insert (key x) (f x)) xs) m k = m k"
  by (induction xs arbitrary: m) auto

lemma fold_inserts:
  "inj_on key (set xs) \<Longrightarrow> x \<in> set xs \<Longrightarrow>
    fold apply_change (map (\<lambda>x. Insert (key x) (f x)) xs) m (key x) = Some (f x)"
proof (induction xs arbitrary: m)
  case (Cons y ys)
  show ?case
  proof (cases "x \<in> set ys")
    case True
    with Cons show ?thesis by simp
  next
    case False
    with Cons.prems have "x = y" "key x \<notin> key ` set ys" by (auto simp: inj_on_def)
    then show ?thesis by (simp add: fold_inserts_other)
  qed
qed simp

text \<open>
  What the pool has to look like after the configurations \<open>cs\<close> if the last one had the liteservers
  \<open>new\<close>: an entry for each of them, made from one of the configurations, and no other.
\<close>

definition pool_follows ::
  "('v TonConfig \<Rightarrow> 'c) \<Rightarrow> 'v TonConfig set \<Rightarrow> LiteServer set \<Rightarrow> (LiteServerId \<rightharpoonup> 'c) \<Rightarrow> bool" where
  "pool_follows mk cs new m \<longleftrightarrow>
     dom m = ls_id ` new \<and> (\<forall>ls \<in> new. \<exists>c \<in> cs. m (ls_id ls) = Some (mk (with_liteserver c ls)))"

lemma pool_follows_tick:
  assumes "pool_follows (\<lambda>c. c) cs (set state) m" and "hash_order visit"
    and "inj_on ls_id (set state)" and "inj_on ls_id (set new)" and "config \<in> cs"
  shows "pool_follows (\<lambda>c. c) cs (set new)
    (fold apply_change (tick_removes visit state new @ tick_inserts visit config state new) m)"
proof -
  let ?gone = "set state - set new" and ?fresh = "set new - set state"
  let ?m1 = "fold apply_change (tick_removes visit state new) m"
  let ?m2 = "fold apply_change (tick_inserts visit config state new) ?m1"
  have gone: "set (visit (set_difference state new)) = ?gone" and fresh: "set (visit (set_difference new state)) = ?fresh"
    using hash_order_set [OF assms(2)] by (auto simp: set_difference_def)
  have m1: "?m1 k = (if k \<in> ls_id ` ?gone then None else m k)" for k
    by (simp add: tick_removes_def fold_removes gone)
  have m2_fresh: "?m2 (ls_id ls) = Some (with_liteserver config ls)" if "ls \<in> ?fresh" for ls
    unfolding tick_inserts_def
    by (rule fold_inserts) (use fresh that inj_on_subset [OF assms(4)] in auto)
  have m2_other: "?m2 k = ?m1 k" if "k \<notin> ls_id ` ?fresh" for k
    unfolding tick_inserts_def by (rule fold_inserts_other) (use fresh that in auto)
  have kept: "?m2 (ls_id ls) = m (ls_id ls)" if "ls \<in> set new" "ls \<in> set state" for ls
  proof -
    have "ls_id ls \<notin> ls_id ` ?fresh" using that assms(4) by (auto simp: inj_on_def)
    moreover have "ls_id ls \<notin> ls_id ` ?gone" using that assms(3) by (auto simp: inj_on_def)
    ultimately show ?thesis using m2_other m1 by simp
  qed
  have "dom ?m2 = ls_id ` set new"
  proof (intro set_eqI iffI)
    fix k assume k: "k \<in> dom ?m2"
    show "k \<in> ls_id ` set new"
    proof (cases "k \<in> ls_id ` ?fresh")
      case False
      with k m2_other m1 have "k \<in> dom m" "k \<notin> ls_id ` ?gone" by (auto split: if_splits)
      with assms(1) show ?thesis by (auto simp: pool_follows_def)
    qed auto
  next
    fix k assume "k \<in> ls_id ` set new"
    then obtain ls where ls: "ls \<in> set new" "k = ls_id ls" by blast
    show "k \<in> dom ?m2"
      using ls m2_fresh [of ls] kept [of ls] assms(1) by (cases "ls \<in> set state") (auto simp: pool_follows_def)
  qed
  moreover have "\<exists>c \<in> cs. ?m2 (ls_id ls) = Some (with_liteserver c ls)" if "ls \<in> set new" for ls
    using that m2_fresh [of ls] kept [of ls] assms(1,5) by (cases "ls \<in> set state") (auto simp: pool_follows_def)
  ultimately show ?thesis by (simp add: pool_follows_def)
qed

fun latest_servers :: "LiteServer list \<Rightarrow> (anyhow + 'v TonConfig) list \<Rightarrow> LiteServer list" where
  "latest_servers new [] = new"
| "latest_servers new (Inl e # items) = latest_servers new items"
| "latest_servers new (Inr config # items) = latest_servers (liteservers config) items"

lemma latest_servers_remdups: "set (latest_servers (remdups new) items) = set (latest_servers new items)"
  by (induction new items rule: latest_servers.induct) auto

definition received :: "(anyhow + 'v TonConfig) list \<Rightarrow> 'v TonConfig set" where
  "received items = {config. Inr config \<in> set items}"

definition unique_ids :: "(anyhow + 'v TonConfig) list \<Rightarrow> bool" where
  "unique_ids items = (\<forall>config \<in> received items. inj_on ls_id (set (liteservers config)))"

lemma received_simps [simp]:
  "received [] = {}" "received (Inl e # items) = received items"
  "received (Inr config # items) = insert config (received items)"
  by (auto simp: received_def)

lemma pool_follows_mono: "pool_follows mk cs new m \<Longrightarrow> cs \<subseteq> cs' \<Longrightarrow> pool_follows mk cs' new m"
  unfolding pool_follows_def by blast

lemma tick_is_change:
  "c \<in> set (tick_removes visit state new @ tick_inserts visit config state new) \<Longrightarrow> is_change c"
  by (auto simp: tick_removes_def tick_inserts_def)

lemma discover_run_follows:
  assumes "hash_order visit" and "ch_room tx = None" and "unique_ids items"
    and "inj_on ls_id (set state)" and "\<forall>c \<in> set (ch_sent tx). is_change c"
    and "pool_follows (\<lambda>c. c) cs (set state) (fold apply_change (ch_sent tx) Map.empty)"
  shows "\<exists>tx'. discover_run visit items (Some state) tx = (Inr (), tx') \<and> (\<forall>c \<in> set (ch_sent tx'). is_change c)
    \<and> pool_follows (\<lambda>c. c) (cs \<union> received items) (set (latest_servers state items))
        (fold apply_change (ch_sent tx') Map.empty)"
  using assms
proof (induction items arbitrary: state tx cs)
  case (Cons item items)
  show ?case
  proof (cases item)
    case (Inl e)
    with Cons.prems Cons.IH [of tx state cs] show ?thesis by (auto simp: unique_ids_def)
  next
    case (Inr config)
    let ?new = "remdups (liteservers config)"
    let ?out = "tick_removes visit state ?new @ tick_inserts visit config state ?new"
    let ?tx = "tx\<lparr>ch_sent := ch_sent tx @ ?out\<rparr>"
    have uniq: "inj_on ls_id (set ?new)" "unique_ids items"
      using Cons.prems(3) Inr by (auto simp: unique_ids_def)
    have "pool_follows (\<lambda>c. c) (insert config cs) (set ?new) (fold apply_change (ch_sent ?tx) Map.empty)"
      using pool_follows_tick [OF pool_follows_mono [OF Cons.prems(6), of "insert config cs"] Cons.prems(1,4) uniq(1), of config]
      by auto
    moreover have "\<forall>c \<in> set (ch_sent ?tx). is_change c"
      using Cons.prems(5) tick_is_change [of _ visit state ?new config] by auto
    ultimately obtain tx' where tx': "discover_run visit items (Some ?new) ?tx = (Inr (), tx')"
        "\<forall>c \<in> set (ch_sent tx'). is_change c"
        "pool_follows (\<lambda>c. c) (insert config cs \<union> received items) (set (latest_servers ?new items))
          (fold apply_change (ch_sent tx') Map.empty)"
      using Cons.IH [of ?tx ?new "insert config cs"] Cons.prems(1,2) uniq by auto
    with latest_servers_remdups [of "liteservers config" items] show ?thesis
      using Cons.prems(2) Inr by (simp add: ch_send_all_open Let_def Un_insert_right)
  qed
qed auto

text \<open>A run that starts without a state is one that starts with no liteservers.\<close>

lemma discover_run_first: "discover_run visit (Inr config # items) None tx = discover_run visit (Inr config # items) (Some []) tx"
  by simp

lemma fold_pool_change:
  "fold apply_change (map (\<lambda>c. pool_change mk (Some (Inr c))) cs) (\<lambda>k. map_option mk (m k))
    = (\<lambda>k. map_option mk (fold apply_change cs m k))"
proof (induction cs arbitrary: m)
  case (Cons c cs)
  have "apply_change (pool_change mk (Some (Inr c))) (\<lambda>k. map_option mk (m k)) = (\<lambda>k. map_option mk (apply_change c m k))"
    by (cases c) auto
  with Cons show ?case by simp
qed simp

lemma pool_follows_map: "pool_follows (\<lambda>c. c) cs new m \<Longrightarrow> pool_follows mk cs new (\<lambda>k. map_option mk (m k))"
  unfolding pool_follows_def by (fastforce simp: dom_def)

lemma is_change_pool: "is_change c \<Longrightarrow> is_change (pool_change mk (Some (Inr c)))"
  by (cases c) auto

lemma polls_open:
  "dh_queue h = q \<Longrightarrow> \<not> dh_finished h \<Longrightarrow> \<not> dh_closed h \<Longrightarrow>
    polls (Suc (length q)) h = map (\<lambda>c. Ready (Some (Inr c))) q @ [Pending]"
  by (induction q arbitrary: h) (simp_all add: poll_next_def)

section \<open>Properties\<close>

text \<open>
  C5. The pool follows the configuration. If the first configuration can be read and no configuration
  lists an id twice, the actor goes on for ever however many of the later ones cannot be read, in whatever
  order the sets are visited; its handle yields every change and is then pending; and the router that
  takes these changes has one service for each liteserver of the latest configuration, made for that
  liteserver and from a configuration that was received, and no other service.
\<close>

theorem pool_follows_config:
  assumes "hash_order visit" and "unique_ids (Inr config # items)"
  shows "\<exists>tx sv. discover_run visit (Inr config # items) None \<lparr>ch_sent = [], ch_room = None\<rparr> = (Inr (), tx)
    \<and> polls (Suc (length (ch_sent tx))) \<lparr>dh_queue = ch_sent tx, dh_closed = False, dh_join = None, dh_finished = False\<rparr>
        = map (\<lambda>c. Ready (Some (Inr c))) (ch_sent tx) @ [Pending]
    \<and> update_pending_from_discover (map (\<lambda>c. pool_change mk (Some (Inr c))) (ch_sent tx)) [] = (Pending, [], sv)
    \<and> distinct (map fst sv)
    \<and> pool_follows mk (received (Inr config # items)) (set (latest_servers (liteservers config) items)) (map_of sv)"
proof -
  let ?items = "Inr config # items"
  obtain tx where tx: "discover_run visit ?items (Some []) \<lparr>ch_sent = [], ch_room = None\<rparr> = (Inr (), tx)"
      "\<forall>c \<in> set (ch_sent tx). is_change c"
      "pool_follows (\<lambda>c. c) (received ?items) (set (latest_servers [] ?items)) (fold apply_change (ch_sent tx) Map.empty)"
    using discover_run_follows [OF assms(1) _ assms(2), of "\<lparr>ch_sent = [], ch_room = None\<rparr>" "[]" "{}"]
    by (auto simp: pool_follows_def simp del: received_simps discover_run.simps)
  let ?ds = "map (\<lambda>c. pool_change mk (Some (Inr c))) (ch_sent tx)"
  obtain p rest sv where sv: "update_pending_from_discover ?ds [] = (p, rest, sv)"
    by (cases "update_pending_from_discover ?ds []") auto
  have "takeWhile is_change ?ds = ?ds" "dropWhile is_change ?ds = []"
    using tx(2) is_change_pool by (fastforce simp: takeWhile_eq_all_conv dropWhile_eq_Nil_conv)+
  with discover_replays [OF sv] have "map_of sv = fold apply_change ?ds (\<lambda>k. map_option mk (Map.empty k))"
    "p = Pending" "rest = []" "distinct (map fst sv)" by auto
  moreover have "polls (Suc (length (ch_sent tx)))
      \<lparr>dh_queue = ch_sent tx, dh_closed = False, dh_join = None, dh_finished = False\<rparr>
      = map (\<lambda>c. Ready (Some (Inr c))) (ch_sent tx) @ [Pending]"
    by (rule polls_open) simp_all
  ultimately show ?thesis
    using tx(1) sv pool_follows_map [OF tx(3), of mk] unfolding fold_pool_change discover_run_first by auto
qed

definition demo_ls :: "nat \<Rightarrow> LiteServer" where
  "demo_ls n = \<lparr>ls_id = \<lparr>ls_key = replicate n CHR ''k''\<rparr>, ls_addr = \<lparr>sa_ip = word_of_nat n, sa_port = 7\<rparr>\<rparr>"

lemma demo_ls_id [simp]: "ls_id (demo_ls m) = ls_id (demo_ls n) \<longleftrightarrow> m = n"
  by (auto simp: demo_ls_def dest: arg_cong [where f = length])

theorem pool_follows_config_witness:
  "\<exists>tx sv. discover_run rev [Inr \<lparr>liteservers = [demo_ls 1, demo_ls 2], cfg_data = ()\<rparr>, Inl ''io'',
        Inr \<lparr>liteservers = [demo_ls 2, demo_ls 3], cfg_data = ()\<rparr>] None \<lparr>ch_sent = [], ch_room = None\<rparr> = (Inr (), tx)
    \<and> update_pending_from_discover (map (\<lambda>c. pool_change liteservers (Some (Inr c))) (ch_sent tx)) [] = (Pending, [], sv)
    \<and> dom (map_of sv) = {ls_id (demo_ls 2), ls_id (demo_ls 3)}"
proof -
  let ?c = "\<lparr>liteservers = [demo_ls 1, demo_ls 2], cfg_data = ()\<rparr>"
    and ?rest = "[Inl ''io'', Inr \<lparr>liteservers = [demo_ls 2, demo_ls 3], cfg_data = ()\<rparr>]"
  have "hash_order rev" "unique_ids (Inr ?c # ?rest)"
    by (simp add: hash_order_def, auto simp: unique_ids_def)
  from pool_follows_config [OF this, of liteservers]
  show ?thesis unfolding pool_follows_def by (elim exE conjE) (intro exI conjI, assumption+, simp)
qed

text \<open>
  Without a first configuration there is no pool: the actor ends with the error of the first item, its
  handle yields that error once and ends, and the router answers its callers with it.
\<close>

lemma initial_config_error:
  "\<exists>tx. discover_run visit (Inl e # items) None \<lparr>ch_sent = [], ch_room = None\<rparr> = (Inl (InitialConfig e), tx)
    \<and> polls (Suc (Suc n)) \<lparr>dh_queue = ch_sent tx, dh_closed = True, dh_join = Some (Inr (Inl (InitialConfig e))),
          dh_finished = False\<rparr> = Ready (Some (Inl (InitialConfig e))) # replicate (Suc n) (Ready None)
    \<and> fst (router_poll_ready poll (router_new (map (pool_change mk) [Some (Inl (InitialConfig e)), None])))
        = Ready (Inl (InitialConfig e))"
proof -
  have ended: "polls n h = replicate n (Ready None)" if "dh_finished h" for n and h :: "'v discover_handle"
    using that by (induction n) (simp_all add: poll_next_def)
  show ?thesis
    by (simp add: poll_next_def ended router_poll_ready_def router_new_def)
qed

text \<open>
  Two liteservers with one id, of which the second is dropped from the configuration: the remaining one
  is lost from the pool, since the removal names the id only and a liteserver that stays is not inserted
  again.
\<close>

lemma shared_id_is_lost:
  fixes a b :: LiteServer
  assumes "ls_id a = ls_id b" and "a \<noteq> b"
  shows "snd (discover_run (\<lambda>xs. xs) [Inr \<lparr>liteservers = [a, b], cfg_data = d\<rparr>, Inr \<lparr>liteservers = [a], cfg_data = d\<rparr>]
      None \<lparr>ch_sent = [], ch_room = None\<rparr>)
    = \<lparr>ch_sent = [Insert (ls_id a) (with_liteserver \<lparr>liteservers = [a, b], cfg_data = d\<rparr> a),
         Insert (ls_id a) (with_liteserver \<lparr>liteservers = [a, b], cfg_data = d\<rparr> b), Remove (ls_id a)], ch_room = None\<rparr>"
  using assms by (simp add: ch_send_def tick_removes_def tick_inserts_def set_difference_def Let_def)

end
