(* ===== verification/Client_Streams.thy ===== *)
theory Client_Streams
  imports Binary_Search "HOL-Library.Multiset"
begin

text \<open>
  The streams of \<open>ton-client/src/client/client_ext.rs\<close>: the transactions of a block page by page,
  in both directions at once, and the transactions of an account, whole, between two bounds, and between
  two bounds in chunks. A stream is driven by \<open>run_stream\<close>: it asks the step of the unfold for the
  next page, hands the items of the page one by one to the consumer, and stops when the step ends or
  fails or when the consumer breaks off. It returns what the consumer yielded and how the stream ended;
  \<open>None\<close> means that it goes on for ever. Several streams that are polled together are interleavings of
  their items.
\<close>

section \<open>Driving a stream\<close>

type_synonym ('st, 's, 'a) unfold_step = "'st \<Rightarrow> ('s, ('a list \<times> 'st) option) io"

text \<open>A consumer yields some items for each item it takes, and goes on with a new state or breaks off.\<close>

type_synonym ('a, 'c, 'b) consumer = "'a \<Rightarrow> 'c \<Rightarrow> 'b list \<times> 'c option"

fun feed :: "('a, 'c, 'b) consumer \<Rightarrow> 'a list \<Rightarrow> 'c \<Rightarrow> 'b list \<times> 'c option" where
  "feed h [] c = ([], Some c)"
| "feed h (x # xs) c =
     (case h x c of
        (ys, None) \<Rightarrow> (ys, None)
      | (ys, Some c') \<Rightarrow> (case feed h xs c' of (zs, r) \<Rightarrow> (ys @ zs, r)))"

partial_function (option) run_stream ::
  "('st, 's, 'a) unfold_step \<Rightarrow> ('a, 'c, 'b) consumer \<Rightarrow> 'st \<Rightarrow> 'c \<Rightarrow> 's
     \<Rightarrow> (('b list \<times> (anyhow + unit)) \<times> 's) option" where
  "run_stream step h st c s =
     (case step st s of
        (Inl e, s') \<Rightarrow> Some (([], Inl e), s')
      | (Inr None, s') \<Rightarrow> Some (([], Inr ()), s')
      | (Inr (Some (page, st')), s') \<Rightarrow>
          (case feed h page c of
             (ys, None) \<Rightarrow> Some ((ys, Inr ()), s')
           | (ys, Some c') \<Rightarrow>
               Option.bind (run_stream step h st' c' s') (\<lambda>((zs, r), s''). Some ((ys @ zs, r), s''))))"

definition yield_all :: "('a, unit, 'a) consumer" where
  "yield_all x c = ([x], Some ())"

section \<open>The transactions of a block\<close>

definition get_shards :: "'s handlers \<Rightarrow> i32 \<Rightarrow> ('s, Shards) io" where
  "get_shards client master_seqno =
     bind_io (on_look_up_block_by_seqno client (-1) (- (2 ^ 63)) master_seqno) (\<lambda>block.
     bind_io (on_get_shards client block) (\<lambda>shards. ok_io \<lparr>shards_list = shards\<rparr>))"

record tx_page =
  pg_after :: "ShortTxId option"
  pg_incomplete :: bool
  pg_exp :: nat

definition first_page :: tx_page where
  "first_page = \<lparr>pg_after = None, pg_incomplete = True, pg_exp = 5\<rparr>"

definition last_opt :: "'a list \<Rightarrow> 'a option" where
  "last_opt xs = (if xs = [] then None else Some (last xs))"

definition block_tx_id_step ::
  "'s handlers \<Rightarrow> BlockIdExt \<Rightarrow> bool \<Rightarrow> (tx_page, 's, ShortTxId) unfold_step" where
  "block_tx_id_step client block reverse st =
     (if \<not> pg_incomplete st then ok_io None
      else bind_io (on_get_transaction_ids client block (pg_after st) reverse (2 ^ pg_exp st)) (\<lambda>txs.
        ok_io (Some (ids_transactions txs,
          \<lparr>pg_after = last_opt (ids_transactions txs), pg_incomplete = ids_incomplete txs,
            pg_exp = min 8 (pg_exp st + 1)\<rparr>))))"

definition get_block_tx_id_stream ::
  "'s handlers \<Rightarrow> BlockIdExt \<Rightarrow> bool \<Rightarrow> 's \<Rightarrow> ((ShortTxId list \<times> (anyhow + unit)) \<times> 's) option" where
  "get_block_tx_id_stream client block reverse =
     run_stream (block_tx_id_step client block reverse) yield_all first_page ()"

definition short_tx_id :: "Transaction \<Rightarrow> ShortTxId" where
  "short_tx_id t = \<lparr>short_account = tx_address t, short_lt = tx_lt (transaction_id t),
     short_hash = tx_hash (transaction_id t)\<rparr>"

definition block_tx_step ::
  "'s handlers \<Rightarrow> BlockIdExt \<Rightarrow> bool \<Rightarrow> (tx_page, 's, Transaction) unfold_step" where
  "block_tx_step client block reverse st =
     (if \<not> pg_incomplete st then ok_io None
      else bind_io (on_get_transactions client block (pg_after st) reverse (2 ^ pg_exp st)) (\<lambda>txs.
        ok_io (Some (ext_transactions txs,
          \<lparr>pg_after = map_option short_tx_id (last_opt (ext_transactions txs)),
            pg_incomplete = ext_incomplete txs, pg_exp = min 8 (pg_exp st + 1)\<rparr>))))"

definition get_block_tx_stream ::
  "'s handlers \<Rightarrow> BlockIdExt \<Rightarrow> bool \<Rightarrow> 's \<Rightarrow> ((Transaction list \<times> (anyhow + unit)) \<times> 's) option" where
  "get_block_tx_stream client block reverse =
     run_stream (block_tx_step client block reverse) yield_all first_page ()"

section \<open>Both directions at once\<close>

text \<open>
  \<open>stream_select!\<close> merges the two streams; each item carries the direction it came from and is an
  error or a transaction. The consumers keep the last item of each direction. They return what they
  yield and, at an error, the error.
\<close>

type_synonym 'k last_seen = "bool \<Rightarrow> 'k option"

fun tx_stream_unordered ::
  "(bool \<times> (anyhow + ShortTxId)) list \<Rightarrow> ShortTxId last_seen \<Rightarrow> ShortTxId list \<times> (anyhow + unit)" where
  "tx_stream_unordered [] seen = ([], Inr ())"
| "tx_stream_unordered ((key, Inl e) # items) seen = ([], Inl e)"
| "tx_stream_unordered ((key, Inr tx) # items) seen =
     (if seen (\<not> key) = Some tx then ([], Inr ())
      else (case tx_stream_unordered items (seen(key := Some tx)) of (ys, r) \<Rightarrow> (tx # ys, r)))"

fun accounts_stream ::
  "(bool \<times> (anyhow + ShortTxId)) list \<Rightarrow> SmartContractAddress last_seen
     \<Rightarrow> SmartContractAddress list \<times> (anyhow + unit)" where
  "accounts_stream [] seen = ([], Inr ())"
| "accounts_stream ((key, Inl e) # items) seen = ([], Inl e)"
| "accounts_stream ((key, Inr tx) # items) seen =
     (if seen (\<not> key) = Some (short_account tx) then ([], Inr ())
      else if seen key = Some (short_account tx) then accounts_stream items seen
      else (case accounts_stream items (seen(key := Some (short_account tx))) of
              (ys, r) \<Rightarrow> (short_account tx # ys, r)))"

definition get_block_tx_stream_unordered ::
  "(bool \<times> (anyhow + ShortTxId)) list \<Rightarrow> ShortTxId list \<times> (anyhow + unit)" where
  "get_block_tx_stream_unordered merged = tx_stream_unordered merged (\<lambda>_. None)"

definition get_accounts_in_block_stream ::
  "(bool \<times> (anyhow + ShortTxId)) list \<Rightarrow> SmartContractAddress list \<times> (anyhow + unit)" where
  "get_accounts_in_block_stream merged = accounts_stream merged (\<lambda>_. None)"

section \<open>The transactions of an account\<close>

record account_page =
  ap_next_id :: "TransactionId option"
  ap_next :: bool

definition account_tx_step ::
  "'s handlers \<Rightarrow> SmartContractAddress \<Rightarrow> (account_page, 's, Transaction) unfold_step" where
  "account_tx_step client address st =
     (if \<not> ap_next st then ok_io None
      else bind_io (case ap_next_id st of
          Some from_id \<Rightarrow> ok_io (Some from_id)
        | None \<Rightarrow> map_io last_transaction_id (on_get_account_state client address)) (\<lambda>next_id.
        case next_id of
          None \<Rightarrow> ok_io None
        | Some tx_id \<Rightarrow>
            bind_io (on_get_account_transactions client address tx_id) (\<lambda>txs.
              ok_io (Some (account_transactions txs,
                \<lparr>ap_next_id = previous_transaction_id txs,
                  ap_next = (previous_transaction_id txs \<noteq> None)\<rparr>)))))"

definition account_page_from :: "TransactionId option \<Rightarrow> account_page" where
  "account_page_from last_tx = \<lparr>ap_next_id = last_tx, ap_next = True\<rparr>"

definition get_account_tx_stream_from ::
  "'s handlers \<Rightarrow> SmartContractAddress \<Rightarrow> TransactionId option \<Rightarrow> 's
     \<Rightarrow> ((Transaction list \<times> (anyhow + unit)) \<times> 's) option" where
  "get_account_tx_stream_from client address last_tx =
     run_stream (account_tx_step client address) yield_all (account_page_from last_tx) ()"

definition get_account_tx_stream ::
  "'s handlers \<Rightarrow> SmartContractAddress \<Rightarrow> 's \<Rightarrow> ((Transaction list \<times> (anyhow + unit)) \<times> 's) option" where
  "get_account_tx_stream client address = get_account_tx_stream_from client address None"

section \<open>Pages\<close>

lemma feed_append:
  "feed h (xs @ ys) c = (case feed h xs c of
     (zs, None) \<Rightarrow> (zs, None)
   | (zs, Some c') \<Rightarrow> (case feed h ys c' of (ws, r) \<Rightarrow> (zs @ ws, r)))"
  by (induction h xs c rule: feed.induct) (auto split: option.splits prod.splits)

lemma feed_yield_all [simp]: "feed yield_all xs () = (xs, Some ())"
  by (induction xs) (simp_all add: yield_all_def)

text \<open>
  What a paged source promises: \<open>expects st rest\<close> says that in state \<open>st\<close> the items
  \<open>rest\<close> are still to come; a step ends when nothing is left and otherwise gives a page of them.
\<close>

locale paged_source =
  fixes step :: "('st, 's, 'a) unfold_step"
    and expects :: "'st \<Rightarrow> 'a list \<Rightarrow> bool"
    and pages :: "'st \<Rightarrow> 'a list \<Rightarrow> nat"
  assumes page: "expects st rest \<Longrightarrow>
    (rest = [] \<and> (\<exists>s'. step st s = (Inr None, s')))
    \<or> (\<exists>page rest' st' s'. step st s = (Inr (Some (page, st')), s') \<and> rest = page @ rest'
        \<and> expects st' rest' \<and> pages st' rest' < pages st rest)"
begin

lemma run_stream_pages:
  "expects st rest \<Longrightarrow> \<exists>s'. run_stream step h st c s = Some ((fst (feed h rest c), Inr ()), s')"
proof (induction "pages st rest" arbitrary: st rest c s rule: less_induct)
  case less
  from page [OF less.prems, of s] show ?case
  proof (elim disjE conjE exE)
    fix s' assume "rest = []" "step st s = (Inr None, s')"
    then show ?thesis by (subst run_stream.simps) simp
  next
    fix page rest' st' s'
    assume next_page: "step st s = (Inr (Some (page, st')), s')" "rest = page @ rest'" "expects st' rest'"
      "pages st' rest' < pages st rest"
    obtain ys r where fed: "feed h page c = (ys, r)" by (cases "feed h page c")
    show ?thesis
    proof (cases r)
      case None
      with next_page fed show ?thesis by (subst run_stream.simps) (simp add: feed_append)
    next
      case (Some c')
      obtain s'' where "run_stream step h st' c' s' = Some ((fst (feed h rest' c'), Inr ()), s'')"
        using less.hyps [OF next_page(4,3)] by blast
      with next_page fed Some show ?thesis
        by (subst run_stream.simps) (simp add: feed_append split: prod.splits)
    qed
  qed
qed

end

text \<open>What is left of a list after one of its elements.\<close>

fun rest_after :: "'k option \<Rightarrow> ('a \<Rightarrow> 'k) \<Rightarrow> 'a list \<Rightarrow> 'a list" where
  "rest_after None key xs = xs"
| "rest_after (Some k) key xs = tl (dropWhile (\<lambda>x. key x \<noteq> k) xs)"

lemma rest_after_last:
  assumes "distinct (map key xs)" and "xs = before @ page @ rest" and "page \<noteq> []"
  shows "rest_after (Some (key (last page))) key xs = rest"
proof -
  obtain ps p where page: "page = ps @ [p]" using assms(3) by (cases page rule: rev_cases) auto
  have "\<forall>x \<in> set (before @ ps). key x \<noteq> key p" using assms(1,2) page by (auto simp: image_iff)
  then have "dropWhile (\<lambda>x. key x \<noteq> key p) ((before @ ps) @ p # rest) = p # rest"
    by (subst dropWhile_append2) auto
  with assms(2) page show ?thesis by simp
qed

text \<open>
  A liteserver lists the items \<open>xs\<close> of a block: asked for at most \<open>n\<close> of them after a given
  one, it returns the next ones, at least one if there is any, and says whether more remain.
\<close>

definition lists_after ::
  "('k option \<Rightarrow> int \<Rightarrow> 's \<Rightarrow> (anyhow + 'p) \<times> 's) \<Rightarrow> ('p \<Rightarrow> 'a list) \<Rightarrow> ('p \<Rightarrow> bool) \<Rightarrow> ('a \<Rightarrow> 'k) \<Rightarrow> 'a list \<Rightarrow> bool" where
  "lists_after get items incomplete key xs \<longleftrightarrow>
     distinct (map key xs) \<and>
     (\<forall>k n s. (case k of None \<Rightarrow> True | Some k' \<Rightarrow> k' \<in> key ` set xs) \<longrightarrow> 0 < n \<longrightarrow>
        (\<exists>p s' m. get k n s = (Inr p, s') \<and> items p = take m (rest_after k key xs) \<and> int m \<le> n
          \<and> (incomplete p \<longleftrightarrow> m < length (rest_after k key xs)) \<and> (rest_after k key xs \<noteq> [] \<longrightarrow> 0 < m)))"

text \<open>The two steps for a block differ in the request and in the key of an item only.\<close>

definition page_step ::
  "(ShortTxId option \<Rightarrow> int \<Rightarrow> ('s, 'p) io) \<Rightarrow> ('p \<Rightarrow> 'a list) \<Rightarrow> ('p \<Rightarrow> bool) \<Rightarrow> ('a \<Rightarrow> ShortTxId)
     \<Rightarrow> (tx_page, 's, 'a) unfold_step" where
  "page_step get items incomplete key st =
     (if \<not> pg_incomplete st then ok_io None
      else bind_io (get (pg_after st) (2 ^ pg_exp st)) (\<lambda>txs.
        ok_io (Some (items txs,
          \<lparr>pg_after = map_option key (last_opt (items txs)), pg_incomplete = incomplete txs,
            pg_exp = min 8 (pg_exp st + 1)\<rparr>))))"

lemma block_tx_id_step_page:
  "block_tx_id_step client block reverse
    = page_step (\<lambda>k. on_get_transaction_ids client block k reverse) ids_transactions ids_incomplete (\<lambda>tx. tx)"
  by (rule ext) (simp add: block_tx_id_step_def page_step_def map_option.identity [unfolded id_def])

lemma block_tx_step_page:
  "block_tx_step client block reverse
    = page_step (\<lambda>k. on_get_transactions client block k reverse) ext_transactions ext_incomplete short_tx_id"
  by (rule ext) (simp add: block_tx_step_def page_step_def)

definition page_expects ::
  "(ShortTxId option \<Rightarrow> int \<Rightarrow> ('s, 'p) io) \<Rightarrow> ('p \<Rightarrow> 'a list) \<Rightarrow> ('p \<Rightarrow> bool) \<Rightarrow> ('a \<Rightarrow> ShortTxId) \<Rightarrow> 'a list
     \<Rightarrow> tx_page \<Rightarrow> 'a list \<Rightarrow> bool" where
  "page_expects get items incomplete key xs st rest \<longleftrightarrow>
     lists_after get items incomplete key xs \<and>
     (if pg_incomplete st
      then (\<exists>before. xs = before @ rest) \<and> rest = rest_after (pg_after st) key xs
        \<and> (case pg_after st of None \<Rightarrow> True | Some k \<Rightarrow> k \<in> key ` set xs)
      else rest = [])"

definition pages_left :: "tx_page \<Rightarrow> 'a list \<Rightarrow> nat" where
  "pages_left st rest = (if pg_incomplete st then Suc (length rest) else 0)"

lemma page_step_page:
  assumes "page_expects get items incomplete key xs st rest"
  shows "(rest = [] \<and> (\<exists>s'. page_step get items incomplete key st s = (Inr None, s')))
    \<or> (\<exists>page rest' st' s'. page_step get items incomplete key st s = (Inr (Some (page, st')), s')
        \<and> rest = page @ rest' \<and> page_expects get items incomplete key xs st' rest'
        \<and> pages_left st' rest' < pages_left st rest)"
proof (cases "pg_incomplete st")
  case False
  with assms show ?thesis by (simp add: page_expects_def page_step_def io_simps)
next
  case True
  with assms obtain before where rest: "xs = before @ rest" "rest = rest_after (pg_after st) key xs"
    "case pg_after st of None \<Rightarrow> True | Some k \<Rightarrow> k \<in> key ` set xs" and lists: "lists_after get items incomplete key xs"
    by (auto simp: page_expects_def)
  obtain p s' m where got: "get (pg_after st) (2 ^ pg_exp st) s = (Inr p, s')" "items p = take m rest"
    "incomplete p \<longleftrightarrow> m < length rest" "rest \<noteq> [] \<longrightarrow> 0 < m"
    using lists rest(2,3) unfolding lists_after_def by (metis zero_less_power zero_less_numeral)
  let ?page = "take m rest" and ?rest = "drop m rest"
  let ?st = "\<lparr>pg_after = map_option key (last_opt ?page), pg_incomplete = incomplete p, pg_exp = min 8 (pg_exp st + 1)\<rparr>"
  have step: "page_step get items incomplete key st s = (Inr (Some (?page, ?st)), s')"
    using True got(1,2) by (simp add: page_step_def io_simps)
  moreover have "page_expects get items incomplete key xs ?st ?rest"
  proof (cases "incomplete p")
    case more: True
    then have page: "?page \<noteq> []" using got(3,4) by auto
    have "xs = before @ ?page @ ?rest" using rest(1) by simp
    from rest_after_last [OF _ this page, of key] lists
    have "rest_after (Some (key (last ?page))) key xs = ?rest" by (simp add: lists_after_def)
    moreover have "last ?page \<in> set xs" using page rest(1) by (metis Un_iff in_set_takeD last_in_set set_append)
    moreover have "\<exists>before'. xs = before' @ ?rest" using rest(1) by (metis append.assoc append_take_drop_id)
    ultimately show ?thesis using more page lists unfolding page_expects_def last_opt_def
      by (simp del: rest_after.simps)
  qed (use got(3) lists in \<open>simp add: page_expects_def\<close>)
  moreover have "pages_left ?st ?rest < pages_left st rest"
    using True got(3,4) by (auto simp: pages_left_def)
  ultimately show ?thesis by (metis append_take_drop_id)
qed

interpretation block_pages:
  paged_source "page_step get items incomplete key" "page_expects get items incomplete key xs" pages_left
  for get items incomplete key xs
  by unfold_locales (rule page_step_page)

lemma page_expects_first:
  "lists_after get items incomplete key xs \<Longrightarrow> page_expects get items incomplete key xs first_page xs"
  by (simp add: page_expects_def first_page_def)

text \<open>
  A liteserver serves the history \<open>hist\<close> of an account, newest transaction first: from a transaction
  on it returns that one and some before it, with the id of the one that comes next if there is any.
\<close>

definition serves_account :: "'s handlers \<Rightarrow> SmartContractAddress \<Rightarrow> Transaction list \<Rightarrow> bool" where
  "serves_account client address hist \<longleftrightarrow>
     distinct (map transaction_id hist) \<and>
     (\<forall>s. \<exists>a s'. on_get_account_state client address s = (Inr a, s')
        \<and> last_transaction_id a = (if hist = [] then None else Some (transaction_id (hd hist)))) \<and>
     (\<forall>i < length hist. \<forall>s. \<exists>m s'. 0 < m \<and>
        on_get_account_transactions client address (transaction_id (hist ! i)) s
          = (Inr \<lparr>account_transactions = take m (drop i hist),
               previous_transaction_id = (if i + m < length hist then Some (transaction_id (hist ! (i + m))) else None)\<rparr>, s'))"

definition account_expects ::
  "'s handlers \<Rightarrow> SmartContractAddress \<Rightarrow> Transaction list \<Rightarrow> account_page \<Rightarrow> Transaction list \<Rightarrow> bool" where
  "account_expects client address hist st rest \<longleftrightarrow>
     serves_account client address hist \<and>
     (if ap_next st
      then (case ap_next_id st of
          None \<Rightarrow> rest = hist
        | Some t \<Rightarrow> \<exists>i < length hist. t = transaction_id (hist ! i) \<and> rest = drop i hist)
      else rest = [])"

definition account_pages_left :: "account_page \<Rightarrow> 'a list \<Rightarrow> nat" where
  "account_pages_left st rest = (if ap_next st then Suc (length rest) else 0)"

lemma account_step_from:
  assumes "serves_account client address hist" and "i < length hist"
    and "account_tx_step client address st s = bind_io (on_get_account_transactions client address (transaction_id (hist ! i)))
      (\<lambda>txs. ok_io (Some (account_transactions txs, \<lparr>ap_next_id = previous_transaction_id txs,
         ap_next = (previous_transaction_id txs \<noteq> None)\<rparr>))) s1"
    and "ap_next st"
  shows "\<exists>page rest' st' s'. account_tx_step client address st s = (Inr (Some (page, st')), s')
    \<and> drop i hist = page @ rest' \<and> account_expects client address hist st' rest'
    \<and> account_pages_left st' rest' < account_pages_left st (drop i hist)"
proof -
  obtain m s' where got: "0 < m" "on_get_account_transactions client address (transaction_id (hist ! i)) s1
      = (Inr \<lparr>account_transactions = take m (drop i hist), previous_transaction_id =
          (if i + m < length hist then Some (transaction_id (hist ! (i + m))) else None)\<rparr>, s')"
    using assms(1,2) unfolding serves_account_def by blast
  let ?prev = "if i + m < length hist then Some (transaction_id (hist ! (i + m))) else None"
  let ?st = "\<lparr>ap_next_id = ?prev, ap_next = (?prev \<noteq> None)\<rparr>"
  have "account_tx_step client address st s = (Inr (Some (take m (drop i hist), ?st)), s')"
    using assms(3) got(2) by (simp add: io_simps)
  moreover have "account_expects client address hist ?st (drop (i + m) hist)"
    using assms(1) by (auto simp: account_expects_def)
  moreover have "account_pages_left ?st (drop (i + m) hist) < account_pages_left st (drop i hist)"
    using assms(2,4) got(1) by (auto simp: account_pages_left_def)
  moreover have "drop i hist = take m (drop i hist) @ drop (i + m) hist"
    by (metis append_take_drop_id drop_drop add.commute)
  ultimately show ?thesis by blast
qed

lemma account_tx_step_page:
  assumes "account_expects client address hist st rest"
  shows "(rest = [] \<and> (\<exists>s'. account_tx_step client address st s = (Inr None, s')))
    \<or> (\<exists>page rest' st' s'. account_tx_step client address st s = (Inr (Some (page, st')), s')
        \<and> rest = page @ rest' \<and> account_expects client address hist st' rest'
        \<and> account_pages_left st' rest' < account_pages_left st rest)"
proof -
  have serves: "serves_account client address hist" using assms by (simp add: account_expects_def)
  consider "\<not> ap_next st" | t where "ap_next st" "ap_next_id st = Some t" | "ap_next st" "ap_next_id st = None"
    by (cases "ap_next_id st") auto
  then show ?thesis
  proof cases
    case 1
    with assms show ?thesis by (simp add: account_expects_def account_tx_step_def io_simps)
  next
    case (2 t)
    with assms obtain i where i: "i < length hist" "t = transaction_id (hist ! i)" "rest = drop i hist"
      by (auto simp: account_expects_def)
    from account_step_from [OF serves i(1) _ 2(1), of s s] i 2 show ?thesis
      by (simp add: account_tx_step_def)
  next
    case 3
    with assms have rest: "rest = hist" by (simp add: account_expects_def)
    obtain a s1 where a: "on_get_account_state client address s = (Inr a, s1)"
      "last_transaction_id a = (if hist = [] then None else Some (transaction_id (hd hist)))"
      using serves unfolding serves_account_def by blast
    then have latest: "map_io last_transaction_id (on_get_account_state client address) s = (Inr (last_transaction_id a), s1)"
      by (simp add: io_simps)
    show ?thesis
    proof (cases hist)
      case Nil
      with 3 rest latest a(2) show ?thesis by (simp add: account_tx_step_def bind_io_def ok_io_def)
    next
      case (Cons x xs)
      with account_step_from [OF serves, of 0 st s s1] 3 rest latest a(2) show ?thesis
        by (simp add: account_tx_step_def bind_io_def)
    qed
  qed
qed

interpretation account_pages:
  paged_source "account_tx_step client address" "account_expects client address hist" account_pages_left
  for client address hist
  by unfold_locales (rule account_tx_step_page)

section \<open>Reading a block from both ends\<close>

text \<open>
  The consumers as functions of the keys alone. \<open>fronts xs i j seen\<close> says that the forward stream has
  given the first \<open>i\<close> keys and the backward one all keys from \<open>j\<close> on.
\<close>

fun merge_keys :: "(bool \<times> 'k) list \<Rightarrow> 'k last_seen \<Rightarrow> 'k list" where
  "merge_keys [] seen = []"
| "merge_keys ((key, k) # items) seen =
     (if seen (\<not> key) = Some k then []
      else if seen key = Some k then merge_keys items seen
      else k # merge_keys items (seen(key := Some k)))"

lemma accounts_stream_keys:
  "accounts_stream (map (\<lambda>(key, tx). (key, Inr tx)) ms) seen
    = (merge_keys (map (\<lambda>(key, tx). (key, short_account tx)) ms) seen, Inr ())"
  by (induction ms arbitrary: seen) auto

definition grouped :: "'k list \<Rightarrow> bool" where
  "grouped xs \<longleftrightarrow> (\<forall>a b c. a \<le> b \<and> b \<le> c \<and> c < length xs \<and> xs ! a = xs ! c \<longrightarrow> xs ! b = xs ! a)"

definition fronts :: "'k list \<Rightarrow> nat \<Rightarrow> nat \<Rightarrow> 'k last_seen \<Rightarrow> bool" where
  "fronts xs i j seen \<longleftrightarrow> i \<le> j \<and> j \<le> length xs
     \<and> seen False = (if i = 0 then None else Some (xs ! (i - 1)))
     \<and> seen True = (if j = length xs then None else Some (xs ! j))"

lemma groupedD: "grouped xs \<Longrightarrow> xs ! a = k \<Longrightarrow> xs ! c = k \<Longrightarrow> a \<le> b \<Longrightarrow> b \<le> c \<Longrightarrow> c < length xs \<Longrightarrow> xs ! b = k"
  unfolding grouped_def by metis

lemma fronts_forward:
  assumes "grouped xs" and "fronts xs i j seen" and "i < length xs" and "seen True \<noteq> Some (xs ! i)"
  shows "fronts xs (Suc i) j (seen(False := Some (xs ! i)))" and "xs ! i \<notin> set (drop j xs)"
    and "xs ! i \<in> set (take i xs) \<longleftrightarrow> seen False = Some (xs ! i)"
proof -
  have "i < j" using assms(2-4) by (cases "i = j") (auto simp: fronts_def)
  then show "fronts xs (Suc i) j (seen(False := Some (xs ! i)))" using assms(2) by (auto simp: fronts_def)
  show "xs ! i \<notin> set (drop j xs)"
  proof
    assume "xs ! i \<in> set (drop j xs)"
    then obtain c where c: "j \<le> c" "c < length xs" "xs ! c = xs ! i" by (auto simp: in_set_drop_nth)
    then have "xs ! j = xs ! i" using groupedD [OF assms(1), of i "xs ! i" c j] \<open>i < j\<close> by simp
    with c assms(2,4) show False by (auto simp: fronts_def)
  qed
  show "xs ! i \<in> set (take i xs) \<longleftrightarrow> seen False = Some (xs ! i)"
  proof
    assume "xs ! i \<in> set (take i xs)"
    then obtain a where "a < i" "xs ! a = xs ! i" by (auto simp: in_set_take_nth)
    with groupedD [OF assms(1), of a "xs ! i" i "i - 1"] assms(2,3) show "seen False = Some (xs ! i)"
      by (simp add: fronts_def)
  next
    assume "seen False = Some (xs ! i)"
    with assms(2,3) have "0 < i" "xs ! (i - 1) = xs ! i" by (auto simp: fronts_def split: if_splits)
    then show "xs ! i \<in> set (take i xs)" using assms(3) by (auto simp: in_set_take_nth intro!: exI [of _ "i - 1"])
  qed
qed

lemma fronts_backward:
  assumes "grouped xs" and "fronts xs i j seen" and "0 < j" and "seen False \<noteq> Some (xs ! (j - 1))"
  shows "fronts xs i (j - 1) (seen(True := Some (xs ! (j - 1))))" and "xs ! (j - 1) \<notin> set (take i xs)"
    and "xs ! (j - 1) \<in> set (drop j xs) \<longleftrightarrow> seen True = Some (xs ! (j - 1))"
proof -
  have len: "j \<le> length xs" using assms(2) by (simp add: fronts_def)
  have "i < j" using assms(2-4) by (cases "i = j") (auto simp: fronts_def)
  then show "fronts xs i (j - 1) (seen(True := Some (xs ! (j - 1))))" using assms(2) by (auto simp: fronts_def)
  show "xs ! (j - 1) \<notin> set (take i xs)"
  proof
    assume "xs ! (j - 1) \<in> set (take i xs)"
    then obtain a where a: "a < i" "xs ! a = xs ! (j - 1)" by (auto simp: in_set_take_nth)
    then have "xs ! (i - 1) = xs ! (j - 1)"
      using groupedD [OF assms(1), of a "xs ! (j - 1)" "j - 1" "i - 1"] \<open>i < j\<close> len by simp
    with a assms(2,4) show False by (auto simp: fronts_def)
  qed
  show "xs ! (j - 1) \<in> set (drop j xs) \<longleftrightarrow> seen True = Some (xs ! (j - 1))"
  proof
    assume "xs ! (j - 1) \<in> set (drop j xs)"
    then obtain c where "j \<le> c" "c < length xs" "xs ! c = xs ! (j - 1)" by (auto simp: in_set_drop_nth)
    with groupedD [OF assms(1), of "j - 1" "xs ! (j - 1)" c j] assms(2) show "seen True = Some (xs ! (j - 1))"
      by (simp add: fronts_def)
  next
    assume "seen True = Some (xs ! (j - 1))"
    with assms(2) have "j < length xs" "xs ! j = xs ! (j - 1)" by (auto simp: fronts_def split: if_splits)
    then show "xs ! (j - 1) \<in> set (drop j xs)" by (auto simp: in_set_drop_nth)
  qed
qed

lemma fronts_meet:
  assumes "grouped xs" and "fronts xs i j seen"
    and "(i < length xs \<and> seen True = Some (xs ! i)) \<or> (0 < j \<and> seen False = Some (xs ! (j - 1)))"
  shows "set (take i xs) \<union> set (drop j xs) = set xs"
proof -
  have between: "xs ! b \<in> set (take i xs) \<union> set (drop j xs)" if "i \<le> b" "b < j" for b
    using assms(3)
  proof (elim disjE conjE)
    assume "i < length xs" "seen True = Some (xs ! i)"
    with assms(2) have j: "j < length xs" "xs ! j = xs ! i" by (auto simp: fronts_def split: if_splits)
    then have "xs ! b = xs ! j" using groupedD [OF assms(1), of i "xs ! i" j b] that by simp
    with j(1) show ?thesis by (auto simp: in_set_drop_nth)
  next
    assume "0 < j" "seen False = Some (xs ! (j - 1))"
    with assms(2) have i: "0 < i" "xs ! (i - 1) = xs ! (j - 1)" "j \<le> length xs" "i \<le> j"
      by (auto simp: fronts_def split: if_splits)
    then have "xs ! b = xs ! (i - 1)" using groupedD [OF assms(1), of "i - 1" "xs ! (j - 1)" "j - 1" b] that by simp
    with i show ?thesis by (auto simp: in_set_take_nth intro!: exI [of _ "i - 1"])
  qed
  have "x \<in> set (take i xs) \<union> set (drop j xs)" if "x \<in> set xs" for x
  proof -
    obtain b where "b < length xs" "x = xs ! b" using \<open>x \<in> set xs\<close> by (metis in_set_conv_nth)
    with between [of b] show ?thesis
      by (cases "b < i"; cases "b < j") (auto simp: in_set_take_nth in_set_drop_nth not_less)
  qed
  then show ?thesis by (auto dest: in_set_takeD in_set_dropD)
qed

lemma merged_cases:
  assumes "m # ms \<in> shuffles (map (Pair False) (drop i xs)) (map (Pair True) (rev (take j xs)))"
    and "j \<le> length xs"
  shows "(i < length xs \<and> m = (False, xs ! i)
      \<and> ms \<in> shuffles (map (Pair False) (drop (Suc i) xs)) (map (Pair True) (rev (take j xs))))
    \<or> (0 < j \<and> m = (True, xs ! (j - 1))
      \<and> ms \<in> shuffles (map (Pair False) (drop i xs)) (map (Pair True) (rev (take (j - 1) xs))))"
  using assms(1) unfolding Cons_in_shuffles_iff
proof (elim disjE conjE)
  assume "map (Pair False) (drop i xs) \<noteq> []" "hd (map (Pair False) (drop i xs)) = m"
    "ms \<in> shuffles (tl (map (Pair False) (drop i xs))) (map (Pair True) (rev (take j xs)))"
  then show ?thesis by (auto simp: hd_map hd_drop_conv_nth map_tl [symmetric] drop_Suc tl_drop)
next
  assume r: "map (Pair True) (rev (take j xs)) \<noteq> []" "hd (map (Pair True) (rev (take j xs))) = m"
    "ms \<in> shuffles (map (Pair False) (drop i xs)) (tl (map (Pair True) (rev (take j xs))))"
  then have "take j xs = take (j - 1) xs @ [xs ! (j - 1)]" "0 < j"
    using assms(2) take_Suc_conv_app_nth [of "j - 1" xs] by auto
  with r show ?thesis by auto
qed

lemma once_step:
  "distinct ys \<Longrightarrow> set ys = A - (T \<union> D) \<Longrightarrow> x \<in> A \<Longrightarrow> T = insert x T' \<and> D = D' \<or> T = T' \<and> D = insert x D' \<Longrightarrow>
    x \<notin> T' \<Longrightarrow> x \<notin> D' \<Longrightarrow> distinct (x # ys) \<and> set (x # ys) = A - (T' \<union> D')"
  by auto

lemma merge_keys_forward:
  assumes "grouped xs" and "fronts xs i j seen" and "i < length xs"
    and IH: "\<And>seen. fronts xs (Suc i) j seen \<Longrightarrow> distinct (merge_keys ms seen)
      \<and> set (merge_keys ms seen) = set xs - (set (take (Suc i) xs) \<union> set (drop j xs))"
  shows "distinct (merge_keys ((False, xs ! i) # ms) seen)
    \<and> set (merge_keys ((False, xs ! i) # ms) seen) = set xs - (set (take i xs) \<union> set (drop j xs))"
proof (cases "seen True = Some (xs ! i)")
  case True
  with fronts_meet [OF assms(1,2)] assms(3) show ?thesis by auto
next
  case False
  note ff = fronts_forward [OF assms(1-3) False]
  have taken: "set (take (Suc i) xs) = insert (xs ! i) (set (take i xs))"
    using assms(3) by (simp add: take_Suc_conv_app_nth)
  show ?thesis
  proof (cases "seen False = Some (xs ! i)")
    case True
    then have "seen(False := Some (xs ! i)) = seen" by auto
    with ff(1) have "fronts xs (Suc i) j seen" by metis
    moreover have "set (take (Suc i) xs) = set (take i xs)" using taken ff(3) True by auto
    moreover have "merge_keys ((False, xs ! i) # ms) seen = merge_keys ms seen" using True False by simp
    ultimately show ?thesis using IH by metis
  next
    case fresh: False
    have "xs ! i \<in> set xs" "xs ! i \<notin> set (take i xs)" using assms(3) ff(3) fresh by simp_all
    moreover have "merge_keys ((False, xs ! i) # ms) seen = xs ! i # merge_keys ms (seen(False := Some (xs ! i)))"
      using fresh False by simp
    ultimately show ?thesis using IH [OF ff(1)] ff(2) taken by (metis once_step)
  qed
qed

lemma merge_keys_backward:
  assumes "grouped xs" and "fronts xs i j seen" and "0 < j"
    and IH: "\<And>seen. fronts xs i (j - 1) seen \<Longrightarrow> distinct (merge_keys ms seen)
      \<and> set (merge_keys ms seen) = set xs - (set (take i xs) \<union> set (drop (j - 1) xs))"
  shows "distinct (merge_keys ((True, xs ! (j - 1)) # ms) seen)
    \<and> set (merge_keys ((True, xs ! (j - 1)) # ms) seen) = set xs - (set (take i xs) \<union> set (drop j xs))"
proof (cases "seen False = Some (xs ! (j - 1))")
  case True
  with fronts_meet [OF assms(1,2)] assms(3) show ?thesis by auto
next
  case False
  note fb = fronts_backward [OF assms(1-3) False]
  have len: "j \<le> length xs" using assms(2) by (simp add: fronts_def)
  have "drop (j - 1) xs = xs ! (j - 1) # drop j xs"
    using assms(3) len Cons_nth_drop_Suc [of "j - 1" xs] by simp
  then have dropped: "set (drop (j - 1) xs) = insert (xs ! (j - 1)) (set (drop j xs))" by simp
  show ?thesis
  proof (cases "seen True = Some (xs ! (j - 1))")
    case True
    then have "seen(True := Some (xs ! (j - 1))) = seen" by auto
    with fb(1) have "fronts xs i (j - 1) seen" by metis
    moreover have "set (drop (j - 1) xs) = set (drop j xs)" using dropped fb(3) True by auto
    moreover have "merge_keys ((True, xs ! (j - 1)) # ms) seen = merge_keys ms seen" using True False by simp
    ultimately show ?thesis using IH by metis
  next
    case fresh: False
    have "xs ! (j - 1) \<in> set xs" "xs ! (j - 1) \<notin> set (drop j xs)" using assms(3) len fb(3) fresh by simp_all
    moreover have "merge_keys ((True, xs ! (j - 1)) # ms) seen
        = xs ! (j - 1) # merge_keys ms (seen(True := Some (xs ! (j - 1))))"
      using fresh False by simp
    ultimately show ?thesis using IH [OF fb(1)] fb(2) dropped by (metis once_step)
  qed
qed

lemma merge_keys_once:
  assumes "grouped xs" and "fronts xs i j seen"
    and "ms \<in> shuffles (map (Pair False) (drop i xs)) (map (Pair True) (rev (take j xs)))"
  shows "distinct (merge_keys ms seen) \<and> set (merge_keys ms seen) = set xs - (set (take i xs) \<union> set (drop j xs))"
  using assms(2,3)
proof (induction ms arbitrary: i j seen)
  case Nil
  then have "drop i xs = []" "take j xs = []" by auto
  with Nil.prems(1) have "xs = []" by (auto simp: fronts_def)
  then show ?case by simp
next
  case (Cons m ms)
  from merged_cases [OF Cons.prems(2)] Cons.prems(1) show ?case
    using merge_keys_forward [OF assms(1) Cons.prems(1) _ Cons.IH]
      merge_keys_backward [OF assms(1) Cons.prems(1) _ Cons.IH]
    by (auto simp: fronts_def simp del: merge_keys.simps)
qed

text \<open>An ordinary merge of transactions is the same, since no transaction comes twice.\<close>

lemma tx_stream_keys:
  assumes "\<And>key k. seen key = Some k \<Longrightarrow> (key, k) \<notin> set ms" and "distinct ms"
  shows "tx_stream_unordered (map (\<lambda>(key, tx). (key, Inr tx)) ms) seen = (merge_keys ms seen, Inr ())"
  using assms
proof (induction ms arbitrary: seen)
  case (Cons m ms)
  obtain key tx where m: "m = (key, tx)" by (cases m)
  then have "seen key \<noteq> Some tx" using Cons.prems(1) [of key tx] by auto
  moreover have "tx_stream_unordered (map (\<lambda>(key, tx). (key, Inr tx)) ms) (seen(key := Some tx))
      = (merge_keys ms (seen(key := Some tx)), Inr ())"
    by (rule Cons.IH) (use Cons.prems m in \<open>auto split: if_splits\<close>)
  ultimately show ?case using m by simp
qed simp

lemma distinct_grouped: "distinct xs \<Longrightarrow> grouped xs"
  unfolding grouped_def by (metis le_less_trans nth_eq_iff_index_eq order_antisym)

lemma merge_keys_all:
  assumes "grouped xs" and "ms \<in> shuffles (map (Pair False) xs) (map (Pair True) (rev xs))"
  shows "distinct (merge_keys ms (\<lambda>_. None))" "set (merge_keys ms (\<lambda>_. None)) = set xs"
  using merge_keys_once [OF assms(1), of 0 "length xs" "\<lambda>_. None" ms] assms(2) by (simp_all add: fronts_def)

lemma shuffles_map:
  "ms \<in> shuffles xs ys \<Longrightarrow> map f ms \<in> shuffles (map f xs) (map f ys)"
  by (induction xs ys arbitrary: ms rule: shuffles.induct) auto

section \<open>Properties\<close>

text \<open>
  A liteserver that holds the transactions \<open>hist\<close> of one account, newest first, the transaction with
  logical time \<open>lt\<close> in the block with seqno \<open>20000 * lt\<close>, and that answers in pages of two.
\<close>

definition demo_tx :: "SmartContractAddress \<Rightarrow> i64 \<Rightarrow> Transaction" where
  "demo_tx address lt = \<lparr>tx_address = address, tx_utime = 0, tx_data = [],
     transaction_id = \<lparr>tx_lt = lt, tx_hash = []\<rparr>, tx_fee = 0, storage_fee = 0, other_fee = 0,
     in_msg = None, out_msgs = []\<rparr>"

definition demo_block :: "i32 \<Rightarrow> BlockIdExt" where
  "demo_block n = \<lparr>workchain = 0, shard = - (2 ^ 63), seqno = n, root_hash = [], file_hash = []\<rparr>"

definition demo_state :: "TransactionId option \<Rightarrow> i32 \<Rightarrow> AccountState" where
  "demo_state t n = \<lparr>balance = None, account_code = [], account_data = [], frozen_hash = [],
     last_transaction_id = t, account_block_id = demo_block n, sync_utime = 0\<rparr>"

definition hd_id :: "Transaction list \<Rightarrow> TransactionId option" where
  "hd_id xs = (case xs of [] \<Rightarrow> None | x # _ \<Rightarrow> Some (transaction_id x))"

definition latest_tx :: "Transaction list \<Rightarrow> i32 \<Rightarrow> TransactionId option" where
  "latest_tx hist n = hd_id (filter (\<lambda>x. 20000 * tx_lt (transaction_id x) \<le> n) hist)"

definition history_server :: "Transaction list \<Rightarrow> unit handlers" where
  "history_server hist = \<lparr>
     on_get_masterchain_info = err_io ''unused'',
     on_look_up_block_by_seqno = (\<lambda>_ _ n. if n \<le> 0 then err_io ''seqno must be greater than 0'' else ok_io (demo_block n)),
     on_look_up_block_by_lt = (\<lambda>_ _ _. err_io ''unused''),
     on_get_shards = (\<lambda>_. ok_io []),
     on_get_block_header = (\<lambda>_. err_io ''unused''),
     on_get_transaction_ids = (\<lambda>_ k reverse n.
       let rest = rest_after k (\<lambda>x. x) (map short_tx_id (if reverse then rev hist else hist)); m = min 2 (nat n) in
       ok_io \<lparr>ids_incomplete = (m < length rest), ids_transactions = take m rest\<rparr>),
     on_get_transactions = (\<lambda>_ k reverse n.
       let rest = rest_after k short_tx_id (if reverse then rev hist else hist); m = min 2 (nat n) in
       ok_io \<lparr>ext_incomplete = (m < length rest), ext_transactions = take m rest\<rparr>),
     on_sync = err_io ''unused'',
     on_send_message = (\<lambda>_. err_io ''unused''),
     on_send_message_returning_hash = (\<lambda>_. err_io ''unused''),
     on_get_account_state = (\<lambda>_. ok_io (demo_state (hd_id hist) 0)),
     on_get_account_state_on_block = (\<lambda>_ b. ok_io (demo_state (latest_tx hist (seqno b)) (seqno b))),
     on_get_account_state_by_transaction = (\<lambda>_ t. ok_io (demo_state (Some t) (20000 * tx_lt t))),
     on_get_account_transactions = (\<lambda>_ t.
       let rest = dropWhile (\<lambda>x. transaction_id x \<noteq> t) hist in
       ok_io \<lparr>account_transactions = take 2 rest, previous_transaction_id = hd_id (drop 2 rest)\<rparr>),
     on_get_shard_account_cell = (\<lambda>_. err_io ''unused''),
     on_get_shard_account_cell_on_block = (\<lambda>_ _. err_io ''unused''),
     on_get_shard_account_cell_by_transaction = (\<lambda>_ _. err_io ''unused''),
     on_run_get_method = (\<lambda>_ _ _. err_io ''unused'')\<rparr>"

text \<open>
  C14. The transactions of a block, page by page. If the liteserver lists the transactions of a block after
  a given one, some at a time and at least one while any is left, then both streams end without an error
  and yield exactly the transactions of the block in the order asked for.
\<close>

theorem block_streams_complete:
  assumes "lists_after (\<lambda>k. on_get_transaction_ids client block k reverse) ids_transactions ids_incomplete (\<lambda>tx. tx) ids"
    and "lists_after (\<lambda>k. on_get_transactions client block k reverse) ext_transactions ext_incomplete short_tx_id txs"
  shows "(\<exists>s'. get_block_tx_id_stream client block reverse s = Some ((ids, Inr ()), s'))
    \<and> (\<exists>s'. get_block_tx_stream client block reverse s = Some ((txs, Inr ()), s'))"
  using block_pages.run_stream_pages [OF page_expects_first [OF assms(1)], of yield_all "()" s]
    block_pages.run_stream_pages [OF page_expects_first [OF assms(2)], of yield_all "()" s]
  by (simp add: get_block_tx_id_stream_def get_block_tx_stream_def block_tx_id_step_page block_tx_step_page)

lemma history_server_lists:
  assumes "distinct (map short_tx_id hist)" and "xs = (if reverse then rev hist else hist)"
  shows "lists_after (\<lambda>k. on_get_transaction_ids (history_server hist) block k reverse) ids_transactions ids_incomplete
      (\<lambda>tx. tx) (map short_tx_id xs)"
    and "lists_after (\<lambda>k. on_get_transactions (history_server hist) block k reverse) ext_transactions ext_incomplete
      short_tx_id xs"
proof -
  have "distinct (map short_tx_id xs)" using assms by (simp add: rev_map [symmetric])
  then show "lists_after (\<lambda>k. on_get_transaction_ids (history_server hist) block k reverse) ids_transactions
      ids_incomplete (\<lambda>tx. tx) (map short_tx_id xs)"
    "lists_after (\<lambda>k. on_get_transactions (history_server hist) block k reverse) ext_transactions ext_incomplete
      short_tx_id xs"
    unfolding lists_after_def history_server_def assms(2)
    by (auto simp: Let_def ok_io_def simp del: rest_after.simps intro!: exI [of _ "min 2 (nat _)"])
qed

theorem block_streams_complete_witness:
  "\<exists>s'. get_block_tx_stream (history_server (map (demo_tx (Raw 0 [])) [3, 2, 1])) (demo_block 7) True ()
    = Some ((map (demo_tx (Raw 0 [])) [1, 2, 3], Inr ()), s')"
proof -
  let ?hist = "map (demo_tx (Raw 0 [])) [3, 2, 1]"
  have "distinct (map short_tx_id ?hist)" by (simp add: short_tx_id_def demo_tx_def)
  note lists = history_server_lists [OF this refl, of "demo_block 7" True]
  show ?thesis using block_streams_complete [OF lists, of "()"] by simp
qed

text \<open>
  C9. A block read from both ends at once. However the two streams are interleaved, the transactions of a
  block are yielded exactly once each, and so are its accounts whenever the transactions of an account
  stand next to each other in the block.
\<close>

theorem unordered_exactly_once:
  assumes "ms \<in> shuffles (map (Pair False) txs) (map (Pair True) (rev txs))" and "distinct txs"
    and "grouped (map short_account txs)"
  shows "\<exists>ys as. get_block_tx_stream_unordered (map (\<lambda>(key, tx). (key, Inr tx)) ms) = (ys, Inr ())
    \<and> mset ys = mset txs
    \<and> get_accounts_in_block_stream (map (\<lambda>(key, tx). (key, Inr tx)) ms) = (as, Inr ())
    \<and> distinct as \<and> set as = short_account ` set txs"
proof -
  let ?acc = "map (\<lambda>(key, tx). (key, short_account tx)) ms"
  have "distinct ms" 
    by (rule distinct_disjoint_shuffles [OF _ _ _ assms(1)]) (use assms(2) in \<open>auto simp: distinct_map inj_on_def\<close>)
  then have txs: "get_block_tx_stream_unordered (map (\<lambda>(key, tx). (key, Inr tx)) ms) = (merge_keys ms (\<lambda>_. None), Inr ())"
    unfolding get_block_tx_stream_unordered_def by (intro tx_stream_keys) auto
  have "mset (merge_keys ms (\<lambda>_. None)) = mset txs"
    using merge_keys_all [OF distinct_grouped [OF assms(2)] assms(1)] assms(2) by (simp add: set_eq_iff_mset_eq_distinct)
  moreover have "?acc \<in> shuffles (map (Pair False) (map short_account txs)) (map (Pair True) (rev (map short_account txs)))"
    using shuffles_map [OF assms(1), of "\<lambda>(key, tx). (key, short_account tx)"] by (simp add: comp_def rev_map)
  then have "distinct (merge_keys ?acc (\<lambda>_. None))" "set (merge_keys ?acc (\<lambda>_. None)) = short_account ` set txs"
    using merge_keys_all [OF assms(3)] by auto
  moreover have "get_accounts_in_block_stream (map (\<lambda>(key, tx). (key, Inr tx)) ms) = (merge_keys ?acc (\<lambda>_. None), Inr ())"
    unfolding get_accounts_in_block_stream_def by (rule accounts_stream_keys)
  ultimately show ?thesis using txs by blast
qed

theorem unordered_exactly_once_witness:
  "\<exists>ys. get_block_tx_stream_unordered (map (\<lambda>(key, tx). (key, Inr (short_tx_id (demo_tx (Raw 0 []) tx))))
      [(False, 1), (True, 3), (True, 2), (False, 2), (True, 1), (False, 3)]) = (ys, Inr ())
    \<and> mset ys = mset (map (\<lambda>n. short_tx_id (demo_tx (Raw 0 []) n)) [1, 2, 3])"
proof -
  let ?t = "\<lambda>n. short_tx_id (demo_tx (Raw 0 []) n)"
  let ?txs = "map ?t [1, 2, 3]" and ?ms = "map (\<lambda>(key, n). (key, ?t n)) [(False, 1), (True, 3), (True, 2), (False, 2), (True, 1), (False, 3)]"
  have "?ms \<in> shuffles (map (Pair False) ?txs) (map (Pair True) (rev ?txs))"
    by (simp add: Cons_in_shuffles_iff)
  moreover have "distinct ?txs" by (simp add: short_tx_id_def demo_tx_def)
  moreover have "grouped (map short_account ?txs)"
    by (auto simp: grouped_def short_tx_id_def demo_tx_def nth_Cons' less_Suc_eq)
  ultimately show ?thesis using unordered_exactly_once [of ?ms ?txs] by auto
qed

end
