(* ===== verification/Account_Range.thy ===== *)
theory Account_Range
  imports Client_Streams
begin

text \<open>
  The transactions of an account between two bounds (\<open>get_account_tx_range\<close>) and in chunks
  (\<open>get_account_tx_range_unordered\<close>) of \<open>ton-client/src/client/client_ext.rs\<close>, on top of the
  streams of \<open>Client_Streams\<close>. A range goes from newer to older transactions: its start is the newest
  one. What a range stands for in a history is \<open>upto_bound\<close> of \<open>from_bound\<close>; the chunks are shown
  to cut the history at positions (\<open>chunk_cut\<close>).
\<close>

section \<open>Bounds and ranges\<close>

datatype 'a bound = Included 'a | Excluded 'a | Unbounded

fun bound_tx :: "'a bound \<Rightarrow> 'a option" where
  "bound_tx (Included tx) = Some tx"
| "bound_tx (Excluded tx) = Some tx"
| "bound_tx Unbounded = None"

text \<open>
  The consumer of a range: \<open>try_skip_while\<close> drops items while they are the excluded start (the state
  says whether it still does), then the loop yields items up to the end.
\<close>

definition range_consumer ::
  "TransactionId bound \<times> TransactionId bound \<Rightarrow> (Transaction, bool, Transaction) consumer" where
  "range_consumer rng x skipping =
     (if skipping \<and> fst rng = Excluded (transaction_id x) then ([], Some True)
      else (case snd rng of
          Unbounded \<Rightarrow> ([x], Some False)
        | Included tx \<Rightarrow> ([x], if tx = transaction_id x then None else Some False)
        | Excluded tx \<Rightarrow> if tx = transaction_id x then ([], None) else ([x], Some False)))"

definition get_account_tx_range ::
  "'s handlers \<Rightarrow> SmartContractAddress \<Rightarrow> TransactionId bound \<times> TransactionId bound \<Rightarrow> 's
     \<Rightarrow> ((Transaction list \<times> (anyhow + unit)) \<times> 's) option" where
  "get_account_tx_range client address rng =
     run_stream (account_tx_step client address) (range_consumer rng)
       (account_page_from (bound_tx (fst rng))) True"

text \<open>
  The range in chunks. The two ends are resolved first (the two requests run at the same time in the
  source; here one after the other). Integers are \<open>i32\<close>: division rounds towards zero and a
  division by zero panics. The result is the list of bounds for which \<open>get_account_tx_range\<close> is
  started; its streams are then merged.
\<close>

definition rust_div :: "int \<Rightarrow> int \<Rightarrow> int" where
  "rust_div a b = sgn a * sgn b * (\<bar>a\<bar> div \<bar>b\<bar>)"

fun search_message :: "BinarySearchError \<Rightarrow> anyhow" where
  "search_message EmptyRange = ''empty search range''"
| "search_message (NotFound e) = ''first point not found''"
| "search_message (Bounds e) = ''failed to resolve search bounds''"

definition range_last_tx ::
  "'s handlers \<Rightarrow> SmartContractAddress \<Rightarrow> TransactionId bound \<Rightarrow> ('s, TransactionId) io" where
  "range_last_tx client address start =
     (case bound_tx start of
        Some tx \<Rightarrow> ok_io tx
      | None \<Rightarrow> bind_io (on_get_account_state client address) (\<lambda>state.
          lift_io (ok_or ''invalid last tx'' (last_transaction_id state))))"

definition range_first_tx ::
  "'s handlers \<Rightarrow> SmartContractAddress \<Rightarrow> TransactionId bound \<Rightarrow> 's \<Rightarrow> ((anyhow + TransactionId) \<times> 's) option" where
  "range_first_tx client address finish s =
     (case bound_tx finish of
        Some tx \<Rightarrow> Some (Inr tx, s)
      | None \<Rightarrow> map_option (\<lambda>(r, s'). (map_err search_message r, s')) (find (AccountTxAvailability client address) s))"

definition chunk_plan :: "i32 \<Rightarrow> i32 \<Rightarrow> (i32 \<times> i32) may_panic" where
  "chunk_plan first_seqno last_seqno =
     (let distance = wrap_i32 (last_seqno - first_seqno);
          chunks = min 256 (rust_div distance 28800) in
      if chunks = 0 then Inl ''attempt to divide by zero''
      else Inr (chunks, rust_div distance chunks))"

definition mid_tx ::
  "'s handlers \<Rightarrow> SmartContractAddress \<Rightarrow> i32 \<Rightarrow> i64 \<Rightarrow> i32 \<Rightarrow> ('s, TransactionId) io" where
  "mid_tx client address wc sh n =
     bind_io (on_look_up_block_by_seqno client wc sh n) (\<lambda>block.
     bind_io (on_get_account_state_on_block client address block) (\<lambda>state.
     lift_io (ok_or ''invalid last tx'' (last_transaction_id state))))"

text \<open>All requests are made; the first error in their order is the result.\<close>

fun gather_io :: "('a \<Rightarrow> ('s, 'b) io) \<Rightarrow> 'a list \<Rightarrow> ('s, 'b list) io" where
  "gather_io f [] s = (Inr [], s)"
| "gather_io f (x # xs) s =
     (case f x s of (r, s1) \<Rightarrow> case gather_io f xs s1 of (rs, s2) \<Rightarrow>
       (bindr r (\<lambda>y. map_ok (\<lambda>ys. y # ys) rs), s2))"

fun windows2 :: "'a list \<Rightarrow> ('a \<times> 'a) list" where
  "windows2 (x # y # zs) = (x, y) # windows2 (y # zs)"
| "windows2 _ = []"

definition window_range ::
  "TransactionId bound \<times> TransactionId bound \<Rightarrow> TransactionId \<Rightarrow> TransactionId
     \<Rightarrow> TransactionId \<times> TransactionId \<Rightarrow> TransactionId bound \<times> TransactionId bound" where
  "window_range rng first_tx last_tx lr =
     (if snd lr = last_tx then fst rng else Excluded (snd lr),
      if fst lr = first_tx then snd rng else Included (fst lr))"

definition get_account_tx_range_unordered ::
  "'s handlers \<Rightarrow> SmartContractAddress \<Rightarrow> TransactionId bound \<times> TransactionId bound \<Rightarrow> 's
     \<Rightarrow> ((anyhow + (TransactionId bound \<times> TransactionId bound) list) may_panic \<times> 's) option" where
  "get_account_tx_range_unordered client address rng s =
     (case range_last_tx client address (fst rng) s of
        (Inl e, s1) \<Rightarrow> Some (Inr (Inl e), s1)
      | (Inr last_tx, s1) \<Rightarrow>
     (case range_first_tx client address (snd rng) s1 of
        None \<Rightarrow> None
      | Some (Inl e, s2) \<Rightarrow> Some (Inr (Inl e), s2)
      | Some (Inr first_tx, s2) \<Rightarrow>
     (case on_get_account_state_by_transaction client address last_tx s2 of
        (Inl e, s3) \<Rightarrow> Some (Inr (Inl e), s3)
      | (Inr last_state, s3) \<Rightarrow>
     (case on_get_account_state_by_transaction client address first_tx s3 of
        (Inl e, s4) \<Rightarrow> Some (Inr (Inl e), s4)
      | (Inr first_state, s4) \<Rightarrow>
          let last_block = account_block_id last_state; first_block = account_block_id first_state in
     (case chunk_plan (seqno first_block) (seqno last_block) of
        Inl panic \<Rightarrow> Some (Inl panic, s4)
      | Inr (chunks, step) \<Rightarrow>
     (case gather_io (\<lambda>i. mid_tx client address (workchain first_block) (shard first_block)
             (wrap_i32 (seqno first_block + wrap_i32 (step * i)))) [1..chunks - 1] s4 of
        (Inl e, s5) \<Rightarrow> Some (Inr (Inl e), s5)
      | (Inr mid, s5) \<Rightarrow>
          Some (Inr (Inr (map (window_range rng first_tx last_tx)
            (windows2 (remdups_adj (first_tx # mid @ [last_tx]))))), s5)))))))"

section \<open>Ranges of an account\<close>

text \<open>The part of a history that a range stands for.\<close>

fun from_bound :: "TransactionId bound \<Rightarrow> Transaction list \<Rightarrow> Transaction list" where
  "from_bound Unbounded xs = xs"
| "from_bound (Included t) xs = dropWhile (\<lambda>x. transaction_id x \<noteq> t) xs"
| "from_bound (Excluded t) xs = tl (dropWhile (\<lambda>x. transaction_id x \<noteq> t) xs)"

fun upto_bound :: "TransactionId bound \<Rightarrow> Transaction list \<Rightarrow> Transaction list" where
  "upto_bound Unbounded xs = xs"
| "upto_bound (Included t) xs =
     takeWhile (\<lambda>x. transaction_id x \<noteq> t) xs @ take 1 (dropWhile (\<lambda>x. transaction_id x \<noteq> t) xs)"
| "upto_bound (Excluded t) xs = takeWhile (\<lambda>x. transaction_id x \<noteq> t) xs"

lemma feed_range_all: "fst (feed (range_consumer rng) xs False) = upto_bound (snd rng) xs"
  by (induction xs) (cases "snd rng"; auto simp: range_consumer_def split: prod.splits)+

lemma feed_range_unskipped:
  "\<forall>x \<in> set xs. fst rng \<noteq> Excluded (transaction_id x) \<Longrightarrow>
    fst (feed (range_consumer rng) xs True) = upto_bound (snd rng) xs"
proof (cases xs)
  case (Cons x ys)
  assume "\<forall>x \<in> set xs. fst rng \<noteq> Excluded (transaction_id x)"
  with Cons have "range_consumer rng x True = range_consumer rng x False" by (simp add: range_consumer_def)
  then have "feed (range_consumer rng) xs True = feed (range_consumer rng) xs False" using Cons by simp
  then show ?thesis by (simp add: feed_range_all)
qed (cases "snd rng"; simp)

lemma dropWhile_id:
  assumes "distinct (map f hist)" and "i < length hist" and "t = f (hist ! i)"
  shows "dropWhile (\<lambda>x. f x \<noteq> t) hist = drop i hist"
    and "takeWhile (\<lambda>x. f x \<noteq> t) hist = take i hist"
proof -
  have "\<forall>x \<in> set (take i hist). f x \<noteq> t"
    using assms by (auto simp: in_set_take_nth distinct_conv_nth)
  moreover have "hist = take i hist @ hist ! i # drop (Suc i) hist" using assms(2) by (simp add: id_take_nth_drop)
  ultimately show "dropWhile (\<lambda>x. f x \<noteq> t) hist = drop i hist"
    "takeWhile (\<lambda>x. f x \<noteq> t) hist = take i hist"
    using assms(2,3) dropWhile_append2 [of "take i hist" "\<lambda>x. f x \<noteq> t" "drop i hist"]
      takeWhile_append2 [of "take i hist" "\<lambda>x. f x \<noteq> t" "drop i hist"]
    by (auto simp: Cons_nth_drop_Suc [symmetric])
qed

lemma account_range_runs:
  assumes "serves_account client address hist"
    and "case bound_tx start of None \<Rightarrow> True | Some t \<Rightarrow> t \<in> transaction_id ` set hist"
  shows "\<exists>s'. get_account_tx_range client address (start, finish) s
    = Some ((upto_bound finish (from_bound start hist), Inr ()), s')"
proof -
  have dist: "distinct (map transaction_id hist)" using assms(1) by (simp add: serves_account_def)
  obtain rest where rest: "account_expects client address hist (account_page_from (bound_tx start)) rest"
    and fed: "fst (feed (range_consumer (start, finish)) rest True) = upto_bound finish (from_bound start hist)"
  proof (cases "bound_tx start")
    case None
    then have "start = Unbounded" by (cases start) auto
    with None assms(1) that [of hist] feed_range_unskipped [of hist "(start, finish)"] show thesis
      by (simp add: account_expects_def account_page_from_def)
  next
    case (Some t)
    with assms(2) obtain i where i: "i < length hist" "t = transaction_id (hist ! i)"
      by (auto simp: in_set_conv_nth)
    have expects: "account_expects client address hist (account_page_from (bound_tx start)) (drop i hist)"
      using assms(1) Some i by (auto simp: account_expects_def account_page_from_def)
    have later: "\<forall>x \<in> set (drop (Suc i) hist). transaction_id x \<noteq> t"
      using dist i by (auto simp: in_set_drop_nth distinct_conv_nth)
    have head: "drop i hist = hist ! i # drop (Suc i) hist" using i(1) by (simp add: Cons_nth_drop_Suc)
    consider "start = Included t" | "start = Excluded t" using Some by (cases start) auto
    then have "fst (feed (range_consumer (start, finish)) (drop i hist) True) = upto_bound finish (from_bound start hist)"
    proof cases
      case 1
      then show ?thesis
        using feed_range_unskipped [of "drop i hist" "(start, finish)"] dropWhile_id(1) [OF dist i] by simp
    next
      case 2
      then have "feed (range_consumer (start, finish)) (drop i hist) True
          = feed (range_consumer (start, finish)) (drop (Suc i) hist) True"
        using i(2) head by (simp add: range_consumer_def)
      with 2 later feed_range_unskipped [of "drop (Suc i) hist" "(start, finish)"] dropWhile_id(1) [OF dist i]
      show ?thesis by (auto simp: drop_Suc tl_drop)
    qed
    with expects show thesis by (rule that)
  qed
  from account_pages.run_stream_pages [OF rest, of "range_consumer (start, finish)" True s] fed
  show ?thesis by (simp add: get_account_tx_range_def)
qed

section \<open>The chunks of a range\<close>

text \<open>Where a transaction stands in a history, and the cuts that a range makes.\<close>

definition position :: "Transaction list \<Rightarrow> TransactionId \<Rightarrow> nat" where
  "position hist t = length (takeWhile (\<lambda>x. transaction_id x \<noteq> t) hist)"

fun low :: "Transaction list \<Rightarrow> TransactionId bound \<Rightarrow> nat" where
  "low hist Unbounded = 0"
| "low hist (Included t) = position hist t"
| "low hist (Excluded t) = Suc (position hist t)"

fun high :: "Transaction list \<Rightarrow> TransactionId bound \<Rightarrow> nat" where
  "high hist Unbounded = length hist"
| "high hist (Included t) = Suc (position hist t)"
| "high hist (Excluded t) = position hist t"

definition cut :: "nat \<Rightarrow> nat \<Rightarrow> 'a list \<Rightarrow> 'a list" where
  "cut a b xs = drop a (take b xs)"

lemma position_nth:
  assumes "distinct (map transaction_id hist)" and "t \<in> transaction_id ` set hist"
  shows "position hist t < length hist" and "transaction_id (hist ! position hist t) = t"
proof -
  obtain i where i: "i < length hist" "t = transaction_id (hist ! i)"
    using assms(2) by (auto simp: in_set_conv_nth)
  have "position hist t = i" using dropWhile_id(2) [OF assms(1) i] i(1) by (simp add: position_def)
  with i show "position hist t < length hist" "transaction_id (hist ! position hist t) = t" by simp_all
qed

lemma position_inj:
  assumes "distinct (map transaction_id hist)" and "t \<in> transaction_id ` set hist" and "u \<in> transaction_id ` set hist"
  shows "position hist t = position hist u \<longleftrightarrow> t = u"
  using position_nth [OF assms(1,2)] position_nth [OF assms(1,3)] by metis

lemma from_bound_drop:
  assumes "distinct (map transaction_id hist)"
    and "case bound_tx start of None \<Rightarrow> True | Some t \<Rightarrow> t \<in> transaction_id ` set hist"
  shows "from_bound start hist = drop (low hist start) hist"
proof (cases "bound_tx start")
  case None
  then show ?thesis by (cases start) auto
next
  case (Some t)
  with assms(2) have t: "t \<in> transaction_id ` set hist" by simp
  have "dropWhile (\<lambda>x. transaction_id x \<noteq> t) hist = drop (position hist t) hist"
    using dropWhile_id(1) [OF assms(1) position_nth(1) [OF assms(1) t]] position_nth(2) [OF assms(1) t] by simp
  with Some show ?thesis by (cases start) (auto simp: drop_Suc tl_drop)
qed

lemma upto_bound_cut:
  assumes "distinct (map transaction_id hist)"
    and "case bound_tx finish of None \<Rightarrow> True | Some t \<Rightarrow> t \<in> transaction_id ` set hist \<and> a \<le> position hist t"
  shows "upto_bound finish (drop a hist) = cut a (high hist finish) hist"
proof (cases "bound_tx finish")
  case None
  then show ?thesis by (cases finish) (auto simp: cut_def)
next
  case (Some t)
  let ?p = "position hist t"
  from Some assms(2) have t: "t \<in> transaction_id ` set hist" "a \<le> ?p" by simp_all
  note p = position_nth [OF assms(1) t(1)]
  have "distinct (map transaction_id (drop a hist))" using assms(1) by (simp add: distinct_drop flip: drop_map)
  from dropWhile_id [OF this, of "?p - a" t] p t(2)
  have "dropWhile (\<lambda>x. transaction_id x \<noteq> t) (drop a hist) = drop ?p hist"
    "takeWhile (\<lambda>x. transaction_id x \<noteq> t) (drop a hist) = take (?p - a) (drop a hist)" by auto
  moreover have "take (?p - a) (drop a hist) @ take 1 (drop ?p hist) = take (Suc ?p - a) (drop a hist)"
    using t(2) take_add [of "?p - a" 1 "drop a hist"] by (simp add: Suc_diff_le)
  ultimately show ?thesis using Some by (cases finish) (auto simp: cut_def drop_take)
qed

lemma cut_join:
  assumes "a \<le> b" and "b \<le> c"
  shows "cut a b xs @ cut b c xs = cut a c xs"
proof -
  have "take c xs = take b (take c xs) @ drop b (take c xs)" by (rule append_take_drop_id [symmetric])
  also have "take b (take c xs) = take b xs" using assms(2) by (simp add: min_absorb1)
  finally have "drop a (take c xs) = drop a (take b xs @ drop b (take c xs))" by simp
  also have "\<dots> = drop a (take b xs) @ drop b (take c xs)"
    using assms(1) by (cases "b \<le> length xs") auto
  finally show ?thesis by (simp add: cut_def)
qed

lemma pieces_mset:
  "sorted_wrt (\<ge>) cs \<Longrightarrow> cs \<noteq> [] \<Longrightarrow>
    mset (concat (map (\<lambda>(b, a). cut a b xs) (windows2 cs))) = mset (cut (last cs) (hd cs) xs)"
proof (induction cs rule: windows2.induct)
  case (1 x y zs)
  then have "mset (concat (map (\<lambda>(b, a). cut a b xs) (windows2 (y # zs)))) = mset (cut (last (y # zs)) y xs)" by simp
  moreover have "last (y # zs) \<le> y" "y \<le> x" using 1(2) by (auto simp: last_in_set)
  ultimately show ?case using cut_join [of "last (y # zs)" y x xs]
    by (simp del: last.simps) (metis add.commute last_ConsR list.discI mset_append)
qed (auto simp: cut_def)

lemma windows2_map: "windows2 (map f xs) = map (map_prod f f) (windows2 xs)"
  by (induction xs rule: windows2.induct) auto

lemma windows2_set: "(x, y) \<in> set (windows2 xs) \<Longrightarrow> x \<in> set (butlast xs) \<and> y \<in> set (tl xs)"
  by (induction xs rule: windows2.induct) auto

lemma sorted_remdups_adj:
  assumes "sorted_wrt (\<lambda>a b. f b \<le> f a) xs" and "inj_on f (set xs)"
  shows "sorted_wrt (\<lambda>a b. f b < (f a :: nat)) (remdups_adj xs)"
  using assms
proof (induction xs rule: remdups_adj.induct)
  case (3 x y xs)
  show ?case
  proof (cases "x = y")
    case False
    have "f b < f x" if "b \<in> set (y # xs)" for b
    proof -
      have "f y < f x" using False 3(3,4) by (auto simp: order_le_less inj_on_def)
      moreover have "f b \<le> f y" using 3(3) that by auto
      ultimately show ?thesis by simp
    qed
    with False 3 show ?thesis by (auto simp: inj_on_def)
  qed (use 3 in \<open>auto simp: inj_on_def\<close>)
qed auto

lemma windows2_sorted: "(x, y) \<in> set (windows2 xs) \<Longrightarrow> sorted_wrt R xs \<Longrightarrow> R x y"
  by (induction xs rule: windows2.induct) auto

text \<open>
  The points between which a range is cut: oldest first, from the first to the last transaction of the
  range, all of the history. The bounds of the range name its two ends, if they name anything.
\<close>

definition chunk_points ::
  "Transaction list \<Rightarrow> TransactionId bound \<times> TransactionId bound \<Rightarrow> TransactionId \<Rightarrow> TransactionId list \<Rightarrow> TransactionId \<Rightarrow> bool" where
  "chunk_points hist rng first_tx mid last_tx \<longleftrightarrow>
     distinct (map transaction_id hist) \<and> first_tx \<noteq> last_tx
     \<and> set (first_tx # mid @ [last_tx]) \<subseteq> transaction_id ` set hist
     \<and> sorted_wrt (\<lambda>a b. position hist b \<le> position hist a) (first_tx # mid @ [last_tx])
     \<and> bound_tx (fst rng) \<in> {None, Some last_tx} \<and> bound_tx (snd rng) \<in> {None, Some first_tx}"

definition chunk_cut ::
  "Transaction list \<Rightarrow> TransactionId bound \<times> TransactionId bound \<Rightarrow> TransactionId \<Rightarrow> TransactionId \<Rightarrow> TransactionId \<Rightarrow> nat" where
  "chunk_cut hist rng first_tx last_tx p =
     (if p = first_tx then high hist (snd rng) else if p = last_tx then low hist (fst rng)
      else Suc (position hist p))"

lemma low_le: "bound_tx start \<in> {None, Some t} \<Longrightarrow> low hist start \<le> Suc (position hist t)"
  by (cases start) auto

lemma high_ge: "bound_tx finish \<in> {None, Some t} \<Longrightarrow> position hist t < length hist \<Longrightarrow> position hist t \<le> high hist finish"
  by (cases finish) auto

lemma chunk_points_positions:
  assumes "chunk_points hist rng first_tx mid last_tx" and "p \<in> set (first_tx # mid @ [last_tx])"
  shows "p \<in> transaction_id ` set hist" "position hist p < length hist"
    "position hist last_tx \<le> position hist p" "position hist p \<le> position hist first_tx"
    "position hist last_tx < position hist first_tx"
proof -
  have dist: "distinct (map transaction_id hist)" and ids: "set (first_tx # mid @ [last_tx]) \<subseteq> transaction_id ` set hist"
    using assms(1) by (auto simp: chunk_points_def)
  then show "p \<in> transaction_id ` set hist" "position hist p < length hist"
    using assms(2) position_nth(1) [OF dist] by blast+
  show "position hist last_tx \<le> position hist p" "position hist p \<le> position hist first_tx"
    using assms by (auto simp: chunk_points_def sorted_wrt_append)
  have "position hist last_tx \<le> position hist first_tx" using assms(1) by (simp add: chunk_points_def)
  moreover have "position hist last_tx \<noteq> position hist first_tx"
    using assms(1) ids position_inj [OF dist, of last_tx first_tx] by (auto simp: chunk_points_def)
  ultimately show "position hist last_tx < position hist first_tx" by simp
qed

lemma chunk_cut_mono:
  assumes cp: "chunk_points hist rng first_tx mid last_tx"
    and "l \<in> set (first_tx # mid @ [last_tx])" and "r \<in> set (first_tx # mid @ [last_tx])"
    and "position hist r < position hist l"
  shows "chunk_cut hist rng first_tx last_tx r \<le> chunk_cut hist rng first_tx last_tx l"
proof -
  note pl = chunk_points_positions [OF cp assms(2)] and pr = chunk_points_positions [OF cp assms(3)]
  have "r \<noteq> first_tx" "l \<noteq> last_tx" using pl(4) pr(3) assms(4) by auto
  then have "chunk_cut hist rng first_tx last_tx r \<le> Suc (position hist r)"
    using low_le [of "fst rng" last_tx hist] cp by (auto simp: chunk_cut_def chunk_points_def)
  also have "Suc (position hist r) \<le> position hist l" using assms(4) by simp
  also have "position hist l \<le> chunk_cut hist rng first_tx last_tx l"
    using \<open>l \<noteq> last_tx\<close> high_ge [of "snd rng" first_tx hist] pl(2) cp
    by (auto simp: chunk_cut_def chunk_points_def)
  finally show ?thesis .
qed

lemma window_range_pair:
  "window_range rng first_tx last_tx (l, r)
    = (if r = last_tx then fst rng else Excluded r, if l = first_tx then snd rng else Included l)"
  by (auto simp: window_range_def)

lemma window_cut:
  assumes cp: "chunk_points hist rng first_tx mid last_tx"
    and "l \<in> set (first_tx # mid @ [last_tx])" and "r \<in> set (first_tx # mid @ [last_tx])"
    and "position hist r < position hist l" and w: "w = window_range rng first_tx last_tx (l, r)"
  shows "upto_bound (snd w) (from_bound (fst w) hist)
      = cut (chunk_cut hist rng first_tx last_tx r) (chunk_cut hist rng first_tx last_tx l) hist"
    and "case bound_tx (fst w) of None \<Rightarrow> True | Some t \<Rightarrow> t \<in> transaction_id ` set hist"
proof -
  note pl = chunk_points_positions [OF cp assms(2)] and pr = chunk_points_positions [OF cp assms(3)]
  have dist: "distinct (map transaction_id hist)" using cp by (simp add: chunk_points_def)
  have ends: "r \<noteq> first_tx" "l \<noteq> last_tx" using pl(4) pr(3) assms(4) by auto
  obtain start finish where w_eq: "w = (start, finish)" by (cases w)
  then have start_def: "start = (if r = last_tx then fst rng else Excluded r)"
    and finish_def: "finish = (if l = first_tx then snd rng else Included l)"
    using w by (simp_all add: window_range_pair)
  have start: "bound_tx start \<in> {None, Some r}" and finish: "bound_tx finish \<in> {None, Some l}"
    using cp by (auto simp: start_def finish_def chunk_points_def)
  then show known: "case bound_tx (fst w) of None \<Rightarrow> True | Some t \<Rightarrow> t \<in> transaction_id ` set hist"
    using pr(1) w_eq by (auto split: option.splits)
  have "low hist start \<le> position hist l" using low_le [OF start] assms(4) by (meson Suc_leI le_trans)
  then have "upto_bound finish (drop (low hist start) hist) = cut (low hist start) (high hist finish) hist"
    by (intro upto_bound_cut [OF dist]) (use finish pl(1) in \<open>auto split: option.splits\<close>)
  moreover have "low hist start = chunk_cut hist rng first_tx last_tx r"
    "high hist finish = chunk_cut hist rng first_tx last_tx l"
    using ends by (auto simp: start_def finish_def chunk_cut_def)
  ultimately show "upto_bound (snd w) (from_bound (fst w) hist)
      = cut (chunk_cut hist rng first_tx last_tx r) (chunk_cut hist rng first_tx last_tx l) hist"
    using from_bound_drop [OF dist known] w_eq by simp
qed

lemma chunk_points_strict:
  assumes "chunk_points hist rng first_tx mid last_tx"
  shows "sorted_wrt (\<lambda>a b. position hist b < position hist a) (remdups_adj (first_tx # mid @ [last_tx]))"
proof (rule sorted_remdups_adj)
  show "inj_on (position hist) (set (first_tx # mid @ [last_tx]))"
    using position_inj [of hist] assms unfolding chunk_points_def inj_on_def by blast
qed (use assms in \<open>simp add: chunk_points_def\<close>)

lemma chunk_window:
  assumes "chunk_points hist rng first_tx mid last_tx"
    and "(l, r) \<in> set (windows2 (remdups_adj (first_tx # mid @ [last_tx])))"
  shows "l \<in> set (first_tx # mid @ [last_tx])" "r \<in> set (first_tx # mid @ [last_tx])" "position hist r < position hist l"
  using windows2_sorted [OF assms(2) chunk_points_strict [OF assms(1)]] windows2_set [OF assms(2)]
    remdups_adj_set [of "first_tx # mid @ [last_tx]"]
  by (metis in_set_butlastD, metis list.sel(2) list.set_sel(2), blast)

lemma windows_partition:
  assumes cp: "chunk_points hist rng first_tx mid last_tx"
    and ws: "ws = map (window_range rng first_tx last_tx) (windows2 (remdups_adj (first_tx # mid @ [last_tx])))"
  shows "\<forall>w \<in> set ws. case bound_tx (fst w) of None \<Rightarrow> True | Some t \<Rightarrow> t \<in> transaction_id ` set hist"
    and "mset (concat (map (\<lambda>w. upto_bound (snd w) (from_bound (fst w) hist)) ws))
      = mset (upto_bound (snd rng) (from_bound (fst rng) hist))"
proof -
  let ?ps = "remdups_adj (first_tx # mid @ [last_tx])" and ?cut = "chunk_cut hist rng first_tx last_tx"
  have dist: "distinct (map transaction_id hist)" using cp by (simp add: chunk_points_def)
  show "\<forall>w \<in> set ws. case bound_tx (fst w) of None \<Rightarrow> True | Some t \<Rightarrow> t \<in> transaction_id ` set hist"
  proof
    fix w assume "w \<in> set ws"
    then obtain l r where "(l, r) \<in> set (windows2 ?ps)" "w = window_range rng first_tx last_tx (l, r)"
      unfolding ws set_map by fast
    then show "case bound_tx (fst w) of None \<Rightarrow> True | Some t \<Rightarrow> t \<in> transaction_id ` set hist"
      using window_cut(2) [OF cp chunk_window [OF cp]] by blast
  qed
  have "map (\<lambda>w. upto_bound (snd w) (from_bound (fst w) hist)) ws
      = map (\<lambda>(b, a). cut a b hist) (windows2 (map ?cut ?ps))"
    unfolding ws windows2_map map_map
  proof (rule map_cong [OF refl])
    fix lr assume "lr \<in> set (windows2 ?ps)"
    moreover obtain l r where "lr = (l, r)" by (cases lr)
    ultimately show "((\<lambda>w. upto_bound (snd w) (from_bound (fst w) hist)) \<circ> window_range rng first_tx last_tx) lr
        = ((\<lambda>(b, a). cut a b hist) \<circ> map_prod ?cut ?cut) lr"
      using window_cut(1) [OF cp chunk_window [OF cp] refl, of l r] by (simp only: o_apply map_prod_simp prod.case)
  qed
  moreover have "sorted_wrt (\<ge>) (map ?cut ?ps)"
    unfolding sorted_wrt_map
    by (rule sorted_wrt_mono_rel [OF _ chunk_points_strict [OF cp]]) (use chunk_cut_mono [OF cp] in auto)
  moreover have "hd ?ps = first_tx" "last ?ps = last_tx" "?ps \<noteq> []" by (simp_all add: last_remdups_adj)
  ultimately have "mset (concat (map (\<lambda>w. upto_bound (snd w) (from_bound (fst w) hist)) ws))
      = mset (cut (?cut last_tx) (?cut first_tx) hist)"
    using pieces_mset [of "map ?cut ?ps" hist] by (simp add: last_map hd_map)
  also have "cut (?cut last_tx) (?cut first_tx) hist = upto_bound (snd rng) (from_bound (fst rng) hist)"
    using window_cut(1) [OF cp _ _ chunk_points_positions(5) [OF cp, of first_tx] refl]
    by (simp add: window_range_pair)
  finally show "mset (concat (map (\<lambda>w. upto_bound (snd w) (from_bound (fst w) hist)) ws))
      = mset (upto_bound (snd rng) (from_bound (fst rng) hist))" .
qed

lemma gather_io_ok:
  assumes "\<forall>x \<in> set xs. \<forall>s. \<exists>s'. f x s = (Inr (g x), s')"
  shows "\<exists>s'. gather_io f xs s = (Inr (map g xs), s')"
  using assms
proof (induction xs arbitrary: s)
  case (Cons x xs)
  obtain s1 where "f x s = (Inr (g x), s1)" using Cons.prems by (meson list.set_intros(1))
  moreover obtain s2 where "gather_io f xs s1 = (Inr (map g xs), s2)" using Cons by (meson list.set_intros(2))
  ultimately show ?case by simp
qed simp

lemma chunk_plan_steps:
  assumes "0 \<le> first_seqno" and "last_seqno < 2 ^ 31" and "28800 \<le> last_seqno - first_seqno"
  obtains chunks step where "chunk_plan first_seqno last_seqno = Inr (chunks, step)"
    "\<And>i. i \<in> {1..chunks - 1} \<Longrightarrow> wrap_i32 (first_seqno + wrap_i32 (step * i)) = first_seqno + step * i
      \<and> first_seqno \<le> first_seqno + step * i \<and> first_seqno + step * i \<le> last_seqno" and "0 < step"
proof -
  define d where "d = last_seqno - first_seqno"
  define chunks where "chunks = min 256 (d div 28800)"
  have d: "28800 \<le> d" "i32_range d" "0 < d" using assms by (auto simp: d_def i32_range_def)
  have chunks: "1 \<le> chunks" "chunks \<le> d" using d(1) by (auto simp: chunks_def)
  have "chunk_plan first_seqno last_seqno = Inr (chunks, d div chunks)"
    using d chunks by (simp add: chunk_plan_def wrap_i32_id rust_div_def Let_def chunks_def flip: d_def)
  moreover have "wrap_i32 (first_seqno + wrap_i32 (d div chunks * i)) = first_seqno + d div chunks * i
      \<and> first_seqno \<le> first_seqno + d div chunks * i \<and> first_seqno + d div chunks * i \<le> last_seqno"
    if "i \<in> {1..chunks - 1}" for i
  proof -
    have "0 \<le> d div chunks" using d(3) chunks(1) by (simp add: pos_imp_zdiv_nonneg_iff)
    then have "0 \<le> d div chunks * i" using that by simp
    moreover have "d div chunks * i \<le> d div chunks * chunks"
      using that \<open>0 \<le> d div chunks\<close> by (intro mult_left_mono) auto
    moreover have "d div chunks * chunks + d mod chunks = d" "0 \<le> d mod chunks" using chunks(1) by simp_all
    ultimately have "d div chunks * i \<le> d" "0 \<le> d div chunks * i" by linarith+
    then show ?thesis using assms d by (simp add: wrap_i32_id i32_range_def d_def)
  qed
  moreover have "0 < d div chunks" using chunks d(3) by (simp add: pos_imp_zdiv_pos_iff)
  ultimately show thesis using that by blast
qed

lemma chunk_plan_short: "0 \<le> last_seqno - first_seqno \<Longrightarrow> last_seqno - first_seqno < 28800 \<Longrightarrow>
    chunk_plan first_seqno last_seqno = Inl ''attempt to divide by zero''"
  by (simp add: chunk_plan_def wrap_i32_id i32_range_def rust_div_def Let_def)

text \<open>
  What the liteserver answers along the history: the block of each end of the range, and for every block
  between them the last transaction of the account at that block, never older at a later block.
\<close>

definition serves_range ::
  "'s handlers \<Rightarrow> SmartContractAddress \<Rightarrow> Transaction list \<Rightarrow> (TransactionId \<Rightarrow> BlockIdExt) \<Rightarrow> (i32 \<Rightarrow> TransactionId)
     \<Rightarrow> TransactionId \<Rightarrow> TransactionId \<Rightarrow> bool" where
  "serves_range client address hist block_of latest first_tx last_tx \<longleftrightarrow>
     serves_account client address hist \<and> {first_tx, last_tx} \<subseteq> transaction_id ` set hist
     \<and> (\<forall>t \<in> {first_tx, last_tx}. \<forall>s. \<exists>a s'.
          on_get_account_state_by_transaction client address t s = (Inr a, s') \<and> account_block_id a = block_of t)
     \<and> 0 \<le> seqno (block_of first_tx) \<and> seqno (block_of first_tx) \<le> seqno (block_of last_tx)
     \<and> seqno (block_of last_tx) < 2 ^ 31
     \<and> position hist last_tx \<le> position hist first_tx
     \<and> (\<forall>n \<in> {seqno (block_of first_tx)..seqno (block_of last_tx)}.
          (\<forall>s. \<exists>s'. mid_tx client address (workchain (block_of first_tx)) (shard (block_of first_tx)) n s
            = (Inr (latest n), s'))
          \<and> latest n \<in> transaction_id ` set hist
          \<and> position hist last_tx \<le> position hist (latest n) \<and> position hist (latest n) \<le> position hist first_tx
          \<and> (\<forall>n' \<in> {n..seqno (block_of last_tx)}. position hist (latest n') \<le> position hist (latest n)))"

lemma serves_range_points:
  assumes "serves_range client address hist block_of latest first_tx last_tx"
    and "first_tx \<noteq> last_tx" and "0 < step"
    and "\<And>i. i \<in> {1..k} \<Longrightarrow> seqno (block_of first_tx) + step * i \<le> seqno (block_of last_tx)"
    and "bound_tx (fst rng) \<in> {None, Some last_tx}" and "bound_tx (snd rng) \<in> {None, Some first_tx}"
  shows "chunk_points hist rng first_tx (map (\<lambda>i. latest (seqno (block_of first_tx) + step * i)) [1..k]) last_tx"
proof -
  let ?n = "\<lambda>i. seqno (block_of first_tx) + step * i"
  have range: "?n i \<in> {seqno (block_of first_tx)..seqno (block_of last_tx)}" if "i \<in> {1..k}" for i
    using assms(3) assms(4) [OF that] that by simp
  have at: "latest n \<in> transaction_id ` set hist" "position hist last_tx \<le> position hist (latest n)"
    "position hist (latest n) \<le> position hist first_tx"
    "\<forall>n' \<in> {n..seqno (block_of last_tx)}. position hist (latest n') \<le> position hist (latest n)"
    if "n \<in> {seqno (block_of first_tx)..seqno (block_of last_tx)}" for n
    using assms(1) that unfolding serves_range_def by blast+
  have "sorted_wrt (\<lambda>i j. position hist (latest (?n j)) \<le> position hist (latest (?n i))) [1..k]"
  proof (rule sorted_wrt_mono_rel [where P = "(<)"])
    fix i j assume "i \<in> set [1..k]" "j \<in> set [1..k]" "i < j"
    then show "position hist (latest (?n j)) \<le> position hist (latest (?n i))"
      using at(4) [OF range [of i]] range [of j] assms(3) by (simp add: mult_le_cancel_left_pos)
  qed (rule sorted_wrt_upto)
  then show ?thesis
    using assms(1,2,5,6) at range
    by (auto simp: chunk_points_def serves_range_def serves_account_def sorted_wrt_append sorted_wrt_map)
qed

section \<open>Properties\<close>

lemma history_server_serves:
  assumes "distinct (map transaction_id hist)"
  shows "serves_account (history_server hist) address hist"
proof -
  have "\<exists>m s'. 0 < m \<and> on_get_account_transactions (history_server hist) address (transaction_id (hist ! i)) s
      = (Inr \<lparr>account_transactions = take m (drop i hist), previous_transaction_id =
          (if i + m < length hist then Some (transaction_id (hist ! (i + m))) else None)\<rparr>, s')" if "i < length hist" for i s
    using dropWhile_id(1) [OF assms that refl]
    by (intro exI [of _ 2]) (auto simp: history_server_def Let_def ok_io_def hd_id_def hd_drop_conv_nth add.commute
        split: list.split dest: arg_cong [where f = hd] arg_cong [where f = length])
  moreover have "hd_id hist = (if hist = [] then None else Some (transaction_id (hd hist)))"
    by (simp add: hd_id_def split: list.split)
  ultimately show ?thesis
    using assms by (simp add: serves_account_def history_server_def ok_io_def demo_state_def)
qed

lemma windows_run:
  assumes "serves_account client address hist" and "chunk_points hist rng first_tx mid last_tx"
    and "ws = map (window_range rng first_tx last_tx) (windows2 (remdups_adj (first_tx # mid @ [last_tx])))"
  shows "list_all2 (\<lambda>w ys. \<forall>s. \<exists>s'. get_account_tx_range client address w s = Some ((ys, Inr ()), s'))
    ws (map (\<lambda>w. upto_bound (snd w) (from_bound (fst w) hist)) ws)"
  unfolding list_all2_map2
proof (rule list.rel_refl_strong, intro allI)
  fix w s assume "w \<in> set ws"
  then show "\<exists>s'. get_account_tx_range client address w s = Some ((upto_bound (snd w) (from_bound (fst w) hist), Inr ()), s')"
    using account_range_runs [OF assms(1), of "fst w" "snd w" s] windows_partition(1) [OF assms(2,3)] by simp
qed

text \<open>
  C10. A range of an account is the part of its history it names. If the liteserver serves the history
  page by page and the start of the range is unbounded or a transaction of the account, the stream ends
  without an error and yields exactly the transactions from the start to the end of the range, newest
  first, with or without the two ends as the bounds say, however the pages are cut.
\<close>

theorem account_range_exact:
  assumes "serves_account client address hist"
    and "case bound_tx start of None \<Rightarrow> True | Some t \<Rightarrow> t \<in> transaction_id ` set hist"
  shows "\<exists>s'. get_account_tx_range client address (start, finish) s
    = Some ((upto_bound finish (from_bound start hist), Inr ()), s')"
  using account_range_runs [OF assms] .

theorem account_range_exact_witness:
  "\<exists>s'. get_account_tx_range (history_server (map (demo_tx (Raw 0 [])) [5, 4, 3, 2, 1])) (Raw 0 [])
      (Excluded \<lparr>tx_lt = 5, tx_hash = []\<rparr>, Included \<lparr>tx_lt = 2, tx_hash = []\<rparr>) ()
    = Some ((map (demo_tx (Raw 0 [])) [4, 3, 2], Inr ()), s')"
proof -
  let ?hist = "map (demo_tx (Raw 0 [])) [5, 4, 3, 2, 1]"
  have "distinct (map transaction_id ?hist)" by (simp add: demo_tx_def)
  from account_range_exact [OF history_server_serves [OF this], of "Excluded \<lparr>tx_lt = 5, tx_hash = []\<rparr>"
      "Raw 0 []" "Included \<lparr>tx_lt = 2, tx_hash = []\<rparr>" "()"]
  show ?thesis by (simp add: demo_tx_def)
qed

text \<open>
  C6. A range read in chunks is the same range. If the blocks of its two ends are less than 28800 apart,
  the code divides by zero and panics. Otherwise it starts one stream for each chunk; each of them ends
  without an error, and together they yield every transaction of the range exactly once.
\<close>

theorem range_in_chunks:
  assumes "serves_range client address hist block_of latest first_tx last_tx"
    and "range_last_tx client address (fst rng) s = (Inr last_tx, s1)"
    and "range_first_tx client address (snd rng) s1 = Some (Inr first_tx, s2)"
  shows "if seqno (block_of last_tx) - seqno (block_of first_tx) < 28800
    then \<exists>s'. get_account_tx_range_unordered client address rng s = Some (Inl ''attempt to divide by zero'', s')
    else \<exists>ws yss s'. get_account_tx_range_unordered client address rng s = Some (Inr (Inr ws), s')
      \<and> list_all2 (\<lambda>w ys. \<forall>s. \<exists>s'. get_account_tx_range client address w s = Some ((ys, Inr ()), s')) ws yss
      \<and> mset (concat yss) = mset (upto_bound (snd rng) (from_bound (fst rng) hist))"
proof -
  let ?fb = "block_of first_tx" and ?lb = "block_of last_tx"
  obtain a s3 where a: "on_get_account_state_by_transaction client address last_tx s2 = (Inr a, s3)" "account_block_id a = ?lb"
    using assms(1) unfolding serves_range_def by blast
  obtain b s4 where b: "on_get_account_state_by_transaction client address first_tx s3 = (Inr b, s4)" "account_block_id b = ?fb"
    using assms(1) unfolding serves_range_def by blast
  have seqnos: "0 \<le> seqno ?fb" "seqno ?fb \<le> seqno ?lb" "seqno ?lb < 2 ^ 31" and serves: "serves_account client address hist"
    using assms(1) by (auto simp: serves_range_def)
  show ?thesis
  proof (cases "seqno ?lb - seqno ?fb < 28800")
    case True
    with chunk_plan_short [of "seqno ?lb" "seqno ?fb"] seqnos(2) a b assms(2,3) show ?thesis
      by (simp add: get_account_tx_range_unordered_def Let_def)
  next
    case False
    then have "first_tx \<noteq> last_tx" by auto
    obtain chunks step where plan: "chunk_plan (seqno ?fb) (seqno ?lb) = Inr (chunks, step)"
      "\<And>i. i \<in> {1..chunks - 1} \<Longrightarrow> wrap_i32 (seqno ?fb + wrap_i32 (step * i)) = seqno ?fb + step * i
        \<and> seqno ?fb \<le> seqno ?fb + step * i \<and> seqno ?fb + step * i \<le> seqno ?lb" "0 < step"
      using chunk_plan_steps [OF seqnos(1,3)] False by (metis not_less)
    let ?mid = "map (\<lambda>i. latest (seqno ?fb + step * i)) [1..chunks - 1]"
    obtain s5 where mid: "gather_io (\<lambda>i. mid_tx client address (workchain ?fb) (shard ?fb)
        (wrap_i32 (seqno ?fb + wrap_i32 (step * i)))) [1..chunks - 1] s4 = (Inr ?mid, s5)"
      using gather_io_ok [of "[1..chunks - 1]" "\<lambda>i. mid_tx client address (workchain ?fb) (shard ?fb)
        (wrap_i32 (seqno ?fb + wrap_i32 (step * i)))" "\<lambda>i. latest (seqno ?fb + step * i)" s4] plan(2) assms(1)
      unfolding serves_range_def by force
    define ws where "ws = map (window_range rng first_tx last_tx) (windows2 (remdups_adj (first_tx # ?mid @ [last_tx])))"
    have "get_account_tx_range_unordered client address rng s = Some (Inr (Inr ws), s5)"
      using a b assms(2,3) plan(1) mid by (simp add: get_account_tx_range_unordered_def Let_def ws_def)
    moreover have "bound_tx (fst rng) \<in> {None, Some last_tx}" "bound_tx (snd rng) \<in> {None, Some first_tx}"
      using assms(2,3) by (auto simp: range_last_tx_def range_first_tx_def ok_io_def split: option.splits)
    then have points: "chunk_points hist rng first_tx ?mid last_tx"
      using serves_range_points [OF assms(1) \<open>first_tx \<noteq> last_tx\<close> plan(3)] plan(2) by blast
    ultimately show ?thesis
      using False windows_run [OF serves points ws_def] windows_partition(2) [OF points ws_def] by auto
  qed
qed

definition demo_history :: "Transaction list" where
  "demo_history = map (demo_tx (Raw 0 [])) [5, 3, 1]"

definition demo_id :: "i64 \<Rightarrow> TransactionId" where
  "demo_id lt = \<lparr>tx_lt = lt, tx_hash = []\<rparr>"

definition demo_latest :: "i32 \<Rightarrow> TransactionId" where
  "demo_latest n = (if 100000 \<le> n then demo_id 5 else if 60000 \<le> n then demo_id 3 else demo_id 1)"

lemma demo_history_ids: "transaction_id ` set demo_history = {demo_id 5, demo_id 3, demo_id 1}"
  by (simp add: demo_history_def demo_tx_def demo_id_def)

lemma demo_simps [simp]: "tx_lt (demo_id n) = n" "seqno (demo_block n) = n"
  by (simp_all add: demo_id_def demo_block_def)

lemma demo_positions [simp]:
  "position demo_history (demo_id 5) = 0" "position demo_history (demo_id 3) = 1" "position demo_history (demo_id 1) = 2"
  by (simp_all add: position_def demo_history_def demo_tx_def demo_id_def)

lemma demo_serves_range:
  "serves_range (history_server demo_history) (Raw 0 []) demo_history (\<lambda>t. demo_block (20000 * tx_lt t)) demo_latest
    (demo_id 1) (demo_id 5)"
proof -
  have "distinct (map transaction_id demo_history)" by (simp add: demo_history_def demo_tx_def)
  moreover have "latest_tx demo_history n = Some (demo_latest n)" if "20000 \<le> n" for n
    using that by (simp add: latest_tx_def demo_history_def demo_tx_def demo_latest_def demo_id_def hd_id_def)
  then have "mid_tx (history_server demo_history) (Raw 0 []) wc sh n s = (Inr (demo_latest n), s)" if "20000 \<le> n" for n wc sh s
    using that by (simp add: mid_tx_def history_server_def bind_io_def ok_io_def lift_io_def demo_block_def demo_state_def)
  moreover have "\<exists>a s'. on_get_account_state_by_transaction (history_server demo_history) (Raw 0 []) t s = (Inr a, s')
      \<and> account_block_id a = demo_block (20000 * tx_lt t)" for t s
    by (simp add: history_server_def ok_io_def demo_state_def)
  ultimately show ?thesis
    using history_server_serves [of demo_history "Raw 0 []"] demo_history_ids
    by (simp add: serves_range_def) (auto simp: demo_latest_def)
qed

theorem range_in_chunks_witness:
  "\<exists>ws yss s'. get_account_tx_range_unordered (history_server demo_history) (Raw 0 [])
        (Included (demo_id 5), Excluded (demo_id 1)) () = Some (Inr (Inr ws), s')
    \<and> list_all2 (\<lambda>w ys. \<forall>s. \<exists>s'. get_account_tx_range (history_server demo_history) (Raw 0 []) w s
        = Some ((ys, Inr ()), s')) ws yss
    \<and> mset (concat yss) = {#demo_tx (Raw 0 []) 5, demo_tx (Raw 0 []) 3#}"
proof -
  have "upto_bound (Excluded (demo_id 1)) (from_bound (Included (demo_id 5)) demo_history)
      = [demo_tx (Raw 0 []) 5, demo_tx (Raw 0 []) 3]"
    by (simp add: demo_history_def demo_tx_def demo_id_def)
  then show ?thesis
    using range_in_chunks [OF demo_serves_range, of "(Included (demo_id 5), Excluded (demo_id 1))" "()" "()" "()"]
    by (simp add: range_last_tx_def range_first_tx_def ok_io_def demo_block_def demo_id_def)
qed

end
