(* ===== verification/Liteserver_Client.thy ===== *)
theory Liteserver_Client
  imports Adnl_Codec Tl_Codegen
begin

text \<open>
  The client of one liteserver (\<open>ton-liteserver-client\<close>: \<open>client.rs\<close>, \<open>make.rs\<close>):
  the task that owns the connection, the calls that hand it their queries, and the futures that wait for the
  answers. The structs \<open>adnl.message.query\<close>, \<open>adnl.message.answer\<close>, \<open>liteServer.query\<close> and
  \<open>liteServer.error\<close> are generated from a schema that is a submodule: their constructor numbers are
  the parameter \<open>tl_numbers\<close>, their fields are those that \<open>client.rs\<close> and the tests of
  \<open>tl.rs\<close> use. Oneshot channels are numbered; what an asynchronous step meets (packets, results of
  writes, random values) is the argument of the step.
\<close>

section \<open>Messages\<close>

record tl_numbers =
  adnl_query_number :: u32
  adnl_answer_number :: u32
  ls_query_number :: u32
  ls_error_number :: u32

definition adnl_query_fields :: "Field list" where
  "adnl_query_fields =
     [Field (Some ''query_id'') (PlainType ''int256'' None) False,
      Field (Some ''query'') (PlainType ''bytes'' None) False]"

definition adnl_answer_fields :: "Field list" where
  "adnl_answer_fields =
     [Field (Some ''query_id'') (PlainType ''int256'' None) False,
      Field (Some ''answer'') (PlainType ''bytes'' None) False]"

definition ls_query_fields :: "Field list" where
  "ls_query_fields = [Field (Some ''data'') (PlainType ''bytes'' None) False]"

definition ls_error_fields :: "Field list" where
  "ls_error_fields =
     [Field (Some ''code'') (PlainType ''int'' None) False,
      Field (Some ''message'') (PlainType ''string'' None) False]"

record AdnlMessageQuery =
  query_id :: Int256
  query :: bytes

record AdnlMessageAnswer =
  answer_id :: Int256
  answer :: bytes

definition adnl_query_bytes :: "'v tl_env \<Rightarrow> tl_numbers \<Rightarrow> AdnlMessageQuery \<Rightarrow> bytes" where
  "adnl_query_bytes E N q = to_bytes_boxed (struct_serialize_boxed E (adnl_query_number N) adnl_query_fields)
     [Some (VInt256 (query_id q)), Some (VBytes (query q))]"

definition adnl_answer_bytes :: "'v tl_env \<Rightarrow> tl_numbers \<Rightarrow> AdnlMessageAnswer \<Rightarrow> bytes" where
  "adnl_answer_bytes E N a = to_bytes_boxed (struct_serialize_boxed E (adnl_answer_number N) adnl_answer_fields)
     [Some (VInt256 (answer_id a)), Some (VBytes (answer a))]"

definition ls_query_bytes :: "'v tl_env \<Rightarrow> tl_numbers \<Rightarrow> bytes \<Rightarrow> bytes" where
  "ls_query_bytes E N bs =
     to_bytes_boxed (struct_serialize_boxed E (ls_query_number N) ls_query_fields) [Some (VBytes bs)]"

fun answer_of_values :: "'v tl_value option list \<Rightarrow> AdnlMessageAnswer option" where
  "answer_of_values [Some (VInt256 i), Some (VBytes a)] = Some \<lparr>answer_id = i, answer = a\<rparr>"
| "answer_of_values _ = None"

text \<open>\<open>from_bytes_boxed::<AdnlMessageAnswer>\<close> with \<open>None\<close> for every error.\<close>

definition parse_answer :: "'v tl_env \<Rightarrow> tl_numbers \<Rightarrow> bytes \<Rightarrow> AdnlMessageAnswer option" where
  "parse_answer E N bs =
     (case from_bytes_boxed (struct_deserialize_boxed E (adnl_answer_number N) adnl_answer_fields) bs of
        Inl _ \<Rightarrow> None
      | Inr vs \<Rightarrow> answer_of_values vs)"

section \<open>The task that owns the connection\<close>

datatype oneshot = Open | Sent bytes | Dropped

datatype actor_status = Running | Stopped | Panicked string

record ls_client =
  status :: actor_status
  queue :: "(AdnlMessageQuery \<times> nat) list"
  responses :: "Int256 \<rightharpoonup> nat"
  oneshots :: "oneshot list"
  outgoing :: "Packet list"

definition ls_connect :: ls_client where
  "ls_connect = \<lparr>status = Running, queue = [], responses = Map.empty, oneshots = [], outgoing = []\<rparr>"

definition drop_sender :: "oneshot \<Rightarrow> oneshot" where
  "drop_sender o1 = (case o1 of Open \<Rightarrow> Dropped | _ \<Rightarrow> o1)"

text \<open>
  The end of the task, by \<open>break\<close>, \<open>return\<close> or a panic: the map of the waiting senders and the
  receiver with the senders of the queued queries are dropped.
\<close>

definition actor_end :: "actor_status \<Rightarrow> ls_client \<Rightarrow> ls_client" where
  "actor_end s c = c\<lparr>status := s, queue := [], responses := Map.empty,
     oneshots := map drop_sender (oneshots c)\<rparr>"

text \<open>
  What wakes the task up: the cancellation, a packet or a read error, a query of the channel (with the nonce
  of its packet and the result of the write), the tick of the interval (with nonce, random value and result).
\<close>

datatype actor_event =
    Cancel
  | Incoming "anyhow + Packet"
  | Query bytes bool
  | Tick bytes u64 bool

text \<open>\<open>HashMap::insert\<close> drops the sender that was there before.\<close>

definition insert_response :: "Int256 \<Rightarrow> nat \<Rightarrow> ls_client \<Rightarrow> ls_client" where
  "insert_response qid i c =
     c\<lparr>responses := (responses c)(qid \<mapsto> i),
       oneshots := (case responses c qid of
           None \<Rightarrow> oneshots c
         | Some j \<Rightarrow> (oneshots c)[j := drop_sender (oneshots c ! j)])\<rparr>"

definition on_packet :: "'v tl_env \<Rightarrow> tl_numbers \<Rightarrow> Packet \<Rightarrow> ls_client \<Rightarrow> ls_client" where
  "on_packet E N packet c =
     (if is_pong_packet packet then c
      else case parse_answer E N (pdata packet) of
        None \<Rightarrow> actor_end (Panicked ''expect adnl answer packet'') c
      | Some a \<Rightarrow>
          (case responses c (answer_id a) of
             None \<Rightarrow> c
           | Some i \<Rightarrow> c\<lparr>responses := (responses c)(answer_id a := None),
                          oneshots := (oneshots c)[i := Sent (answer a)]\<rparr>))"

fun actor_run ::
  "('c, 'pk, 'sk) crypto \<Rightarrow> 'v tl_env \<Rightarrow> tl_numbers \<Rightarrow> actor_event \<Rightarrow> ls_client \<Rightarrow> ls_client" where
  "actor_run K E N Cancel c = actor_end Stopped c"
| "actor_run K E N (Incoming (Inr packet)) c = on_packet E N packet c"
| "actor_run K E N (Incoming (Inl _)) c = actor_end Stopped c"
| "actor_run K E N (Query nc sent) c =
     (case queue c of
        [] \<Rightarrow> c
      | (q, i) # rest \<Rightarrow>
          let c' = insert_response (query_id q) i (c\<lparr>queue := rest\<rparr>) in
          if sent then c'\<lparr>outgoing := outgoing c @ [packet_new K nc (adnl_query_bytes E N q)]\<rparr>
          else actor_end (Panicked ''expect to send adnl query packet'') c')"
| "actor_run K E N (Tick nc rnd sent) c =
     (if sent then c\<lparr>outgoing := outgoing c @ [ping_packet K nc rnd]\<rparr>
      else actor_end (Panicked ''expect to send ping packet'') c)"

text \<open>Events reach the task only while its loop runs.\<close>

definition actor_step ::
  "('c, 'pk, 'sk) crypto \<Rightarrow> 'v tl_env \<Rightarrow> tl_numbers \<Rightarrow> actor_event \<Rightarrow> ls_client \<Rightarrow> ls_client" where
  "actor_step K E N e c = (if status c = Running then actor_run K E N e c else c)"

section \<open>The service\<close>

datatype ls_error =
    LiteServerError i32 bytes
  | Deserialize
  | ChannelClosed
  | OneshotClosed
  | Elapsed
  | Connection string

definition ls_poll_ready :: "ls_client \<Rightarrow> (ls_error + unit) poll" where
  "ls_poll_ready c = (if status c \<noteq> Running then Ready (Inl ChannelClosed) else Ready (Inr ()))"

text \<open>The state of a response future: an error to report once, or the receiver until it has completed.\<close>

datatype ResponseState = Failed "ls_error option" | Rx "nat option"

text \<open>\<open>data\<close> is the encoded request and \<open>qid\<close> the random number of the query.\<close>

definition ls_call ::
  "'v tl_env \<Rightarrow> tl_numbers \<Rightarrow> bytes \<Rightarrow> Int256 \<Rightarrow> ls_client \<Rightarrow> ResponseState \<times> ls_client" where
  "ls_call E N data qid c =
     (let q = \<lparr>query_id = qid, query = ls_query_bytes E N data\<rparr>; i = length (oneshots c) in
      if status c \<noteq> Running then (Failed (Some ChannelClosed), c)
      else (Rx (Some i), c\<lparr>queue := queue c @ [(q, i)], oneshots := oneshots c @ [Open]\<rparr>))"

fun ls_error_of :: "'v tl_value option list \<Rightarrow> ls_error" where
  "ls_error_of [Some (VInt code), Some (VString message)] = LiteServerError code message"
| "ls_error_of _ = Deserialize"

definition parse_response :: "'v tl_env \<Rightarrow> tl_numbers \<Rightarrow> (u32 \<Rightarrow> 'r de) \<Rightarrow> bytes \<Rightarrow> (ls_error + 'r) may_panic" where
  "parse_response E N response_de bs =
     (case from_bytes_boxed (result_deserialize_boxed response_de
             (struct_deserialize_boxed E (ls_error_number N) ls_error_fields)) bs of
        Inl TlPanic \<Rightarrow> Inl ''cannot advance past the end of the buffer''
      | Inl _ \<Rightarrow> Inr (Inl Deserialize)
      | Inr (Inl e) \<Rightarrow> Inr (Inl (ls_error_of e))
      | Inr (Inr response) \<Rightarrow> Inr (Inr response))"

fun response_poll ::
  "'v tl_env \<Rightarrow> tl_numbers \<Rightarrow> (u32 \<Rightarrow> 'r de) \<Rightarrow> ResponseState \<Rightarrow> ls_client
     \<Rightarrow> ((ls_error + 'r) poll \<times> ResponseState) may_panic" where
  "response_poll E N response_de (Failed (Some e)) c = Inr (Ready (Inl e), Failed None)"
| "response_poll E N response_de (Failed None) c = Inl ''polled after error''"
| "response_poll E N response_de (Rx None) c = Inl ''called after complete''"
| "response_poll E N response_de (Rx (Some i)) c =
     (case oneshots c ! i of
        Open \<Rightarrow> Inr (Pending, Rx (Some i))
      | Sent bs \<Rightarrow> map_ok (\<lambda>r. (Ready r, Rx None)) (parse_response E N response_de bs)
      | Dropped \<Rightarrow> Inr (Ready (Inl OneshotClosed), Rx None))"

section \<open>Connecting again\<close>

text \<open>
  The delays come from an iterator, \<open>ExponentialBackoff\<close> with jitter, which is third-party code; the
  timer is the time at which the sleep is over.
\<close>

record 'it MakeLiteServerClient =
  retry_strategy :: 'it
  sleep_until :: "nat option"

definition make_new :: "'it \<Rightarrow> 'it MakeLiteServerClient" where
  "make_new strategy = \<lparr>retry_strategy = strategy, sleep_until = None\<rparr>"

definition make_poll_ready :: "nat \<Rightarrow> 'it MakeLiteServerClient \<Rightarrow> (anyhow + unit) poll" where
  "make_poll_ready now m =
     (case sleep_until m of
        None \<Rightarrow> Ready (Inr ())
      | Some t \<Rightarrow> if t \<le> now then Ready (Inr ()) else Pending)"

definition make_call ::
  "('it \<Rightarrow> (nat \<times> 'it) option) \<Rightarrow> (anyhow + ls_client) \<Rightarrow> nat \<Rightarrow> 'it MakeLiteServerClient
     \<Rightarrow> (anyhow + ls_client) \<times> 'it MakeLiteServerClient" where
  "make_call next_delay connected now m =
     (connected,
      case next_delay (retry_strategy m) of
        Some (d, it) \<Rightarrow> m\<lparr>retry_strategy := it, sleep_until := Some (now + d)\<rparr>
      | None \<Rightarrow> m)"

lemma make_waits:
  assumes "next_delay (retry_strategy m) = Some (d, it)"
  shows "make_poll_ready t (snd (make_call next_delay conn now m)) = Ready (Inr ()) \<longleftrightarrow> now + d \<le> t"
  using assms by (simp add: make_poll_ready_def make_call_def)

section \<open>Runs\<close>

text \<open>
  Calls and events in any order. An event happens only while the task runs, and the branch for a query is
  taken only when the channel has one.
\<close>

datatype client_op = Call bytes Int256 | Event actor_event

fun event_enabled :: "actor_event \<Rightarrow> ls_client \<Rightarrow> bool" where
  "event_enabled (Query _ _) c \<longleftrightarrow> status c = Running \<and> queue c \<noteq> []"
| "event_enabled _ c \<longleftrightarrow> status c = Running"

fun ls_step ::
  "('c, 'pk, 'sk) crypto \<Rightarrow> 'v tl_env \<Rightarrow> tl_numbers \<Rightarrow> client_op \<Rightarrow> ls_client \<Rightarrow> ls_client option" where
  "ls_step K E N (Call data qid) c = Some (snd (ls_call E N data qid c))"
| "ls_step K E N (Event e) c = (if event_enabled e c then Some (actor_step K E N e c) else None)"

fun ls_run ::
  "('c, 'pk, 'sk) crypto \<Rightarrow> 'v tl_env \<Rightarrow> tl_numbers \<Rightarrow> client_op list \<Rightarrow> ls_client \<Rightarrow> ls_client option" where
  "ls_run K E N [] c = Some c"
| "ls_run K E N (op # ops) c = Option.bind (ls_step K E N op c) (ls_run K E N ops)"

lemma ls_run_append: "ls_run K E N (as @ bs) c = Option.bind (ls_run K E N as c) (ls_run K E N bs)"
proof (induction as arbitrary: c)
  case (Cons a as)
  then show ?case by (cases "ls_step K E N a c") simp_all
qed simp

section \<open>No future waits for a sender that is gone\<close>

text \<open>
  The oneshots that are still open are those of the queued queries and of the map, each held once.
\<close>

definition held :: "ls_client \<Rightarrow> nat set" where
  "held c = snd ` set (queue c) \<union> ran (responses c)"

definition client_inv :: "ls_client \<Rightarrow> bool" where
  "client_inv c \<longleftrightarrow>
     {i. i < length (oneshots c) \<and> oneshots c ! i = Open} = held c
     \<and> distinct (map snd (queue c)) \<and> snd ` set (queue c) \<inter> ran (responses c) = {}
     \<and> inj_on (responses c) (dom (responses c))
     \<and> (status c \<noteq> Running \<longrightarrow> queue c = [] \<and> responses c = Map.empty)"

lemma client_invI:
  assumes "\<And>i. i < length (oneshots c) \<and> oneshots c ! i = Open \<longleftrightarrow> i \<in> snd ` set (queue c) \<or> i \<in> ran (responses c)"
    and "distinct (map snd (queue c))" and "snd ` set (queue c) \<inter> ran (responses c) = {}"
    and "inj_on (responses c) (dom (responses c))"
    and "status c \<noteq> Running \<Longrightarrow> queue c = [] \<and> responses c = Map.empty"
  shows "client_inv c"
  using assms unfolding client_inv_def held_def by blast

lemma client_invD:
  assumes "client_inv c"
  shows "i < length (oneshots c) \<and> oneshots c ! i = Open \<longleftrightarrow> i \<in> snd ` set (queue c) \<or> i \<in> ran (responses c)"
    and "distinct (map snd (queue c))" and "snd ` set (queue c) \<inter> ran (responses c) = {}"
    and "inj_on (responses c) (dom (responses c))"
    and "status c \<noteq> Running \<Longrightarrow> queue c = [] \<and> responses c = Map.empty"
  using assms unfolding client_inv_def held_def by blast+

lemma client_inv_connect: "client_inv ls_connect"
  by (simp add: client_inv_def ls_connect_def held_def)

lemma open_iff_held:
  "client_inv c \<Longrightarrow> i < length (oneshots c) \<Longrightarrow> oneshots c ! i = Open \<longleftrightarrow> i \<in> held c"
  unfolding client_inv_def by blast

lemma held_open: "client_inv c \<Longrightarrow> i \<in> held c \<Longrightarrow> i < length (oneshots c) \<and> oneshots c ! i = Open"
  unfolding client_inv_def by blast

lemma client_inv_end: "s \<noteq> Running \<Longrightarrow> client_inv c \<Longrightarrow> client_inv (actor_end s c)"
  by (auto simp: client_inv_def actor_end_def held_def drop_sender_def split: oneshot.splits)

lemma client_inv_call: "client_inv c \<Longrightarrow> client_inv (snd (ls_call E N data qid c))"
proof -
  assume inv: "client_inv c"
  then have "length (oneshots c) \<notin> held c" using held_open by blast
  with inv show ?thesis
    by (auto simp: client_inv_def ls_call_def held_def Let_def nth_append less_Suc_eq)
qed

lemma ran_upd_fresh: "m k = None \<Longrightarrow> ran (m(k \<mapsto> v)) = insert v (ran m)"
  by (rule ran_map_upd)

lemma inj_ran_remove:
  "inj_on m (dom m) \<Longrightarrow> m k = Some v \<Longrightarrow> ran (m(k := None)) = ran m - {v}"
  by (force simp: ran_def inj_on_def dom_def)

lemma inj_on_remove: "inj_on m (dom m) \<Longrightarrow> inj_on (m(k := None)) (dom (m(k := None)))"
  by (auto simp: inj_on_def dom_def)

lemma inj_on_insert: "inj_on m (dom m) \<Longrightarrow> v \<notin> ran m \<Longrightarrow> inj_on (m(k \<mapsto> v)) (dom (m(k \<mapsto> v)))"
  by (auto simp: inj_on_def dom_def ran_def)

text \<open>Removing an entry and closing or answering its oneshot keeps the invariant.\<close>

lemma client_inv_settle:
  assumes "client_inv c" "responses c k = Some i" "v \<noteq> Open"
  shows "client_inv (c\<lparr>responses := (responses c)(k := None), oneshots := (oneshots c)[i := v]\<rparr>)"
proof -
  note inv = client_invD [OF assms(1)]
  have ran: "ran ((responses c)(k := None)) = ran (responses c) - {i}"
    using inv(4) assms(2) by (rule inj_ran_remove)
  have i: "i \<in> ran (responses c)" using assms(2) by (rule ranI)
  then have "i \<notin> snd ` set (queue c)" and i': "i < length (oneshots c)" using inv(1) [of i] inv(3) by auto
  let ?c = "c\<lparr>responses := (responses c)(k := None), oneshots := (oneshots c)[i := v]\<rparr>"
  show ?thesis
  proof (rule client_invI)
    fix j
    show "j < length (oneshots ?c) \<and> oneshots ?c ! j = Open
        \<longleftrightarrow> j \<in> snd ` set (queue ?c) \<or> j \<in> ran (responses ?c)"
      using inv(1) [of j] assms(3) i' \<open>i \<notin> _\<close> by (cases "j = i") (simp_all add: ran)
  next
    show "inj_on (responses ?c) (dom (responses ?c))" using inj_on_remove [OF inv(4)] by simp
  qed (use inv ran in auto)
qed

lemma client_inv_packet: "client_inv c \<Longrightarrow> client_inv (on_packet E N p c)"
  by (auto simp: on_packet_def client_inv_end intro: client_inv_settle split: option.splits)

lemma inv_insert:
  assumes "client_inv d" "queue d = (q, i) # rest" "status d = Running" "responses d k = None"
  shows "client_inv (d\<lparr>queue := rest, responses := (responses d)(k \<mapsto> i)\<rparr>)"
proof (rule client_invI)
  note inv = client_invD [OF assms(1)]
  let ?d = "d\<lparr>queue := rest, responses := (responses d)(k \<mapsto> i)\<rparr>"
  have ran: "ran (responses ?d) = insert i (ran (responses d))" using assms(4) by simp
  show "j < length (oneshots ?d) \<and> oneshots ?d ! j = Open
      \<longleftrightarrow> j \<in> snd ` set (queue ?d) \<or> j \<in> ran (responses ?d)" for j
    using inv(1) [of j] assms(2) unfolding ran by auto
  show "inj_on (responses ?d) (dom (responses ?d))"
    using inj_on_insert [OF inv(4), of i k] inv(3) assms(2) by auto
  show "snd ` set (queue ?d) \<inter> ran (responses ?d) = {}"
    using inv(2,3) assms(2) unfolding ran by auto
qed (use client_invD [OF assms(1)] assms(2,3) in auto)

lemma client_inv_query:
  assumes "client_inv c" "queue c = (q, i) # rest" "status c = Running"
  shows "client_inv (insert_response (query_id q) i (c\<lparr>queue := rest\<rparr>))"
proof -
  let ?k = "query_id q"
  define d where "d = (case responses c ?k of None \<Rightarrow> c
    | Some j \<Rightarrow> c\<lparr>responses := (responses c)(?k := None), oneshots := (oneshots c)[j := Dropped]\<rparr>)"
  have inv: "client_inv d" using assms(1) by (auto simp: d_def intro: client_inv_settle split: option.splits)
  have d: "queue d = (q, i) # rest" "status d = Running" "responses d ?k = None"
    using assms(2,3) by (auto simp: d_def split: option.splits)
  have "insert_response ?k i (c\<lparr>queue := rest\<rparr>) = d\<lparr>queue := rest, responses := (responses d)(?k \<mapsto> i)\<rparr>"
  proof (cases "responses c ?k")
    case (Some j)
    then have "oneshots c ! j = Open" using held_open [OF assms(1), of j] by (auto simp: held_def ranI)
    with Some show ?thesis by (simp add: insert_response_def d_def drop_sender_def)
  qed (simp add: insert_response_def d_def)
  moreover have "i \<notin> ran (responses d)" using inv d by (auto simp: client_inv_def)
  ultimately show ?thesis
    using inv_insert [OF inv d(1,2,3)] by simp
qed

lemma client_inv_outgoing [simp]: "client_inv (c\<lparr>outgoing := ps\<rparr>) = client_inv c"
  by (simp add: client_inv_def held_def)

lemma client_inv_step: "client_inv c \<Longrightarrow> ls_step K E N op c = Some c' \<Longrightarrow> client_inv c'"
proof (cases op)
  case (Event e)
  then show "client_inv c \<Longrightarrow> ls_step K E N op c = Some c' \<Longrightarrow> client_inv c'"
    by (cases "(K, E, N, e, c)" rule: actor_run.cases)
      (auto simp: actor_step_def Let_def client_inv_packet client_inv_query intro!: client_inv_end
        split: if_splits list.splits)
qed (auto simp: client_inv_call)

lemma client_inv_run: "client_inv c \<Longrightarrow> ls_run K E N ops c = Some c' \<Longrightarrow> client_inv c'"
  by (induction ops arbitrary: c) (auto simp: bind_eq_Some_conv intro: client_inv_step)

section \<open>One request on its own\<close>

text \<open>
  What a request promises, without the other requests: it has \<open>k\<close> queries before it in the channel,
  or its query is written and it waits for the answer with its number, or it is over.
\<close>

datatype req_state = Queued nat | InFlight | Done oneshot

fun req_oneshot :: "req_state \<Rightarrow> oneshot" where
  "req_oneshot (Done o1) = o1"
| "req_oneshot _ = Open"

fun req_event :: "'v tl_env \<Rightarrow> tl_numbers \<Rightarrow> Int256 \<Rightarrow> actor_event \<Rightarrow> req_state \<Rightarrow> req_state" where
  "req_event E N qid e (Done o1) = Done o1"
| "req_event E N qid Cancel r = Done Dropped"
| "req_event E N qid (Incoming (Inl _)) r = Done Dropped"
| "req_event E N qid (Incoming (Inr p)) r =
     (if is_pong_packet p then r
      else case parse_answer E N (pdata p) of
        None \<Rightarrow> Done Dropped
      | Some a \<Rightarrow> if r = InFlight \<and> answer_id a = qid then Done (Sent (answer a)) else r)"
| "req_event E N qid (Query _ sent) r =
     (if sent then (case r of Queued 0 \<Rightarrow> InFlight | Queued (Suc k) \<Rightarrow> Queued k | _ \<Rightarrow> r) else Done Dropped)"
| "req_event E N qid (Tick _ _ sent) r = (if sent then r else Done Dropped)"

fun req_step :: "'v tl_env \<Rightarrow> tl_numbers \<Rightarrow> Int256 \<Rightarrow> client_op \<Rightarrow> req_state \<Rightarrow> req_state" where
  "req_step E N qid (Call _ _) r = r"
| "req_step E N qid (Event e) r = req_event E N qid e r"

fun call_ids :: "client_op list \<Rightarrow> Int256 list" where
  "call_ids [] = []"
| "call_ids (Call _ qid # ops) = qid # call_ids ops"
| "call_ids (Event _ # ops) = call_ids ops"

text \<open>How the state of the client shows the request with the number \<open>qid\<close> and the oneshot \<open>i\<close>.\<close>

definition other_ids :: "nat \<Rightarrow> (AdnlMessageQuery \<times> nat) list \<Rightarrow> Int256 set" where
  "other_ids i qs = {query_id q | q j. (q, j) \<in> set qs \<and> j \<noteq> i}"

fun shows_request :: "Int256 \<Rightarrow> nat \<Rightarrow> ls_client \<Rightarrow> req_state \<Rightarrow> bool" where
  "shows_request qid i c (Queued k) \<longleftrightarrow> status c = Running \<and> responses c qid = None
     \<and> k < length (queue c) \<and> snd (queue c ! k) = i \<and> query_id (fst (queue c ! k)) = qid
     \<and> qid \<notin> other_ids i (queue c)"
| "shows_request qid i c InFlight \<longleftrightarrow> status c = Running \<and> responses c qid = Some i
     \<and> qid \<notin> other_ids i (queue c)"
| "shows_request qid i c (Done o1) \<longleftrightarrow> i < length (oneshots c) \<and> oneshots c ! i = o1 \<and> o1 \<noteq> Open"

lemma shows_held:
  assumes "shows_request qid i c r" "r = InFlight \<or> r = Queued k"
  shows "i \<in> held c"
  using assms(2)
proof
  assume "r = Queued k"
  with assms(1) have "queue c ! k \<in> set (queue c)" "snd (queue c ! k) = i" by simp_all
  then show ?thesis unfolding held_def by (metis UnI1 imageI)
qed (use assms(1) in \<open>auto simp: held_def ranI\<close>)

lemma shows_oneshot: "client_inv c \<Longrightarrow> shows_request qid i c r \<Longrightarrow> oneshots c ! i = req_oneshot r"
  using shows_held held_open by (cases r) fastforce+

lemma shows_end:
  assumes "client_inv c" "shows_request qid i c r" "r = InFlight \<or> r = Queued k"
  shows "shows_request qid i (actor_end s c) (Done Dropped)"
  using held_open [OF assms(1) shows_held [OF assms(2,3)]]
  by (simp add: actor_end_def drop_sender_def)

lemma done_stays:
  assumes "client_inv c" "shows_request qid i c (Done o1)" "ls_step K E N op c = Some c'"
  shows "shows_request qid i c' (Done o1)"
proof -
  have free: "i \<notin> held c" using assms(1,2) held_open by fastforce
  show ?thesis
  proof (cases op)
    case (Call data q)
    with assms(2,3) show ?thesis by (auto simp: ls_call_def Let_def nth_append)
  next
    case (Event e)
    have "responses c k = Some j \<Longrightarrow> j \<noteq> i" for j k using free by (auto simp: held_def ranI)
    then show ?thesis using assms(2,3) Event
      by (cases "(K, E, N, e, c)" rule: actor_run.cases)
        (auto simp: actor_step_def Let_def on_packet_def actor_end_def insert_response_def drop_sender_def
          nth_list_update split: if_splits list.splits option.splits oneshot.splits)
  qed
qed

lemma settle_keeps:
  assumes "responses c k = Some j" "k \<noteq> qid" "shows_request qid i c r" "r = InFlight \<or> r = Queued n"
  shows "shows_request qid i (c\<lparr>responses := (responses c)(k := None), oneshots := os\<rparr>) r"
  using assms by auto

lemma shows_outgoing [simp]: "shows_request qid i (c\<lparr>outgoing := ps\<rparr>) r = shows_request qid i c r"
  by (cases r) simp_all

lemma other_ids_Cons: "other_ids i ((q, j) # qs) = (if j = i then {} else {query_id q}) \<union> other_ids i qs"
  by (auto simp: other_ids_def)

lemma query_step:
  assumes "client_inv c" "queue c = (q, j) # rest" "shows_request qid i c r" "r = InFlight \<or> r = Queued n"
  shows "shows_request qid i (insert_response (query_id q) j (c\<lparr>queue := rest\<rparr>))
    (case r of Queued 0 \<Rightarrow> InFlight | Queued (Suc k) \<Rightarrow> Queued k | _ \<Rightarrow> r)"
proof (cases r)
  case (Queued m)
  show ?thesis
  proof (cases m)
    case 0
    with Queued assms show ?thesis by (auto simp: insert_response_def other_ids_Cons)
  next
    case (Suc k)
    then have "snd (rest ! k) = i" "k < length rest" using Queued assms(2,3) by auto
    then have "i \<in> snd ` set rest" using nth_mem by blast
    then have "j \<noteq> i" using client_invD(2) [OF assms(1)] assms(2) by auto
    then have "query_id q \<noteq> qid" using assms(2,3) Queued by (auto simp: other_ids_Cons)
    with Suc Queued assms show ?thesis by (auto simp: insert_response_def other_ids_Cons split: if_splits)
  qed
next
  case InFlight
  have "i \<in> ran (responses c)" using InFlight assms(3) by (auto simp: ranI)
  then have "j \<noteq> i" using client_invD(3) [OF assms(1)] assms(2) by auto
  then have "query_id q \<noteq> qid" using assms(2,3) InFlight by (auto simp: other_ids_Cons)
  with InFlight assms show ?thesis by (auto simp: insert_response_def other_ids_Cons split: if_splits)
qed (use assms in auto)

lemma packet_step:
  assumes "client_inv c" "shows_request qid i c r" "r = InFlight \<or> r = Queued n"
  shows "shows_request qid i (on_packet E N p c) (req_event E N qid (Incoming (Inr p)) r)"
proof (cases "is_pong_packet p")
  case True
  with assms show ?thesis by (auto simp: on_packet_def)
next
  case False
  show ?thesis
  proof (cases "parse_answer E N (pdata p)")
    case None
    then show ?thesis using False assms(3) shows_end [OF assms] by (auto simp: on_packet_def)
  next
    case (Some a)
    have i: "i < length (oneshots c)" using held_open [OF assms(1) shows_held [OF assms(2,3)]] by simp
    show ?thesis
    proof (cases "responses c (answer_id a)")
      case None
      with False Some assms(2,3) show ?thesis by (auto simp: on_packet_def)
    next
      case (Some j)
      show ?thesis
      proof (cases "answer_id a = qid")
        case True
        with Some assms(2,3) have "r = InFlight" "j = i" by auto
        with True False Some \<open>parse_answer _ _ _ = _\<close> i show ?thesis by (simp add: on_packet_def)
      next
        case False
        with settle_keeps [OF Some False assms(2,3)] \<open>\<not> is_pong_packet p\<close> \<open>parse_answer _ _ _ = _\<close> Some assms(3)
        show ?thesis by (auto simp: on_packet_def)
      qed
    qed
  qed
qed

lemma request_step:
  assumes "client_inv c" "shows_request qid i c r" "ls_step K E N op c = Some c'" "qid \<notin> set (call_ids [op])"
  shows "shows_request qid i c' (req_step E N qid op r)"
proof (cases "\<exists>o1. r = Done o1")
  case True
  with done_stays [OF assms(1) _ assms(3)] assms(2) show ?thesis by (cases op) auto
next
  case False
  then obtain n where r: "r = InFlight \<or> r = Queued n" by (cases r) auto
  show ?thesis
  proof (cases op)
    case (Call data q)
    have "i \<noteq> length (oneshots c)" using held_open [OF assms(1) shows_held [OF assms(2) r]] by simp
    with Call r assms(2-) show ?thesis by (auto simp: ls_call_def Let_def other_ids_def nth_append)
  next
    case (Event e)
    note ended = shows_end [OF assms(1,2) r]
    show ?thesis
    proof (cases e)
      case (Query nc sent)
      with Event assms(3) obtain q j rest where q: "queue c = (q, j) # rest" "status c = Running"
        by (cases "queue c") (auto split: if_splits)
      let ?c = "insert_response (query_id q) j (c\<lparr>queue := rest\<rparr>)"
      let ?r = "case r of Queued 0 \<Rightarrow> InFlight | Queued (Suc k) \<Rightarrow> Queued k | _ \<Rightarrow> r"
      have shown: "shows_request qid i ?c ?r" using query_step [OF assms(1) q(1) assms(2) r] .
      have "?r = InFlight \<or> ?r = Queued (n - 1)" using r by (auto split: nat.splits)
      note ended = shows_end [OF client_inv_query [OF assms(1) q] shown this]
      have "c' = (if sent then ?c\<lparr>outgoing := outgoing c @ [packet_new K nc (adnl_query_bytes E N q)]\<rparr>
          else actor_end (Panicked ''expect to send adnl query packet'') ?c)"
        using Event Query q assms(3) by (simp add: actor_step_def Let_def)
      moreover have "req_step E N qid op r = (if sent then ?r else Done Dropped)"
        using Event Query r by auto
      ultimately show ?thesis using shown ended by simp
    next
      case (Incoming p)
      show ?thesis
      proof (cases p)
        case (Inr packet)
        with Event Incoming assms(3) packet_step [OF assms(1,2) r] show ?thesis
          by (auto simp: actor_step_def simp del: req_event.simps split: if_splits)
      qed (use Event Incoming assms(3) r ended in \<open>auto simp: actor_step_def split: if_splits\<close>)
    qed (use Event assms(2,3) r ended in \<open>auto simp: actor_step_def split: if_splits\<close>)
  qed
qed

lemma request_run:
  assumes "client_inv c" "shows_request qid i c r" "ls_run K E N ops c = Some c'" "qid \<notin> set (call_ids ops)"
  shows "shows_request qid i c' (fold (req_step E N qid) ops r)"
  using assms
proof (induction ops arbitrary: c r)
  case (Cons op ops)
  then obtain d where d: "ls_step K E N op c = Some d" "ls_run K E N ops d = Some c'"
    by (auto simp: bind_eq_Some_conv)
  have "qid \<notin> set (call_ids [op])" "qid \<notin> set (call_ids ops)" using Cons.prems(4) by (cases op; simp)+
  with Cons.IH [OF client_inv_step [OF Cons.prems(1) d(1)] request_step [OF Cons.prems(1,2) d(1)] d(2)]
  show ?case by simp
qed simp

lemma call_shows:
  assumes "client_inv c" "status c = Running" "responses c qid = None" "qid \<notin> query_id ` fst ` set (queue c)"
    and "ls_call E N data qid c = (fut, c')"
  shows "fut = Rx (Some (length (oneshots c))) \<and> client_inv c'
    \<and> shows_request qid (length (oneshots c)) c' (Queued (length (queue c)))"
proof -
  have "qid \<notin> other_ids i (queue c)" for i using assms(4) by (force simp: other_ids_def)
  then have "qid \<notin> other_ids i (queue c @ [(q, i)])" for i q by (auto simp: other_ids_def)
  with assms client_inv_call [OF assms(1), of E N data qid] show ?thesis
    by (auto simp: ls_call_def Let_def)
qed

lemma own_request:
  assumes "client_inv c" "status c = Running" "responses c qid = None" "qid \<notin> query_id ` fst ` set (queue c)"
    and "ls_call E N data qid c = (fut, c1)" and "ls_run K E N ops c1 = Some c2" and "qid \<notin> set (call_ids ops)"
  shows "fut = Rx (Some (length (oneshots c)))
    \<and> oneshots c2 ! length (oneshots c) = req_oneshot (fold (req_step E N qid) ops (Queued (length (queue c))))"
  using call_shows [OF assms(1-5)] request_run [OF _ _ assms(6,7)] shows_oneshot client_inv_run [OF _ assms(6)]
  by meson

section \<open>A liteserver that answers\<close>

text \<open>
  The other side, as the protocol describes it: a query is unwrapped, the request in it is served, and the
  answer carries the number of the query.
\<close>

fun query_of_values :: "'v tl_value option list \<Rightarrow> AdnlMessageQuery option" where
  "query_of_values [Some (VInt256 i), Some (VBytes q)] = Some \<lparr>query_id = i, query = q\<rparr>"
| "query_of_values _ = None"

fun data_of_values :: "'v tl_value option list \<Rightarrow> bytes option" where
  "data_of_values [Some (VBytes bs)] = Some bs"
| "data_of_values _ = None"

definition liteserver_reply ::
  "('c, 'pk, 'sk) crypto \<Rightarrow> 'v tl_env \<Rightarrow> tl_numbers \<Rightarrow> (bytes \<Rightarrow> bytes) \<Rightarrow> bytes \<Rightarrow> Packet \<Rightarrow> Packet option" where
  "liteserver_reply K E N serve nc packet =
     (case from_bytes_boxed (struct_deserialize_boxed E (adnl_query_number N) adnl_query_fields) (pdata packet) of
        Inl _ \<Rightarrow> None
      | Inr vs \<Rightarrow> Option.bind (query_of_values vs) (\<lambda>q.
          case from_bytes_boxed (struct_deserialize_boxed E (ls_query_number N) ls_query_fields) (query q) of
            Inl _ \<Rightarrow> None
          | Inr ws \<Rightarrow> map_option (\<lambda>d. packet_new K nc
              (adnl_answer_bytes E N \<lparr>answer_id = query_id q, answer = serve d\<rparr>)) (data_of_values ws)))"

lemmas message_simps = adnl_query_fields_def adnl_answer_fields_def ls_query_fields_def ls_error_fields_def
  consistent_def absent_unset_def stored_def type_condition_def field_type_def type_is_polymorphic_def
  the_id_def type_name_def

lemma parse_answer_bytes:
  assumes "env_ok E valid" "length (answer_id a) = 32" "length (answer a) < 2 ^ 24"
  shows "parse_answer E N (adnl_answer_bytes E N a) = Some a"
  unfolding parse_answer_def adnl_answer_bytes_def
  by (subst struct_boxed_roundtrip [OF assms(1)]) (use assms in \<open>auto simp: message_simps\<close>)

lemma answer_not_pong:
  assumes "env_ok E valid" "length (answer_id a) = 32"
  shows "\<not> is_pong_packet (packet_new K nc (adnl_answer_bytes E N a))"
proof -
  have "36 \<le> length (adnl_answer_bytes E N a)"
    unfolding adnl_answer_bytes_def to_bytes_struct_boxed [OF assms(1)] enc_of_struct [OF assms(1)]
    using assms(2) by (simp add: message_simps field_bytes_simps(2) [OF assms(1)] enc_of_def write_i256_def)
  then show ?thesis by (simp add: is_pong_packet_def packet_new_def)
qed

lemma ls_query_bytes_eq:
  assumes "env_ok E valid"
  shows "ls_query_bytes E N d = u32_to_be (ls_query_number N) @ enc_of write_bytes d"
  unfolding ls_query_bytes_def to_bytes_struct_boxed [OF assms] enc_of_struct [OF assms]
  by (simp add: message_simps field_bytes_simps(2) [OF assms])

lemma ls_query_length: "env_ok E valid \<Longrightarrow> length (ls_query_bytes E N d) \<le> length d + 12"
  by (simp add: ls_query_bytes_eq enc_of_def write_bytes_def Let_def le_diff_conv)

lemma reply_to_query:
  assumes "env_ok E valid" "length qid = 32" "length (ls_query_bytes E N d) < 2 ^ 24" "length d < 2 ^ 24"
  shows "liteserver_reply K E N serve rnd
      (packet_new K nc (adnl_query_bytes E N \<lparr>query_id = qid, query = ls_query_bytes E N d\<rparr>))
    = Some (packet_new K rnd (adnl_answer_bytes E N \<lparr>answer_id = qid, answer = serve d\<rparr>))"
proof -
  have "from_bytes_boxed (struct_deserialize_boxed E (adnl_query_number N) adnl_query_fields)
      (adnl_query_bytes E N \<lparr>query_id = qid, query = ls_query_bytes E N d\<rparr>)
    = Inr [Some (VInt256 qid), Some (VBytes (ls_query_bytes E N d))]"
    unfolding adnl_query_bytes_def using assms
    by (subst struct_boxed_roundtrip [OF assms(1)]) (auto simp: message_simps)
  moreover have "from_bytes_boxed (struct_deserialize_boxed E (ls_query_number N) ls_query_fields)
      (ls_query_bytes E N d) = Inr [Some (VBytes d)]"
    unfolding ls_query_bytes_def using assms
    by (subst struct_boxed_roundtrip [OF assms(1)]) (auto simp: message_simps)
  ultimately show ?thesis by (simp add: liteserver_reply_def packet_new_def)
qed

definition queued :: "'v tl_env \<Rightarrow> tl_numbers \<Rightarrow> bytes \<Rightarrow> Int256 \<Rightarrow> AdnlMessageQuery" where
  "queued E N d qid = \<lparr>query_id = qid, query = ls_query_bytes E N d\<rparr>"

lemma run_calls:
  assumes "length ds = length qids" "status c = Running"
  shows "\<exists>c'. ls_run K E N (map2 Call ds qids) c = Some c' \<and> status c' = Running
    \<and> map fst (queue c') = map fst (queue c) @ map2 (queued E N) ds qids
    \<and> responses c' = responses c \<and> outgoing c' = outgoing c
    \<and> length (oneshots c') = length (oneshots c) + length qids"
  using assms
proof (induction ds qids arbitrary: c rule: list_induct2)
  case (Cons d ds q qids)
  let ?c = "snd (ls_call E N d q c)"
  have "status ?c = Running" "map fst (queue ?c) = map fst (queue c) @ [queued E N d q]"
    "responses ?c = responses c" "outgoing ?c = outgoing c" "length (oneshots ?c) = Suc (length (oneshots c))"
    using Cons.prems by (simp_all add: ls_call_def Let_def queued_def)
  with Cons.IH [of ?c] show ?case by auto
qed auto

lemma run_queries:
  assumes "length ncs = length (queue c)" "status c = Running"
  shows "\<exists>c'. ls_run K E N (map (\<lambda>nc. Event (Query nc True)) ncs) c = Some c' \<and> status c' = Running
    \<and> outgoing c' = outgoing c @ map2 (\<lambda>nc q. packet_new K nc (adnl_query_bytes E N (fst q))) ncs (queue c)"
  using assms
proof (induction ncs arbitrary: c)
  case (Cons nc ncs)
  then obtain q i rest where q: "queue c = (q, i) # rest" "length ncs = length rest" by (cases "queue c") auto
  let ?c = "actor_step K E N (Query nc True) c"
  have "queue ?c = rest" "status ?c = Running"
    "outgoing ?c = outgoing c @ [packet_new K nc (adnl_query_bytes E N q)]"
    using q Cons.prems(2) by (simp_all add: actor_step_def insert_response_def Let_def)
  with Cons.IH [of ?c] q Cons.prems(2) show ?case by auto
qed auto

lemma run_answers:
  assumes "\<forall>p \<in> set ps. parse_answer E N (pdata p) \<noteq> None" "status c = Running"
  shows "\<exists>c'. ls_run K E N (map (\<lambda>p. Event (Incoming (Inr p))) ps) c = Some c'"
  using assms
proof (induction ps arbitrary: c)
  case (Cons p ps)
  have "status (on_packet E N p c) = Running"
    using Cons.prems by (auto simp: on_packet_def split: option.splits)
  with Cons show ?case by (simp add: actor_step_def)
qed simp

lemma fold_calls: "length ds = length qids \<Longrightarrow> fold (req_step E N qid) (map2 Call ds qids) r = r"
  by (induction ds qids rule: list_induct2) auto

lemma call_ids_simps [simp]:
  "call_ids (a @ b) = call_ids a @ call_ids b"
  "length ds = length qids \<Longrightarrow> call_ids (map2 Call ds qids) = qids"
  "call_ids (map (\<lambda>x. Event (f x)) xs) = []"
proof -
  show "call_ids (a @ b) = call_ids a @ call_ids b" by (induction a rule: call_ids.induct) auto
  show "length ds = length qids \<Longrightarrow> call_ids (map2 Call ds qids) = qids"
    by (induction ds qids rule: list_induct2) auto
  show "call_ids (map (\<lambda>x. Event (f x)) xs) = []" by (induction xs) auto
qed

lemma fold_in_flight:
  "fold (req_step E N qid) (map (\<lambda>nc. Event (Query nc True)) ncs) InFlight = InFlight"
  by (induction ncs) auto

lemma fold_queries:
  "k < length ncs \<Longrightarrow> fold (req_step E N qid) (map (\<lambda>nc. Event (Query nc True)) ncs) (Queued k) = InFlight"
proof (induction ncs arbitrary: k)
  case (Cons nc ncs)
  then show ?case by (cases k) (simp_all add: fold_in_flight)
qed simp

lemma fold_done: "fold (req_step E N qid) ops (Done o1) = Done o1"
proof (induction ops)
  case (Cons op ops)
  then show ?case by (cases op) auto
qed simp

lemma fold_answers:
  assumes "\<forall>p \<in> set ps. \<not> is_pong_packet p \<and> (\<exists>a. parse_answer E N (pdata p) = Some a
      \<and> (answer_id a = qid \<longrightarrow> answer a = r))"
    and "\<exists>p \<in> set ps. \<exists>a. parse_answer E N (pdata p) = Some a \<and> answer_id a = qid"
  shows "fold (req_step E N qid) (map (\<lambda>p. Event (Incoming (Inr p))) ps) InFlight = Done (Sent r)"
  using assms
proof (induction ps)
  case (Cons p ps)
  then obtain a where a: "parse_answer E N (pdata p) = Some a" "answer_id a = qid \<longrightarrow> answer a = r"
    "\<not> is_pong_packet p" by auto
  show ?case
  proof (cases "answer_id a = qid")
    case False
    with a Cons show ?thesis by auto
  qed (use a in \<open>simp add: fold_done\<close>)
qed simp

lemma calls_state:
  assumes "length ds = length qids" "ls_run K E N (map2 Call ds qids) ls_connect = Some c"
  shows "status c = Running" "map fst (queue c) = map2 (queued E N) ds qids" "responses c = Map.empty"
    "outgoing c = []" "length (oneshots c) = length qids" "length (queue c) = length qids"
proof -
  have c: "status c = Running \<and> map fst (queue c) = map2 (queued E N) ds qids \<and> responses c = Map.empty
    \<and> outgoing c = [] \<and> length (oneshots c) = length qids"
    using run_calls [OF assms(1), of ls_connect K E N] assms(2) by (auto simp: ls_connect_def)
  then show "status c = Running" "map fst (queue c) = map2 (queued E N) ds qids" "responses c = Map.empty"
    "outgoing c = []" "length (oneshots c) = length qids" by simp_all
  show "length (queue c) = length qids" using c assms(1) by (metis length_map length_zip min.idem)
qed

lemma queued_ids: "length ds = length qids \<Longrightarrow> map query_id (map2 (queued E N) ds qids) = qids"
  by (induction ds qids rule: list_induct2) (auto simp: queued_def)

text \<open>After the calls the fate of request \<open>i\<close> is that of the request on its own.\<close>

lemma nth_request:
  assumes "length ds = length qids" "distinct qids" "i < length qids" "call_ids ops = []"
    and "ls_run K E N (map2 Call ds qids @ ops) ls_connect = Some c"
  shows "oneshots c ! i = req_oneshot (fold (req_step E N (qids ! i)) ops (Queued i))"
proof -
  let ?calls = "\<lambda>ds qs. map2 Call ds qs"
  have ds: "ds = take i ds @ ds ! i # drop (Suc i) ds" and qs: "qids = take i qids @ qids ! i # drop (Suc i) qids"
    using assms(1,3) by (simp_all add: id_take_nth_drop)
  have "?calls ds qids = ?calls (take i ds) (take i qids) @ Call (ds ! i) (qids ! i)
      # ?calls (drop (Suc i) ds) (drop (Suc i) qids)"
    using assms(1,3) by (subst ds, subst qs) simp
  with assms(5) obtain c0 where c0: "ls_run K E N (?calls (take i ds) (take i qids)) ls_connect = Some c0"
    "ls_run K E N (?calls (drop (Suc i) ds) (drop (Suc i) qids) @ ops)
      (snd (ls_call E N (ds ! i) (qids ! i) c0)) = Some c"
    by (auto simp: ls_run_append bind_eq_Some_conv)
  have len: "length (take i ds) = length (take i qids)" "length (take i qids) = i" using assms(1,3) by simp_all
  note st = calls_state [OF len(1) c0(1), unfolded len(2)]
  have "query_id ` fst ` set (queue c0) = set (take i qids)"
    using st(2) queued_ids [OF len(1), of E N] by (metis list.set_map)
  moreover have "distinct (take i qids @ qids ! i # drop (Suc i) qids)" using assms(2) qs by metis
  ultimately have fresh: "qids ! i \<notin> query_id ` fst ` set (queue c0)" "qids ! i \<notin> set (drop (Suc i) qids)"
    by auto
  have "oneshots c ! i = req_oneshot (fold (req_step E N (qids ! i))
      (?calls (drop (Suc i) ds) (drop (Suc i) qids) @ ops) (Queued i))"
    using own_request [OF client_inv_run [OF client_inv_connect c0(1)] st(1) _ fresh(1) prod.collapse [symmetric] c0(2)]
      st fresh(2) assms(1,4) by simp
  then show ?thesis using assms(1) by (simp add: fold_calls)
qed

lemma sent_queries:
  assumes "length ds = length qids" "length ncs = length qids"
  shows "\<exists>c. ls_run K E N (map2 Call ds qids @ map (\<lambda>nc. Event (Query nc True)) ncs) ls_connect = Some c
    \<and> status c = Running \<and> (\<forall>j < length qids. outgoing c ! j
        = packet_new K (ncs ! j) (adnl_query_bytes E N (queued E N (ds ! j) (qids ! j))))"
proof -
  obtain c0 where c0: "ls_run K E N (map2 Call ds qids) ls_connect = Some c0"
    using run_calls [OF assms(1), of ls_connect K E N] by (auto simp: ls_connect_def)
  note st = calls_state [OF assms(1) c0]
  obtain c where c: "ls_run K E N (map (\<lambda>nc. Event (Query nc True)) ncs) c0 = Some c" "status c = Running"
    "outgoing c = map2 (\<lambda>nc q. packet_new K nc (adnl_query_bytes E N (fst q))) ncs (queue c0)"
    using run_queries [of ncs c0 K E N] st assms(2) by auto
  have "fst (queue c0 ! j) = queued E N (ds ! j) (qids ! j)" if "j < length qids" for j
    using st(2,6) that assms(1)
    by (metis (no_types, lifting) length_map nth_map nth_zip case_prod_conv length_zip min.idem)
  then have "\<forall>j < length qids. outgoing c ! j
      = packet_new K (ncs ! j) (adnl_query_bytes E N (queued E N (ds ! j) (qids ! j)))"
    using st(6) assms(2) by (simp add: c(3))
  with c0 c show ?thesis by (auto simp: ls_run_append)
qed

text \<open>Every packet is an answer, those with the number of request \<open>i\<close> carry \<open>r\<close>, and there is one.\<close>

lemma request_answered:
  assumes "length ds = length qids" "distinct qids" "i < length qids" "i < length ncs"
    and "ls_run K E N (map2 Call ds qids @ map (\<lambda>nc. Event (Query nc True)) ncs) ls_connect = Some c1"
    and "ls_run K E N (map (\<lambda>p. Event (Incoming (Inr p))) ps) c1 = Some c2"
    and "\<forall>p \<in> set ps. \<not> is_pong_packet p \<and> (\<exists>a. parse_answer E N (pdata p) = Some a
      \<and> (answer_id a = qids ! i \<longrightarrow> answer a = r))"
    and "\<exists>p \<in> set ps. \<exists>a. parse_answer E N (pdata p) = Some a \<and> answer_id a = qids ! i"
  shows "oneshots c2 ! i = Sent r"
proof -
  let ?ops = "map (\<lambda>nc. Event (Query nc True)) ncs @ map (\<lambda>p. Event (Incoming (Inr p))) ps"
  have "ls_run K E N (map2 Call ds qids @ ?ops) ls_connect = Some c2"
    using assms(5,6) by (auto simp: ls_run_append bind_eq_Some_conv)
  from nth_request [OF assms(1-3) _ this] show ?thesis
    using fold_answers [OF assms(7,8)] assms(4) by (simp add: fold_queries)
qed

section \<open>Properties\<close>

text \<open>
  C11. Requests are matched with their answers. For any requests with different query numbers, the packets
  that the task writes are understood by a liteserver, and when its answers come back, in any order and
  possibly more than once, every response future is ready with what the liteserver served for its own request.
\<close>

theorem answers_in_any_order:
  assumes "env_ok E valid" and "distinct qids" and "\<forall>q \<in> set qids. length q = 32"
    and "length ds = length qids" and "length ncs = length qids" and "set order = {..<length qids}"
    and "\<forall>d \<in> set ds. length d + 12 < 2 ^ 24 \<and> length (serve d) < 2 ^ 24"
  shows "\<exists>c1 replies c2.
      ls_run K E N (map2 Call ds qids @ map (\<lambda>nc. Event (Query nc True)) ncs) ls_connect = Some c1
    \<and> map (\<lambda>j. liteserver_reply K E N serve rnd (outgoing c1 ! j)) order = map Some replies
    \<and> ls_run K E N (map (\<lambda>p. Event (Incoming (Inr p))) replies) c1 = Some c2
    \<and> (\<forall>i < length qids. response_poll E N response_de (Rx (Some i)) c2
        = map_ok (\<lambda>r. (Ready r, Rx None)) (parse_response E N response_de (serve (ds ! i))))"
proof -
  let ?ans = "\<lambda>j. \<lparr>answer_id = qids ! j, answer = serve (ds ! j)\<rparr>"
  let ?reply = "\<lambda>j. packet_new K rnd (adnl_answer_bytes E N (?ans j))"
  let ?replies = "map ?reply order"
  obtain c1 where c1: "ls_run K E N (map2 Call ds qids @ map (\<lambda>nc. Event (Query nc True)) ncs) ls_connect = Some c1"
    "status c1 = Running" "\<forall>j < length qids. outgoing c1 ! j
      = packet_new K (ncs ! j) (adnl_query_bytes E N (queued E N (ds ! j) (qids ! j)))"
    using sent_queries [OF assms(4,5)] by blast
  have j: "length (qids ! j) = 32" "length (serve (ds ! j)) < 2 ^ 24" "length (ds ! j) < 2 ^ 24"
    "length (ls_query_bytes E N (ds ! j)) < 2 ^ 24" if "j < length qids" for j
  proof -
    have "ds ! j \<in> set ds" "qids ! j \<in> set qids" using assms(4) that by auto
    with assms(3,7) ls_query_length [OF assms(1), of N "ds ! j"]
    show "length (qids ! j) = 32" "length (serve (ds ! j)) < 2 ^ 24" "length (ds ! j) < 2 ^ 24"
      "length (ls_query_bytes E N (ds ! j)) < 2 ^ 24" by auto
  qed
  have parse: "parse_answer E N (pdata (?reply j)) = Some (?ans j)" "\<not> is_pong_packet (?reply j)"
    if "j < length qids" for j
    using parse_answer_bytes [OF assms(1), of "?ans j" N] answer_not_pong [OF assms(1), of "?ans j" K rnd N]
      j [OF that] by (simp_all add: packet_new_def)
  have "liteserver_reply K E N serve rnd (outgoing c1 ! j) = Some (?reply j)" if "j < length qids" for j
    using that c1(3) reply_to_query [OF assms(1) j(1,4,3)] by (simp add: queued_def)
  then have replies: "map (\<lambda>j. liteserver_reply K E N serve rnd (outgoing c1 ! j)) order = map Some ?replies"
    using assms(6) by auto
  obtain c2 where c2: "ls_run K E N (map (\<lambda>p. Event (Incoming (Inr p))) ?replies) c1 = Some c2"
    using run_answers [of ?replies E N c1 K] c1(2) parse assms(6) by auto
  have "oneshots c2 ! i = Sent (serve (ds ! i))" if "i < length qids" for i
    using that assms(2,5,6) parse
    by (intro request_answered [OF assms(4,2) that _ c1(1) c2]) (auto simp: nth_eq_iff_index_eq)
  then have "\<forall>i < length qids. response_poll E N response_de (Rx (Some i)) c2
      = map_ok (\<lambda>r. (Ready r, Rx None)) (parse_response E N response_de (serve (ds ! i)))" by simp
  with c1(1) replies c2 show ?thesis by blast
qed

definition demo_numbers :: tl_numbers where
  "demo_numbers = \<lparr>adnl_query_number = 0x7af98bb4, adnl_answer_number = 0x1684ac0f,
     ls_query_number = 0xdf068c79, ls_error_number = 0x48e1a9bb\<rparr>"

definition demo_ids :: "Int256 list" where
  "demo_ids = [replicate 32 1, replicate 32 2]"

theorem answers_in_any_order_witness:
  "\<exists>c1 replies c2.
      ls_run demo_crypto hash_env demo_numbers (map2 Call [[7], [8, 9]] demo_ids
        @ map (\<lambda>nc. Event (Query nc True)) [[], []]) ls_connect = Some c1
    \<and> map (\<lambda>j. liteserver_reply demo_crypto hash_env demo_numbers (\<lambda>d. 0 # d) [] (outgoing c1 ! j)) [1, 0, 1]
      = map Some replies
    \<and> ls_run demo_crypto hash_env demo_numbers (map (\<lambda>p. Event (Incoming (Inr p))) replies) c1 = Some c2
    \<and> response_poll hash_env demo_numbers (struct_deserialize_boxed hash_env 5 []) (Rx (Some 1)) c2
      = map_ok (\<lambda>r. (Ready r, Rx None)) (parse_response hash_env demo_numbers
          (struct_deserialize_boxed hash_env 5 []) [0, 8, 9])"
proof -
  have "\<exists>c1 replies c2.
      ls_run demo_crypto hash_env demo_numbers (map2 Call [[7], [8, 9]] demo_ids
        @ map (\<lambda>nc. Event (Query nc True)) [[], []]) ls_connect = Some c1
    \<and> map (\<lambda>j. liteserver_reply demo_crypto hash_env demo_numbers (\<lambda>d. 0 # d) [] (outgoing c1 ! j)) [1, 0, 1]
      = map Some replies
    \<and> ls_run demo_crypto hash_env demo_numbers (map (\<lambda>p. Event (Incoming (Inr p))) replies) c1 = Some c2
    \<and> (\<forall>i < length demo_ids. response_poll hash_env demo_numbers (struct_deserialize_boxed hash_env 5 []) (Rx (Some i)) c2
        = map_ok (\<lambda>r. (Ready r, Rx None)) (parse_response hash_env demo_numbers
            (struct_deserialize_boxed hash_env 5 []) (0 # [[7], [8, 9]] ! i)))"
    by (rule answers_in_any_order [OF hash_env_ok]) (auto simp: demo_ids_def less_2_cases_iff)
  moreover have "1 < length demo_ids" "0 # [[7], [8, 9]] ! 1 = [0, 8, 9]" by (simp_all add: demo_ids_def)
  ultimately show ?thesis by metis
qed

text \<open>
  When the task has ended, by cancellation, a read error or a panic, nothing is left waiting: in every
  state that calls and events can lead to, a future of an earlier call is ready (with the answer that had come,
  or an error), the service is not ready any more, and a new call fails at once with \<open>ChannelClosed\<close>.
\<close>

lemma stopped_client_reports:
  assumes "ls_run K E N ops ls_connect = Some c" and "status c \<noteq> Running" and "i < length (oneshots c)"
  shows "response_poll E N response_de (Rx (Some i)) c \<noteq> Inr (Pending, Rx (Some i))
    \<and> ls_poll_ready c = Ready (Inl ChannelClosed)
    \<and> ls_call E N data qid c = (Failed (Some ChannelClosed), c)
    \<and> response_poll E N response_de (Failed (Some ChannelClosed)) c = Inr (Ready (Inl ChannelClosed), Failed None)"
proof -
  have "client_inv c" using client_inv_run [OF client_inv_connect assms(1)] .
  then have "held c = {}" using client_invD(5) assms(2) by (auto simp: held_def)
  then have "oneshots c ! i \<noteq> Open" using open_iff_held [OF \<open>client_inv c\<close> assms(3)] by simp
  then show ?thesis using assms(2)
    by (cases "oneshots c ! i") (auto simp: ls_poll_ready_def ls_call_def Let_def map_ok_def split: sum.splits)
qed

text \<open>
  C19. The client refines one request on its own. Whatever other calls, answers, pings and errors there are,
  the oneshot of a call with a fresh number follows the automaton of one request: it waits for the queries
  before it, then for the first answer with its number, and is dropped when the task ends before.
\<close>

theorem request_on_its_own:
  assumes "ls_run K E N before ls_connect = Some c" and "status c = Running"
    and "qid \<notin> dom (responses c)" and "qid \<notin> query_id ` fst ` set (queue c)"
    and "ls_call E N data qid c = (fut, c1)"
    and "ls_run K E N ops c1 = Some c2" and "qid \<notin> set (call_ids ops)"
  shows "fut = Rx (Some (length (oneshots c)))
    \<and> oneshots c2 ! length (oneshots c) = req_oneshot (fold (req_step E N qid) ops (Queued (length (queue c))))"
  using own_request [OF client_inv_run [OF client_inv_connect assms(1)] assms(2) _ assms(4-7)] assms(3)
  by (simp add: domIff)

theorem request_on_its_own_witness:
  "\<exists>c2. ls_run demo_crypto hash_env demo_numbers [Call [8] (replicate 32 2), Event (Query [] True), Event (Tick [] 5 False)]
      (snd (ls_call hash_env demo_numbers [7] (replicate 32 1) ls_connect)) = Some c2 \<and> oneshots c2 ! 0 = Dropped"
proof -
  obtain c2 where run: "ls_run demo_crypto hash_env demo_numbers
      [Call [8] (replicate 32 2), Event (Query [] True), Event (Tick [] 5 False)]
      (snd (ls_call hash_env demo_numbers [7] (replicate 32 1) ls_connect)) = Some c2"
    by (simp add: ls_connect_def ls_call_def Let_def actor_step_def insert_response_def)
  have "oneshots c2 ! 0 = Dropped"
    using request_on_its_own [of demo_crypto hash_env demo_numbers "[]" ls_connect "replicate 32 1",
        OF _ _ _ _ prod.collapse [symmetric] run]
    by (simp add: ls_connect_def)
  with run show ?thesis by blast
qed

end
