(* ===== verification/Liteserver_Convert.thy ===== *)
theory Liteserver_Convert
  imports Ton_Types
begin

text \<open>
  How the liteserver adapter turns what a liteserver sends into the responses of \<open>ton-tower\<close>
  (\<open>ton-liteserver-client/src/adapter\<close>: \<open>convert.rs\<close>, \<open>block.rs\<close>, \<open>message.rs\<close>), with the
  structs of the TL schema and of TL-B that it reads (\<open>tlb/*.rs\<close>). Cells, bags of cells, base64 and hex
  are third-party crates: they are the fields of \<open>cell_lib\<close>. What reads a TL-B struct from a cell is a
  field of \<open>tlb_lib\<close>.
\<close>

unbundle bit_operations_syntax

section \<open>The libraries\<close>

record 'cell cell_lib =
  b64_standard_encode :: "bytes \<Rightarrow> string"
  b64_standard_decode :: "string \<Rightarrow> bytes option"
  boc_deserialize :: "bytes \<Rightarrow> anyhow + 'cell list"
  boc_unpack :: "bytes \<Rightarrow> anyhow + 'cell list"
  boc_unpack_fully :: "bytes \<Rightarrow> anyhow + 'cell list"
  boc_serialize :: "bool \<Rightarrow> 'cell \<Rightarrow> anyhow + bytes"
  cell_hash :: "'cell \<Rightarrow> bytes"
  hex_of :: "bytes \<Rightarrow> string"

text \<open>Decoding gives back what was encoded.\<close>

definition b64_standard_laws :: "'cell cell_lib \<Rightarrow> bool" where
  "b64_standard_laws L \<longleftrightarrow> (\<forall>bs. b64_standard_decode L (b64_standard_encode L bs) = Some bs)"

definition single_root :: "'cell list \<Rightarrow> 'cell option" where
  "single_root roots = (case roots of [r] \<Rightarrow> Some r | _ \<Rightarrow> None)"

section \<open>Structs of the TL schema\<close>

record TonNodeBlockIdExt =
  n_workchain :: i32
  n_shard :: i64
  n_seqno :: i32
  n_root_hash :: bytes
  n_file_hash :: bytes

record TonNodeZeroStateIdExt =
  z_workchain :: i32
  z_root_hash :: bytes
  z_file_hash :: bytes

record LiteServerMasterchainInfo =
  ls_last :: TonNodeBlockIdExt
  ls_state_root_hash :: bytes
  ls_init :: TonNodeZeroStateIdExt

record LiteServerTransactionId =
  lt_account :: "bytes option"
  lt_lt :: "i64 option"
  lt_hash :: "bytes option"

record LiteServerBlockTransactions =
  bt_id :: TonNodeBlockIdExt
  bt_incomplete :: bool
  bt_ids :: "LiteServerTransactionId list"
  bt_proof :: bytes

record LiteServerTransactionId3 =
  id3_account :: bytes
  id3_lt :: i64

section \<open>Structs of TL-B\<close>

record ExtBlkRef =
  ref_end_lt :: u64
  ref_seq_no :: u32
  ref_root_hash :: bytes
  ref_file_hash :: bytes

datatype BlkPrevInfo = PrevRef ExtBlkRef | PrevRefPair ExtBlkRef ExtBlkRef

record ShardIdent =
  shard_pfx_bits :: nat
  ident_workchain :: i32
  shard_prefix :: u64

text \<open>The prefix has at most six bits, so the shift stays inside the word.\<close>

definition shard_id :: "ShardIdent \<Rightarrow> u64" where
  "shard_id s = shard_prefix s OR push_bit (63 - shard_pfx_bits s) 1"

record GlobalVersion =
  gv_version :: u32
  gv_capabilities :: u64

record BlockInfo =
  bi_version :: u32
  bi_not_master :: bool
  bi_after_merge :: bool
  bi_before_split :: bool
  bi_after_split :: bool
  bi_want_split :: bool
  bi_want_merge :: bool
  bi_key_block :: bool
  bi_vert_seqno_incr :: bool
  bi_flags :: u8
  bi_seq_no :: u32
  bi_vert_seq_no :: u32
  bi_shard :: ShardIdent
  bi_gen_utime :: u32
  bi_start_lt :: u64
  bi_end_lt :: u64
  bi_gen_validator_list_hash_short :: u32
  bi_gen_catchain_seqno :: u32
  bi_min_ref_mc_seqno :: u32
  bi_prev_key_block_seqno :: u32
  bi_gen_software :: "GlobalVersion option"
  bi_master_ref :: "ExtBlkRef option"
  bi_prev_ref :: BlkPrevInfo
  bi_prev_vert_ref :: "BlkPrevInfo option"

record TlbBlockHeader =
  hd_global_id :: i32
  hd_info :: BlockInfo

record ShardDescr =
  sd_seq_no :: u32
  sd_root_hash :: bytes
  sd_file_hash :: bytes
  sd_next_validator_shard :: u64

record 'cell TlbTransaction =
  tt_account_addr :: bytes
  tt_lt :: u64
  tt_prev_trans_hash :: bytes
  tt_prev_trans_lt :: u64
  tt_now :: u32
  tt_in_msg :: "'cell option"
  tt_out_msgs :: "(u16 \<times> 'cell) list"
  tt_total_fees :: nat

record MsgAddress =
  ma_workchain :: i32
  ma_address :: bytes

datatype CommonMsgInfo =
    Internal MsgAddress MsgAddress nat nat nat u64
  | ExternalIn MsgAddress
  | ExternalOut MsgAddress u64

text \<open>
  What reads the structs from cells; \<open>merkle_hash\<close> and the others that go through a Merkle proof return
  the virtual hash that the reader has compared with the hash of the cell. A message is read with its
  body as a cell.
\<close>

record 'cell tlb_lib =
  merkle_hash :: "'cell \<Rightarrow> anyhow + bytes"
  merkle_block_header :: "'cell \<Rightarrow> anyhow + bytes \<times> TlbBlockHeader"
  parse_shard_hashes :: "'cell \<Rightarrow> anyhow + (u32 \<times> ShardDescr list) list"
  parse_transaction :: "'cell \<Rightarrow> anyhow + 'cell TlbTransaction"
  parse_message :: "'cell \<Rightarrow> anyhow + CommonMsgInfo \<times> (anyhow + 'cell)"

section \<open>Block identifiers\<close>

definition block_id_ext_from :: "'cell cell_lib \<Rightarrow> TonNodeBlockIdExt \<Rightarrow> BlockIdExt" where
  "block_id_ext_from L v =
     \<lparr>workchain = n_workchain v, shard = n_shard v, seqno = n_seqno v,
      root_hash = b64_standard_encode L (n_root_hash v),
      file_hash = b64_standard_encode L (n_file_hash v)\<rparr>"

definition decode_hash :: "'cell cell_lib \<Rightarrow> string \<Rightarrow> string \<Rightarrow> anyhow + bytes" where
  "decode_hash L what s =
     bindr (ok_or (''failed to decode '' @ what) (b64_standard_decode L s)) (\<lambda>bs.
       if length bs = 32 then Inr bs else Inl (what @ '' must be 32 bytes''))"

definition ton_node_block_id_ext_try_from :: "'cell cell_lib \<Rightarrow> BlockIdExt \<Rightarrow> anyhow + TonNodeBlockIdExt" where
  "ton_node_block_id_ext_try_from L v =
     bindr (decode_hash L ''root_hash'' (root_hash v)) (\<lambda>r.
     bindr (decode_hash L ''file_hash'' (file_hash v)) (\<lambda>f.
       Inr \<lparr>n_workchain = workchain v, n_shard = shard v, n_seqno = seqno v, n_root_hash = r, n_file_hash = f\<rparr>))"

definition ton_node_block_id_from :: "BlockIdExt \<Rightarrow> BlockId" where
  "ton_node_block_id_from v = \<lparr>workchain = workchain v, shard = shard v, seqno = seqno v\<rparr>"

definition masterchain_info_from :: "'cell cell_lib \<Rightarrow> LiteServerMasterchainInfo \<Rightarrow> MasterchainInfo" where
  "masterchain_info_from L v =
     \<lparr>mc_last = block_id_ext_from L (ls_last v),
      mc_state_root_hash = b64_standard_encode L (ls_state_root_hash v),
      mc_init = \<lparr>workchain = z_workchain (ls_init v), shard = 0, seqno = 0,
                 root_hash = b64_standard_encode L (z_root_hash (ls_init v)),
                 file_hash = b64_standard_encode L (z_file_hash (ls_init v))\<rparr>\<rparr>"

definition ext_blk_ref_to_block_id_ext :: "'cell cell_lib \<Rightarrow> ShardIdent \<Rightarrow> ExtBlkRef \<Rightarrow> BlockIdExt" where
  "ext_blk_ref_to_block_id_ext L s r =
     \<lparr>workchain = ident_workchain s, shard = sint (shard_id s), seqno = sint (ref_seq_no r),
      root_hash = b64_standard_encode L (ref_root_hash r),
      file_hash = b64_standard_encode L (ref_file_hash r)\<rparr>"

fun blk_prev_info_to_block_ids :: "'cell cell_lib \<Rightarrow> ShardIdent \<Rightarrow> BlkPrevInfo \<Rightarrow> BlockIdExt list" where
  "blk_prev_info_to_block_ids L s (PrevRef r) = [ext_blk_ref_to_block_id_ext L s r]"
| "blk_prev_info_to_block_ids L s (PrevRefPair a b) =
     [ext_blk_ref_to_block_id_ext L s a, ext_blk_ref_to_block_id_ext L s b]"

definition shard_descr_to_block_id_ext :: "'cell cell_lib \<Rightarrow> i32 \<Rightarrow> ShardDescr \<Rightarrow> BlockIdExt" where
  "shard_descr_to_block_id_ext L wc d =
     \<lparr>workchain = wc, shard = sint (sd_next_validator_shard d), seqno = sint (sd_seq_no d),
      root_hash = b64_standard_encode L (sd_root_hash d),
      file_hash = b64_standard_encode L (sd_file_hash d)\<rparr>"

definition block_header_to_ton_client :: "'cell cell_lib \<Rightarrow> BlockIdExt \<Rightarrow> TlbBlockHeader \<Rightarrow> BlockHeader" where
  "block_header_to_ton_client L i header =
     (let info = hd_info header in
      \<lparr>header_id = i,
       global_id = hd_global_id header,
       header_version = sint (bi_version info),
       header_flags = uint (bi_flags info),
       after_merge = bi_after_merge info,
       after_split = bi_after_split info,
       before_split = bi_before_split info,
       want_merge = bi_want_merge info,
       want_split = bi_want_split info,
       validator_list_hash_short = sint (bi_gen_validator_list_hash_short info),
       catchain_seqno = sint (bi_gen_catchain_seqno info),
       min_ref_mc_seqno = sint (bi_min_ref_mc_seqno info),
       is_key_block = bi_key_block info,
       prev_key_block_seqno = (if \<not> bi_not_master info then sint (bi_prev_key_block_seqno info) else 0),
       start_lt = sint (bi_start_lt info),
       end_lt = sint (bi_end_lt info),
       gen_utime = uint (bi_gen_utime info),
       vert_seqno = sint (bi_vert_seq_no info),
       prev_blocks = blk_prev_info_to_block_ids L (bi_shard info) (bi_prev_ref info)\<rparr>)"

section \<open>Transactions\<close>

definition ls_short_tx_id :: "'cell cell_lib \<Rightarrow> i32 \<Rightarrow> LiteServerTransactionId \<Rightarrow> anyhow + ShortTxId" where
  "ls_short_tx_id L wc tx =
     bindr (ok_or ''transaction id missing account'' (lt_account tx)) (\<lambda>account.
     bindr (ok_or ''transaction id missing lt'' (lt_lt tx)) (\<lambda>lt.
     bindr (ok_or ''transaction id missing hash'' (lt_hash tx)) (\<lambda>hash.
       Inr \<lparr>short_account = raw wc account, short_lt = lt, short_hash = b64_standard_encode L hash\<rparr>)))"

definition block_transactions_to_ton_client ::
  "'cell cell_lib \<Rightarrow> LiteServerBlockTransactions \<Rightarrow> anyhow + BlockTransactions" where
  "block_transactions_to_ton_client L v =
     map_ok (\<lambda>txs. \<lparr>ids_incomplete = bt_incomplete v, ids_transactions = txs\<rparr>)
       (try_map (ls_short_tx_id L (n_workchain (bt_id v))) (bt_ids v))"

definition transaction_id3_from :: "ShortTxId \<Rightarrow> LiteServerTransactionId3" where
  "transaction_id3_from v = \<lparr>id3_account = to_internal (short_account v), id3_lt = short_lt v\<rparr>"

definition biguint_to_i64 :: "nat \<Rightarrow> i64" where
  "biguint_to_i64 v = (if int v < 2 ^ 63 then int v else 2 ^ 63 - 1)"

definition msg_address_to_sca :: "MsgAddress \<Rightarrow> SmartContractAddress option" where
  "msg_address_to_sca addr =
     (if ma_address addr = replicate 32 0 \<and> ma_workchain addr = 0 then None
      else Some (to_bounceable (raw (ma_workchain addr) (ma_address addr))))"

definition boc_base64 :: "'cell cell_lib \<Rightarrow> 'cell \<Rightarrow> anyhow + string" where
  "boc_base64 L c = map_ok (b64_standard_encode L) (boc_serialize L True c)"

fun msg_info_fields ::
  "CommonMsgInfo \<Rightarrow> SmartContractAddress option \<times> SmartContractAddress option \<times> i64 \<times> i64 \<times> i64 \<times> i64" where
  "msg_info_fields (Internal src dst val fwd ihr lt) =
     (msg_address_to_sca src, msg_address_to_sca dst, biguint_to_i64 val, biguint_to_i64 fwd, biguint_to_i64 ihr,
      sint lt)"
| "msg_info_fields (ExternalIn dst) = (None, msg_address_to_sca dst, 0, 0, 0, 0)"
| "msg_info_fields (ExternalOut src lt) = (msg_address_to_sca src, None, 0, 0, 0, sint lt)"

definition tlb_message_to_ton_client :: "'cell cell_lib \<Rightarrow> 'cell tlb_lib \<Rightarrow> 'cell \<Rightarrow> anyhow + Message" where
  "tlb_message_to_ton_client L T cell =
     bindr (map_err (\<lambda>e. ''failed to parse message: '' @ e) (parse_message T cell)) (\<lambda>(info, body).
     bindr body (\<lambda>body_cell.
     bindr (boc_base64 L body_cell) (\<lambda>body_boc.
       let (src, dst, val, fwd, ihr, lt) = msg_info_fields info in
       Inr \<lparr>msg_hash = b64_standard_encode L (cell_hash L cell), msg_source = src, msg_destination = dst,
            msg_value = val, fwd_fee = fwd, ihr_fee = ihr, created_lt = lt,
            body_hash = b64_standard_encode L (cell_hash L body_cell),
            msg_data = RawData body_boc []\<rparr>)))"

definition transaction_to_ton_client ::
  "'cell cell_lib \<Rightarrow> 'cell tlb_lib \<Rightarrow> i32 \<Rightarrow> 'cell \<Rightarrow> 'cell TlbTransaction \<Rightarrow> anyhow + Transaction" where
  "transaction_to_ton_client L T wc root tx =
     bindr (boc_base64 L root) (\<lambda>data.
     bindr (case tt_in_msg tx of None \<Rightarrow> Inr None
            | Some c \<Rightarrow> map_ok Some (tlb_message_to_ton_client L T c)) (\<lambda>m.
     bindr (try_map (\<lambda>(_, c). tlb_message_to_ton_client L T c) (sort_key fst (tt_out_msgs tx))) (\<lambda>ms.
       Inr \<lparr>tx_address = to_bounceable (raw wc (tt_account_addr tx)), tx_utime = uint (tt_now tx), tx_data = data,
            transaction_id = \<lparr>tx_lt = sint (tt_lt tx), tx_hash = b64_standard_encode L (cell_hash L root)\<rparr>,
            tx_fee = biguint_to_i64 (tt_total_fees tx), storage_fee = 0, other_fee = 0,
            in_msg = m, out_msgs = ms\<rparr>)))"

section \<open>Proofs of blocks\<close>

definition list_block_transactions_mode :: "bool \<Rightarrow> bool \<Rightarrow> bool \<Rightarrow> i32" where
  "list_block_transactions_mode has_after reverse want_proof =
     (let mode = 1 OR 2 OR 4;
          mode = (if want_proof then mode OR 32 else mode);
          mode = (if reverse then mode OR 64 else mode) in
      if has_after then mode OR 128 else mode)"

definition hash_mismatch :: "'cell cell_lib \<Rightarrow> string \<Rightarrow> bytes \<Rightarrow> bytes \<Rightarrow> anyhow" where
  "hash_mismatch L what expected got =
     what @ '' root hash mismatch: expected '' @ hex_of L expected @ '', got '' @ hex_of L got"

definition verify_header_proof :: "'cell cell_lib \<Rightarrow> 'cell tlb_lib \<Rightarrow> bytes \<Rightarrow> bytes \<Rightarrow> anyhow + unit" where
  "verify_header_proof L T proof_bytes expected =
     bindr (boc_unpack_fully L proof_bytes) (\<lambda>boc.
     bindr (ok_or ''header proof: single root expected'' (single_root boc)) (\<lambda>root.
     bindr (merkle_hash T root) (\<lambda>virtual_hash.
       if virtual_hash \<noteq> expected then Inl (hash_mismatch L ''header proof'' expected virtual_hash) else Inr ())))"

definition verify_block_proof :: "'cell cell_lib \<Rightarrow> 'cell tlb_lib \<Rightarrow> bytes \<Rightarrow> bytes \<Rightarrow> anyhow + unit" where
  "verify_block_proof L T proof_bytes expected =
     (if proof_bytes = [] then Inl ''empty proof''
      else
        bindr (boc_deserialize L proof_bytes) (\<lambda>boc.
        bindr (ok_or ''proof: single root expected'' (single_root boc)) (\<lambda>root.
        bindr (merkle_hash T root) (\<lambda>virtual_hash.
          if virtual_hash \<noteq> expected then Inl (hash_mismatch L ''proof'' expected virtual_hash) else Inr ()))))"

section \<open>Sending messages\<close>

definition send_message_from_base64 :: "'cell cell_lib \<Rightarrow> string \<Rightarrow> anyhow + bytes" where
  "send_message_from_base64 L message = ok_or ''failed to decode message'' (b64_standard_decode L message)"

definition send_message_hash :: "'cell cell_lib \<Rightarrow> bytes \<Rightarrow> anyhow + bytes" where
  "send_message_hash L body =
     bindr (boc_deserialize L body) (\<lambda>boc.
     bindr (ok_or ''no root'' (single_root boc)) (\<lambda>root. Inr (cell_hash L root)))"

definition hash_base64 :: "'cell cell_lib \<Rightarrow> bytes \<Rightarrow> anyhow + string" where
  "hash_base64 L body = map_ok (b64_standard_encode L) (send_message_hash L body)"

definition ensure_ok :: "i32 \<Rightarrow> anyhow + unit" where
  "ensure_ok st = (if st = 1 then Inr () else Inl (''unexpected message status: '' @ show_i32 st))"

end
