(* ===== verification/Liteserver_Adapter.thy ===== *)
theory Liteserver_Adapter
  imports Liteserver_Convert
begin

text \<open>
  The liteserver adapter (\<open>ton-liteserver-client/src/adapter\<close>: \<open>account.rs\<close>, \<open>smc.rs\<close>,
  \<open>mod.rs\<close>): how every request of \<open>ton-tower\<close> becomes queries to a liteserver, which checks
  their answers must pass, and what is returned. The queries are the fields of \<open>ls_api\<close>: one function
  per request struct of the TL schema, as the liteserver client performs it. The adapter is a value of
  type \<open>'s handlers\<close>, the interface that discovery, search and the streams of \<open>ton-client\<close> use.
\<close>

unbundle bit_operations_syntax

section \<open>Requests and answers of the liteserver\<close>

record LiteServerAccountId =
  aid_workchain :: i32
  aid_id :: bytes

record LiteServerLookupBlock =
  lb_mode :: i32
  lb_id :: BlockId
  lb_lt :: "i64 option"
  lb_utime :: "i32 option"

record LiteServerBlockHeader =
  bh_id :: TonNodeBlockIdExt
  bh_header_proof :: bytes

record LiteServerAllShardsInfo =
  si_proof :: bytes
  si_data :: bytes

record LiteServerListBlockTransactions =
  lbt_id :: TonNodeBlockIdExt
  lbt_mode :: i32
  lbt_count :: i32
  lbt_after :: "LiteServerTransactionId3 option"
  lbt_reverse_order :: "unit option"
  lbt_want_proof :: "unit option"

record LiteServerBlockTransactionsExt =
  bte_id :: TonNodeBlockIdExt
  bte_incomplete :: bool
  bte_transactions :: bytes
  bte_proof :: bytes

record LiteServerAccountState =
  as_id :: TonNodeBlockIdExt
  as_shardblk :: TonNodeBlockIdExt
  as_shard_proof :: bytes
  as_proof :: bytes
  as_state :: bytes

record LiteServerRunSmcMethod =
  rm_mode :: i32
  rm_id :: TonNodeBlockIdExt
  rm_account :: LiteServerAccountId
  rm_method_id :: i64
  rm_params :: bytes

record 's ls_api =
  ls_get_masterchain_info :: "('s, LiteServerMasterchainInfo) io"
  ls_lookup_block :: "LiteServerLookupBlock \<Rightarrow> ('s, LiteServerBlockHeader) io"
  ls_get_all_shards_info :: "TonNodeBlockIdExt \<Rightarrow> ('s, LiteServerAllShardsInfo) io"
  ls_get_block_header :: "TonNodeBlockIdExt \<Rightarrow> i32 \<Rightarrow> ('s, LiteServerBlockHeader) io"
  ls_list_block_transactions :: "LiteServerListBlockTransactions \<Rightarrow> ('s, LiteServerBlockTransactions) io"
  ls_list_block_transactions_ext :: "LiteServerListBlockTransactions \<Rightarrow> ('s, LiteServerBlockTransactionsExt) io"
  ls_send_message :: "bytes \<Rightarrow> ('s, i32) io"
  ls_get_account_state :: "TonNodeBlockIdExt \<Rightarrow> LiteServerAccountId \<Rightarrow> ('s, LiteServerAccountState) io"
  ls_get_one_transaction :: "TonNodeBlockIdExt \<Rightarrow> LiteServerAccountId \<Rightarrow> i64 \<Rightarrow> ('s, TonNodeBlockIdExt) io"
  ls_get_transactions :: "i32 \<Rightarrow> LiteServerAccountId \<Rightarrow> i64 \<Rightarrow> bytes \<Rightarrow> ('s, bytes) io"
  ls_run_smc_method :: "LiteServerRunSmcMethod \<Rightarrow> ('s, i32 \<times> bytes option) io"

section \<open>Accounts\<close>

datatype 'cell TlbAccountState =
    AccountUninit
  | AccountActive "'cell option" "'cell option"
  | AccountFrozen bytes

datatype 'cell Account = AccountNone | Account nat "'cell TlbAccountState"

text \<open>
  The readers of the account and of the shard state in a Merkle proof, of which the code uses \<open>gen_utime\<close>.
\<close>

record 'cell account_lib =
  parse_account :: "'cell \<Rightarrow> anyhow + 'cell Account"
  merkle_shard_state :: "'cell \<Rightarrow> anyhow + u32"

definition DEFAULT_TX_BATCH :: i32 where "DEFAULT_TX_BATCH = 16"

definition account_id :: "SmartContractAddress \<Rightarrow> LiteServerAccountId" where
  "account_id address = \<lparr>aid_workchain = workchain_id address, aid_id = to_internal address\<rparr>"

text \<open>\<open>{:?}\<close> of a vector of strings without characters to escape.\<close>

fun debug_items :: "string list \<Rightarrow> string" where
  "debug_items [] = []"
| "debug_items [x] = CHR 0x22 # x @ [CHR 0x22]"
| "debug_items (x # xs) = CHR 0x22 # x @ CHR 0x22 # '', '' @ debug_items xs"

definition require_proof_binds_to ::
  "'cell cell_lib \<Rightarrow> 'cell tlb_lib \<Rightarrow> bytes \<Rightarrow> bytes \<Rightarrow> string \<Rightarrow> anyhow + unit" where
  "require_proof_binds_to L T proof_bytes expected what =
     (if proof_bytes = [] then Inl (what @ '': empty proof'')
      else
        bindr (boc_deserialize L proof_bytes) (\<lambda>roots.
          if roots = [] then Inl (what @ '': no roots'')
          else
            bindr (try_map (merkle_hash T) roots) (\<lambda>virtual_hashes.
              if expected \<notin> set virtual_hashes
              then Inl (what @ '': no root binds to expected root_hash '' @ hex_of L expected
                     @ '' (got: ['' @ debug_items (map (hex_of L) virtual_hashes) @ ''])'')
              else Inr ())))"

definition verify_account_proofs ::
  "'cell cell_lib \<Rightarrow> 'cell tlb_lib \<Rightarrow> LiteServerAccountState \<Rightarrow> anyhow + unit" where
  "verify_account_proofs L T response =
     bindr (require_proof_binds_to L T (as_proof response) (n_root_hash (as_shardblk response)) ''account proof'')
       (\<lambda>_. if as_shard_proof response \<noteq> []
            then require_proof_binds_to L T (as_shard_proof response) (n_root_hash (as_id response))
                   ''account shard_proof''
            else Inr ())"

fun first_shard_state :: "'cell account_lib \<Rightarrow> 'cell list \<Rightarrow> u32 option" where
  "first_shard_state A [] = None"
| "first_shard_state A (root # roots) =
     (case merkle_shard_state A root of Inl _ \<Rightarrow> first_shard_state A roots | Inr t \<Rightarrow> Some t)"

definition extract_gen_utime_from_proof ::
  "'cell cell_lib \<Rightarrow> 'cell account_lib \<Rightarrow> bytes \<Rightarrow> anyhow + i64" where
  "extract_gen_utime_from_proof L A proof_bytes =
     bindr (boc_deserialize L proof_bytes) (\<lambda>roots.
       ok_or ''proof contains no ShardStateUnsplit root (expected tag 0x9023afe2)''
         (map_option uint (first_shard_state A roots)))"

definition encode_optional_cell_boc :: "'cell cell_lib \<Rightarrow> 'cell option \<Rightarrow> anyhow + string" where
  "encode_optional_cell_boc L c =
     (case c of None \<Rightarrow> Inr []
      | Some cell \<Rightarrow> map_ok (b64_standard_encode L)
          (map_err (\<lambda>e. ''BoC serialize failed: '' @ e) (boc_serialize L True cell)))"

definition balance_to_i64 :: "nat \<Rightarrow> i64" where
  "balance_to_i64 v = (if int v < 2 ^ 63 then int v else 2 ^ 63 - 1)"

fun storage_state_components ::
  "'cell cell_lib \<Rightarrow> 'cell TlbAccountState \<Rightarrow> anyhow + string \<times> string \<times> string" where
  "storage_state_components L AccountUninit = Inr ([], [], [])"
| "storage_state_components L (AccountFrozen state_hash) = Inr ([], [], b64_standard_encode L state_hash)"
| "storage_state_components L (AccountActive code data) =
     bindr (encode_optional_cell_boc L code) (\<lambda>c.
     bindr (encode_optional_cell_boc L data) (\<lambda>d. Inr (c, d, [])))"

fun account_components ::
  "'cell cell_lib \<Rightarrow> 'cell Account \<Rightarrow> anyhow + i64 option \<times> string \<times> string \<times> string" where
  "account_components L AccountNone = Inr (None, [], [], [])"
| "account_components L (Account grams state) =
     map_ok (\<lambda>(c, d, f). (Some (balance_to_i64 grams), c, d, f)) (storage_state_components L state)"

definition account_state_from_response ::
  "'cell cell_lib \<Rightarrow> 'cell tlb_lib \<Rightarrow> 'cell account_lib \<Rightarrow> LiteServerAccountState \<Rightarrow> anyhow + AccountState" where
  "account_state_from_response L T A response =
     bindr (verify_account_proofs L T response) (\<lambda>_.
       let block_id_out = block_id_ext_from L (as_shardblk response) in
       bindr (extract_gen_utime_from_proof L A (as_proof response)) (\<lambda>utime.
         if as_state response = [] then
           Inr \<lparr>balance = None, account_code = [], account_data = [], frozen_hash = [],
                last_transaction_id = None, account_block_id = block_id_out, sync_utime = utime\<rparr>
         else
           bindr (boc_deserialize L (as_state response)) (\<lambda>boc.
           bindr (ok_or ''account state: single root expected'' (single_root boc)) (\<lambda>root.
           bindr (parse_account A root) (\<lambda>account.
           bindr (account_components L account) (\<lambda>(bal, code, data, frozen).
             Inr \<lparr>balance = bal, account_code = code, account_data = data, frozen_hash = frozen,
                  last_transaction_id = None, account_block_id = block_id_out, sync_utime = utime\<rparr>))))))"

definition shard_account_cell_from_response ::
  "'cell cell_lib \<Rightarrow> 'cell tlb_lib \<Rightarrow> LiteServerAccountState \<Rightarrow> anyhow + Cell" where
  "shard_account_cell_from_response L T response =
     bindr (verify_account_proofs L T response) (\<lambda>_. Inr (b64_standard_encode L (as_state response)))"

definition account_state_request ::
  "SmartContractAddress \<Rightarrow> TonNodeBlockIdExt \<Rightarrow> TonNodeBlockIdExt \<times> LiteServerAccountId" where
  "account_state_request address block = (block, account_id address)"

definition fetch_account_state_raw ::
  "'s ls_api \<Rightarrow> SmartContractAddress \<Rightarrow> TonNodeBlockIdExt \<Rightarrow> ('s, LiteServerAccountState) io" where
  "fetch_account_state_raw api address block =
     (case account_state_request address block of (b, a) \<Rightarrow> ls_get_account_state api b a)"

definition get_account_state_inner ::
  "'cell cell_lib \<Rightarrow> 'cell tlb_lib \<Rightarrow> 'cell account_lib \<Rightarrow> 's ls_api \<Rightarrow> SmartContractAddress \<Rightarrow> TonNodeBlockIdExt
     \<Rightarrow> ('s, AccountState) io" where
  "get_account_state_inner L T A api address block =
     bind_io (fetch_account_state_raw api address block) (\<lambda>r. lift_io (account_state_from_response L T A r))"

definition get_shard_account_cell_inner ::
  "'cell cell_lib \<Rightarrow> 'cell tlb_lib \<Rightarrow> 's ls_api \<Rightarrow> SmartContractAddress \<Rightarrow> TonNodeBlockIdExt \<Rightarrow> ('s, Cell) io" where
  "get_shard_account_cell_inner L T api address block =
     bind_io (fetch_account_state_raw api address block) (\<lambda>r. lift_io (shard_account_cell_from_response L T r))"

definition decode_tx_hash :: "'cell cell_lib \<Rightarrow> string \<Rightarrow> anyhow + bytes" where
  "decode_tx_hash L h =
     bindr (ok_or ''invalid base64 tx hash'' (b64_standard_decode L h)) (\<lambda>bs.
       if length bs = 32 then Inr bs else Inl (''tx hash must be 32 bytes, got '' @ dec_nat (length bs)))"

definition lookup_block_by_transaction ::
  "'cell cell_lib \<Rightarrow> 's ls_api \<Rightarrow> TonNodeBlockIdExt \<Rightarrow> SmartContractAddress \<Rightarrow> TransactionId
     \<Rightarrow> ('s, TonNodeBlockIdExt) io" where
  "lookup_block_by_transaction L api mc address tx =
     bind_io (lift_io (decode_tx_hash L (tx_hash tx))) (\<lambda>_.
       ls_get_one_transaction api mc (account_id address) (tx_lt tx))"

section \<open>Get methods\<close>

datatype ('cell, 'k) VmStackValue =
    VmNull
  | VmTinyInt i64
  | VmInt nat
  | VmNan
  | VmCell 'cell
  | VmSlice 'cell nat nat nat nat
  | VmBuilder 'cell
  | VmCont 'k
  | VmTuple "('cell, 'k) VmStackValue list"

text \<open>
  Big numbers, the text form and the sizes of cells, and CRC-16, all of other crates; the form of a stack as
  a cell (\<open>tlb/vm_stack.rs\<close>).
\<close>

record ('cell, 'k) smc_lib =
  biguint_from_str :: "string \<Rightarrow> anyhow + nat"
  biguint_to_str :: "nat \<Rightarrow> string"
  boc_parse_base64 :: "string \<Rightarrow> anyhow + 'cell list"
  cell_bits :: "'cell \<Rightarrow> nat"
  cell_refs :: "'cell \<Rightarrow> nat"
  crc16_xmodem_of :: "string \<Rightarrow> u16"
  vm_stack_to_cell :: "('cell, 'k) VmStackValue list \<Rightarrow> anyhow + 'cell"
  parse_vm_stack :: "'cell \<Rightarrow> anyhow + ('cell, 'k) VmStackValue list"

definition RUN_METHOD_MODE_RESULT :: i32 where "RUN_METHOD_MODE_RESULT = 4"

definition GAS_USED_PLACEHOLDER :: i64 where "GAS_USED_PLACEHOLDER = 0"

definition method_id_from_name :: "('cell, 'k) smc_lib \<Rightarrow> string \<Rightarrow> i64" where
  "method_id_from_name S name = uint (crc16_xmodem_of S name) OR 0x10000"

text \<open>\<open>i64::from_str\<close>: an optional sign, at least one digit, and the value in range.\<close>

fun digits_val :: "nat \<Rightarrow> string \<Rightarrow> nat option" where
  "digits_val acc [] = Some acc"
| "digits_val acc (c # cs) = Option.bind (digit_val c) (\<lambda>d. digits_val (10 * acc + d) cs)"

definition unsigned_of :: "string \<Rightarrow> nat option" where
  "unsigned_of s = (if s = [] then None else digits_val 0 s)"

definition from_str_i64 :: "string \<Rightarrow> i64 option" where
  "from_str_i64 s =
     Option.bind
       (case s of
          [] \<Rightarrow> None
        | c # cs \<Rightarrow>
            if c = CHR ''-'' then map_option (\<lambda>n. - int n) (unsigned_of cs)
            else if c = CHR ''+'' then map_option int (unsigned_of cs)
            else map_option int (unsigned_of s))
       (\<lambda>x. if i64_range x then Some x else None)"

definition parse_number_to_vm :: "('cell, 'k) smc_lib \<Rightarrow> string \<Rightarrow> anyhow + ('cell, 'k) VmStackValue" where
  "parse_number_to_vm S number =
     (case from_str_i64 number of
        Some v \<Rightarrow> Inr (VmTinyInt v)
      | None \<Rightarrow>
          if number \<noteq> [] \<and> hd number = CHR ''-''
          then Inl (''negative int257 not supported (toner BigInt limitation): '' @ number)
          else map_err (\<lambda>e. ''invalid Number stack entry '' @ debug_items [number] @ '': '' @ e)
                 (map_ok VmInt (biguint_from_str S number)))"

definition decode_single_root_cell :: "('cell, 'k) smc_lib \<Rightarrow> string \<Rightarrow> anyhow + 'cell" where
  "decode_single_root_cell S b64 =
     bindr (map_err (\<lambda>e. ''StackEntry bytes: invalid BoC: '' @ e) (boc_parse_base64 S b64)) (\<lambda>boc.
       ok_or ''StackEntry bytes: BoC must have exactly one root cell'' (single_root boc))"

fun stack_entry_to_vm :: "('cell, 'k) smc_lib \<Rightarrow> StackEntry \<Rightarrow> anyhow + ('cell, 'k) VmStackValue" where
  "stack_entry_to_vm S (StackSlice b64) =
     bindr (decode_single_root_cell S b64) (\<lambda>cell.
       if cell_bits S cell \<ge> 2 ^ 16 then Inl ''slice cell.data.len() exceeds u16''
       else if cell_refs S cell \<ge> 2 ^ 8 then Inl ''slice cell.references.len() exceeds u8''
       else Inr (VmSlice cell 0 (cell_bits S cell) 0 (cell_refs S cell)))"
| "stack_entry_to_vm S (StackCell b64) = map_ok VmCell (decode_single_root_cell S b64)"
| "stack_entry_to_vm S (StackNumber number) = parse_number_to_vm S number"
| "stack_entry_to_vm S (StackTuple elements) = map_ok VmTuple (try_map (stack_entry_to_vm S) elements)"
| "stack_entry_to_vm S (StackList elements) = map_ok VmTuple (try_map (stack_entry_to_vm S) elements)"
| "stack_entry_to_vm S StackUnsupported = Inl ''cannot encode StackEntry::Unsupported into VmStack''"

definition encode_input_stack ::
  "'cell cell_lib \<Rightarrow> ('cell, 'k) smc_lib \<Rightarrow> StackEntry list \<Rightarrow> anyhow + bytes" where
  "encode_input_stack L S stack =
     bindr (try_map (stack_entry_to_vm S) stack) (\<lambda>items.
     bindr (map_err (\<lambda>e. ''serialize VmStack to cell: '' @ e) (vm_stack_to_cell S items)) (\<lambda>cell.
       map_err (\<lambda>e. ''serialize VmStack BoC: '' @ e) (boc_serialize L False cell)))"

definition encode_cell_b64 :: "'cell cell_lib \<Rightarrow> 'cell \<Rightarrow> anyhow + string" where
  "encode_cell_b64 L cell =
     map_ok (b64_standard_encode L) (map_err (\<lambda>e. ''serialize cell BoC: '' @ e) (boc_serialize L False cell))"

fun vm_to_stack_entry ::
  "'cell cell_lib \<Rightarrow> ('cell, 'k) smc_lib \<Rightarrow> ('cell, 'k) VmStackValue \<Rightarrow> anyhow + StackEntry" where
  "vm_to_stack_entry L S VmNull = Inr StackUnsupported"
| "vm_to_stack_entry L S VmNan = Inr StackUnsupported"
| "vm_to_stack_entry L S (VmTinyInt v) = Inr (StackNumber (show_i32 v))"
| "vm_to_stack_entry L S (VmInt n) = Inr (StackNumber (biguint_to_str S n))"
| "vm_to_stack_entry L S (VmCell cell) = map_ok StackCell (encode_cell_b64 L cell)"
| "vm_to_stack_entry L S (VmSlice cell _ _ _ _) = map_ok StackSlice (encode_cell_b64 L cell)"
| "vm_to_stack_entry L S (VmBuilder cell) = map_ok StackCell (encode_cell_b64 L cell)"
| "vm_to_stack_entry L S (VmCont _) = Inr StackUnsupported"
| "vm_to_stack_entry L S (VmTuple vs) = map_ok StackTuple (try_map (vm_to_stack_entry L S) vs)"

definition decode_result_stack ::
  "'cell cell_lib \<Rightarrow> ('cell, 'k) smc_lib \<Rightarrow> bytes \<Rightarrow> anyhow + StackEntry list" where
  "decode_result_stack L S bs =
     bindr (map_err (\<lambda>e. ''result stack: invalid BoC: '' @ e) (boc_deserialize L bs)) (\<lambda>boc.
     bindr (ok_or ''result stack: BoC must have exactly one root cell'' (single_root boc)) (\<lambda>root.
     bindr (map_err (\<lambda>e. ''result stack: parse VmStack: '' @ e) (parse_vm_stack S root)) (\<lambda>stack.
       try_map (vm_to_stack_entry L S) stack)))"

definition run_get_method_inner ::
  "'cell cell_lib \<Rightarrow> ('cell, 'k) smc_lib \<Rightarrow> 's ls_api \<Rightarrow> SmartContractAddress \<Rightarrow> TonNodeBlockIdExt \<Rightarrow> string
     \<Rightarrow> StackEntry list \<Rightarrow> ('s, SmcRunResult) io" where
  "run_get_method_inner L S api address block method stack =
     bind_io (lift_io (encode_input_stack L S stack)) (\<lambda>params.
     bind_io (ls_run_smc_method api
         \<lparr>rm_mode = RUN_METHOD_MODE_RESULT, rm_id = block, rm_account = account_id address,
          rm_method_id = method_id_from_name S method, rm_params = params\<rparr>) (\<lambda>(code, result).
     bind_io (lift_io (case result of
           Some bs \<Rightarrow> if bs \<noteq> [] then decode_result_stack L S bs else Inr []
         | None \<Rightarrow> Inr [])) (\<lambda>st.
       ok_io \<lparr>gas_used = GAS_USED_PLACEHOLDER, exit_code = code, smc_stack = st\<rparr>)))"

section \<open>The services of the adapter\<close>

text \<open>All the libraries of an adapter.\<close>

record ('cell, 'k) libs =
  cells :: "'cell cell_lib"
  tlb :: "'cell tlb_lib"
  accounts :: "'cell account_lib"
  smc :: "('cell, 'k) smc_lib"

definition adapter_get_masterchain_info :: "('cell, 'k) libs \<Rightarrow> 's ls_api \<Rightarrow> ('s, MasterchainInfo) io" where
  "adapter_get_masterchain_info X api = map_io (masterchain_info_from (cells X)) (ls_get_masterchain_info api)"

definition adapter_sync :: "('cell, 'k) libs \<Rightarrow> 's ls_api \<Rightarrow> ('s, BlockIdExt) io" where
  "adapter_sync X api = map_io (\<lambda>info. mc_last (masterchain_info_from (cells X) info)) (ls_get_masterchain_info api)"

definition lookup_verified ::
  "('cell, 'k) libs \<Rightarrow> 's ls_api \<Rightarrow> LiteServerLookupBlock \<Rightarrow> ('s, BlockIdExt) io" where
  "lookup_verified X api request =
     bind_io (ls_lookup_block api request) (\<lambda>response.
       lift_io (map_ok (\<lambda>_. block_id_ext_from (cells X) (bh_id response))
         (verify_header_proof (cells X) (tlb X) (bh_header_proof response) (n_root_hash (bh_id response)))))"

definition lookup_block_seqno :: "BlockId \<Rightarrow> LiteServerLookupBlock" where
  "lookup_block_seqno b = \<lparr>lb_mode = 1, lb_id = b, lb_lt = None, lb_utime = None\<rparr>"

definition adapter_look_up_block_by_seqno ::
  "('cell, 'k) libs \<Rightarrow> 's ls_api \<Rightarrow> i32 \<Rightarrow> i64 \<Rightarrow> i32 \<Rightarrow> ('s, BlockIdExt) io" where
  "adapter_look_up_block_by_seqno X api chain sh n =
     (if n \<le> 0 then err_io ''seqno must be greater than 0''
      else lookup_verified X api (lookup_block_seqno \<lparr>workchain = chain, shard = sh, seqno = n\<rparr>))"

definition adapter_look_up_block_by_lt ::
  "('cell, 'k) libs \<Rightarrow> 's ls_api \<Rightarrow> i32 \<Rightarrow> i64 \<Rightarrow> i64 \<Rightarrow> ('s, BlockIdExt) io" where
  "adapter_look_up_block_by_lt X api chain sh lt =
     (if lt \<le> 0 then err_io ''lt must be greater than 0''
      else lookup_verified X api
        \<lparr>lb_mode = 0, lb_id = \<lparr>workchain = chain, shard = sh, seqno = 0\<rparr>, lb_lt = Some lt, lb_utime = None\<rparr>)"

definition shard_block_ids :: "'cell cell_lib \<Rightarrow> (u32 \<times> ShardDescr list) list \<Rightarrow> BlockIdExt list" where
  "shard_block_ids L hashes =
     concat (map (\<lambda>(wc, shards). map (shard_descr_to_block_id_ext L (sint wc)) shards) hashes)"

definition adapter_get_shards :: "('cell, 'k) libs \<Rightarrow> 's ls_api \<Rightarrow> BlockIdExt \<Rightarrow> ('s, BlockIdExt list) io" where
  "adapter_get_shards X api block =
     bind_io (lift_io (ton_node_block_id_ext_try_from (cells X) block)) (\<lambda>i.
       if n_workchain i \<noteq> -1 then err_io ''workchain must be -1''
       else bind_io (ls_get_all_shards_info api i) (\<lambda>response. lift_io (
         bindr (verify_block_proof (cells X) (tlb X) (si_proof response) (n_root_hash i)) (\<lambda>_.
         bindr (boc_unpack (cells X) (si_data response)) (\<lambda>boc.
         bindr (ok_or ''single root expected'' (single_root boc)) (\<lambda>root.
         bindr (parse_shard_hashes (tlb X) root) (\<lambda>hashes. Inr (shard_block_ids (cells X) hashes))))))))"

definition adapter_get_block_header ::
  "('cell, 'k) libs \<Rightarrow> 's ls_api \<Rightarrow> BlockIdExt \<Rightarrow> ('s, BlockHeader) io" where
  "adapter_get_block_header X api block =
     bind_io (lift_io (ton_node_block_id_ext_try_from (cells X) block)) (\<lambda>i.
     bind_io (ls_get_block_header api i 0) (\<lambda>response. lift_io (
       bindr (boc_unpack_fully (cells X) (bh_header_proof response)) (\<lambda>boc.
       bindr (ok_or ''single root expected'' (single_root boc)) (\<lambda>root.
       bindr (merkle_block_header (tlb X) root) (\<lambda>(virtual_hash, virtual_root).
         if virtual_hash \<noteq> n_root_hash i
         then Inl (hash_mismatch (cells X) ''block header proof'' (n_root_hash i) virtual_hash)
         else Inr (block_header_to_ton_client (cells X) block virtual_root)))))))"

definition list_transactions_request ::
  "TonNodeBlockIdExt \<Rightarrow> ShortTxId option \<Rightarrow> bool \<Rightarrow> i32 \<Rightarrow> LiteServerListBlockTransactions" where
  "list_transactions_request i aft reverse cnt =
     \<lparr>lbt_id = i, lbt_mode = list_block_transactions_mode (aft \<noteq> None) reverse True, lbt_count = cnt,
      lbt_after = map_option transaction_id3_from aft,
      lbt_reverse_order = (if reverse then Some () else None), lbt_want_proof = Some ()\<rparr>"

definition adapter_get_transaction_ids ::
  "('cell, 'k) libs \<Rightarrow> 's ls_api \<Rightarrow> BlockIdExt \<Rightarrow> ShortTxId option \<Rightarrow> bool \<Rightarrow> i32 \<Rightarrow> ('s, BlockTransactions) io" where
  "adapter_get_transaction_ids X api block aft reverse cnt =
     bind_io (lift_io (ton_node_block_id_ext_try_from (cells X) block)) (\<lambda>i.
     bind_io (ls_list_block_transactions api (list_transactions_request i aft reverse cnt)) (\<lambda>response. lift_io (
       bindr (verify_block_proof (cells X) (tlb X) (bt_proof response) (n_root_hash i)) (\<lambda>_.
         block_transactions_to_ton_client (cells X) response))))"

definition read_transaction :: "('cell, 'k) libs \<Rightarrow> i32 \<Rightarrow> 'cell \<Rightarrow> anyhow + Transaction" where
  "read_transaction X wc root =
     bindr (parse_transaction (tlb X) root) (\<lambda>tx. transaction_to_ton_client (cells X) (tlb X) wc root tx)"

definition adapter_get_transactions ::
  "('cell, 'k) libs \<Rightarrow> 's ls_api \<Rightarrow> BlockIdExt \<Rightarrow> ShortTxId option \<Rightarrow> bool \<Rightarrow> i32 \<Rightarrow> ('s, BlockTransactionsExt) io" where
  "adapter_get_transactions X api block aft reverse cnt =
     bind_io (lift_io (ton_node_block_id_ext_try_from (cells X) block)) (\<lambda>i.
     bind_io (ls_list_block_transactions_ext api (list_transactions_request i aft reverse cnt)) (\<lambda>response. lift_io (
       bindr (verify_block_proof (cells X) (tlb X) (bte_proof response) (n_root_hash i)) (\<lambda>_.
       bindr (if bte_transactions response = [] then Inr []
              else bindr (boc_deserialize (cells X) (bte_transactions response))
                (try_map (read_transaction X (n_workchain (bte_id response))))) (\<lambda>txs.
         Inr \<lparr>ext_incomplete = bte_incomplete response, ext_transactions = txs\<rparr>)))))"

definition adapter_send_message :: "('cell, 'k) libs \<Rightarrow> 's ls_api \<Rightarrow> string \<Rightarrow> ('s, unit) io" where
  "adapter_send_message X api msg =
     bind_io (lift_io (send_message_from_base64 (cells X) msg)) (\<lambda>body.
     bind_io (ls_send_message api body) (\<lambda>st. lift_io (ensure_ok st)))"

definition adapter_send_message_returning_hash ::
  "('cell, 'k) libs \<Rightarrow> 's ls_api \<Rightarrow> string \<Rightarrow> ('s, string) io" where
  "adapter_send_message_returning_hash X api msg =
     bind_io (lift_io (send_message_from_base64 (cells X) msg)) (\<lambda>body.
     bind_io (lift_io (hash_base64 (cells X) body)) (\<lambda>hash.
     bind_io (ls_send_message api body) (\<lambda>st. lift_io (map_ok (\<lambda>_. hash) (ensure_ok st)))))"

definition adapter_get_account_state ::
  "('cell, 'k) libs \<Rightarrow> 's ls_api \<Rightarrow> SmartContractAddress \<Rightarrow> ('s, AccountState) io" where
  "adapter_get_account_state X api address =
     bind_io (ls_get_masterchain_info api) (\<lambda>mc.
       get_account_state_inner (cells X) (tlb X) (accounts X) api address (ls_last mc))"

definition adapter_get_account_state_on_block ::
  "('cell, 'k) libs \<Rightarrow> 's ls_api \<Rightarrow> SmartContractAddress \<Rightarrow> BlockIdExt \<Rightarrow> ('s, AccountState) io" where
  "adapter_get_account_state_on_block X api address block =
     bind_io (lift_io (ton_node_block_id_ext_try_from (cells X) block)) (\<lambda>i.
       get_account_state_inner (cells X) (tlb X) (accounts X) api address i)"

definition adapter_get_account_state_by_transaction ::
  "('cell, 'k) libs \<Rightarrow> 's ls_api \<Rightarrow> SmartContractAddress \<Rightarrow> TransactionId \<Rightarrow> ('s, AccountState) io" where
  "adapter_get_account_state_by_transaction X api address tx =
     bind_io (ls_get_masterchain_info api) (\<lambda>mc.
     bind_io (lookup_block_by_transaction (cells X) api (ls_last mc) address tx) (\<lambda>i.
       get_account_state_inner (cells X) (tlb X) (accounts X) api address i))"

definition previous_of_last :: "('cell, 'k) libs \<Rightarrow> 'cell list \<Rightarrow> anyhow + TransactionId option" where
  "previous_of_last X roots =
     (if roots = [] then Inr None
      else map_ok (\<lambda>tx. if tt_prev_trans_lt tx > 0
               then Some \<lparr>tx_lt = sint (tt_prev_trans_lt tx),
                          tx_hash = b64_standard_encode (cells X) (tt_prev_trans_hash tx)\<rparr>
               else None) (parse_transaction (tlb X) (last roots)))"

definition adapter_get_account_transactions ::
  "('cell, 'k) libs \<Rightarrow> 's ls_api \<Rightarrow> SmartContractAddress \<Rightarrow> TransactionId \<Rightarrow> ('s, Transactions) io" where
  "adapter_get_account_transactions X api address from =
     bind_io (lift_io (decode_tx_hash (cells X) (tx_hash from))) (\<lambda>hash.
     bind_io (ls_get_transactions api DEFAULT_TX_BATCH (account_id address) (tx_lt from) hash) (\<lambda>response. lift_io (
       if response = [] then Inr \<lparr>account_transactions = [], previous_transaction_id = None\<rparr>
       else
         bindr (boc_deserialize (cells X) response) (\<lambda>roots.
         bindr (try_map (read_transaction X (workchain_id address)) roots) (\<lambda>txs.
         bindr (previous_of_last X roots) (\<lambda>prev.
           Inr \<lparr>account_transactions = txs, previous_transaction_id = prev\<rparr>))))))"

definition adapter_get_shard_account_cell ::
  "('cell, 'k) libs \<Rightarrow> 's ls_api \<Rightarrow> SmartContractAddress \<Rightarrow> ('s, Cell) io" where
  "adapter_get_shard_account_cell X api address =
     bind_io (ls_get_masterchain_info api) (\<lambda>mc.
       get_shard_account_cell_inner (cells X) (tlb X) api address (ls_last mc))"

definition adapter_get_shard_account_cell_on_block ::
  "('cell, 'k) libs \<Rightarrow> 's ls_api \<Rightarrow> SmartContractAddress \<Rightarrow> BlockIdExt \<Rightarrow> ('s, Cell) io" where
  "adapter_get_shard_account_cell_on_block X api address block =
     bind_io (lift_io (ton_node_block_id_ext_try_from (cells X) block)) (\<lambda>i.
       get_shard_account_cell_inner (cells X) (tlb X) api address i)"

definition adapter_get_shard_account_cell_by_transaction ::
  "('cell, 'k) libs \<Rightarrow> 's ls_api \<Rightarrow> SmartContractAddress \<Rightarrow> TransactionId \<Rightarrow> ('s, Cell) io" where
  "adapter_get_shard_account_cell_by_transaction X api address tx =
     bind_io (ls_get_masterchain_info api) (\<lambda>mc.
     bind_io (lookup_block_by_transaction (cells X) api (ls_last mc) address tx) (\<lambda>i.
       get_shard_account_cell_inner (cells X) (tlb X) api address i))"

definition adapter_run_get_method ::
  "('cell, 'k) libs \<Rightarrow> 's ls_api \<Rightarrow> SmartContractAddress \<Rightarrow> string \<Rightarrow> StackEntry list \<Rightarrow> ('s, SmcRunResult) io" where
  "adapter_run_get_method X api address method stack =
     bind_io (ls_get_masterchain_info api) (\<lambda>mc.
       run_get_method_inner (cells X) (smc X) api address (ls_last mc) method stack)"

definition adapter :: "('cell, 'k) libs \<Rightarrow> 's ls_api \<Rightarrow> 's handlers" where
  "adapter X api =
     \<lparr>on_get_masterchain_info = adapter_get_masterchain_info X api,
      on_look_up_block_by_seqno = adapter_look_up_block_by_seqno X api,
      on_look_up_block_by_lt = adapter_look_up_block_by_lt X api,
      on_get_shards = adapter_get_shards X api,
      on_get_block_header = adapter_get_block_header X api,
      on_get_transaction_ids = adapter_get_transaction_ids X api,
      on_get_transactions = adapter_get_transactions X api,
      on_sync = adapter_sync X api,
      on_send_message = adapter_send_message X api,
      on_send_message_returning_hash = adapter_send_message_returning_hash X api,
      on_get_account_state = adapter_get_account_state X api,
      on_get_account_state_on_block = adapter_get_account_state_on_block X api,
      on_get_account_state_by_transaction = adapter_get_account_state_by_transaction X api,
      on_get_account_transactions = adapter_get_account_transactions X api,
      on_get_shard_account_cell = adapter_get_shard_account_cell X api,
      on_get_shard_account_cell_on_block = adapter_get_shard_account_cell_on_block X api,
      on_get_shard_account_cell_by_transaction = adapter_get_shard_account_cell_by_transaction X api,
      on_run_get_method = adapter_run_get_method X api\<rparr>"

section \<open>Block identifiers go round\<close>

lemma decode_hash_encode:
  "b64_standard_laws L \<Longrightarrow> length h = 32 \<Longrightarrow> decode_hash L what (b64_standard_encode L h) = Inr h"
  by (simp add: decode_hash_def b64_standard_laws_def)

definition wf_block_id :: "TonNodeBlockIdExt \<Rightarrow> bool" where
  "wf_block_id v \<longleftrightarrow> length (n_root_hash v) = 32 \<and> length (n_file_hash v) = 32"

lemma block_id_roundtrip:
  assumes "b64_standard_laws L" "wf_block_id v"
  shows "ton_node_block_id_ext_try_from L (block_id_ext_from L v) = Inr v"
  using assms by (simp add: ton_node_block_id_ext_try_from_def block_id_ext_from_def decode_hash_encode wf_block_id_def)

lemma decode_hash_length: "decode_hash L what s = Inr h \<Longrightarrow> length h = 32"
  by (auto simp: decode_hash_def bindr_eq_Inr split: if_splits)

lemma try_from_wf: "ton_node_block_id_ext_try_from L b = Inr i \<Longrightarrow> wf_block_id i"
  by (auto simp: ton_node_block_id_ext_try_from_def bindr_eq_Inr wf_block_id_def dest: decode_hash_length)

section \<open>What a proof shows\<close>

text \<open>The bytes are a bag with one root, which is a Merkle proof of a cell with that hash.\<close>

definition proof_binds :: "('cell, 'k) libs \<Rightarrow> bytes \<Rightarrow> bytes \<Rightarrow> bool" where
  "proof_binds X proof_bytes h \<longleftrightarrow> proof_bytes \<noteq> []
     \<and> (\<exists>root. boc_deserialize (cells X) proof_bytes = Inr [root] \<and> merkle_hash (tlb X) root = Inr h)"

lemma single_root_eq: "single_root roots = Some r \<longleftrightarrow> roots = [r]"
  by (auto simp: single_root_def split: list.splits)

lemmas result_eqs = bindr_eq_Inr ok_or_eq_Inr map_ok_eq_Inr single_root_eq

lemma verify_block_proof_iff: "verify_block_proof (cells X) (tlb X) p h = Inr () \<longleftrightarrow> proof_binds X p h"
  by (auto simp: verify_block_proof_def proof_binds_def result_eqs split: if_splits)

lemma lift_io_apply [simp]: "lift_io r s = (r, s)"
  by (simp add: lift_io_def)

section \<open>Stacks\<close>

lemma unsigned_of_dec_nat: "unsigned_of (dec_nat n) = Some n"
proof -
  have app: "digits_val acc (xs @ [c]) = Option.bind (digits_val acc xs) (\<lambda>a. map_option (\<lambda>d. 10 * a + d) (digit_val c))"
    for acc xs c by (induction xs arbitrary: acc) (auto split: bind_split simp: map_option_case split: option.splits)
  have "digits_val 0 (dec_nat n) = Some n"
  proof (induction n rule: dec_nat.induct)
    case (1 n)
    then show ?case
    proof (cases "n < 10")
      case False
      with 1 have "digits_val 0 (dec_nat (n div 10)) = Some (n div 10)" by simp
      with False show ?thesis by (subst dec_nat.simps) (simp add: app)
    qed (subst dec_nat.simps, simp)
  qed
  then show ?thesis by (simp add: unsigned_of_def)
qed

lemma from_str_show_i64:
  "from_str_i64 (show_i32 x) = (if i64_range x then Some x else None)"
proof (cases "x < 0")
  case True
  then show ?thesis by (simp add: show_i32_def from_str_i64_def unsigned_of_dec_nat)
next
  case False
  obtain c cs where c: "dec_nat (nat x) = c # cs" using dec_nat_nonempty by (cases "dec_nat (nat x)") auto
  then obtain d where "d < 10" "c = digit_char d" using dec_nat_digits [of c "nat x"] by auto
  then have "c \<noteq> CHR ''-''" "c \<noteq> CHR ''+''" by simp_all
  with False c unsigned_of_dec_nat [of "nat x"] show ?thesis by (simp add: show_i32_def from_str_i64_def)
qed

text \<open>
  Entries that keep their meaning: numbers in their decimal form from -2^63 on, cells in the form the
  library writes. Lists come back as tuples.
\<close>

definition cell_text :: "'cell cell_lib \<Rightarrow> ('cell, 'k) smc_lib \<Rightarrow> string \<Rightarrow> bool" where
  "cell_text L S b64 \<longleftrightarrow> (\<exists>cell. boc_parse_base64 S b64 = Inr [cell] \<and> encode_cell_b64 L cell = Inr b64
     \<and> cell_bits S cell < 2 ^ 16 \<and> cell_refs S cell < 2 ^ 8)"

fun stack_ok :: "'cell cell_lib \<Rightarrow> ('cell, 'k) smc_lib \<Rightarrow> StackEntry \<Rightarrow> bool" where
  "stack_ok L S (StackSlice b64) \<longleftrightarrow> cell_text L S b64"
| "stack_ok L S (StackCell b64) \<longleftrightarrow> cell_text L S b64"
| "stack_ok L S (StackNumber number) \<longleftrightarrow> (\<exists>x \<ge> - (2 ^ 63). number = show_i32 x)"
| "stack_ok L S (StackTuple es) \<longleftrightarrow> (\<forall>e \<in> set es. stack_ok L S e)"
| "stack_ok L S (StackList es) \<longleftrightarrow> (\<forall>e \<in> set es. stack_ok L S e)"
| "stack_ok L S StackUnsupported \<longleftrightarrow> False"

fun lists_as_tuples :: "StackEntry \<Rightarrow> StackEntry" where
  "lists_as_tuples (StackTuple es) = StackTuple (map lists_as_tuples es)"
| "lists_as_tuples (StackList es) = StackTuple (map lists_as_tuples es)"
| "lists_as_tuples e = e"

definition biguint_laws :: "('cell, 'k) smc_lib \<Rightarrow> bool" where
  "biguint_laws S \<longleftrightarrow> (\<forall>n. biguint_to_str S n = dec_nat n \<and> biguint_from_str S (dec_nat n) = Inr n)"

lemma number_roundtrip:
  assumes "biguint_laws S" "- (2 ^ 63) \<le> x"
  shows "\<exists>v. parse_number_to_vm S (show_i32 x) = Inr v
    \<and> vm_to_stack_entry L S v = Inr (StackNumber (show_i32 x))"
proof (cases "i64_range x")
  case True
  then show ?thesis by (simp add: parse_number_to_vm_def from_str_show_i64)
next
  case False
  then have x: "2 ^ 63 \<le> x" using assms(2) by (auto simp: i64_range_def)
  then have shown: "show_i32 x = dec_nat (nat x)" by (simp add: show_i32_def)
  have "hd (dec_nat (nat x)) \<in> set (dec_nat (nat x))" by simp
  then have "hd (dec_nat (nat x)) \<noteq> CHR ''-''" using dec_nat_digits by fastforce
  moreover have "from_str_i64 (dec_nat (nat x)) = None" using False from_str_show_i64 [of x] shown by simp
  ultimately show ?thesis using assms(1) unfolding shown
    by (simp add: parse_number_to_vm_def biguint_laws_def)
qed

lemma try_map_roundtrip:
  assumes "\<forall>x \<in> set xs. \<exists>y. f x = Inr y \<and> g y = Inr (h x)"
  shows "\<exists>ys. try_map f xs = Inr ys \<and> try_map g ys = Inr (map h xs)"
  using assms
proof (induction xs)
  case (Cons x xs)
  then obtain y ys where "f x = Inr y" "g y = Inr (h x)" "try_map f xs = Inr ys" "try_map g ys = Inr (map h xs)"
    by auto
  then have "try_map f (x # xs) = Inr (y # ys)" "try_map g (y # ys) = Inr (map h (x # xs))" by simp_all
  then show ?case by blast
qed simp

lemma entry_roundtrip:
  assumes "biguint_laws S" "stack_ok L S e"
  shows "\<exists>v. stack_entry_to_vm S e = Inr v \<and> vm_to_stack_entry L S v = Inr (lists_as_tuples e)"
  using assms(2)
proof (induction e)
  case (StackNumber number)
  then show ?case using number_roundtrip [OF assms(1)] by auto
next
  case (StackTuple es)
  then show ?case using try_map_roundtrip [of es "stack_entry_to_vm S" "vm_to_stack_entry L S" lists_as_tuples]
    by fastforce
next
  case (StackList es)
  then show ?case using try_map_roundtrip [of es "stack_entry_to_vm S" "vm_to_stack_entry L S" lists_as_tuples]
    by fastforce
qed (auto simp: cell_text_def decode_single_root_cell_def single_root_def)

definition some_root_binds :: "('cell, 'k) libs \<Rightarrow> bytes \<Rightarrow> bytes \<Rightarrow> bool" where
  "some_root_binds X proof_bytes h \<longleftrightarrow> proof_bytes \<noteq> []
     \<and> (\<exists>roots. boc_deserialize (cells X) proof_bytes = Inr roots
         \<and> (\<forall>root \<in> set roots. is_ok (merkle_hash (tlb X) root))
         \<and> (\<exists>root \<in> set roots. merkle_hash (tlb X) root = Inr h))"

lemma try_map_ok: "is_ok (try_map f xs) \<longleftrightarrow> (\<forall>x \<in> set xs. is_ok (f x))"
proof (induction xs)
  case (Cons x xs)
  then show ?case by (cases "f x"; cases "try_map f xs") simp_all
qed simp

lemma try_map_set: "try_map f xs = Inr ys \<Longrightarrow> y \<in> set ys \<longleftrightarrow> (\<exists>x \<in> set xs. f x = Inr y)"
  by (induction xs arbitrary: ys) (auto simp: bindr_eq_Inr map_ok_eq_Inr)

lemma require_proof_binds_to_iff:
  "require_proof_binds_to (cells X) (tlb X) p h what = Inr () \<longleftrightarrow> some_root_binds X p h"
proof (cases "boc_deserialize (cells X) p")
  case (Inr roots)
  show ?thesis
  proof (cases "try_map (merkle_hash (tlb X)) roots")
    case (Inr hs)
    with try_map_ok [of "merkle_hash (tlb X)" roots] try_map_set [OF Inr, of h] \<open>boc_deserialize _ p = _\<close> show ?thesis
      by (auto simp: require_proof_binds_to_def some_root_binds_def)
  next
    case (Inl e)
    with try_map_ok [of "merkle_hash (tlb X)" roots] Inr show ?thesis
      by (auto simp: require_proof_binds_to_def some_root_binds_def)
  qed
qed (simp add: require_proof_binds_to_def some_root_binds_def)

lemma verify_account_proofs_iff:
  "verify_account_proofs (cells X) (tlb X) r = Inr () \<longleftrightarrow>
    some_root_binds X (as_proof r) (n_root_hash (as_shardblk r))
    \<and> (as_shard_proof r = [] \<or> some_root_binds X (as_shard_proof r) (n_root_hash (as_id r)))"
  by (auto simp: verify_account_proofs_def bindr_eq_Inr require_proof_binds_to_iff)

text \<open>Both services of an account in their three forms, and the block that each asks the liteserver about.\<close>

datatype account_at = AtLatest | AtBlock BlockIdExt | AtTransaction TransactionId

fun account_block :: "('cell, 'k) libs \<Rightarrow> 's ls_api \<Rightarrow> SmartContractAddress \<Rightarrow> account_at \<Rightarrow> ('s, TonNodeBlockIdExt) io" where
  "account_block X api address AtLatest = map_io ls_last (ls_get_masterchain_info api)"
| "account_block X api address (AtBlock b) = lift_io (ton_node_block_id_ext_try_from (cells X) b)"
| "account_block X api address (AtTransaction tx) =
     bind_io (ls_get_masterchain_info api) (\<lambda>mc. lookup_block_by_transaction (cells X) api (ls_last mc) address tx)"

fun state_at :: "'s handlers \<Rightarrow> SmartContractAddress \<Rightarrow> account_at \<Rightarrow> ('s, AccountState) io" where
  "state_at client address AtLatest = on_get_account_state client address"
| "state_at client address (AtBlock b) = on_get_account_state_on_block client address b"
| "state_at client address (AtTransaction tx) = on_get_account_state_by_transaction client address tx"

fun cell_at :: "'s handlers \<Rightarrow> SmartContractAddress \<Rightarrow> account_at \<Rightarrow> ('s, Cell) io" where
  "cell_at client address AtLatest = on_get_shard_account_cell client address"
| "cell_at client address (AtBlock b) = on_get_shard_account_cell_on_block client address b"
| "cell_at client address (AtTransaction tx) = on_get_shard_account_cell_by_transaction client address tx"

definition proofs_bind :: "('cell, 'k) libs \<Rightarrow> LiteServerAccountState \<Rightarrow> bool" where
  "proofs_bind X r \<longleftrightarrow> some_root_binds X (as_proof r) (n_root_hash (as_shardblk r))
     \<and> (as_shard_proof r = [] \<or> some_root_binds X (as_shard_proof r) (n_root_hash (as_id r)))"

text \<open>What a state says: the account in the answer, at the time of the first shard state among the proofs.\<close>

definition reads_state :: "('cell, 'k) libs \<Rightarrow> LiteServerAccountState \<Rightarrow> AccountState \<Rightarrow> bool" where
  "reads_state X r a \<longleftrightarrow>
     (\<exists>roots root t account.
        boc_deserialize (cells X) (as_proof r) = Inr roots
        \<and> List.find (\<lambda>c. is_ok (merkle_shard_state (accounts X) c)) roots = Some root
        \<and> merkle_shard_state (accounts X) root = Inr t \<and> sync_utime a = uint t
        \<and> (if as_state r = [] then account = AccountNone
           else \<exists>c. boc_deserialize (cells X) (as_state r) = Inr [c] \<and> parse_account (accounts X) c = Inr account)
        \<and> account_components (cells X) account = Inr (balance a, account_code a, account_data a, frozen_hash a))
     \<and> last_transaction_id a = None \<and> account_block_id a = block_id_ext_from (cells X) (as_shardblk r)"

lemma bind_map_io: "bind_io (map_io f m) g = bind_io m (\<lambda>x. g (f x))"
  by (auto simp: bind_io_def map_io_def ok_io_def fun_eq_iff split: prod.split sum.split)

lemma services_at:
  "state_at (adapter X api) address crit = bind_io (account_block X api address crit)
     (\<lambda>i. get_account_state_inner (cells X) (tlb X) (accounts X) api address i)"
  "cell_at (adapter X api) address crit = bind_io (account_block X api address crit)
     (\<lambda>i. get_shard_account_cell_inner (cells X) (tlb X) api address i)"
  by (cases crit; simp add: adapter_def adapter_get_account_state_def adapter_get_account_state_on_block_def
      adapter_get_account_state_by_transaction_def bind_map_io bind_io_assoc)
    (cases crit; simp add: adapter_def adapter_get_shard_account_cell_def
      adapter_get_shard_account_cell_on_block_def adapter_get_shard_account_cell_by_transaction_def bind_map_io bind_io_assoc)

lemma first_shard_state_iff:
  "first_shard_state A roots = Some t \<longleftrightarrow>
    (\<exists>root. List.find (\<lambda>c. is_ok (merkle_shard_state A c)) roots = Some root \<and> merkle_shard_state A root = Inr t)"
proof (induction roots)
  case (Cons c roots)
  then show ?case by (cases "merkle_shard_state A c") simp_all
qed simp

lemma account_state_from_response_iff:
  "account_state_from_response (cells X) (tlb X) (accounts X) r = Inr a \<longleftrightarrow> proofs_bind X r \<and> reads_state X r a"
proof (cases "as_state r = []")
  case True
  then show ?thesis
    by (cases a) (auto simp: account_state_from_response_def extract_gen_utime_from_proof_def proofs_bind_def reads_state_def
        verify_account_proofs_iff bindr_eq_Inr ok_or_eq_Inr first_shard_state_iff Let_def)
next
  case False
  then show ?thesis
    by (cases a) (auto simp: account_state_from_response_def extract_gen_utime_from_proof_def proofs_bind_def reads_state_def
        verify_account_proofs_iff bindr_eq_Inr ok_or_eq_Inr first_shard_state_iff single_root_eq Let_def)
qed

section \<open>A concrete instance\<close>

text \<open>Cells are byte strings, their own hash and their own proof; text is bytes as characters.\<close>

definition demo_cells :: "bytes cell_lib" where
  "demo_cells =
     \<lparr>b64_standard_encode = map (\<lambda>b. char_of (unat b)),
      b64_standard_decode = (\<lambda>s. Some (map (\<lambda>c. word_of_nat (of_char c)) s)),
      boc_deserialize = (\<lambda>bs. Inr [bs]), boc_unpack = (\<lambda>bs. Inr [bs]), boc_unpack_fully = (\<lambda>bs. Inr [bs]),
      boc_serialize = (\<lambda>_. Inr), cell_hash = (\<lambda>c. c), hex_of = (\<lambda>bs. map (\<lambda>b. char_of (unat b)) bs)\<rparr>"

lemma demo_b64_laws: "b64_standard_laws demo_cells"
proof -
  have "word_of_nat (of_char (char_of (unat b) :: char)) = b" for b :: u8 by simp
  then show ?thesis by (simp add: b64_standard_laws_def demo_cells_def comp_def)
qed

definition demo_ident :: ShardIdent where
  "demo_ident = \<lparr>shard_pfx_bits = 0, ident_workchain = -1, shard_prefix = 0\<rparr>"

definition demo_header :: TlbBlockHeader where
  "demo_header = \<lparr>hd_global_id = -239, hd_info = \<lparr>bi_version = 0, bi_not_master = False, bi_after_merge = False,
     bi_before_split = False, bi_after_split = False, bi_want_split = False, bi_want_merge = False,
     bi_key_block = False, bi_vert_seqno_incr = False, bi_flags = 0, bi_seq_no = 5, bi_vert_seq_no = 0,
     bi_shard = demo_ident, bi_gen_utime = 1000, bi_start_lt = 10, bi_end_lt = 20,
     bi_gen_validator_list_hash_short = 0, bi_gen_catchain_seqno = 0, bi_min_ref_mc_seqno = 0,
     bi_prev_key_block_seqno = 0, bi_gen_software = None, bi_master_ref = None,
     bi_prev_ref = PrevRef \<lparr>ref_end_lt = 9, ref_seq_no = 4, ref_root_hash = replicate 32 3, ref_file_hash = replicate 32 4\<rparr>,
     bi_prev_vert_ref = None\<rparr>\<rparr>"

definition demo_libs :: "(bytes, unit) libs" where
  "demo_libs =
     \<lparr>cells = demo_cells,
      tlb = \<lparr>merkle_hash = Inr, merkle_block_header = (\<lambda>c. Inr (c, demo_header)),
             parse_shard_hashes = (\<lambda>_. Inr []), parse_transaction = (\<lambda>_. Inl ''none''),
             parse_message = (\<lambda>_. Inl ''none'')\<rparr>,
      accounts = \<lparr>parse_account = (\<lambda>_. Inr AccountNone), merkle_shard_state = (\<lambda>_. Inr 7)\<rparr>,
      smc = \<lparr>biguint_from_str = (\<lambda>s. ok_or ''invalid digit'' (unsigned_of s)), biguint_to_str = dec_nat,
             boc_parse_base64 = (\<lambda>s. Inr [map (\<lambda>c. word_of_nat (of_char c)) s]),
             cell_bits = (\<lambda>c. 8 * length c), cell_refs = (\<lambda>_. 0), crc16_xmodem_of = (\<lambda>_. 0),
             vm_stack_to_cell = (\<lambda>_. Inl ''none''), parse_vm_stack = (\<lambda>_. Inl ''none'')\<rparr>\<rparr>"

definition demo_node_id :: TonNodeBlockIdExt where
  "demo_node_id = \<lparr>n_workchain = -1, n_shard = - (2 ^ 63), n_seqno = 5, n_root_hash = replicate 32 1, n_file_hash = replicate 32 2\<rparr>"

definition demo_block_ext :: BlockIdExt where
  "demo_block_ext = block_id_ext_from demo_cells demo_node_id"

lemma demo_try_from: "ton_node_block_id_ext_try_from demo_cells demo_block_ext = Inr demo_node_id"
  using block_id_roundtrip [OF demo_b64_laws, of demo_node_id]
  by (simp add: demo_block_ext_def wf_block_id_def demo_node_id_def)

definition demo_account_answer :: LiteServerAccountState where
  "demo_account_answer = \<lparr>as_id = demo_node_id, as_shardblk = demo_node_id, as_shard_proof = [],
     as_proof = n_root_hash demo_node_id, as_state = []\<rparr>"

definition demo_api :: "unit ls_api" where
  "demo_api =
     \<lparr>ls_get_masterchain_info = ok_io \<lparr>ls_last = demo_node_id, ls_state_root_hash = replicate 32 9,
        ls_init = \<lparr>z_workchain = -1, z_root_hash = replicate 32 8, z_file_hash = replicate 32 7\<rparr>\<rparr>,
      ls_lookup_block = (\<lambda>_. ok_io \<lparr>bh_id = demo_node_id, bh_header_proof = n_root_hash demo_node_id\<rparr>),
      ls_get_all_shards_info = (\<lambda>i. ok_io \<lparr>si_proof = n_root_hash i, si_data = []\<rparr>),
      ls_get_block_header = (\<lambda>i _. ok_io \<lparr>bh_id = i, bh_header_proof = n_root_hash i\<rparr>),
      ls_list_block_transactions = (\<lambda>r. ok_io \<lparr>bt_id = lbt_id r, bt_incomplete = False, bt_ids = [],
        bt_proof = n_root_hash (lbt_id r)\<rparr>),
      ls_list_block_transactions_ext = (\<lambda>_. err_io ''none''),
      ls_send_message = (\<lambda>_. ok_io 1),
      ls_get_account_state = (\<lambda>_ _. ok_io demo_account_answer),
      ls_get_one_transaction = (\<lambda>_ _ _. ok_io demo_node_id),
      ls_get_transactions = (\<lambda>_ _ _ _. ok_io []),
      ls_run_smc_method = (\<lambda>_. ok_io (0, None))\<rparr>"

section \<open>Properties\<close>

text \<open>
  C17. Answers about a block are bound to the block that was asked for. Whatever the liteserver sends, a header,
  a list of shards or of transaction ids reaches the caller only if the proof that came with it is a Merkle
  proof of a cell with the root hash of the requested block; the header is the one inside that proof, and the
  shards are those of a masterchain block.
\<close>

theorem block_answers_are_proved:
  assumes "ton_node_block_id_ext_try_from (cells X) b = Inr i"
  shows "(on_get_block_header (adapter X api) b s = (Inr h, s1) \<longrightarrow> header_id h = b
      \<and> (\<exists>r root vr. ls_get_block_header api i 0 s = (Inr r, s1)
          \<and> boc_unpack_fully (cells X) (bh_header_proof r) = Inr [root]
          \<and> merkle_block_header (tlb X) root = Inr (n_root_hash i, vr)
          \<and> h = block_header_to_ton_client (cells X) b vr))
    \<and> (on_get_shards (adapter X api) b s = (Inr ids, s1) \<longrightarrow> n_workchain i = -1
      \<and> (\<exists>r. ls_get_all_shards_info api i s = (Inr r, s1) \<and> proof_binds X (si_proof r) (n_root_hash i)))
    \<and> (on_get_transaction_ids (adapter X api) b aft rev_order cnt s = (Inr txs, s1) \<longrightarrow>
      (\<exists>r. ls_list_block_transactions api (list_transactions_request i aft rev_order cnt) s = (Inr r, s1)
        \<and> proof_binds X (bt_proof r) (n_root_hash i) \<and> block_transactions_to_ton_client (cells X) r = Inr txs))"
proof (intro conjI impI)
  note defs = assms adapter_def bind_io_eq_Inr
  assume "on_get_block_header (adapter X api) b s = (Inr h, s1)"
  then obtain r root vr where "ls_get_block_header api i 0 s = (Inr r, s1)"
    "boc_unpack_fully (cells X) (bh_header_proof r) = Inr [root]"
    "merkle_block_header (tlb X) root = Inr (n_root_hash i, vr)"
    "h = block_header_to_ton_client (cells X) b vr"
    by (auto simp: defs adapter_get_block_header_def result_eqs split: if_splits)
  then show "header_id h = b" and "\<exists>r root vr. ls_get_block_header api i 0 s = (Inr r, s1)
          \<and> boc_unpack_fully (cells X) (bh_header_proof r) = Inr [root]
          \<and> merkle_block_header (tlb X) root = Inr (n_root_hash i, vr)
          \<and> h = block_header_to_ton_client (cells X) b vr"
    by (auto simp: block_header_to_ton_client_def Let_def)
next
  assume "on_get_shards (adapter X api) b s = (Inr ids, s1)"
  then show "n_workchain i = -1"
    and "\<exists>r. ls_get_all_shards_info api i s = (Inr r, s1) \<and> proof_binds X (si_proof r) (n_root_hash i)"
    using assms by (auto simp: adapter_def bind_io_eq_Inr adapter_get_shards_def result_eqs err_io_def
        simp flip: verify_block_proof_iff split: if_splits)
next
  assume "on_get_transaction_ids (adapter X api) b aft rev_order cnt s = (Inr txs, s1)"
  then show "\<exists>r. ls_list_block_transactions api (list_transactions_request i aft rev_order cnt) s = (Inr r, s1)
      \<and> proof_binds X (bt_proof r) (n_root_hash i) \<and> block_transactions_to_ton_client (cells X) r = Inr txs"
    using assms by (auto simp: adapter_def bind_io_eq_Inr adapter_get_transaction_ids_def result_eqs
        simp flip: verify_block_proof_iff)
qed

theorem block_answers_are_proved_witness:
  "\<exists>h. on_get_block_header (adapter demo_libs demo_api) demo_block_ext () = (Inr h, ()) \<and> header_id h = demo_block_ext"
proof -
  let ?h = "block_header_to_ton_client demo_cells demo_block_ext demo_header"
  have "on_get_block_header (adapter demo_libs demo_api) demo_block_ext () = (Inr ?h, ())"
    using demo_try_from
    by (simp add: adapter_def adapter_get_block_header_def demo_libs_def demo_api_def demo_cells_def bind_io_def
        ok_io_def single_root_def)
  moreover from this have "header_id ?h = demo_block_ext"
    using block_answers_are_proved [of demo_libs demo_block_ext demo_node_id demo_api "()" ?h "()"] demo_try_from
    by (simp add: demo_libs_def)
  ultimately show ?thesis by blast
qed


text \<open>
  C40. When an answer about an account is accepted, for its state and its cell, at the latest block, at a block and at
  a transaction. The liteserver is asked about the masterchain block of the request; its answer is accepted
  exactly when some root of the proof binds to the shard block of the answer and some root of the shard
  proof, if there is one, to the block that the answer itself names, every root being a Merkle proof. A state is returned
  exactly if, besides, a root of the proof holds a shard state, whose time it gets, and the account is empty or
  the only root of its cells and can be read; it names the shard block of the answer and no last transaction.
  The masterchain block of the request is not part of the check.
\<close>

theorem account_answers_checked:
  "(cell_at (adapter X api) address crit s = (Inr c, s2) \<longleftrightarrow>
     (\<exists>i s1 r. account_block X api address crit s = (Inr i, s1)
       \<and> ls_get_account_state api i (account_id address) s1 = (Inr r, s2)
       \<and> proofs_bind X r \<and> c = b64_standard_encode (cells X) (as_state r)))
   \<and> (state_at (adapter X api) address crit s = (Inr a, s2) \<longleftrightarrow>
     (\<exists>i s1 r. account_block X api address crit s = (Inr i, s1)
       \<and> ls_get_account_state api i (account_id address) s1 = (Inr r, s2)
       \<and> proofs_bind X r \<and> reads_state X r a))"
  by (auto simp: services_at get_shard_account_cell_inner_def get_account_state_inner_def fetch_account_state_raw_def
      account_state_request_def shard_account_cell_from_response_def account_state_from_response_iff proofs_bind_def
      verify_account_proofs_iff bind_io_eq_Inr bindr_eq_Inr)

text \<open>An answer about another block than the one of the request is accepted.\<close>

theorem account_answers_checked_witness:
  "\<exists>a. on_get_account_state_on_block (adapter demo_libs demo_api) (Raw 0 []) (demo_block_ext\<lparr>seqno := 9\<rparr>) () = (Inr a, ())
    \<and> account_block_id a = demo_block_ext \<and> demo_block_ext \<noteq> demo_block_ext\<lparr>seqno := 9\<rparr>"
proof -
  let ?i = "demo_node_id\<lparr>n_seqno := 9\<rparr>"
  let ?a = "\<lparr>balance = None, account_code = [], account_data = [], frozen_hash = [],
    last_transaction_id = None, account_block_id = demo_block_ext, sync_utime = 7\<rparr>"
  have "wf_block_id ?i" "block_id_ext_from demo_cells ?i = demo_block_ext\<lparr>seqno := 9\<rparr>"
    by (simp_all add: wf_block_id_def demo_node_id_def demo_block_ext_def block_id_ext_from_def)
  then have block: "account_block demo_libs demo_api (Raw 0 []) (AtBlock (demo_block_ext\<lparr>seqno := 9\<rparr>)) () = (Inr ?i, ())"
    using block_id_roundtrip [OF demo_b64_laws, of ?i] by (simp add: demo_libs_def lift_io_def)
  have "proofs_bind demo_libs demo_account_answer"
    by (simp add: proofs_bind_def some_root_binds_def demo_account_answer_def demo_node_id_def demo_libs_def demo_cells_def)
  moreover have "reads_state demo_libs demo_account_answer ?a"
    unfolding reads_state_def
    by (simp add: demo_account_answer_def demo_libs_def demo_cells_def demo_block_ext_def)
  moreover have "ls_get_account_state demo_api ?i (account_id (Raw 0 [])) () = (Inr demo_account_answer, ())"
    by (simp add: demo_api_def ok_io_def)
  ultimately have "state_at (adapter demo_libs demo_api) (Raw 0 []) (AtBlock (demo_block_ext\<lparr>seqno := 9\<rparr>)) () = (Inr ?a, ())"
    using account_answers_checked [of demo_libs demo_api "Raw 0 []" "AtBlock (demo_block_ext\<lparr>seqno := 9\<rparr>)" "()" _ "()" ?a] block
    by blast
  moreover have "seqno demo_block_ext = 5" by (simp add: demo_block_ext_def demo_node_id_def block_id_ext_from_def)
  then have "demo_block_ext \<noteq> demo_block_ext\<lparr>seqno := 9\<rparr>" by (auto dest: arg_cong [where f = seqno])
  ultimately show ?thesis by (intro exI [of _ ?a]) simp
qed

text \<open>
  Stack entries survive the conversion to values of the virtual machine and back: numbers of any size from
  -2^63 on, cells, slices and nested tuples, with lists read as tuples; a smaller number is refused with an
  error that names it.
\<close>

lemma stack_conversion:
  assumes "biguint_laws S" and "\<forall>e \<in> set stack. stack_ok L S e" and "x < - (2 ^ 63)"
  shows "(\<exists>vs. try_map (stack_entry_to_vm S) stack = Inr vs
      \<and> try_map (vm_to_stack_entry L S) vs = Inr (map lists_as_tuples stack))
    \<and> stack_entry_to_vm S (StackNumber (show_i32 x))
      = Inl (''negative int257 not supported (toner BigInt limitation): '' @ show_i32 x)"
proof -
  have "\<not> i64_range x" "hd (show_i32 x) = CHR ''-''" "show_i32 x \<noteq> []"
    using assms(3) by (auto simp: i64_range_def show_i32_def)
  then have "parse_number_to_vm S (show_i32 x)
      = Inl (''negative int257 not supported (toner BigInt limitation): '' @ show_i32 x)"
    by (simp add: parse_number_to_vm_def from_str_show_i64)
  then show ?thesis
    using try_map_roundtrip [of stack "stack_entry_to_vm S" "vm_to_stack_entry L S" lists_as_tuples]
      entry_roundtrip [OF assms(1)] assms(2) by simp
qed

lemma demo_biguint_laws: "biguint_laws (smc demo_libs)"
  by (simp add: biguint_laws_def demo_libs_def unsigned_of_dec_nat)

end
