(* ===== verification/Grpc_Services.thy ===== *)
theory Grpc_Services
  imports Account_Range Routing
begin

text \<open>
  The gRPC services of \<open>ton-grpc\<close> (\<open>block.rs\<close>, \<open>account.rs\<close>, \<open>message.rs\<close>,
  \<open>helpers.rs\<close>) with the messages of \<open>proto/ton.proto\<close> and the conversions of \<open>ton.rs\<close>, on top of the
  client of \<open>ton-client\<close> (\<open>client/account_client.rs\<close>). The generated message \<open>BlockIdExt\<close> has the
  fields of the response of the same name and is the same record here. The texts of errors of other crates
  are parameters.
\<close>

section \<open>Messages\<close>

record GrpcBlockId = BlockId +
  opt_root_hash :: "string option"
  opt_file_hash :: "string option"

record GrpcTransactionId =
  gt_account_address :: string
  gt_lt :: i64
  gt_hash :: string

record PartialTransactionId =
  pt_hash :: string
  pt_lt :: i64

datatype BoundType = TypeIncluded | TypeExcluded

datatype BoundValue = BoundBlockId GrpcBlockId | BoundTransactionId PartialTransactionId

record GrpcBound =
  bound_type :: BoundType
  bound_value :: "BoundValue option"

datatype AccountOrder = AccountUnordered | FromNewToOld

record GetAccountTransactionsRequest =
  gat_account_address :: string
  gat_order :: AccountOrder
  gat_from :: "GrpcBound option"
  gat_to :: "GrpcBound option"

datatype Criteria =
    CriteriaBlockId GrpcBlockId
  | CriteriaTransactionId PartialTransactionId
  | CriteriaAtLeastBlockId GrpcBlockId

record AccountCriteriaRequest =
  acr_account_address :: string
  acr_criteria :: "Criteria option"

datatype GrpcAccountState = ActiveState string string | FrozenState string | UninitializedState

record GetAccountStateResponse =
  gsr_account_address :: string
  gsr_block_id :: BlockIdExt
  gsr_balance :: i64
  gsr_last_transaction_id :: "GrpcTransactionId option"
  gsr_account_state :: GrpcAccountState

record GetShardAccountCellResponse =
  gcr_account_address :: string
  gcr_block_id :: BlockIdExt
  gcr_cell :: Cell

record GrpcMessage =
  gm_source :: "string option"
  gm_destination :: "string option"
  gm_value :: i64
  gm_fwd_fee :: i64
  gm_ihr_fee :: i64
  gm_created_lt :: i64
  gm_body_hash :: string
  gm_msg_data :: MessageData

record GrpcTransaction =
  gx_id :: GrpcTransactionId
  gx_utime :: i64
  gx_data :: string
  gx_fee :: i64
  gx_storage_fee :: i64
  gx_other_fee :: i64
  gx_in_msg :: "GrpcMessage option"
  gx_out_msgs :: "GrpcMessage list"

datatype BlockOrder = Unordered | Asc | Desc

record GetTransactionIdsRequest =
  gti_block_id :: "GrpcBlockId option"
  gti_order :: BlockOrder

datatype Status = InvalidArgument string | InternalError string

section \<open>Conversions\<close>

record grpc_lib =
  addr_lib :: addr_codecs
  address_error_text :: "address_error \<Rightarrow> string"
  status_text :: "Status \<Rightarrow> string"

definition transaction_id_from_short :: "grpc_lib \<Rightarrow> ShortTxId \<Rightarrow> GrpcTransactionId" where
  "transaction_id_from_short G v =
     \<lparr>gt_account_address = to_string (addr_lib G) (to_raw (short_account v)), gt_lt = short_lt v, gt_hash = short_hash v\<rparr>"

definition partial_to_transaction_id :: "PartialTransactionId \<Rightarrow> TransactionId" where
  "partial_to_transaction_id v = \<lparr>tx_lt = pt_lt v, tx_hash = pt_hash v\<rparr>"

definition account_state_from :: "AccountState \<Rightarrow> GrpcAccountState" where
  "account_state_from v =
     (if account_code v \<noteq> [] then ActiveState (account_code v) (account_data v)
      else if frozen_hash v \<noteq> [] then FrozenState (frozen_hash v)
      else UninitializedState)"

definition grpc_message_from :: "grpc_lib \<Rightarrow> Message \<Rightarrow> GrpcMessage" where
  "grpc_message_from G v =
     \<lparr>gm_source = map_option (\<lambda>a. to_string (addr_lib G) (to_raw a)) (msg_source v),
      gm_destination = map_option (\<lambda>a. to_string (addr_lib G) (to_raw a)) (msg_destination v),
      gm_value = msg_value v, gm_fwd_fee = fwd_fee v, gm_ihr_fee = ihr_fee v, gm_created_lt = created_lt v,
      gm_body_hash = body_hash v, gm_msg_data = msg_data v\<rparr>"

definition grpc_transaction_from :: "grpc_lib \<Rightarrow> Transaction \<Rightarrow> GrpcTransaction" where
  "grpc_transaction_from G v =
     \<lparr>gx_id = \<lparr>gt_account_address = to_string (addr_lib G) (to_raw (tx_address v)),
               gt_lt = tx_lt (transaction_id v), gt_hash = tx_hash (transaction_id v)\<rparr>,
      gx_utime = tx_utime v, gx_data = tx_data v, gx_fee = tx_fee v, gx_storage_fee = storage_fee v,
      gx_other_fee = other_fee v, gx_in_msg = map_option (grpc_message_from G) (in_msg v),
      gx_out_msgs = map (grpc_message_from G) (out_msgs v)\<rparr>"

section \<open>The client of the pool\<close>

text \<open>
  A pool also forwards requests with a route of the caller's choice; \<open>account_client.rs\<close> uses this to ask
  for a state that is at least as new as a block.
\<close>

record 's pool =
  pool_client :: "'s handlers"
  forward_get_account_state :: "Route \<Rightarrow> SmartContractAddress \<Rightarrow> ('s, AccountState) io"
  forward_get_shard_account_cell :: "Route \<Rightarrow> SmartContractAddress \<Rightarrow> ('s, Cell) io"

definition get_account_state_at_least_block ::
  "'s pool \<Rightarrow> SmartContractAddress \<Rightarrow> BlockIdExt \<Rightarrow> ('s, AccountState) io" where
  "get_account_state_at_least_block P address block =
     forward_get_account_state P (RouteBlock (workchain block) (CriteriaSeqno (shard block) (seqno block))) address"

definition get_shard_account_cell_at_least_block ::
  "'s pool \<Rightarrow> SmartContractAddress \<Rightarrow> BlockIdExt \<Rightarrow> ('s, Cell) io" where
  "get_shard_account_cell_at_least_block P address block =
     forward_get_shard_account_cell P (RouteBlock (workchain block) (CriteriaSeqno (shard block) (seqno block))) address"

section \<open>Helpers\<close>

definition extend_block_id :: "'s handlers \<Rightarrow> GrpcBlockId \<Rightarrow> ('s, BlockIdExt) io" where
  "extend_block_id client b =
     (case (opt_root_hash b, opt_file_hash b) of
        (Some r, Some f) \<Rightarrow>
          ok_io \<lparr>workchain = workchain b, shard = shard b, seqno = seqno b, root_hash = r, file_hash = f\<rparr>
      | _ \<Rightarrow> on_look_up_block_by_seqno client (workchain b) (shard b) (seqno b))"

definition extend_get_block_header :: "'s handlers \<Rightarrow> GrpcBlockId \<Rightarrow> ('s, BlockHeader) io" where
  "extend_get_block_header client b = bind_io (extend_block_id client b) (on_get_block_header client)"

definition prev_block_id :: "'s handlers \<Rightarrow> GrpcBlockId \<Rightarrow> ('s, BlockIdExt) io" where
  "prev_block_id client b = on_look_up_block_by_seqno client (workchain b) (shard b) (wrap_i32 (seqno b - 1))"

text \<open>The last transaction of the account at a block.\<close>

definition tx_at_block ::
  "'s handlers \<Rightarrow> SmartContractAddress \<Rightarrow> ('s, BlockIdExt) io \<Rightarrow> ('s, TransactionId) io" where
  "tx_at_block client address block =
     bind_io block (\<lambda>b.
     bind_io (on_get_account_state_on_block client address b) (\<lambda>state.
       lift_io (ok_or ''to_tx not found'' (last_transaction_id state))))"

definition extend_from_tx_id ::
  "'s handlers \<Rightarrow> SmartContractAddress \<Rightarrow> GrpcBound option \<Rightarrow> ('s, TransactionId bound) io" where
  "extend_from_tx_id client address from =
     (case from of
        None \<Rightarrow> ok_io Unbounded
      | Some b \<Rightarrow>
          (case bound_value b of
             None \<Rightarrow> ok_io Unbounded
           | Some (BoundBlockId block) \<Rightarrow>
               (case bound_type b of
                  TypeIncluded \<Rightarrow> map_io Included (tx_at_block client address (extend_block_id client block))
                | TypeExcluded \<Rightarrow> map_io Included (tx_at_block client address (prev_block_id client block)))
           | Some (BoundTransactionId tx) \<Rightarrow>
               (case bound_type b of
                  TypeIncluded \<Rightarrow> ok_io (Included (partial_to_transaction_id tx))
                | TypeExcluded \<Rightarrow> ok_io (Excluded (partial_to_transaction_id tx)))))"

definition extend_to_tx_id ::
  "'s handlers \<Rightarrow> SmartContractAddress \<Rightarrow> GrpcBound option \<Rightarrow> ('s, TransactionId bound) io" where
  "extend_to_tx_id client address to =
     (case to of
        None \<Rightarrow> ok_io Unbounded
      | Some b \<Rightarrow>
          (case bound_value b of
             None \<Rightarrow> ok_io Unbounded
           | Some (BoundBlockId block) \<Rightarrow>
               (case bound_type b of
                  TypeIncluded \<Rightarrow> map_io Excluded (tx_at_block client address (prev_block_id client block))
                | TypeExcluded \<Rightarrow> map_io Excluded (tx_at_block client address (extend_block_id client block)))
           | Some (BoundTransactionId tx) \<Rightarrow>
               (case bound_type b of
                  TypeIncluded \<Rightarrow> ok_io (Included (partial_to_transaction_id tx))
                | TypeExcluded \<Rightarrow> ok_io (Excluded (partial_to_transaction_id tx)))))"

section \<open>Services\<close>

type_synonym ('s, 'a) rpc = "'s \<Rightarrow> (Status + 'a) \<times> 's"

text \<open>\<open>map_err(|e| Status::internal(e.to_string()))\<close>.\<close>

definition internal_io :: "('s, 'a) io \<Rightarrow> ('s, 'a) rpc" where
  "internal_io m s = (case m s of (r, s') \<Rightarrow> (map_err InternalError r, s'))"

definition rpc_get_last_block :: "'s handlers \<Rightarrow> ('s, BlockIdExt) rpc" where
  "rpc_get_last_block client = internal_io (map_io mc_last (on_get_masterchain_info client))"

definition rpc_get_block :: "'s handlers \<Rightarrow> GrpcBlockId \<Rightarrow> ('s, BlockIdExt) rpc" where
  "rpc_get_block client b = internal_io (extend_block_id client b)"

definition rpc_get_block_header :: "'s handlers \<Rightarrow> GrpcBlockId \<Rightarrow> ('s, BlockHeader) rpc" where
  "rpc_get_block_header client b = internal_io (extend_get_block_header client b)"

definition rpc_get_shards :: "'s handlers \<Rightarrow> GrpcBlockId \<Rightarrow> ('s, BlockIdExt list) rpc" where
  "rpc_get_shards client b = internal_io (bind_io (extend_block_id client b) (on_get_shards client))"

text \<open>A stream of items with the status at its end.\<close>

type_synonym 'a rpc_stream = "'a list \<times> (Status + unit)"

definition rpc_items :: "('a \<Rightarrow> 'b) \<Rightarrow> 'a list \<times> (anyhow + unit) \<Rightarrow> 'b rpc_stream" where
  "rpc_items f r = (map f (fst r), map_err InternalError (snd r))"

text \<open>
  The streams in both directions run side by side: \<open>merged\<close> gives what the merge of them yields for a block.
\<close>

definition rpc_get_transaction_ids ::
  "grpc_lib \<Rightarrow> 's handlers \<Rightarrow> (BlockIdExt \<Rightarrow> 's \<Rightarrow> (bool \<times> (anyhow + ShortTxId)) list \<times> 's) \<Rightarrow> GetTransactionIdsRequest
     \<Rightarrow> 's \<Rightarrow> ((Status + GrpcTransactionId rpc_stream) \<times> 's) option" where
  "rpc_get_transaction_ids G client merged msg s =
     (case gti_block_id msg of
        None \<Rightarrow> Some (Inl (InternalError ''block id is required''), s)
      | Some b \<Rightarrow>
          (case internal_io (extend_block_id client b) s of
             (Inl e, s1) \<Rightarrow> Some (Inl e, s1)
           | (Inr block, s1) \<Rightarrow>
               (case gti_order msg of
                  Unordered \<Rightarrow> (case merged block s1 of (items, s2) \<Rightarrow>
                    Some (Inr (rpc_items (transaction_id_from_short G) (get_block_tx_stream_unordered items)), s2))
                | Asc \<Rightarrow> map_option (\<lambda>(r, s2). (Inr (rpc_items (transaction_id_from_short G) r), s2))
                    (get_block_tx_id_stream client block False s1)
                | Desc \<Rightarrow> map_option (\<lambda>(r, s2). (Inr (rpc_items (transaction_id_from_short G) r), s2))
                    (get_block_tx_id_stream client block True s1))))"

definition rpc_get_account_addresses ::
  "grpc_lib \<Rightarrow> 's handlers \<Rightarrow> (BlockIdExt \<Rightarrow> 's \<Rightarrow> (bool \<times> (anyhow + ShortTxId)) list \<times> 's) \<Rightarrow> GrpcBlockId
     \<Rightarrow> ('s, string rpc_stream) rpc" where
  "rpc_get_account_addresses G client merged b s =
     (case internal_io (extend_block_id client b) s of
        (Inl e, s1) \<Rightarrow> (Inl e, s1)
      | (Inr block, s1) \<Rightarrow> (case merged block s1 of (items, s2) \<Rightarrow>
          (Inr (rpc_items (to_string (addr_lib G)) (get_accounts_in_block_stream items)), s2)))"

text \<open>The order of this request is read and not used.\<close>

definition rpc_get_transactions ::
  "grpc_lib \<Rightarrow> 's handlers \<Rightarrow> GrpcBlockId option \<Rightarrow> 's \<Rightarrow> ((Status + GrpcTransaction rpc_stream) \<times> 's) option" where
  "rpc_get_transactions G client bid s =
     (case bid of
        None \<Rightarrow> Some (Inl (InternalError ''block id is required''), s)
      | Some b \<Rightarrow>
          (case internal_io (extend_block_id client b) s of
             (Inl e, s1) \<Rightarrow> Some (Inl e, s1)
           | (Inr block, s1) \<Rightarrow>
               map_option (\<lambda>(r, s2). (Inr (rpc_items (grpc_transaction_from G) r), s2))
                 (get_block_tx_stream client block False s1)))"

definition rpc_send_message :: "'s handlers \<Rightarrow> string \<Rightarrow> ('s, string) rpc" where
  "rpc_send_message client msg = internal_io (on_send_message_returning_hash client msg)"

text \<open>In \<open>fetch_account_state\<close> the status for a wrong address becomes the text of an error.\<close>

definition parse_address_any :: "grpc_lib \<Rightarrow> string \<Rightarrow> anyhow + SmartContractAddress" where
  "parse_address_any G a =
     map_err (\<lambda>e. status_text G (InvalidArgument (address_error_text G e))) (from_str (addr_lib G) a)"

definition fetch_account_state ::
  "grpc_lib \<Rightarrow> 's pool \<Rightarrow> AccountCriteriaRequest \<Rightarrow> ('s, AccountState) io" where
  "fetch_account_state G P msg =
     bind_io (lift_io (parse_address_any G (acr_account_address msg))) (\<lambda>address.
       case acr_criteria msg of
         None \<Rightarrow> bind_io (on_get_masterchain_info (pool_client P)) (\<lambda>info.
           get_account_state_at_least_block P address (mc_last info))
       | Some (CriteriaBlockId b) \<Rightarrow> bind_io (extend_block_id (pool_client P) b)
           (on_get_account_state_on_block (pool_client P) address)
       | Some (CriteriaAtLeastBlockId b) \<Rightarrow> bind_io (extend_block_id (pool_client P) b)
           (get_account_state_at_least_block P address)
       | Some (CriteriaTransactionId tx) \<Rightarrow>
           on_get_account_state_by_transaction (pool_client P) address (partial_to_transaction_id tx))"

definition rpc_get_account_state ::
  "grpc_lib \<Rightarrow> 's pool \<Rightarrow> AccountCriteriaRequest \<Rightarrow> ('s, GetAccountStateResponse) rpc" where
  "rpc_get_account_state G P msg = internal_io (map_io (\<lambda>state.
     \<lparr>gsr_account_address = acr_account_address msg, gsr_block_id = account_block_id state,
      gsr_balance = (case balance state of None \<Rightarrow> 0 | Some b \<Rightarrow> b),
      gsr_last_transaction_id = map_option (\<lambda>t. \<lparr>gt_account_address = acr_account_address msg, gt_lt = tx_lt t,
        gt_hash = tx_hash t\<rparr>) (last_transaction_id state),
      gsr_account_state = account_state_from state\<rparr>) (fetch_account_state G P msg))"

definition fetch_shard_account_cell ::
  "grpc_lib \<Rightarrow> 's pool \<Rightarrow> AccountCriteriaRequest \<Rightarrow> ('s, BlockIdExt \<times> Cell) io" where
  "fetch_shard_account_cell G P msg =
     (let client = pool_client P in
      bind_io (lift_io (parse_address_any G (acr_account_address msg))) (\<lambda>address.
        case acr_criteria msg of
          None \<Rightarrow> bind_io (on_get_masterchain_info client) (\<lambda>info.
            map_io (Pair (mc_last info)) (get_shard_account_cell_at_least_block P address (mc_last info)))
        | Some (CriteriaBlockId b) \<Rightarrow> bind_io (extend_block_id client b) (\<lambda>block.
            map_io (Pair block) (on_get_shard_account_cell_on_block client address block))
        | Some (CriteriaTransactionId tx) \<Rightarrow>
            bind_io (on_get_account_state_by_transaction client address (partial_to_transaction_id tx)) (\<lambda>state.
              map_io (Pair (account_block_id state))
                (on_get_shard_account_cell_on_block client address (account_block_id state)))
        | Some (CriteriaAtLeastBlockId b) \<Rightarrow> bind_io (extend_block_id client b) (\<lambda>block.
            bind_io (get_account_state_at_least_block P address block) (\<lambda>state.
              map_io (Pair (account_block_id state))
                (on_get_shard_account_cell_on_block client address (account_block_id state))))))"

definition rpc_get_shard_account_cell ::
  "grpc_lib \<Rightarrow> 's pool \<Rightarrow> AccountCriteriaRequest \<Rightarrow> ('s, GetShardAccountCellResponse) rpc" where
  "rpc_get_shard_account_cell G P msg = internal_io (map_io (\<lambda>(block, cell).
     \<lparr>gcr_account_address = acr_account_address msg, gcr_block_id = block, gcr_cell = cell\<rparr>)
     (fetch_shard_account_cell G P msg))"

text \<open>
  The two bounds are resolved at the same time in the code, on two handles of the client; here one after the other. In the unordered case the result is the list of the
  ranges that are then read side by side.
\<close>

datatype account_stream =
    OrderedStream "GrpcTransaction rpc_stream"
  | ChunkedStreams "(TransactionId bound \<times> TransactionId bound) list"

definition rpc_get_account_transactions ::
  "grpc_lib \<Rightarrow> 's handlers \<Rightarrow> GetAccountTransactionsRequest \<Rightarrow> 's
     \<Rightarrow> ((Status + account_stream) may_panic \<times> 's) option" where
  "rpc_get_account_transactions G client msg s =
     (case from_str (addr_lib G) (gat_account_address msg) of
        Inl e \<Rightarrow> Some (Inr (Inl (InvalidArgument (address_error_text G e))), s)
      | Inr address \<Rightarrow>
          (case internal_io (bind_io (extend_from_tx_id client address (gat_from msg)) (\<lambda>f.
                  map_io (Pair f) (extend_to_tx_id client address (gat_to msg)))) s of
             (Inl e, s1) \<Rightarrow> Some (Inr (Inl e), s1)
           | (Inr rng, s1) \<Rightarrow>
               (case gat_order msg of
                  AccountUnordered \<Rightarrow>
                    map_option (\<lambda>(r, s2). (map_ok (\<lambda>x. map_ok ChunkedStreams (map_err InternalError x)) r, s2))
                      (get_account_tx_range_unordered client address rng s1)
                | FromNewToOld \<Rightarrow>
                    map_option (\<lambda>(r, s2). (Inr (Inr (OrderedStream (rpc_items (grpc_transaction_from G) r))), s2))
                      (get_account_tx_range client address rng s1))))"

section \<open>Transactions between blocks\<close>

text \<open>
  A history with the seqno of the block of each transaction, newest first, on one shard. The liteserver has the
  blocks \<open>lo\<close> to \<open>hi\<close> of the shard: it finds each of them and knows the last transaction of the account at it.
  A seqno that is not positive is refused, as both adapters do; of other blocks nothing is said. The adapter over
  the C++ library meets this contract; the other one never names the last transaction of a state, and meets it for
  an account without history only.
\<close>

definition last_at :: "(Transaction \<Rightarrow> int) \<Rightarrow> Transaction list \<Rightarrow> int \<Rightarrow> Transaction option" where
  "last_at block_no hist n = List.find (\<lambda>t. block_no t \<le> n) hist"

definition serves_dated ::
  "'s handlers \<Rightarrow> SmartContractAddress \<Rightarrow> i32 \<Rightarrow> i64 \<Rightarrow> int \<Rightarrow> int \<Rightarrow> (Transaction \<Rightarrow> int) \<Rightarrow> Transaction list \<Rightarrow> bool" where
  "serves_dated client address wc sh lo hi block_no hist \<longleftrightarrow>
     serves_account client address hist \<and> sorted (rev (map block_no hist)) \<and> 1 \<le> lo \<and>
     (\<forall>n s. n \<le> 0 \<longrightarrow> fst (on_look_up_block_by_seqno client wc sh n s) = Inl ''seqno must be greater than 0'') \<and>
     (\<forall>n s. lo \<le> n \<and> n \<le> hi \<longrightarrow> (\<exists>b s1. on_look_up_block_by_seqno client wc sh n s = (Inr b, s1)
        \<and> (\<forall>s. \<exists>a s'. on_get_account_state_on_block client address b s = (Inr a, s')
             \<and> last_transaction_id a = map_option transaction_id (last_at block_no hist n))))"

definition on_block :: "i32 \<Rightarrow> i64 \<Rightarrow> BoundType \<Rightarrow> i32 \<Rightarrow> GrpcBound" where
  "on_block wc sh t n = \<lparr>bound_type = t, bound_value = Some (BoundBlockId
     \<lparr>workchain = wc, shard = sh, seqno = n, opt_root_hash = None, opt_file_hash = None\<rparr>)\<rparr>"

text \<open>Up to which block a bound reaches.\<close>

fun newest_block :: "BoundType \<Rightarrow> i32 \<Rightarrow> int" where
  "newest_block TypeIncluded n = n"
| "newest_block TypeExcluded n = n - 1"

fun oldest_block :: "BoundType \<Rightarrow> i32 \<Rightarrow> int" where
  "oldest_block TypeIncluded n = n - 1"
| "oldest_block TypeExcluded n = n"

text \<open>What a bound resolves to.\<close>

definition tx_at :: "(Transaction \<Rightarrow> int) \<Rightarrow> Transaction list \<Rightarrow> int \<Rightarrow> anyhow + TransactionId" where
  "tx_at block_no hist n =
     (if n \<le> 0 then Inl ''seqno must be greater than 0''
      else ok_or ''to_tx not found'' (map_option transaction_id (last_at block_no hist n)))"

lemma tx_at_block_eq:
  assumes "serves_dated client address wc sh lo hi block_no hist" and "n \<le> 0 \<or> lo \<le> n \<and> n \<le> hi"
  shows "\<exists>s'. tx_at_block client address (on_look_up_block_by_seqno client wc sh n) s = (tx_at block_no hist n, s')"
proof (cases "n \<le> 0")
  case True
  then have "fst (on_look_up_block_by_seqno client wc sh n s) = Inl ''seqno must be greater than 0''"
    using assms(1) by (simp add: serves_dated_def)
  with True show ?thesis
    by (cases "on_look_up_block_by_seqno client wc sh n s") (simp add: tx_at_def tx_at_block_def io_simps)
next
  case False
  then obtain b s1 where b: "on_look_up_block_by_seqno client wc sh n s = (Inr b, s1)"
    "\<forall>s. \<exists>a s'. on_get_account_state_on_block client address b s = (Inr a, s')
       \<and> last_transaction_id a = map_option transaction_id (last_at block_no hist n)"
    using assms unfolding serves_dated_def by blast
  then obtain a s' where "on_get_account_state_on_block client address b s1 = (Inr a, s')"
    "last_transaction_id a = map_option transaction_id (last_at block_no hist n)" by blast
  with b(1) False show ?thesis by (simp add: tx_at_def tx_at_block_def io_simps lift_io_def)
qed

lemma map_io_result:
  assumes "tx_at_block client address block s = (r, s')"
  shows "map_io f (tx_at_block client address block) s = (map_ok f r, s')"
  using assms by (cases r) (simp_all add: io_simps)

lemma from_bound_eq:
  assumes "serves_dated client address wc sh lo hi block_no hist" "i32_range (n - 1)"
    and "newest_block t n \<le> 0 \<or> lo \<le> newest_block t n \<and> newest_block t n \<le> hi"
  shows "\<exists>s'. extend_from_tx_id client address (Some (on_block wc sh t n)) s
      = (map_ok Included (tx_at block_no hist (newest_block t n)), s')"
proof -
  obtain s1 where "tx_at_block client address (on_look_up_block_by_seqno client wc sh (newest_block t n)) s
      = (tx_at block_no hist (newest_block t n), s1)"
    using tx_at_block_eq [OF assms(1,3)] by blast
  from map_io_result [OF this, of Included] show ?thesis using assms(2)
    by (cases t) (simp_all add: extend_from_tx_id_def on_block_def extend_block_id_def prev_block_id_def wrap_i32_id)
qed

lemma to_bound_eq:
  assumes "serves_dated client address wc sh lo hi block_no hist" "i32_range (n - 1)"
    and "oldest_block t n \<le> 0 \<or> lo \<le> oldest_block t n \<and> oldest_block t n \<le> hi"
  shows "\<exists>s'. extend_to_tx_id client address (Some (on_block wc sh t n)) s
      = (map_ok Excluded (tx_at block_no hist (oldest_block t n)), s')"
proof -
  obtain s1 where "tx_at_block client address (on_look_up_block_by_seqno client wc sh (oldest_block t n)) s
      = (tx_at block_no hist (oldest_block t n), s1)"
    using tx_at_block_eq [OF assms(1,3)] by blast
  from map_io_result [OF this, of Excluded] show ?thesis using assms(2)
    by (cases t) (simp_all add: extend_to_tx_id_def on_block_def extend_block_id_def prev_block_id_def wrap_i32_id)
qed

text \<open>The cut of a dated history between the last transactions at two blocks.\<close>

lemma find_filter: "List.find P xs = (case filter P xs of [] \<Rightarrow> None | x # _ \<Rightarrow> Some x)"
  by (induction xs) auto

lemma last_at_split:
  assumes "sorted (rev (map block_no hist))" "last_at block_no hist n = Some t"
  shows "\<exists>newer older. hist = newer @ t # older \<and> (\<forall>x \<in> set newer. n < block_no x)
    \<and> block_no t \<le> n \<and> (\<forall>x \<in> set older. block_no x \<le> n)"
proof -
  obtain i where i: "i < length hist" "block_no (hist ! i) \<le> n" "t = hist ! i" "\<forall>j < i. \<not> block_no (hist ! j) \<le> n"
    using assms(2) unfolding last_at_def by (auto simp: find_Some_iff)
  have "block_no x \<le> block_no t" if "x \<in> set (drop (Suc i) hist)" for x
  proof -
    obtain k where "i < k" "k < length hist" "x = hist ! k" using \<open>x \<in> _\<close> by (auto simp: in_set_drop_nth Suc_le_eq)
    with sorted_rev_nth_mono [OF assms(1), of i k] i(3) show ?thesis by simp
  qed
  moreover have "hist = take i hist @ t # drop (Suc i) hist" using i(1,3) by (simp add: id_take_nth_drop)
  moreover have "\<forall>x \<in> set (take i hist). n < block_no x" using i(4) by (auto simp: in_set_take_nth not_le)
  ultimately show ?thesis using i(2,3) by (metis order_trans)
qed

lemma last_at_mono:
  assumes "last_at block_no hist n = Some t" "n \<le> m"
  shows "\<exists>t'. last_at block_no hist m = Some t' \<and> t' \<in> set hist"
proof (cases "last_at block_no hist m")
  case None
  then have "block_no x > m" if "x \<in> set hist" for x using that by (auto simp: last_at_def find_None_iff)
  moreover have "t \<in> set hist" "block_no t \<le> n" using assms(1) by (auto simp: last_at_def find_Some_iff)
  ultimately show ?thesis using assms(2) by fastforce
next
  case (Some t')
  then show ?thesis by (auto simp: last_at_def find_Some_iff)
qed

lemma dated_cut:
  assumes "distinct (map transaction_id hist)" "sorted (rev (map block_no hist))" "lo \<le> hi"
    and "last_at block_no hist hi = Some t1" "last_at block_no hist lo = Some t0"
  shows "upto_bound (Excluded (transaction_id t0)) (from_bound (Included (transaction_id t1)) hist)
    = filter (\<lambda>t. lo < block_no t \<and> block_no t \<le> hi) hist"
proof -
  obtain a b where hi: "hist = a @ t1 # b" "\<forall>x \<in> set a. hi < block_no x" "block_no t1 \<le> hi" "\<forall>x \<in> set b. block_no x \<le> hi"
    using last_at_split [OF assms(2,4)] by blast
  have start: "from_bound (Included (transaction_id t1)) hist = t1 # b"
  proof -
    have "\<forall>x \<in> set a. transaction_id x \<noteq> transaction_id t1" using assms(1) hi(1) by (fastforce simp: image_iff)
    then show ?thesis using hi(1) by (simp add: dropWhile_append2)
  qed
  have f1: "filter (\<lambda>t. lo < block_no t \<and> block_no t \<le> hi) hist = filter (\<lambda>t. lo < block_no t) (t1 # b)"
  proof -
    have "filter (\<lambda>t. lo < block_no t \<and> block_no t \<le> hi) a = []" using hi(2) by (auto simp: filter_empty_conv)
    moreover have "filter (\<lambda>t. lo < block_no t \<and> block_no t \<le> hi) (t1 # b) = filter (\<lambda>t. lo < block_no t) (t1 # b)"
      using hi(3,4) by (intro filter_cong) auto
    ultimately show ?thesis unfolding hi(1) filter_append by simp
  qed
  have "last_at block_no (t1 # b) lo = Some t0"
  proof -
    have "\<forall>x \<in> set a. \<not> block_no x \<le> lo" using hi(2) assms(3) by auto
    then show ?thesis using assms(5) hi(1) unfolding last_at_def
      by (induction a arbitrary: hist) auto
  qed
  moreover have "sorted (rev (map block_no (t1 # b)))" using assms(2) hi(1) by (simp add: sorted_append)
  ultimately obtain c d where lo: "t1 # b = c @ t0 # d" "\<forall>x \<in> set c. lo < block_no x" "block_no t0 \<le> lo"
    "\<forall>x \<in> set d. block_no x \<le> lo"
    using last_at_split by blast
  have "distinct (map transaction_id (t1 # b))" using assms(1) hi(1) by simp
  then have "\<forall>x \<in> set c. transaction_id x \<noteq> transaction_id t0" unfolding lo(1) by (fastforce simp: image_iff)
  then have "upto_bound (Excluded (transaction_id t0)) (t1 # b) = c" unfolding lo(1) by (simp add: takeWhile_append2)
  moreover have "filter (\<lambda>t. lo < block_no t) (t1 # b) = c"
    unfolding lo(1) using lo(2-4) by (auto simp: filter_empty_conv filter_id_conv)
  ultimately show ?thesis using start f1 by simp
qed


section \<open>Properties\<close>

text \<open>
  C21. The transactions of an account between two blocks. If the liteserver serves the dated history of the
  account and has the blocks that the bounds resolve to, a request for the transactions from new to old yields
  exactly those of the blocks between the bounds, each end included or not as its type says, in order and
  converted. The end of the range is resolved to the last transaction before it: when the account has none,
  because its whole history lies after that block, the request fails instead of going back to the start. An
  included end at block 1 resolves to block 0, which no adapter looks up: such a request, and any with an end
  below it, fails with the message of the adapter.
\<close>

theorem account_transactions_in_blocks:
  assumes "serves_dated client address wc sh lo hi block_no hist"
    and "from_str (addr_lib G) text = Inr address"
    and "i32_range (n - 1)" "i32_range (n' - 1)"
    and "lo \<le> newest_block t n" "newest_block t n \<le> hi" "oldest_block t' n' \<le> newest_block t n"
    and "lo \<le> oldest_block t' n' \<or> oldest_block t' n' \<le> 0 \<and> last_at block_no hist (newest_block t n) \<noteq> None"
  shows "\<exists>s'. rpc_get_account_transactions G client
      \<lparr>gat_account_address = text, gat_order = FromNewToOld, gat_from = Some (on_block wc sh t n),
       gat_to = Some (on_block wc sh t' n')\<rparr> s
    = Some (Inr (if oldest_block t' n' \<le> 0 then Inl (InternalError ''seqno must be greater than 0'')
        else (case last_at block_no hist (oldest_block t' n') of
          None \<Rightarrow> Inl (InternalError ''to_tx not found'')
        | Some _ \<Rightarrow> Inr (OrderedStream (map (grpc_transaction_from G)
            (filter (\<lambda>x. oldest_block t' n' < block_no x \<and> block_no x \<le> newest_block t n) hist), Inr ())))), s')"
proof -
  let ?old = "oldest_block t' n'" and ?new = "newest_block t n"
  have serves: "serves_account client address hist" "sorted (rev (map block_no hist))" "1 \<le> lo"
    using assms(1) by (auto simp: serves_dated_def)
  then have new: "0 < ?new" using assms(5) by simp
  obtain s1 where from_tx: "extend_from_tx_id client address (Some (on_block wc sh t n)) s
      = (map_ok Included (tx_at block_no hist ?new), s1)"
    using from_bound_eq [OF assms(1,3)] assms(5,6) by blast
  obtain s2 where to_tx: "extend_to_tx_id client address (Some (on_block wc sh t' n')) s1
      = (map_ok Excluded (tx_at block_no hist ?old), s2)"
    using to_bound_eq [OF assms(1,4)] assms(6-8) by (meson order_trans)
  consider (refused) "?old \<le> 0" | (none) "0 < ?old" "last_at block_no hist ?old = None"
    | (some) t0 where "0 < ?old" "last_at block_no hist ?old = Some t0" by (meson not_le option.exhaust)
  then show ?thesis
  proof cases
    case refused
    then obtain t1 where "last_at block_no hist ?new = Some t1" using assms(8) serves(3) by fastforce
    with refused new from_tx to_tx assms(2) show ?thesis
      by (simp add: rpc_get_account_transactions_def internal_io_def io_simps tx_at_def)
  next
    case none
    with new from_tx to_tx assms(2) show ?thesis
      by (cases "last_at block_no hist ?new")
        (simp_all add: rpc_get_account_transactions_def internal_io_def io_simps tx_at_def)
  next
    case (some t0)
    then obtain t1 where t1: "last_at block_no hist ?new = Some t1" "t1 \<in> set hist"
      using last_at_mono [OF some(2) assms(7)] by blast
    obtain s3 where "get_account_tx_range client address (Included (transaction_id t1), Excluded (transaction_id t0)) s2
        = Some ((upto_bound (Excluded (transaction_id t0)) (from_bound (Included (transaction_id t1)) hist), Inr ()), s3)"
      using account_range_runs [OF serves(1), of "Included (transaction_id t1)"] t1(2) by fastforce
    moreover have "distinct (map transaction_id hist)" using serves(1) by (simp add: serves_account_def)
    ultimately show ?thesis
      using dated_cut [OF _ serves(2) assms(7) t1(1) some(2)] from_tx to_tx assms(2) some t1(1) new
      by (simp add: rpc_get_account_transactions_def internal_io_def io_simps rpc_items_def tx_at_def)
  qed
qed

lemma history_server_dated:
  assumes "distinct (map transaction_id hist)" "sorted (rev (map (\<lambda>x. 20000 * tx_lt (transaction_id x)) hist))"
  shows "serves_dated (history_server hist) address wc sh 1 hi (\<lambda>x. 20000 * tx_lt (transaction_id x)) hist"
  using history_server_serves [OF assms(1)] assms(2)
  by (simp add: serves_dated_def last_at_def find_filter history_server_def ok_io_def err_io_def demo_state_def demo_block_def
      latest_tx_def hd_id_def split: list.split)

definition demo_grpc :: grpc_lib where
  "demo_grpc = \<lparr>addr_lib = std_codecs, address_error_text = (\<lambda>_. []), status_text = (\<lambda>_. [])\<rparr>"

theorem account_transactions_in_blocks_witness:
  "\<exists>text s'. rpc_get_account_transactions demo_grpc (history_server demo_history)
      \<lparr>gat_account_address = text, gat_order = FromNewToOld, gat_from = Some (on_block 0 0 TypeIncluded 100000),
       gat_to = Some (on_block 0 0 TypeExcluded 20000)\<rparr> ()
    = Some (Inr (Inr (OrderedStream (map (grpc_transaction_from demo_grpc) (map (demo_tx (Raw 0 [])) [5, 3]), Inr ()))), s')"
proof -
  let ?text = "base64_url_safe_encode std_codecs (user_friendly_buf std_codecs 17 0 tep_account)"
  have "serves_dated (history_server demo_history) a 0 0 1 200000 (\<lambda>x. 20000 * tx_lt (transaction_id x)) demo_history" for a
    by (rule history_server_dated) (simp_all add: demo_history_def demo_tx_def)
  moreover obtain a where "from_str (addr_lib demo_grpc) ?text = Inr a"
    using from_str_user_friendly_buf [OF std_base64_laws, of tep_account 17 0] by (auto simp: demo_grpc_def)
  ultimately have "\<exists>s'. rpc_get_account_transactions demo_grpc (history_server demo_history)
      \<lparr>gat_account_address = ?text, gat_order = FromNewToOld, gat_from = Some (on_block 0 0 TypeIncluded 100000),
       gat_to = Some (on_block 0 0 TypeExcluded 20000)\<rparr> ()
    = Some (Inr (Inr (OrderedStream (map (grpc_transaction_from demo_grpc) (map (demo_tx (Raw 0 [])) [5, 3]), Inr ()))), s')"
    using account_transactions_in_blocks [of "history_server demo_history" a 0 0 1 200000
        "\<lambda>x. 20000 * tx_lt (transaction_id x)" demo_history demo_grpc ?text 100000 20000 TypeIncluded TypeExcluded "()"]
    by (simp add: i32_range_def last_at_def demo_history_def demo_tx_def)
  then show ?thesis by blast
qed

text \<open>A wrong address is an invalid argument of one service and an internal error of the others.\<close>

lemma wrong_address_status:
  assumes "from_str (addr_lib G) text = Inl e"
  shows "rpc_get_account_transactions G client \<lparr>gat_account_address = text, gat_order = ord, gat_from = f, gat_to = t\<rparr> s
      = Some (Inr (Inl (InvalidArgument (address_error_text G e))), s)"
    and "fst (rpc_get_account_state G P \<lparr>acr_account_address = text, acr_criteria = crit\<rparr> s)
      = Inl (InternalError (status_text G (InvalidArgument (address_error_text G e))))"
    and "fst (rpc_get_shard_account_cell G P \<lparr>acr_account_address = text, acr_criteria = crit\<rparr> s)
      = Inl (InternalError (status_text G (InvalidArgument (address_error_text G e))))"
  using assms
  by (simp_all add: rpc_get_account_transactions_def rpc_get_account_state_def rpc_get_shard_account_cell_def
      fetch_account_state_def fetch_shard_account_cell_def parse_address_any_def internal_io_def io_simps lift_io_def Let_def)

end
