(* ===== verification/Tonlibjson_Client.thy ===== *)
theory Tonlibjson_Client
  imports Ton_Types "HOL-Library.Countable"
begin

text \<open>
  The client over the C++ library (\<open>tonlibjson-client/src/client.rs\<close> with the handles of
  \<open>tonlibjson-sys/src/tonlibjson.rs\<close> and the error of \<open>tl.rs\<close>): the thread that receives packets, the
  storage of the waiting requests that all clones share, the service and its response futures. JSON texts
  and UUID texts are those of other crates and are parameters; JSON values are data. The oneshot channels are
  numbered. One step is one iteration of the receiving thread or one call of a method, in any order.
\<close>

section \<open>JSON values and messages\<close>

datatype Value = Null | Bool bool | Number int | Decimal string | String string | Array "Value list"
  | Object "(string \<times> Value) list"

type_synonym Uuid = nat

record json_lib =
  json_parse :: "string \<Rightarrow> anyhow + Value"
  json_print :: "Value \<Rightarrow> string"
  uuid_parse :: "string \<Rightarrow> Uuid option"
  uuid_print :: "Uuid \<Rightarrow> string"

text \<open>Control characters are escaped in printed text.\<close>

definition json_laws :: "json_lib \<Rightarrow> bool" where
  "json_laws J \<longleftrightarrow> (\<forall>v. CHR 0x00 \<notin> set (json_print J v))"

fun value_get :: "string \<Rightarrow> Value \<Rightarrow> Value option" where
  "value_get k (Object fs) = map_of fs k"
| "value_get k _ = None"

fun value_as_str :: "Value \<Rightarrow> string option" where
  "value_as_str (String s) = Some s"
| "value_as_str _ = None"

text \<open>\<open>as_object_mut().and_then(|obj| obj.remove(k))\<close>.\<close>

fun value_remove :: "string \<Rightarrow> Value \<Rightarrow> Value option \<times> Value" where
  "value_remove k (Object fs) = (map_of fs k, Object (filter (\<lambda>f. fst f \<noteq> k) fs))"
| "value_remove k v = (None, v)"

record TonError =
  code :: i32
  message :: string

definition is_disconnected :: "TonError \<Rightarrow> bool" where
  "is_disconnected e \<longleftrightarrow> code e = 500 \<and> message e = ''LITE_SERVER_NETWORK''"

definition ton_error_text :: "TonError \<Rightarrow> string" where
  "ton_error_text e = ''Ton error occurred with code '' @ show_i32 (code e) @ '', message '' @ message e"

text \<open>The derived reader of the struct; fields it does not know are ignored.\<close>

definition ton_error_of_value :: "Value \<Rightarrow> anyhow + TonError" where
  "ton_error_of_value v =
     (case (value_get ''code'' v, value_get ''message'' v) of
        (Some (Number c), Some (String m)) \<Rightarrow> if i32_range c then Inr \<lparr>code = c, message = m\<rparr> else Inl ''invalid value''
      | _ \<Rightarrow> Inl ''invalid error'')"

record TonResponse =
  resp_id :: Uuid
  resp_data :: "TonError + Value"

datatype TonMessage = ResponseMsg TonResponse | NotificationMsg "TonError + Value"

fun is_disconnected_error :: "TonMessage \<Rightarrow> bool" where
  "is_disconnected_error (ResponseMsg r) = (case resp_data r of Inl e \<Rightarrow> is_disconnected e | Inr _ \<Rightarrow> False)"
| "is_disconnected_error (NotificationMsg d) = (case d of Inl e \<Rightarrow> is_disconnected e | Inr _ \<Rightarrow> False)"

definition classify_data :: "Value \<Rightarrow> anyhow + (TonError + Value)" where
  "classify_data v =
     (if Option.bind (value_get ''@type'' v) value_as_str = Some ''error''
      then map_ok Inl (ton_error_of_value v)
      else Inr (Inr v))"

definition uuid_of_value :: "json_lib \<Rightarrow> Value \<Rightarrow> anyhow + Uuid" where
  "uuid_of_value J v =
     (case value_as_str v of None \<Rightarrow> Inl ''invalid type'' | Some s \<Rightarrow> ok_or ''invalid uuid'' (uuid_parse J s))"

definition message_of_value :: "json_lib \<Rightarrow> Value \<Rightarrow> anyhow + TonMessage" where
  "message_of_value J v =
     (case value_remove ''@extra'' v of (extra, rest) \<Rightarrow>
        bindr (case extra of None \<Rightarrow> Inr None | Some x \<Rightarrow> map_ok Some (uuid_of_value J x)) (\<lambda>i.
        bindr (classify_data rest) (\<lambda>data.
          Inr (case i of Some i \<Rightarrow> ResponseMsg \<lparr>resp_id = i, resp_data = data\<rparr> | None \<Rightarrow> NotificationMsg data))))"

text \<open>\<open>#[serde(flatten)]\<close> writes the fields of the body beside the number; only an object has fields.\<close>

definition request_value :: "json_lib \<Rightarrow> Uuid \<Rightarrow> Value \<Rightarrow> anyhow + Value" where
  "request_value J i body =
     (case body of
        Object fs \<Rightarrow> Inr (Object ((''@extra'', String (uuid_print J i)) # fs))
      | _ \<Rightarrow> Inl ''can only flatten structs and maps'')"

definition encode_request :: "json_lib \<Rightarrow> Uuid \<Rightarrow> Value \<Rightarrow> anyhow + string" where
  "encode_request J i body = map_ok (json_print J) (request_value J i body)"

definition init_config :: "string \<Rightarrow> Value" where
  "init_config config_text =
     Object [(''@type'', String ''init''),
       (''options'', Object [(''@type'', String ''options''),
         (''config'', Object [(''@type'', String ''config''), (''config'', String config_text),
           (''use_callbacks_for_network'', Bool False), (''blockchain_name'', String ''''), (''ignore_cache'', Bool True)]),
         (''keystore_type'', Object [(''@type'', String ''keyStoreTypeInMemory'')])])]"

definition ping_body :: Value where
  "ping_body = Object [(''@type'', String ''blocks.getMasterchainInfo'')]"

section \<open>The shared state\<close>

datatype ConnState = Connecting | Connected | Disconnected

text \<open>A oneshot channel: no value yet, a response, or the sender is gone.\<close>

datatype rx_slot = Waiting | Delivered TonResponse | SenderGone

text \<open>
  A response future: an error that is taken by the first poll, or the receiver (until it has completed) with
  the number of the request.
\<close>

datatype tj_future = FailedFut "anyhow option" | RxFut "nat option" Uuid

text \<open>
  The library is alive as long as its receiver is, which the thread owns. The futures are in the order of
  the calls, \<open>None\<close> for a dropped one.
\<close>

record tj_world =
  storage :: "Uuid \<rightharpoonup> nat"
  slots :: "rx_slot list"
  tj_state :: ConnState
  tj_version :: nat
  thread_alive :: bool
  sent :: "string list"
  ping_id :: Uuid
  clients :: nat
  futures :: "tj_future option list"

definition tj_send :: "string \<Rightarrow> tj_world \<Rightarrow> anyhow + tj_world" where
  "tj_send json w =
     (if \<not> thread_alive w then Inl ''client closed''
      else if CHR 0x00 \<in> set json then Inl ''nul byte found in provided data''
      else Inr (w\<lparr>sent := sent w @ [json]\<rparr>))"

definition tj_new :: "json_lib \<Rightarrow> string \<Rightarrow> Uuid \<Rightarrow> anyhow + tj_world" where
  "tj_new J config_text i =
     bindr (map_err (\<lambda>_. ''failed to encode ping message'') (encode_request J i ping_body)) (\<lambda>ping_encoded.
     bindr (map_err (\<lambda>_. ''failed to send init message'') (tj_send (json_print J (init_config config_text))
       \<lparr>storage = Map.empty, slots = [], tj_state = Connecting, tj_version = 0, thread_alive = True, sent = [],
        ping_id = i, clients = 1, futures = []\<rparr>)) (\<lambda>w.
     map_err (\<lambda>_. ''failed to send ping message'') (tj_send ping_encoded w)))"

text \<open>The last guard is gone: no client is left and no future that waits.\<close>

definition is_rx :: "tj_future option \<Rightarrow> bool" where
  "is_rx f = (case f of Some (RxFut _ _) \<Rightarrow> True | _ \<Rightarrow> False)"

definition cancelled :: "tj_world \<Rightarrow> bool" where
  "cancelled w \<longleftrightarrow> clients w = 0 \<and> (\<forall>f \<in> set (futures w). \<not> is_rx f)"

section \<open>The receiving thread\<close>

definition send_replace :: "ConnState \<Rightarrow> tj_world \<Rightarrow> tj_world" where
  "send_replace s w = w\<lparr>tj_state := s, tj_version := tj_version w + 1\<rparr>"

fun on_message :: "TonMessage \<Rightarrow> tj_world \<Rightarrow> tj_world" where
  "on_message (ResponseMsg r) w =
     (if resp_id r = ping_id w then (if is_ok (resp_data r) then send_replace Connected w else w)
      else case storage w (resp_id r) of
        Some i \<Rightarrow> w\<lparr>storage := (storage w)(resp_id r := None), slots := (slots w)[i := Delivered r]\<rparr>
      | None \<Rightarrow> w)"
| "on_message (NotificationMsg _) w = w"

text \<open>What \<open>receive\<close> returns within a second: nothing, a text, or bytes that are no text.\<close>

definition packet_message :: "json_lib \<Rightarrow> anyhow + string option \<Rightarrow> TonMessage option" where
  "packet_message J received =
     (case received of
        Inr (Some packet) \<Rightarrow>
          (case bindr (json_parse J packet) (message_of_value J) of Inr m \<Rightarrow> Some m | Inl _ \<Rightarrow> None)
      | _ \<Rightarrow> None)"

text \<open>One iteration of the loop with the test that follows it. Leaving the loop drops the library.\<close>

definition thread_step :: "json_lib \<Rightarrow> anyhow + string option \<Rightarrow> tj_world \<Rightarrow> tj_world" where
  "thread_step J received w =
     (let m = packet_message J received;
          stop = (case m of Some m \<Rightarrow> is_disconnected_error m | None \<Rightarrow> False);
          w1 = (if stop then send_replace Disconnected w else w);
          w2 = (case m of Some m \<Rightarrow> on_message m w1 | None \<Rightarrow> w1) in
      if stop \<or> cancelled w2 then w2\<lparr>thread_alive := False\<rparr> else w2)"

section \<open>The service\<close>

text \<open>A handle: the version of the state it has seen, and the version at which its ready future waits.\<close>

record tj_handle =
  seen :: nat
  ready :: "nat option"

definition clone_handle :: "tj_handle \<Rightarrow> tj_handle" where
  "clone_handle h = h\<lparr>ready := None\<rparr>"

text \<open>\<open>watch::Receiver::changed\<close> of a receiver that has seen a version.\<close>

definition changed :: "tj_world \<Rightarrow> nat \<Rightarrow> (anyhow + unit) poll" where
  "changed w v =
     (if tj_version w \<noteq> v then Ready (Inr ())
      else if \<not> thread_alive w then Ready (Inl ''channel closed'')
      else Pending)"

function tj_poll_ready :: "tj_world \<Rightarrow> tj_handle \<Rightarrow> (anyhow + unit) poll \<times> tj_handle" where
  "tj_poll_ready w h =
     (case (case ready h of Some v \<Rightarrow> changed w v | None \<Rightarrow> Ready (Inr ())) of
        Pending \<Rightarrow> (Pending, h)
      | Ready (Inl e) \<Rightarrow> (Ready (Inl e), h\<lparr>ready := None\<rparr>)
      | Ready (Inr _) \<Rightarrow>
          (case tj_state w of
             Connected \<Rightarrow> (Ready (Inr ()), \<lparr>seen = tj_version w, ready = None\<rparr>)
           | Connecting \<Rightarrow> tj_poll_ready w \<lparr>seen = tj_version w, ready = Some (tj_version w)\<rparr>
           | Disconnected \<Rightarrow> (Ready (Inl ''connection is closed''), \<lparr>seen = tj_version w, ready = None\<rparr>)))"
  by pat_completeness auto
termination
  by (relation "measure (\<lambda>(w, h). if ready h = Some (tj_version w) then 0 else 1)")
    (auto simp: changed_def split: if_splits option.splits)

text \<open>\<open>DashMap::insert\<close> drops the sender that was there before.\<close>

definition storage_insert :: "Uuid \<Rightarrow> nat \<Rightarrow> tj_world \<Rightarrow> tj_world" where
  "storage_insert u i w =
     w\<lparr>storage := (storage w)(u \<mapsto> i),
       slots := (case storage w u of None \<Rightarrow> slots w | Some j \<Rightarrow> (slots w)[j := SenderGone])\<rparr>"

definition tj_call :: "json_lib \<Rightarrow> Uuid \<Rightarrow> Value \<Rightarrow> tj_world \<Rightarrow> tj_future \<times> tj_world" where
  "tj_call J u body w =
     (case encode_request J u body of
        Inl e \<Rightarrow> (FailedFut (Some e), w)
      | Inr json \<Rightarrow>
          let i = length (slots w);
              w1 = storage_insert u i (w\<lparr>slots := slots w @ [Waiting]\<rparr>) in
          (case tj_send json w1 of
             Inr w2 \<Rightarrow> (RxFut (Some i) u, w2)
           | Inl e \<Rightarrow> (FailedFut (Some e), w1)))"

fun tj_poll :: "(Value \<Rightarrow> anyhow + 'r) \<Rightarrow> tj_world \<Rightarrow> tj_future \<Rightarrow> ((anyhow + 'r) poll \<times> tj_future) may_panic" where
  "tj_poll from_value w (FailedFut (Some e)) = Inr (Ready (Inl e), FailedFut None)"
| "tj_poll from_value w (FailedFut None) = Inl ''polled after error''"
| "tj_poll from_value w (RxFut None u) = Inl ''called after complete''"
| "tj_poll from_value w (RxFut (Some i) u) =
     (case slots w ! i of
        Waiting \<Rightarrow> Inr (Pending, RxFut (Some i) u)
      | Delivered r \<Rightarrow> Inr (Ready (bindr (map_err ton_error_text (resp_data r)) from_value), RxFut None u)
      | SenderGone \<Rightarrow> Inr (Ready (Inl ''oneshot closed''), RxFut None u))"

definition tj_drop :: "tj_future \<Rightarrow> tj_world \<Rightarrow> tj_world" where
  "tj_drop f w = (case f of RxFut _ u \<Rightarrow> w\<lparr>storage := (storage w)(u := None)\<rparr> | FailedFut _ \<Rightarrow> w)"

section \<open>Runs\<close>

text \<open>
  A poll stores what is left of the future; \<open>from_value\<close> plays no part in that.
\<close>

datatype tj_op =
    Receive "anyhow + string option"
  | CallReq Uuid Value
  | PollFut nat
  | DropFut nat
  | CloneClient
  | DropClient

fun tj_step :: "json_lib \<Rightarrow> tj_op \<Rightarrow> tj_world \<Rightarrow> tj_world option" where
  "tj_step J (Receive p) w = (if thread_alive w then Some (thread_step J p w) else None)"
| "tj_step J (CallReq u body) w =
     (if clients w = 0 then None
      else case tj_call J u body w of (f, w') \<Rightarrow> Some (w'\<lparr>futures := futures w' @ [Some f]\<rparr>))"
| "tj_step J (PollFut k) w =
     (if k < length (futures w) then
        (case futures w ! k of
           None \<Rightarrow> None
         | Some f \<Rightarrow>
             (case tj_poll Inr w f of
                Inl _ \<Rightarrow> None
              | Inr (_, f') \<Rightarrow> Some (w\<lparr>futures := (futures w)[k := Some f']\<rparr>)))
      else None)"
| "tj_step J (DropFut k) w =
     (if k < length (futures w) then
        (case futures w ! k of
           None \<Rightarrow> None
         | Some f \<Rightarrow> Some ((tj_drop f w)\<lparr>futures := (futures w)[k := None]\<rparr>))
      else None)"
| "tj_step J CloneClient w = (if clients w = 0 then None else Some (w\<lparr>clients := clients w + 1\<rparr>))"
| "tj_step J DropClient w = (if clients w = 0 then None else Some (w\<lparr>clients := clients w - 1\<rparr>))"

fun tj_run :: "json_lib \<Rightarrow> tj_op list \<Rightarrow> tj_world \<Rightarrow> tj_world option" where
  "tj_run J [] w = Some w"
| "tj_run J (op # ops) w = Option.bind (tj_step J op w) (tj_run J ops)"

section \<open>The invariant of the storage\<close>

text \<open>
  UUIDs are random; that no two requests have the same one, nor the number of the ping, is the hypothesis on
  the sequence of steps. The invariant carries the set of the numbers used so far.
\<close>

fun op_ids :: "tj_op \<Rightarrow> Uuid list" where
  "op_ids (CallReq u _) = [u]"
| "op_ids _ = []"

definition run_ids :: "tj_op list \<Rightarrow> Uuid list" where
  "run_ids ops = concat (map op_ids ops)"

lemma run_ids_simps [simp]: "run_ids [] = []" "run_ids (op # ops) = op_ids op @ run_ids ops"
  "run_ids (ops @ ops') = run_ids ops @ run_ids ops'"
  by (simp_all add: run_ids_def)

definition fut_id :: "tj_world \<Rightarrow> nat \<Rightarrow> Uuid option" where
  "fut_id w k = (if k < length (futures w) then case futures w ! k of Some (RxFut _ u) \<Rightarrow> Some u | _ \<Rightarrow> None else None)"

text \<open>An injective map from a set into a set.\<close>

definition inj_map :: "'k set \<Rightarrow> 'v set \<Rightarrow> ('k \<rightharpoonup> 'v) \<Rightarrow> bool" where
  "inj_map K V m \<longleftrightarrow> (\<forall>x v. m x = Some v \<longrightarrow> x \<in> K \<and> v \<in> V \<and> (\<forall>y. m y = Some v \<longrightarrow> y = x))"

lemma inj_mapD:
  assumes "inj_map K V m" "m x = Some v"
  shows "x \<in> K" "v \<in> V" "m y = Some v \<Longrightarrow> y = x"
  using assms unfolding inj_map_def by blast+

lemma inj_map_upd: "inj_map K V m \<Longrightarrow> v \<notin> V \<Longrightarrow> inj_map (insert k K) (insert v V) (m(k \<mapsto> v))"
  unfolding inj_map_def by (metis fun_upd_apply insertCI option.inject)

lemma inj_map_del: "inj_map K V m \<Longrightarrow> inj_map K V (m(k := None))"
  by (simp add: inj_map_def)

lemma inj_map_mono: "inj_map K V m \<Longrightarrow> K \<subseteq> K' \<Longrightarrow> V \<subseteq> V' \<Longrightarrow> inj_map K' V' m"
  unfolding inj_map_def by blast

definition tj_inv :: "Uuid set \<Rightarrow> tj_world \<Rightarrow> bool" where
  "tj_inv U w \<longleftrightarrow> inj_map U {..<length (slots w)} (storage w) \<and> inj_map UNIV U (fut_id w) \<and> ping_id w \<in> U"

lemma tj_invD:
  assumes "tj_inv U w"
  shows "u \<notin> U \<Longrightarrow> storage w u = None" "storage w u = Some i \<Longrightarrow> i < length (slots w)"
    "storage w u = Some i \<Longrightarrow> storage w v = Some i \<Longrightarrow> v = u"
    "fut_id w k = Some u \<Longrightarrow> u \<in> U" "fut_id w k = Some u \<Longrightarrow> fut_id w j = Some u \<Longrightarrow> j = k" "ping_id w \<in> U"
proof -
  have st: "inj_map U {..<length (slots w)} (storage w)" and fu: "inj_map UNIV U (fut_id w)" and pi: "ping_id w \<in> U"
    using assms by (auto simp: tj_inv_def)
  show "storage w u = None" if "u \<notin> U" using that inj_mapD(1) [OF st, of u] by (cases "storage w u") auto
  show "storage w u = Some i \<Longrightarrow> i < length (slots w)" using inj_mapD(2) [OF st] by auto
  show "storage w u = Some i \<Longrightarrow> storage w v = Some i \<Longrightarrow> v = u" using inj_mapD(3) [OF st] by auto
  show "fut_id w k = Some u \<Longrightarrow> u \<in> U" using inj_mapD(2) [OF fu] by auto
  show "fut_id w k = Some u \<Longrightarrow> fut_id w j = Some u \<Longrightarrow> j = k" using inj_mapD(3) [OF fu] by auto
qed (use assms in \<open>simp add: tj_inv_def\<close>)

text \<open>The steps as far as the storage goes: what changes beside the slot of a delivered response.\<close>

lemma on_message_simps [simp]:
  "futures (on_message m w) = futures w" "clients (on_message m w) = clients w" "ping_id (on_message m w) = ping_id w"
  "thread_alive (on_message m w) = thread_alive w" "length (slots (on_message m w)) = length (slots w)"
  by (cases m; simp add: send_replace_def split: option.split)+

lemma send_replace_simps [simp]:
  "storage (send_replace s w) = storage w" "slots (send_replace s w) = slots w" "futures (send_replace s w) = futures w"
  "clients (send_replace s w) = clients w" "ping_id (send_replace s w) = ping_id w"
  "thread_alive (send_replace s w) = thread_alive w" "tj_state (send_replace s w) = s"
  "cancelled (send_replace s w) = cancelled w"
  by (simp_all add: send_replace_def cancelled_def)

lemma tj_version_replace: "tj_version (send_replace s w) = Suc (tj_version w)"
  by (simp add: send_replace_def)

text \<open>The response that a packet carries, when it is not the answer to the ping.\<close>

definition packet_response :: "json_lib \<Rightarrow> Uuid \<Rightarrow> anyhow + string option \<Rightarrow> TonResponse option" where
  "packet_response J ping p =
     (case packet_message J p of Some (ResponseMsg r) \<Rightarrow> if resp_id r = ping then None else Some r | _ \<Rightarrow> None)"

definition deliver :: "TonResponse \<Rightarrow> tj_world \<Rightarrow> (Uuid \<rightharpoonup> nat) \<times> rx_slot list" where
  "deliver r w = (case storage w (resp_id r) of None \<Rightarrow> (storage w, slots w)
     | Some i \<Rightarrow> ((storage w)(resp_id r := None), (slots w)[i := Delivered r]))"

lemma thread_step_storage:
  "(storage (thread_step J p w), slots (thread_step J p w))
     = (case packet_response J (ping_id w) p of None \<Rightarrow> (storage w, slots w) | Some r \<Rightarrow> deliver r w)"
  by (auto simp: thread_step_def packet_response_def deliver_def Let_def split: option.split TonMessage.split)

lemma thread_step_simps [simp]:
  "futures (thread_step J p w) = futures w" "clients (thread_step J p w) = clients w"
  "ping_id (thread_step J p w) = ping_id w"
  by (auto simp: thread_step_def Let_def split: option.split)

lemma tj_call_storage:
  assumes "storage w u = None" "tj_call J u body w = (f, w')"
  shows "futures w' = futures w" "ping_id w' = ping_id w" "clients w' = clients w" "thread_alive w' = thread_alive w"
    "tj_state w' = tj_state w" "tj_version w' = tj_version w"
    "storage w' = storage w \<and> slots w' = slots w \<and> (\<exists>e. f = FailedFut (Some e))
     \<or> storage w' = (storage w)(u \<mapsto> length (slots w)) \<and> slots w' = slots w @ [Waiting]
       \<and> (f = RxFut (Some (length (slots w))) u \<or> (\<exists>e. f = FailedFut (Some e)))"
  using assms
  by (auto simp: tj_call_def tj_send_def storage_insert_def Let_def split: sum.splits if_splits)


lemma fut_id_append: "futures w' = futures w @ [Some f] \<Longrightarrow>
    fut_id w' = (case f of RxFut _ u \<Rightarrow> (fut_id w)(length (futures w) \<mapsto> u) | FailedFut _ \<Rightarrow> fut_id w)"
  by (rule ext) (auto simp: fut_id_def nth_append split: tj_future.split)

lemma fut_id_cong: "futures w' = futures w \<Longrightarrow> fut_id w' = fut_id w"
  by (rule ext) (simp add: fut_id_def)

lemma fut_id_drop: "k < length (futures w) \<Longrightarrow> futures w' = (futures w)[k := None] \<Longrightarrow> fut_id w' = (fut_id w)(k := None)"
  by (rule ext) (auto simp: fut_id_def nth_list_update)

lemma fut_id_poll:
  assumes "futures w ! k = Some f" "tj_poll fv w f = Inr (r, f')" "futures w' = (futures w)[k := Some f']"
  shows "fut_id w' = fut_id w"
proof (rule ext)
  fix j
  have "(case f' of RxFut _ u \<Rightarrow> Some u | _ \<Rightarrow> None) = (case f of RxFut _ u \<Rightarrow> Some u | _ \<Rightarrow> None)"
    using assms(2) by (cases "(fv, w, f)" rule: tj_poll.cases) (auto split: rx_slot.splits)
  then show "fut_id w' j = fut_id w j"
    using assms(1,3) by (cases "j = k") (simp_all add: fut_id_def)
qed

lemma tj_inv_deliver:
  assumes "tj_inv U w" "(storage w', slots w') = deliver r w" "futures w' = futures w" "ping_id w' = ping_id w"
  shows "tj_inv U w'"
  using assms(1,2,4) fut_id_cong [OF assms(3)] by (auto simp: tj_inv_def deliver_def inj_map_del split: option.splits)

lemma tj_inv_same:
  assumes "tj_inv U w" "storage w' = storage w" "slots w' = slots w" "fut_id w' = fut_id w" "ping_id w' = ping_id w"
  shows "tj_inv U w'"
  using assms by (simp add: tj_inv_def)

lemma tj_inv_call:
  assumes "tj_inv U w" "u \<notin> U" "tj_call J u body w = (f, w')"
  shows "tj_inv (insert u U) (w'\<lparr>futures := futures w' @ [Some f]\<rparr>)"
proof -
  let ?w = "w'\<lparr>futures := futures w' @ [Some f]\<rparr>"
  note call = tj_call_storage [OF tj_invD(1) [OF assms(1,2)] assms(3)]
  have st: "inj_map U {..<length (slots w)} (storage w)" and fu: "inj_map UNIV U (fut_id w)" and pi: "ping_id w \<in> U"
    using assms(1) by (auto simp: tj_inv_def)
  have "fut_id ?w = (case f of RxFut _ u' \<Rightarrow> (fut_id w)(length (futures w) \<mapsto> u') | FailedFut _ \<Rightarrow> fut_id w)"
    using fut_id_append [of ?w w f] call(1) by simp
  then have "fut_id ?w \<in> {fut_id w, (fut_id w)(length (futures w) \<mapsto> u)}" using call(7) by auto
  then have "inj_map UNIV (insert u U) (fut_id ?w)"
    using inj_map_mono [OF fu subset_refl subset_insertI, of u] inj_map_upd [OF fu assms(2), of "length (futures w)"] by auto
  moreover have "inj_map (insert u U) {..<length (slots w')} (storage w')"
    using call(7) inj_map_mono [OF st subset_insertI subset_refl, of u] inj_map_upd [OF st, of "length (slots w)" u]
    by (auto simp: lessThan_Suc)
  ultimately show ?thesis using pi call(2) by (simp add: tj_inv_def)
qed

lemma tj_inv_step:
  assumes "tj_inv U w" "set (op_ids op) \<inter> U = {}" "tj_step J op w = Some w'"
  shows "tj_inv (set (op_ids op) \<union> U) w'"
proof (cases op)
  case (Receive p)
  then have w': "w' = thread_step J p w" using assms(3) by (simp split: if_splits)
  show ?thesis
  proof (cases "packet_response J (ping_id w) p")
    case None
    then show ?thesis using Receive thread_step_storage [of J p w] fut_id_cong [of w' w]
      by (auto simp: w' intro!: tj_inv_same [OF assms(1)])
  next
    case (Some r)
    then show ?thesis using assms(1) Receive thread_step_storage [of J p w]
      by (auto simp: w' intro!: tj_inv_deliver [OF assms(1)])
  qed
next
  case (CallReq u body)
  then show ?thesis using assms tj_inv_call by (auto split: if_splits prod.splits)
next
  case (PollFut k)
  then obtain f r f' where "futures w ! k = Some f" "tj_poll Inr w f = Inr (r, f')"
    "w' = w\<lparr>futures := (futures w)[k := Some f']\<rparr>"
    using assms(3) by (auto split: if_splits option.splits sum.splits)
  then have "tj_inv U w'" by (intro tj_inv_same [OF assms(1)] fut_id_poll) auto
  then show ?thesis using PollFut by simp
next
  case (DropFut k)
  then obtain f where k: "k < length (futures w)" "w' = (tj_drop f w)\<lparr>futures := (futures w)[k := None]\<rparr>"
    using assms(3) by (auto split: if_splits option.splits)
  have "fut_id w' = (fut_id w)(k := None)" using fut_id_drop [OF k(1)] k(2) by simp
  then show ?thesis
    using assms(1) k(2) DropFut by (cases f) (auto simp: tj_inv_def tj_drop_def inj_map_del)
qed (use assms(3) in \<open>auto intro!: tj_inv_same [OF assms(1)] fut_id_cong split: if_splits\<close>)


lemma tj_new_world:
  assumes "tj_new J cfg i = Inr w"
  shows "storage w = Map.empty" "slots w = []" "tj_state w = Connecting" "tj_version w = 0" "thread_alive w"
    "ping_id w = i" "clients w = 1" "futures w = []"
  using assms by (auto simp: tj_new_def tj_send_def bindr_eq_Inr map_err_eq_Inr split: if_splits)

lemma tj_inv_new: "tj_new J cfg i = Inr w \<Longrightarrow> tj_inv {i} w"
  by (simp add: tj_inv_def inj_map_def fut_id_def tj_new_world)

lemma tj_inv_run:
  assumes "tj_inv U w" "distinct (run_ids ops)" "set (run_ids ops) \<inter> U = {}" "tj_run J ops w = Some w'"
  shows "tj_inv (set (run_ids ops) \<union> U) w'"
  using assms
proof (induction ops arbitrary: w U)
  case (Cons op ops)
  then obtain w1 where w1: "tj_step J op w = Some w1" "tj_run J ops w1 = Some w'"
    by (auto simp: bind_eq_Some_conv)
  have "tj_inv (set (op_ids op) \<union> U) w1" using tj_inv_step [OF Cons.prems(1) _ w1(1)] Cons.prems(3) by auto
  from Cons.IH [OF this _ _ w1(2)] Cons.prems(2,3) show ?case by (auto simp: Un_ac)
qed simp

lemma tj_run_append: "tj_run J (as @ bs) w = Option.bind (tj_run J as w) (tj_run J bs)"
proof (induction as arbitrary: w)
  case (Cons a as)
  then show ?case by (cases "tj_step J a w") simp_all
qed simp

section \<open>One request on its own\<close>

text \<open>
  What becomes of a request that was sent and whose future is kept: only the packets that arrive decide it.
\<close>

datatype fate = InFlight | Answered TonResponse | Lost

fun fate_step :: "json_lib \<Rightarrow> Uuid \<Rightarrow> tj_op \<Rightarrow> fate \<Rightarrow> fate" where
  "fate_step J u (Receive p) InFlight =
     (case packet_message J p of
        None \<Rightarrow> InFlight
      | Some (ResponseMsg r) \<Rightarrow>
          if resp_id r = u then Answered r
          else if is_disconnected_error (ResponseMsg r) then Lost else InFlight
      | Some (NotificationMsg d) \<Rightarrow> if is_disconnected_error (NotificationMsg d) then Lost else InFlight)"
| "fate_step J u _ fa = fa"

definition has_fate :: "Uuid \<Rightarrow> nat \<Rightarrow> nat \<Rightarrow> fate \<Rightarrow> tj_world \<Rightarrow> bool" where
  "has_fate u k i fa w \<longleftrightarrow> u \<noteq> ping_id w \<and> fut_id w k = Some u \<and> i < length (slots w) \<and>
     (case fa of
        InFlight \<Rightarrow> thread_alive w \<and> storage w u = Some i \<and> slots w ! i = Waiting
      | Answered r \<Rightarrow> i \<notin> ran (storage w) \<and> slots w ! i = Delivered r
      | Lost \<Rightarrow> \<not> thread_alive w \<and> slots w ! i = Waiting)"

lemma thread_alive_step:
  "thread_alive w \<Longrightarrow> thread_alive (thread_step J p w) \<longleftrightarrow>
     \<not> cancelled w \<and> (case packet_message J p of Some m \<Rightarrow> \<not> is_disconnected_error m | None \<Rightarrow> True)"
  by (auto simp: thread_step_def Let_def cancelled_def split: option.split)

lemma fut_id_eq_Some: "fut_id w k = Some u \<longleftrightarrow> k < length (futures w) \<and> (\<exists>x. futures w ! k = Some (RxFut x u))"
  by (auto simp: fut_id_def split: option.split tj_future.split)

lemma not_cancelled: "fut_id w k = Some u \<Longrightarrow> \<not> cancelled w"
  unfolding fut_id_eq_Some cancelled_def is_rx_def by (metis nth_mem option.simps(5) tj_future.simps(6))

lemma has_fate_receive:
  assumes "tj_inv U w" "has_fate u k i fa w" "thread_alive w"
  shows "has_fate u k i (fate_step J u (Receive p) fa) (thread_step J p w)"
proof -
  have f: "u \<noteq> ping_id w" "fut_id w k = Some u" "i < length (slots w)" "fut_id (thread_step J p w) k = Some u"
    using assms(2) fut_id_cong [of "thread_step J p w" w] by (auto simp: has_fate_def)
  note alive = thread_alive_step [OF assms(3), of J p] not_cancelled [OF f(2)]
  show ?thesis
  proof (cases "packet_response J (ping_id w) p")
    case None
    with f assms(2,3) alive thread_step_storage [of J p w] show ?thesis
      by (cases fa) (auto simp: has_fate_def packet_response_def split: option.splits TonMessage.splits if_splits)
  next
    case (Some r)
    then have m: "packet_message J p = Some (ResponseMsg r)"
      by (auto simp: packet_response_def split: option.splits TonMessage.splits if_splits)
    have "j \<noteq> i" if "storage w (resp_id r) = Some j" "resp_id r \<noteq> u \<or> fa \<noteq> InFlight" for j
      using that assms(2,3) tj_invD(3) [OF assms(1)] by (auto simp: has_fate_def ran_def split: fate.splits)
    moreover have "ran ((storage w)(resp_id r := None)) \<subseteq> ran (storage w)" by (auto simp: ran_def)
    moreover have "i \<notin> ran ((storage w)(u := None))" if "storage w u = Some i"
      using tj_invD(3) [OF assms(1) that] by (auto simp: ran_def)
    ultimately show ?thesis
      using f assms(2,3) alive thread_step_storage [of J p w] m Some
      by (cases fa) (auto simp: has_fate_def deliver_def nth_list_update split: option.splits if_splits)
  qed
qed


lemma has_fate_call:
  assumes "tj_inv U w" "has_fate u k i fa w" "v \<notin> U" "tj_call J v body w = (f, w')"
  shows "has_fate u k i fa (w'\<lparr>futures := futures w' @ [Some f]\<rparr>)"
proof -
  note call = tj_call_storage [OF tj_invD(1) [OF assms(1,3)] assms(4)]
  have u: "fut_id w k = Some u" using assms(2) by (simp add: has_fate_def)
  then have k: "k < length (futures w)" by (auto simp: fut_id_def split: if_splits)
  then have "fut_id (w'\<lparr>futures := futures w' @ [Some f]\<rparr>) k = Some u"
    using fut_id_append [of "w'\<lparr>futures := futures w' @ [Some f]\<rparr>" w f] call(1) u
    by (auto split: tj_future.split)
  moreover have "u \<noteq> v" "storage w v = None" using tj_invD(1,4) [OF assms(1)] u assms(3) by auto
  ultimately show ?thesis
    using assms(2) call by (auto simp: has_fate_def nth_append split: fate.splits)
qed

lemma has_fate_step:
  assumes "tj_inv U w" "has_fate u k i fa w" "set (op_ids op) \<inter> U = {}" "op \<noteq> DropFut k" "tj_step J op w = Some w'"
  shows "has_fate u k i (fate_step J u op fa) w'"
proof (cases op)
  case (Receive p)
  then show ?thesis using has_fate_receive [OF assms(1,2)] assms(5) by (auto split: if_splits)
next
  case (CallReq v body)
  then show ?thesis using has_fate_call [OF assms(1,2)] assms(3,5) by (auto split: if_splits prod.splits)
next
  case (PollFut j)
  then obtain f r f' where f: "futures w ! j = Some f" "tj_poll Inr w f = Inr (r, f')"
    "w' = w\<lparr>futures := (futures w)[j := Some f']\<rparr>"
    using assms(5) by (auto split: if_splits option.splits sum.splits)
  then have "fut_id w' = fut_id w" by (intro fut_id_poll) auto
  then show ?thesis using assms(2) PollFut f(3) by (cases fa) (simp_all add: has_fate_def)
next
  case (DropFut j)
  then obtain f where j: "j < length (futures w)" "futures w ! j = Some f"
    "w' = (tj_drop f w)\<lparr>futures := (futures w)[j := None]\<rparr>"
    using assms(5) by (auto split: if_splits option.splits)
  have "j \<noteq> k" using DropFut assms(4) by simp
  then have "fut_id w' k = Some u" using fut_id_drop [OF j(1), of w'] j(3) assms(2) by (simp add: has_fate_def)
  moreover have "v \<noteq> u" if "f = RxFut x v" for x v
    using tj_invD(5) [OF assms(1), of k u j] \<open>j \<noteq> k\<close> assms(2) that j(1,2) by (auto simp: has_fate_def fut_id_def)
  moreover have "ran ((storage w)(v := None)) \<subseteq> ran (storage w)" for v by (auto simp: ran_def)
  ultimately show ?thesis
    using assms(2) DropFut j(3)
    by (cases f) (auto simp: has_fate_def tj_drop_def split: fate.splits)
qed (use assms(2,5) fut_id_cong [of w' w] in \<open>auto simp: has_fate_def split: if_splits fate.splits\<close>)

lemma has_fate_run:
  assumes "tj_inv U w" "has_fate u k i fa w" "distinct (run_ids ops)" "set (run_ids ops) \<inter> U = {}"
    "DropFut k \<notin> set ops" "tj_run J ops w = Some w'"
  shows "has_fate u k i (fold (fate_step J u) ops fa) w'"
  using assms
proof (induction ops arbitrary: w U fa)
  case (Cons op ops)
  then obtain w1 where w1: "tj_step J op w = Some w1" "tj_run J ops w1 = Some w'"
    by (auto simp: bind_eq_Some_conv)
  have "has_fate u k i (fate_step J u op fa) w1"
    using has_fate_step [OF Cons.prems(1,2) _ _ w1(1)] Cons.prems(4,5) by auto
  moreover have "tj_inv (set (op_ids op) \<union> U) w1" using tj_inv_step [OF Cons.prems(1) _ w1(1)] Cons.prems(4) by auto
  ultimately show ?case using Cons.IH [OF _ _ _ _ _ w1(2)] Cons.prems(3-5) by auto
qed simp

lemma poll_fate:
  assumes "has_fate u k i fa w"
  shows "tj_poll fv w (RxFut (Some i) u) = Inr (case fa of
      Answered r \<Rightarrow> (Ready (bindr (map_err ton_error_text (resp_data r)) fv), RxFut None u)
    | _ \<Rightarrow> (Pending, RxFut (Some i) u))"
  using assms by (auto simp: has_fate_def split: fate.splits)

lemma call_sends:
  assumes "json_laws J" "tj_inv U w" "u \<notin> U" "thread_alive w" "tj_call J u (Object fs) w = (f, w')"
  shows "f = RxFut (Some (length (slots w))) u"
    and "sent w' = sent w @ [json_print J (Object ((''@extra'', String (uuid_print J u)) # fs))]"
    and "has_fate u (length (futures w)) (length (slots w)) InFlight (w'\<lparr>futures := futures w' @ [Some f]\<rparr>)"
proof -
  have "storage w u = None" "u \<noteq> ping_id w" using tj_invD(1,6) [OF assms(2)] assms(3) by auto
  moreover have "CHR 0x00 \<notin> set (json_print J v)" for v using assms(1) by (simp add: json_laws_def)
  ultimately show "f = RxFut (Some (length (slots w))) u"
    "sent w' = sent w @ [json_print J (Object ((''@extra'', String (uuid_print J u)) # fs))]"
    "has_fate u (length (futures w)) (length (slots w)) InFlight (w'\<lparr>futures := futures w' @ [Some f]\<rparr>)"
    using assms(4,5)
    by (auto simp: tj_call_def encode_request_def request_value_def tj_send_def storage_insert_def Let_def
        has_fate_def fut_id_def nth_append)
qed

section \<open>The storage holds what waits\<close>

definition waiting :: "tj_world \<Rightarrow> Uuid \<Rightarrow> nat \<Rightarrow> bool" where
  "waiting w u i \<longleftrightarrow> Some (RxFut (Some i) u) \<in> set (futures w) \<and> slots w ! i = Waiting"

definition live_inv :: "tj_world \<Rightarrow> bool" where
  "live_inv w \<longleftrightarrow> (\<forall>i u. Some (RxFut (Some i) u) \<in> set (futures w) \<longrightarrow> i < length (slots w))
     \<and> (thread_alive w \<longrightarrow> (\<forall>u i. storage w u = Some i \<longleftrightarrow> waiting w u i))"

lemma live_invI:
  assumes "\<And>i u. Some (RxFut (Some i) u) \<in> set (futures w) \<Longrightarrow> i < length (slots w)"
    and "\<And>u i. thread_alive w \<Longrightarrow> storage w u = Some i \<longleftrightarrow> waiting w u i"
  shows "live_inv w"
  using assms unfolding live_inv_def by blast

lemma live_invD:
  assumes "live_inv w"
  shows "Some (RxFut (Some i) u) \<in> set (futures w) \<Longrightarrow> i < length (slots w)"
    and "thread_alive w \<Longrightarrow> storage w u = Some i \<longleftrightarrow> waiting w u i"
  using assms unfolding live_inv_def by blast+

lemma live_same:
  assumes "live_inv w" "storage w' = storage w" "slots w' = slots w" "futures w' = futures w"
    "thread_alive w' \<Longrightarrow> thread_alive w"
  shows "live_inv w'"
  using live_invD [OF assms(1)] assms(2-5) by (intro live_invI) (auto simp: waiting_def)

lemma live_receive:
  assumes "tj_inv U w" "live_inv w" "thread_alive w"
  shows "live_inv (thread_step J p w)"
proof (cases "Option.bind (packet_response J (ping_id w) p) (\<lambda>r. map_option (Pair r) (storage w (resp_id r)))")
  case None
  then have "storage (thread_step J p w) = storage w \<and> slots (thread_step J p w) = slots w"
    using thread_step_storage [of J p w] by (auto simp: deliver_def split: option.splits)
  then show ?thesis using assms(3) by (intro live_same [OF assms(2)]) simp_all
next
  case (Some rj)
  then obtain r j where r: "packet_response J (ping_id w) p = Some r" "storage w (resp_id r) = Some j"
    by (auto simp: bind_eq_Some_conv)
  let ?w = "thread_step J p w"
  have w': "storage ?w = (storage w)(resp_id r := None)" "slots ?w = (slots w)[j := Delivered r]"
    using r thread_step_storage [of J p w] by (simp_all add: deliver_def)
  show ?thesis
  proof (rule live_invI)
    show "storage ?w u = Some i \<longleftrightarrow> waiting ?w u i" for u i
    proof -
      have "waiting ?w u i \<longleftrightarrow> waiting w u i \<and> i \<noteq> j"
        using tj_invD(2) [OF assms(1) r(2)] by (cases "i = j") (auto simp: waiting_def w')
      moreover have "storage w u = Some i \<longleftrightarrow> waiting w u i" by (rule live_invD(2) [OF assms(2,3)])
      moreover have "u = resp_id r" if "storage w u = Some j" by (rule tj_invD(3) [OF assms(1) r(2) that])
      ultimately show ?thesis using r(2) unfolding w'(1) fun_upd_apply by (metis option.distinct(1) option.inject)
    qed
    show "i < length (slots ?w)" if "Some (RxFut (Some i) u) \<in> set (futures ?w)" for i u
      using live_invD(1) [OF assms(2), of i u] that w' by simp
  qed
qed

lemma live_call:
  assumes "json_laws J" "tj_inv U w" "live_inv w" "u \<notin> U" "tj_call J u body w = (f, w')"
  shows "live_inv (w'\<lparr>futures := futures w' @ [Some f]\<rparr>)"
proof (cases "storage w' = storage w \<and> slots w' = slots w \<and> (\<exists>e. f = FailedFut (Some e))")
  note call = tj_call_storage [OF tj_invD(1) [OF assms(2,4)] assms(5)]
  {
    case True
    then show ?thesis using live_invD [OF assms(3)] call(1,4) by (intro live_invI) (auto simp: waiting_def)
  next
    case False
    then obtain fs where fs: "body = Object fs"
      using assms(5) by (auto simp: tj_call_def encode_request_def request_value_def split: Value.splits)
    have st: "storage w' = (storage w)(u \<mapsto> length (slots w))" "slots w' = slots w @ [Waiting]"
      using False call(7) by auto
    have f: "f = RxFut (Some (length (slots w))) u" if "thread_alive w"
      using call_sends(1) [OF assms(1,2,4) that] assms(5) fs by blast
    have idx: "i < length (slots w)" if "Some (RxFut (Some i) v) \<in> set (futures w)" for i v
      using live_invD(1) [OF assms(3) that] .
    let ?w = "w'\<lparr>futures := futures w' @ [Some f]\<rparr>"
    have wait: "waiting ?w v i \<longleftrightarrow> waiting w v i \<or> v = u \<and> i = length (slots w)" if "thread_alive w" for v i
      using f [OF that] idx call(1) st(2) by (auto simp: waiting_def nth_append)
    have "\<not> waiting w u i" if "thread_alive w" for i
      using live_invD(2) [OF assms(3) that, of u i] tj_invD(1) [OF assms(2,4)] by simp
    then have "storage ?w v = Some i \<longleftrightarrow> waiting ?w v i" if "thread_alive ?w" for v i
      using live_invD(2) [OF assms(3), of v i] wait [of v i] call(4) st(1) that by auto
    moreover have "i < length (slots ?w)" if "Some (RxFut (Some i) v) \<in> set (futures ?w)" for i v
      using that idx call(1,7) st(2) by (auto dest!: idx)
    ultimately show ?thesis by (rule live_invI [rotated])
  }
qed


lemma live_poll:
  assumes "live_inv w" "k < length (futures w)" "futures w ! k = Some f" "tj_poll fv w f = Inr (r, f')"
  shows "live_inv (w\<lparr>futures := (futures w)[k := Some f']\<rparr>)"
proof -
  let ?w = "w\<lparr>futures := (futures w)[k := Some f']\<rparr>"
  have f': "f' = f \<or> (\<exists>e. f = FailedFut e \<and> f' = FailedFut None) \<or> (\<exists>i u. f = RxFut (Some i) u \<and> f' = RxFut None u \<and> slots w ! i \<noteq> Waiting)"
    using assms(4) by (cases "(fv, w, f)" rule: tj_poll.cases) (auto split: rx_slot.splits)
  have "g \<in> set ((futures w)[k := Some f']) \<longleftrightarrow> g = Some f' \<or> (\<exists>j < length (futures w). j \<noteq> k \<and> futures w ! j = g)" for g
    using assms(2) by (auto simp: in_set_conv_nth nth_list_update)
  moreover have "g \<in> set (futures w) \<longleftrightarrow> g = Some f \<or> (\<exists>j < length (futures w). j \<noteq> k \<and> futures w ! j = g)" for g
    using assms(2,3) by (auto simp: in_set_conv_nth)
  ultimately have *: "waiting ?w u i \<longleftrightarrow> waiting w u i"
    "Some (RxFut (Some i) u) \<in> set (futures ?w) \<Longrightarrow> Some (RxFut (Some i) u) \<in> set (futures w)" for u i
    using f' by (auto simp: waiting_def)
  show ?thesis
  proof (rule live_invI)
    show "i < length (slots ?w)" if "Some (RxFut (Some i) u) \<in> set (futures ?w)" for i u
      using live_invD(1) [OF assms(1) *(2) [OF that]] by simp
    show "storage ?w u = Some i \<longleftrightarrow> waiting ?w u i" if "thread_alive ?w" for u i
      using live_invD(2) [OF assms(1), of u i] that *(1) [of u i] by simp
  qed
qed

lemma live_drop:
  assumes "tj_inv U w" "live_inv w" "k < length (futures w)" "futures w ! k = Some f"
  shows "live_inv ((tj_drop f w)\<lparr>futures := (futures w)[k := None]\<rparr>)"
proof -
  let ?w = "(tj_drop f w)\<lparr>futures := (futures w)[k := None]\<rparr>"
  have mem: "g \<in> set (futures w) \<longleftrightarrow> g = Some f \<or> (\<exists>j < length (futures w). j \<noteq> k \<and> futures w ! j = g)" for g
    using assms(3,4) by (auto simp: in_set_conv_nth)
  have set: "g \<in> set ((futures w)[k := None]) \<longleftrightarrow> g = None \<or> (\<exists>j < length (futures w). j \<noteq> k \<and> futures w ! j = g)" for g
    using assms(3) by (auto simp: in_set_conv_nth nth_list_update)
  have other: "v \<noteq> u" if "f = RxFut x u" "j < length (futures w)" "j \<noteq> k" "futures w ! j = Some (RxFut y v)" for x u j y v
    using tj_invD(5) [OF assms(1), of k u j] that assms(3,4) by (auto simp: fut_id_eq_Some)
  have *: "waiting ?w v i \<longleftrightarrow> waiting w v i \<and> (\<forall>x u. f = RxFut x u \<longrightarrow> v \<noteq> u)"
    "storage ?w v = Some i \<longleftrightarrow> storage w v = Some i \<and> (\<forall>x u. f = RxFut x u \<longrightarrow> v \<noteq> u)" for v i
  proof -
    show "storage ?w v = Some i \<longleftrightarrow> storage w v = Some i \<and> (\<forall>x u. f = RxFut x u \<longrightarrow> v \<noteq> u)"
      by (cases f) (auto simp: tj_drop_def)
    have "slots ?w = slots w" by (cases f) (simp_all add: tj_drop_def)
    moreover have "Some (RxFut (Some i) v) \<in> set (futures ?w)
        \<longleftrightarrow> Some (RxFut (Some i) v) \<in> set (futures w) \<and> (\<forall>x u. f = RxFut x u \<longrightarrow> v \<noteq> u)"
      using other unfolding mem by (simp add: set) blast
    ultimately show "waiting ?w v i \<longleftrightarrow> waiting w v i \<and> (\<forall>x u. f = RxFut x u \<longrightarrow> v \<noteq> u)"
      unfolding waiting_def by metis
  qed
  have same: "slots ?w = slots w" "thread_alive ?w = thread_alive w" by (cases f; simp add: tj_drop_def)+
  show ?thesis
  proof (rule live_invI)
    show "i < length (slots ?w)" if "Some (RxFut (Some i) u) \<in> set (futures ?w)" for i u
      using live_invD(1) [OF assms(2), of i u] that same by (simp add: set mem)
    show "storage ?w u = Some i \<longleftrightarrow> waiting ?w u i" if "thread_alive ?w" for u i
      unfolding * using live_invD(2) [OF assms(2), of u i] that same by simp
  qed
qed

lemma live_step:
  assumes "json_laws J" "tj_inv U w" "live_inv w" "set (op_ids op) \<inter> U = {}" "tj_step J op w = Some w'"
  shows "live_inv w'"
proof (cases op)
  case (Receive p)
  then show ?thesis using live_receive [OF assms(2,3)] assms(5) by (auto split: if_splits)
next
  case (CallReq v body)
  then show ?thesis using live_call [OF assms(1-3)] assms(4,5) by (auto split: if_splits prod.splits)
next
  case (PollFut k)
  then show ?thesis using live_poll [OF assms(3)] assms(5) by (auto split: if_splits option.splits sum.splits)
next
  case (DropFut k)
  then show ?thesis using live_drop [OF assms(2,3)] assms(5) by (auto split: if_splits option.splits)
qed (use assms(5) in \<open>auto intro!: live_same [OF assms(3)] split: if_splits\<close>)

lemma live_run:
  assumes "json_laws J" "tj_inv U w" "live_inv w" "distinct (run_ids ops)" "set (run_ids ops) \<inter> U = {}"
    "tj_run J ops w = Some w'"
  shows "live_inv w'"
  using assms
proof (induction ops arbitrary: w U)
  case (Cons op ops)
  then obtain w1 where w1: "tj_step J op w = Some w1" "tj_run J ops w1 = Some w'"
    by (auto simp: bind_eq_Some_conv)
  have "live_inv w1" using live_step [OF assms(1) Cons.prems(2,3) _ w1(1)] Cons.prems(5) by auto
  moreover have "tj_inv (set (op_ids op) \<union> U) w1" using tj_inv_step [OF Cons.prems(2) _ w1(1)] Cons.prems(5) by auto
  ultimately show ?case using Cons.IH [OF assms(1) _ _ _ _ w1(2)] Cons.prems(4,5) by auto
qed simp


section \<open>Readiness\<close>

fun conn_step :: "json_lib \<Rightarrow> Uuid \<Rightarrow> tj_op \<Rightarrow> ConnState \<Rightarrow> ConnState" where
  "conn_step J ping (Receive p) st =
     (case packet_message J p of
        None \<Rightarrow> st
      | Some m \<Rightarrow>
          if is_disconnected_error m then Disconnected
          else (case m of
              ResponseMsg r \<Rightarrow> if resp_id r = ping \<and> is_ok (resp_data r) then Connected else st
            | NotificationMsg _ \<Rightarrow> st))"
| "conn_step J ping _ st = st"

definition conn_inv :: "ConnState \<Rightarrow> tj_world \<Rightarrow> bool" where
  "conn_inv st w \<longleftrightarrow> tj_state w = st \<and> (tj_version w = 0 \<longleftrightarrow> st = Connecting)
     \<and> (thread_alive w \<longleftrightarrow> st \<noteq> Disconnected \<and> (clients w \<noteq> 0 \<or> thread_alive w))"

lemma on_message_state:
  "tj_state (on_message m w) = (case m of ResponseMsg r \<Rightarrow>
       if resp_id r = ping_id w \<and> is_ok (resp_data r) then Connected else tj_state w | NotificationMsg _ \<Rightarrow> tj_state w)"
  "tj_version (on_message m w) = (case m of ResponseMsg r \<Rightarrow>
       if resp_id r = ping_id w \<and> is_ok (resp_data r) then Suc (tj_version w) else tj_version w | NotificationMsg _ \<Rightarrow> tj_version w)"
  by (cases m; auto simp: send_replace_def split: option.split)+

lemma disconnected_not_ok: "is_disconnected_error (ResponseMsg r) \<Longrightarrow> \<not> is_ok (resp_data r)"
  by (cases "resp_data r") simp_all

lemma cancelled_on_message [simp]: "cancelled (on_message m w) = cancelled w"
  unfolding cancelled_def by simp

lemma conn_receive:
  assumes "conn_inv st w" "thread_alive w"
  shows "conn_inv (conn_step J (ping_id w) (Receive p) st) (thread_step J p w)"
proof (cases "packet_message J p")
  case None
  then show ?thesis using assms by (auto simp: conn_inv_def thread_step_def cancelled_def)
next
  case (Some m)
  have "cancelled w \<Longrightarrow> clients w = 0" by (simp add: cancelled_def)
  with Some assms disconnected_not_ok show ?thesis
    by (cases m) (auto simp: conn_inv_def thread_step_def Let_def on_message_state tj_version_replace
        simp del: on_message.simps is_disconnected_error.simps)
qed

lemma tj_call_conn:
  assumes "tj_call J u body w = (f, w')"
  shows "tj_state w' = tj_state w" "tj_version w' = tj_version w" "thread_alive w' = thread_alive w"
    "clients w' = clients w" "ping_id w' = ping_id w"
  using assms by (auto simp: tj_call_def tj_send_def storage_insert_def Let_def split: sum.splits if_splits)

lemma conn_step_ok:
  assumes "conn_inv st w" "tj_step J op w = Some w'"
  shows "conn_inv (conn_step J (ping_id w) op st) w' \<and> ping_id w' = ping_id w"
proof (cases op)
  case (Receive p)
  then show ?thesis using conn_receive [OF assms(1)] assms(2) by (auto split: if_splits)
next
  case (CallReq u body)
  then show ?thesis using assms tj_call_conn [of J u body w] by (auto simp: conn_inv_def split: if_splits prod.splits)
next
  case (DropFut k)
  then show ?thesis using assms
    by (auto simp: conn_inv_def tj_drop_def split: if_splits option.splits tj_future.splits)
qed (use assms in \<open>auto simp: conn_inv_def split: if_splits option.splits sum.splits\<close>)

lemma conn_run:
  assumes "conn_inv st w" "tj_run J ops w = Some w'"
  shows "conn_inv (fold (conn_step J (ping_id w)) ops st) w'"
  using assms
proof (induction ops arbitrary: w st)
  case (Cons op ops)
  then obtain w1 where w1: "tj_step J op w = Some w1" "tj_run J ops w1 = Some w'"
    by (auto simp: bind_eq_Some_conv)
  from conn_step_ok [OF Cons.prems(1) w1(1)] Cons.IH [OF _ w1(2)] show ?case by auto
qed simp

lemma poll_ready_state:
  assumes "conn_inv st w" "clients w \<noteq> 0" "ready h \<in> {None, Some 0}"
  shows "fst (tj_poll_ready w h) = (case st of Connecting \<Rightarrow> Pending | Connected \<Rightarrow> Ready (Inr ())
      | Disconnected \<Rightarrow> Ready (Inl ''connection is closed''))"
    and "ready (snd (tj_poll_ready w h)) \<in> {None, Some 0}"
  using assms
  by (cases st; auto simp: conn_inv_def changed_def split: if_splits)+

section \<open>A library to evaluate with\<close>

text \<open>JSON texts that are not those of JSON, but have the laws: values are countable.\<close>

instance Value :: countable
  by countable_datatype

definition demo_json :: json_lib where
  "demo_json = \<lparr>json_parse = (\<lambda>s. Inr (from_nat (length s))), json_print = (\<lambda>v. replicate (to_nat v) CHR ''x''),
     uuid_parse = (\<lambda>s. Some (length s)), uuid_print = (\<lambda>u. replicate u CHR ''0'')\<rparr>"

lemma demo_json_laws: "json_laws demo_json"
  by (simp add: json_laws_def demo_json_def)

lemma packet_of_value:
  "packet_message demo_json (Inr (Some (json_print demo_json v)))
     = (case message_of_value demo_json v of Inr m \<Rightarrow> Some m | Inl _ \<Rightarrow> None)"
  by (simp add: packet_message_def demo_json_def)

text \<open>The answer to a request carries its number.\<close>

definition answer_packet :: "json_lib \<Rightarrow> Uuid \<Rightarrow> (string \<times> Value) list \<Rightarrow> anyhow + string option" where
  "answer_packet J u fs = Inr (Some (json_print J (Object ((''@extra'', String (uuid_print J u)) # fs))))"

lemma answer_packet_message:
  assumes "''@extra'' \<notin> fst ` set fs"
  shows "packet_message demo_json (answer_packet demo_json u fs)
    = (case classify_data (Object fs) of Inr d \<Rightarrow> Some (ResponseMsg \<lparr>resp_id = u, resp_data = d\<rparr>) | Inl _ \<Rightarrow> None)"
proof -
  have "filter (\<lambda>f. fst f \<noteq> ''@extra'') fs = fs" using assms by (force simp: filter_id_conv)
  moreover have "uuid_parse demo_json (uuid_print demo_json u) = Some u" by (simp add: demo_json_def)
  ultimately show ?thesis
    by (auto simp: answer_packet_def packet_of_value message_of_value_def uuid_of_value_def bindr_def
        split: sum.split)
qed

definition demo_world :: tj_world where
  "demo_world = (case tj_new demo_json ''{}'' 0 of Inr w \<Rightarrow> w)"

lemma demo_new: "tj_new demo_json ''{}'' 0 = Inr demo_world"
proof -
  have "CHR 0x00 \<notin> set (json_print demo_json v)" for v using demo_json_laws by (simp add: json_laws_def)
  then have "\<exists>w. tj_new demo_json ''{}'' 0 = Inr w"
    by (auto simp: tj_new_def encode_request_def request_value_def ping_body_def tj_send_def)
  then show ?thesis by (auto simp: demo_world_def)
qed

definition demo_answer :: "Uuid \<Rightarrow> tj_op" where
  "demo_answer u = Receive (answer_packet demo_json u [(''value'', Bool True)])"

definition demo_lost :: tj_op where
  "demo_lost = Receive (answer_packet demo_json 9 [(''@type'', String ''error''), (''code'', Number 500),
     (''message'', String ''LITE_SERVER_NETWORK'')])"

lemma demo_messages:
  "packet_message demo_json (answer_packet demo_json u [(''value'', Bool True)])
     = Some (ResponseMsg \<lparr>resp_id = u, resp_data = Inr (Object [(''value'', Bool True)])\<rparr>)"
  "packet_message demo_json (answer_packet demo_json 9 [(''@type'', String ''error''), (''code'', Number 500),
     (''message'', String ''LITE_SERVER_NETWORK'')])
     = Some (ResponseMsg \<lparr>resp_id = 9, resp_data = Inl \<lparr>code = 500, message = ''LITE_SERVER_NETWORK''\<rparr>\<rparr>)"
  by (simp_all add: answer_packet_message classify_data_def ton_error_of_value_def i32_range_def)

text \<open>Two requests, the connection is established, the second is answered, then the connection is lost.\<close>

definition demo_ops :: "tj_op list" where
  "demo_ops = [CallReq 2 (Object []), demo_answer 0, demo_answer 2]"

lemma demo_run_exists:
  "\<exists>f w2 w3. tj_call demo_json 1 (Object []) demo_world = (f, w2) \<and> f = RxFut (Some 0) 1
     \<and> tj_run demo_json (demo_ops @ [demo_answer 1]) (w2\<lparr>futures := futures w2 @ [Some f]\<rparr>) = Some w3"
proof -
  have nul: "CHR 0x00 \<notin> set (json_print demo_json v)" for v using demo_json_laws by (simp add: json_laws_def)
  show ?thesis
    using tj_new_world [OF demo_new] nul
    by (simp add: demo_ops_def demo_answer_def tj_call_def encode_request_def request_value_def tj_send_def
        storage_insert_def Let_def thread_step_def demo_messages cancelled_def send_replace_def is_disconnected_def)
qed

lemma demo_lost_run:
  "\<exists>w. tj_run demo_json [CallReq 1 (Object []), demo_answer 0, demo_lost] demo_world = Some w
     \<and> \<not> thread_alive w \<and> clients w \<noteq> 0"
proof -
  have nul: "CHR 0x00 \<notin> set (json_print demo_json v)" for v using demo_json_laws by (simp add: json_laws_def)
  show ?thesis
    using tj_new_world [OF demo_new] nul
    by (simp add: demo_answer_def demo_lost_def tj_call_def encode_request_def request_value_def tj_send_def
        storage_insert_def Let_def thread_step_def demo_messages cancelled_def send_replace_def is_disconnected_def)
qed

section \<open>Properties\<close>

text \<open>
  C22. A request and its answer find each other whatever else happens. A request that was handed to the
  library and whose future is kept is answered with the data or the error of the first packet that carries
  its number, however other calls, answers, polls and drops are interleaved; until then its future is pending.
  If the connection is reported lost before, the future stays pending for ever: nothing ends it.
\<close>

theorem request_fate:
  assumes "json_laws J" "tj_new J cfg ping = Inr w0"
    and "distinct (ping # run_ids (pre @ CallReq u (Object fs) # post))"
    and "tj_run J pre w0 = Some w1" "thread_alive w1"
    and "tj_call J u (Object fs) w1 = (f, w2)"
    and "tj_run J post (w2\<lparr>futures := futures w2 @ [Some f]\<rparr>) = Some w3"
    and "DropFut (length (futures w1)) \<notin> set post"
  shows "tj_poll from_value w3 f = Inr (case fold (fate_step J u) post InFlight of
      Answered r \<Rightarrow> (Ready (bindr (map_err ton_error_text (resp_data r)) from_value), RxFut None u)
    | _ \<Rightarrow> (Pending, f))"
proof -
  have inv: "tj_inv (set (run_ids pre) \<union> {ping}) w1"
    using tj_inv_run [OF tj_inv_new [OF assms(2)] _ _ assms(4)] assms(3) by auto
  have u: "u \<notin> set (run_ids pre) \<union> {ping}" using assms(3) by auto
  note call = call_sends [OF assms(1) inv u assms(5,6)]
  have "tj_inv (insert u (set (run_ids pre) \<union> {ping})) (w2\<lparr>futures := futures w2 @ [Some f]\<rparr>)"
    by (rule tj_inv_call [OF inv u assms(6)])
  then have "has_fate u (length (futures w1)) (length (slots w1)) (fold (fate_step J u) post InFlight) w3"
    using has_fate_run [OF _ call(3) _ _ assms(8,7)] assms(3) by auto
  from poll_fate [OF this] show ?thesis unfolding call(1) .
qed


theorem request_fate_witness:
  "\<exists>f w2 w3. tj_call demo_json 1 (Object []) demo_world = (f, w2)
     \<and> tj_run demo_json (demo_ops @ [demo_answer 1]) (w2\<lparr>futures := futures w2 @ [Some f]\<rparr>) = Some w3
     \<and> tj_poll Inr w3 f = Inr (Ready (Inr (Object [(''value'', Bool True)])), RxFut None 1)"
proof -
  obtain f w2 w3 where run: "tj_call demo_json 1 (Object []) demo_world = (f, w2)"
    "tj_run demo_json (demo_ops @ [demo_answer 1]) (w2\<lparr>futures := futures w2 @ [Some f]\<rparr>) = Some w3"
    using demo_run_exists by blast
  have "tj_poll Inr w3 f = Inr (Ready (Inr (Object [(''value'', Bool True)])), RxFut None 1)"
    using request_fate [OF demo_json_laws demo_new, of "[]" 1 "[]" "demo_ops @ [demo_answer 1]" demo_world f w2 w3 Inr] run
    by (simp add: tj_new_world [OF demo_new] demo_ops_def demo_answer_def demo_messages is_disconnected_def)
  with run show ?thesis by blast
qed

text \<open>
  The storage that the clones share holds exactly the requests that wait: as long as the thread runs,
  a number is in it if and only if the future with that number is alive and not answered, so that a dropped
  or answered request leaves nothing behind. Once the thread has ended a call fails with \<open>client closed\<close>, but
  its number has been stored and stays.
\<close>

lemma storage_holds_waiting:
  assumes "json_laws J" "tj_new J cfg ping = Inr w0" "distinct (ping # run_ids ops)" "tj_run J ops w0 = Some w"
  shows "if thread_alive w then \<forall>u i. storage w u = Some i \<longleftrightarrow> waiting w u i
    else \<forall>u fs. u \<notin> set (ping # run_ids ops) \<longrightarrow>
      fst (tj_call J u (Object fs) w) = FailedFut (Some ''client closed'')
      \<and> storage (snd (tj_call J u (Object fs) w)) u \<noteq> None"
proof (cases "thread_alive w")
  case True
  have "live_inv w0" by (rule live_invI) (simp_all add: tj_new_world [OF assms(2)] waiting_def)
  then have "live_inv w" using live_run [OF assms(1) tj_inv_new [OF assms(2)] _ _ _ assms(4)] assms(3) by auto
  from live_invD(2) [OF this True] True show ?thesis by simp
next
  case False
  then show ?thesis
    by (auto simp: tj_call_def encode_request_def request_value_def tj_send_def storage_insert_def Let_def)
qed

text \<open>
  Every handle sees the state of the connection, whether it is fresh, a clone or was polled before: it is
  pending until the ping is answered with a result, then ready, and it reports an error from the packet on that
  says the connection is lost. An answer to the ping with any other error leaves it pending.
\<close>

lemma readiness_follows_connection:
  assumes "tj_new J cfg ping = Inr w0" "tj_run J ops w0 = Some w" "clients w \<noteq> 0" "ready h \<in> {None, Some 0}"
  shows "fst (tj_poll_ready w h) = (case fold (conn_step J ping) ops Connecting of
        Connecting \<Rightarrow> Pending | Connected \<Rightarrow> Ready (Inr ()) | Disconnected \<Rightarrow> Ready (Inl ''connection is closed''))
    \<and> ready (snd (tj_poll_ready w h)) \<in> {None, Some 0}"
proof -
  have "conn_inv Connecting w0" by (simp add: conn_inv_def tj_new_world [OF assms(1)])
  from conn_run [OF this assms(2)] have "conn_inv (fold (conn_step J ping) ops Connecting) w"
    by (simp add: tj_new_world [OF assms(1)])
  from poll_ready_state [OF this assms(3,4)] show ?thesis by blast
qed


end
