(* ===== verification/Tonlibjson_Adapter.thy ===== *)
theory Tonlibjson_Adapter
  imports Tonlibjson_Client Account_Range
begin

text \<open>
  The adapter over the C++ library (\<open>tonlibjson-client/src/adapter\<close>: \<open>mod.rs\<close>, \<open>convert.rs\<close>) and
  the hand-written part of \<open>tl.rs\<close>. The structs are generated from the schema \<open>tonlib_api.tl\<close>, which is
  a submodule: the records have the fields that \<open>convert.rs\<close> and \<open>tl.rs\<close> use. What the library answers
  to a request is a field of \<open>tl_api\<close>; the codecs of other crates and their texts are those of \<open>tonlib_lib\<close>.
\<close>

section \<open>Structs of the schema\<close>

record TonBlockId =
  t_workchain :: i32
  t_shard :: i64
  t_seqno :: i32

record TonBlockIdExt = TonBlockId +
  t_root_hash :: string
  t_file_hash :: string

record InternalTransactionId =
  it_hash :: string
  it_lt :: i64

record AccountAddress =
  account_address :: "string option"

record BlocksMasterchainInfo =
  bm_last :: TonBlockIdExt
  bm_state_root_hash :: string
  bm_init :: TonBlockIdExt

record BlocksShards =
  bs_shards :: "TonBlockIdExt list"

record BlocksHeader =
  bh_block_id :: TonBlockIdExt
  bh_global_id :: i32
  bh_version :: i32
  bh_flags :: i32
  bh_after_merge :: bool
  bh_after_split :: bool
  bh_before_split :: bool
  bh_want_merge :: bool
  bh_want_split :: bool
  bh_validator_list_hash_short :: i32
  bh_catchain_seqno :: i32
  bh_min_ref_mc_seqno :: i32
  bh_is_key_block :: bool
  bh_prev_key_block_seqno :: i32
  bh_start_lt :: i64
  bh_end_lt :: i64
  bh_gen_utime :: i64
  bh_vert_seqno :: i32
  bh_prev_blocks :: "TonBlockIdExt list"

record BlocksAccountTransactionId =
  at_account :: string
  at_lt :: i64

record BlocksShortTxId =
  st_account :: string
  st_lt :: i64
  st_hash :: string

record BlocksTransactions =
  bt_block_id :: TonBlockIdExt
  bt_is_incomplete :: bool
  bt_transactions :: "BlocksShortTxId list"

datatype MsgBoxedData =
    MsgDataRaw string string
  | MsgDataText string
  | MsgDataDecryptedText string
  | MsgDataEncryptedText string

record RawMessage =
  rm_hash :: string
  rm_source :: AccountAddress
  rm_destination :: AccountAddress
  rm_value :: i64
  rm_fwd_fee :: i64
  rm_ihr_fee :: i64
  rm_created_lt :: i64
  rm_body_hash :: string
  rm_msg_data :: MsgBoxedData

record RawTransaction =
  rt_address :: AccountAddress
  rt_utime :: i64
  rt_data :: string
  rt_transaction_id :: InternalTransactionId
  rt_fee :: i64
  rt_storage_fee :: i64
  rt_other_fee :: i64
  rt_in_msg :: "RawMessage option"
  rt_out_msgs :: "RawMessage list"

record RawTransactions =
  rts_transactions :: "RawTransaction list"
  rts_previous_transaction_id :: "InternalTransactionId option"

record BlocksTransactionsExt =
  bx_incomplete :: bool
  bx_transactions :: "RawTransaction list"

record RawFullAccountState =
  rf_balance :: "i64 option"
  rf_code :: string
  rf_data :: string
  rf_frozen_hash :: string
  rf_last_transaction_id :: "InternalTransactionId option"
  rf_block_id :: TonBlockIdExt
  rf_sync_utime :: i64

datatype TvmBoxedStackEntry =
    TvmStackEntrySlice string
  | TvmStackEntryCell string
  | TvmStackEntryNumber string
  | TvmStackEntryTuple "TvmBoxedStackEntry list"
  | TvmStackEntryList "TvmBoxedStackEntry list"
  | TvmStackEntryUnsupported

record TlSmcRunResult =
  sr_gas_used :: i64
  sr_stack :: "TvmBoxedStackEntry list"
  sr_exit_code :: i32

datatype SmcBoxedMethodId = SmcMethodIdNumber i32 | SmcMethodIdName string

record BlocksLookupBlock =
  lk_mode :: i32
  lk_id :: TonBlockId
  lk_lt :: i64
  lk_utime :: i32

text \<open>\<open>blocks.getTransactions\<close> and \<open>blocks.getTransactionsExt\<close> have the same fields.\<close>

record BlocksGetTransactions =
  gt_block_id :: TonBlockIdExt
  gt_mode :: i32
  gt_count :: i32
  gt_after :: BlocksAccountTransactionId

record RawGetTransactionsV2 =
  v2_account_address :: AccountAddress
  v2_from :: InternalTransactionId
  v2_count :: i32
  v2_try_decode_messages :: bool

section \<open>The methods of the structs\<close>

record tonlib_lib =
  tl_addr :: addr_codecs
  tl_b64_encode :: "bytes \<Rightarrow> string"
  tl_b64_decode :: "string \<Rightarrow> bytes option"
  tl_address_error :: "address_error \<Rightarrow> string"
  tl_id_debug :: "InternalTransactionId \<Rightarrow> string"

definition ton_block_id_of :: "TonBlockIdExt \<Rightarrow> TonBlockId" where
  "ton_block_id_of block = \<lparr>t_workchain = t_workchain block, t_shard = t_shard block, t_seqno = t_seqno block\<rparr>"

definition ton_block_id_of_header :: "BlocksHeader \<Rightarrow> TonBlockId" where
  "ton_block_id_of_header header = \<lparr>t_workchain = t_workchain (bh_block_id header),
     t_shard = t_shard (bh_block_id header), t_seqno = t_seqno (bh_block_id header)\<rparr>"

definition internal_transaction_id_default :: InternalTransactionId where
  "internal_transaction_id_default = \<lparr>it_hash = ''AAAAAAAAAAAAAAAAAAAAAAAAAAAAAAAAAAAAAAAAAAA='', it_lt = 0\<rparr>"

definition account_transaction_id_default :: BlocksAccountTransactionId where
  "account_transaction_id_default = \<lparr>at_account = ''AAAAAAAAAAAAAAAAAAAAAAAAAAAAAAAAAAAAAAAAAAA='', at_lt = 0\<rparr>"

definition account_transaction_id_of_short :: "BlocksShortTxId \<Rightarrow> BlocksAccountTransactionId" where
  "account_transaction_id_of_short v = \<lparr>at_account = st_account v, at_lt = st_lt v\<rparr>"

definition account_address_new :: "tonlib_lib \<Rightarrow> SmartContractAddress \<Rightarrow> AccountAddress" where
  "account_address_new T a = \<lparr>account_address = Some (to_string (tl_addr T) (to_raw a))\<rparr>"

definition address_to_data :: "tonlib_lib \<Rightarrow> AccountAddress \<Rightarrow> SmartContractAddress option" where
  "address_to_data T v = Option.bind (account_address v) (\<lambda>a. case from_str (tl_addr T) a of Inr d \<Rightarrow> Some d | Inl _ \<Rightarrow> None)"

definition address_chain_id :: "tonlib_lib \<Rightarrow> AccountAddress \<Rightarrow> i32" where
  "address_chain_id T v = (case address_to_data T v of Some d \<Rightarrow> workchain_id d | None \<Rightarrow> - 1)"

definition lookup_seqno :: "TonBlockId \<Rightarrow> BlocksLookupBlock" where
  "lookup_seqno i = \<lparr>lk_mode = 1, lk_id = i, lk_lt = 0, lk_utime = 0\<rparr>"

definition lookup_logical_time :: "TonBlockId \<Rightarrow> i64 \<Rightarrow> BlocksLookupBlock" where
  "lookup_logical_time i lt = \<lparr>lk_mode = 2, lk_id = i, lk_lt = lt, lk_utime = 0\<rparr>"

definition get_transactions_unverified ::
  "TonBlockIdExt \<Rightarrow> BlocksAccountTransactionId option \<Rightarrow> bool \<Rightarrow> i32 \<Rightarrow> BlocksGetTransactions" where
  "get_transactions_unverified block aft reverse cnt =
     \<lparr>gt_block_id = block,
      gt_mode = 1 + 2 + 4 + (if aft \<noteq> None then 128 else 0) + (if reverse then 64 else 0),
      gt_count = (if cnt > 256 then 256 else cnt),
      gt_after = (case aft of Some a \<Rightarrow> a | None \<Rightarrow> account_transaction_id_default)\<rparr>"

definition get_transactions_verified ::
  "TonBlockIdExt \<Rightarrow> BlocksAccountTransactionId option \<Rightarrow> bool \<Rightarrow> i32 \<Rightarrow> BlocksGetTransactions" where
  "get_transactions_verified block aft reverse cnt =
     \<lparr>gt_block_id = block,
      gt_mode = 32 + 1 + 2 + 4 + (if aft \<noteq> None then 128 else 0) + (if reverse then 64 else 0),
      gt_count = (if cnt > 256 then 256 else cnt),
      gt_after = (case aft of Some a \<Rightarrow> a | None \<Rightarrow> account_transaction_id_default)\<rparr>"

section \<open>Fields that are read and written in their own way\<close>

text \<open>\<open>ok\<close> and \<open>parse\<close> are the range and the \<open>FromStr\<close> of the number type.\<close>

definition deserialize_number_from_string :: "(int \<Rightarrow> bool) \<Rightarrow> (string \<Rightarrow> anyhow + int) \<Rightarrow> Value \<Rightarrow> anyhow + int" where
  "deserialize_number_from_string ok parse v =
     (case v of
        String s \<Rightarrow> parse s
      | Number n \<Rightarrow> if ok n then Inr n else Inl ''data did not match any variant''
      | _ \<Rightarrow> Inl ''data did not match any variant'')"

definition deserialize_default_as_none :: "'t \<Rightarrow> (Value \<Rightarrow> anyhow + 't) \<Rightarrow> Value \<Rightarrow> anyhow + 't option" where
  "deserialize_default_as_none dflt read v = map_ok (\<lambda>x. if x = dflt then None else Some x) (read v)"

definition deserialize_empty_as_none :: "(string \<Rightarrow> anyhow + 't) \<Rightarrow> Value \<Rightarrow> anyhow + 't option" where
  "deserialize_empty_as_none parse v =
     (case v of
        String s \<Rightarrow> if s = [] then Inr None else map_ok Some (parse s)
      | _ \<Rightarrow> Inl ''invalid type'')"

definition deserialize_ton_account_balance :: "(string \<Rightarrow> anyhow + int) \<Rightarrow> Value \<Rightarrow> anyhow + i64 option" where
  "deserialize_ton_account_balance parse v =
     map_ok (\<lambda>x. if x = - 1 then None else Some x) (deserialize_number_from_string i64_range parse v)"

definition serialize_none_as_empty :: "('t \<Rightarrow> Value) \<Rightarrow> 't option \<Rightarrow> Value" where
  "serialize_none_as_empty write v = (case v of None \<Rightarrow> String '''' | Some x \<Rightarrow> write x)"

lemma account_address_text:
  "deserialize_empty_as_none Inr (serialize_none_as_empty String a) = Inr (if a = Some '''' then None else a)"
  by (cases a) (simp_all add: deserialize_empty_as_none_def serialize_none_as_empty_def map_ok_def)

section \<open>Conversions\<close>

definition block_id_from :: "TonBlockIdExt \<Rightarrow> BlockIdExt" where
  "block_id_from v = \<lparr>workchain = t_workchain v, shard = t_shard v, seqno = t_seqno v,
     root_hash = t_root_hash v, file_hash = t_file_hash v\<rparr>"

definition block_id_into :: "BlockIdExt \<Rightarrow> TonBlockIdExt" where
  "block_id_into v = \<lparr>t_workchain = workchain v, t_shard = shard v, t_seqno = seqno v,
     t_root_hash = root_hash v, t_file_hash = file_hash v\<rparr>"

definition tx_id_from :: "InternalTransactionId \<Rightarrow> TransactionId" where
  "tx_id_from v = \<lparr>tx_lt = it_lt v, tx_hash = it_hash v\<rparr>"

definition tx_id_into :: "TransactionId \<Rightarrow> InternalTransactionId" where
  "tx_id_into v = \<lparr>it_hash = tx_hash v, it_lt = tx_lt v\<rparr>"

definition tonlib_info_from :: "BlocksMasterchainInfo \<Rightarrow> MasterchainInfo" where
  "tonlib_info_from v = \<lparr>mc_last = block_id_from (bm_last v), mc_state_root_hash = bm_state_root_hash v,
     mc_init = block_id_from (bm_init v)\<rparr>"

definition shards_from :: "BlocksShards \<Rightarrow> Shards" where
  "shards_from v = \<lparr>shards_list = map block_id_from (bs_shards v)\<rparr>"

definition block_header_from :: "BlocksHeader \<Rightarrow> BlockHeader" where
  "block_header_from v = \<lparr>header_id = block_id_from (bh_block_id v), global_id = bh_global_id v,
     header_version = bh_version v, header_flags = bh_flags v, after_merge = bh_after_merge v,
     after_split = bh_after_split v, before_split = bh_before_split v, want_merge = bh_want_merge v,
     want_split = bh_want_split v, validator_list_hash_short = bh_validator_list_hash_short v,
     catchain_seqno = bh_catchain_seqno v, min_ref_mc_seqno = bh_min_ref_mc_seqno v,
     is_key_block = bh_is_key_block v, prev_key_block_seqno = bh_prev_key_block_seqno v,
     start_lt = bh_start_lt v, end_lt = bh_end_lt v, gen_utime = bh_gen_utime v, vert_seqno = bh_vert_seqno v,
     prev_blocks = map block_id_from (bh_prev_blocks v)\<rparr>"

definition account_transaction_id_from :: "tonlib_lib \<Rightarrow> ShortTxId \<Rightarrow> BlocksAccountTransactionId" where
  "account_transaction_id_from T v = \<lparr>at_account = tl_b64_encode T (to_internal (short_account v)), at_lt = short_lt v\<rparr>"

definition short_tx_id_from :: "tonlib_lib \<Rightarrow> i32 \<Rightarrow> BlocksShortTxId \<Rightarrow> anyhow + ShortTxId" where
  "short_tx_id_from T wc tx =
     bindr (ok_or (''invalid base64 address: '' @ st_account tx) (tl_b64_decode T (st_account tx))) (\<lambda>bs.
       if length bs \<noteq> 32 then Inl (''invalid address: '' @ st_account tx)
       else Inr \<lparr>short_account = raw wc bs, short_lt = st_lt tx, short_hash = st_hash tx\<rparr>)"

definition block_transactions_from :: "tonlib_lib \<Rightarrow> BlocksTransactions \<Rightarrow> anyhow + BlockTransactions" where
  "block_transactions_from T v =
     map_ok (\<lambda>txs. \<lparr>ids_incomplete = bt_is_incomplete v, ids_transactions = txs\<rparr>)
       (try_map (short_tx_id_from T (t_workchain (bt_block_id v))) (bt_transactions v))"

fun message_data_from :: "MsgBoxedData \<Rightarrow> MessageData" where
  "message_data_from (MsgDataRaw body init_state) = RawData body init_state"
| "message_data_from (MsgDataText t) = TextData t"
| "message_data_from (MsgDataDecryptedText t) = DecryptedText t"
| "message_data_from (MsgDataEncryptedText t) = EncryptedText t"

definition parse_address :: "tonlib_lib \<Rightarrow> string \<Rightarrow> anyhow + SmartContractAddress" where
  "parse_address T s = map_err (tl_address_error T) (from_str (tl_addr T) s)"

definition parse_address_opt :: "tonlib_lib \<Rightarrow> AccountAddress \<Rightarrow> anyhow + SmartContractAddress option" where
  "parse_address_opt T a = (case account_address a of None \<Rightarrow> Inr None | Some s \<Rightarrow> map_ok Some (parse_address T s))"

definition message_from :: "tonlib_lib \<Rightarrow> RawMessage \<Rightarrow> anyhow + Message" where
  "message_from T v =
     bindr (parse_address_opt T (rm_source v)) (\<lambda>source.
     bindr (parse_address_opt T (rm_destination v)) (\<lambda>destination.
       Inr \<lparr>msg_hash = rm_hash v, msg_source = source, msg_destination = destination, msg_value = rm_value v,
         fwd_fee = rm_fwd_fee v, ihr_fee = rm_ihr_fee v, created_lt = rm_created_lt v, body_hash = rm_body_hash v,
         msg_data = message_data_from (rm_msg_data v)\<rparr>))"

definition transaction_from :: "tonlib_lib \<Rightarrow> RawTransaction \<Rightarrow> anyhow + Transaction" where
  "transaction_from T v =
     bindr (ok_or (''transaction address is not set, transaction id: '' @ tl_id_debug T (rt_transaction_id v))
       (account_address (rt_address v))) (\<lambda>address.
     bindr (parse_address T address) (\<lambda>a.
     bindr (case rt_in_msg v of None \<Rightarrow> Inr None | Some m \<Rightarrow> map_ok Some (message_from T m)) (\<lambda>im.
     bindr (try_map (message_from T) (rt_out_msgs v)) (\<lambda>oms.
       Inr \<lparr>tx_address = a, tx_utime = rt_utime v, tx_data = rt_data v, transaction_id = tx_id_from (rt_transaction_id v),
         tx_fee = rt_fee v, storage_fee = rt_storage_fee v, other_fee = rt_other_fee v, in_msg = im, out_msgs = oms\<rparr>))))"

definition transactions_from :: "tonlib_lib \<Rightarrow> RawTransactions \<Rightarrow> anyhow + Transactions" where
  "transactions_from T v =
     map_ok (\<lambda>txs. \<lparr>account_transactions = txs,
         previous_transaction_id = map_option tx_id_from (rts_previous_transaction_id v)\<rparr>)
       (try_map (transaction_from T) (rts_transactions v))"

definition block_transactions_ext_from :: "tonlib_lib \<Rightarrow> BlocksTransactionsExt \<Rightarrow> anyhow + BlockTransactionsExt" where
  "block_transactions_ext_from T v =
     map_ok (\<lambda>txs. \<lparr>ext_incomplete = bx_incomplete v, ext_transactions = txs\<rparr>)
       (try_map (transaction_from T) (bx_transactions v))"

definition account_state_of_raw :: "RawFullAccountState \<Rightarrow> AccountState" where
  "account_state_of_raw v = \<lparr>balance = rf_balance v, account_code = rf_code v, account_data = rf_data v,
     frozen_hash = rf_frozen_hash v, last_transaction_id = map_option tx_id_from (rf_last_transaction_id v),
     account_block_id = block_id_from (rf_block_id v), sync_utime = rf_sync_utime v\<rparr>"

fun stack_entry_from :: "TvmBoxedStackEntry \<Rightarrow> StackEntry" where
  "stack_entry_from (TvmStackEntrySlice bs) = StackSlice bs"
| "stack_entry_from (TvmStackEntryCell bs) = StackCell bs"
| "stack_entry_from (TvmStackEntryNumber n) = StackNumber n"
| "stack_entry_from (TvmStackEntryTuple es) = StackTuple (map stack_entry_from es)"
| "stack_entry_from (TvmStackEntryList es) = StackList (map stack_entry_from es)"
| "stack_entry_from TvmStackEntryUnsupported = StackUnsupported"

fun stack_entry_into :: "StackEntry \<Rightarrow> TvmBoxedStackEntry" where
  "stack_entry_into (StackSlice bs) = TvmStackEntrySlice bs"
| "stack_entry_into (StackCell bs) = TvmStackEntryCell bs"
| "stack_entry_into (StackNumber n) = TvmStackEntryNumber n"
| "stack_entry_into (StackTuple es) = TvmStackEntryTuple (map stack_entry_into es)"
| "stack_entry_into (StackList es) = TvmStackEntryList (map stack_entry_into es)"
| "stack_entry_into StackUnsupported = TvmStackEntryUnsupported"

definition smc_run_result_from :: "TlSmcRunResult \<Rightarrow> SmcRunResult" where
  "smc_run_result_from v = \<lparr>gas_used = sr_gas_used v, exit_code = sr_exit_code v,
     smc_stack = map stack_entry_from (sr_stack v)\<rparr>"

section \<open>The adapter\<close>

text \<open>
  The answers of the library to the requests of the schema; \<open>withBlock\<close> around a request has the block as
  an optional argument.
\<close>

record 's tl_api =
  tl_get_masterchain_info :: "('s, BlocksMasterchainInfo) io"
  tl_lookup_block :: "BlocksLookupBlock \<Rightarrow> ('s, TonBlockIdExt) io"
  tl_get_shards :: "TonBlockIdExt \<Rightarrow> ('s, BlocksShards) io"
  tl_get_block_header :: "TonBlockIdExt \<Rightarrow> ('s, BlocksHeader) io"
  tl_get_transactions :: "BlocksGetTransactions \<Rightarrow> ('s, BlocksTransactions) io"
  tl_get_transactions_ext :: "BlocksGetTransactions \<Rightarrow> ('s, BlocksTransactionsExt) io"
  tl_sync :: "('s, TonBlockIdExt) io"
  tl_raw_send_message :: "string \<Rightarrow> ('s, unit) io"
  tl_raw_send_message_return_hash :: "string \<Rightarrow> ('s, string) io"
  tl_raw_get_account_state :: "TonBlockIdExt option \<Rightarrow> AccountAddress \<Rightarrow> ('s, RawFullAccountState) io"
  tl_raw_get_account_state_by_transaction ::
    "AccountAddress \<Rightarrow> InternalTransactionId \<Rightarrow> ('s, RawFullAccountState) io"
  tl_raw_get_transactions_v2 :: "RawGetTransactionsV2 \<Rightarrow> ('s, RawTransactions) io"
  tl_get_shard_account_cell :: "TonBlockIdExt option \<Rightarrow> AccountAddress \<Rightarrow> ('s, string) io"
  tl_get_shard_account_cell_by_transaction :: "AccountAddress \<Rightarrow> InternalTransactionId \<Rightarrow> ('s, string) io"
  tl_smc_load :: "AccountAddress \<Rightarrow> ('s, i64) io"
  tl_smc_run_get_method :: "i64 \<Rightarrow> SmcBoxedMethodId \<Rightarrow> TvmBoxedStackEntry list \<Rightarrow> ('s, TlSmcRunResult) io"

definition tonlib_get_masterchain_info :: "'s tl_api \<Rightarrow> ('s, MasterchainInfo) io" where
  "tonlib_get_masterchain_info api =
     map_io tonlib_info_from (tl_get_masterchain_info api)"

definition tonlib_get_block_header :: "'s tl_api \<Rightarrow> BlockIdExt \<Rightarrow> ('s, BlockHeader) io" where
  "tonlib_get_block_header api b =
     map_io block_header_from (tl_get_block_header api (block_id_into b))"

definition tonlib_sync :: "'s tl_api \<Rightarrow> ('s, BlockIdExt) io" where
  "tonlib_sync api =
     map_io block_id_from (tl_sync api)"

definition tonlib_send_message :: "'s tl_api \<Rightarrow> string \<Rightarrow> ('s, unit) io" where
  "tonlib_send_message api body =
     map_io (\<lambda>_. ()) (tl_raw_send_message api body)"

definition tonlib_send_message_returning_hash :: "'s tl_api \<Rightarrow> string \<Rightarrow> ('s, string) io" where
  "tonlib_send_message_returning_hash api body =
     tl_raw_send_message_return_hash api body"

definition tonlib_get_account_state :: "tonlib_lib \<Rightarrow> 's tl_api \<Rightarrow> SmartContractAddress \<Rightarrow> ('s, AccountState) io" where
  "tonlib_get_account_state T api a =
     map_io account_state_of_raw (tl_raw_get_account_state api None (account_address_new T a))"

definition tonlib_get_account_state_on_block :: "tonlib_lib \<Rightarrow> 's tl_api \<Rightarrow> SmartContractAddress \<Rightarrow> BlockIdExt \<Rightarrow> ('s, AccountState) io" where
  "tonlib_get_account_state_on_block T api a b =
     map_io account_state_of_raw (tl_raw_get_account_state api (Some (block_id_into b)) (account_address_new T a))"

definition tonlib_get_account_state_by_transaction :: "tonlib_lib \<Rightarrow> 's tl_api \<Rightarrow> SmartContractAddress \<Rightarrow> TransactionId \<Rightarrow> ('s, AccountState) io" where
  "tonlib_get_account_state_by_transaction T api a t =
     map_io account_state_of_raw
       (tl_raw_get_account_state_by_transaction api (account_address_new T a) (tx_id_into t))"

definition tonlib_get_shard_account_cell :: "tonlib_lib \<Rightarrow> 's tl_api \<Rightarrow> SmartContractAddress \<Rightarrow> ('s, Cell) io" where
  "tonlib_get_shard_account_cell T api a =
     tl_get_shard_account_cell api None (account_address_new T a)"

definition tonlib_get_shard_account_cell_on_block :: "tonlib_lib \<Rightarrow> 's tl_api \<Rightarrow> SmartContractAddress \<Rightarrow> BlockIdExt \<Rightarrow> ('s, Cell) io" where
  "tonlib_get_shard_account_cell_on_block T api a b =
     tl_get_shard_account_cell api (Some (block_id_into b)) (account_address_new T a)"

definition tonlib_get_shard_account_cell_by_transaction :: "tonlib_lib \<Rightarrow> 's tl_api \<Rightarrow> SmartContractAddress \<Rightarrow> TransactionId \<Rightarrow> ('s, Cell) io" where
  "tonlib_get_shard_account_cell_by_transaction T api a t =
     tl_get_shard_account_cell_by_transaction api (account_address_new T a) (tx_id_into t)"

definition tonlib_look_up_block_by_seqno :: "'s tl_api \<Rightarrow> i32 \<Rightarrow> i64 \<Rightarrow> i32 \<Rightarrow> ('s, BlockIdExt) io" where
  "tonlib_look_up_block_by_seqno api chain sh n =
     (if n \<le> 0 then err_io ''seqno must be greater than 0''
      else map_io block_id_from (tl_lookup_block api
        (lookup_seqno \<lparr>t_workchain = chain, t_shard = sh, t_seqno = n\<rparr>)))"

definition tonlib_look_up_block_by_lt :: "'s tl_api \<Rightarrow> i32 \<Rightarrow> i64 \<Rightarrow> i64 \<Rightarrow> ('s, BlockIdExt) io" where
  "tonlib_look_up_block_by_lt api chain sh lt =
     (if lt \<le> 0 then err_io ''lt must be greater than 0''
      else map_io block_id_from (tl_lookup_block api
        (lookup_logical_time \<lparr>t_workchain = chain, t_shard = sh, t_seqno = 0\<rparr> lt)))"

definition tonlib_get_shards :: "'s tl_api \<Rightarrow> BlockIdExt \<Rightarrow> ('s, BlockIdExt list) io" where
  "tonlib_get_shards api b =
     (if workchain b \<noteq> - 1 then err_io ''workchain must be -1''
      else map_io (\<lambda>r. map block_id_from (bs_shards r)) (tl_get_shards api (block_id_into b)))"

definition tonlib_get_transaction_ids ::
  "tonlib_lib \<Rightarrow> 's tl_api \<Rightarrow> BlockIdExt \<Rightarrow> ShortTxId option \<Rightarrow> bool \<Rightarrow> i32 \<Rightarrow> ('s, BlockTransactions) io" where
  "tonlib_get_transaction_ids T api b aft reverse cnt =
     bind_io (tl_get_transactions api (get_transactions_unverified (block_id_into b)
       (map_option (account_transaction_id_from T) aft) reverse cnt)) (\<lambda>r. lift_io (block_transactions_from T r))"

definition tonlib_get_transactions ::
  "tonlib_lib \<Rightarrow> 's tl_api \<Rightarrow> BlockIdExt \<Rightarrow> ShortTxId option \<Rightarrow> bool \<Rightarrow> i32 \<Rightarrow> ('s, BlockTransactionsExt) io" where
  "tonlib_get_transactions T api b aft reverse cnt =
     bind_io (tl_get_transactions_ext api (get_transactions_unverified (block_id_into b)
       (map_option (account_transaction_id_from T) aft) reverse cnt)) (\<lambda>r. lift_io (block_transactions_ext_from T r))"

definition tonlib_get_account_transactions ::
  "tonlib_lib \<Rightarrow> 's tl_api \<Rightarrow> SmartContractAddress \<Rightarrow> TransactionId \<Rightarrow> ('s, Transactions) io" where
  "tonlib_get_account_transactions T api a t =
     bind_io (tl_raw_get_transactions_v2 api \<lparr>v2_account_address = account_address_new T a, v2_from = tx_id_into t,
       v2_count = 16, v2_try_decode_messages = False\<rparr>) (\<lambda>r. lift_io (transactions_from T r))"

definition tonlib_run_get_method ::
  "tonlib_lib \<Rightarrow> 's tl_api \<Rightarrow> SmartContractAddress \<Rightarrow> string \<Rightarrow> StackEntry list \<Rightarrow> ('s, SmcRunResult) io" where
  "tonlib_run_get_method T api a m stack =
     bind_io (tl_smc_load api (account_address_new T a)) (\<lambda>i.
       map_io smc_run_result_from (tl_smc_run_get_method api i (SmcMethodIdName m) (map stack_entry_into stack)))"

definition tonlib_adapter :: "tonlib_lib \<Rightarrow> 's tl_api \<Rightarrow> 's handlers" where
  "tonlib_adapter T api = \<lparr>
     on_get_masterchain_info = tonlib_get_masterchain_info api,
     on_look_up_block_by_seqno = tonlib_look_up_block_by_seqno api,
     on_look_up_block_by_lt = tonlib_look_up_block_by_lt api,
     on_get_shards = tonlib_get_shards api,
     on_get_block_header = tonlib_get_block_header api,
     on_get_transaction_ids = tonlib_get_transaction_ids T api,
     on_get_transactions = tonlib_get_transactions T api,
     on_sync = tonlib_sync api,
     on_send_message = tonlib_send_message api,
     on_send_message_returning_hash = tonlib_send_message_returning_hash api,
     on_get_account_state = tonlib_get_account_state T api,
     on_get_account_state_on_block = tonlib_get_account_state_on_block T api,
     on_get_account_state_by_transaction = tonlib_get_account_state_by_transaction T api,
     on_get_account_transactions = tonlib_get_account_transactions T api,
     on_get_shard_account_cell = tonlib_get_shard_account_cell T api,
     on_get_shard_account_cell_on_block = tonlib_get_shard_account_cell_on_block T api,
     on_get_shard_account_cell_by_transaction = tonlib_get_shard_account_cell_by_transaction T api,
     on_run_get_method = tonlib_run_get_method T api\<rparr>"

section \<open>Conversions both ways\<close>

lemma tonlib_block_id_roundtrip [simp]: "block_id_from (block_id_into b) = b" "block_id_into (block_id_from v) = v"
  by (simp_all add: block_id_from_def block_id_into_def)

lemma tx_id_roundtrip [simp]: "tx_id_from (tx_id_into t) = t" "tx_id_into (tx_id_from v) = v"
  by (simp_all add: tx_id_from_def tx_id_into_def)

lemma stack_entry_roundtrip: "stack_entry_from (stack_entry_into e) = e" "stack_entry_into (stack_entry_from v) = v"
proof -
  show "stack_entry_from (stack_entry_into e) = e"
    by (induction e rule: stack_entry_into.induct) (simp_all add: map_idI)
  show "stack_entry_into (stack_entry_from v) = v"
    by (induction v rule: stack_entry_from.induct) (simp_all add: map_idI)
qed

text \<open>Requests that the library cannot answer are refused before it is asked.\<close>

lemma tonlib_guards:
  "n \<le> 0 \<Longrightarrow> on_look_up_block_by_seqno (tonlib_adapter T api) wc sh n = err_io ''seqno must be greater than 0''"
  "lt \<le> 0 \<Longrightarrow> on_look_up_block_by_lt (tonlib_adapter T api) wc sh lt = err_io ''lt must be greater than 0''"
  "workchain b \<noteq> - 1 \<Longrightarrow> on_get_shards (tonlib_adapter T api) b = err_io ''workchain must be -1''"
  by (simp_all add: tonlib_adapter_def tonlib_look_up_block_by_seqno_def tonlib_look_up_block_by_lt_def tonlib_get_shards_def)

section \<open>The history of an account\<close>

text \<open>
  The library serves the history of an account, newest transaction first: from a transaction on it returns that
  one and at most 15 before it, with the id of the next one if there is any.
\<close>

definition tl_serves_history :: "tonlib_lib \<Rightarrow> 's tl_api \<Rightarrow> SmartContractAddress \<Rightarrow> RawTransaction list \<Rightarrow> bool" where
  "tl_serves_history T api a raws \<longleftrightarrow>
     distinct (map rt_transaction_id raws) \<and>
     (\<forall>s. \<exists>st s'. tl_raw_get_account_state api None (account_address_new T a) s = (Inr st, s')
        \<and> rf_last_transaction_id st = (if raws = [] then None else Some (rt_transaction_id (hd raws)))) \<and>
     (\<forall>i < length raws. \<forall>s. \<exists>m s'. 0 < m \<and> m \<le> 16 \<and>
        tl_raw_get_transactions_v2 api \<lparr>v2_account_address = account_address_new T a,
          v2_from = rt_transaction_id (raws ! i), v2_count = 16, v2_try_decode_messages = False\<rparr> s
        = (Inr \<lparr>rts_transactions = take m (drop i raws), rts_previous_transaction_id =
            (if i + m < length raws then Some (rt_transaction_id (raws ! (i + m))) else None)\<rparr>, s'))"

lemma transaction_from_id: "transaction_from T v = Inr tx \<Longrightarrow> transaction_id tx = tx_id_from (rt_transaction_id v)"
  by (auto simp: transaction_from_def bindr_eq_Inr)

lemma tx_id_from_inj: "inj tx_id_from"
  by (metis injI tx_id_roundtrip(2))

lemma tonlib_serves_account:
  assumes "tl_serves_history T api a raws" "try_map (transaction_from T) raws = Inr hist"
  shows "serves_account (tonlib_adapter T api) a hist"
proof -
  have all2: "list_all2 (\<lambda>v tx. transaction_from T v = Inr tx) raws hist" using assms(2) by (simp add: try_map_eq_Inr)
  then have ids: "map transaction_id hist = map tx_id_from (map rt_transaction_id raws)"
    by (induction rule: list_all2_induct) (simp_all add: transaction_from_id)
  note served = assms(1) [unfolded tl_serves_history_def, THEN conjunct2, THEN conjunct2, rule_format]
  have len: "length raws = length hist" using all2 by (rule list_all2_lengthD)
  have id_at: "transaction_id (hist ! i) = tx_id_from (rt_transaction_id (raws ! i))" if "i < length hist" for i
    using arg_cong [OF ids, of "\<lambda>xs. xs ! i"] that len by simp
  have "distinct (map transaction_id hist)"
  proof -
    have "distinct (map rt_transaction_id raws)" using assms(1) by (simp add: tl_serves_history_def)
    with inj_on_subset [OF tx_id_from_inj] show ?thesis unfolding ids by (subst distinct_map) auto
  qed
  moreover have "\<exists>st s'. on_get_account_state (tonlib_adapter T api) a s = (Inr st, s')
      \<and> last_transaction_id st = (if hist = [] then None else Some (transaction_id (hd hist)))" for s
  proof -
    obtain st s' where "tl_raw_get_account_state api None (account_address_new T a) s = (Inr st, s')"
      "rf_last_transaction_id st = (if raws = [] then None else Some (rt_transaction_id (hd raws)))"
      using assms(1) unfolding tl_serves_history_def by blast
    then show ?thesis using len id_at [of 0]
      by (auto simp: tonlib_adapter_def tonlib_get_account_state_def io_simps account_state_of_raw_def hd_conv_nth)
  qed
  moreover have "\<exists>m s'. 0 < m \<and> on_get_account_transactions (tonlib_adapter T api) a (transaction_id (hist ! i)) s
      = (Inr \<lparr>account_transactions = take m (drop i hist), previous_transaction_id =
          (if i + m < length hist then Some (transaction_id (hist ! (i + m))) else None)\<rparr>, s')" if "i < length hist" for i s
  proof -
    have "i < length raws" using that len by simp
    obtain m s' where "0 < m" and got: "tl_raw_get_transactions_v2 api \<lparr>v2_account_address = account_address_new T a,
          v2_from = rt_transaction_id (raws ! i), v2_count = 16, v2_try_decode_messages = False\<rparr> s
        = (Inr \<lparr>rts_transactions = take m (drop i raws), rts_previous_transaction_id =
            (if i + m < length raws then Some (rt_transaction_id (raws ! (i + m))) else None)\<rparr>, s')"
      using served [OF \<open>i < length raws\<close>, of s] by blast
    have "try_map (transaction_from T) (take m (drop i raws)) = Inr (take m (drop i hist))"
      unfolding try_map_eq_Inr using all2 by (intro list_all2_takeI list_all2_dropI)
    with got \<open>0 < m\<close> len id_at [of "i + m"] id_at [OF that] show ?thesis
      by (intro exI [of _ m]) (auto simp: tonlib_adapter_def tonlib_get_account_transactions_def io_simps lift_io_def
          transactions_from_def map_ok_def)
  qed
  ultimately show ?thesis unfolding serves_account_def by blast
qed

section \<open>The transactions of a block\<close>

text \<open>
  How the library lists the transactions of a block: the bits of the mode say which columns are wanted,
  whether the order is reversed and whether there is one to start after. \<open>items\<close> are the answers with their
  keys, the account and the logical time.
\<close>

definition tl_lists ::
  "(BlocksGetTransactions \<Rightarrow> ('s, 'p) io) \<Rightarrow> (bool \<Rightarrow> 'r list \<Rightarrow> 'p) \<Rightarrow> BlockIdExt
     \<Rightarrow> ('r \<times> BlocksAccountTransactionId) list \<Rightarrow> bool" where
  "tl_lists get answer b items \<longleftrightarrow> distinct (map snd items) \<and>
     (\<forall>r s. let k = (if bit (gt_mode r) 7 then Some (gt_after r) else None);
               rest = rest_after k snd (if bit (gt_mode r) 6 then rev items else items) in
        gt_block_id r = block_id_into b \<and> bit (gt_mode r) 0 \<and> bit (gt_mode r) 1 \<and> bit (gt_mode r) 2
        \<and> 1 \<le> gt_count r \<and> gt_count r \<le> 256 \<and> (case k of None \<Rightarrow> True | Some k' \<Rightarrow> k' \<in> snd ` set items) \<longrightarrow>
        (\<exists>m s'. get r s = (Inr (answer (m < length rest) (map fst (take m rest))), s')
          \<and> int m \<le> gt_count r \<and> (rest \<noteq> [] \<longrightarrow> 0 < m)))"

lemma unverified_request:
  "bit (gt_mode (get_transactions_unverified b aft reverse n)) 7 \<longleftrightarrow> aft \<noteq> None"
  "bit (gt_mode (get_transactions_unverified b aft reverse n)) 6 \<longleftrightarrow> reverse"
  "bit (gt_mode (get_transactions_unverified b aft reverse n)) 0"
  "bit (gt_mode (get_transactions_unverified b aft reverse n)) 1"
  "bit (gt_mode (get_transactions_unverified b aft reverse n)) 2"
  "gt_block_id (get_transactions_unverified b aft reverse n) = b"
  "gt_count (get_transactions_unverified b aft reverse n) = min n 256"
  "aft = Some k \<Longrightarrow> gt_after (get_transactions_unverified b aft reverse n) = k"
  by (simp_all add: get_transactions_unverified_def bit_iff_odd)

lemma tl_listsD:
  assumes "tl_lists get answer b items" "case k of None \<Rightarrow> True | Some k' \<Rightarrow> k' \<in> snd ` set items" "0 < n"
  shows "\<exists>m s'. get (get_transactions_unverified (block_id_into b) k reverse n) s = (Inr (answer
        (m < length (rest_after k snd (if reverse then rev items else items)))
        (map fst (take m (rest_after k snd (if reverse then rev items else items))))), s')
      \<and> int m \<le> min n 256 \<and> (rest_after k snd (if reverse then rev items else items) \<noteq> [] \<longrightarrow> 0 < m)"
proof -
  let ?r = "get_transactions_unverified (block_id_into b) k reverse n"
  from assms(1) [unfolded tl_lists_def Let_def, THEN conjunct2, THEN spec [of _ ?r], THEN spec [of _ s]] assms(2,3)
  show ?thesis
    by (cases k) (simp_all add: unverified_request del: rest_after.simps One_nat_def)
qed

lemma rest_after_subset: "set (rest_after k key xs) \<subseteq> set xs"
proof (cases k)
  case (Some k')
  have "set (tl (dropWhile (\<lambda>x. key x \<noteq> k') xs)) \<subseteq> set (dropWhile (\<lambda>x. key x \<noteq> k') xs)"
    using set_drop_subset [of 1 "dropWhile (\<lambda>x. key x \<noteq> k') xs"] by (simp add: drop_Suc)
  with Some show ?thesis by (auto dest: set_dropWhileD)
qed simp

lemma rest_after_map:
  assumes "\<And>x. x \<in> set xs \<Longrightarrow> key' (g x) = k' \<longleftrightarrow> key x = k"
  shows "rest_after (Some k') key' (map g xs) = map g (rest_after (Some k) key xs)"
proof -
  have "dropWhile (\<lambda>x. key' (g x) \<noteq> k') xs = dropWhile (\<lambda>x. key x \<noteq> k) xs"
    using assms by (intro dropWhile_cong) auto
  then show ?thesis by (simp add: dropWhile_map o_def map_tl)
qed


lemma adapter_lists:
  fixes key :: "'x \<Rightarrow> ShortTxId" and T :: tonlib_lib
  defines "akey \<equiv> \<lambda>x. account_transaction_id_from T (key x)"
  assumes lists: "tl_lists get answer b (map (\<lambda>x. (g x, akey x)) xs)"
    and conv: "\<And>inc ys. set ys \<subseteq> set xs \<Longrightarrow> \<exists>p. conv (answer inc (map g ys)) = Inr p \<and> items p = ys \<and> incomplete p = inc"
  shows "lists_after (\<lambda>k n. bind_io (get (get_transactions_unverified (block_id_into b)
      (map_option (account_transaction_id_from T) k) reverse n)) (\<lambda>r. lift_io (conv r)))
    items incomplete key (if reverse then rev xs else xs)"
proof -
  let ?xs = "if reverse then rev xs else xs"
  have dist: "distinct (map akey xs)" using lists by (simp add: tl_lists_def o_def)
  then have inj: "akey x = akey y \<longleftrightarrow> x = y" if "x \<in> set xs" "y \<in> set xs" for x y
    using that by (auto simp: distinct_map dest: inj_onD)
  have keys: "key x = key y \<longleftrightarrow> x = y" if "x \<in> set xs" "y \<in> set xs" for x y
    using inj [OF that] by (auto simp: akey_def)
  have "distinct (map key xs)" using dist keys by (auto simp: distinct_map inj_on_def)
  moreover have "\<exists>p s' m. bind_io (get (get_transactions_unverified (block_id_into b)
        (map_option (account_transaction_id_from T) k) reverse n)) (\<lambda>r. lift_io (conv r)) s = (Inr p, s')
      \<and> items p = take m (rest_after k key ?xs) \<and> int m \<le> n \<and> (incomplete p \<longleftrightarrow> m < length (rest_after k key ?xs))
      \<and> (rest_after k key ?xs \<noteq> [] \<longrightarrow> 0 < m)"
    if k: "case k of None \<Rightarrow> True | Some k' \<Rightarrow> k' \<in> key ` set ?xs" and n: "0 < n" for k n s
  proof -
    let ?r = "get_transactions_unverified (block_id_into b) (map_option (account_transaction_id_from T) k) reverse n"
    let ?k = "map_option (account_transaction_id_from T) k"
    let ?rest = "rest_after k key ?xs"
    have rest: "rest_after ?k snd (if reverse then rev (map (\<lambda>x. (g x, akey x)) xs) else map (\<lambda>x. (g x, akey x)) xs)
        = map (\<lambda>x. (g x, akey x)) ?rest"
    proof (cases k)
      case (Some k')
      then obtain y where y: "y \<in> set xs" "k' = key y" using k by (auto split: if_splits)
      have "snd (g x, akey x) = akey y \<longleftrightarrow> key x = k'" if "x \<in> set ?xs" for x
        using inj [of x y] keys [of x y] y that by (auto split: if_splits)
      from rest_after_map [where xs = ?xs and key' = snd and g = "\<lambda>x. (g x, akey x)", OF this] Some y(2) show ?thesis
        by (cases reverse) (simp_all add: akey_def rev_map del: rest_after.simps)
    qed (simp add: rev_map)
    have "set ?rest \<subseteq> set xs"
      using rest_after_subset [of k key ?xs] by (simp split: if_splits)
    have "case ?k of None \<Rightarrow> True | Some k' \<Rightarrow> k' \<in> snd ` set (map (\<lambda>x. (g x, akey x)) xs)"
      using k by (auto simp: akey_def image_image split: option.splits if_splits)
    then obtain m s' where m: "get ?r s = (Inr (answer (m < length ?rest) (map g (take m ?rest))), s')"
      "int m \<le> min n 256" "?rest \<noteq> [] \<longrightarrow> 0 < m"
      using tl_listsD [OF lists, of ?k n reverse s] n unfolding rest by (auto simp: take_map o_def)
    moreover obtain p where "conv (answer (m < length ?rest) (map g (take m ?rest))) = Inr p" "items p = take m ?rest"
      "incomplete p = (m < length ?rest)"
      using conv [of "take m ?rest" "m < length ?rest"] \<open>set ?rest \<subseteq> set xs\<close> by (meson set_take_subset subset_trans)
    ultimately show ?thesis
      by (intro exI [of _ p] exI [of _ s'] exI [of _ m]) (auto simp: io_simps lift_io_def)
  qed
  ultimately show ?thesis unfolding lists_after_def by (auto simp: rev_map [symmetric])
qed


text \<open>A transaction of a block in the form of the library.\<close>

definition short_into :: "tonlib_lib \<Rightarrow> ShortTxId \<Rightarrow> BlocksShortTxId" where
  "short_into T x = \<lparr>st_account = tl_b64_encode T (to_internal (short_account x)), st_lt = short_lt x, st_hash = short_hash x\<rparr>"

definition in_workchain :: "i32 \<Rightarrow> SmartContractAddress \<Rightarrow> bool" where
  "in_workchain wc a \<longleftrightarrow> a = Raw wc (to_internal a) \<and> length (to_internal a) = 32"

definition tl_b64_laws :: "tonlib_lib \<Rightarrow> bool" where
  "tl_b64_laws T \<longleftrightarrow> (\<forall>bs. tl_b64_decode T (tl_b64_encode T bs) = Some bs)"

lemma short_roundtrip:
  assumes "tl_b64_laws T" "in_workchain wc (short_account x)"
  shows "short_tx_id_from T wc (short_into T x) = Inr x"
  using assms by (simp add: short_tx_id_from_def short_into_def tl_b64_laws_def in_workchain_def raw_def bindr_def ok_or_def)

lemma tonlib_lists_ids:
  assumes "tl_b64_laws T" "\<forall>x \<in> set ids. in_workchain (workchain b) (short_account x)"
    and "tl_lists (tl_get_transactions api) (\<lambda>inc ys. \<lparr>bt_block_id = block_id_into b, bt_is_incomplete = inc,
        bt_transactions = ys\<rparr>) b (map (\<lambda>x. (short_into T x, account_transaction_id_from T x)) ids)"
  shows "lists_after (\<lambda>k. on_get_transaction_ids (tonlib_adapter T api) b k reverse) ids_transactions ids_incomplete
    (\<lambda>tx. tx) (if reverse then rev ids else ids)"
proof -
  have "try_map (short_tx_id_from T (workchain b)) (map (short_into T) ys) = Inr ys" if "set ys \<subseteq> set ids" for ys
    using assms(1,2) that by (induction ys) (auto simp: short_roundtrip bindr_def map_ok_def)
  then have "\<exists>p. block_transactions_from T \<lparr>bt_block_id = block_id_into b, bt_is_incomplete = inc,
      bt_transactions = map (short_into T) ys\<rparr> = Inr p \<and> ids_transactions p = ys \<and> ids_incomplete p = inc"
    if "set ys \<subseteq> set ids" for inc ys
    using that by (simp add: block_transactions_from_def map_ok_def block_id_into_def)
  note lists = adapter_lists [OF assms(3), of "block_transactions_from T" ids_transactions ids_incomplete reverse, OF this]
  have "(\<lambda>k. on_get_transaction_ids (tonlib_adapter T api) b k reverse) = (\<lambda>k n. bind_io (tl_get_transactions api
      (get_transactions_unverified (block_id_into b) (map_option (account_transaction_id_from T) k) reverse n))
      (\<lambda>r. lift_io (block_transactions_from T r)))"
    by (intro ext) (simp add: tonlib_adapter_def tonlib_get_transaction_ids_def)
  with lists show ?thesis by simp
qed

lemma zip_maps: "zip (map g xs) (map f xs) = map (\<lambda>x. (g x, f x)) xs"
  by (induction xs) simp_all

lemma tonlib_lists_transactions:
  assumes "try_map (transaction_from T) raws = Inr txs"
    and "tl_lists (tl_get_transactions_ext api) (\<lambda>inc ys. \<lparr>bx_incomplete = inc, bx_transactions = ys\<rparr>) b
      (zip raws (map (\<lambda>tx. account_transaction_id_from T (short_tx_id tx)) txs))"
  shows "lists_after (\<lambda>k. on_get_transactions (tonlib_adapter T api) b k reverse) ext_transactions ext_incomplete
    short_tx_id (if reverse then rev txs else txs)"
proof -
  have all2: "list_all2 (\<lambda>v tx. transaction_from T v = Inr tx) raws txs" using assms(1) by (simp add: try_map_eq_Inr)
  then have len: "length raws = length txs" by (rule list_all2_lengthD)
  have dist: "distinct txs"
  proof -
    have "distinct (map (\<lambda>tx. account_transaction_id_from T (short_tx_id tx)) txs)"
      using assms(2) len by (simp add: tl_lists_def)
    then show ?thesis by (simp add: distinct_map)
  qed
  define raw_of where "raw_of tx = the (map_of (zip txs raws) tx)" for tx
  have raw_of: "map raw_of txs = raws"
    using dist len by (auto simp: raw_of_def list_eq_iff_nth_eq map_of_zip_nth)
  then have zip: "zip raws (map f txs) = map (\<lambda>x. (raw_of x, f x)) txs" for f :: "Transaction \<Rightarrow> BlocksAccountTransactionId"
    by (metis zip_maps)
  have conv: "transaction_from T (raw_of x) = Inr x" if "x \<in> set txs" for x
    using all2 that unfolding raw_of [symmetric] by (auto simp: list_all2_conv_all_nth in_set_conv_nth)
  have "try_map (transaction_from T) (map raw_of ys) = Inr ys" if "set ys \<subseteq> set txs" for ys
    using conv that by (induction ys) (auto simp: bindr_def map_ok_def)
  then have "\<exists>p. block_transactions_ext_from T \<lparr>bx_incomplete = inc, bx_transactions = map raw_of ys\<rparr> = Inr p
      \<and> ext_transactions p = ys \<and> ext_incomplete p = inc" if "set ys \<subseteq> set txs" for inc ys
    using that by (simp add: block_transactions_ext_from_def map_ok_def)
  note lists = adapter_lists [OF assms(2) [unfolded zip], of "block_transactions_ext_from T" ext_transactions
      ext_incomplete reverse, OF this]
  have "(\<lambda>k. on_get_transactions (tonlib_adapter T api) b k reverse) = (\<lambda>k n. bind_io (tl_get_transactions_ext api
      (get_transactions_unverified (block_id_into b) (map_option (account_transaction_id_from T) k) reverse n))
      (\<lambda>r. lift_io (block_transactions_ext_from T r)))"
    by (intro ext) (simp add: tonlib_adapter_def tonlib_get_transactions_def)
  with lists show ?thesis by simp
qed


section \<open>A library to evaluate with\<close>

definition demo_lib :: tonlib_lib where
  "demo_lib = \<lparr>tl_addr = std_codecs, tl_b64_encode = map (\<lambda>x. char_of (unat x)),
     tl_b64_decode = (\<lambda>s. Some (map (\<lambda>c. word_of_nat (of_char c)) s)),
     tl_address_error = (\<lambda>_. []), tl_id_debug = (\<lambda>_. [])\<rparr>"

definition demo_text :: string where
  "demo_text = base64_url_safe_encode std_codecs (user_friendly_buf std_codecs 17 0 tep_account)"

definition demo_raw :: "i64 \<Rightarrow> RawTransaction" where
  "demo_raw lt = \<lparr>rt_address = \<lparr>account_address = Some demo_text\<rparr>, rt_utime = lt, rt_data = [],
     rt_transaction_id = \<lparr>it_hash = [], it_lt = lt\<rparr>, rt_fee = 0, rt_storage_fee = 0, rt_other_fee = 0,
     rt_in_msg = None, rt_out_msgs = []\<rparr>"

definition demo_of_raw :: "i64 \<Rightarrow> Transaction" where
  "demo_of_raw lt = \<lparr>tx_address = UserFriendly 17 0 tep_account, tx_utime = lt, tx_data = [],
     transaction_id = \<lparr>tx_lt = lt, tx_hash = []\<rparr>, tx_fee = 0, storage_fee = 0, other_fee = 0, in_msg = None, out_msgs = []\<rparr>"

lemma demo_transaction: "transaction_from demo_lib (demo_raw lt) = Inr (demo_of_raw lt)"
  using from_str_user_friendly_buf [OF std_base64_laws, of tep_account 17 0]
  by (simp add: transaction_from_def demo_raw_def demo_of_raw_def parse_address_def demo_lib_def demo_text_def tx_id_from_def
      workchain_byte_def bindr_def ok_or_def)

definition demo_lister :: "(bool \<Rightarrow> 'r list \<Rightarrow> 'p) \<Rightarrow> ('r \<times> BlocksAccountTransactionId) list \<Rightarrow> BlocksGetTransactions \<Rightarrow> (unit, 'p) io" where
  "demo_lister answer items r =
     (let rest = rest_after (if bit (gt_mode r) 7 then Some (gt_after r) else None) snd
            (if bit (gt_mode r) 6 then rev items else items);
          m = min 2 (nat (gt_count r)) in
      ok_io (answer (m < length rest) (map fst (take m rest))))"

lemma demo_lister_lists: "distinct (map snd items) \<Longrightarrow> tl_lists (demo_lister answer items) answer b items"
  unfolding tl_lists_def demo_lister_def Let_def ok_io_def
  by (intro conjI allI impI exI [of _ "min 2 (nat _)"] exI [of _ "()"]) auto

definition demo_tonlib :: "BlockIdExt \<Rightarrow> RawTransaction list \<Rightarrow> (BlocksShortTxId \<times> BlocksAccountTransactionId) list
    \<Rightarrow> (RawTransaction \<times> BlocksAccountTransactionId) list \<Rightarrow> unit tl_api" where
  "demo_tonlib b raws shorts exts =
     (let state = \<lparr>rf_balance = None, rf_code = [], rf_data = [], rf_frozen_hash = [],
        rf_last_transaction_id = (if raws = [] then None else Some (rt_transaction_id (hd raws))),
        rf_block_id = block_id_into b, rf_sync_utime = 0\<rparr> in
     \<lparr>tl_get_masterchain_info = err_io ''unused'', tl_lookup_block = (\<lambda>_. err_io ''unused''),
      tl_get_shards = (\<lambda>_. err_io ''unused''), tl_get_block_header = (\<lambda>_. err_io ''unused''),
      tl_get_transactions = demo_lister (\<lambda>inc ys. \<lparr>bt_block_id = block_id_into b, bt_is_incomplete = inc,
        bt_transactions = ys\<rparr>) shorts,
      tl_get_transactions_ext = demo_lister (\<lambda>inc ys. \<lparr>bx_incomplete = inc, bx_transactions = ys\<rparr>) exts,
      tl_sync = err_io ''unused'', tl_raw_send_message = (\<lambda>_. err_io ''unused''),
      tl_raw_send_message_return_hash = (\<lambda>_. err_io ''unused''),
      tl_raw_get_account_state = (\<lambda>_ _. ok_io state),
      tl_raw_get_account_state_by_transaction = (\<lambda>_ _. ok_io state),
      tl_raw_get_transactions_v2 = (\<lambda>r. let rest = dropWhile (\<lambda>x. rt_transaction_id x \<noteq> v2_from r) raws in
        ok_io \<lparr>rts_transactions = take 2 rest,
          rts_previous_transaction_id = map_option rt_transaction_id (case drop 2 rest of [] \<Rightarrow> None | x # _ \<Rightarrow> Some x)\<rparr>),
      tl_get_shard_account_cell = (\<lambda>_ _. err_io ''unused''),
      tl_get_shard_account_cell_by_transaction = (\<lambda>_ _. err_io ''unused''),
      tl_smc_load = (\<lambda>_. err_io ''unused''), tl_smc_run_get_method = (\<lambda>_ _ _. err_io ''unused'')\<rparr>)"

lemma demo_serves_history:
  assumes "distinct (map rt_transaction_id raws)"
  shows "tl_serves_history T (demo_tonlib b raws shorts exts) a raws"
proof -
  have "dropWhile (\<lambda>x. rt_transaction_id x \<noteq> rt_transaction_id (raws ! i)) raws = drop i raws" if "i < length raws" for i
    using dropWhile_id(1) [OF assms that refl] .
  moreover have "(case drop n raws of [] \<Rightarrow> None | x # _ \<Rightarrow> Some x) = (if n < length raws then Some (raws ! n) else None)" for n
    by (auto simp: hd_drop_conv_nth [symmetric] split: list.split)
  ultimately show ?thesis
    using assms unfolding tl_serves_history_def
    by (auto simp: demo_tonlib_def Let_def ok_io_def add.commute intro!: exI [of _ 2])
qed


lemma demo_lib_b64_laws: "tl_b64_laws demo_lib"
proof -
  have "word_of_nat (of_char (char_of (unat x) :: char)) = (x :: u8)" for x
    using unsigned_less [of x, where ?'a = nat] by (simp add: take_bit_nat_eq_self)
  then show ?thesis by (simp add: tl_b64_laws_def demo_lib_def o_def)
qed

section \<open>Properties\<close>

text \<open>
  C31. The history of an account over the C++ library. If the library serves the history from a transaction on,
  at most 16 at a time, and every transaction has an address that can be parsed, the stream of a range ends
  without an error and yields exactly the converted transactions from the start to the end of the range.
\<close>

theorem tonlib_account_range:
  assumes "tl_serves_history T api a raws" and "try_map (transaction_from T) raws = Inr hist"
    and "case bound_tx start of None \<Rightarrow> True | Some t \<Rightarrow> t \<in> transaction_id ` set hist"
  shows "\<exists>s'. get_account_tx_range (tonlib_adapter T api) a (start, finish) s
    = Some ((upto_bound finish (from_bound start hist), Inr ()), s')"
  using account_range_runs [OF tonlib_serves_account [OF assms(1,2)] assms(3)] .

theorem tonlib_account_range_witness:
  "\<exists>s'. get_account_tx_range (tonlib_adapter demo_lib (demo_tonlib (demo_block 7) (map demo_raw [5, 4, 3, 2, 1]) [] []))
      (Raw 0 []) (Included \<lparr>tx_lt = 4, tx_hash = []\<rparr>, Excluded \<lparr>tx_lt = 1, tx_hash = []\<rparr>) ()
    = Some ((map demo_of_raw [4, 3, 2], Inr ()), s')"
proof -
  let ?raws = "map demo_raw [5, 4, 3, 2, 1]"
  have "distinct (map rt_transaction_id ?raws)" by (simp add: demo_raw_def)
  from tonlib_account_range [OF demo_serves_history [OF this], of demo_lib "map demo_of_raw [5, 4, 3, 2, 1]"
      "Included \<lparr>tx_lt = 4, tx_hash = []\<rparr>" "demo_block 7" "[]" "[]" "Raw 0 []" "Excluded \<lparr>tx_lt = 1, tx_hash = []\<rparr>" "()"]
  show ?thesis by (simp add: demo_transaction demo_of_raw_def bindr_def map_ok_def)
qed

text \<open>
  The transactions of a block over the C++ library. If the library reads the mode of a request as documented
  (which columns, reversed or not, with a transaction to start after or without) and lists the transactions of
  the block in pages of at most 256, both streams end without an error and yield exactly the transactions of
  the block in the order asked for.
\<close>

lemma tonlib_block_streams:
  assumes "tl_b64_laws T" and "\<forall>x \<in> set ids. in_workchain (workchain b) (short_account x)"
    and "tl_lists (tl_get_transactions api) (\<lambda>inc ys. \<lparr>bt_block_id = block_id_into b, bt_is_incomplete = inc,
        bt_transactions = ys\<rparr>) b (map (\<lambda>x. (short_into T x, account_transaction_id_from T x)) ids)"
    and "try_map (transaction_from T) raws = Inr txs"
    and "tl_lists (tl_get_transactions_ext api) (\<lambda>inc ys. \<lparr>bx_incomplete = inc, bx_transactions = ys\<rparr>) b
        (zip raws (map (\<lambda>tx. account_transaction_id_from T (short_tx_id tx)) txs))"
  shows "(\<exists>s'. get_block_tx_id_stream (tonlib_adapter T api) b reverse s
        = Some ((if reverse then rev ids else ids, Inr ()), s'))
    \<and> (\<exists>s'. get_block_tx_stream (tonlib_adapter T api) b reverse s
        = Some ((if reverse then rev txs else txs, Inr ()), s'))"
  using block_pages.run_stream_pages [OF page_expects_first [OF tonlib_lists_ids [OF assms(1-3), of reverse]], of yield_all "()" s]
    block_pages.run_stream_pages [OF page_expects_first [OF tonlib_lists_transactions [OF assms(4,5), of reverse]], of yield_all "()" s]
  by (simp add: get_block_tx_id_stream_def get_block_tx_stream_def block_tx_id_step_page block_tx_step_page)

definition demo_short :: "u8 \<Rightarrow> ShortTxId" where
  "demo_short n = \<lparr>short_account = Raw 0 (replicate 32 n), short_lt = 1, short_hash = ''h''\<rparr>"

end
