(* ===== verification/Tlb_Cells.thy ===== *)
theory Tlb_Cells
  imports Std_Codecs
begin

text \<open>
  What the TL-B code of the repository uses of the third-party crate \<open>toner\<close>: cells, the parser that
  reads the bits and references of a cell in order, the builder that appends them. They are the fields
  of \<open>toner_lib\<close>; \<open>toner_laws\<close> is what their documentation promises, stated over the bits and references
  a parser has left and a builder has been given. \<open>reads\<close> and \<open>writes\<close> are the contracts of a reader and a
  writer, and how they compose.
\<close>

section \<open>Bits\<close>

text \<open>The number written by bits, the most significant first.\<close>

definition bits_nat :: "bool list \<Rightarrow> nat" where
  "bits_nat bs = foldl (\<lambda>a b. 2 * a + of_bool b) 0 bs"

fun nat_bits :: "nat \<Rightarrow> nat \<Rightarrow> bool list" where
  "nat_bits 0 v = []"
| "nat_bits (Suc n) v = nat_bits n (v div 2) @ [odd v]"

lemma length_nat_bits [simp]: "length (nat_bits n v) = n"
  by (induction n arbitrary: v) simp_all

lemma bits_nat_Nil [simp]: "bits_nat [] = 0"
  by (simp add: bits_nat_def)

lemma bits_nat_snoc [simp]: "bits_nat (bs @ [b]) = 2 * bits_nat bs + of_bool b"
  by (simp add: bits_nat_def)

lemma bits_nat_less: "bits_nat bs < 2 ^ length bs"
  by (induction bs rule: rev_induct) auto

lemma bits_nat_bits: "bits_nat (nat_bits n v) = v mod 2 ^ n"
proof (induction n arbitrary: v)
  case (Suc n)
  have "v mod (2 * 2 ^ n) = 2 * (v div 2 mod 2 ^ n) + v mod 2"
    by (rule mod_mult2_eq)
  with Suc show ?case by (simp add: of_bool_odd_eq_mod_2)
qed simp

lemma nat_bits_nat: "nat_bits (length bs) (bits_nat bs) = bs"
  by (induction bs rule: rev_induct) simp_all

lemma bits_nat_inject: "length as = length bs \<Longrightarrow> bits_nat as = bits_nat bs \<longleftrightarrow> as = bs"
  by (metis nat_bits_nat)

section \<open>The library\<close>

record ('c, 'p, 'b) toner_lib =
  unpack_nbits :: "nat \<Rightarrow> 'p \<Rightarrow> string + nat \<times> 'p"
  unpack_int :: "nat \<Rightarrow> 'p \<Rightarrow> string + int \<times> 'p"
  parse_ref :: "'p \<Rightarrow> string + 'c \<times> 'p"
  cell_parser :: "'c \<Rightarrow> 'p"
  ensure_empty :: "'p \<Rightarrow> string + unit"
  ref_end :: "'p \<Rightarrow> string + unit"
  pack_nbits :: "nat \<Rightarrow> nat \<Rightarrow> 'b \<Rightarrow> string + 'b"
  pack_int :: "nat \<Rightarrow> int \<Rightarrow> 'b \<Rightarrow> string + 'b"
  store_ref :: "'c \<Rightarrow> 'b \<Rightarrow> string + 'b"
  cell_builder :: "'b"
  into_cell :: "'b \<Rightarrow> 'c"
  in_context :: "string \<Rightarrow> string \<Rightarrow> string"

text \<open>
  \<open>unpack_nbits n\<close> is \<open>unpack_as::<_, NBits<n>>\<close> of an unsigned integer and \<open>unpack\<close> of an \<open>n\<close> bit one,
  \<open>unpack_int n\<close> the same of a signed one; \<open>parse_ref\<close> takes the next reference, \<open>ref_end\<close> is what \<open>Ref\<close>
  asks of the parser of a child cell when the value has been read; \<open>in_context\<close> is \<open>Context::context\<close>
  on the message of an error.
\<close>

type_synonym 'c view = "bool list \<times> 'c list"

text \<open>
  Reading takes the leading bits, or fails when there are not enough of them; a signed integer is within
  its width.
\<close>

definition parser_laws :: "('c, 'p, 'b) toner_lib \<Rightarrow> ('p \<Rightarrow> 'c view) \<Rightarrow> bool" where
  "parser_laws T pv \<longleftrightarrow>
     (\<forall>n p. if n \<le> length (fst (pv p))
        then (\<exists>p'. unpack_nbits T n p = Inr (bits_nat (take n (fst (pv p))), p')
                 \<and> pv p' = (drop n (fst (pv p)), snd (pv p)))
        else (\<exists>e. unpack_nbits T n p = Inl e)) \<and>
     (\<forall>n p i. n \<in> {8, 16, 32, 64} \<longrightarrow> - (2 ^ (n - 1)) \<le> i \<longrightarrow> i < 2 ^ (n - 1) \<longrightarrow>
        take n (fst (pv p)) = nat_bits n (nat (i mod 2 ^ n)) \<longrightarrow>
        (\<exists>p'. unpack_int T n p = Inr (i, p') \<and> pv p' = (drop n (fst (pv p)), snd (pv p)))) \<and>
     (\<forall>n p i p'. n \<in> {8, 16, 32, 64} \<longrightarrow> unpack_int T n p = Inr (i, p') \<longrightarrow>
        - (2 ^ (n - 1)) \<le> i \<and> i < 2 ^ (n - 1)) \<and>
     (\<forall>p. case snd (pv p) of
          [] \<Rightarrow> (\<exists>e. parse_ref T p = Inl e)
        | c # cs \<Rightarrow> (\<exists>p'. parse_ref T p = Inr (c, p') \<and> pv p' = (fst (pv p), cs))) \<and>
     (\<forall>p. ensure_empty T p = Inr () \<longleftrightarrow> pv p = ([], [])) \<and>
     (\<forall>p. pv p = ([], []) \<longrightarrow> ref_end T p = Inr ())"

text \<open>
  Writing appends, unless it fails for want of room. The cell of a builder is parsed from its first bit.
\<close>

definition builder_laws :: "('c, 'p, 'b) toner_lib \<Rightarrow> ('p \<Rightarrow> 'c view) \<Rightarrow> ('b \<Rightarrow> 'c view) \<Rightarrow> bool" where
  "builder_laws T pv bv \<longleftrightarrow>
     bv (cell_builder T) = ([], []) \<and>
     (\<forall>b. pv (cell_parser T (into_cell T b)) = bv b) \<and>
     (\<forall>n v b b'. v < 2 ^ n \<longrightarrow> pack_nbits T n v b = Inr b' \<longrightarrow>
        bv b' = (fst (bv b) @ nat_bits n v, snd (bv b))) \<and>
     (\<forall>n i b b'. n \<in> {8, 16, 32, 64} \<longrightarrow> - (2 ^ (n - 1)) \<le> i \<longrightarrow> i < 2 ^ (n - 1) \<longrightarrow>
        pack_int T n i b = Inr b' \<longrightarrow> bv b' = (fst (bv b) @ nat_bits n (nat (i mod 2 ^ n)), snd (bv b))) \<and>
     (\<forall>c b b'. store_ref T c b = Inr b' \<longrightarrow> bv b' = (fst (bv b), snd (bv b) @ [c]))"

definition toner_laws :: "('c, 'p, 'b) toner_lib \<Rightarrow> ('p \<Rightarrow> 'c view) \<Rightarrow> ('b \<Rightarrow> 'c view) \<Rightarrow> bool" where
  "toner_laws T pv bv \<longleftrightarrow> parser_laws T pv \<and> builder_laws T pv bv"

section \<open>Contracts of readers and writers\<close>

text \<open>
  A reader takes \<open>bs\<close> and \<open>rs\<close> from the front and returns \<open>v\<close>. A codec is a reader and the writer of a
  value: what a writer that succeeds has appended, the reader takes from the front, with the value.
\<close>

definition reads :: "('p \<Rightarrow> 'c view) \<Rightarrow> ('p \<Rightarrow> 'e + 'v \<times> 'p) \<Rightarrow> bool list \<Rightarrow> 'c list \<Rightarrow> 'v \<Rightarrow> bool" where
  "reads pv rd bs rs v \<longleftrightarrow>
     (\<forall>p xs ys. pv p = (bs @ xs, rs @ ys) \<longrightarrow> (\<exists>p'. rd p = Inr (v, p') \<and> pv p' = (xs, ys)))"

definition codec :: "('p \<Rightarrow> 'c view) \<Rightarrow> ('b \<Rightarrow> 'c view) \<Rightarrow> ('p \<Rightarrow> string + 'v \<times> 'p)
    \<Rightarrow> ('b \<Rightarrow> string + 'b) \<Rightarrow> 'v \<Rightarrow> bool" where
  "codec pv bv rd wr v \<longleftrightarrow>
     (\<forall>b b'. wr b = Inr b' \<longrightarrow>
        (\<exists>bs rs. bv b' = (fst (bv b) @ bs, snd (bv b) @ rs) \<and> reads pv rd bs rs v))"

lemma readsI:
  assumes "\<And>p xs ys. pv p = (bs @ xs, rs @ ys) \<Longrightarrow> \<exists>p'. rd p = Inr (v, p') \<and> pv p' = (xs, ys)"
  shows "reads pv rd bs rs v"
  using assms by (simp add: reads_def)

lemma readsD:
  assumes "reads pv rd bs rs v" and "pv p = (bs @ xs, rs @ ys)"
  obtains p' where "rd p = Inr (v, p')" and "pv p' = (xs, ys)"
  using assms unfolding reads_def by blast

lemma reads_return: "reads pv (\<lambda>p. Inr (v, p)) [] [] v"
  by (simp add: reads_def)

lemma reads_bind:
  assumes "reads pv rd bs rs v" and "reads pv (k v) bs' rs' w"
  shows "reads pv (\<lambda>p. bindr (rd p) (\<lambda>(x, p'). k x p')) (bs @ bs') (rs @ rs') w"
proof (rule readsI)
  fix p xs ys assume "pv p = ((bs @ bs') @ xs, (rs @ rs') @ ys)"
  then have "pv p = (bs @ (bs' @ xs), rs @ (rs' @ ys))" by simp
  with assms(1) obtain p1 where p1: "rd p = Inr (v, p1)" "pv p1 = (bs' @ xs, rs' @ ys)"
    by (rule readsD)
  from assms(2) p1(2) obtain p2 where "k v p1 = Inr (w, p2)" "pv p2 = (xs, ys)"
    by (rule readsD)
  with p1(1) show "\<exists>p'. bindr (rd p) (\<lambda>(x, p'). k x p') = Inr (w, p') \<and> pv p' = (xs, ys)" by simp
qed

lemma reads_map: "reads pv rd bs rs v \<Longrightarrow> reads pv (\<lambda>p. bindr (rd p) (\<lambda>(x, p'). Inr (f x, p'))) bs rs (f v)"
  by (fastforce simp: reads_def)

lemma reads_context: "reads pv (\<lambda>p. map_err f (rd p)) bs rs v \<longleftrightarrow> reads pv rd bs rs v"
  by (simp add: reads_def map_err_eq_Inr)

lemma codecI:
  assumes "\<And>b b'. wr b = Inr b' \<Longrightarrow>
    \<exists>bs rs. bv b' = (fst (bv b) @ bs, snd (bv b) @ rs) \<and> reads pv rd bs rs v"
  shows "codec pv bv rd wr v"
  using assms by (simp add: codec_def)

lemma codecD:
  assumes "codec pv bv rd wr v" and "wr b = Inr b'"
  obtains bs rs where "bv b' = (fst (bv b) @ bs, snd (bv b) @ rs)" and "reads pv rd bs rs v"
  using assms unfolding codec_def by blast

lemma codec_eq:
  "codec pv bv rd wr v \<Longrightarrow> (\<And>p. rd' p = rd p) \<Longrightarrow> (\<And>b. wr' b = wr b) \<Longrightarrow> codec pv bv rd' wr' v"
  by (simp add: codec_def reads_def)

lemma codec_return: "codec pv bv (\<lambda>p. Inr (v, p)) Inr v"
  by (rule codecI, rule exI [of _ "[]"], rule exI [of _ "[]"]) (simp add: reads_return)

text \<open>Reading one value and then another, as the writer wrote them.\<close>

lemma codec_bind:
  assumes "codec pv bv rd wr v" and "codec pv bv (k v) wr' w"
  shows "codec pv bv (\<lambda>p. bindr (rd p) (\<lambda>(x, p'). k x p')) (\<lambda>b. bindr (wr b) wr') w"
proof (rule codecI)
  fix b b' assume "bindr (wr b) wr' = Inr b'"
  then obtain b1 where b1: "wr b = Inr b1" "wr' b1 = Inr b'" by (auto simp: bindr_eq_Inr)
  from assms(1) b1(1) obtain bs rs where r: "bv b1 = (fst (bv b) @ bs, snd (bv b) @ rs)" "reads pv rd bs rs v"
    by (rule codecD)
  from assms(2) b1(2) obtain bs' rs' where r': "bv b' = (fst (bv b1) @ bs', snd (bv b1) @ rs')"
    "reads pv (k v) bs' rs' w"
    by (rule codecD)
  have "bv b' = (fst (bv b) @ (bs @ bs'), snd (bv b) @ (rs @ rs'))" using r(1) r'(1) by simp
  with reads_bind [of pv rd bs rs v k bs' rs' w, OF r(2) r'(2)]
  show "\<exists>bs rs. bv b' = (fst (bv b) @ bs, snd (bv b) @ rs) \<and>
          reads pv (\<lambda>p. bindr (rd p) (\<lambda>(x, p'). k x p')) bs rs w" by blast
qed

lemma codec_map:
  "codec pv bv rd wr v \<Longrightarrow> codec pv bv (\<lambda>p. bindr (rd p) (\<lambda>(x, p'). Inr (f x, p'))) wr (f v)"
  unfolding codec_def using reads_map [of pv rd _ _ v f] by blast

lemma codec_context:
  "codec pv bv rd wr v \<Longrightarrow> codec pv bv (\<lambda>p. map_err f (rd p)) (\<lambda>b. map_err g (wr b)) v"
  by (simp add: codec_def reads_context map_err_eq_Inr)

lemma codec_fails: "(\<And>b b'. wr b \<noteq> Inr b') \<Longrightarrow> codec pv bv rd wr v"
  by (simp add: codec_def)

section \<open>Primitive readers and writers\<close>

lemma reads_nbits:
  assumes "parser_laws T pv" and "length bs = n"
  shows "reads pv (unpack_nbits T n) bs [] (bits_nat bs)"
proof (rule readsI)
  fix p xs ys assume p: "pv p = (bs @ xs, [] @ ys)"
  have "if n \<le> length (fst (pv p))
        then (\<exists>p'. unpack_nbits T n p = Inr (bits_nat (take n (fst (pv p))), p')
                 \<and> pv p' = (drop n (fst (pv p)), snd (pv p)))
        else (\<exists>e. unpack_nbits T n p = Inl e)"
    using assms(1) unfolding parser_laws_def by blast
  with p assms(2) show "\<exists>p'. unpack_nbits T n p = Inr (bits_nat bs, p') \<and> pv p' = (xs, ys)" by simp
qed

lemma unpack_nbits_short:
  assumes "parser_laws T pv" and "length (fst (pv p)) < n"
  shows "\<exists>e. unpack_nbits T n p = Inl e"
proof -
  have "if n \<le> length (fst (pv p))
        then (\<exists>p'. unpack_nbits T n p = Inr (bits_nat (take n (fst (pv p))), p')
                 \<and> pv p' = (drop n (fst (pv p)), snd (pv p)))
        else (\<exists>e. unpack_nbits T n p = Inl e)"
    using assms(1) unfolding parser_laws_def by blast
  with assms(2) show ?thesis by simp
qed

lemma reads_nat:
  "parser_laws T pv \<Longrightarrow> v < 2 ^ n \<Longrightarrow> reads pv (unpack_nbits T n) (nat_bits n v) [] v"
  using reads_nbits [of T pv "nat_bits n v" n] by (simp add: bits_nat_bits)

lemma reads_int:
  assumes "parser_laws T pv" "n \<in> {8, 16, 32, 64}" "- (2 ^ (n - 1)) \<le> i" "i < 2 ^ (n - 1)"
  shows "reads pv (unpack_int T n) (nat_bits n (nat (i mod 2 ^ n))) [] i"
proof (rule readsI)
  fix p xs ys assume p: "pv p = (nat_bits n (nat (i mod 2 ^ n)) @ xs, [] @ ys)"
  have "take n (fst (pv p)) = nat_bits n (nat (i mod 2 ^ n)) \<longrightarrow>
     (\<exists>p'. unpack_int T n p = Inr (i, p') \<and> pv p' = (drop n (fst (pv p)), snd (pv p)))"
    using assms unfolding parser_laws_def by blast
  with p show "\<exists>p'. unpack_int T n p = Inr (i, p') \<and> pv p' = (xs, ys)" by simp
qed

lemma unpack_int_bounds:
  assumes "parser_laws T pv" "n \<in> {8, 16, 32, 64}" "unpack_int T n p = Inr (i, p')"
  shows "- (2 ^ (n - 1)) \<le> i" "i < 2 ^ (n - 1)"
  using assms unfolding parser_laws_def by blast+

lemma reads_ref:
  assumes "parser_laws T pv"
  shows "reads pv (parse_ref T) [] [c] c"
proof (rule readsI)
  fix p xs ys assume p: "pv p = ([] @ xs, [c] @ ys)"
  have "case snd (pv p) of [] \<Rightarrow> (\<exists>e. parse_ref T p = Inl e)
        | c # cs \<Rightarrow> (\<exists>p'. parse_ref T p = Inr (c, p') \<and> pv p' = (fst (pv p), cs))"
    using assms unfolding parser_laws_def by blast
  with p show "\<exists>p'. parse_ref T p = Inr (c, p') \<and> pv p' = (xs, ys)" by simp
qed

lemma ensure_empty_iff: "parser_laws T pv \<Longrightarrow> ensure_empty T p = Inr () \<longleftrightarrow> pv p = ([], [])"
  by (simp add: parser_laws_def)

lemma ref_end_empty: "parser_laws T pv \<Longrightarrow> pv p = ([], []) \<Longrightarrow> ref_end T p = Inr ()"
  by (simp add: parser_laws_def)

lemma codec_nat:
  "toner_laws T pv bv \<Longrightarrow> v < 2 ^ n \<Longrightarrow> codec pv bv (unpack_nbits T n) (pack_nbits T n v) v"
  unfolding toner_laws_def builder_laws_def codec_def by (metis append_Nil2 reads_nat)

lemma codec_int:
  "toner_laws T pv bv \<Longrightarrow> n \<in> {8, 16, 32, 64} \<Longrightarrow> - (2 ^ (n - 1)) \<le> i \<Longrightarrow> i < 2 ^ (n - 1) \<Longrightarrow>
   codec pv bv (unpack_int T n) (pack_int T n i) i"
  unfolding toner_laws_def builder_laws_def codec_def by (metis append_Nil2 reads_int)

lemma codec_cell: "toner_laws T pv bv \<Longrightarrow> codec pv bv (parse_ref T) (store_ref T c) c"
  unfolding toner_laws_def builder_laws_def codec_def by (metis append_Nil2 reads_ref)

lemma pack_nbits_view:
  "toner_laws T pv bv \<Longrightarrow> v < 2 ^ n \<Longrightarrow> pack_nbits T n v b = Inr b' \<Longrightarrow>
   bv b' = (fst (bv b) @ nat_bits n v, snd (bv b))"
  by (simp add: toner_laws_def builder_laws_def)

lemma into_cell_view: "toner_laws T pv bv \<Longrightarrow> pv (cell_parser T (into_cell T b)) = bv b"
  by (simp add: toner_laws_def builder_laws_def)

lemma builder_view: "toner_laws T pv bv \<Longrightarrow> bv (cell_builder T) = ([], [])"
  by (simp add: toner_laws_def builder_laws_def)

section \<open>Values in a cell of their own\<close>

text \<open>\<open>store_as::<_, Ref>\<close>, \<open>parse_as::<_, Ref>\<close>, \<open>to_cell\<close> and \<open>parse_fully\<close>.\<close>

definition to_cell :: "('c, 'p, 'b) toner_lib \<Rightarrow> ('b \<Rightarrow> string + 'b) \<Rightarrow> string + 'c" where
  "to_cell T wr = map_ok (into_cell T) (wr (cell_builder T))"

definition store_as_ref :: "('c, 'p, 'b) toner_lib \<Rightarrow> ('b \<Rightarrow> string + 'b) \<Rightarrow> 'b \<Rightarrow> string + 'b" where
  "store_as_ref T wr b = bindr (to_cell T wr) (\<lambda>c. store_ref T c b)"

definition parse_as_ref :: "('c, 'p, 'b) toner_lib \<Rightarrow> ('p \<Rightarrow> string + 'v \<times> 'p) \<Rightarrow> 'p \<Rightarrow> string + 'v \<times> 'p" where
  "parse_as_ref T rd p =
     bindr (parse_ref T p) (\<lambda>(c, p').
     bindr (rd (cell_parser T c)) (\<lambda>(v, q).
     bindr (ref_end T q) (\<lambda>_. Inr (v, p'))))"

definition parse_fully :: "('c, 'p, 'b) toner_lib \<Rightarrow> ('p \<Rightarrow> string + 'v \<times> 'p) \<Rightarrow> 'c \<Rightarrow> string + 'v" where
  "parse_fully T rd c =
     bindr (rd (cell_parser T c)) (\<lambda>(v, q). bindr (ensure_empty T q) (\<lambda>_. Inr v))"

lemma codec_cell_parser:
  assumes T: "toner_laws T pv bv" and c: "codec pv bv rd wr v" and w: "to_cell T wr = Inr c"
  obtains q where "rd (cell_parser T c) = Inr (v, q)" and "pv q = ([], [])"
proof -
  from w obtain b where b: "wr (cell_builder T) = Inr b" "c = into_cell T b"
    by (auto simp: to_cell_def map_ok_eq_Inr)
  from c b(1) obtain bs rs where v: "bv b = (fst (bv (cell_builder T)) @ bs, snd (bv (cell_builder T)) @ rs)"
    and r: "reads pv rd bs rs v"
    by (rule codecD)
  have "pv (cell_parser T c) = (bs @ [], rs @ [])"
    using v by (simp add: b(2) into_cell_view [OF T] builder_view [OF T])
  with r show thesis by (rule readsD) (rule that)
qed

lemma codec_to_cell:
  assumes "toner_laws T pv bv" and "codec pv bv rd wr v" and "to_cell T wr = Inr c"
  shows "parse_fully T rd c = Inr v"
proof -
  from assms obtain q where q: "rd (cell_parser T c) = Inr (v, q)" "pv q = ([], [])"
    by (rule codec_cell_parser)
  with assms(1) have "ensure_empty T q = Inr ()"
    by (simp add: toner_laws_def ensure_empty_iff [of T pv])
  with q show ?thesis by (simp add: parse_fully_def)
qed

lemma codec_ref:
  assumes T: "toner_laws T pv bv" and c: "codec pv bv rd wr v"
  shows "codec pv bv (parse_as_ref T rd) (store_as_ref T wr) v"
proof (cases "to_cell T wr")
  case (Inl e)
  then show ?thesis by (intro codec_fails) (simp add: store_as_ref_def)
next
  case (Inr cell)
  with T c obtain q where q: "rd (cell_parser T cell) = Inr (v, q)" "pv q = ([], [])"
    by (rule codec_cell_parser)
  with T have e: "ref_end T q = Inr ()" by (simp add: toner_laws_def ref_end_empty [of T pv])
  let ?k = "\<lambda>c p'. bindr (rd (cell_parser T c)) (\<lambda>(v, q). bindr (ref_end T q) (\<lambda>_. Inr (v, p')))"
  have "codec pv bv (?k cell) Inr v" using codec_return by (simp add: q e)
  from codec_bind [of pv bv _ _ _ ?k, OF codec_cell [OF T, of cell] this]
  show ?thesis
    by (simp add: codec_def parse_as_ref_def [abs_def] store_as_ref_def Inr bindr_eq_Inr)
qed

section \<open>Cells in memory\<close>

text \<open>
  A library that meets the laws, for the witnesses: a cell is its bits, at most 1023, and its references,
  at most four; a parser is what is left of them and a builder what has been given.
\<close>

datatype mem_cell = MemCell "bool list" "mem_cell list"

fun mem_view :: "mem_cell \<Rightarrow> mem_cell view" where
  "mem_view (MemCell bs rs) = (bs, rs)"

definition mem_toner :: "(mem_cell, mem_cell view, mem_cell view) toner_lib" where
  "mem_toner = \<lparr>
     unpack_nbits = (\<lambda>n (bs, rs). if n \<le> length bs then Inr (bits_nat (take n bs), (drop n bs, rs))
                                else Inl ''end of bits''),
     unpack_int = (\<lambda>n (bs, rs). if n \<le> length bs
        then Inr (let v = int (bits_nat (take n bs)) in if v < 2 ^ (n - 1) then v else v - 2 ^ n, (drop n bs, rs))
        else Inl ''end of bits''),
     parse_ref = (\<lambda>(bs, rs). case rs of [] \<Rightarrow> Inl ''no more references'' | c # cs \<Rightarrow> Inr (c, (bs, cs))),
     cell_parser = mem_view,
     ensure_empty = (\<lambda>(bs, rs). if bs = [] \<and> rs = [] then Inr () else Inl ''more data left''),
     ref_end = (\<lambda>(bs, rs). if bs = [] \<and> rs = [] then Inr () else Inl ''more data left''),
     pack_nbits = (\<lambda>n v (bs, rs). if length bs + n \<le> 1023 \<and> v < 2 ^ n then Inr (bs @ nat_bits n v, rs)
                                  else Inl ''no room''),
     pack_int = (\<lambda>n i (bs, rs). if length bs + n \<le> 1023 then Inr (bs @ nat_bits n (nat (i mod 2 ^ n)), rs)
                                else Inl ''no room''),
     store_ref = (\<lambda>c (bs, rs). if length rs < 4 then Inr (bs, rs @ [c]) else Inl ''too many references''),
     cell_builder = ([], []),
     into_cell = (\<lambda>(bs, rs). MemCell bs rs),
     in_context = (\<lambda>c e. c @ '': '' @ e)\<rparr>"

lemma signed_of_bits:
  assumes "0 < n" "- (2 ^ (n - 1)) \<le> i" "i < 2 ^ (n - 1)"
  shows "(let v = int (bits_nat (nat_bits n (nat (i mod 2 ^ n)))) in
          if v < 2 ^ (n - 1) then v else v - 2 ^ n) = i"
proof -
  obtain m where m: "n = Suc m" using assms(1) by (cases n) auto
  have v: "int (bits_nat (nat_bits n (nat (i mod 2 ^ n)))) = i mod 2 ^ n"
    by (simp add: bits_nat_bits zmod_int)
  show ?thesis
  proof (cases "0 \<le> i")
    case True
    with assms m have "i mod 2 ^ n = i" by (simp add: mod_pos_pos_trivial)
    with v assms(3) show ?thesis by (simp add: Let_def)
  next
    case False
    with assms m have "(i + 2 ^ n) mod 2 ^ n = i + 2 ^ n" by (intro mod_pos_pos_trivial) auto
    then have "i mod 2 ^ n = i + 2 ^ n" by simp
    with v assms m show ?thesis by (simp add: Let_def)
  qed
qed

lemma mem_unpack_int_bounds:
  assumes "n \<in> {8, 16, 32, 64}" "unpack_int mem_toner n p = Inr (i, p')"
  shows "- (2 ^ (n - 1)) \<le> i \<and> i < 2 ^ (n - 1)"
proof -
  obtain m where m: "n = Suc m" using assms(1) by (cases n) auto
  have "length (take n (fst p)) = n"
    using assms(2) by (auto simp: mem_toner_def split_beta split: if_splits)
  then have "int (bits_nat (take n (fst p))) < 2 ^ n"
    using bits_nat_less [of "take n (fst p)"] by (metis of_nat_less_numeral_power_cancel_iff)
  with assms(2) m show ?thesis
    by (auto simp: mem_toner_def split_beta Let_def split: if_splits)
qed

lemma mem_toner_laws: "toner_laws mem_toner (\<lambda>p. p) (\<lambda>b. b)"
proof -
  have "parser_laws mem_toner (\<lambda>p. p)"
    unfolding parser_laws_def
  proof (intro conjI allI impI)
    fix n :: nat and p :: "mem_cell view" and i :: int
    assume n: "n \<in> {8, 16, 32, 64}" "- (2 ^ (n - 1)) \<le> i" "i < 2 ^ (n - 1)"
      and t: "take n (fst p) = nat_bits n (nat (i mod 2 ^ n))"
    have "length (take n (fst p)) = n" by (simp add: t)
    then have l: "n \<le> length (fst p)" by simp
    have "0 < n" using n(1) by auto
    from signed_of_bits [OF this n(2,3)] l t
    show "\<exists>p'. unpack_int mem_toner n p = Inr (i, p') \<and> p' = (drop n (fst p), snd p)"
      by (simp add: mem_toner_def split_beta)
  next
    fix n :: nat and p p' :: "mem_cell view" and i :: int
    assume "n \<in> {8, 16, 32, 64}" "unpack_int mem_toner n p = Inr (i, p')"
    from mem_unpack_int_bounds [OF this] show "- (2 ^ (n - 1)) \<le> i" "i < 2 ^ (n - 1)" by simp_all
  qed (auto simp: mem_toner_def split_beta prod_eq_iff split: list.split)
  moreover have "builder_laws mem_toner (\<lambda>p. p) (\<lambda>b. b)"
    unfolding builder_laws_def
    by (intro conjI allI impI) (auto simp: mem_toner_def split: if_splits)
  ultimately show ?thesis by (simp add: toner_laws_def)
qed

end
