(* ===== verification/Tlb_Derive.thy ===== *)
theory Tlb_Derive
  imports Tlb_Cells "HOL-Library.Sublist"
begin

text \<open>
  The derive macros for TL-B (\<open>toner-tlb-macros\<close>). The first part is the macro itself: from the attributes
  of a struct or an enum, as \<open>darling\<close> has parsed them, to the statements it generates or to a compile
  error. The second part is what the generated code does with a parser and a builder. The types of the
  fields are unknown to the macro: how a field is read and written is a parameter.
\<close>

unbundle bit_operations_syntax

section \<open>Errors of the macro\<close>

text \<open>The \<open>syn::Error\<close>s the macro reports, one constructor per message, and the panic of \<open>expect\<close>.\<close>

datatype derive_error =
    TagPrefix
  | InvalidBinaryDigit char
  | InvalidHex
  | TagTooLong nat
  | BothLayers
  | AsNeedsLayer
  | CellInBitDerive
  | SeparateCellInBitDerive
  | NestedStart
  | EndWithoutStart
  | StartWithoutEnd
  | VariantWithoutTag
  | TupleVariant
  | NoVariants
  | UnitStruct
  | UnionNotSupported
  | NamedFieldWithoutIdent

section \<open>Tags\<close>

datatype TagFormat = Binary | Hex

record TagValue =
  tag_bits :: "bool list"
  tag_format :: TagFormat

definition binary_digit :: "char \<Rightarrow> derive_error + bool" where
  "binary_digit c =
     (if c = CHR ''0'' then Inr False else if c = CHR ''1'' then Inr True else Inl (InvalidBinaryDigit c))"

text \<open>\<open>u64::from_str_radix(_, 16)\<close>: an optional plus sign, at least one digit, no overflow.\<close>

fun hex_number :: "int \<Rightarrow> string \<Rightarrow> int option" where
  "hex_number a [] = Some a"
| "hex_number a (c # cs) =
     (case hex_val c of
        Some d \<Rightarrow> if 16 * a + int d < 2 ^ 64 then hex_number (16 * a + int d) cs else None
      | None \<Rightarrow> None)"

definition u64_from_hex :: "string \<Rightarrow> u64 option" where
  "u64_from_hex s =
     (let digits = (case s of c # cs \<Rightarrow> if c = CHR ''+'' then cs else s | [] \<Rightarrow> []) in
      if digits = [] then None else map_option word_of_int (hex_number 0 digits))"

text \<open>Shifts by 64 and more take the amount modulo 64 (no overflow checks).\<close>

definition hex_bits :: "u64 \<Rightarrow> nat \<Rightarrow> bool list" where
  "hex_bits v n = map (\<lambda>i. drop_bit (i mod 64) v AND 1 = 1) (rev [0..<n])"

definition strip_completion :: "bool list \<Rightarrow> bool list" where
  "strip_completion bs = butlast (rev (dropWhile Not (rev bs)))"

definition tag_prefix :: "string \<Rightarrow> derive_error + string \<times> TagFormat" where
  "tag_prefix s =
     (if take 2 s = ''0b'' then Inr (drop 2 s, Binary)
      else if take 1 s = ''$'' then Inr (drop 1 s, Binary)
      else if take 2 s = ''0x'' then Inr (drop 2 s, Hex)
      else if take 1 s = ''#'' then Inr (drop 1 s, Hex)
      else Inl TagPrefix)"

definition strip_underscore :: "string \<Rightarrow> string \<times> bool" where
  "strip_underscore s = (if s \<noteq> [] \<and> last s = CHR ''_'' then (butlast s, True) else (s, False))"

definition parse_str :: "string \<Rightarrow> derive_error + TagValue" where
  "parse_str s =
     bindr (tag_prefix s) (\<lambda>(rest, format).
     let (digits, trailing_underscore) = strip_underscore rest in
     bindr (case format of
              Binary \<Rightarrow> try_map binary_digit digits
            | Hex \<Rightarrow> if digits = [] then Inr []
                     else map_ok (\<lambda>v. hex_bits v (length digits * 4)) (ok_or InvalidHex (u64_from_hex digits)))
       (\<lambda>bits. Inr \<lparr>tag_bits = (if trailing_underscore then strip_completion bits else bits),
                    tag_format = format\<rparr>))"

definition as_u64 :: "bool list \<Rightarrow> u64" where
  "as_u64 bs = foldl (\<lambda>a b. push_bit 1 a OR of_bool b) 0 bs"

text \<open>The width of the integer type that holds a tag.\<close>

definition tag_int_type :: "nat \<Rightarrow> derive_error + nat" where
  "tag_int_type bit_len =
     (if bit_len \<le> 8 then Inr 8 else if bit_len \<le> 16 then Inr 16 else if bit_len \<le> 32 then Inr 32
      else Inl (TagTooLong bit_len))"

section \<open>Back ends\<close>

datatype FieldLayer = CellLayer | BitsLayer

datatype SeparateCellMarker = MNone | MStart | MEnd | MBoth

datatype Backend = BitPackBackend | BitUnpackBackend | CellDeserializeBackend | CellSerializeBackend

fun validate_field_layer :: "Backend \<Rightarrow> FieldLayer \<Rightarrow> derive_error + unit" where
  "validate_field_layer BitPackBackend CellLayer = Inl CellInBitDerive"
| "validate_field_layer BitUnpackBackend CellLayer = Inl CellInBitDerive"
| "validate_field_layer _ _ = Inr ()"

fun validate_separate_cell_marker :: "Backend \<Rightarrow> SeparateCellMarker \<Rightarrow> derive_error + unit" where
  "validate_separate_cell_marker BitPackBackend m =
     (if m = MNone then Inr () else Inl SeparateCellInBitDerive)"
| "validate_separate_cell_marker BitUnpackBackend m =
     (if m = MNone then Inr () else Inl SeparateCellInBitDerive)"
| "validate_separate_cell_marker _ _ = Inr ()"

fun default_layer :: "Backend \<Rightarrow> FieldLayer" where
  "default_layer BitPackBackend = BitsLayer"
| "default_layer BitUnpackBackend = BitsLayer"
| "default_layer CellDeserializeBackend = CellLayer"
| "default_layer CellSerializeBackend = CellLayer"

section \<open>Fields\<close>

record RawField =
  raw_ident :: "string option"
  raw_cell :: bool
  raw_bits :: bool
  raw_as_ty :: "string option"
  raw_args :: "string option"
  raw_separate_cell_start :: bool
  raw_separate_cell_end :: bool

record FieldMode =
  layer :: FieldLayer
  as_ty :: "string option"
  mode_args :: "string option"

definition from_raw :: "Backend \<Rightarrow> RawField \<Rightarrow> derive_error + FieldMode" where
  "from_raw B raw =
     bindr (case (raw_cell raw, raw_bits raw) of
              (True, True) \<Rightarrow> Inl BothLayers
            | (True, False) \<Rightarrow> Inr (Some CellLayer)
            | (False, True) \<Rightarrow> Inr (Some BitsLayer)
            | (False, False) \<Rightarrow> Inr None) (\<lambda>l.
     if l = None \<and> raw_as_ty raw \<noteq> None then Inl AsNeedsLayer
     else (let l' = (case l of Some x \<Rightarrow> x | None \<Rightarrow> default_layer B) in
       bindr (validate_field_layer B l') (\<lambda>_.
       Inr \<lparr>layer = l', as_ty = raw_as_ty raw, mode_args = raw_args raw\<rparr>)))"

record FieldEntry =
  binding :: string
  mode :: FieldMode
  entry_context :: string
  separate_cell :: SeparateCellMarker

definition cell_marker :: "RawField \<Rightarrow> SeparateCellMarker" where
  "cell_marker raw =
     (case (raw_separate_cell_start raw, raw_separate_cell_end raw) of
        (False, False) \<Rightarrow> MNone | (True, False) \<Rightarrow> MStart | (False, True) \<Rightarrow> MEnd | (True, True) \<Rightarrow> MBoth)"

definition reader_build_entry :: "Backend \<Rightarrow> bool \<Rightarrow> nat \<times> RawField \<Rightarrow> derive_error + FieldEntry" where
  "reader_build_entry B named = (\<lambda>(index, raw).
     bindr (if named then map_ok (\<lambda>i. (i, i)) (ok_or NamedFieldWithoutIdent (raw_ident raw))
            else Inr (''__field_'' @ dec_nat index, dec_nat index)) (\<lambda>(bind, ctx).
     bindr (validate_separate_cell_marker B (cell_marker raw)) (\<lambda>_.
     bindr (from_raw B raw) (\<lambda>m.
     Inr \<lparr>binding = bind, mode = m, entry_context = ctx, separate_cell = cell_marker raw\<rparr>))))"

definition reader_build_entries :: "Backend \<Rightarrow> bool \<Rightarrow> RawField list \<Rightarrow> derive_error + FieldEntry list" where
  "reader_build_entries B named raws = try_map (reader_build_entry B named) (List.enumerate 0 raws)"

text \<open>
  The writer reaches a field of a struct as \<open>self.<name>\<close> or \<open>self.<index>\<close>, and a field of a variant by the
  name its pattern binds.
\<close>

datatype AccessKind = SelfDirect | Binding

definition writer_build_entry ::
  "Backend \<Rightarrow> bool \<Rightarrow> AccessKind \<Rightarrow> nat \<times> RawField \<Rightarrow> derive_error + FieldEntry" where
  "writer_build_entry B named access = (\<lambda>(index, raw).
     bindr (if named
            then map_ok (\<lambda>i. (if access = SelfDirect then ''self.'' @ i else i, i))
                   (ok_or NamedFieldWithoutIdent (raw_ident raw))
            else Inr (if access = SelfDirect then ''self.'' @ dec_nat index else ''__field_'' @ dec_nat index,
                      dec_nat index)) (\<lambda>(acc, ctx).
     bindr (validate_separate_cell_marker B (cell_marker raw)) (\<lambda>_.
     bindr (from_raw B raw) (\<lambda>m.
     Inr \<lparr>binding = acc, mode = m, entry_context = ctx, separate_cell = cell_marker raw\<rparr>))))"

definition writer_build_entries ::
  "Backend \<Rightarrow> bool \<Rightarrow> AccessKind \<Rightarrow> RawField list \<Rightarrow> derive_error + FieldEntry list" where
  "writer_build_entries B named access raws =
     try_map (writer_build_entry B named access) (List.enumerate 0 raws)"

section \<open>Statements\<close>

text \<open>
  The call on the reader or the writer that a field becomes, and the statements of a sequence of fields:
  a block opens a child cell, its fields are read from or written to it, and it is closed.
\<close>

datatype method_call = PlainCall FieldLayer "string option" | AsCall FieldLayer string "string option"

definition gen_field_call :: "FieldEntry \<Rightarrow> method_call" where
  "gen_field_call e =
     (case as_ty (mode e) of
        None \<Rightarrow> PlainCall (layer (mode e)) (mode_args (mode e))
      | Some ty \<Rightarrow> AsCall (layer (mode e)) ty (mode_args (mode e)))"

datatype stmt = OpenBlock | FieldStmt bool string method_call | CloseBlock

definition field_stmt :: "bool \<Rightarrow> FieldEntry \<Rightarrow> stmt" where
  "field_stmt in_block e = FieldStmt in_block (entry_context e) (gen_field_call e)"

definition opens :: "SeparateCellMarker \<Rightarrow> bool" where
  "opens m \<longleftrightarrow> m = MStart \<or> m = MBoth"

definition closes :: "SeparateCellMarker \<Rightarrow> bool" where
  "closes m \<longleftrightarrow> m = MEnd \<or> m = MBoth"

fun reader_gen_field_stmts :: "bool \<Rightarrow> FieldEntry list \<Rightarrow> derive_error + stmt list" where
  "reader_gen_field_stmts inside [] = (if inside then Inl StartWithoutEnd else Inr [])"
| "reader_gen_field_stmts inside (e # es) =
     (let op = opens (separate_cell e); cl = closes (separate_cell e); block = inside \<or> op in
      if inside \<and> op then Inl NestedStart
      else if \<not> inside \<and> \<not> op \<and> cl then Inl EndWithoutStart
      else map_ok (\<lambda>ss. (if op then [OpenBlock] else []) @ [field_stmt block e] @
                       (if cl then [CloseBlock] else []) @ ss)
             (reader_gen_field_stmts (block \<and> \<not> cl) es))"

text \<open>The writer passes the value by its access path and attaches the child cell at the end of the block.\<close>

datatype wstmt = NewBuilder | WriteStmt bool string string method_call | AttachCell

definition writer_gen_field_call :: "FieldEntry \<Rightarrow> method_call" where
  "writer_gen_field_call e =
     (case as_ty (mode e) of
        None \<Rightarrow> PlainCall (layer (mode e)) (mode_args (mode e))
      | Some ty \<Rightarrow> AsCall (layer (mode e)) (CHR ''&'' # ty) (mode_args (mode e)))"

fun writer_gen_field_stmts :: "bool \<Rightarrow> FieldEntry list \<Rightarrow> derive_error + wstmt list" where
  "writer_gen_field_stmts inside [] = (if inside then Inl StartWithoutEnd else Inr [])"
| "writer_gen_field_stmts inside (e # es) =
     (let op = opens (separate_cell e); cl = closes (separate_cell e); block = inside \<or> op in
      if inside \<and> op then Inl NestedStart
      else if \<not> inside \<and> \<not> op \<and> cl then Inl EndWithoutStart
      else map_ok (\<lambda>ss. (if op then [NewBuilder] else []) @
                       [WriteStmt block (binding e) (entry_context e) (writer_gen_field_call e)] @
                       (if cl then [AttachCell] else []) @ ss)
             (writer_gen_field_stmts (block \<and> \<not> cl) es))"

section \<open>The tree of the tags\<close>

datatype TagTree = TagTree (leaf: "nat option") (zero: "TagTree option") (one: "TagTree option")

definition tag_tree_new :: TagTree where
  "tag_tree_new = TagTree None None None"

definition or_new :: "TagTree option \<Rightarrow> TagTree" where
  "or_new t = (case t of Some c \<Rightarrow> c | None \<Rightarrow> tag_tree_new)"

fun tree_insert :: "bool list \<Rightarrow> nat \<Rightarrow> TagTree \<Rightarrow> TagTree" where
  "tree_insert [] idx (TagTree l z w) = TagTree (Some idx) z w"
| "tree_insert (b # bs) idx (TagTree l z w) =
     (if b then TagTree l z (Some (tree_insert bs idx (or_new w)))
      else TagTree l (Some (tree_insert bs idx (or_new z))) w)"

fun min_leaf_depth :: "TagTree \<Rightarrow> nat" where
  "min_leaf_depth (TagTree l z w) =
     (if l \<noteq> None then 0
      else case (map_option (\<lambda>c. 1 + min_leaf_depth c) z, map_option (\<lambda>c. 1 + min_leaf_depth c) w) of
        (None, None) \<Rightarrow> 0 | (Some a, None) \<Rightarrow> a | (None, Some b) \<Rightarrow> b | (Some a, Some b) \<Rightarrow> min a b)"

fun is_pure_leaf :: "TagTree \<Rightarrow> nat option" where
  "is_pure_leaf (TagTree l z w) = (if z = None \<and> w = None then l else None)"

section \<open>The dispatcher\<close>

text \<open>
  The generated expression: the body of a variant, or a tag of a number of bits that is read and matched
  against literals. The macro recurses for ever on some trees: a tree the fuel does not suffice for is
  \<open>None\<close>.
\<close>

datatype dispatch = Body nat | Match nat nat "(u64 \<times> dispatch) list"

fun collect_arms :: "(TagTree \<Rightarrow> (derive_error + dispatch) option) \<Rightarrow> TagTree \<Rightarrow> nat \<Rightarrow> bool list
    \<Rightarrow> (derive_error + (u64 \<times> dispatch) list) option" where
  "collect_arms build node 0 pre =
     map_option (map_ok (\<lambda>body. [(as_u64 pre, body)]))
       (case is_pure_leaf node of Some idx \<Rightarrow> Some (Inr (Body idx)) | None \<Rightarrow> build node)"
| "collect_arms build node (Suc remaining) pre =
     Option.bind (case zero node of None \<Rightarrow> Some (Inr [])
                  | Some c \<Rightarrow> collect_arms build c remaining (pre @ [False])) (\<lambda>r0.
     case r0 of Inl e \<Rightarrow> Some (Inl e) | Inr arms0 \<Rightarrow>
       map_option (map_ok ((@) arms0))
         (case one node of None \<Rightarrow> Some (Inr [])
          | Some c \<Rightarrow> collect_arms build c remaining (pre @ [True])))"

fun dispatcher_build :: "nat \<Rightarrow> nat \<Rightarrow> TagTree \<Rightarrow> (derive_error + dispatch) option" where
  "dispatcher_build 0 depth node = None"
| "dispatcher_build (Suc fuel) depth node =
     (case is_pure_leaf node of
        Some idx \<Rightarrow> Some (Inr (Body idx))
      | None \<Rightarrow>
          (let read_bits = min_leaf_depth node in
           case tag_int_type read_bits of
             Inl e \<Rightarrow> Some (Inl e)
           | Inr _ \<Rightarrow> map_option (map_ok (Match depth read_bits))
                        (collect_arms (dispatcher_build fuel (depth + 1)) node read_bits [])))"

section \<open>Structs and enums\<close>

datatype Fields = NamedFields "RawField list" | UnnamedFields "RawField list" | UnitFields

record RawVariant =
  variant_ident :: string
  variant_tag :: "string option"
  variant_fields :: Fields

datatype Data = DataStruct Fields | DataEnum "RawVariant list" | DataUnion

record DeriveInput =
  input_ident :: string
  input_tag :: "string option"
  input_data :: Data

record VariantInfo =
  info_ident :: string
  info_tag :: TagValue
  info_fields :: "RawField list"

definition parse_container_attrs :: "DeriveInput \<Rightarrow> derive_error + TagValue option" where
  "parse_container_attrs inp =
     (case input_tag inp of None \<Rightarrow> Inr None | Some s \<Rightarrow> map_ok Some (parse_str s))"

definition parse_variant :: "RawVariant \<Rightarrow> derive_error + VariantInfo" where
  "parse_variant v =
     bindr (ok_or VariantWithoutTag (variant_tag v)) (\<lambda>s.
     bindr (parse_str s) (\<lambda>tag.
     bindr (case variant_fields v of
              NamedFields fs \<Rightarrow> Inr fs | UnitFields \<Rightarrow> Inr [] | UnnamedFields _ \<Rightarrow> Inl TupleVariant) (\<lambda>fs.
     Inr \<lparr>info_ident = variant_ident v, info_tag = tag, info_fields = fs\<rparr>)))"

text \<open>
  The generated readers. A tag check is the name in its message, the number of bits, and the literal.
\<close>

datatype derived_reader =
    ReadStruct "(string \<times> nat \<times> u64) option" "stmt list"
  | ReadEnum string dispatch "stmt list list"

datatype derived_writer =
    WriteStruct "(nat \<times> u64) option" "wstmt list"
  | WriteEnum "((nat \<times> u64) \<times> wstmt list) list"

definition gen_tag_check :: "TagValue \<Rightarrow> string \<Rightarrow> derive_error + string \<times> nat \<times> u64" where
  "gen_tag_check tag type_name =
     bindr (tag_int_type (length (tag_bits tag))) (\<lambda>_.
     Inr (type_name, length (tag_bits tag), as_u64 (tag_bits tag)))"

definition gen_tag_store :: "TagValue \<Rightarrow> derive_error + nat \<times> u64" where
  "gen_tag_store tag =
     bindr (tag_int_type (length (tag_bits tag))) (\<lambda>_. Inr (length (tag_bits tag), as_u64 (tag_bits tag)))"

definition gen_variant_body :: "Backend \<Rightarrow> VariantInfo \<Rightarrow> derive_error + stmt list" where
  "gen_variant_body B v =
     (if info_fields v = [] then Inr []
      else bindr (reader_build_entries B True (info_fields v)) (reader_gen_field_stmts False))"

definition gen_variant_arm :: "Backend \<Rightarrow> VariantInfo \<Rightarrow> derive_error + (nat \<times> u64) \<times> wstmt list" where
  "gen_variant_arm B v =
     bindr (gen_tag_store (info_tag v)) (\<lambda>tag.
     if info_fields v = [] then Inr (tag, [])
     else (let named = (raw_ident (hd (info_fields v)) \<noteq> None) in
       bindr (writer_build_entries B named Binding (info_fields v)) (\<lambda>es.
       map_ok (Pair tag) (writer_gen_field_stmts False es))))"

definition struct_fields :: "Fields \<Rightarrow> derive_error + bool \<times> RawField list" where
  "struct_fields fs =
     (case fs of NamedFields xs \<Rightarrow> Inr (True, xs) | UnnamedFields xs \<Rightarrow> Inr (False, xs)
      | UnitFields \<Rightarrow> Inl UnitStruct)"

definition reader_expand_struct :: "Backend \<Rightarrow> DeriveInput \<Rightarrow> Fields \<Rightarrow> derive_error + derived_reader" where
  "reader_expand_struct B inp fs =
     bindr (parse_container_attrs inp) (\<lambda>tag.
     bindr (struct_fields fs) (\<lambda>(named, raws).
     bindr (reader_build_entries B named raws) (\<lambda>es.
     bindr (reader_gen_field_stmts False es) (\<lambda>stmts.
     bindr (case tag of None \<Rightarrow> Inr None | Some t \<Rightarrow> map_ok Some (gen_tag_check t (input_ident inp))) (\<lambda>check.
     Inr (ReadStruct check stmts))))))"

definition writer_expand_struct :: "Backend \<Rightarrow> DeriveInput \<Rightarrow> Fields \<Rightarrow> derive_error + derived_writer" where
  "writer_expand_struct B inp fs =
     bindr (parse_container_attrs inp) (\<lambda>tag.
     bindr (struct_fields fs) (\<lambda>(named, raws).
     bindr (writer_build_entries B named SelfDirect raws) (\<lambda>es.
     bindr (writer_gen_field_stmts False es) (\<lambda>stmts.
     bindr (case tag of None \<Rightarrow> Inr None | Some t \<Rightarrow> map_ok Some (gen_tag_store t)) (\<lambda>store.
     Inr (WriteStruct store stmts))))))"

definition tag_tree :: "VariantInfo list \<Rightarrow> TagTree" where
  "tag_tree vs = fold (\<lambda>(i, v). tree_insert (tag_bits (info_tag v)) i) (List.enumerate 0 vs) tag_tree_new"

definition reader_expand_enum ::
  "nat \<Rightarrow> Backend \<Rightarrow> DeriveInput \<Rightarrow> RawVariant list \<Rightarrow> (derive_error + derived_reader) option" where
  "reader_expand_enum fuel B inp raws =
     (case bindr (parse_container_attrs inp) (\<lambda>_. try_map parse_variant raws) of
        Inl e \<Rightarrow> Some (Inl e)
      | Inr vs \<Rightarrow>
          if vs = [] then Some (Inl NoVariants)
          else (case try_map (gen_variant_body B) vs of
                  Inl e \<Rightarrow> Some (Inl e)
                | Inr bodies \<Rightarrow>
                    map_option (map_ok (\<lambda>d. ReadEnum (input_ident inp) d bodies))
                      (dispatcher_build fuel 0 (tag_tree vs))))"

definition writer_expand_enum :: "Backend \<Rightarrow> DeriveInput \<Rightarrow> RawVariant list \<Rightarrow> derive_error + derived_writer" where
  "writer_expand_enum B inp raws =
     bindr (parse_container_attrs inp) (\<lambda>_.
     bindr (try_map parse_variant raws) (\<lambda>vs.
     if vs = [] then Inl NoVariants else map_ok WriteEnum (try_map (gen_variant_arm B) vs)))"

definition reader_expand :: "nat \<Rightarrow> Backend \<Rightarrow> DeriveInput \<Rightarrow> (derive_error + derived_reader) option" where
  "reader_expand fuel B inp =
     (case input_data inp of
        DataStruct fs \<Rightarrow> Some (reader_expand_struct B inp fs)
      | DataEnum vs \<Rightarrow> reader_expand_enum fuel B inp vs
      | DataUnion \<Rightarrow> Some (Inl UnionNotSupported))"

definition writer_expand :: "Backend \<Rightarrow> DeriveInput \<Rightarrow> derive_error + derived_writer" where
  "writer_expand B inp =
     (case input_data inp of
        DataStruct fs \<Rightarrow> writer_expand_struct B inp fs
      | DataEnum vs \<Rightarrow> writer_expand_enum B inp vs
      | DataUnion \<Rightarrow> Inl UnionNotSupported)"

section \<open>What the generated code does\<close>

text \<open>
  A field is read with its own implementation of the trait, named by the variant and the field. The
  statements of the fields, one after the other, with the parser of the open block; a value of a type is
  the index of its variant, 0 for a struct, with the values of the fields in order.
\<close>

type_synonym ('p, 'v) field_reader = "nat \<Rightarrow> string \<Rightarrow> method_call \<Rightarrow> 'p \<Rightarrow> string + 'v \<times> 'p"
type_synonym ('b, 'v) field_writer = "nat \<Rightarrow> string \<Rightarrow> method_call \<Rightarrow> 'v \<Rightarrow> 'b \<Rightarrow> string + 'b"

fun exec_stmts :: "('c, 'p, 'b) toner_lib \<Rightarrow> (string \<Rightarrow> method_call \<Rightarrow> 'p \<Rightarrow> string + 'v \<times> 'p) \<Rightarrow> stmt list
    \<Rightarrow> 'p \<Rightarrow> 'p option \<Rightarrow> string + 'v list \<times> 'p" where
  "exec_stmts T rd [] p sub = Inr ([], p)"
| "exec_stmts T rd (OpenBlock # ss) p sub =
     bindr (map_err (in_context T ''^['') (parse_ref T p)) (\<lambda>(c, p').
     exec_stmts T rd ss p' (Some (cell_parser T c)))"
| "exec_stmts T rd (FieldStmt in_block ctx call # ss) p sub =
     (if in_block then
        bindr (ok_or ''unbound'' sub) (\<lambda>q.
        bindr (map_err (in_context T ctx) (rd ctx call q)) (\<lambda>(v, q').
        bindr (exec_stmts T rd ss p (Some q')) (\<lambda>(vs, p'). Inr (v # vs, p'))))
      else
        bindr (map_err (in_context T ctx) (rd ctx call p)) (\<lambda>(v, p1).
        bindr (exec_stmts T rd ss p1 sub) (\<lambda>(vs, p'). Inr (v # vs, p'))))"
| "exec_stmts T rd (CloseBlock # ss) p sub =
     bindr (ok_or ''unbound'' sub) (\<lambda>q.
     bindr (map_err (in_context T ''^]'') (ensure_empty T q)) (\<lambda>_. exec_stmts T rd ss p None))"

fun exec_wstmts :: "('c, 'p, 'b) toner_lib \<Rightarrow> (string \<Rightarrow> method_call \<Rightarrow> 'v \<Rightarrow> 'b \<Rightarrow> string + 'b) \<Rightarrow> wstmt list
    \<Rightarrow> 'v list \<Rightarrow> 'b \<Rightarrow> 'b option \<Rightarrow> string + 'b" where
  "exec_wstmts T wr [] vs b sub = Inr b"
| "exec_wstmts T wr (NewBuilder # ss) vs b sub = exec_wstmts T wr ss vs b (Some (cell_builder T))"
| "exec_wstmts T wr (WriteStmt in_block access ctx call # ss) [] b sub = Inl ''unbound''"
| "exec_wstmts T wr (WriteStmt in_block access ctx call # ss) (v # vs) b sub =
     (if in_block then
        bindr (ok_or ''unbound'' sub) (\<lambda>sb.
        bindr (map_err (in_context T ctx) (wr ctx call v sb)) (\<lambda>sb'. exec_wstmts T wr ss vs b (Some sb')))
      else
        bindr (map_err (in_context T ctx) (wr ctx call v b)) (\<lambda>b'. exec_wstmts T wr ss vs b' sub))"
| "exec_wstmts T wr (AttachCell # ss) vs b sub =
     bindr (ok_or ''unbound'' sub) (\<lambda>sb.
     bindr (map_err (in_context T ''^]'') (store_ref T (into_cell T sb) b)) (\<lambda>b'.
     exec_wstmts T wr ss vs b' None))"

fun exec_dispatch :: "('c, 'p, 'b) toner_lib \<Rightarrow> string \<Rightarrow> dispatch \<Rightarrow> 'p \<Rightarrow> string + nat \<times> 'p"
  and exec_arms :: "('c, 'p, 'b) toner_lib \<Rightarrow> string \<Rightarrow> (u64 \<times> dispatch) list \<Rightarrow> nat \<Rightarrow> 'p \<Rightarrow> string + nat \<times> 'p" where
  "exec_dispatch T name (Body idx) p = Inr (idx, p)"
| "exec_dispatch T name (Match depth n arms) p =
     bindr (unpack_nbits T n p) (\<lambda>(t, p'). exec_arms T name arms t p')"
| "exec_arms T name [] t p = Inl (''invalid '' @ name @ '' tag: '' @ dec_nat t)"
| "exec_arms T name ((lit, d) # arms) t p =
     (if unat lit = t then exec_dispatch T name d p else exec_arms T name arms t p)"

fun hex_text :: "nat \<Rightarrow> string" where
  "hex_text n = (if n < 16 then [hex_char n] else hex_text (n div 16) @ [hex_char (n mod 16)])"

declare hex_text.simps [simp del]

definition hex_padded :: "nat \<Rightarrow> nat \<Rightarrow> string" where
  "hex_padded width n = replicate (width - length (hex_text n)) (CHR ''0'') @ hex_text n"

definition exec_tag_check :: "('c, 'p, 'b) toner_lib \<Rightarrow> string \<times> nat \<times> u64 \<Rightarrow> 'p \<Rightarrow> string + unit \<times> 'p" where
  "exec_tag_check T = (\<lambda>(name, n, lit) p.
     bindr (unpack_nbits T n p) (\<lambda>(t, p').
     if t \<noteq> unat lit then Inl (''invalid '' @ name @ '' tag: 0x'' @ hex_padded ((n + 3) div 4) t)
     else Inr ((), p')))"

definition exec_tag_store :: "('c, 'p, 'b) toner_lib \<Rightarrow> nat \<times> u64 \<Rightarrow> 'b \<Rightarrow> string + 'b" where
  "exec_tag_store T = (\<lambda>(n, lit) b. map_err (in_context T ''tag'') (pack_nbits T n (unat lit) b))"

fun run_reader :: "('c, 'p, 'b) toner_lib \<Rightarrow> ('p, 'v) field_reader \<Rightarrow> derived_reader \<Rightarrow> 'p
    \<Rightarrow> string + (nat \<times> 'v list) \<times> 'p" where
  "run_reader T rd (ReadStruct check stmts) p =
     bindr (case check of None \<Rightarrow> Inr ((), p) | Some c \<Rightarrow> exec_tag_check T c p) (\<lambda>(_, p').
     bindr (exec_stmts T (rd 0) stmts p' None) (\<lambda>(vs, p''). Inr ((0, vs), p'')))"
| "run_reader T rd (ReadEnum name d bodies) p =
     bindr (exec_dispatch T name d p) (\<lambda>(i, p').
     bindr (exec_stmts T (rd i) (bodies ! i) p' None) (\<lambda>(vs, p''). Inr ((i, vs), p'')))"

fun run_writer :: "('c, 'p, 'b) toner_lib \<Rightarrow> ('b, 'v) field_writer \<Rightarrow> derived_writer \<Rightarrow> nat \<times> 'v list \<Rightarrow> 'b
    \<Rightarrow> string + 'b" where
  "run_writer T wr (WriteStruct store stmts) (i, vs) b =
     bindr (case store of None \<Rightarrow> Inr b | Some s \<Rightarrow> exec_tag_store T s b) (\<lambda>b'.
     exec_wstmts T (wr 0) stmts vs b' None)"
| "run_writer T wr (WriteEnum arms) (i, vs) b =
     bindr (exec_tag_store T (fst (arms ! i)) b) (\<lambda>b'.
     exec_wstmts T (wr i) (snd (arms ! i)) vs b' None)"

section \<open>Tags as numbers\<close>

lemma as_u64_snoc: "as_u64 (bs @ [b]) = push_bit 1 (as_u64 bs) OR of_bool b"
  by (simp add: as_u64_def)

lemma unat_as_u64: "length bs \<le> 64 \<Longrightarrow> unat (as_u64 bs) = bits_nat bs"
proof (induction bs rule: rev_induct)
  case (snoc b bs)
  then have IH: "unat (as_u64 bs) = bits_nat bs" by simp
  have "bits_nat bs < 2 ^ 63"
    using bits_nat_less [of bs] snoc.prems power_increasing [of "length bs" 63 "2 :: nat"] by simp
  then have lt: "2 * bits_nat bs + of_bool b < 2 ^ 64" by simp
  have "push_bit 1 (as_u64 bs) OR of_bool b = push_bit 1 (as_u64 bs) + of_bool b"
    by (rule disjunctive_add_eq_or [symmetric]) (cases b; simp add: and_one_eq mod_2_eq_odd)
  also have "\<dots> = word_of_nat (2 * bits_nat bs + of_bool b)"
    by (simp add: IH [symmetric] push_bit_eq_mult)
  finally show ?case
    using lt by (simp add: as_u64_snoc unat_of_nat del: of_nat_add of_nat_mult)
qed (simp add: as_u64_def)

end
