(* ===== verification/Tlb_Derive_Correct.thy ===== *)
theory Tlb_Derive_Correct
  imports Tlb_Derive
begin

text \<open>
  The correctness of the derive macros for TL-B: the tree of the tags and the match it becomes, the
  statements of fields and blocks, and the round trip of derived structs and enums.
\<close>

section \<open>The tree of prefix-free tags\<close>

definition child :: "bool \<Rightarrow> TagTree \<Rightarrow> TagTree option" where
  "child b t = (if b then one t else zero t)"

fun subtree :: "TagTree \<Rightarrow> bool list \<Rightarrow> TagTree option" where
  "subtree t [] = Some t"
| "subtree t (b # bs) = Option.bind (child b t) (\<lambda>c. subtree c bs)"

definition node_at :: "TagTree \<Rightarrow> bool list \<Rightarrow> bool" where
  "node_at t path \<longleftrightarrow> subtree t path \<noteq> None"

definition leaf_at :: "TagTree \<Rightarrow> bool list \<Rightarrow> nat option" where
  "leaf_at t path = Option.bind (subtree t path) leaf"

lemma subtree_append: "subtree t (p @ q) = Option.bind (subtree t p) (\<lambda>s. subtree s q)"
  by (induction p arbitrary: t) (auto simp: bind_eq_None_conv split: Option.bind_split)

lemma subtree_new: "subtree tag_tree_new path = (if path = [] then Some tag_tree_new else None)"
  by (cases path) (simp_all add: tag_tree_new_def child_def)

lemma subtree_or_new: "path \<noteq> [] \<Longrightarrow> subtree (or_new c) path = Option.bind c (\<lambda>t. subtree t path)"
  by (cases c) (simp_all add: or_new_def subtree_new)

lemma child_insert:
  "child b (tree_insert bs i t) =
     (case bs of [] \<Rightarrow> child b t
      | x # xs \<Rightarrow> if x = b then Some (tree_insert xs i (or_new (child b t))) else child b t)"
  by (cases t; cases bs) (auto simp: child_def)

lemma leaf_insert: "leaf (tree_insert bs i t) = (if bs = [] then Some i else leaf t)"
  by (cases t; cases bs) auto

lemma node_at_Nil [simp]: "node_at t []"
  by (simp add: node_at_def)

lemma node_at_Cons: "node_at t (b # path) \<longleftrightarrow> (\<exists>c. child b t = Some c \<and> node_at c path)"
  by (cases "child b t") (simp_all add: node_at_def)

lemma node_at_or_new: "node_at (or_new c) path \<longleftrightarrow> path = [] \<or> (\<exists>t. c = Some t \<and> node_at t path)"
  by (cases c) (auto simp: node_at_def or_new_def subtree_new)

lemma node_at_insert: "node_at (tree_insert bs i t) path \<longleftrightarrow> node_at t path \<or> prefix path bs"
proof (induction path arbitrary: bs t)
  case (Cons b path)
  show ?case by (cases bs) (auto simp: node_at_Cons child_insert Cons.IH node_at_or_new)
qed simp

lemma leaf_at_Cons: "leaf_at t (b # path) = Option.bind (child b t) (\<lambda>c. leaf_at c path)"
  by (cases "child b t") (simp_all add: leaf_at_def)

lemma leaf_at_new: "leaf_at tag_tree_new path = None"
  by (simp add: leaf_at_def subtree_new) (simp add: tag_tree_new_def)

lemma leaf_at_or_new: "leaf_at (or_new c) path = Option.bind c (\<lambda>t. leaf_at t path)"
  by (cases c) (simp_all add: or_new_def leaf_at_new)

lemma leaf_at_insert: "leaf_at (tree_insert bs i t) path = (if path = bs then Some i else leaf_at t path)"
proof (induction path arbitrary: bs t)
  case Nil
  show ?case by (auto simp: leaf_at_def leaf_insert)
next
  case (Cons b path)
  show ?case by (cases bs) (auto simp: leaf_at_Cons child_insert Cons.IH leaf_at_or_new)
qed

text \<open>A node is a leaf, or has children, and not both.\<close>

definition proper :: "TagTree \<Rightarrow> bool" where
  "proper t \<longleftrightarrow> (\<forall>path s. subtree t path = Some s \<longrightarrow> (leaf s = None \<longleftrightarrow> zero s \<noteq> None \<or> one s \<noteq> None))"

definition shallow :: "nat \<Rightarrow> TagTree \<Rightarrow> bool" where
  "shallow n t \<longleftrightarrow> (\<forall>path. node_at t path \<longrightarrow> length path \<le> n)"

definition prefix_free :: "bool list list \<Rightarrow> bool" where
  "prefix_free tags \<longleftrightarrow>
     (\<forall>i < length tags. \<forall>j < length tags. prefix (tags ! i) (tags ! j) \<longrightarrow> i = j)"

definition tree_of :: "bool list list \<Rightarrow> TagTree" where
  "tree_of tags = fold (\<lambda>(i, bs). tree_insert bs i) (List.enumerate 0 tags) tag_tree_new"

lemma tree_of_snoc: "tree_of (tags @ [bs]) = tree_insert bs (length tags) (tree_of tags)"
  by (simp add: tree_of_def enumerate_append_eq)

lemma tag_tree_eq: "tag_tree vs = tree_of (map (tag_bits \<circ> info_tag) vs)"
  by (simp add: tag_tree_def tree_of_def enumerate_map_upt enumerate_eq_zip zip_map2 fold_map comp_def
      case_prod_unfold)

lemma node_at_tree_of: "node_at (tree_of tags) path \<longleftrightarrow> path = [] \<or> (\<exists>bs \<in> set tags. prefix path bs)"
proof (induction tags rule: rev_induct)
  case Nil
  show ?case by (simp add: tree_of_def node_at_def subtree_new)
next
  case (snoc bs tags)
  then show ?case by (auto simp: tree_of_snoc node_at_insert)
qed

lemma leaf_at_tree_of_iff: "leaf_at (tree_of tags) path \<noteq> None \<longleftrightarrow> path \<in> set tags"
proof (induction tags rule: rev_induct)
  case Nil
  show ?case by (simp add: tree_of_def leaf_at_new)
next
  case (snoc bs tags)
  then show ?case by (auto simp: tree_of_snoc leaf_at_insert)
qed

lemma leaf_at_tree_of:
  assumes "distinct tags" and "i < length tags"
  shows "leaf_at (tree_of tags) (tags ! i) = Some i"
  using assms
proof (induction tags rule: rev_induct)
  case (snoc bs tags)
  show ?case
  proof (cases "i = length tags")
    case False
    with snoc.prems have "i < length tags" "tags ! i \<noteq> bs" by (auto simp: in_set_conv_nth)
    with snoc show ?thesis by (simp add: tree_of_snoc leaf_at_insert nth_append)
  qed (simp add: tree_of_snoc leaf_at_insert)
qed simp

lemma prefix_free_distinct: "prefix_free tags \<Longrightarrow> distinct tags"
  by (metis distinct_conv_nth prefix_free_def prefix_order.refl)

lemma prefix_free_set:
  "prefix_free tags \<Longrightarrow> as \<in> set tags \<Longrightarrow> bs \<in> set tags \<Longrightarrow> prefix as bs \<Longrightarrow> as = bs"
  by (metis in_set_conv_nth prefix_free_def)

lemma child_node_at: "subtree t path = Some s \<Longrightarrow> child b s \<noteq> None \<longleftrightarrow> node_at t (path @ [b])"
  by (cases "child b s") (simp_all add: node_at_def subtree_append)

lemma prefix_snoc_iff: "(\<exists>b. prefix (path @ [b]) bs) \<longleftrightarrow> prefix path bs \<and> path \<noteq> bs"
proof
  assume "prefix path bs \<and> path \<noteq> bs"
  then obtain ys where ys: "bs = path @ ys" "ys \<noteq> []" by (auto simp: prefix_def)
  then have "bs = (path @ [hd ys]) @ tl ys" by simp
  then show "\<exists>b. prefix (path @ [b]) bs" by (metis prefixI)
qed (auto simp: prefix_def)

lemma proper_tree_of:
  assumes "prefix_free tags" and "tags \<noteq> []"
  shows "proper (tree_of tags)"
  unfolding proper_def
proof (intro allI impI)
  fix path s assume s: "subtree (tree_of tags) path = Some s"
  then have node: "path = [] \<or> (\<exists>bs \<in> set tags. prefix path bs)"
    using node_at_tree_of [of tags path] by (simp add: node_at_def)
  have leaf: "leaf s = None \<longleftrightarrow> path \<notin> set tags"
    using leaf_at_tree_of_iff [of tags path] s by (auto simp: leaf_at_def)
  have "zero s \<noteq> None \<or> one s \<noteq> None \<longleftrightarrow> (\<exists>b. child b s \<noteq> None)" by (auto simp: child_def)
  also have "\<dots> \<longleftrightarrow> (\<exists>b. \<exists>bs \<in> set tags. prefix (path @ [b]) bs)"
    by (simp only: child_node_at [OF s] node_at_tree_of) simp
  also have "\<dots> \<longleftrightarrow> (\<exists>bs \<in> set tags. prefix path bs \<and> path \<noteq> bs)"
    unfolding prefix_snoc_iff [symmetric] by (rule iffI; elim exE bexE; intro bexI exI)
  also have "\<dots> \<longleftrightarrow> path \<notin> set tags"
  proof
    assume "path \<notin> set tags"
    moreover have "\<exists>bs \<in> set tags. prefix path bs"
      using node assms(2) by (cases tags) auto
    ultimately show "\<exists>bs \<in> set tags. prefix path bs \<and> path \<noteq> bs" by blast
  qed (use prefix_free_set [OF assms(1)] in blast)
  finally show "leaf s = None \<longleftrightarrow> zero s \<noteq> None \<or> one s \<noteq> None" using leaf by simp
qed

text \<open>Following the bits from the root to the first leaf.\<close>

fun walk :: "TagTree \<Rightarrow> bool list \<Rightarrow> (nat \<times> bool list) option" where
  "walk t [] = map_option (\<lambda>i. (i, [])) (leaf t)"
| "walk t (b # bs) =
     (case leaf t of Some i \<Rightarrow> Some (i, b # bs) | None \<Rightarrow> Option.bind (child b t) (\<lambda>c. walk c bs))"

lemma walk_leaf: "leaf t = Some i \<Longrightarrow> walk t bs = Some (i, bs)"
  by (cases bs) simp_all

lemma walk_Some: "walk t bs = Some (i, rest) \<Longrightarrow> \<exists>path. bs = path @ rest \<and> leaf_at t path = Some i"
proof (induction t bs rule: walk.induct)
  case (1 t)
  then show ?case by (auto simp: leaf_at_def)
next
  case (2 t b bs)
  show ?case
  proof (cases "leaf t")
    case None
    with 2 obtain c path where "child b t = Some c" "bs = path @ rest" "leaf_at c path = Some i"
      by (auto simp: bind_eq_Some_conv)
    then show ?thesis by (intro exI [of _ "b # path"]) (simp add: leaf_at_Cons)
  next
    case (Some j)
    with 2 show ?thesis by (intro exI [of _ "[]"]) (simp add: leaf_at_def)
  qed
qed

lemma proper_child: "proper t \<Longrightarrow> child b t = Some c \<Longrightarrow> proper c"
  unfolding proper_def by (metis bind.bind_lunit subtree.simps(2))

lemma proper_root: "proper t \<Longrightarrow> leaf t = None \<longleftrightarrow> zero t \<noteq> None \<or> one t \<noteq> None"
  unfolding proper_def by (metis subtree.simps(1))

lemma proper_leaf_child: "proper t \<Longrightarrow> leaf t = Some i \<Longrightarrow> child b t = None"
  using proper_root [of t] by (auto simp: child_def)

lemma walk_path:
  "proper t \<Longrightarrow> leaf_at t path = Some i \<Longrightarrow> walk t (path @ rest) = Some (i, rest)"
proof (induction path arbitrary: t)
  case Nil
  then show ?case by (simp add: leaf_at_def walk_leaf)
next
  case (Cons b path)
  then obtain c where c: "child b t = Some c" "leaf_at c path = Some i"
    by (auto simp: leaf_at_Cons bind_eq_Some_conv)
  have "leaf t = None" using proper_leaf_child [OF Cons.prems(1)] c(1) by (cases "leaf t") auto
  with c Cons.IH proper_child [OF Cons.prems(1) c(1)] show ?case by simp
qed

text \<open>The nodes at a level, and the arms of a match on so many bits.\<close>

fun level :: "nat \<Rightarrow> TagTree \<Rightarrow> (bool list \<times> TagTree) list" where
  "level 0 t = [([], t)]"
| "level (Suc r) t =
     (case zero t of None \<Rightarrow> [] | Some c \<Rightarrow> map (apfst ((#) False)) (level r c)) @
     (case one t of None \<Rightarrow> [] | Some c \<Rightarrow> map (apfst ((#) True)) (level r c))"

lemma map_of_apfst_Cons:
  "map_of (map (apfst ((#) b)) xs) path = (case path of [] \<Rightarrow> None | x # ys \<Rightarrow> if x = b then map_of xs ys else None)"
  by (induction xs) (auto split: list.splits)

lemma map_of_level: "map_of (level r t) path = (if length path = r then subtree t path else None)"
proof (induction r arbitrary: t path)
  case (Suc r)
  show ?case
    by (cases path) (auto simp: Suc.IH map_of_apfst_Cons child_def map_add_def split: option.split)
qed auto

lemma level_length: "(path, s) \<in> set (level r t) \<Longrightarrow> length path = r"
  by (induction r arbitrary: t path) (auto split: option.splits)

lemma level_subtree: "(path, s) \<in> set (level r t) \<Longrightarrow> subtree t path = Some s"
proof (induction r arbitrary: t path)
  case (Suc r)
  then show ?case by (cases "zero t"; cases "one t") (auto simp: child_def)
qed simp

definition arm_body :: "(TagTree \<Rightarrow> (derive_error + dispatch) option) \<Rightarrow> TagTree \<Rightarrow> (derive_error + dispatch) option" where
  "arm_body build s = (case is_pure_leaf s of Some idx \<Rightarrow> Some (Inr (Body idx)) | None \<Rightarrow> build s)"

lemma collect_arms_level:
  "(\<And>path s. (path, s) \<in> set (level r t) \<Longrightarrow> arm_body build s = Some (Inr (g s))) \<Longrightarrow>
   collect_arms build t r pre = Some (Inr (map (\<lambda>(path, s). (as_u64 (pre @ path), g s)) (level r t)))"
proof (induction r arbitrary: t pre)
  case 0
  then show ?case by (simp add: arm_body_def)
next
  case (Suc r)
  have z: "(case zero t of None \<Rightarrow> Some (Inr []) | Some c \<Rightarrow> collect_arms build c r (pre @ [False])) =
    Some (Inr (map (\<lambda>(path, s). (as_u64 (pre @ path), g s))
      (case zero t of None \<Rightarrow> [] | Some c \<Rightarrow> map (apfst ((#) False)) (level r c))))"
    using Suc.IH [of "the (zero t)" "pre @ [False]"] Suc.prems
    by (cases "zero t") (force simp: comp_def case_prod_unfold)+
  have o: "(case one t of None \<Rightarrow> Some (Inr []) | Some c \<Rightarrow> collect_arms build c r (pre @ [True])) =
    Some (Inr (map (\<lambda>(path, s). (as_u64 (pre @ path), g s))
      (case one t of None \<Rightarrow> [] | Some c \<Rightarrow> map (apfst ((#) True)) (level r c))))"
    using Suc.IH [of "the (one t)" "pre @ [True]"] Suc.prems
    by (cases "one t") (force simp: comp_def case_prod_unfold)+
  show ?case unfolding collect_arms.simps z o by simp
qed

lemma exec_arms_level:
  assumes "length path = r" and "r \<le> 64" and "\<forall>(q, s) \<in> set L. length q = r"
  shows "exec_arms T name (map (\<lambda>(path, s). (as_u64 path, g s)) L) (bits_nat path) p =
    (case map_of L path of
       None \<Rightarrow> Inl (''invalid '' @ name @ '' tag: '' @ dec_nat (bits_nat path))
     | Some s \<Rightarrow> exec_dispatch T name (g s) p)"
  using assms(3)
proof (induction L)
  case (Cons x L)
  obtain q s where x: "x = (q, s)" by force
  with Cons.prems assms(1,2) have "unat (as_u64 q) = bits_nat path \<longleftrightarrow> q = path"
    by (simp add: unat_as_u64 bits_nat_inject)
  with Cons x show ?case by simp
qed simp

lemma child_size: "child b t = Some c \<Longrightarrow> size c < size t"
  by (cases t) (auto simp: child_def split: if_splits)

lemma subtree_size: "subtree t path = Some s \<Longrightarrow> size s \<le> size t \<and> (path \<noteq> [] \<longrightarrow> size s < size t)"
proof (induction path arbitrary: t)
  case (Cons b path)
  then obtain c where c: "child b t = Some c" "subtree c path = Some s" by (auto simp: bind_eq_Some_conv)
  with Cons.IH [of c] child_size [of b t c] show ?case by simp
qed simp

lemma proper_subtree: "proper t \<Longrightarrow> subtree t path = Some s \<Longrightarrow> proper s"
  unfolding proper_def by (metis bind.bind_lunit subtree_append)

lemma shallow_subtree: "shallow n t \<Longrightarrow> subtree t path = Some s \<Longrightarrow> shallow n s"
  unfolding shallow_def
proof (intro allI impI)
  fix q assume n: "\<forall>path. node_at t path \<longrightarrow> length path \<le> n" and s: "subtree t path = Some s" and "node_at s q"
  then have "node_at t (path @ q)" by (simp add: node_at_def subtree_append)
  with n show "length q \<le> n" by fastforce
qed

lemma min_leaf_depth_node: "\<exists>path. length path = min_leaf_depth t \<and> node_at t path"
proof (induction t)
  case (TagTree l z w)
  have z: "\<exists>path. length path = Suc (min_leaf_depth c) \<and> node_at (TagTree l z w) path" if "z = Some c" for c
  proof -
    from TagTree.IH(1) [of c] that obtain path where "length path = min_leaf_depth c" "node_at c path" by auto
    with that show ?thesis by (intro exI [of _ "False # path"]) (simp add: node_at_Cons child_def)
  qed
  have w: "\<exists>path. length path = Suc (min_leaf_depth c) \<and> node_at (TagTree l z w) path" if "w = Some c" for c
  proof -
    from TagTree.IH(2) [of c] that obtain path where "length path = min_leaf_depth c" "node_at c path" by auto
    with that show ?thesis by (intro exI [of _ "True # path"]) (simp add: node_at_Cons child_def)
  qed
  show ?case using z w by (auto simp: min_def split: option.split)
qed

lemma min_leaf_depth_child:
  "leaf t = None \<Longrightarrow> child b t = Some c \<Longrightarrow> min_leaf_depth t \<le> Suc (min_leaf_depth c)"
  by (cases t) (auto simp: child_def split: if_splits option.split)

lemma min_leaf_depth_pos: "leaf t = None \<Longrightarrow> child b t = Some c \<Longrightarrow> 0 < min_leaf_depth t"
  by (cases t) (auto simp: child_def split: if_splits option.split)

lemma min_leaf_depth_leaf: "0 < min_leaf_depth t \<Longrightarrow> leaf t = None"
  by (cases t) (auto split: if_splits)

lemma walk_min: "walk t bs = Some (i, rest) \<Longrightarrow> min_leaf_depth t \<le> length bs"
proof (induction t bs rule: walk.induct)
  case (1 t)
  then show ?case using min_leaf_depth_leaf [of t] by auto
next
  case (2 t b bs)
  show ?case
  proof (cases "leaf t")
    case None
    with 2 obtain c where c: "child b t = Some c" "min_leaf_depth c \<le> length bs"
      by (auto simp: bind_eq_Some_conv)
    with min_leaf_depth_child [OF None c(1)] show ?thesis by simp
  next
    case (Some j)
    then show ?thesis using min_leaf_depth_leaf [of t] by (cases "0 < min_leaf_depth t") auto
  qed
qed

lemma walk_split:
  "length path \<le> min_leaf_depth t \<Longrightarrow> walk t (path @ bs) = Option.bind (subtree t path) (\<lambda>s. walk s bs)"
proof (induction path arbitrary: t)
  case (Cons b path)
  then have l: "leaf t = None" using min_leaf_depth_leaf [of t] by simp
  show ?case
  proof (cases "child b t")
    case (Some c)
    with min_leaf_depth_child [OF l Some] Cons have "length path \<le> min_leaf_depth c" by simp
    with Cons.IH Some l show ?thesis by simp
  qed (simp add: l)
qed simp

text \<open>The generated match walks the tree.\<close>

definition follows :: "('c, 'p, 'b) toner_lib \<Rightarrow> ('p \<Rightarrow> 'c view) \<Rightarrow> string \<Rightarrow> dispatch \<Rightarrow> TagTree \<Rightarrow> bool" where
  "follows T pv name d t \<longleftrightarrow>
     (\<forall>p. case walk t (fst (pv p)) of
        Some (i, rest) \<Rightarrow> (\<exists>p'. exec_dispatch T name d p = Inr (i, p') \<and> pv p' = (rest, snd (pv p)))
      | None \<Rightarrow> (\<exists>e. exec_dispatch T name d p = Inl e))"

lemma follows_Some:
  "follows T pv name d t \<Longrightarrow> walk t (fst (pv p)) = Some (i, rest) \<Longrightarrow>
   \<exists>p'. exec_dispatch T name d p = Inr (i, p') \<and> pv p' = (rest, snd (pv p))"
  unfolding follows_def by (drule spec [of _ p]) simp

lemma follows_None:
  "follows T pv name d t \<Longrightarrow> walk t (fst (pv p)) = None \<Longrightarrow> \<exists>e. exec_dispatch T name d p = Inl e"
  unfolding follows_def by (drule spec [of _ p]) simp

lemma follows_leaf: "leaf t = Some i \<Longrightarrow> follows T pv name (Body i) t"
  by (simp add: follows_def walk_leaf)

lemma follows_match:
  assumes laws: "parser_laws T pv" and r: "0 < min_leaf_depth t" "min_leaf_depth t \<le> 64"
    and sub: "\<And>path s. (path, s) \<in> set (level (min_leaf_depth t) t) \<Longrightarrow> follows T pv name (g s) s"
  shows "follows T pv name (Match depth (min_leaf_depth t)
           (map (\<lambda>(path, s). (as_u64 path, g s)) (level (min_leaf_depth t) t))) t"
  unfolding follows_def
proof
  fix p
  let ?r = "min_leaf_depth t" and ?bits = "fst (pv p)"
  let ?arms = "map (\<lambda>(path, s). (as_u64 path, g s)) (level ?r t)"
  show "case walk t ?bits of
        Some (i, rest) \<Rightarrow> (\<exists>p'. exec_dispatch T name (Match depth ?r ?arms) p = Inr (i, p') \<and> pv p' = (rest, snd (pv p)))
      | None \<Rightarrow> (\<exists>e. exec_dispatch T name (Match depth ?r ?arms) p = Inl e)"
  proof (cases "?r \<le> length ?bits")
    case False
    then have "walk t ?bits = None" using walk_min [of t ?bits] by (cases "walk t ?bits") auto
    moreover have "\<exists>e. unpack_nbits T ?r p = Inl e" using False by (intro unpack_nbits_short [OF laws]) simp
    ultimately show ?thesis by auto
  next
    case True
    let ?path = "take ?r ?bits" and ?rest = "drop ?r ?bits"
    have len: "length ?path = ?r" using True by simp
    have lens: "\<forall>(q, s) \<in> set (level ?r t). length q = ?r" by (auto dest: level_length)
    have "pv p = (?path @ ?rest, [] @ snd (pv p))" by simp
    with reads_nbits [OF laws len] obtain p1 where
      p1: "unpack_nbits T ?r p = Inr (bits_nat ?path, p1)" "pv p1 = (?rest, snd (pv p))"
      by (rule readsD)
    have "exec_dispatch T name (Match depth ?r ?arms) p =
        (case subtree t ?path of
           None \<Rightarrow> Inl (''invalid '' @ name @ '' tag: '' @ dec_nat (bits_nat ?path))
         | Some s \<Rightarrow> exec_dispatch T name (g s) p1)"
      using True by (simp add: p1(1) exec_arms_level [OF len r(2) lens] map_of_level)
    moreover have "walk t ?bits = Option.bind (subtree t ?path) (\<lambda>s. walk s ?rest)"
      using walk_split [of ?path t ?rest] len by simp
    moreover have "follows T pv name (g s) s" if "subtree t ?path = Some s" for s
    proof -
      have "map_of (level ?r t) ?path = Some s" using that len by (simp add: map_of_level)
      then show ?thesis using sub map_of_SomeD by metis
    qed
    ultimately show ?thesis
      using follows_Some [of T pv name _ _ p1] follows_None [of T pv name _ _ p1]
      by (cases "subtree t ?path") (auto simp del: exec_dispatch.simps simp: p1(2) split: option.split)
  qed
qed

lemma is_pure_leaf_proper: "proper t \<Longrightarrow> is_pure_leaf t = leaf t"
  using proper_root [of t] by (cases t) auto

lemma arm_body_build:
  "proper s \<Longrightarrow> 0 < fuel \<Longrightarrow> arm_body (dispatcher_build fuel depth) s = dispatcher_build fuel depth s"
  by (cases fuel) (simp_all add: arm_body_def split: option.split)

lemma tag_int_type_ok: "n \<le> 32 \<Longrightarrow> \<exists>w. tag_int_type n = Inr w"
  by (simp add: tag_int_type_def)

lemma dispatcher_follows:
  assumes "parser_laws T pv" and "proper t" and "shallow 32 t" and "size t < fuel"
  shows "\<exists>d. dispatcher_build fuel depth t = Some (Inr d) \<and> follows T pv name d t"
  using assms(2-)
proof (induction fuel arbitrary: t depth)
  case (Suc fuel)
  show ?case
  proof (cases "leaf t")
    case (Some i)
    with Suc.prems(1) have "dispatcher_build (Suc fuel) depth t = Some (Inr (Body i))"
      by (simp add: is_pure_leaf_proper)
    with follows_leaf [OF Some] show ?thesis by blast
  next
    case None
    let ?r = "min_leaf_depth t" and ?build = "dispatcher_build fuel (depth + 1)"
    from None Suc.prems(1) obtain b c where "child b t = Some c"
      using proper_root [of t] by (fastforce simp: child_def)
    then have r: "0 < ?r" by (rule min_leaf_depth_pos [OF None])
    have r32: "?r \<le> 32" using min_leaf_depth_node [of t] Suc.prems(2) by (auto simp: shallow_def)
    have sub: "\<exists>d. ?build s = Some (Inr d) \<and> arm_body ?build s = Some (Inr d) \<and> follows T pv name d s"
      if "(path, s) \<in> set (level ?r t)" for path s
    proof -
      have s: "subtree t path = Some s" "path \<noteq> []"
        using level_subtree [OF that] level_length [OF that] r by auto
      then have "size s < fuel" using subtree_size [OF s(1)] Suc.prems(3) by simp
      with Suc.IH [of s "depth + 1"] proper_subtree [OF Suc.prems(1) s(1)] shallow_subtree [OF Suc.prems(2) s(1)]
      show ?thesis by (auto simp: arm_body_build)
    qed
    let ?g = "\<lambda>s. projr (the (?build s))"
    have "arm_body ?build s = Some (Inr (?g s))" "follows T pv name (?g s) s"
      if "(path, s) \<in> set (level ?r t)" for path s
      using sub [OF that] by auto
    note g = this
    have "collect_arms ?build t ?r [] = Some (Inr (map (\<lambda>(path, s). (as_u64 path, ?g s)) (level ?r t)))"
      using collect_arms_level [of ?r t ?build ?g "[]"] g(1) by simp
    then have "dispatcher_build (Suc fuel) depth t =
        Some (Inr (Match depth ?r (map (\<lambda>(path, s). (as_u64 path, ?g s)) (level ?r t))))"
      using None tag_int_type_ok [OF r32] Suc.prems(1) by (auto simp: is_pure_leaf_proper Let_def)
    moreover have "follows T pv name (Match depth ?r (map (\<lambda>(path, s). (as_u64 path, ?g s)) (level ?r t))) t"
      using assms(1) r r32 g(2) by (intro follows_match) auto
    ultimately show ?thesis by blast
  qed
qed simp

text \<open>
  For prefix-free tags of at most 32 bits the macro ends with a dispatcher that returns the variant whose
  tag leads the bits, and an error when there is none.
\<close>

lemma dispatcher_exact:
  assumes laws: "parser_laws T pv" and tags: "prefix_free tags" "tags \<noteq> []" "\<forall>bs \<in> set tags. length bs \<le> 32"
    and fuel: "size (tree_of tags) < fuel"
  obtains d where "dispatcher_build fuel depth (tree_of tags) = Some (Inr d)"
    and "\<And>p i rest. i < length tags \<Longrightarrow> fst (pv p) = tags ! i @ rest \<Longrightarrow>
           \<exists>p'. exec_dispatch T name d p = Inr (i, p') \<and> pv p' = (rest, snd (pv p))"
    and "\<And>p. \<not> (\<exists>bs \<in> set tags. prefix bs (fst (pv p))) \<Longrightarrow> \<exists>e. exec_dispatch T name d p = Inl e"
proof -
  have proper: "proper (tree_of tags)" by (rule proper_tree_of [OF tags(1,2)])
  have "shallow 32 (tree_of tags)"
    using tags(3) by (auto simp: shallow_def node_at_tree_of dest!: prefix_length_le)
  from dispatcher_follows [OF laws proper this fuel, of depth name] obtain d where
    d: "dispatcher_build fuel depth (tree_of tags) = Some (Inr d)" and f: "follows T pv name d (tree_of tags)"
    by blast
  show thesis
  proof (rule that [OF d])
    fix p i rest assume i: "i < length tags" "fst (pv p) = tags ! i @ rest"
    have "walk (tree_of tags) (fst (pv p)) = Some (i, rest)"
      unfolding i(2) by (rule walk_path [OF proper leaf_at_tree_of [OF prefix_free_distinct [OF tags(1)] i(1)]])
    with f show "\<exists>p'. exec_dispatch T name d p = Inr (i, p') \<and> pv p' = (rest, snd (pv p))"
      by (rule follows_Some)
  next
    fix p assume n: "\<not> (\<exists>bs \<in> set tags. prefix bs (fst (pv p)))"
    have "walk (tree_of tags) (fst (pv p)) = None"
    proof (rule ccontr)
      assume "walk (tree_of tags) (fst (pv p)) \<noteq> None"
      then obtain i rest where "walk (tree_of tags) (fst (pv p)) = Some (i, rest)" by auto
      from walk_Some [OF this] obtain path where path: "fst (pv p) = path @ rest" "leaf_at (tree_of tags) path = Some i"
        by blast
      then have "path \<in> set tags" using leaf_at_tree_of_iff [of tags path] by simp
      with n path(1) show False by auto
    qed
    with f show "\<exists>e. exec_dispatch T name d p = Inl e" by (rule follows_None)
  qed
qed

text \<open>A tag that another one extends makes the macro recurse for ever.\<close>

lemma overlapping_tags_diverge:
  "zero t \<noteq> None \<or> one t \<noteq> None \<Longrightarrow> leaf t = Some i \<Longrightarrow> dispatcher_build fuel depth t = None"
proof (induction fuel arbitrary: depth)
  case (Suc fuel)
  then show ?case by (cases t) (auto simp: tag_int_type_def Let_def)
qed simp

lemma overlapping_tags_example: "dispatcher_build fuel 0 (tree_of [[], [True]]) = None"
  by (rule overlapping_tags_diverge [where i = 0]) (simp_all add: tree_of_def tag_tree_new_def)

section \<open>Fields and blocks\<close>

text \<open>The calls of the fields, in order.\<close>

definition read_calls :: "stmt list \<Rightarrow> (string \<times> method_call) list" where
  "read_calls ss = concat (map (\<lambda>s. case s of FieldStmt _ ctx call \<Rightarrow> [(ctx, call)] | _ \<Rightarrow> []) ss)"

definition write_calls :: "wstmt list \<Rightarrow> (string \<times> method_call) list" where
  "write_calls ss = concat (map (\<lambda>s. case s of WriteStmt _ _ ctx call \<Rightarrow> [(ctx, call)] | _ \<Rightarrow> []) ss)"

text \<open>Each field is read back by its reader: one reader, one writer and one value per field.\<close>

fun fields_codec :: "('p \<Rightarrow> 'c view) \<Rightarrow> ('b \<Rightarrow> 'c view) \<Rightarrow> (string \<Rightarrow> method_call \<Rightarrow> 'p \<Rightarrow> string + 'v \<times> 'p)
    \<Rightarrow> (string \<Rightarrow> method_call \<Rightarrow> 'v \<Rightarrow> 'b \<Rightarrow> string + 'b) \<Rightarrow> (string \<times> method_call) list
    \<Rightarrow> (string \<times> method_call) list \<Rightarrow> 'v list \<Rightarrow> bool" where
  "fields_codec pv bv rd wr [] [] [] \<longleftrightarrow> True"
| "fields_codec pv bv rd wr ((rc, r) # rs) ((wc, w) # ws) (v # vs) \<longleftrightarrow>
     codec pv bv (rd rc r) (wr wc w v) v \<and> fields_codec pv bv rd wr rs ws vs"
| "fields_codec _ _ _ _ _ _ _ \<longleftrightarrow> False"

text \<open>
  Inside a block: the rest of the block goes to the child cell, which is attached where it ends, and what
  follows the block goes to the parent.
\<close>

definition block_codec :: "('c, 'p, 'b) toner_lib \<Rightarrow> ('p \<Rightarrow> 'c view) \<Rightarrow> ('b \<Rightarrow> 'c view)
    \<Rightarrow> ('p \<Rightarrow> 'p \<Rightarrow> string + 'v \<times> 'p) \<Rightarrow> ('b \<Rightarrow> 'b \<Rightarrow> string + 'b) \<Rightarrow> 'v \<Rightarrow> bool" where
  "block_codec T pv bv rd wr v \<longleftrightarrow>
     (\<forall>b sb b'. wr b sb = Inr b' \<longrightarrow> (\<exists>sb' bs1 rs1 bs2 rs2.
        bv sb' = (fst (bv sb) @ bs1, snd (bv sb) @ rs1) \<and>
        bv b' = (fst (bv b) @ bs2, snd (bv b) @ into_cell T sb' # rs2) \<and>
        (\<forall>p q xs ys. pv q = (bs1, rs1) \<longrightarrow> pv p = (bs2 @ xs, rs2 @ ys) \<longrightarrow>
           (\<exists>p'. rd p q = Inr (v, p') \<and> pv p' = (xs, ys)))))"

lemma block_codecD:
  assumes "block_codec T pv bv rd wr v" and "wr b sb = Inr b'"
  obtains sb' bs1 rs1 bs2 rs2 where "bv sb' = (fst (bv sb) @ bs1, snd (bv sb) @ rs1)"
    and "bv b' = (fst (bv b) @ bs2, snd (bv b) @ into_cell T sb' # rs2)"
    and "\<And>p q xs ys. pv q = (bs1, rs1) \<Longrightarrow> pv p = (bs2 @ xs, rs2 @ ys) \<Longrightarrow>
           \<exists>p'. rd p q = Inr (v, p') \<and> pv p' = (xs, ys)"
  using assms unfolding block_codec_def by meson

lemma block_open:
  assumes T: "toner_laws T pv bv" and c: "block_codec T pv bv rd wr v"
  shows "codec pv bv (\<lambda>p. bindr (map_err f (parse_ref T p)) (\<lambda>(c, p'). rd p' (cell_parser T c)))
    (\<lambda>b. wr b (cell_builder T)) v"
proof (rule codecI)
  fix b b' assume "wr b (cell_builder T) = Inr b'"
  with c obtain sb' bs1 rs1 bs2 rs2
    where sb: "bv sb' = (fst (bv (cell_builder T)) @ bs1, snd (bv (cell_builder T)) @ rs1)"
      and b': "bv b' = (fst (bv b) @ bs2, snd (bv b) @ into_cell T sb' # rs2)"
      and r: "\<And>p q xs ys. pv q = (bs1, rs1) \<Longrightarrow> pv p = (bs2 @ xs, rs2 @ ys) \<Longrightarrow>
           \<exists>p'. rd p q = Inr (v, p') \<and> pv p' = (xs, ys)"
    by (rule block_codecD) blast
  have q: "pv (cell_parser T (into_cell T sb')) = (bs1, rs1)"
    using sb by (simp add: into_cell_view [OF T] builder_view [OF T])
  have pl: "parser_laws T pv" using T by (simp add: toner_laws_def)
  have ref: "reads pv (\<lambda>p. map_err f (parse_ref T p)) [] [into_cell T sb'] (into_cell T sb')"
    by (simp add: reads_context reads_ref [OF pl])
  have "reads pv (\<lambda>p'. rd p' (cell_parser T (into_cell T sb'))) bs2 rs2 v"
    by (rule readsI) (rule r [OF q])
  from reads_bind [of pv _ _ _ _ "\<lambda>c p'. rd p' (cell_parser T c)", OF ref this]
  have "reads pv (\<lambda>p. bindr (map_err f (parse_ref T p)) (\<lambda>(c, p'). rd p' (cell_parser T c)))
      bs2 (into_cell T sb' # rs2) v" by simp
  with b' show "\<exists>bs rs. bv b' = (fst (bv b) @ bs, snd (bv b) @ rs) \<and>
      reads pv (\<lambda>p. bindr (map_err f (parse_ref T p)) (\<lambda>(c, p'). rd p' (cell_parser T c))) bs rs v"
    by blast
qed

lemma block_field:
  assumes c: "codec pv bv rd wr v" and k: "block_codec T pv bv (\<lambda>p q. k p q) wk vs"
  shows "block_codec T pv bv
    (\<lambda>p q. bindr (map_err f (rd q)) (\<lambda>(x, q'). bindr (k p q') (\<lambda>(xs, p'). Inr (x # xs, p'))))
    (\<lambda>b sb. bindr (map_err g (wr sb)) (\<lambda>sb'. wk b sb')) (v # vs)"
  unfolding block_codec_def
proof (intro allI impI)
  fix b sb b' assume "bindr (map_err g (wr sb)) (\<lambda>sb'. wk b sb') = Inr b'"
  then obtain sb1 where w: "wr sb = Inr sb1" "wk b sb1 = Inr b'"
    by (auto simp: bindr_eq_Inr map_err_eq_Inr)
  from c w(1) obtain bs rs where v1: "bv sb1 = (fst (bv sb) @ bs, snd (bv sb) @ rs)" and r: "reads pv rd bs rs v"
    by (rule codecD)
  from k w(2) obtain sb' bs1 rs1 bs2 rs2
    where v2: "bv sb' = (fst (bv sb1) @ bs1, snd (bv sb1) @ rs1)"
      and b': "bv b' = (fst (bv b) @ bs2, snd (bv b) @ into_cell T sb' # rs2)"
      and r2: "\<And>p q xs ys. pv q = (bs1, rs1) \<Longrightarrow> pv p = (bs2 @ xs, rs2 @ ys) \<Longrightarrow>
           \<exists>p'. k p q = Inr (vs, p') \<and> pv p' = (xs, ys)"
    by (rule block_codecD) blast
  have "\<exists>p'. bindr (map_err f (rd q)) (\<lambda>(x, q'). bindr (k p q') (\<lambda>(xs, p'). Inr (x # xs, p'))) = Inr (v # vs, p')
      \<and> pv p' = (xs, ys)"
    if "pv q = (bs @ bs1, rs @ rs1)" "pv p = (bs2 @ xs, rs2 @ ys)" for p q xs ys
  proof -
    from r that(1) obtain q' where "rd q = Inr (v, q')" "pv q' = (bs1, rs1)" by (rule readsD)
    with r2 [of q' p xs ys] that(2) show ?thesis by auto
  qed
  with v1 v2 b' show "\<exists>sb' bs1 rs1 bs2 rs2.
        bv sb' = (fst (bv sb) @ bs1, snd (bv sb) @ rs1) \<and>
        bv b' = (fst (bv b) @ bs2, snd (bv b) @ into_cell T sb' # rs2) \<and>
        (\<forall>p q xs ys. pv q = (bs1, rs1) \<longrightarrow> pv p = (bs2 @ xs, rs2 @ ys) \<longrightarrow>
           (\<exists>p'. bindr (map_err f (rd q)) (\<lambda>(x, q'). bindr (k p q') (\<lambda>(xs, p'). Inr (x # xs, p'))) = Inr (v # vs, p')
              \<and> pv p' = (xs, ys)))"
    by (intro exI [of _ sb'] exI [of _ "bs @ bs1"] exI [of _ "rs @ rs1"] exI [of _ bs2] exI [of _ rs2]) auto
qed

lemma block_close:
  assumes T: "toner_laws T pv bv" and c: "codec pv bv rd wr v"
  shows "block_codec T pv bv
    (\<lambda>p q. bindr (map_err f (ensure_empty T q)) (\<lambda>_. rd p))
    (\<lambda>b sb. bindr (map_err g (store_ref T (into_cell T sb) b)) wr) v"
  unfolding block_codec_def
proof (intro allI impI)
  fix b sb b' assume "bindr (map_err g (store_ref T (into_cell T sb) b)) wr = Inr b'"
  then obtain b1 where w: "store_ref T (into_cell T sb) b = Inr b1" "wr b1 = Inr b'"
    by (auto simp: bindr_eq_Inr map_err_eq_Inr)
  from c w(2) obtain bs rs where v: "bv b' = (fst (bv b1) @ bs, snd (bv b1) @ rs)" and r: "reads pv rd bs rs v"
    by (rule codecD)
  have b1: "bv b1 = (fst (bv b), snd (bv b) @ [into_cell T sb])"
    using T w(1) by (simp add: toner_laws_def builder_laws_def)
  have "ensure_empty T q = Inr ()" if "pv q = ([], [])" for q
    using T that by (simp add: toner_laws_def ensure_empty_iff [of T pv])
  with v r b1 show "\<exists>sb' bs1 rs1 bs2 rs2.
        bv sb' = (fst (bv sb) @ bs1, snd (bv sb) @ rs1) \<and>
        bv b' = (fst (bv b) @ bs2, snd (bv b) @ into_cell T sb' # rs2) \<and>
        (\<forall>p q xs ys. pv q = (bs1, rs1) \<longrightarrow> pv p = (bs2 @ xs, rs2 @ ys) \<longrightarrow>
           (\<exists>p'. bindr (map_err f (ensure_empty T q)) (\<lambda>_. rd p) = Inr (v, p') \<and> pv p' = (xs, ys)))"
    by (intro exI [of _ sb] exI [of _ "[]"] exI [of _ bs] exI [of _ rs]) (auto simp: reads_def)
qed

lemma read_calls_simps [simp]:
  "read_calls [] = []"
  "read_calls (OpenBlock # ss) = read_calls ss"
  "read_calls (CloseBlock # ss) = read_calls ss"
  "read_calls (FieldStmt i ctx call # ss) = (ctx, call) # read_calls ss"
  by (simp_all add: read_calls_def)

lemma write_calls_simps [simp]:
  "write_calls [] = []"
  "write_calls (NewBuilder # ws) = write_calls ws"
  "write_calls (AttachCell # ws) = write_calls ws"
  "write_calls (WriteStmt i a ctx call # ws) = (ctx, call) # write_calls ws"
  by (simp_all add: write_calls_def)

lemma fields_codec_Cons:
  "fields_codec pv bv rd wr ((rc, r) # rs) ((wc, w) # ws) vs \<longleftrightarrow>
   (\<exists>v vs'. vs = v # vs' \<and> codec pv bv (rd rc r) (wr wc w v) v \<and> fields_codec pv bv rd wr rs ws vs')"
  by (cases vs) auto

lemma fields_codec_Nil: "fields_codec pv bv rd wr [] [] vs \<longleftrightarrow> vs = []"
  by (cases vs) auto

text \<open>A block that is open to the end of the statements, or none.\<close>

definition stmts_codec where
  "stmts_codec T pv bv rd wr inside ss ws vs \<longleftrightarrow>
     (if inside
      then block_codec T pv bv (\<lambda>p q. exec_stmts T rd ss p (Some q)) (\<lambda>b sb. exec_wstmts T wr ws vs b (Some sb)) vs
      else codec pv bv (\<lambda>p. exec_stmts T rd ss p None) (\<lambda>b. exec_wstmts T wr ws vs b None) vs)"

lemma stmts_codec_close:
  "toner_laws T pv bv \<Longrightarrow> stmts_codec T pv bv rd wr False ss ws vs \<Longrightarrow>
   stmts_codec T pv bv rd wr True (CloseBlock # ss) (AttachCell # ws) vs"
  using block_close [of T pv bv "\<lambda>p. exec_stmts T rd ss p None" "\<lambda>b. exec_wstmts T wr ws vs b None" vs]
  by (simp add: stmts_codec_def)

lemma stmts_codec_open:
  "toner_laws T pv bv \<Longrightarrow> stmts_codec T pv bv rd wr True ss ws vs \<Longrightarrow>
   stmts_codec T pv bv rd wr False (OpenBlock # ss) (NewBuilder # ws) vs"
  using block_open [of T pv bv "\<lambda>p q. exec_stmts T rd ss p (Some q)" "\<lambda>b sb. exec_wstmts T wr ws vs b (Some sb)" vs]
  by (simp add: stmts_codec_def)

lemma stmts_codec_field:
  assumes "codec pv bv (rd rc r) (wr wc w v) v" and "stmts_codec T pv bv rd wr inside ss ws vs"
  shows "stmts_codec T pv bv rd wr inside (FieldStmt inside rc r # ss) (WriteStmt inside a wc w # ws) (v # vs)"
proof (cases inside)
  case True
  with assms(2) block_field [OF assms(1), of T "\<lambda>p q. exec_stmts T rd ss p (Some q)"
      "\<lambda>b sb. exec_wstmts T wr ws vs b (Some sb)" vs]
  show ?thesis by (simp add: stmts_codec_def)
next
  case False
  with assms(2) have tail: "codec pv bv (\<lambda>p. exec_stmts T rd ss p None) (\<lambda>b. exec_wstmts T wr ws vs b None) vs"
    by (simp add: stmts_codec_def)
  from codec_bind [of pv bv _ _ _ "\<lambda>x p1. bindr (exec_stmts T rd ss p1 None) (\<lambda>(xs, p'). Inr (x # xs, p'))",
      OF codec_context [OF assms(1)] codec_map [OF tail]] False
  show ?thesis by (simp add: stmts_codec_def)
qed

lemma gen_stmts_codec:
  assumes T: "toner_laws T pv bv"
  shows "list_all2 (\<lambda>e e'. separate_cell e = separate_cell e') es es' \<Longrightarrow>
    reader_gen_field_stmts inside es = Inr ss \<Longrightarrow> writer_gen_field_stmts inside es' = Inr ws \<Longrightarrow>
    fields_codec pv bv rd wr (read_calls ss) (write_calls ws) vs \<Longrightarrow>
    stmts_codec T pv bv rd wr inside ss ws vs"
proof (induction es arbitrary: inside es' ss ws vs)
  case Nil
  then show ?case
    using codec_return by (auto simp: stmts_codec_def fields_codec_Nil split: if_splits)
next
  case (Cons e es)
  from Cons.prems(1) obtain e' es'' where es': "es' = e' # es''" and m: "separate_cell e' = separate_cell e"
    and tail: "list_all2 (\<lambda>e e'. separate_cell e = separate_cell e') es es''"
    by (auto simp: list_all2_Cons1)
  let ?op = "opens (separate_cell e)" and ?cl = "closes (separate_cell e)"
  let ?block = "inside \<or> ?op"
  from Cons.prems(2) obtain ss1 where legal: "\<not> (inside \<and> ?op)" "\<not> (\<not> inside \<and> \<not> ?op \<and> ?cl)"
    and r: "reader_gen_field_stmts (?block \<and> \<not> ?cl) es = Inr ss1"
    and ss: "ss = (if ?op then [OpenBlock] else []) @ [field_stmt ?block e] @ (if ?cl then [CloseBlock] else []) @ ss1"
    by (auto simp: Let_def map_ok_eq_Inr split: if_splits)
  from Cons.prems(3) es' m legal obtain ws1 where w: "writer_gen_field_stmts (?block \<and> \<not> ?cl) es'' = Inr ws1"
    and ws: "ws = (if ?op then [NewBuilder] else []) @
      [WriteStmt ?block (binding e') (entry_context e') (writer_gen_field_call e')] @ (if ?cl then [AttachCell] else []) @ ws1"
    by (auto simp: Let_def map_ok_eq_Inr split: if_splits)
  from Cons.prems(4) obtain v vs1 where vs: "vs = v # vs1"
    and c: "codec pv bv (rd (entry_context e) (gen_field_call e)) (wr (entry_context e') (writer_gen_field_call e') v) v"
    and f: "fields_codec pv bv rd wr (read_calls ss1) (write_calls ws1) vs1"
    by (auto simp: ss ws field_stmt_def fields_codec_Cons split: if_splits)
  have rest: "stmts_codec T pv bv rd wr ?block ((if ?cl then [CloseBlock] else []) @ ss1)
      ((if ?cl then [AttachCell] else []) @ ws1) vs1"
    using Cons.IH [OF tail r w f] stmts_codec_close [OF T] legal by auto
  from stmts_codec_field [OF c rest, of "binding e'"] legal
  show ?case by (cases ?op) (auto simp: ss ws vs field_stmt_def intro: stmts_codec_open [OF T])
qed

section \<open>Derived structs and enums\<close>

lemma build_entry_markers:
  "reader_build_entry BR named (n, raw) = Inr e \<Longrightarrow> separate_cell e = cell_marker raw"
  "writer_build_entry BW named' access (n, raw) = Inr e' \<Longrightarrow> separate_cell e' = cell_marker raw"
  by (auto simp: reader_build_entry_def writer_build_entry_def bindr_eq_Inr)

lemma build_entries_markers:
  assumes "reader_build_entries BR named raws = Inr es" and "writer_build_entries BW named' access raws = Inr es'"
  shows "list_all2 (\<lambda>e e'. separate_cell e = separate_cell e') es es'"
  using assms unfolding reader_build_entries_def writer_build_entries_def try_map_eq_Inr list_all2_conv_all_nth
  by (metis build_entry_markers surj_pair)

lemma tag_int_type_le: "tag_int_type n = Inr w \<Longrightarrow> n \<le> 32"
  by (auto simp: tag_int_type_def split: if_splits)

lemma gen_tag_store_eq:
  "gen_tag_store tag = Inr st \<Longrightarrow>
   st = (length (tag_bits tag), as_u64 (tag_bits tag)) \<and> length (tag_bits tag) \<le> 32"
  by (auto simp: gen_tag_store_def bindr_eq_Inr dest: tag_int_type_le)

text \<open>Storing a tag appends its bits.\<close>

lemma exec_tag_store_view:
  assumes T: "toner_laws T pv bv" and len: "length bs \<le> 32"
    and st: "exec_tag_store T (length bs, as_u64 bs) b = Inr b'"
  shows "bv b' = (fst (bv b) @ bs, snd (bv b))"
proof -
  have u: "unat (as_u64 bs) = bits_nat bs" using len by (simp add: unat_as_u64)
  have "pack_nbits T (length bs) (bits_nat bs) b = Inr b'"
    using st by (simp add: exec_tag_store_def map_err_eq_Inr u)
  from pack_nbits_view [OF T bits_nat_less this] show ?thesis by (simp add: nat_bits_nat)
qed

lemma tag_check_codec:
  assumes T: "toner_laws T pv bv" and len: "length bs \<le> 32"
  shows "codec pv bv (exec_tag_check T (name, length bs, as_u64 bs)) (exec_tag_store T (length bs, as_u64 bs)) ()"
proof (rule codecI)
  fix b b' assume "exec_tag_store T (length bs, as_u64 bs) b = Inr b'"
  from exec_tag_store_view [OF T len this] have "bv b' = (fst (bv b) @ bs, snd (bv b) @ [])" by simp
  moreover have "reads pv (exec_tag_check T (name, length bs, as_u64 bs)) bs [] ()"
  proof (rule readsI)
    fix p xs ys assume p: "pv p = (bs @ xs, [] @ ys)"
    from T have "reads pv (unpack_nbits T (length bs)) bs [] (bits_nat bs)"
      by (intro reads_nbits) (simp_all add: toner_laws_def)
    from readsD [OF this p] obtain p' where "unpack_nbits T (length bs) p = Inr (bits_nat bs, p')" "pv p' = (xs, ys)" .
    with len show "\<exists>p'. exec_tag_check T (name, length bs, as_u64 bs) p = Inr ((), p') \<and> pv p' = (xs, ys)"
      by (simp add: exec_tag_check_def unat_as_u64)
  qed
  ultimately show "\<exists>bs' rs. bv b' = (fst (bv b) @ bs', snd (bv b) @ rs) \<and>
      reads pv (exec_tag_check T (name, length bs, as_u64 bs)) bs' rs ()" by blast
qed

lemma derived_struct_roundtrip:
  assumes T: "toner_laws T pv bv" and fs: "input_data inp = DataStruct fs"
    and R: "reader_expand fuel BR inp = Some (Inr (ReadStruct check ss))"
    and W: "writer_expand BW inp = Inr (WriteStruct st ws)"
    and f: "fields_codec pv bv (rd 0) (wr 0) (read_calls ss) (write_calls ws) xs"
  shows "codec pv bv (run_reader T rd (ReadStruct check ss)) (run_writer T wr (WriteStruct st ws) (0, xs)) (0, xs)"
proof -
  from R fs obtain tag named raws es where r: "parse_container_attrs inp = Inr tag"
      "struct_fields fs = Inr (named, raws)" "reader_build_entries BR named raws = Inr es"
      "reader_gen_field_stmts False es = Inr ss"
      "(case tag of None \<Rightarrow> Inr None | Some t \<Rightarrow> map_ok Some (gen_tag_check t (input_ident inp))) = Inr check"
    by (auto simp: reader_expand_def reader_expand_struct_def bindr_eq_Inr)
  from W fs r(1,2) obtain es' where w: "writer_build_entries BW named SelfDirect raws = Inr es'"
      "writer_gen_field_stmts False es' = Inr ws"
      "(case tag of None \<Rightarrow> Inr None | Some t \<Rightarrow> map_ok Some (gen_tag_store t)) = Inr st"
    by (auto simp: writer_expand_def writer_expand_struct_def bindr_eq_Inr)
  from gen_stmts_codec [OF T build_entries_markers [OF r(3) w(1)] r(4) w(2) f]
  have body: "codec pv bv (\<lambda>p. exec_stmts T (rd 0) ss p None) (\<lambda>b. exec_wstmts T (wr 0) ws xs b None) xs"
    by (simp add: stmts_codec_def)
  have tag: "codec pv bv (\<lambda>p. case check of None \<Rightarrow> Inr ((), p) | Some c \<Rightarrow> exec_tag_check T c p)
      (\<lambda>b. case st of None \<Rightarrow> Inr b | Some s \<Rightarrow> exec_tag_store T s b) ()"
  proof (cases tag)
    case None
    with r(5) w(3) show ?thesis using codec_return by auto
  next
    case (Some t)
    with w(3) gen_tag_store_eq [of t] have "length (tag_bits t) \<le> 32"
      "st = Some (length (tag_bits t), as_u64 (tag_bits t))" by (auto simp: map_ok_eq_Inr)
    moreover from Some r(5) have "check = Some (input_ident inp, length (tag_bits t), as_u64 (tag_bits t))"
      by (auto simp: gen_tag_check_def bindr_eq_Inr map_ok_eq_Inr)
    ultimately show ?thesis using tag_check_codec [OF T] by simp
  qed
  from codec_bind [of pv bv _ _ _ "\<lambda>_ p'. bindr (exec_stmts T (rd 0) ss p' None) (\<lambda>(vs, p''). Inr ((0, vs), p''))",
      OF tag codec_map [OF body]]
  show ?thesis by (rule codec_eq) simp_all
qed

lemma try_map_nth: "try_map f xs = Inr ys \<Longrightarrow> i < length xs \<Longrightarrow> f (xs ! i) = Inr (ys ! i)"
  by (simp add: try_map_eq_Inr list_all2_conv_all_nth)

lemma try_map_length: "try_map f xs = Inr ys \<Longrightarrow> length ys = length xs"
  by (simp add: try_map_eq_Inr list_all2_lengthD)

lemma variant_codec:
  assumes T: "toner_laws T pv bv" and r: "gen_variant_body BR v = Inr ss" and w: "gen_variant_arm BW v = Inr (tag, ws)"
    and f: "fields_codec pv bv rd wr (read_calls ss) (write_calls ws) xs"
  shows "codec pv bv (\<lambda>p. exec_stmts T rd ss p None) (\<lambda>b. exec_wstmts T wr ws xs b None) xs"
proof (cases "info_fields v = []")
  case True
  with r w f show ?thesis
    using codec_return by (auto simp: gen_variant_body_def gen_variant_arm_def bindr_eq_Inr fields_codec_Nil)
next
  case False
  with r obtain es where es: "reader_build_entries BR True (info_fields v) = Inr es" "reader_gen_field_stmts False es = Inr ss"
    by (auto simp: gen_variant_body_def bindr_eq_Inr)
  from False w obtain named es' where "writer_build_entries BW named Binding (info_fields v) = Inr es'"
    "writer_gen_field_stmts False es' = Inr ws"
    by (auto simp: gen_variant_arm_def Let_def bindr_eq_Inr map_ok_eq_Inr)
  with es gen_stmts_codec [OF T build_entries_markers [OF es(1)] es(2) _ f] show ?thesis
    by (auto simp: stmts_codec_def)
qed

lemma variant_tag:
  "gen_variant_arm BW v = Inr (tag, ws) \<Longrightarrow>
   tag = (length (tag_bits (info_tag v)), as_u64 (tag_bits (info_tag v))) \<and> length (tag_bits (info_tag v)) \<le> 32"
  by (auto simp: gen_variant_arm_def Let_def bindr_eq_Inr map_ok_eq_Inr dest!: gen_tag_store_eq split: if_splits)

text \<open>
  The variant is chosen by the tag that was stored, and a cell that starts with no tag is rejected.
\<close>

lemma enum_variant_codec:
  assumes T: "toner_laws T pv bv"
    and d: "\<And>p rest. fst (pv p) = bs @ rest \<Longrightarrow> \<exists>p'. exec_dispatch T name d p = Inr (i, p') \<and> pv p' = (rest, snd (pv p))"
    and len: "length bs \<le> 32" and arm: "arms ! i = ((length bs, as_u64 bs), ws)"
    and body: "codec pv bv (\<lambda>p. exec_stmts T (rd i) (bodies ! i) p None) (\<lambda>b. exec_wstmts T (wr i) ws xs b None) xs"
  shows "codec pv bv (run_reader T rd (ReadEnum name d bodies)) (run_writer T wr (WriteEnum arms) (i, xs)) (i, xs)"
proof -
  have tag: "codec pv bv (exec_dispatch T name d) (exec_tag_store T (length bs, as_u64 bs)) i"
  proof (rule codecI)
    fix b b' assume "exec_tag_store T (length bs, as_u64 bs) b = Inr b'"
    from exec_tag_store_view [OF T len this] have "bv b' = (fst (bv b) @ bs, snd (bv b) @ [])" by simp
    moreover have "reads pv (exec_dispatch T name d) bs [] i"
    proof (rule readsI)
      fix p xs ys assume "pv p = (bs @ xs, [] @ ys)"
      with d [of p xs] show "\<exists>p'. exec_dispatch T name d p = Inr (i, p') \<and> pv p' = (xs, ys)" by simp
    qed
    ultimately show "\<exists>bs rs. bv b' = (fst (bv b) @ bs, snd (bv b) @ rs) \<and> reads pv (exec_dispatch T name d) bs rs i"
      by blast
  qed
  from codec_bind [of pv bv _ _ _ "\<lambda>i p'. bindr (exec_stmts T (rd i) (bodies ! i) p' None) (\<lambda>(vs, p''). Inr ((i, vs), p''))",
      OF tag codec_map [OF body]]
  show ?thesis by (rule codec_eq) (simp_all add: arm)
qed

text \<open>
  C23. The derives on an enum with prefix-free tags: the macro for the reader ends, the reader it generates
  reads back every variant the generated writer writes, with its fields and the child cells of its
  blocks, and it rejects a cell that starts with no tag of the enum. The fields are codecs of their own types.
\<close>

theorem derived_enum_roundtrip:
  assumes T: "toner_laws T pv bv"
    and enum: "input_data inp = DataEnum raws" "try_map parse_variant raws = Inr vs"
    and W: "writer_expand BW inp = Inr (WriteEnum arms)"
    and bodies: "try_map (gen_variant_body BR) vs = Inr bodies"
    and tags: "prefix_free (map (tag_bits \<circ> info_tag) vs)" and fuel: "size (tag_tree vs) < fuel"
  shows "\<exists>d. reader_expand fuel BR inp = Some (Inr (ReadEnum (input_ident inp) d bodies)) \<and>
    (\<forall>i xs. i < length vs \<longrightarrow>
       fields_codec pv bv (rd i) (wr i) (read_calls (bodies ! i)) (write_calls (snd (arms ! i))) xs \<longrightarrow>
       codec pv bv (run_reader T rd (ReadEnum (input_ident inp) d bodies))
         (run_writer T wr (WriteEnum arms) (i, xs)) (i, xs)) \<and>
    (\<forall>p. (\<forall>v \<in> set vs. \<not> prefix (tag_bits (info_tag v)) (fst (pv p))) \<longrightarrow>
       (\<exists>e. run_reader T rd (ReadEnum (input_ident inp) d bodies) p = Inl e))"
proof -
  let ?tags = "map (tag_bits \<circ> info_tag) vs"
  from W enum obtain t where t: "parse_container_attrs inp = Inr t" "vs \<noteq> []" "try_map (gen_variant_arm BW) vs = Inr arms"
    by (auto simp: writer_expand_def writer_expand_enum_def bindr_eq_Inr map_ok_eq_Inr split: if_splits)
  have arm: "gen_variant_arm BW (vs ! i) = Inr (arms ! i)" if "i < length vs" for i
    by (rule try_map_nth [OF t(3) that])
  have short: "\<forall>bs \<in> set ?tags. length bs \<le> 32"
  proof
    fix bs assume "bs \<in> set ?tags"
    then obtain i where "i < length vs" "bs = tag_bits (info_tag (vs ! i))" by (auto simp: in_set_conv_nth)
    with variant_tag [of BW "vs ! i" "fst (arms ! i)" "snd (arms ! i)"] arm [of i]
    show "length bs \<le> 32" by simp
  qed
  have laws: "parser_laws T pv" using T by (simp add: toner_laws_def)
  have ne: "?tags \<noteq> []" and fuel': "size (tree_of ?tags) < fuel" using t(2) fuel by (simp_all add: tag_tree_eq)
  obtain d where build: "dispatcher_build fuel 0 (tree_of ?tags) = Some (Inr d)"
    and hit: "\<And>p i rest. i < length ?tags \<Longrightarrow> fst (pv p) = ?tags ! i @ rest \<Longrightarrow>
           \<exists>p'. exec_dispatch T (input_ident inp) d p = Inr (i, p') \<and> pv p' = (rest, snd (pv p))"
    and miss: "\<And>p. \<not> (\<exists>bs \<in> set ?tags. prefix bs (fst (pv p))) \<Longrightarrow>
           \<exists>e. exec_dispatch T (input_ident inp) d p = Inl e"
    by (rule dispatcher_exact [OF laws tags ne short fuel', where depth = 0 and name = "input_ident inp"]) blast
  have "reader_expand fuel BR inp = Some (Inr (ReadEnum (input_ident inp) d bodies))"
    using enum t(1,2) bodies build by (simp add: reader_expand_def reader_expand_enum_def tag_tree_eq)
  moreover have "codec pv bv (run_reader T rd (ReadEnum (input_ident inp) d bodies))
         (run_writer T wr (WriteEnum arms) (i, xs)) (i, xs)"
    if i: "i < length vs"
      and f: "fields_codec pv bv (rd i) (wr i) (read_calls (bodies ! i)) (write_calls (snd (arms ! i))) xs" for i xs
  proof -
    obtain tag ws where a: "arms ! i = (tag, ws)" by (cases "arms ! i")
    with arm [OF i] have g: "gen_variant_arm BW (vs ! i) = Inr (tag, ws)" by simp
    have "\<exists>p'. exec_dispatch T (input_ident inp) d p = Inr (i, p') \<and> pv p' = (rest, snd (pv p))"
      if "fst (pv p) = tag_bits (info_tag (vs ! i)) @ rest" for p rest
      using hit [of i p rest] that i by simp
    moreover have "arms ! i = ((length (tag_bits (info_tag (vs ! i))), as_u64 (tag_bits (info_tag (vs ! i)))), ws)"
      "length (tag_bits (info_tag (vs ! i))) \<le> 32" using variant_tag [OF g] a by auto
    ultimately show ?thesis
      using variant_codec [OF T try_map_nth [OF bodies i] g] f a by (intro enum_variant_codec [OF T]) auto
  qed
  moreover have "\<exists>e. run_reader T rd (ReadEnum (input_ident inp) d bodies) p = Inl e"
    if "\<forall>v \<in> set vs. \<not> prefix (tag_bits (info_tag v)) (fst (pv p))" for p
    using miss [of p] that by auto
  ultimately show ?thesis by blast
qed

text \<open>
  An enum with a variant whose last two fields are in a child cell, as in the tests of the macros.
\<close>

definition plain_field :: "string \<Rightarrow> bool \<Rightarrow> bool \<Rightarrow> RawField" where
  "plain_field ident s e = \<lparr>raw_ident = Some ident, raw_cell = False, raw_bits = True, raw_as_ty = None,
     raw_args = None, raw_separate_cell_start = s, raw_separate_cell_end = e\<rparr>"

definition demo_variants :: "RawVariant list" where
  "demo_variants =
     [\<lparr>variant_ident = ''Skipped'', variant_tag = Some ''0b0'',
       variant_fields = NamedFields [plain_field ''reason'' False False]\<rparr>,
      \<lparr>variant_ident = ''Vm'', variant_tag = Some ''0b1'',
       variant_fields = NamedFields [plain_field ''head'' False False, plain_field ''tail_a'' True False,
         plain_field ''tail_b'' False True]\<rparr>]"

definition demo_enum :: DeriveInput where
  "demo_enum = \<lparr>input_ident = ''Msg'', input_tag = None, input_data = DataEnum demo_variants\<rparr>"

definition demo_width :: "string \<Rightarrow> nat" where
  "demo_width ctx = (if ctx = ''tail_b'' then 16 else 8)"

definition demo_rd :: "(mem_cell view, nat) field_reader" where
  "demo_rd = (\<lambda>i ctx call. unpack_nbits mem_toner (demo_width ctx))"

definition demo_wr :: "(mem_cell view, nat) field_writer" where
  "demo_wr = (\<lambda>i ctx call v. pack_nbits mem_toner (demo_width ctx) v)"

definition demo_infos :: "VariantInfo list" where
  "demo_infos = projr (try_map parse_variant demo_variants)"

definition demo_bodies :: "stmt list list" where
  "demo_bodies = projr (try_map (gen_variant_body CellDeserializeBackend) demo_infos)"

definition demo_arms :: "((nat \<times> u64) \<times> wstmt list) list" where
  "demo_arms = projr (try_map (gen_variant_arm CellSerializeBackend) demo_infos)"

theorem derived_enum_roundtrip_witness:
  "\<exists>d. reader_expand 100 CellDeserializeBackend demo_enum = Some (Inr (ReadEnum ''Msg'' d demo_bodies)) \<and>
     writer_expand CellSerializeBackend demo_enum = Inr (WriteEnum demo_arms) \<and>
     to_cell mem_toner (run_writer mem_toner demo_wr (WriteEnum demo_arms) (1, [1, 1, 3])) =
       Inr (MemCell (True # nat_bits 8 1) [MemCell (nat_bits 8 1 @ nat_bits 16 3) []]) \<and>
     codec (\<lambda>p. p) (\<lambda>b. b) (run_reader mem_toner demo_rd (ReadEnum ''Msg'' d demo_bodies))
       (run_writer mem_toner demo_wr (WriteEnum demo_arms) (1, [1, 1, 3])) (1, [1, 1, 3])"
proof -
  have W: "writer_expand CellSerializeBackend demo_enum = Inr (WriteEnum demo_arms)" by code_simp
  have infos: "try_map parse_variant demo_variants = Inr demo_infos" by code_simp
  have bodies: "try_map (gen_variant_body CellDeserializeBackend) demo_infos = Inr demo_bodies" by code_simp
  have tags: "map (tag_bits \<circ> info_tag) demo_infos = [[False], [True]]" by code_simp
  have free: "prefix_free (map (tag_bits \<circ> info_tag) demo_infos)"
    by (simp add: tags prefix_free_def less_Suc_eq)
  have size: "size (tag_tree demo_infos) < 100"
    by (simp add: tag_tree_eq tags tree_of_def tag_tree_new_def or_new_def)
  have len: "1 < length demo_infos" by code_simp
  have calls: "read_calls (demo_bodies ! 1) = [(''head'', PlainCall BitsLayer None), (''tail_a'', PlainCall BitsLayer None),
       (''tail_b'', PlainCall BitsLayer None)]" by code_simp
  have wcalls: "write_calls (snd (demo_arms ! 1)) = [(''head'', PlainCall BitsLayer None), (''tail_a'', PlainCall BitsLayer None),
       (''tail_b'', PlainCall BitsLayer None)]" by code_simp
  have f: "fields_codec (\<lambda>p. p) (\<lambda>b. b) (demo_rd 1) (demo_wr 1) (read_calls (demo_bodies ! 1))
      (write_calls (snd (demo_arms ! 1))) [1, 1, 3]"
    unfolding calls wcalls by (simp add: demo_rd_def demo_wr_def demo_width_def codec_nat [OF mem_toner_laws])
  have arm: "demo_arms ! 1 = ((1, 1), [WriteStmt False ''head'' ''head'' (PlainCall BitsLayer None), NewBuilder,
       WriteStmt True ''tail_a'' ''tail_a'' (PlainCall BitsLayer None),
       WriteStmt True ''tail_b'' ''tail_b'' (PlainCall BitsLayer None), AttachCell])" by code_simp
  have c: "to_cell mem_toner (run_writer mem_toner demo_wr (WriteEnum demo_arms) (1, [1, 1, 3])) =
       Inr (MemCell (True # nat_bits 8 1) [MemCell (nat_bits 8 1 @ nat_bits 16 3) []])"
    unfolding to_cell_def run_writer.simps arm
    by (simp add: exec_tag_store_def demo_wr_def demo_width_def mem_toner_def)
  have i: "input_data demo_enum = DataEnum demo_variants" "input_ident demo_enum = ''Msg''"
    by (simp_all add: demo_enum_def)
  show ?thesis
    using derived_enum_roundtrip [OF mem_toner_laws i(1) infos W bodies free size, of demo_rd demo_wr]
      len f c W unfolding i(2) by blast
qed

end
