(* ===== verification/Tlb_Vm.thy ===== *)
theory Tlb_Vm
  imports Liteserver_Adapter Tlb_Derive_Correct
begin

text \<open>
  The stack of the TVM as cells (\<open>ton-liteserver-client/src/tlb/vm_stack.rs\<close> and \<open>vm_cont.rs\<close>): the values
  of the stack, tuples, stacks and continuations, with the readers and writers that are written by hand and
  those the derive macros generate. The readers call each other on child cells without a bound: \<open>fuel\<close>
  is the depth of the calls, and \<open>stack_overflow\<close> what a reader without fuel returns.
\<close>

section \<open>Tags\<close>

definition tags_bits :: "string list \<Rightarrow> bool list list" where
  "tags_bits tags = map (\<lambda>s. case parse_str s of Inr t \<Rightarrow> tag_bits t | Inl _ \<Rightarrow> []) tags"

text \<open>The match the derive macro generates for these tags, and how it stores one of them.\<close>

definition enum_dispatch :: "string list \<Rightarrow> dispatch" where
  "enum_dispatch tags =
     (case dispatcher_build 1000 0 (tree_of (tags_bits tags)) of Some (Inr d) \<Rightarrow> d | _ \<Rightarrow> Body 0)"

definition enum_tag :: "string list \<Rightarrow> nat \<Rightarrow> nat \<times> u64" where
  "enum_tag tags i = (length (tags_bits tags ! i), as_u64 (tags_bits tags ! i))"

definition in_ctx :: "('c, 'p, 'b) toner_lib \<Rightarrow> string \<Rightarrow> string + 'a \<Rightarrow> string + 'a" where
  "in_ctx T ctx r = map_err (in_context T ctx) r"

section \<open>Slices\<close>

text \<open>A \<open>VmCellSlice\<close>: the cell, \<open>st_bits\<close>, \<open>end_bits\<close>, \<open>st_ref\<close> and \<open>end_ref\<close>.\<close>

type_synonym 'c VmCellSlice = "'c \<times> nat \<times> nat \<times> nat \<times> nat"

definition parse_vm_cell_slice :: "('c, 'p, 'b) toner_lib \<Rightarrow> 'p \<Rightarrow> string + 'c VmCellSlice \<times> 'p" where
  "parse_vm_cell_slice T p =
     bindr (in_ctx T ''cell'' (parse_ref T p)) (\<lambda>(c, p).
     bindr (in_ctx T ''st_bits'' (unpack_nbits T 10 p)) (\<lambda>(sb, p).
     bindr (in_ctx T ''end_bits'' (unpack_nbits T 10 p)) (\<lambda>(eb, p).
     bindr (in_ctx T ''st_ref'' (unpack_nbits T 3 p)) (\<lambda>(sr, p).
     bindr (in_ctx T ''end_ref'' (unpack_nbits T 3 p)) (\<lambda>(er, p).
     Inr ((c, sb, eb, sr, er), p))))))"

fun store_vm_cell_slice :: "('c, 'p, 'b) toner_lib \<Rightarrow> 'c VmCellSlice \<Rightarrow> 'b \<Rightarrow> string + 'b" where
  "store_vm_cell_slice T (c, sb, eb, sr, er) b =
     bindr (in_ctx T ''cell'' (store_ref T c b)) (\<lambda>b.
     bindr (in_ctx T ''st_bits'' (pack_nbits T 10 sb b)) (\<lambda>b.
     bindr (in_ctx T ''end_bits'' (pack_nbits T 10 eb b)) (\<lambda>b.
     bindr (in_ctx T ''st_ref'' (pack_nbits T 3 sr b)) (\<lambda>b.
     in_ctx T ''end_ref'' (pack_nbits T 3 er b)))))"

section \<open>Tuples\<close>

text \<open>
  The reader of an entry is a parameter, and a writer takes the writers of the entries: \<open>VmTuple\<close> is a list
  of \<open>VmStackValue\<close>, whose readers and writers follow.
\<close>

fun parse_vm_tuple :: "('c, 'p, 'b) toner_lib \<Rightarrow> ('p \<Rightarrow> string + 'v \<times> 'p) \<Rightarrow> nat \<Rightarrow> 'p \<Rightarrow> string + 'v list \<times> 'p" where
  "parse_vm_tuple T rv 0 p = Inr ([], p)"
| "parse_vm_tuple T rv (Suc n) p =
     bindr (if n = 0 then Inr ([], p)
            else if n = 1 then
              bindr (in_ctx T ''tuple head (single)'' (parse_as_ref T rv p)) (\<lambda>(head, p). Inr ([head], p))
            else in_ctx T ''tuple head'' (parse_as_ref T (parse_vm_tuple T rv n) p)) (\<lambda>(items, p).
     bindr (in_ctx T ''tuple tail'' (parse_as_ref T rv p)) (\<lambda>(tail, p).
     Inr (items @ [tail], p)))"

fun store_vm_tuple :: "('c, 'p, 'b) toner_lib \<Rightarrow> nat \<Rightarrow> ('b \<Rightarrow> string + 'b) list \<Rightarrow> 'b \<Rightarrow> string + 'b" where
  "store_vm_tuple T len ws b =
     (if len \<noteq> length ws then
        Inl (''VmTuple len arg '' @ dec_nat len @ '' mismatches items.len() '' @ dec_nat (length ws))
      else if len = 0 then Inr b
      else
        bindr (if len = 1 then Inr b
               else if len = 2 then in_ctx T ''tuple head (single)'' (store_as_ref T (hd (butlast ws)) b)
               else in_ctx T ''tuple head'' (store_as_ref T (store_vm_tuple T (len - 1) (butlast ws)) b)) (\<lambda>b.
        in_ctx T ''tuple tail'' (store_as_ref T (last ws) b)))"

declare store_vm_tuple.simps [simp del]

definition parse_vm_stk_tuple :: "('c, 'p, 'b) toner_lib \<Rightarrow> ('p \<Rightarrow> string + 'v \<times> 'p) \<Rightarrow> 'p \<Rightarrow> string + 'v list \<times> 'p" where
  "parse_vm_stk_tuple T rv p =
     bindr (in_ctx T ''tuple len'' (unpack_nbits T 16 p)) (\<lambda>(len, p).
     in_ctx T ''tuple body'' (parse_vm_tuple T rv len p))"

definition store_vm_stk_tuple :: "('c, 'p, 'b) toner_lib \<Rightarrow> ('b \<Rightarrow> string + 'b) list \<Rightarrow> 'b \<Rightarrow> string + 'b" where
  "store_vm_stk_tuple T ws b =
     (if length ws \<ge> 2 ^ 16 then Inl (''tuple length exceeds u16 ('' @ dec_nat (length ws) @ '')'')
      else bindr (in_ctx T ''tuple len'' (pack_nbits T 16 (length ws) b)) (\<lambda>b.
        in_ctx T ''tuple body'' (store_vm_tuple T (length ws) ws b)))"

section \<open>Stacks\<close>

fun parse_vm_stack_list ::
  "('c, 'p, 'b) toner_lib \<Rightarrow> ('p \<Rightarrow> string + 'v \<times> 'p) \<Rightarrow> nat \<Rightarrow> 'p \<Rightarrow> string + 'v list \<times> 'p" where
  "parse_vm_stack_list T rv 0 p = Inr ([], p)"
| "parse_vm_stack_list T rv (Suc depth) p =
     bindr (in_ctx T ''rest'' (parse_as_ref T (parse_vm_stack_list T rv depth) p)) (\<lambda>(items, p).
     bindr (in_ctx T ''tos'' (rv p)) (\<lambda>(tos, p).
     Inr (items @ [tos], p)))"

fun store_vm_stack_list :: "('c, 'p, 'b) toner_lib \<Rightarrow> nat \<Rightarrow> ('b \<Rightarrow> string + 'b) list \<Rightarrow> 'b \<Rightarrow> string + 'b" where
  "store_vm_stack_list T depth ws b =
     (if depth \<noteq> length ws then
        Inl (''VmStackList depth arg '' @ dec_nat depth @ '' mismatches items.len() '' @ dec_nat (length ws))
      else if depth = 0 then Inr b
      else bindr (in_ctx T ''rest'' (store_as_ref T (store_vm_stack_list T (depth - 1) (butlast ws)) b)) (\<lambda>b.
        in_ctx T ''tos'' (last ws b)))"

declare store_vm_stack_list.simps [simp del]

definition parse_vm_stack_of :: "('c, 'p, 'b) toner_lib \<Rightarrow> ('p \<Rightarrow> string + 'v \<times> 'p) \<Rightarrow> 'p \<Rightarrow> string + 'v list \<times> 'p" where
  "parse_vm_stack_of T rv p =
     bindr (in_ctx T ''depth'' (unpack_nbits T 24 p)) (\<lambda>(depth, p).
     in_ctx T ''stack'' (parse_vm_stack_list T rv depth p))"

definition store_vm_stack_of :: "('c, 'p, 'b) toner_lib \<Rightarrow> ('b \<Rightarrow> string + 'b) list \<Rightarrow> 'b \<Rightarrow> string + 'b" where
  "store_vm_stack_of T ws b =
     (if length ws \<ge> 2 ^ 32 then Inl (''stack depth exceeds 2^32-1 ('' @ dec_nat (length ws) @ '')'')
      else if length ws \<ge> 2 ^ 24 then Inl (''stack depth exceeds 2^24-1 ('' @ dec_nat (length ws) @ '')'')
      else bindr (in_ctx T ''depth'' (pack_nbits T 24 (length ws) b)) (\<lambda>b.
        in_ctx T ''stack'' (store_vm_stack_list T (length ws) ws b)))"

section \<open>Values\<close>

definition vm_stack_value_tags :: "string list" where
  "vm_stack_value_tags =
     [''#00'', ''#01'', ''#0201_'', ''#02ff'', ''#03'', ''#04'', ''#05'', ''#06'', ''#07'']"

definition stack_overflow :: string where
  "stack_overflow = ''stack overflow''"

fun parse_vm_stack_value :: "nat \<Rightarrow> ('c, 'p, 'b) toner_lib \<Rightarrow> ('p \<Rightarrow> string + 'k \<times> 'p) \<Rightarrow> 'p
    \<Rightarrow> string + ('c, 'k) VmStackValue \<times> 'p" where
  "parse_vm_stack_value 0 T rk p = Inl stack_overflow"
| "parse_vm_stack_value (Suc fuel) T rk p =
     bindr (exec_dispatch T ''VmStackValue'' (enum_dispatch vm_stack_value_tags) p) (\<lambda>(i, p).
     if i = 0 then Inr (VmNull, p)
     else if i = 1 then bindr (in_ctx T ''value'' (unpack_int T 64 p)) (\<lambda>(v, p). Inr (VmTinyInt v, p))
     else if i = 2 then bindr (in_ctx T ''value'' (unpack_nbits T 257 p)) (\<lambda>(v, p). Inr (VmInt v, p))
     else if i = 3 then Inr (VmNan, p)
     else if i = 4 then bindr (in_ctx T ''cell'' (parse_ref T p)) (\<lambda>(c, p). Inr (VmCell c, p))
     else if i = 5 then bindr (in_ctx T ''slice'' (parse_vm_cell_slice T p)) (\<lambda>((c, sb, eb, sr, er), p).
       Inr (VmSlice c sb eb sr er, p))
     else if i = 6 then bindr (in_ctx T ''cell'' (parse_ref T p)) (\<lambda>(c, p). Inr (VmBuilder c, p))
     else if i = 7 then bindr (in_ctx T ''cont'' (rk p)) (\<lambda>(k, p). Inr (VmCont k, p))
     else bindr (in_ctx T ''tuple'' (parse_vm_stk_tuple T (parse_vm_stack_value fuel T rk) p)) (\<lambda>(vs, p).
       Inr (VmTuple vs, p)))"

definition store_tag :: "('c, 'p, 'b) toner_lib \<Rightarrow> string list \<Rightarrow> nat \<Rightarrow> 'b \<Rightarrow> string + 'b" where
  "store_tag T tags i b = exec_tag_store T (enum_tag tags i) b"

primrec store_vm_stack_value :: "('c, 'p, 'b) toner_lib \<Rightarrow> ('k \<Rightarrow> 'b \<Rightarrow> string + 'b)
    \<Rightarrow> ('c, 'k) VmStackValue \<Rightarrow> 'b \<Rightarrow> string + 'b" where
  "store_vm_stack_value T wk VmNull = store_tag T vm_stack_value_tags 0"
| "store_vm_stack_value T wk (VmTinyInt v) = (\<lambda>b.
     bindr (store_tag T vm_stack_value_tags 1 b) (\<lambda>b. in_ctx T ''value'' (pack_int T 64 v b)))"
| "store_vm_stack_value T wk (VmInt v) = (\<lambda>b.
     bindr (store_tag T vm_stack_value_tags 2 b) (\<lambda>b. in_ctx T ''value'' (pack_nbits T 257 v b)))"
| "store_vm_stack_value T wk VmNan = store_tag T vm_stack_value_tags 3"
| "store_vm_stack_value T wk (VmCell c) = (\<lambda>b.
     bindr (store_tag T vm_stack_value_tags 4 b) (\<lambda>b. in_ctx T ''cell'' (store_ref T c b)))"
| "store_vm_stack_value T wk (VmSlice c sb eb sr er) = (\<lambda>b.
     bindr (store_tag T vm_stack_value_tags 5 b) (\<lambda>b.
       in_ctx T ''slice'' (store_vm_cell_slice T (c, sb, eb, sr, er) b)))"
| "store_vm_stack_value T wk (VmBuilder c) = (\<lambda>b.
     bindr (store_tag T vm_stack_value_tags 6 b) (\<lambda>b. in_ctx T ''cell'' (store_ref T c b)))"
| "store_vm_stack_value T wk (VmCont k) = (\<lambda>b.
     bindr (store_tag T vm_stack_value_tags 7 b) (\<lambda>b. in_ctx T ''cont'' (wk k b)))"
| "store_vm_stack_value T wk (VmTuple vs) = (\<lambda>b.
     bindr (store_tag T vm_stack_value_tags 8 b) (\<lambda>b.
       in_ctx T ''tuple'' (store_vm_stk_tuple T (map (store_vm_stack_value T wk) vs) b)))"

section \<open>Continuations\<close>

datatype 'c VmCont =
    Std "'c VmControlData" "'c VmCellSlice"
  | Envelope "'c VmControlData" "'c VmCont"
  | Quit i32
  | QuitExc
  | Repeat nat "'c VmCont" "'c VmCont"
  | Until "'c VmCont" "'c VmCont"
  | Again "'c VmCont"
  | WhileCond "'c VmCont" "'c VmCont" "'c VmCont"
  | WhileBody "'c VmCont" "'c VmCont" "'c VmCont"
  | PushInt i32 "'c VmCont"
and 'c VmControlData =
    VmControlData (nargs: "nat option") (ctl_stack: "('c, 'c VmCont) VmStackValue list option")
      (save: "(bool list \<times> ('c, 'c VmCont) VmStackValue) list") (cp: "int option")

type_synonym 'c vm_value = "('c, 'c VmCont) VmStackValue"

text \<open>
  \<open>HashmapE\<close> of \<open>toner\<close>: a dictionary with keys of \<open>n\<close> bits, as the list of its entries in the order of the
  keys, read with the reader of a value and written with the writers of the values.
\<close>

record ('v, 'p, 'b) hashmap_lib =
  parse_hashmap_e :: "nat \<Rightarrow> ('p \<Rightarrow> string + 'v \<times> 'p) \<Rightarrow> 'p \<Rightarrow> string + (bool list \<times> 'v) list \<times> 'p"
  store_hashmap_e :: "nat \<Rightarrow> (bool list \<times> ('b \<Rightarrow> string + 'b)) list \<Rightarrow> 'b \<Rightarrow> string + 'b"

text \<open>\<open>Option\<close> of TL-B: one bit that says whether the value follows.\<close>

definition parse_maybe :: "('c, 'p, 'b) toner_lib \<Rightarrow> ('p \<Rightarrow> string + 'v \<times> 'p) \<Rightarrow> 'p \<Rightarrow> string + 'v option \<times> 'p" where
  "parse_maybe T rd p =
     bindr (unpack_nbits T 1 p) (\<lambda>(present, p).
     if present = 0 then Inr (None, p) else bindr (rd p) (\<lambda>(v, p). Inr (Some v, p)))"

definition store_maybe :: "('c, 'p, 'b) toner_lib \<Rightarrow> ('b \<Rightarrow> string + 'b) option \<Rightarrow> 'b \<Rightarrow> string + 'b" where
  "store_maybe T w b =
     (case w of None \<Rightarrow> pack_nbits T 1 0 b | Some wr \<Rightarrow> bindr (pack_nbits T 1 1 b) wr)"

definition vm_cont_tags :: "string list" where
  "vm_cont_tags =
     [''$00'', ''$01'', ''$1000'', ''$1001'', ''$10100'', ''$110000'', ''$110001'', ''$110010'', ''$110011'', ''$1111'']"

definition parse_vm_control_data :: "('c, 'p, 'b) toner_lib \<Rightarrow> ('c vm_value, 'p, 'b) hashmap_lib
    \<Rightarrow> ('p \<Rightarrow> string + 'c vm_value \<times> 'p) \<Rightarrow> 'p \<Rightarrow> string + 'c VmControlData \<times> 'p" where
  "parse_vm_control_data T H rv p =
     bindr (in_ctx T ''nargs'' (parse_maybe T (unpack_nbits T 13) p)) (\<lambda>(na, p).
     bindr (in_ctx T ''stack'' (parse_maybe T (parse_vm_stack_of T rv) p)) (\<lambda>(st, p).
     bindr (in_ctx T ''save'' (parse_hashmap_e H 4 rv p)) (\<lambda>(sv, p).
     bindr (in_ctx T ''cp'' (parse_maybe T (unpack_int T 16) p)) (\<lambda>(c, p).
     Inr (VmControlData na st sv c, p)))))"

text \<open>Two and three continuations, each in a cell of its own.\<close>

definition parse_conts2 :: "('c, 'p, 'b) toner_lib \<Rightarrow> string \<Rightarrow> string \<Rightarrow> ('p \<Rightarrow> string + 'v \<times> 'p) \<Rightarrow> 'p
    \<Rightarrow> string + ('v \<times> 'v) \<times> 'p" where
  "parse_conts2 T x y rk p =
     bindr (in_ctx T x (parse_as_ref T rk p)) (\<lambda>(k1, p).
     bindr (in_ctx T y (parse_as_ref T rk p)) (\<lambda>(k2, p). Inr ((k1, k2), p)))"

definition store_conts2 :: "('c, 'p, 'b) toner_lib \<Rightarrow> string \<Rightarrow> string \<Rightarrow> ('b \<Rightarrow> string + 'b) \<Rightarrow> ('b \<Rightarrow> string + 'b)
    \<Rightarrow> 'b \<Rightarrow> string + 'b" where
  "store_conts2 T x y w1 w2 b =
     bindr (in_ctx T x (store_as_ref T w1 b)) (\<lambda>b. in_ctx T y (store_as_ref T w2 b))"

fun parse_vm_cont :: "nat \<Rightarrow> ('c, 'p, 'b) toner_lib \<Rightarrow> ('c vm_value, 'p, 'b) hashmap_lib \<Rightarrow> 'p
    \<Rightarrow> string + 'c VmCont \<times> 'p" where
  "parse_vm_cont 0 T H p = Inl stack_overflow"
| "parse_vm_cont (Suc fuel) T H p =
     (let rk = parse_vm_cont fuel T H; rv = parse_vm_stack_value fuel T rk in
     bindr (exec_dispatch T ''VmCont'' (enum_dispatch vm_cont_tags) p) (\<lambda>(i, p).
     if i = 0 then bindr (in_ctx T ''cdata'' (parse_vm_control_data T H rv p)) (\<lambda>(cd, p).
       bindr (in_ctx T ''code'' (parse_vm_cell_slice T p)) (\<lambda>(s, p). Inr (Std cd s, p)))
     else if i = 1 then bindr (in_ctx T ''cdata'' (parse_vm_control_data T H rv p)) (\<lambda>(cd, p).
       bindr (in_ctx T ''next'' (parse_as_ref T rk p)) (\<lambda>(k, p). Inr (Envelope cd k, p)))
     else if i = 2 then bindr (in_ctx T ''exit_code'' (unpack_int T 32 p)) (\<lambda>(v, p). Inr (Quit v, p))
     else if i = 3 then Inr (QuitExc, p)
     else if i = 4 then bindr (in_ctx T ''count'' (unpack_nbits T 63 p)) (\<lambda>(n, p).
       bindr (parse_conts2 T ''body'' ''after'' rk p) (\<lambda>((k1, k2), p). Inr (Repeat n k1 k2, p)))
     else if i = 5 then bindr (parse_conts2 T ''body'' ''after'' rk p) (\<lambda>((k1, k2), p). Inr (Until k1 k2, p))
     else if i = 6 then bindr (in_ctx T ''body'' (parse_as_ref T rk p)) (\<lambda>(k, p). Inr (Again k, p))
     else if i = 7 then bindr (in_ctx T ''cond'' (parse_as_ref T rk p)) (\<lambda>(k, p).
       bindr (parse_conts2 T ''body'' ''after'' rk p) (\<lambda>((k1, k2), p). Inr (WhileCond k k1 k2, p)))
     else if i = 8 then bindr (in_ctx T ''cond'' (parse_as_ref T rk p)) (\<lambda>(k, p).
       bindr (parse_conts2 T ''body'' ''after'' rk p) (\<lambda>((k1, k2), p). Inr (WhileBody k k1 k2, p)))
     else bindr (in_ctx T ''value'' (unpack_int T 32 p)) (\<lambda>(v, p).
       bindr (in_ctx T ''next'' (parse_as_ref T rk p)) (\<lambda>(k, p). Inr (PushInt v k, p)))))"

text \<open>
  The writers. A stack value that holds continuations is first turned into one that holds their writers.
\<close>

primrec store_vm_cont :: "('c, 'p, 'b) toner_lib \<Rightarrow> ('c vm_value, 'p, 'b) hashmap_lib \<Rightarrow> 'c VmCont \<Rightarrow> 'b \<Rightarrow> string + 'b"
  and store_vm_control_data :: "('c, 'p, 'b) toner_lib \<Rightarrow> ('c vm_value, 'p, 'b) hashmap_lib \<Rightarrow> 'c VmControlData \<Rightarrow> 'b
    \<Rightarrow> string + 'b" where
  "store_vm_cont T H (Std cd s) = (\<lambda>b.
     bindr (store_tag T vm_cont_tags 0 b) (\<lambda>b.
     bindr (in_ctx T ''cdata'' (store_vm_control_data T H cd b)) (\<lambda>b.
     in_ctx T ''code'' (store_vm_cell_slice T s b))))"
| "store_vm_cont T H (Envelope cd k) = (\<lambda>b.
     bindr (store_tag T vm_cont_tags 1 b) (\<lambda>b.
     bindr (in_ctx T ''cdata'' (store_vm_control_data T H cd b)) (\<lambda>b.
     in_ctx T ''next'' (store_as_ref T (store_vm_cont T H k) b))))"
| "store_vm_cont T H (Quit v) = (\<lambda>b.
     bindr (store_tag T vm_cont_tags 2 b) (\<lambda>b. in_ctx T ''exit_code'' (pack_int T 32 v b)))"
| "store_vm_cont T H QuitExc = store_tag T vm_cont_tags 3"
| "store_vm_cont T H (Repeat n k1 k2) = (\<lambda>b.
     bindr (store_tag T vm_cont_tags 4 b) (\<lambda>b.
     bindr (in_ctx T ''count'' (pack_nbits T 63 n b)) (\<lambda>b.
     store_conts2 T ''body'' ''after'' (store_vm_cont T H k1) (store_vm_cont T H k2) b)))"
| "store_vm_cont T H (Until k1 k2) = (\<lambda>b.
     bindr (store_tag T vm_cont_tags 5 b) (\<lambda>b.
     store_conts2 T ''body'' ''after'' (store_vm_cont T H k1) (store_vm_cont T H k2) b))"
| "store_vm_cont T H (Again k) = (\<lambda>b.
     bindr (store_tag T vm_cont_tags 6 b) (\<lambda>b. in_ctx T ''body'' (store_as_ref T (store_vm_cont T H k) b)))"
| "store_vm_cont T H (WhileCond k k1 k2) = (\<lambda>b.
     bindr (store_tag T vm_cont_tags 7 b) (\<lambda>b.
     bindr (in_ctx T ''cond'' (store_as_ref T (store_vm_cont T H k) b)) (\<lambda>b.
     store_conts2 T ''body'' ''after'' (store_vm_cont T H k1) (store_vm_cont T H k2) b)))"
| "store_vm_cont T H (WhileBody k k1 k2) = (\<lambda>b.
     bindr (store_tag T vm_cont_tags 8 b) (\<lambda>b.
     bindr (in_ctx T ''cond'' (store_as_ref T (store_vm_cont T H k) b)) (\<lambda>b.
     store_conts2 T ''body'' ''after'' (store_vm_cont T H k1) (store_vm_cont T H k2) b)))"
| "store_vm_cont T H (PushInt v k) = (\<lambda>b.
     bindr (store_tag T vm_cont_tags 9 b) (\<lambda>b.
     bindr (in_ctx T ''value'' (pack_int T 32 v b)) (\<lambda>b.
     in_ctx T ''next'' (store_as_ref T (store_vm_cont T H k) b))))"
| "store_vm_control_data T H (VmControlData na st sv c) = (\<lambda>b.
     bindr (in_ctx T ''nargs'' (store_maybe T (map_option (pack_nbits T 13) na) b)) (\<lambda>b.
     bindr (in_ctx T ''stack'' (store_maybe T (map_option (\<lambda>vs.
       store_vm_stack_of T (map (store_vm_stack_value T (\<lambda>w. w)) vs))
         (map_option (map (map_VmStackValue (\<lambda>c. c) (store_vm_cont T H))) st)) b)) (\<lambda>b.
     bindr (in_ctx T ''save'' (store_hashmap_e H 4 (map (map_prod (\<lambda>k. k) (store_vm_stack_value T (\<lambda>w. w)))
         (map (map_prod (\<lambda>k. k) (map_VmStackValue (\<lambda>c. c) (store_vm_cont T H))) sv)) b)) (\<lambda>b.
     in_ctx T ''cp'' (store_maybe T (map_option (pack_int T 16) c) b)))))"

section \<open>The stack\<close>

definition parse_vm_value :: "nat \<Rightarrow> ('c, 'p, 'b) toner_lib \<Rightarrow> ('c vm_value, 'p, 'b) hashmap_lib \<Rightarrow> 'p
    \<Rightarrow> string + 'c vm_value \<times> 'p" where
  "parse_vm_value fuel T H = parse_vm_stack_value fuel T (parse_vm_cont fuel T H)"

definition store_vm_value :: "('c, 'p, 'b) toner_lib \<Rightarrow> ('c vm_value, 'p, 'b) hashmap_lib \<Rightarrow> 'c vm_value \<Rightarrow> 'b
    \<Rightarrow> string + 'b" where
  "store_vm_value T H = store_vm_stack_value T (store_vm_cont T H)"

definition parse_stack :: "nat \<Rightarrow> ('c, 'p, 'b) toner_lib \<Rightarrow> ('c vm_value, 'p, 'b) hashmap_lib \<Rightarrow> 'p
    \<Rightarrow> string + 'c vm_value list \<times> 'p" where
  "parse_stack fuel T H = parse_vm_stack_of T (parse_vm_value fuel T H)"

definition store_stack :: "('c, 'p, 'b) toner_lib \<Rightarrow> ('c vm_value, 'p, 'b) hashmap_lib \<Rightarrow> 'c vm_value list \<Rightarrow> 'b
    \<Rightarrow> string + 'b" where
  "store_stack T H vs = store_vm_stack_of T (map (store_vm_value T H) vs)"

end
