(* ===== verification/Tlb_Vm_Correct.thy ===== *)
theory Tlb_Vm_Correct
  imports Tlb_Vm
begin

text \<open>
  The round trip of the stack of the TVM through cells: slices, tuples, stacks, values and continuations are
  codecs, for every depth of the calls from some depth on.
\<close>

section \<open>Codecs of slices, tuples and stacks\<close>

lemma codec_ctx: "codec pv bv rd wr v \<Longrightarrow> codec pv bv (\<lambda>p. in_ctx T c (rd p)) (\<lambda>b. in_ctx T c' (wr b)) v"
  unfolding in_ctx_def by (rule codec_context)

lemma codec_then:
  assumes "codec pv bv rd wr v" and "\<And>p. k v p = Inr (w, p)"
  shows "codec pv bv (\<lambda>p. bindr (rd p) (\<lambda>(x, p'). k x p')) wr w"
proof (rule codecI)
  fix b b' assume "wr b = Inr b'"
  with assms(1) obtain bs rs where "bv b' = (fst (bv b) @ bs, snd (bv b) @ rs)" and r: "reads pv rd bs rs v"
    by (rule codecD)
  moreover have "reads pv (\<lambda>p. bindr (rd p) (\<lambda>(x, p'). k x p')) bs rs w"
    using reads_bind [of pv rd bs rs v k "[]" "[]" w, OF r] assms(2) by (simp add: reads_def)
  ultimately show "\<exists>bs rs. bv b' = (fst (bv b) @ bs, snd (bv b) @ rs) \<and>
      reads pv (\<lambda>p. bindr (rd p) (\<lambda>(x, p'). k x p')) bs rs w" by blast
qed

lemma codec_slice:
  assumes T: "toner_laws T pv bv" and "sb < 2 ^ 10" "eb < 2 ^ 10" "sr < 2 ^ 3" "er < 2 ^ 3"
  shows "codec pv bv (parse_vm_cell_slice T) (store_vm_cell_slice T (c, sb, eb, sr, er)) (c, sb, eb, sr, er)"
  unfolding parse_vm_cell_slice_def [abs_def] store_vm_cell_slice.simps [abs_def]
  apply (rule codec_bind, rule codec_ctx, rule codec_cell [OF T])
  apply (rule codec_bind, rule codec_ctx, rule codec_nat [OF T assms(2)])
  apply (rule codec_bind, rule codec_ctx, rule codec_nat [OF T assms(3)])
  apply (rule codec_bind, rule codec_ctx, rule codec_nat [OF T assms(4)])
  apply (rule codec_then, rule codec_ctx, rule codec_nat [OF T assms(5)])
  apply simp
  done

lemma codec_tuple:
  assumes T: "toner_laws T pv bv"
  shows "list_all2 (codec pv bv rv) ws vs \<Longrightarrow>
    codec pv bv (parse_vm_tuple T rv (length vs)) (store_vm_tuple T (length ws) ws) vs"
proof (induction vs arbitrary: ws rule: rev_induct)
  case Nil
  then show ?case by (intro codec_eq [OF codec_return]) (simp_all add: store_vm_tuple.simps)
next
  case (snoc v vs)
  then obtain ws' w where ws: "ws = ws' @ [w]" and f: "list_all2 (codec pv bv rv) ws' vs" and c: "codec pv bv rv w v"
    by (auto simp: list_all2_append2 list_all2_Cons2)
  have len: "length ws' = length vs" using f by (rule list_all2_lengthD)
  let ?hr = "\<lambda>p. if length vs = 0 then Inr ([], p)
            else if length vs = 1 then
              bindr (in_ctx T ''tuple head (single)'' (parse_as_ref T rv p)) (\<lambda>(head, p). Inr ([head], p))
            else in_ctx T ''tuple head'' (parse_as_ref T (parse_vm_tuple T rv (length vs)) p)"
  let ?hw = "\<lambda>b. if length ws = 1 then Inr b
               else if length ws = 2 then in_ctx T ''tuple head (single)'' (store_as_ref T (hd (butlast ws)) b)
               else in_ctx T ''tuple head'' (store_as_ref T (store_vm_tuple T (length ws - 1) (butlast ws)) b)"
  have head: "codec pv bv ?hr ?hw vs"
  proof (cases vs)
    case Nil
    then show ?thesis using codec_return len by (simp add: ws)
  next
    case (Cons x xs)
    show ?thesis
    proof (cases xs)
      case Nil
      with Cons f obtain wx where wx: "ws' = [wx]" "codec pv bv rv wx x" by (auto simp: list_all2_Cons2)
      have "codec pv bv (\<lambda>p. bindr (in_ctx T ''tuple head (single)'' (parse_as_ref T rv p)) (\<lambda>(head, p). Inr ([head], p)))
          (\<lambda>b. in_ctx T ''tuple head (single)'' (store_as_ref T wx b)) [x]"
        by (rule codec_then, rule codec_ctx, rule codec_ref [OF T wx(2)]) simp
      then show ?thesis using Cons Nil wx by (simp add: ws)
    next
      case (Cons y ys)
      with \<open>vs = x # xs\<close> have n: "length vs \<noteq> 0" "length vs \<noteq> 1" "length ws \<noteq> 1" "length ws \<noteq> 2"
        using len by (auto simp: ws)
      show ?thesis
        unfolding if_not_P [OF n(1)] if_not_P [OF n(2)] if_not_P [OF n(3)] if_not_P [OF n(4)]
        using codec_ctx [OF codec_ref [OF T snoc.IH [OF f]]] by (simp add: ws)
    qed
  qed
  have "codec pv bv (\<lambda>p. bindr (?hr p) (\<lambda>(items, p). bindr (in_ctx T ''tuple tail'' (parse_as_ref T rv p))
      (\<lambda>(tail, p). Inr (items @ [tail], p)))) (\<lambda>b. bindr (?hw b) (\<lambda>b. in_ctx T ''tuple tail'' (store_as_ref T (last ws) b)))
      (vs @ [v])"
    by (rule codec_bind, rule head, rule codec_then, rule codec_ctx) (use codec_ref [OF T c] ws in simp_all)
  then show ?case
    by (rule codec_eq) (use ws in \<open>simp_all add: store_vm_tuple.simps\<close>)
qed

lemma codec_stack_list:
  assumes T: "toner_laws T pv bv"
  shows "list_all2 (codec pv bv rv) ws vs \<Longrightarrow>
    codec pv bv (parse_vm_stack_list T rv (length vs)) (store_vm_stack_list T (length ws) ws) vs"
proof (induction vs arbitrary: ws rule: rev_induct)
  case Nil
  then show ?case by (intro codec_eq [OF codec_return]) (simp_all add: store_vm_stack_list.simps)
next
  case (snoc v vs)
  then obtain ws' w where ws: "ws = ws' @ [w]" and f: "list_all2 (codec pv bv rv) ws' vs" and c: "codec pv bv rv w v"
    by (auto simp: list_all2_append2 list_all2_Cons2)
  have "codec pv bv (\<lambda>p. bindr (in_ctx T ''rest'' (parse_as_ref T (parse_vm_stack_list T rv (length vs)) p)) (\<lambda>(items, p).
      bindr (in_ctx T ''tos'' (rv p)) (\<lambda>(tos, p). Inr (items @ [tos], p))))
      (\<lambda>b. bindr (in_ctx T ''rest'' (store_as_ref T (store_vm_stack_list T (length ws') ws') b)) (\<lambda>b. in_ctx T ''tos'' (w b)))
      (vs @ [v])"
    by (rule codec_bind, rule codec_ctx, rule codec_ref [OF T snoc.IH [OF f]], rule codec_then, rule codec_ctx [OF c]) simp
  then show ?case
    by (rule codec_eq) (use ws in \<open>simp_all add: store_vm_stack_list.simps [of T "Suc n" for n]\<close>)
qed

lemma codec_stk_tuple:
  assumes T: "toner_laws T pv bv" and f: "list_all2 (codec pv bv rv) ws vs"
  shows "codec pv bv (parse_vm_stk_tuple T rv) (store_vm_stk_tuple T ws) vs"
proof (cases "length ws < 2 ^ 16")
  case True
  have len: "length ws = length vs" using f by (rule list_all2_lengthD)
  have "codec pv bv (parse_vm_stk_tuple T rv) (\<lambda>b.
      bindr (in_ctx T ''tuple len'' (pack_nbits T 16 (length ws) b)) (\<lambda>b. in_ctx T ''tuple body'' (store_vm_tuple T (length ws) ws b))) vs"
    unfolding parse_vm_stk_tuple_def [abs_def]
    by (rule codec_bind, rule codec_ctx, rule codec_nat [OF T True])
      (use codec_ctx [OF codec_tuple [OF T f]] len in simp)
  then show ?thesis by (rule codec_eq) (use True in \<open>simp_all add: store_vm_stk_tuple_def\<close>)
next
  case False
  then show ?thesis by (intro codec_fails) (simp add: store_vm_stk_tuple_def)
qed

lemma codec_stack_of:
  assumes T: "toner_laws T pv bv" and f: "list_all2 (codec pv bv rv) ws vs"
  shows "codec pv bv (parse_vm_stack_of T rv) (store_vm_stack_of T ws) vs"
proof (cases "length ws < 2 ^ 24")
  case True
  have len: "length ws = length vs" using f by (rule list_all2_lengthD)
  have "codec pv bv (parse_vm_stack_of T rv) (\<lambda>b.
      bindr (in_ctx T ''depth'' (pack_nbits T 24 (length ws) b)) (\<lambda>b. in_ctx T ''stack'' (store_vm_stack_list T (length ws) ws b))) vs"
    unfolding parse_vm_stack_of_def [abs_def]
    by (rule codec_bind, rule codec_ctx, rule codec_nat [OF T True])
      (use codec_ctx [OF codec_stack_list [OF T f]] len in simp)
  then show ?thesis by (rule codec_eq) (use True in \<open>simp_all add: store_vm_stack_of_def\<close>)
next
  case False
  then show ?thesis by (intro codec_fails) (simp add: store_vm_stack_of_def)
qed

lemma codec_maybe:
  assumes T: "toner_laws T pv bv" and f: "rel_option (codec pv bv rd) w v"
  shows "codec pv bv (parse_maybe T rd) (store_maybe T w) v"
proof (cases v)
  case None
  with f have w: "w = None" by simp
  have "codec pv bv (parse_maybe T rd) (pack_nbits T 1 0) None"
    unfolding parse_maybe_def [abs_def] by (rule codec_then, rule codec_nat [OF T]) simp_all
  moreover have "store_maybe T w = pack_nbits T 1 0" by (rule ext) (simp add: w store_maybe_def)
  ultimately show ?thesis using None by simp
next
  case (Some x)
  with f obtain wx where w: "w = Some wx" "codec pv bv rd wx x" by (auto simp: option_rel_Some2)
  have "codec pv bv (parse_maybe T rd) (\<lambda>b. bindr (pack_nbits T 1 1 b) wx) (Some x)"
    unfolding parse_maybe_def [abs_def]
    by (rule codec_bind, rule codec_nat [OF T]) (simp_all, rule codec_then [OF w(2)], simp)
  moreover have "store_maybe T w = (\<lambda>b. bindr (pack_nbits T 1 1 b) wx)" by (rule ext) (simp add: w store_maybe_def)
  ultimately show ?thesis using Some by simp
qed

section \<open>Codecs of enums\<close>

text \<open>The dispatch of prefix-free tags reads the tag of each variant, and nothing else.\<close>

definition enum_tags_ok :: "string list \<Rightarrow> bool" where
  "enum_tags_ok tags \<longleftrightarrow> tags \<noteq> [] \<and> prefix_free (tags_bits tags) \<and> (\<forall>bs \<in> set (tags_bits tags). length bs \<le> 32)
     \<and> size (tree_of (tags_bits tags)) < 1000"

lemma enum_dispatch_exact:
  assumes laws: "parser_laws T pv" and tags: "enum_tags_ok tags"
  shows "i < length tags \<Longrightarrow> reads pv (exec_dispatch T name (enum_dispatch tags)) (tags_bits tags ! i) [] i"
    and "\<forall>bs \<in> set (tags_bits tags). \<not> prefix bs (fst (pv p)) \<Longrightarrow> \<exists>e. exec_dispatch T name (enum_dispatch tags) p = Inl e"
proof -
  have n: "tags_bits tags \<noteq> []" "length (tags_bits tags) = length tags" using tags by (auto simp: enum_tags_ok_def tags_bits_def)
  have ok: "prefix_free (tags_bits tags)" "\<forall>bs \<in> set (tags_bits tags). length bs \<le> 32" "size (tree_of (tags_bits tags)) < 1000"
    using tags by (simp_all add: enum_tags_ok_def)
  obtain d where d: "dispatcher_build 1000 0 (tree_of (tags_bits tags)) = Some (Inr d)"
    and hit: "\<And>p i rest. i < length (tags_bits tags) \<Longrightarrow> fst (pv p) = tags_bits tags ! i @ rest \<Longrightarrow>
           \<exists>p'. exec_dispatch T name d p = Inr (i, p') \<and> pv p' = (rest, snd (pv p))"
    and miss: "\<And>p. \<not> (\<exists>bs \<in> set (tags_bits tags). prefix bs (fst (pv p))) \<Longrightarrow> \<exists>e. exec_dispatch T name d p = Inl e"
    by (rule dispatcher_exact [OF laws ok(1) n(1) ok(2) ok(3), where depth = 0 and name = name]) blast
  have e: "enum_dispatch tags = d" using d by (simp add: enum_dispatch_def)
  show "reads pv (exec_dispatch T name (enum_dispatch tags)) (tags_bits tags ! i) [] i" if "i < length tags"
  proof (rule readsI)
    fix p xs ys assume "pv p = (tags_bits tags ! i @ xs, [] @ ys)"
    with hit [of i p xs] that n(2) show "\<exists>p'. exec_dispatch T name (enum_dispatch tags) p = Inr (i, p') \<and> pv p' = (xs, ys)"
      by (simp add: e)
  qed
  show "\<exists>e. exec_dispatch T name (enum_dispatch tags) p = Inl e" if "\<forall>bs \<in> set (tags_bits tags). \<not> prefix bs (fst (pv p))"
    using miss [of p] that by (simp add: e)
qed

lemma codec_enum:
  assumes T: "toner_laws T pv bv" and tags: "enum_tags_ok tags" and i: "i < length tags"
  shows "codec pv bv (exec_dispatch T name (enum_dispatch tags)) (store_tag T tags i) i"
proof (rule codecI)
  have "i < length (tags_bits tags)" using i by (simp add: tags_bits_def)
  then have short: "length (tags_bits tags ! i) \<le> 32" using tags by (auto simp: enum_tags_ok_def)
  fix b b' assume "store_tag T tags i b = Inr b'"
  then have "bv b' = (fst (bv b) @ tags_bits tags ! i, snd (bv b) @ [])"
    using exec_tag_store_view [OF T, of "tags_bits tags ! i" b b'] short by (simp add: store_tag_def enum_tag_def)
  moreover have "parser_laws T pv" using T by (simp add: toner_laws_def)
  ultimately show "\<exists>bs rs. bv b' = (fst (bv b) @ bs, snd (bv b) @ rs) \<and>
      reads pv (exec_dispatch T name (enum_dispatch tags)) bs rs i"
    using enum_dispatch_exact(1) [OF _ tags i, of T pv name] by blast
qed

definition bin :: "string \<Rightarrow> bool list" where
  "bin s = map (\<lambda>c. c = CHR ''1'') s"

lemma vm_stack_value_tags_bits:
  "tags_bits vm_stack_value_tags =
     map bin [''00000000'', ''00000001'', ''000000100000000'', ''0000001011111111'', ''00000011'', ''00000100'',
       ''00000101'', ''00000110'', ''00000111'']"
  by code_simp

lemma vm_cont_tags_bits:
  "tags_bits vm_cont_tags =
     map bin [''00'', ''01'', ''1000'', ''1001'', ''10100'', ''110000'', ''110001'', ''110010'', ''110011'', ''1111'']"
  by code_simp

lemma prefix_free_code [code]:
  "prefix_free tags \<longleftrightarrow>
     (\<forall>i \<in> set [0..<length tags]. \<forall>j \<in> set [0..<length tags]. prefix (tags ! i) (tags ! j) \<longrightarrow> i = j)"
  by (auto simp: prefix_free_def)

lemma vm_tags_ok: "enum_tags_ok vm_stack_value_tags" "enum_tags_ok vm_cont_tags"
proof -
  have "prefix_free (tags_bits vm_stack_value_tags)" "prefix_free (tags_bits vm_cont_tags)"
    unfolding vm_stack_value_tags_bits vm_cont_tags_bits by code_simp+
  then show "enum_tags_ok vm_stack_value_tags" "enum_tags_ok vm_cont_tags"
    by (simp_all add: enum_tags_ok_def vm_stack_value_tags_bits vm_cont_tags_bits bin_def tree_of_def tag_tree_new_def
        or_new_def)
      (simp_all add: vm_stack_value_tags_def vm_cont_tags_def)
qed

lemmas codec_vm_tag = codec_enum [OF _ vm_tags_ok(1)]
  and codec_cont_tag = codec_enum [OF _ vm_tags_ok(2)]

section \<open>Codecs of values\<close>

text \<open>The values a stack can hold: the fields within the widths of their types and of their TL-B layout.\<close>

primrec vm_value_ok :: "('k \<Rightarrow> bool) \<Rightarrow> ('c, 'k) VmStackValue \<Rightarrow> bool" where
  "vm_value_ok ok VmNull \<longleftrightarrow> True"
| "vm_value_ok ok (VmTinyInt v) \<longleftrightarrow> i64_range v"
| "vm_value_ok ok (VmInt v) \<longleftrightarrow> v < 2 ^ 257"
| "vm_value_ok ok VmNan \<longleftrightarrow> True"
| "vm_value_ok ok (VmCell c) \<longleftrightarrow> True"
| "vm_value_ok ok (VmSlice c sb eb sr er) \<longleftrightarrow> sb < 2 ^ 10 \<and> eb < 2 ^ 10 \<and> sr < 2 ^ 3 \<and> er < 2 ^ 3"
| "vm_value_ok ok (VmBuilder c) \<longleftrightarrow> True"
| "vm_value_ok ok (VmCont k) \<longleftrightarrow> ok k"
| "vm_value_ok ok (VmTuple vs) \<longleftrightarrow> list_all (\<lambda>b. b) (map (vm_value_ok ok) vs)"

lemma vm_tag_count [simp]: "length vm_stack_value_tags = 9" "length vm_cont_tags = 10"
  by (simp_all add: vm_stack_value_tags_def vm_cont_tags_def)

lemma codec_i64: "toner_laws T pv bv \<Longrightarrow> i64_range v \<Longrightarrow> codec pv bv (unpack_int T 64) (pack_int T 64 v) v"
  by (rule codec_int) (simp_all add: i64_range_def)

lemma codec_i32: "toner_laws T pv bv \<Longrightarrow> i32_range v \<Longrightarrow> codec pv bv (unpack_int T 32) (pack_int T 32 v) v"
  by (rule codec_int) (simp_all add: i32_range_def)

text \<open>A variant with one field, and what follows the tag of a variant.\<close>

lemma codec_after_tag:
  assumes "codec pv bv (exec_dispatch T name d) (store_tag T tags i) i" and "codec pv bv (k i) wr v"
  shows "codec pv bv (\<lambda>p. bindr (exec_dispatch T name d p) (\<lambda>(i, p'). k i p')) (\<lambda>b. bindr (store_tag T tags i b) wr) v"
  using assms by (rule codec_bind)

lemma codec_variant:
  assumes "codec pv bv (exec_dispatch T name d) (store_tag T tags i) i" and f: "codec pv bv rd wr x"
    and k: "\<And>p. k i p = bindr (in_ctx T c (rd p)) (\<lambda>(x, p'). Inr (f x, p'))"
  shows "codec pv bv (\<lambda>p. bindr (exec_dispatch T name d p) (\<lambda>(i, p'). k i p'))
    (\<lambda>b. bindr (store_tag T tags i b) (\<lambda>b. in_ctx T c (wr b))) (f x)"
proof -
  have "codec pv bv (k i) (\<lambda>b. in_ctx T c (wr b)) (f x)"
    using codec_map [OF codec_ctx [OF f]] by (rule codec_eq) (simp_all add: k)
  with assms(1) show ?thesis by (rule codec_after_tag)
qed

lemma codec_unit_variant:
  assumes "codec pv bv (exec_dispatch T name d) (store_tag T tags i) i" and "\<And>p. k i p = Inr (v, p)"
  shows "codec pv bv (\<lambda>p. bindr (exec_dispatch T name d p) (\<lambda>(i, p'). k i p')) (store_tag T tags i) v"
  using assms by (rule codec_then)

lemma vm_value_codec_step:
  assumes T: "toner_laws T pv bv" and ok: "vm_value_ok ok v"
    and rk: "\<And>k. k \<in> set2_VmStackValue v \<Longrightarrow> codec pv bv rk (wk k) k"
    and tup: "\<And>vs w. v = VmTuple vs \<Longrightarrow> w \<in> set vs \<Longrightarrow>
      codec pv bv (parse_vm_stack_value n T rk) (store_vm_stack_value T wk w) w"
  shows "codec pv bv (parse_vm_stack_value (Suc n) T rk) (store_vm_stack_value T wk v) v"
proof (cases v)
  case VmNull
  show ?thesis unfolding VmNull parse_vm_stack_value.simps store_vm_stack_value.simps
    by (rule codec_unit_variant, rule codec_vm_tag [OF T]) simp_all
next
  case (VmTinyInt x)
  with ok have c: "codec pv bv (unpack_int T 64) (pack_int T 64 x) x" by (simp add: codec_i64 [OF T])
  show ?thesis unfolding VmTinyInt parse_vm_stack_value.simps store_vm_stack_value.simps
    by (rule codec_variant [where f = VmTinyInt, OF codec_vm_tag [OF T] c]) simp_all
next
  case (VmInt x)
  with ok have c: "codec pv bv (unpack_nbits T 257) (pack_nbits T 257 x) x" by (simp add: codec_nat [OF T])
  show ?thesis unfolding VmInt parse_vm_stack_value.simps store_vm_stack_value.simps
    by (rule codec_variant [where f = VmInt, OF codec_vm_tag [OF T] c]) simp_all
next
  case VmNan
  show ?thesis unfolding VmNan parse_vm_stack_value.simps store_vm_stack_value.simps
    by (rule codec_unit_variant, rule codec_vm_tag [OF T]) simp_all
next
  case (VmCell c)
  show ?thesis unfolding VmCell parse_vm_stack_value.simps store_vm_stack_value.simps
    by (rule codec_variant [where f = VmCell, OF codec_vm_tag [OF T] codec_cell [OF T, of c]]) simp_all
next
  case (VmSlice c sb eb sr er)
  with ok have c: "codec pv bv (parse_vm_cell_slice T) (store_vm_cell_slice T (c, sb, eb, sr, er)) (c, sb, eb, sr, er)"
    by (intro codec_slice [OF T]) simp_all
  let ?f = "\<lambda>(c, sb, eb, sr, er). VmSlice c sb eb sr er"
  have "codec pv bv (parse_vm_stack_value (Suc n) T rk) (store_vm_stack_value T wk v) (?f (c, sb, eb, sr, er))"
    unfolding VmSlice parse_vm_stack_value.simps store_vm_stack_value.simps
    by (rule codec_variant [where f = ?f, OF codec_vm_tag [OF T] c]) (simp_all add: case_prod_unfold)
  then show ?thesis by (simp only: VmSlice prod.case)
next
  case (VmBuilder c)
  show ?thesis unfolding VmBuilder parse_vm_stack_value.simps store_vm_stack_value.simps
    by (rule codec_variant [where f = VmBuilder, OF codec_vm_tag [OF T] codec_cell [OF T, of c]]) simp_all
next
  case (VmCont k)
  with rk have c: "codec pv bv rk (wk k) k" by simp
  show ?thesis unfolding VmCont parse_vm_stack_value.simps store_vm_stack_value.simps
    by (rule codec_variant [where f = VmCont, OF codec_vm_tag [OF T] c]) simp_all
next
  case (VmTuple vs)
  have c: "list_all2 (codec pv bv (parse_vm_stack_value n T rk)) (map (store_vm_stack_value T wk) vs) vs"
    using tup [OF VmTuple] by (simp add: list_all2_conv_all_nth)
  show ?thesis unfolding VmTuple parse_vm_stack_value.simps store_vm_stack_value.simps
    by (rule codec_variant [where f = VmTuple, OF codec_vm_tag [OF T] codec_stk_tuple [OF T c]]) simp_all
qed

lemma vm_value_codec_flat:
  assumes T: "toner_laws T pv bv" and "\<And>vs. v \<noteq> VmTuple vs" and "vm_value_ok ok v"
  shows "\<forall>\<^sub>F n in sequentially. \<forall>rk. (\<forall>k \<in> set2_VmStackValue v. codec pv bv rk (wk k) k) \<longrightarrow>
      codec pv bv (parse_vm_stack_value n T rk) (store_vm_stack_value T wk v) v"
proof -
  have "codec pv bv (parse_vm_stack_value (Suc n) T rk) (store_vm_stack_value T wk v) v"
    if "\<forall>k \<in> set2_VmStackValue v. codec pv bv rk (wk k) k" for n rk
    using that assms(2) by (intro vm_value_codec_step [OF T assms(3)]) auto
  then have "\<forall>n rk. (\<forall>k \<in> set2_VmStackValue v. codec pv bv rk (wk k) k) \<longrightarrow>
      codec pv bv (parse_vm_stack_value (Suc n) T rk) (store_vm_stack_value T wk v) v" by blast
  then have "\<forall>\<^sub>F n in sequentially. \<forall>rk. (\<forall>k \<in> set2_VmStackValue v. codec pv bv rk (wk k) k) \<longrightarrow>
      codec pv bv (parse_vm_stack_value (Suc n) T rk) (store_vm_stack_value T wk v) v"
    by (rule always_eventually)
  then show ?thesis by (rule eventually_sequentially_Suc [THEN iffD1])
qed

lemma vm_value_codec:
  assumes T: "toner_laws T pv bv"
  shows "vm_value_ok ok v \<Longrightarrow>
    \<forall>\<^sub>F n in sequentially. \<forall>rk. (\<forall>k \<in> set2_VmStackValue v. codec pv bv rk (wk k) k) \<longrightarrow>
      codec pv bv (parse_vm_stack_value n T rk) (store_vm_stack_value T wk v) v"
proof (induction v)
  case (VmTuple vs)
  from VmTuple.prems have "\<forall>v \<in> set vs. vm_value_ok ok v" by (simp add: list_all_iff)
  with VmTuple.IH have "\<forall>\<^sub>F n in sequentially. \<forall>v \<in> set vs. \<forall>rk. (\<forall>k \<in> set2_VmStackValue v. codec pv bv rk (wk k) k) \<longrightarrow>
      codec pv bv (parse_vm_stack_value n T rk) (store_vm_stack_value T wk v) v"
    by (intro eventually_ball_finite) auto
  then have "\<forall>\<^sub>F n in sequentially. \<forall>rk. (\<forall>k \<in> set2_VmStackValue (VmTuple vs). codec pv bv rk (wk k) k) \<longrightarrow>
      codec pv bv (parse_vm_stack_value (Suc n) T rk) (store_vm_stack_value T wk (VmTuple vs)) (VmTuple vs)"
  proof (rule eventually_mono, intro allI impI)
    fix n rk
    assume e: "\<forall>v \<in> set vs. \<forall>rk. (\<forall>k \<in> set2_VmStackValue v. codec pv bv rk (wk k) k) \<longrightarrow>
      codec pv bv (parse_vm_stack_value n T rk) (store_vm_stack_value T wk v) v"
      and rk: "\<forall>k \<in> set2_VmStackValue (VmTuple vs). codec pv bv rk (wk k) k"
    show "codec pv bv (parse_vm_stack_value (Suc n) T rk) (store_vm_stack_value T wk (VmTuple vs)) (VmTuple vs)"
      using e rk by (intro vm_value_codec_step [OF T VmTuple.prems]) auto
  qed
  then show ?case by (rule eventually_sequentially_Suc [THEN iffD1])
qed (rule vm_value_codec_flat [OF T], simp, assumption)+

section \<open>Codecs of continuations\<close>

definition slice_ok :: "'c VmCellSlice \<Rightarrow> bool" where
  "slice_ok s \<longleftrightarrow> (case s of (c, sb, eb, sr, er) \<Rightarrow> sb < 2 ^ 10 \<and> eb < 2 ^ 10 \<and> sr < 2 ^ 3 \<and> er < 2 ^ 3)"

definition sorted_keys :: "(bool list \<times> 'v) list \<Rightarrow> bool" where
  "sorted_keys m \<longleftrightarrow> sorted_wrt (\<lambda>a b. bits_nat a < bits_nat b) (map fst m)"

primrec vm_cont_ok :: "'c VmCont \<Rightarrow> bool" and vm_control_data_ok :: "'c VmControlData \<Rightarrow> bool" where
  "vm_cont_ok (Std cd s) \<longleftrightarrow> vm_control_data_ok cd \<and> slice_ok s"
| "vm_cont_ok (Envelope cd k) \<longleftrightarrow> vm_control_data_ok cd \<and> vm_cont_ok k"
| "vm_cont_ok (Quit v) \<longleftrightarrow> i32_range v"
| "vm_cont_ok QuitExc \<longleftrightarrow> True"
| "vm_cont_ok (Repeat n k1 k2) \<longleftrightarrow> n < 2 ^ 63 \<and> vm_cont_ok k1 \<and> vm_cont_ok k2"
| "vm_cont_ok (Until k1 k2) \<longleftrightarrow> vm_cont_ok k1 \<and> vm_cont_ok k2"
| "vm_cont_ok (Again k) \<longleftrightarrow> vm_cont_ok k"
| "vm_cont_ok (WhileCond k k1 k2) \<longleftrightarrow> vm_cont_ok k \<and> vm_cont_ok k1 \<and> vm_cont_ok k2"
| "vm_cont_ok (WhileBody k k1 k2) \<longleftrightarrow> vm_cont_ok k \<and> vm_cont_ok k1 \<and> vm_cont_ok k2"
| "vm_cont_ok (PushInt v k) \<longleftrightarrow> i32_range v \<and> vm_cont_ok k"
| "vm_control_data_ok (VmControlData na st sv c) \<longleftrightarrow>
     pred_option (\<lambda>n. n < 2 ^ 13) na \<and>
     pred_option (list_all (vm_value_ok (\<lambda>b. b))) (map_option (map (map_VmStackValue (\<lambda>c. c) vm_cont_ok)) st) \<and>
     sorted_keys sv \<and>
     list_all (\<lambda>(k, v). length k = 4 \<and> vm_value_ok (\<lambda>b. b) v)
       (map (map_prod (\<lambda>k. k) (map_VmStackValue (\<lambda>c. c) vm_cont_ok)) sv) \<and>
     pred_option (\<lambda>i. - (2 ^ 15) \<le> i \<and> i < 2 ^ 15) c"

text \<open>What is relied on of \<open>HashmapE\<close>: it reads back the dictionary it wrote.\<close>

definition hashmap_laws :: "('p \<Rightarrow> 'c view) \<Rightarrow> ('b \<Rightarrow> 'c view) \<Rightarrow> ('v, 'p, 'b) hashmap_lib \<Rightarrow> bool" where
  "hashmap_laws pv bv H \<longleftrightarrow>
     (\<forall>n rd ws m. sorted_keys m \<longrightarrow>
        list_all2 (\<lambda>(k, w) (k', v). k = k' \<and> length k = n \<and> codec pv bv rd w v) ws m \<longrightarrow>
        codec pv bv (parse_hashmap_e H n rd) (store_hashmap_e H n ws) m)"

lemma vm_value_ok_map: "vm_value_ok (\<lambda>b. b) (map_VmStackValue f g v) \<longleftrightarrow> vm_value_ok g v"
  by (induction v) (auto simp: list_all_iff)

lemma store_vm_stack_value_map:
  "store_vm_stack_value T (\<lambda>w. w) (map_VmStackValue (\<lambda>c. c) g v) = store_vm_stack_value T g v"
proof (induction v)
  case (VmTuple vs)
  then have "map (store_vm_stack_value T (\<lambda>w. w)) (map (map_VmStackValue (\<lambda>c. c) g) vs) = map (store_vm_stack_value T g) vs"
    by simp
  then show ?case by (simp only: store_vm_stack_value.simps VmStackValue.map)
qed simp_all

lemma codec_conts2:
  assumes T: "toner_laws T pv bv" and "codec pv bv rk w1 k1" and "codec pv bv rk w2 k2"
  shows "codec pv bv (parse_conts2 T x y rk) (store_conts2 T x y w1 w2) (k1, k2)"
  unfolding parse_conts2_def [abs_def] store_conts2_def [abs_def]
  by (rule codec_bind, rule codec_ctx, rule codec_ref [OF T assms(2)], rule codec_then, rule codec_ctx,
      rule codec_ref [OF T assms(3)]) simp

lemma codec_control_data:
  assumes T: "toner_laws T pv bv" and H: "hashmap_laws pv bv H"
    and ok: "vm_control_data_ok (VmControlData na st sv c)"
    and vals: "\<And>v. v \<in> (\<Union>vs \<in> set_option st. set vs) \<union> snd ` set sv \<Longrightarrow>
      codec pv bv rv (store_vm_stack_value T (store_vm_cont T H) v) v"
  shows "codec pv bv (parse_vm_control_data T H rv) (store_vm_control_data T H (VmControlData na st sv c))
    (VmControlData na st sv c)"
proof -
  have 1: "codec pv bv (parse_maybe T (unpack_nbits T 13)) (store_maybe T (map_option (pack_nbits T 13) na)) na"
    using ok by (intro codec_maybe [OF T]) (cases na; simp add: codec_nat [OF T])
  have "rel_option (codec pv bv (parse_vm_stack_of T rv)) (map_option (\<lambda>vs.
       store_vm_stack_of T (map (store_vm_stack_value T (\<lambda>w. w)) vs))
         (map_option (map (map_VmStackValue (\<lambda>c. c) (store_vm_cont T H))) st)) st"
  proof (cases st)
    case (Some vs)
    then have "list_all2 (codec pv bv rv) (map (store_vm_stack_value T (store_vm_cont T H)) vs) vs"
      using vals by (auto simp: list_all2_conv_all_nth)
    from codec_stack_of [OF T this] Some show ?thesis by (simp add: comp_def store_vm_stack_value_map)
  qed simp
  note 2 = codec_maybe [OF T this]
  have "list_all2 (\<lambda>(k, w) (k', v). k = k' \<and> length k = 4 \<and> codec pv bv rv w v)
      (map (map_prod (\<lambda>k. k) (store_vm_stack_value T (\<lambda>w. w)))
         (map (map_prod (\<lambda>k. k) (map_VmStackValue (\<lambda>c. c) (store_vm_cont T H))) sv)) sv"
    using ok vals by (auto simp: list_all2_conv_all_nth list_all_length store_vm_stack_value_map case_prod_unfold)
  then have 3: "codec pv bv (parse_hashmap_e H 4 rv) (store_hashmap_e H 4 (map (map_prod (\<lambda>k. k) (store_vm_stack_value T (\<lambda>w. w)))
         (map (map_prod (\<lambda>k. k) (map_VmStackValue (\<lambda>c. c) (store_vm_cont T H))) sv))) sv"
    using H ok unfolding hashmap_laws_def by simp
  have 4: "codec pv bv (parse_maybe T (unpack_int T 16)) (store_maybe T (map_option (pack_int T 16) c)) c"
    using ok by (intro codec_maybe [OF T]) (cases c; simp add: codec_int [OF T, of 16])
  show ?thesis unfolding parse_vm_control_data_def [abs_def] store_vm_control_data.simps
    by (rule codec_bind, rule codec_ctx [OF 1], rule codec_bind, rule codec_ctx [OF 2], rule codec_bind,
        rule codec_ctx [OF 3], rule codec_then, rule codec_ctx [OF 4]) simp
qed

text \<open>The continuations and the control data directly below a continuation.\<close>

primrec sub_conts :: "'c VmCont \<Rightarrow> 'c VmCont set" where
  "sub_conts (Std cd s) = {}"
| "sub_conts (Envelope cd k) = {k}"
| "sub_conts (Quit v) = {}"
| "sub_conts QuitExc = {}"
| "sub_conts (Repeat n k1 k2) = {k1, k2}"
| "sub_conts (Until k1 k2) = {k1, k2}"
| "sub_conts (Again k) = {k}"
| "sub_conts (WhileCond k k1 k2) = {k, k1, k2}"
| "sub_conts (WhileBody k k1 k2) = {k, k1, k2}"
| "sub_conts (PushInt v k) = {k}"

primrec sub_control :: "'c VmCont \<Rightarrow> 'c VmControlData set" where
  "sub_control (Std cd s) = {cd}"
| "sub_control (Envelope cd k) = {cd}"
| "sub_control (Quit v) = {}"
| "sub_control QuitExc = {}"
| "sub_control (Repeat n k1 k2) = {}"
| "sub_control (Until k1 k2) = {}"
| "sub_control (Again k) = {}"
| "sub_control (WhileCond k k1 k2) = {}"
| "sub_control (WhileBody k k1 k2) = {}"
| "sub_control (PushInt v k) = {}"

lemma sub_conts_finite: "finite (sub_conts k)" "finite (sub_control k)"
  by (cases k; simp)+

lemma sub_conts_ok: "vm_cont_ok k \<Longrightarrow> k' \<in> sub_conts k \<Longrightarrow> vm_cont_ok k'"
  by (cases k) auto

lemma sub_control_ok: "vm_cont_ok k \<Longrightarrow> cd \<in> sub_control k \<Longrightarrow> vm_control_data_ok cd"
  by (cases k) auto

lemma vm_cont_codec_step:
  assumes T: "toner_laws T pv bv" and ok: "vm_cont_ok k"
    and sub: "\<And>k'. k' \<in> sub_conts k \<Longrightarrow> codec pv bv (parse_vm_cont n T H) (store_vm_cont T H k') k'"
    and ctl: "\<And>cd. cd \<in> sub_control k \<Longrightarrow>
      codec pv bv (parse_vm_control_data T H (parse_vm_value n T H)) (store_vm_control_data T H cd) cd"
  shows "codec pv bv (parse_vm_cont (Suc n) T H) (store_vm_cont T H k) k"
proof (cases k)
  case (Std cd s)
  then have c: "codec pv bv (parse_vm_control_data T H (parse_vm_value n T H)) (store_vm_control_data T H cd) cd"
    by (intro ctl) simp
  obtain a sb eb sr er where s: "s = (a, sb, eb, sr, er)" by (cases s) auto
  have f: "codec pv bv (parse_vm_cell_slice T) (store_vm_cell_slice T s) s"
    using ok Std unfolding s by (intro codec_slice [OF T]) (simp_all add: slice_ok_def)
  show ?thesis unfolding Std parse_vm_cont.simps store_vm_cont.simps Let_def parse_vm_value_def [symmetric]
    by (rule codec_after_tag [OF codec_cont_tag [OF T]])
      (simp_all, rule codec_bind, rule codec_ctx [OF c], rule codec_then, rule codec_ctx [OF f], simp)
next
  case (Envelope cd k1)
  then have c: "codec pv bv (parse_vm_control_data T H (parse_vm_value n T H)) (store_vm_control_data T H cd) cd"
    and f: "codec pv bv (parse_vm_cont n T H) (store_vm_cont T H k1) k1"
    using ctl sub by simp_all
  show ?thesis unfolding Envelope parse_vm_cont.simps store_vm_cont.simps Let_def parse_vm_value_def [symmetric]
    by (rule codec_after_tag [OF codec_cont_tag [OF T]])
      (simp_all, rule codec_bind, rule codec_ctx [OF c], rule codec_then, rule codec_ctx [OF codec_ref [OF T f]], simp)
next
  case (Quit v)
  with ok have c: "codec pv bv (unpack_int T 32) (pack_int T 32 v) v" by (simp add: codec_i32 [OF T])
  show ?thesis unfolding Quit parse_vm_cont.simps store_vm_cont.simps Let_def
    by (rule codec_variant [where f = Quit, OF codec_cont_tag [OF T] c]) simp_all
next
  case QuitExc
  show ?thesis unfolding QuitExc parse_vm_cont.simps store_vm_cont.simps Let_def
    by (rule codec_unit_variant, rule codec_cont_tag [OF T]) simp_all
next
  case (Repeat m k1 k2)
  with ok sub have c: "codec pv bv (unpack_nbits T 63) (pack_nbits T 63 m) m"
    and f: "codec pv bv (parse_conts2 T ''body'' ''after'' (parse_vm_cont n T H))
      (store_conts2 T ''body'' ''after'' (store_vm_cont T H k1) (store_vm_cont T H k2)) (k1, k2)"
    by (simp_all add: codec_nat [OF T] codec_conts2 [OF T])
  show ?thesis unfolding Repeat parse_vm_cont.simps store_vm_cont.simps Let_def
    by (rule codec_after_tag [OF codec_cont_tag [OF T]])
      (simp_all, rule codec_bind, rule codec_ctx [OF c], rule codec_then, rule f, simp)
next
  case (Until k1 k2)
  with sub have f: "codec pv bv (parse_conts2 T ''body'' ''after'' (parse_vm_cont n T H))
      (store_conts2 T ''body'' ''after'' (store_vm_cont T H k1) (store_vm_cont T H k2)) (k1, k2)"
    by (simp add: codec_conts2 [OF T])
  show ?thesis unfolding Until parse_vm_cont.simps store_vm_cont.simps Let_def
    by (rule codec_after_tag [OF codec_cont_tag [OF T]]) (simp_all, rule codec_then, rule f, simp)
next
  case (Again k1)
  with sub have "codec pv bv (parse_vm_cont n T H) (store_vm_cont T H k1) k1" by simp
  note c = codec_ref [OF T this]
  show ?thesis unfolding Again parse_vm_cont.simps store_vm_cont.simps Let_def
    by (rule codec_variant [where f = Again, OF codec_cont_tag [OF T] c]) simp_all
next
  case (WhileCond k0 k1 k2)
  with sub have c: "codec pv bv (parse_vm_cont n T H) (store_vm_cont T H k0) k0"
    and f: "codec pv bv (parse_conts2 T ''body'' ''after'' (parse_vm_cont n T H))
      (store_conts2 T ''body'' ''after'' (store_vm_cont T H k1) (store_vm_cont T H k2)) (k1, k2)"
    by (simp_all add: codec_conts2 [OF T])
  show ?thesis unfolding WhileCond parse_vm_cont.simps store_vm_cont.simps Let_def
    by (rule codec_after_tag [OF codec_cont_tag [OF T]])
      (simp_all, rule codec_bind, rule codec_ctx [OF codec_ref [OF T c]], rule codec_then, rule f, simp)
next
  case (WhileBody k0 k1 k2)
  with sub have c: "codec pv bv (parse_vm_cont n T H) (store_vm_cont T H k0) k0"
    and f: "codec pv bv (parse_conts2 T ''body'' ''after'' (parse_vm_cont n T H))
      (store_conts2 T ''body'' ''after'' (store_vm_cont T H k1) (store_vm_cont T H k2)) (k1, k2)"
    by (simp_all add: codec_conts2 [OF T])
  show ?thesis unfolding WhileBody parse_vm_cont.simps store_vm_cont.simps Let_def
    by (rule codec_after_tag [OF codec_cont_tag [OF T]])
      (simp_all, rule codec_bind, rule codec_ctx [OF codec_ref [OF T c]], rule codec_then, rule f, simp)
next
  case (PushInt v k1)
  with ok sub have c: "codec pv bv (unpack_int T 32) (pack_int T 32 v) v"
    and f: "codec pv bv (parse_vm_cont n T H) (store_vm_cont T H k1) k1"
    by (simp_all add: codec_i32 [OF T])
  show ?thesis unfolding PushInt parse_vm_cont.simps store_vm_cont.simps Let_def
    by (rule codec_after_tag [OF codec_cont_tag [OF T]])
      (simp_all, rule codec_bind, rule codec_ctx [OF c], rule codec_then, rule codec_ctx [OF codec_ref [OF T f]], simp)
qed

lemma finite_set2_VmStackValue: "finite (set2_VmStackValue v)"
  by (induction v) auto

lemma vm_value_eventually:
  assumes T: "toner_laws T pv bv" and ok: "vm_value_ok ok v"
    and k: "\<And>k. k \<in> set2_VmStackValue v \<Longrightarrow>
      \<forall>\<^sub>F n in sequentially. codec pv bv (parse_vm_cont n T H) (store_vm_cont T H k) k"
  shows "\<forall>\<^sub>F n in sequentially. codec pv bv (parse_vm_value n T H) (store_vm_value T H v) v"
proof -
  have "\<forall>\<^sub>F n in sequentially. \<forall>k \<in> set2_VmStackValue v. codec pv bv (parse_vm_cont n T H) (store_vm_cont T H k) k"
    using k by (intro eventually_ball_finite finite_set2_VmStackValue) blast
  with vm_value_codec [OF T ok, of "store_vm_cont T H"] show ?thesis
    by eventually_elim (simp add: parse_vm_value_def store_vm_value_def)
qed

lemma vm_values_eventually:
  assumes "finite S" and "\<And>v. v \<in> S \<Longrightarrow> \<forall>\<^sub>F n in sequentially. codec pv bv (parse_vm_value n T H) (store_vm_value T H v) v"
  shows "\<forall>\<^sub>F n in sequentially. \<forall>v \<in> S. codec pv bv (parse_vm_value n T H) (store_vm_value T H v) v"
  using assms by (intro eventually_ball_finite) auto

lemma vm_control_data_vals_ok:
  assumes "vm_control_data_ok (VmControlData na st sv c)" and "v \<in> (\<Union>vs \<in> set_option st. set vs) \<union> snd ` set sv"
  shows "vm_value_ok vm_cont_ok v"
  using assms by (cases st) (auto simp: list_all_iff vm_value_ok_map)

lemma vm_value_ok_conts: "vm_value_ok ok v \<Longrightarrow> k \<in> set2_VmStackValue v \<Longrightarrow> ok k"
  by (induction v) (auto simp: list_all_iff)

lemma vm_cont_codec_sub:
  assumes T: "toner_laws T pv bv" and ok: "vm_cont_ok k"
    and s: "\<And>k'. k' \<in> sub_conts k \<Longrightarrow> vm_cont_ok k' \<Longrightarrow>
      \<forall>\<^sub>F n in sequentially. codec pv bv (parse_vm_cont n T H) (store_vm_cont T H k') k'"
    and c: "\<And>cd. cd \<in> sub_control k \<Longrightarrow> vm_control_data_ok cd \<Longrightarrow> \<forall>\<^sub>F n in sequentially.
      codec pv bv (parse_vm_control_data T H (parse_vm_value n T H)) (store_vm_control_data T H cd) cd"
  shows "\<forall>\<^sub>F n in sequentially. codec pv bv (parse_vm_cont n T H) (store_vm_cont T H k) k"
proof -
  have "\<forall>\<^sub>F n in sequentially. \<forall>k' \<in> sub_conts k. codec pv bv (parse_vm_cont n T H) (store_vm_cont T H k') k'"
    using s sub_conts_ok [OF ok] by (intro eventually_ball_finite sub_conts_finite) auto
  moreover have "\<forall>\<^sub>F n in sequentially. \<forall>cd \<in> sub_control k.
      codec pv bv (parse_vm_control_data T H (parse_vm_value n T H)) (store_vm_control_data T H cd) cd"
    using c sub_control_ok [OF ok] by (intro eventually_ball_finite sub_conts_finite) auto
  ultimately have "\<forall>\<^sub>F n in sequentially. codec pv bv (parse_vm_cont (Suc n) T H) (store_vm_cont T H k) k"
    by eventually_elim (rule vm_cont_codec_step [OF T ok], auto)
  then show ?thesis by (rule eventually_sequentially_Suc [THEN iffD1])
qed

lemma vm_cont_codec:
  fixes k :: "'c VmCont" and cd :: "'c VmControlData"
  assumes T: "toner_laws T pv bv" and H: "hashmap_laws pv bv H"
  shows "vm_cont_ok k \<Longrightarrow> \<forall>\<^sub>F n in sequentially. codec pv bv (parse_vm_cont n T H) (store_vm_cont T H k) k"
    and "vm_control_data_ok cd \<Longrightarrow> \<forall>\<^sub>F n in sequentially.
      codec pv bv (parse_vm_control_data T H (parse_vm_value n T H)) (store_vm_control_data T H cd) cd"
proof -
  have "(vm_cont_ok k \<longrightarrow> (\<forall>\<^sub>F n in sequentially. codec pv bv (parse_vm_cont n T H) (store_vm_cont T H k) k)) \<and>
    (vm_control_data_ok cd \<longrightarrow> (\<forall>\<^sub>F n in sequentially.
      codec pv bv (parse_vm_control_data T H (parse_vm_value n T H)) (store_vm_control_data T H cd) cd))"
  proof (induction rule: VmCont_VmControlData.induct)
    case (VmControlData na st sv c)
    let ?S = "(\<Union>vs \<in> set_option st. set vs) \<union> snd ` set sv"
    show ?case
    proof
      assume ok: "vm_control_data_ok (VmControlData na st sv c)"
      have "\<forall>\<^sub>F n in sequentially. \<forall>v \<in> ?S. codec pv bv (parse_vm_value n T H) (store_vm_value T H v) v"
      proof (rule vm_values_eventually)
        fix v assume v: "v \<in> ?S"
        show "\<forall>\<^sub>F n in sequentially. codec pv bv (parse_vm_value n T H) (store_vm_value T H v) v"
          using VmControlData v vm_value_ok_conts [OF vm_control_data_vals_ok [OF ok v]]
          by (intro vm_value_eventually [OF T vm_control_data_vals_ok [OF ok v]]) (fastforce elim!: snds.cases)
      qed (auto)
      then show "\<forall>\<^sub>F n in sequentially. codec pv bv (parse_vm_control_data T H (parse_vm_value n T H))
          (store_vm_control_data T H (VmControlData na st sv c)) (VmControlData na st sv c)"
        by eventually_elim (rule codec_control_data [OF T H ok], simp add: store_vm_value_def)
    qed
  qed (rule impI, (erule vm_cont_codec_sub [OF T]; auto))+
  then show "vm_cont_ok k \<Longrightarrow> \<forall>\<^sub>F n in sequentially. codec pv bv (parse_vm_cont n T H) (store_vm_cont T H k) k"
    and "vm_control_data_ok cd \<Longrightarrow> \<forall>\<^sub>F n in sequentially.
      codec pv bv (parse_vm_control_data T H (parse_vm_value n T H)) (store_vm_control_data T H cd) cd"
    by blast+
qed

text \<open>
  C24. A stack that was stored in a cell is read back from it, whatever tuples and continuations it
  holds, when the depth of the calls is large enough.
\<close>

theorem vm_stack_roundtrip:
  assumes T: "toner_laws T pv bv" and H: "hashmap_laws pv bv H"
    and ok: "\<forall>v \<in> set stack. vm_value_ok vm_cont_ok v"
    and cell: "to_cell T (store_stack T H stack) = Inr c"
  shows "\<exists>N. \<forall>n \<ge> N. parse_fully T (parse_stack n T H) c = Inr stack"
proof -
  have "\<forall>\<^sub>F n in sequentially. \<forall>v \<in> set stack. codec pv bv (parse_vm_value n T H) (store_vm_value T H v) v"
  proof (rule vm_values_eventually)
    fix v assume "v \<in> set stack"
    with ok have v: "vm_value_ok vm_cont_ok v" by blast
    then show "\<forall>\<^sub>F n in sequentially. codec pv bv (parse_vm_value n T H) (store_vm_value T H v) v"
      using vm_cont_codec(1) [OF T H vm_value_ok_conts [OF v]] by (rule vm_value_eventually [OF T])
  qed simp
  then have "\<forall>\<^sub>F n in sequentially. parse_fully T (parse_stack n T H) c = Inr stack"
  proof (rule eventually_mono)
    fix n assume "\<forall>v \<in> set stack. codec pv bv (parse_vm_value n T H) (store_vm_value T H v) v"
    then have "list_all2 (codec pv bv (parse_vm_value n T H)) (map (store_vm_value T H) stack) stack"
      by (simp add: list_all2_conv_all_nth)
    then have "codec pv bv (parse_stack n T H) (store_stack T H stack) stack"
      by (simp add: parse_stack_def store_stack_def codec_stack_of [OF T])
    from codec_to_cell [OF T this cell] show "parse_fully T (parse_stack n T H) c = Inr stack" .
  qed
  then show ?thesis by (simp only: eventually_sequentially)
qed

text \<open>
  A dictionary library that meets the laws, for the witness: it knows the empty dictionary only.
\<close>

definition mem_hashmap :: "('v, mem_cell view, mem_cell view) hashmap_lib" where
  "mem_hashmap = \<lparr>
     parse_hashmap_e = (\<lambda>n rd p. bindr (unpack_nbits mem_toner 1 p) (\<lambda>(t, p).
       if t = 0 then Inr ([], p) else Inl ''not empty'')),
     store_hashmap_e = (\<lambda>n ws b. if ws = [] then pack_nbits mem_toner 1 0 b else Inl ''not empty'')\<rparr>"

lemma mem_hashmap_laws: "hashmap_laws (\<lambda>p. p) (\<lambda>b. b) (mem_hashmap :: ('v, mem_cell view, mem_cell view) hashmap_lib)"
  unfolding hashmap_laws_def
proof (intro allI impI)
  fix n and rd :: "mem_cell view \<Rightarrow> string + 'v \<times> mem_cell view"
    and ws :: "(bool list \<times> (mem_cell view \<Rightarrow> string + mem_cell view)) list" and m :: "(bool list \<times> 'v) list"
  assume l: "list_all2 (\<lambda>(k, w) (k', v). k = k' \<and> length k = n \<and> codec (\<lambda>p. p) (\<lambda>b. b) rd w v) ws m"
  show "codec (\<lambda>p. p) (\<lambda>b. b) (parse_hashmap_e mem_hashmap n rd) (store_hashmap_e mem_hashmap n ws) m"
  proof (cases "ws = []")
    case True
    with l have m: "m = []" by simp
    have "codec (\<lambda>p. p) (\<lambda>b. b) (\<lambda>p. bindr (unpack_nbits mem_toner 1 p) (\<lambda>(t, p).
        if t = 0 then Inr ([], p) else Inl ''not empty'')) (pack_nbits mem_toner 1 0) []"
      by (rule codec_then, rule codec_nat [OF mem_toner_laws]) simp_all
    with True m show ?thesis by (simp add: mem_hashmap_def)
  next
    case False
    then show ?thesis by (intro codec_fails) (simp add: mem_hashmap_def)
  qed
qed

definition demo_stack :: "mem_cell vm_value list" where
  "demo_stack = [VmTinyInt (-1), VmTuple [VmNull, VmCont (Envelope (VmControlData None None [] (Some 5)) (Quit 0))]]"

lemma demo_tags:
  "enum_tag vm_stack_value_tags 0 = (8, 0)" "enum_tag vm_stack_value_tags 1 = (8, 1)"
  "enum_tag vm_stack_value_tags 7 = (8, 6)" "enum_tag vm_stack_value_tags 8 = (8, 7)"
  "enum_tag vm_cont_tags 1 = (2, 1)" "enum_tag vm_cont_tags 2 = (4, 8)"
  unfolding enum_tag_def vm_stack_value_tags_bits vm_cont_tags_bits by code_simp+

lemma demo_stack_cell: "is_ok (to_cell mem_toner (store_stack mem_toner mem_hashmap demo_stack))"
  by (simp add: demo_stack_def to_cell_def store_stack_def store_vm_value_def store_vm_stack_of_def store_vm_stack_list.simps
      store_tag_def demo_tags [simplified] exec_tag_store_def in_ctx_def store_as_ref_def store_vm_stk_tuple_def
      store_vm_tuple.simps store_maybe_def mem_hashmap_def mem_toner_def)

theorem vm_stack_roundtrip_witness:
  "\<exists>c n. to_cell mem_toner (store_stack mem_toner mem_hashmap demo_stack) = Inr c \<and>
     parse_fully mem_toner (parse_stack n mem_toner mem_hashmap) c = Inr demo_stack"
proof -
  obtain c where c: "to_cell mem_toner (store_stack mem_toner mem_hashmap demo_stack) = Inr c"
    using demo_stack_cell by (cases "to_cell mem_toner (store_stack mem_toner mem_hashmap demo_stack)") auto
  have "\<forall>v \<in> set demo_stack. vm_value_ok vm_cont_ok v"
    by (simp add: demo_stack_def i64_range_def i32_range_def sorted_keys_def)
  from vm_stack_roundtrip [OF mem_toner_laws mem_hashmap_laws this c] c show ?thesis by blast
qed

end
