(* ===== verification/Tlb_Block.thy ===== *)
theory Tlb_Block
  imports Tlb_Vm_Correct
begin

text \<open>
  The structs the adapter reads from the cells of a liteserver (\<open>ton-liteserver-client/src/tlb/\<close>): Merkle
  proofs and updates, block headers, the shards of a masterchain block, accounts and transactions, with their
  readers, written by hand or generated by the derive macros. At the end \<open>tlb_readers\<close> and
  \<open>account_readers\<close> are the readers as the adapter calls them.
\<close>

section \<open>The library\<close>

text \<open>
  \<open>unreachable!\<close> and \<open>unimplemented!\<close> panic: a reader returns, fails with an error, or panics.
\<close>

datatype read_fail = ReadError string | ReadPanic string

abbreviation lift_read :: "string + 'a \<Rightarrow> read_fail + 'a" where
  "lift_read \<equiv> map_err ReadError"

text \<open>
  What these readers use of \<open>toner\<close> besides \<open>toner_lib\<close>: whether a cell is exotic, the depth and the hash of a
  cell at level 0, \<open>Cell\<close> as the rest of a cell, \<open>VarInt<n>\<close> and \<open>Grams\<close>, the optional \<open>Anycast\<close>
  and \<open>TickTock\<close>, which are read and dropped, and the dictionaries. A dictionary is the list of its
  entries; \<open>shard_dict\<close> is \<open>HashmapE<Ref<ParseFully<BinTree<DefaultArgs>>>>\<close> with the
  reader of a leaf.
\<close>

record ('c, 'p) block_lib =
  ensure_exotic :: "'p \<Rightarrow> string + unit"
  level_hash :: "'c \<Rightarrow> u16 \<times> bytes"
  parse_cell :: "'p \<Rightarrow> string + 'c \<times> 'p"
  unpack_var_int :: "nat \<Rightarrow> 'p \<Rightarrow> string + nat \<times> 'p"
  unpack_grams :: "'p \<Rightarrow> string + nat \<times> 'p"
  unpack_anycast :: "'p \<Rightarrow> string + unit \<times> 'p"
  unpack_tick_tock :: "'p \<Rightarrow> string + unit \<times> 'p"
  amount_dict :: "nat \<Rightarrow> ('p \<Rightarrow> string + nat \<times> 'p) \<Rightarrow> 'p \<Rightarrow> string + (bool list \<times> nat) list \<times> 'p"
  cell_dict :: "nat \<Rightarrow> ('p \<Rightarrow> string + 'c \<times> 'p) \<Rightarrow> 'p \<Rightarrow> string + (bool list \<times> 'c) list \<times> 'p"
  library_dict :: "nat \<Rightarrow> 'p \<Rightarrow> string + unit \<times> 'p"

section \<open>Primitive values\<close>

text \<open>Unsigned integers, \<open>bool\<close> and byte arrays: \<open>parser.unpack(())\<close> at the type of the field.\<close>

definition unpack_uint :: "('c, 'p, 'b) toner_lib \<Rightarrow> 'p \<Rightarrow> string + ('a :: len) word \<times> 'p" where
  "unpack_uint T p = bindr (unpack_nbits T LENGTH('a) p) (\<lambda>(v, p). Inr (word_of_nat v, p))"

definition unpack_bool :: "('c, 'p, 'b) toner_lib \<Rightarrow> 'p \<Rightarrow> string + bool \<times> 'p" where
  "unpack_bool T p = bindr (unpack_nbits T 1 p) (\<lambda>(v, p). Inr (v \<noteq> 0, p))"

fun unpack_bytes :: "('c, 'p, 'b) toner_lib \<Rightarrow> nat \<Rightarrow> 'p \<Rightarrow> string + bytes \<times> 'p" where
  "unpack_bytes T 0 p = Inr ([], p)"
| "unpack_bytes T (Suc n) p =
     bindr (unpack_uint T p) (\<lambda>(b, p). bindr (unpack_bytes T n p) (\<lambda>(bs, p). Inr (b # bs, p)))"

definition unpack_bits :: "('c, 'p, 'b) toner_lib \<Rightarrow> nat \<Rightarrow> 'p \<Rightarrow> string + bool list \<times> 'p" where
  "unpack_bits T n p = bindr (unpack_nbits T n p) (\<lambda>(v, p). Inr (nat_bits n v, p))"

text \<open>\<open>k.load_be\<close> of the key of a dictionary.\<close>

definition load_be :: "bool list \<Rightarrow> ('a :: len) word" where
  "load_be k = word_of_nat (bits_nat k)"

definition unpack_when :: "bool \<Rightarrow> ('p \<Rightarrow> 'e + 'v \<times> 'p) \<Rightarrow> 'p \<Rightarrow> 'e + 'v option \<times> 'p" where
  "unpack_when b rd p = (if b then bindr (rd p) (\<lambda>(v, p). Inr (Some v, p)) else Inr (None, p))"

text \<open>\<open>Ref<As>\<close> and \<open>Ref<ParseFully<As>>\<close>, also for readers that can panic.\<close>

definition ref_as :: "('c, 'p, 'b) toner_lib \<Rightarrow> ('p \<Rightarrow> read_fail + 'v \<times> 'p) \<Rightarrow> 'p \<Rightarrow> read_fail + 'v \<times> 'p" where
  "ref_as T rd p =
     bindr (lift_read (parse_ref T p)) (\<lambda>(c, p').
     bindr (rd (cell_parser T c)) (\<lambda>(v, q).
     bindr (lift_read (ref_end T q)) (\<lambda>_. Inr (v, p'))))"

definition fully :: "('c, 'p, 'b) toner_lib \<Rightarrow> ('p \<Rightarrow> string + 'v \<times> 'p) \<Rightarrow> 'p \<Rightarrow> string + 'v \<times> 'p" where
  "fully T rd p = bindr (rd p) (\<lambda>(v, q). bindr (ensure_empty T q) (\<lambda>_. Inr (v, q)))"

definition fully_as :: "('c, 'p, 'b) toner_lib \<Rightarrow> ('p \<Rightarrow> read_fail + 'v \<times> 'p) \<Rightarrow> 'p \<Rightarrow> read_fail + 'v \<times> 'p" where
  "fully_as T rd p = bindr (rd p) (\<lambda>(v, q). bindr (lift_read (ensure_empty T q)) (\<lambda>_. Inr (v, q)))"

definition cell_parse_fully :: "('c, 'p, 'b) toner_lib \<Rightarrow> ('p \<Rightarrow> read_fail + 'v \<times> 'p) \<Rightarrow> 'c \<Rightarrow> read_fail + 'v" where
  "cell_parse_fully T rd c = bindr (fully_as T rd (cell_parser T c)) (\<lambda>(v, _). Inr v)"

section \<open>Merkle proofs\<close>

record 'x MerkleProof =
  mp_virtual_hash :: bytes
  mp_depth :: u16
  mp_virtual_root :: 'x

text \<open>The message of a failed comparison: \<open>what mismatch: expected x, actual y\<close>.\<close>

definition mismatch :: "string \<Rightarrow> string \<Rightarrow> string \<Rightarrow> read_fail" where
  "mismatch what expected actual = ReadError (what @ '' mismatch: expected '' @ expected @ '', actual '' @ actual)"

definition parse_merkle_proof :: "('c, 'p, 'b) toner_lib \<Rightarrow> ('c, 'p) block_lib
    \<Rightarrow> ('p \<Rightarrow> read_fail + 'x \<times> 'p) \<Rightarrow> 'p \<Rightarrow> read_fail + 'x MerkleProof \<times> 'p" where
  "parse_merkle_proof T B rx p =
     bindr (lift_read (ensure_exotic B p)) (\<lambda>_.
     bindr (lift_read (unpack_nbits T 8 p)) (\<lambda>(tag, p).
     if tag \<noteq> 0x03 then Inl (ReadError (''invalid MerkleProof tag: 0x'' @ hex_padded 2 tag)) else
     bindr (lift_read (unpack_bytes T 32 p)) (\<lambda>(expected_hash, p).
     bindr (lift_read (unpack_uint T p)) (\<lambda>(expected_depth, p).
     bindr (lift_read (parse_ref T p)) (\<lambda>(virtual_root_cell, p).
     let (actual_depth, actual_hash) = level_hash B virtual_root_cell in
     if actual_hash \<noteq> expected_hash
     then Inl (mismatch ''MerkleProof virtual_hash'' (hex_enc expected_hash) (hex_enc actual_hash)) else
     if actual_depth \<noteq> expected_depth
     then Inl (mismatch ''MerkleProof depth'' (dec_nat (unat expected_depth)) (dec_nat (unat actual_depth))) else
     bindr (cell_parse_fully T rx virtual_root_cell) (\<lambda>virtual_root.
     bindr (lift_read (ensure_empty T p)) (\<lambda>_.
     Inr (\<lparr>mp_virtual_hash = expected_hash, mp_depth = expected_depth, mp_virtual_root = virtual_root\<rparr>, p))))))))"

text \<open>\<open>parse_as\<close>: the value alone.\<close>

definition parse_as_merkle_proof :: "('c, 'p, 'b) toner_lib \<Rightarrow> ('c, 'p) block_lib
    \<Rightarrow> ('p \<Rightarrow> read_fail + 'x \<times> 'p) \<Rightarrow> 'p \<Rightarrow> read_fail + 'x \<times> 'p" where
  "parse_as_merkle_proof T B rx p =
     bindr (parse_merkle_proof T B rx p) (\<lambda>(inner, p). Inr (mp_virtual_root inner, p))"

record 'x MerkleUpdate =
  mu_old_hash :: bytes
  mu_new_hash :: bytes
  mu_old_depth :: u16
  mu_new_depth :: u16
  mu_old :: 'x
  mu_new :: 'x

definition check_level_hash :: "('c, 'p) block_lib \<Rightarrow> string \<Rightarrow> 'c \<Rightarrow> bytes \<Rightarrow> u16 \<Rightarrow> read_fail + unit" where
  "check_level_hash B side c expected_hash expected_depth =
     (let (actual_depth, actual_hash) = level_hash B c in
      if actual_hash \<noteq> expected_hash
      then Inl (mismatch (''MerkleUpdate '' @ side @ ''_hash'') (hex_enc expected_hash) (hex_enc actual_hash))
      else if actual_depth \<noteq> expected_depth
      then Inl (mismatch (''MerkleUpdate '' @ side @ ''_depth'') (dec_nat (unat expected_depth)) (dec_nat (unat actual_depth)))
      else Inr ())"

definition parse_merkle_update :: "('c, 'p, 'b) toner_lib \<Rightarrow> ('c, 'p) block_lib
    \<Rightarrow> ('p \<Rightarrow> read_fail + 'x \<times> 'p) \<Rightarrow> 'p \<Rightarrow> read_fail + 'x MerkleUpdate \<times> 'p" where
  "parse_merkle_update T B rx p =
     bindr (lift_read (ensure_exotic B p)) (\<lambda>_.
     bindr (lift_read (unpack_nbits T 8 p)) (\<lambda>(tag, p).
     if tag \<noteq> 0x04 then Inl (ReadError (''invalid MerkleUpdate tag: 0x'' @ hex_padded 2 tag)) else
     bindr (lift_read (unpack_bytes T 32 p)) (\<lambda>(old_hash, p).
     bindr (lift_read (unpack_bytes T 32 p)) (\<lambda>(new_hash, p).
     bindr (lift_read (unpack_uint T p)) (\<lambda>(old_depth, p).
     bindr (lift_read (unpack_uint T p)) (\<lambda>(new_depth, p).
     bindr (lift_read (parse_ref T p)) (\<lambda>(old_cell, p).
     bindr (lift_read (parse_ref T p)) (\<lambda>(new_cell, p).
     bindr (check_level_hash B ''old'' old_cell old_hash old_depth) (\<lambda>_.
     bindr (check_level_hash B ''new'' new_cell new_hash new_depth) (\<lambda>_.
     bindr (cell_parse_fully T rx old_cell) (\<lambda>old.
     bindr (cell_parse_fully T rx new_cell) (\<lambda>new.
     bindr (lift_read (ensure_empty T p)) (\<lambda>_.
     Inr (\<lparr>mu_old_hash = old_hash, mu_new_hash = new_hash, mu_old_depth = old_depth, mu_new_depth = new_depth,
           mu_old = old, mu_new = new\<rparr>, p))))))))))))))"

section \<open>Block headers\<close>

definition unpack_ext_blk_ref :: "('c, 'p, 'b) toner_lib \<Rightarrow> 'p \<Rightarrow> string + ExtBlkRef \<times> 'p" where
  "unpack_ext_blk_ref T p =
     bindr (in_ctx T ''end_lt'' (unpack_uint T p)) (\<lambda>(lt, p).
     bindr (in_ctx T ''seq_no'' (unpack_uint T p)) (\<lambda>(n, p).
     bindr (in_ctx T ''root_hash'' (unpack_bytes T 32 p)) (\<lambda>(r, p).
     bindr (in_ctx T ''file_hash'' (unpack_bytes T 32 p)) (\<lambda>(f, p).
     Inr (\<lparr>ref_end_lt = lt, ref_seq_no = n, ref_root_hash = r, ref_file_hash = f\<rparr>, p)))))"

text \<open>A \<open>BlkMasterInfo\<close> is its only field.\<close>

definition unpack_blk_master_info :: "('c, 'p, 'b) toner_lib \<Rightarrow> 'p \<Rightarrow> string + ExtBlkRef \<times> 'p" where
  "unpack_blk_master_info T p = in_ctx T ''master'' (unpack_ext_blk_ref T p)"

fun parse_blk_prev_info :: "('c, 'p, 'b) toner_lib \<Rightarrow> bool \<Rightarrow> 'p \<Rightarrow> string + BlkPrevInfo \<times> 'p" where
  "parse_blk_prev_info T False p = bindr (unpack_ext_blk_ref T p) (\<lambda>(r, p). Inr (PrevRef r, p))"
| "parse_blk_prev_info T True p =
     bindr (parse_as_ref T (unpack_ext_blk_ref T) p) (\<lambda>(a, p).
     bindr (parse_as_ref T (unpack_ext_blk_ref T) p) (\<lambda>(b, p). Inr (PrevRefPair a b, p)))"

definition unpack_global_version :: "('c, 'p, 'b) toner_lib \<Rightarrow> 'p \<Rightarrow> string + GlobalVersion \<times> 'p" where
  "unpack_global_version T p =
     bindr (exec_tag_check T (''GlobalVersion'', 8, 0xc4) p) (\<lambda>(_, p).
     bindr (in_ctx T ''version'' (unpack_uint T p)) (\<lambda>(v, p).
     bindr (in_ctx T ''capabilities'' (unpack_uint T p)) (\<lambda>(c, p).
     Inr (\<lparr>gv_version = v, gv_capabilities = c\<rparr>, p))))"

definition unpack_shard_ident :: "('c, 'p, 'b) toner_lib \<Rightarrow> 'p \<Rightarrow> string + ShardIdent \<times> 'p" where
  "unpack_shard_ident T p =
     bindr (exec_tag_check T (''ShardIdent'', 2, 0) p) (\<lambda>(_, p).
     bindr (in_ctx T ''shard_pfx_bits'' (unpack_nbits T 6 p)) (\<lambda>(n, p).
     bindr (in_ctx T ''workchain_id'' (unpack_int T 32 p)) (\<lambda>(wc, p).
     bindr (in_ctx T ''shard_prefix'' (unpack_uint T p)) (\<lambda>(pfx, p).
     Inr (\<lparr>shard_pfx_bits = n, ident_workchain = wc, shard_prefix = pfx\<rparr>, p)))))"

definition parse_block_info :: "('c, 'p, 'b) toner_lib \<Rightarrow> 'p \<Rightarrow> read_fail + BlockInfo \<times> 'p" where
  "parse_block_info T p =
     bindr (lift_read (unpack_nbits T 32 p)) (\<lambda>(tag, p).
     if tag \<noteq> 0x9bc7a987 then Inl (ReadPanic ''internal error: entered unreachable code'') else
     lift_read (
     bindr (unpack_uint T p) (\<lambda>(version, p).
     bindr (unpack_bool T p) (\<lambda>(not_master, p).
     bindr (unpack_bool T p) (\<lambda>(after_merge, p).
     bindr (unpack_bool T p) (\<lambda>(before_split, p).
     bindr (unpack_bool T p) (\<lambda>(after_split, p).
     bindr (unpack_bool T p) (\<lambda>(want_split, p).
     bindr (unpack_bool T p) (\<lambda>(want_merge, p).
     bindr (unpack_bool T p) (\<lambda>(key_block, p).
     bindr (unpack_bool T p) (\<lambda>(vert_seqno_incr, p).
     bindr (unpack_uint T p) (\<lambda>(flags, p).
     bindr (unpack_uint T p) (\<lambda>(seq_no, p).
     bindr (unpack_uint T p) (\<lambda>(vert_seq_no, p).
     bindr (unpack_shard_ident T p) (\<lambda>(shard, p).
     bindr (unpack_uint T p) (\<lambda>(gen_utime, p).
     bindr (unpack_uint T p) (\<lambda>(start_lt, p).
     bindr (unpack_uint T p) (\<lambda>(end_lt, p).
     bindr (unpack_uint T p) (\<lambda>(gen_validator_list_hash_short, p).
     bindr (unpack_uint T p) (\<lambda>(gen_catchain_seqno, p).
     bindr (unpack_uint T p) (\<lambda>(min_ref_mc_seqno, p).
     bindr (unpack_uint T p) (\<lambda>(prev_key_block_seqno, p).
     bindr (unpack_when (flags AND 1 \<noteq> 0) (unpack_global_version T) p) (\<lambda>(gen_software, p).
     bindr (unpack_when not_master (parse_as_ref T (unpack_blk_master_info T)) p) (\<lambda>(master_ref, p).
     bindr (parse_as_ref T (parse_blk_prev_info T after_merge) p) (\<lambda>(prev_ref, p).
     bindr (unpack_when vert_seqno_incr (parse_as_ref T (parse_blk_prev_info T False)) p) (\<lambda>(prev_vert_ref, p).
     Inr (\<lparr>bi_version = version, bi_not_master = not_master, bi_after_merge = after_merge,
           bi_before_split = before_split, bi_after_split = after_split, bi_want_split = want_split,
           bi_want_merge = want_merge, bi_key_block = key_block, bi_vert_seqno_incr = vert_seqno_incr,
           bi_flags = flags, bi_seq_no = seq_no, bi_vert_seq_no = vert_seq_no, bi_shard = shard,
           bi_gen_utime = gen_utime, bi_start_lt = start_lt, bi_end_lt = end_lt,
           bi_gen_validator_list_hash_short = gen_validator_list_hash_short,
           bi_gen_catchain_seqno = gen_catchain_seqno, bi_min_ref_mc_seqno = min_ref_mc_seqno,
           bi_prev_key_block_seqno = prev_key_block_seqno, bi_gen_software = gen_software,
           bi_master_ref = master_ref, bi_prev_ref = prev_ref, bi_prev_vert_ref = prev_vert_ref\<rparr>, p)))))))))))))))))))))))))))"

text \<open>\<open>[Cell; 3]\<close>: three cells, each as \<open>Cell\<close> reads itself.\<close>

fun parse_cells :: "('c, 'p) block_lib \<Rightarrow> nat \<Rightarrow> 'p \<Rightarrow> string + 'c list \<times> 'p" where
  "parse_cells B 0 p = Inr ([], p)"
| "parse_cells B (Suc n) p =
     bindr (parse_cell B p) (\<lambda>(c, p). bindr (parse_cells B n p) (\<lambda>(cs, p). Inr (c # cs, p)))"

definition parse_block_header :: "('c, 'p, 'b) toner_lib \<Rightarrow> ('c, 'p) block_lib \<Rightarrow> 'p
    \<Rightarrow> read_fail + TlbBlockHeader \<times> 'p" where
  "parse_block_header T B p =
     bindr (lift_read (unpack_nbits T 32 p)) (\<lambda>(tag, p).
     if tag \<noteq> 0x11ef55aa then Inl (ReadPanic (''not implemented: actual tag is '' @ hex_text tag)) else
     bindr (lift_read (unpack_int T 32 p)) (\<lambda>(glob, p).
     bindr (ref_as T (fully_as T (parse_block_info T)) p) (\<lambda>(info, p).
     bindr (lift_read (parse_cells B 3 p)) (\<lambda>(_, p).
     Inr (\<lparr>hd_global_id = glob, hd_info = info\<rparr>, p)))))"

section \<open>Amounts\<close>

type_synonym ExtraCurrencyCollection = "(u32 \<times> nat) list"

record CurrencyCollection =
  cc_grams :: nat
  cc_other :: ExtraCurrencyCollection

definition parse_extra_currency_collection :: "('c, 'p) block_lib \<Rightarrow> 'p \<Rightarrow> string + ExtraCurrencyCollection \<times> 'p" where
  "parse_extra_currency_collection B p =
     bindr (amount_dict B 32 (unpack_var_int B 5) p) (\<lambda>(hashmap, p).
     Inr (map (\<lambda>(k, v). (load_be k, v)) hashmap, p))"

definition parse_currency_collection :: "('c, 'p, 'b) toner_lib \<Rightarrow> ('c, 'p) block_lib \<Rightarrow> 'p
    \<Rightarrow> string + CurrencyCollection \<times> 'p" where
  "parse_currency_collection T B p =
     bindr (in_ctx T ''grams'' (unpack_grams B p)) (\<lambda>(g, p).
     bindr (in_ctx T ''other'' (parse_extra_currency_collection B p)) (\<lambda>(other, p).
     Inr (\<lparr>cc_grams = g, cc_other = other\<rparr>, p)))"

section \<open>Shards\<close>

datatype FutureSplitMerge = FsmNone | FsmSplit u32 u32 | FsmMerge u32 u32

definition fsm_tags :: "string list" where
  "fsm_tags = [''0b0'', ''0b10'', ''0b11'']"

definition unpack_future_split_merge :: "('c, 'p, 'b) toner_lib \<Rightarrow> 'p \<Rightarrow> string + FutureSplitMerge \<times> 'p" where
  "unpack_future_split_merge T p =
     bindr (exec_dispatch T ''FutureSplitMerge'' (enum_dispatch fsm_tags) p) (\<lambda>(i, p).
     if i = 0 then Inr (FsmNone, p)
     else
       bindr (in_ctx T (if i = 1 then ''split_utime'' else ''merge_utime'') (unpack_uint T p)) (\<lambda>(u, p).
       bindr (in_ctx T ''interval'' (unpack_uint T p)) (\<lambda>(n, p).
       Inr (if i = 1 then FsmSplit u n else FsmMerge u n, p))))"

text \<open>A \<open>ShardDescr\<close> with the fields the adapter does not use.\<close>

record TlbShardDescr = ShardDescr +
  sd_reg_mc_seqno :: u32
  sd_start_lt :: u64
  sd_end_lt :: u64
  sd_before_split :: bool
  sd_before_merge :: bool
  sd_want_split :: bool
  sd_want_merge :: bool
  sd_nx_cc_updated :: bool
  sd_flags :: u32
  sd_next_catchain_seqno :: u32
  sd_min_ref_mc_seqno :: u32
  sd_gen_utime :: u32
  sd_split_merge_at :: FutureSplitMerge
  sd_fees_collected :: CurrencyCollection
  sd_funds_created :: CurrencyCollection

definition parse_fees :: "('c, 'p, 'b) toner_lib \<Rightarrow> ('c, 'p) block_lib \<Rightarrow> 'p
    \<Rightarrow> string + (CurrencyCollection \<times> CurrencyCollection) \<times> 'p" where
  "parse_fees T B p =
     bindr (parse_currency_collection T B p) (\<lambda>(a, p).
     bindr (parse_currency_collection T B p) (\<lambda>(b, p). Inr ((a, b), p)))"

definition parse_shard_descr :: "('c, 'p, 'b) toner_lib \<Rightarrow> ('c, 'p) block_lib \<Rightarrow> 'p
    \<Rightarrow> read_fail + TlbShardDescr \<times> 'p" where
  "parse_shard_descr T B p =
     bindr (lift_read (unpack_nbits T 4 p)) (\<lambda>(tag, p).
     bindr (lift_read (unpack_uint T p)) (\<lambda>(seq_no, p).
     bindr (lift_read (unpack_uint T p)) (\<lambda>(reg_mc_seqno, p).
     bindr (lift_read (unpack_uint T p)) (\<lambda>(start_lt, p).
     bindr (lift_read (unpack_uint T p)) (\<lambda>(end_lt, p).
     bindr (lift_read (unpack_bytes T 32 p)) (\<lambda>(root_hash, p).
     bindr (lift_read (unpack_bytes T 32 p)) (\<lambda>(file_hash, p).
     bindr (lift_read (unpack_bool T p)) (\<lambda>(before_split, p).
     bindr (lift_read (unpack_bool T p)) (\<lambda>(before_merge, p).
     bindr (lift_read (unpack_bool T p)) (\<lambda>(want_split, p).
     bindr (lift_read (unpack_bool T p)) (\<lambda>(want_merge, p).
     bindr (lift_read (unpack_bool T p)) (\<lambda>(nx_cc_updated, p).
     bindr (lift_read (unpack_nbits T 3 p)) (\<lambda>(flags, p).
     bindr (lift_read (unpack_uint T p)) (\<lambda>(next_catchain_seqno, p).
     bindr (lift_read (unpack_uint T p)) (\<lambda>(next_validator_shard, p).
     bindr (lift_read (unpack_uint T p)) (\<lambda>(min_ref_mc_seqno, p).
     bindr (lift_read (unpack_uint T p)) (\<lambda>(gen_utime, p).
     bindr (lift_read (unpack_future_split_merge T p)) (\<lambda>(split_merge_at, p).
     bindr (if tag = 0xa then lift_read (parse_as_ref T (fully T (parse_fees T B)) p)
            else if tag = 0xb then lift_read (parse_fees T B p)
            else Inl (ReadPanic ''internal error: entered unreachable code'')) (\<lambda>((fees_collected, funds_created), p).
     Inr (\<lparr>sd_seq_no = seq_no, sd_root_hash = root_hash, sd_file_hash = file_hash,
           sd_next_validator_shard = next_validator_shard, sd_reg_mc_seqno = reg_mc_seqno,
           sd_start_lt = start_lt, sd_end_lt = end_lt, sd_before_split = before_split,
           sd_before_merge = before_merge, sd_want_split = want_split, sd_want_merge = want_merge,
           sd_nx_cc_updated = nx_cc_updated, sd_flags = word_of_nat flags, sd_next_catchain_seqno = next_catchain_seqno,
           sd_min_ref_mc_seqno = min_ref_mc_seqno, sd_gen_utime = gen_utime, sd_split_merge_at = split_merge_at,
           sd_fees_collected = fees_collected, sd_funds_created = funds_created\<rparr>, p))))))))))))))))))))"

text \<open>
  \<open>HashmapE<Ref<ParseFully<BinTree<DefaultArgs>>>>\<close> of \<open>toner\<close> is a parameter: a dictionary of binary trees, as the lists
  of their leaves, with the reader of a leaf.
\<close>

type_synonym 'p shard_dict =
  "nat \<Rightarrow> ('p \<Rightarrow> read_fail + TlbShardDescr \<times> 'p) \<Rightarrow> 'p \<Rightarrow> read_fail + (bool list \<times> TlbShardDescr list) list \<times> 'p"

definition parse_shard_hashes_cell :: "('c, 'p, 'b) toner_lib \<Rightarrow> ('c, 'p) block_lib \<Rightarrow> 'p shard_dict \<Rightarrow> 'p
    \<Rightarrow> read_fail + (u32 \<times> TlbShardDescr list) list \<times> 'p" where
  "parse_shard_hashes_cell T B D p =
     bindr (D 32 (parse_shard_descr T B) p) (\<lambda>(hashmap, p).
     Inr (map (\<lambda>(k, v). (load_be k, v)) hashmap, p))"

section \<open>Accounts\<close>

text \<open>\<open>HASH_UPDATE\<close>: the old and the new hash.\<close>

type_synonym HashUpdate = "bytes \<times> bytes"

definition unpack_hash_update :: "('c, 'p, 'b) toner_lib \<Rightarrow> 'p \<Rightarrow> string + HashUpdate \<times> 'p" where
  "unpack_hash_update T p =
     bindr (unpack_nbits T 8 p) (\<lambda>(tag, p).
     if tag \<noteq> 0x72 then Inl (''invalid HASH_UPDATE tag: 0x'' @ hex_padded 2 tag @ '', expected 0x72'') else
     bindr (unpack_bytes T 32 p) (\<lambda>(old_hash, p).
     bindr (unpack_bytes T 32 p) (\<lambda>(new_hash, p). Inr ((old_hash, new_hash), p))))"

datatype MsgAddressInt = AddrStd int bytes | AddrVar i32 "bool list"

definition unpack_msg_address_int :: "('c, 'p, 'b) toner_lib \<Rightarrow> ('c, 'p) block_lib \<Rightarrow> 'p
    \<Rightarrow> string + MsgAddressInt \<times> 'p" where
  "unpack_msg_address_int T B p =
     bindr (unpack_nbits T 2 p) (\<lambda>(tag, p).
     if tag = 2 then
       bindr (unpack_anycast B p) (\<lambda>(_, p).
       bindr (unpack_int T 8 p) (\<lambda>(wc, p).
       bindr (unpack_bytes T 32 p) (\<lambda>(address, p). Inr (AddrStd wc address, p))))
     else if tag = 3 then
       bindr (unpack_anycast B p) (\<lambda>(_, p).
       bindr (unpack_nbits T 9 p) (\<lambda>(addr_len, p).
       bindr (unpack_int T 32 p) (\<lambda>(wc, p).
       bindr (unpack_bits T addr_len p) (\<lambda>(address, p). Inr (AddrVar wc address, p)))))
     else Inl (''unsupported MsgAddressInt tag: '' @ dec_nat tag))"

record StorageUsed =
  su_cells :: nat
  su_bits :: nat

datatype StorageExtraInfo = StorageExtraNone | StorageExtra bytes

record StorageInfo =
  si_used :: StorageUsed
  si_storage_extra :: StorageExtraInfo
  si_last_paid :: u32
  si_due_payment :: "nat option"

definition unpack_storage_used :: "('c, 'p, 'b) toner_lib \<Rightarrow> ('c, 'p) block_lib \<Rightarrow> 'p \<Rightarrow> string + StorageUsed \<times> 'p" where
  "unpack_storage_used T B p =
     bindr (in_ctx T ''cells'' (unpack_var_int B 3 p)) (\<lambda>(c, p).
     bindr (in_ctx T ''bits'' (unpack_var_int B 3 p)) (\<lambda>(b, p).
     Inr (\<lparr>su_cells = c, su_bits = b\<rparr>, p)))"

definition storage_extra_tags :: "string list" where
  "storage_extra_tags = [''0b000'', ''0b001'']"

definition unpack_storage_extra_info :: "('c, 'p, 'b) toner_lib \<Rightarrow> 'p \<Rightarrow> string + StorageExtraInfo \<times> 'p" where
  "unpack_storage_extra_info T p =
     bindr (exec_dispatch T ''StorageExtraInfo'' (enum_dispatch storage_extra_tags) p) (\<lambda>(i, p).
     if i = 0 then Inr (StorageExtraNone, p)
     else bindr (in_ctx T ''dict_hash'' (unpack_bytes T 32 p)) (\<lambda>(h, p). Inr (StorageExtra h, p)))"

definition unpack_storage_info :: "('c, 'p, 'b) toner_lib \<Rightarrow> ('c, 'p) block_lib \<Rightarrow> 'p \<Rightarrow> string + StorageInfo \<times> 'p" where
  "unpack_storage_info T B p =
     bindr (in_ctx T ''used'' (unpack_storage_used T B p)) (\<lambda>(used, p).
     bindr (in_ctx T ''storage_extra'' (unpack_storage_extra_info T p)) (\<lambda>(ex, p).
     bindr (in_ctx T ''last_paid'' (unpack_uint T p)) (\<lambda>(paid, p).
     bindr (in_ctx T ''due_payment'' (parse_maybe T (unpack_grams B) p)) (\<lambda>(due, p).
     Inr (\<lparr>si_used = used, si_storage_extra = ex, si_last_paid = paid, si_due_payment = due\<rparr>, p)))))"

text \<open>\<open>RawStateInit\<close>: code and data; split depth, special and library are read and dropped.\<close>

definition parse_raw_state_init :: "('c, 'p, 'b) toner_lib \<Rightarrow> ('c, 'p) block_lib \<Rightarrow> 'p
    \<Rightarrow> string + ('c option \<times> 'c option) \<times> 'p" where
  "parse_raw_state_init T B p =
     bindr (parse_maybe T (unpack_nbits T 5) p) (\<lambda>(_, p).
     bindr (unpack_tick_tock B p) (\<lambda>(_, p).
     bindr (in_ctx T ''code'' (parse_maybe T (parse_ref T) p)) (\<lambda>(code, p).
     bindr (in_ctx T ''data'' (parse_maybe T (parse_ref T) p)) (\<lambda>(data, p).
     bindr (library_dict B 256 p) (\<lambda>(_, p).
     Inr ((code, data), p))))))"

definition parse_account_state :: "('c, 'p, 'b) toner_lib \<Rightarrow> ('c, 'p) block_lib \<Rightarrow> 'p
    \<Rightarrow> string + 'c TlbAccountState \<times> 'p" where
  "parse_account_state T B p =
     bindr (in_ctx T ''tag[0]'' (unpack_bool T p)) (\<lambda>(first, p).
     if first then
       bindr (in_ctx T ''StateInit'' (parse_raw_state_init T B p)) (\<lambda>((code, data), p).
       Inr (AccountActive code data, p))
     else
       bindr (in_ctx T ''tag[1]'' (unpack_bool T p)) (\<lambda>(second, p).
       if second then
         bindr (in_ctx T ''state_hash'' (unpack_bytes T 32 p)) (\<lambda>(h, p). Inr (AccountFrozen h, p))
       else Inr (AccountUninit, p)))"

record 'c AccountStorage =
  as_last_trans_lt :: u64
  as_balance :: CurrencyCollection
  as_account_state :: "'c TlbAccountState"

definition parse_account_storage :: "('c, 'p, 'b) toner_lib \<Rightarrow> ('c, 'p) block_lib \<Rightarrow> 'p
    \<Rightarrow> string + 'c AccountStorage \<times> 'p" where
  "parse_account_storage T B p =
     bindr (in_ctx T ''last_trans_lt'' (unpack_uint T p)) (\<lambda>(lt, p).
     bindr (in_ctx T ''balance'' (parse_currency_collection T B p)) (\<lambda>(bal, p).
     bindr (in_ctx T ''state'' (parse_account_state T B p)) (\<lambda>(st, p).
     Inr (\<lparr>as_last_trans_lt = lt, as_balance = bal, as_account_state = st\<rparr>, p))))"

datatype 'c TlbAccount = TlbAccountNone | TlbAccount MsgAddressInt StorageInfo "'c AccountStorage"

definition account_tags :: "string list" where
  "account_tags = [''$0'', ''$1'']"

definition parse_tlb_account :: "('c, 'p, 'b) toner_lib \<Rightarrow> ('c, 'p) block_lib \<Rightarrow> 'p \<Rightarrow> string + 'c TlbAccount \<times> 'p" where
  "parse_tlb_account T B p =
     bindr (exec_dispatch T ''Account'' (enum_dispatch account_tags) p) (\<lambda>(i, p).
     if i = 0 then Inr (TlbAccountNone, p)
     else
       bindr (in_ctx T ''addr'' (unpack_msg_address_int T B p)) (\<lambda>(a, p).
       bindr (in_ctx T ''storage_stat'' (unpack_storage_info T B p)) (\<lambda>(stat, p).
       bindr (in_ctx T ''storage'' (parse_account_storage T B p)) (\<lambda>(st, p).
       Inr (TlbAccount a stat st, p)))))"

record 'c ShardStateUnsplit =
  ss_global_id :: i32
  ss_shard_id :: ShardIdent
  ss_seq_no :: u32
  ss_vert_seq_no :: u32
  ss_gen_utime :: u32
  ss_gen_lt :: u64
  ss_min_ref_mc_seqno :: u32
  ss_out_msg_queue_info :: 'c
  ss_before_split :: bool
  ss_accounts :: 'c
  ss_stats :: 'c
  ss_custom :: "'c option"

definition parse_shard_state :: "('c, 'p, 'b) toner_lib \<Rightarrow> 'p \<Rightarrow> string + 'c ShardStateUnsplit \<times> 'p" where
  "parse_shard_state T p =
     bindr (exec_tag_check T (''ShardStateUnsplit'', 32, 0x9023afe2) p) (\<lambda>(_, p).
     bindr (in_ctx T ''global_id'' (unpack_int T 32 p)) (\<lambda>(glob, p).
     bindr (in_ctx T ''shard_id'' (unpack_shard_ident T p)) (\<lambda>(sid, p).
     bindr (in_ctx T ''seq_no'' (unpack_uint T p)) (\<lambda>(n, p).
     bindr (in_ctx T ''vert_seq_no'' (unpack_uint T p)) (\<lambda>(vn, p).
     bindr (in_ctx T ''gen_utime'' (unpack_uint T p)) (\<lambda>(u, p).
     bindr (in_ctx T ''gen_lt'' (unpack_uint T p)) (\<lambda>(lt, p).
     bindr (in_ctx T ''min_ref_mc_seqno'' (unpack_uint T p)) (\<lambda>(mc, p).
     bindr (in_ctx T ''out_msg_queue_info'' (parse_ref T p)) (\<lambda>(q, p).
     bindr (in_ctx T ''before_split'' (unpack_bool T p)) (\<lambda>(bsp, p).
     bindr (in_ctx T ''accounts'' (parse_ref T p)) (\<lambda>(acc, p).
     bindr (in_ctx T ''stats'' (parse_ref T p)) (\<lambda>(st, p).
     bindr (in_ctx T ''custom'' (parse_maybe T (parse_ref T) p)) (\<lambda>(cu, p).
     Inr (\<lparr>ss_global_id = glob, ss_shard_id = sid, ss_seq_no = n, ss_vert_seq_no = vn, ss_gen_utime = u,
           ss_gen_lt = lt, ss_min_ref_mc_seqno = mc, ss_out_msg_queue_info = q, ss_before_split = bsp,
           ss_accounts = acc, ss_stats = st, ss_custom = cu\<rparr>, p))))))))))))))"

end
