(* ===== verification/Tlb_Transaction.thy ===== *)
theory Tlb_Transaction
  imports Tlb_Block
begin

text \<open>
  Transactions (\<open>ton-liteserver-client/src/tlb/transaction.rs\<close>, \<open>transaction_descr.rs\<close> and
  \<open>account_status.rs\<close>) and the readers as the adapter calls them. A transaction that installs a split or
  a merge holds the one that prepared it: the readers call each other on child cells, and \<open>fuel\<close> is the
  depth of the calls.
\<close>

section \<open>Phases\<close>

datatype AccountStatus = StatusUninit | StatusFrozen | StatusActive | StatusNonexist

definition account_status_tags :: "string list" where
  "account_status_tags = [''0b00'', ''0b01'', ''0b10'', ''0b11'']"

definition unpack_account_status :: "('c, 'p, 'b) toner_lib \<Rightarrow> 'p \<Rightarrow> string + AccountStatus \<times> 'p" where
  "unpack_account_status T p =
     bindr (exec_dispatch T ''AccountStatus'' (enum_dispatch account_status_tags) p) (\<lambda>(i, p).
     Inr ([StatusUninit, StatusFrozen, StatusActive, StatusNonexist] ! i, p))"

datatype AccStatusChange = AcstUnchanged | AcstFrozen | AcstDeleted

definition acc_status_change_tags :: "string list" where
  "acc_status_change_tags = [''0b0'', ''0b10'', ''0b11'']"

definition unpack_acc_status_change :: "('c, 'p, 'b) toner_lib \<Rightarrow> 'p \<Rightarrow> string + AccStatusChange \<times> 'p" where
  "unpack_acc_status_change T p =
     bindr (exec_dispatch T ''AccStatusChange'' (enum_dispatch acc_status_change_tags) p) (\<lambda>(i, p).
     Inr ([AcstUnchanged, AcstFrozen, AcstDeleted] ! i, p))"

datatype ComputeSkipReason = SkipNoState | SkipBadState | SkipNoGas | SkipSuspended

definition compute_skip_reason_tags :: "string list" where
  "compute_skip_reason_tags = [''0b00'', ''0b01'', ''0b10'', ''0b110'']"

definition unpack_compute_skip_reason :: "('c, 'p, 'b) toner_lib \<Rightarrow> 'p \<Rightarrow> string + ComputeSkipReason \<times> 'p" where
  "unpack_compute_skip_reason T p =
     bindr (exec_dispatch T ''ComputeSkipReason'' (enum_dispatch compute_skip_reason_tags) p) (\<lambda>(i, p).
     Inr ([SkipNoState, SkipBadState, SkipNoGas, SkipSuspended] ! i, p))"

record TrStoragePhase =
  sp_storage_fees_collected :: nat
  sp_storage_fees_due :: "nat option"
  sp_status_change :: AccStatusChange

definition unpack_tr_storage_phase :: "('c, 'p, 'b) toner_lib \<Rightarrow> ('c, 'p) block_lib \<Rightarrow> 'p
    \<Rightarrow> string + TrStoragePhase \<times> 'p" where
  "unpack_tr_storage_phase T B p =
     bindr (in_ctx T ''storage_fees_collected'' (unpack_grams B p)) (\<lambda>(fees, p).
     bindr (in_ctx T ''storage_fees_due'' (parse_maybe T (unpack_grams B) p)) (\<lambda>(due, p).
     bindr (in_ctx T ''status_change'' (unpack_acc_status_change T p)) (\<lambda>(change, p).
     Inr (\<lparr>sp_storage_fees_collected = fees, sp_storage_fees_due = due, sp_status_change = change\<rparr>, p))))"

record TrCreditPhase =
  cp_due_fees_collected :: "nat option"
  cp_credit :: CurrencyCollection

definition parse_tr_credit_phase :: "('c, 'p, 'b) toner_lib \<Rightarrow> ('c, 'p) block_lib \<Rightarrow> 'p
    \<Rightarrow> string + TrCreditPhase \<times> 'p" where
  "parse_tr_credit_phase T B p =
     bindr (in_ctx T ''due_fees_collected'' (parse_maybe T (unpack_grams B) p)) (\<lambda>(due, p).
     bindr (in_ctx T ''credit'' (parse_currency_collection T B p)) (\<lambda>(credit, p).
     Inr (\<lparr>cp_due_fees_collected = due, cp_credit = credit\<rparr>, p)))"

text \<open>The fields of the virtual machine that stand in a cell of their own.\<close>

record TrVmDetails =
  vm_gas_used :: nat
  vm_gas_limit :: nat
  vm_gas_credit :: "nat option"
  vm_mode :: int
  vm_exit_code :: i32
  vm_exit_arg :: "i32 option"
  vm_steps :: u32
  vm_init_state_hash :: bytes
  vm_final_state_hash :: bytes

datatype TrComputePhase =
    ComputeSkipped ComputeSkipReason
  | ComputeVm bool bool bool nat TrVmDetails

definition tr_compute_phase_tags :: "string list" where
  "tr_compute_phase_tags = [''$0'', ''$1'']"

definition unpack_tr_vm_details :: "('c, 'p, 'b) toner_lib \<Rightarrow> ('c, 'p) block_lib \<Rightarrow> 'p \<Rightarrow> string + TrVmDetails \<times> 'p" where
  "unpack_tr_vm_details T B p =
     bindr (in_ctx T ''gas_used'' (unpack_var_int B 3 p)) (\<lambda>(used, p).
     bindr (in_ctx T ''gas_limit'' (unpack_var_int B 3 p)) (\<lambda>(lim, p).
     bindr (in_ctx T ''gas_credit'' (parse_maybe T (unpack_var_int B 2) p)) (\<lambda>(cred, p).
     bindr (in_ctx T ''mode'' (unpack_int T 8 p)) (\<lambda>(m, p).
     bindr (in_ctx T ''exit_code'' (unpack_int T 32 p)) (\<lambda>(ec, p).
     bindr (in_ctx T ''exit_arg'' (parse_maybe T (unpack_int T 32) p)) (\<lambda>(ea, p).
     bindr (in_ctx T ''vm_steps'' (unpack_uint T p)) (\<lambda>(st, p).
     bindr (in_ctx T ''vm_init_state_hash'' (unpack_bytes T 32 p)) (\<lambda>(h0, p).
     bindr (in_ctx T ''vm_final_state_hash'' (unpack_bytes T 32 p)) (\<lambda>(h1, p).
     Inr (\<lparr>vm_gas_used = used, vm_gas_limit = lim, vm_gas_credit = cred, vm_mode = m, vm_exit_code = ec,
           vm_exit_arg = ea, vm_steps = st, vm_init_state_hash = h0, vm_final_state_hash = h1\<rparr>, p))))))))))"

definition parse_tr_compute_phase :: "('c, 'p, 'b) toner_lib \<Rightarrow> ('c, 'p) block_lib \<Rightarrow> 'p
    \<Rightarrow> string + TrComputePhase \<times> 'p" where
  "parse_tr_compute_phase T B p =
     bindr (exec_dispatch T ''TrComputePhase'' (enum_dispatch tr_compute_phase_tags) p) (\<lambda>(i, p).
     if i = 0 then
       bindr (in_ctx T ''reason'' (unpack_compute_skip_reason T p)) (\<lambda>(r, p). Inr (ComputeSkipped r, p))
     else
       bindr (in_ctx T ''success'' (unpack_bool T p)) (\<lambda>(success, p).
       bindr (in_ctx T ''msg_state_used'' (unpack_bool T p)) (\<lambda>(used, p).
       bindr (in_ctx T ''account_activated'' (unpack_bool T p)) (\<lambda>(activated, p).
       bindr (in_ctx T ''gas_fees'' (unpack_grams B p)) (\<lambda>(fees, p).
       bindr (in_ctx T ''^['' (parse_ref T p)) (\<lambda>(c, p).
       bindr (unpack_tr_vm_details T B (cell_parser T c)) (\<lambda>(details, q).
       bindr (in_ctx T ''^]'' (ensure_empty T q)) (\<lambda>_.
       Inr (ComputeVm success used activated fees details, p)))))))))"

record TrActionPhase =
  ap_success :: bool
  ap_valid :: bool
  ap_no_funds :: bool
  ap_status_change :: AccStatusChange
  ap_total_fwd_fees :: "nat option"
  ap_total_action_fees :: "nat option"
  ap_result_code :: i32
  ap_result_arg :: "i32 option"
  ap_tot_actions :: u16
  ap_spec_actions :: u16
  ap_skipped_actions :: u16
  ap_msgs_created :: u16
  ap_action_list_hash :: bytes
  ap_tot_msg_size :: StorageUsed

definition unpack_tr_action_phase :: "('c, 'p, 'b) toner_lib \<Rightarrow> ('c, 'p) block_lib \<Rightarrow> 'p
    \<Rightarrow> string + TrActionPhase \<times> 'p" where
  "unpack_tr_action_phase T B p =
     bindr (in_ctx T ''success'' (unpack_bool T p)) (\<lambda>(success, p).
     bindr (in_ctx T ''valid'' (unpack_bool T p)) (\<lambda>(ok, p).
     bindr (in_ctx T ''no_funds'' (unpack_bool T p)) (\<lambda>(nf, p).
     bindr (in_ctx T ''status_change'' (unpack_acc_status_change T p)) (\<lambda>(change, p).
     bindr (in_ctx T ''total_fwd_fees'' (parse_maybe T (unpack_grams B) p)) (\<lambda>(fwd, p).
     bindr (in_ctx T ''total_action_fees'' (parse_maybe T (unpack_grams B) p)) (\<lambda>(fees, p).
     bindr (in_ctx T ''result_code'' (unpack_int T 32 p)) (\<lambda>(rc, p).
     bindr (in_ctx T ''result_arg'' (parse_maybe T (unpack_int T 32) p)) (\<lambda>(ra, p).
     bindr (in_ctx T ''tot_actions'' (unpack_uint T p)) (\<lambda>(tot, p).
     bindr (in_ctx T ''spec_actions'' (unpack_uint T p)) (\<lambda>(spec, p).
     bindr (in_ctx T ''skipped_actions'' (unpack_uint T p)) (\<lambda>(skipped, p).
     bindr (in_ctx T ''msgs_created'' (unpack_uint T p)) (\<lambda>(created, p).
     bindr (in_ctx T ''action_list_hash'' (unpack_bytes T 32 p)) (\<lambda>(h, p).
     bindr (in_ctx T ''tot_msg_size'' (unpack_storage_used T B p)) (\<lambda>(sz, p).
     Inr (\<lparr>ap_success = success, ap_valid = ok, ap_no_funds = nf, ap_status_change = change,
           ap_total_fwd_fees = fwd, ap_total_action_fees = fees, ap_result_code = rc, ap_result_arg = ra,
           ap_tot_actions = tot, ap_spec_actions = spec, ap_skipped_actions = skipped, ap_msgs_created = created,
           ap_action_list_hash = h, ap_tot_msg_size = sz\<rparr>, p)))))))))))))))"

datatype TrBouncePhase = BounceNegFunds | BounceNoFunds StorageUsed nat | BounceOk StorageUsed nat nat

definition tr_bounce_phase_tags :: "string list" where
  "tr_bounce_phase_tags = [''$00'', ''$01'', ''$1'']"

definition unpack_tr_bounce_phase :: "('c, 'p, 'b) toner_lib \<Rightarrow> ('c, 'p) block_lib \<Rightarrow> 'p
    \<Rightarrow> string + TrBouncePhase \<times> 'p" where
  "unpack_tr_bounce_phase T B p =
     bindr (exec_dispatch T ''TrBouncePhase'' (enum_dispatch tr_bounce_phase_tags) p) (\<lambda>(i, p).
     if i = 0 then Inr (BounceNegFunds, p)
     else if i = 1 then
       bindr (in_ctx T ''msg_size'' (unpack_storage_used T B p)) (\<lambda>(sz, p).
       bindr (in_ctx T ''req_fwd_fees'' (unpack_grams B p)) (\<lambda>(fees, p). Inr (BounceNoFunds sz fees, p)))
     else
       bindr (in_ctx T ''msg_size'' (unpack_storage_used T B p)) (\<lambda>(sz, p).
       bindr (in_ctx T ''msg_fees'' (unpack_grams B p)) (\<lambda>(mf, p).
       bindr (in_ctx T ''fwd_fees'' (unpack_grams B p)) (\<lambda>(ff, p). Inr (BounceOk sz mf ff, p)))))"

record SplitMergeInfo =
  sm_cur_shard_pfx_len :: nat
  sm_acc_split_depth :: nat
  sm_this_addr :: bytes
  sm_sibling_addr :: bytes

definition unpack_split_merge_info :: "('c, 'p, 'b) toner_lib \<Rightarrow> 'p \<Rightarrow> string + SplitMergeInfo \<times> 'p" where
  "unpack_split_merge_info T p =
     bindr (in_ctx T ''cur_shard_pfx_len'' (unpack_nbits T 6 p)) (\<lambda>(n, p).
     bindr (in_ctx T ''acc_split_depth'' (unpack_nbits T 6 p)) (\<lambda>(d, p).
     bindr (in_ctx T ''this_addr'' (unpack_bytes T 32 p)) (\<lambda>(a, p).
     bindr (in_ctx T ''sibling_addr'' (unpack_bytes T 32 p)) (\<lambda>(s, p).
     Inr (\<lparr>sm_cur_shard_pfx_len = n, sm_acc_split_depth = d, sm_this_addr = a, sm_sibling_addr = s\<rparr>, p)))))"

section \<open>Transactions\<close>

text \<open>
  A transaction is the part the adapter converts and the rest: \<open>outmsg_cnt\<close>, the statuses, the other
  currencies of the fees, the update of the account and the description.
\<close>

datatype ('c, 'd) Tx =
    TlbTx "'c TlbTransaction" nat AccountStatus AccountStatus ExtraCurrencyCollection HashUpdate 'd

datatype 'c TransactionDescr =
    TrOrdinary bool "TrStoragePhase option" "TrCreditPhase option" TrComputePhase "TrActionPhase option" bool
      "TrBouncePhase option" bool
  | TrStorage TrStoragePhase
  | TrTickTock bool TrStoragePhase TrComputePhase "TrActionPhase option" bool bool
  | TrSplitPrepare SplitMergeInfo "TrStoragePhase option" TrComputePhase "TrActionPhase option" bool bool
  | TrSplitInstall SplitMergeInfo "('c, 'c TransactionDescr) Tx" bool
  | TrMergePrepare SplitMergeInfo TrStoragePhase bool
  | TrMergeInstall SplitMergeInfo "('c, 'c TransactionDescr) Tx" "TrStoragePhase option" "TrCreditPhase option" TrComputePhase
      "TrActionPhase option" bool bool

type_synonym 'c TlbTx = "('c, 'c TransactionDescr) Tx"

primrec tx_part :: "('c, 'd) Tx \<Rightarrow> 'c TlbTransaction" where
  "tx_part (TlbTx part cnt orig end_st other upd descr) = part"

definition transaction_descr_tags :: "string list" where
  "transaction_descr_tags = [''$0000'', ''$0001'', ''$001'', ''$0100'', ''$0101'', ''$0110'', ''$0111'']"

text \<open>The compute phase, the optional action phase in a cell of its own and \<open>aborted\<close>.\<close>

definition parse_compute_action :: "('c, 'p, 'b) toner_lib \<Rightarrow> ('c, 'p) block_lib \<Rightarrow> 'p
    \<Rightarrow> string + (TrComputePhase \<times> TrActionPhase option \<times> bool) \<times> 'p" where
  "parse_compute_action T B p =
     bindr (in_ctx T ''compute_ph'' (parse_tr_compute_phase T B p)) (\<lambda>(compute, p).
     bindr (in_ctx T ''action'' (parse_maybe T (parse_as_ref T (fully T (unpack_tr_action_phase T B))) p)) (\<lambda>(action, p).
     bindr (in_ctx T ''aborted'' (unpack_bool T p)) (\<lambda>(aborted, p).
     Inr ((compute, action, aborted), p))))"

text \<open>\<open>format!("{:b}")\<close>.\<close>

fun bin_text :: "nat \<Rightarrow> string" where
  "bin_text n = (if n < 2 then [if n = 0 then CHR ''0'' else CHR ''1'']
                 else bin_text (n div 2) @ [if even n then CHR ''0'' else CHR ''1''])"

declare bin_text.simps [simp del]

text \<open>A transaction, with the reader of its description.\<close>

definition parse_transaction_with :: "('c, 'p, 'b) toner_lib \<Rightarrow> ('c, 'p) block_lib \<Rightarrow> ('p \<Rightarrow> string + 'd \<times> 'p) \<Rightarrow> 'p
    \<Rightarrow> string + ('c, 'd) Tx \<times> 'p" where
  "parse_transaction_with T B rd p =
     bindr (in_ctx T ''tag'' (unpack_nbits T 4 p)) (\<lambda>(tag, p).
     if tag \<noteq> 7 then Inl (''invalid tag: '' @ bin_text tag) else
     bindr (in_ctx T ''account_addr'' (unpack_bytes T 32 p)) (\<lambda>(account_addr, p).
     bindr (in_ctx T ''lt'' (unpack_uint T p)) (\<lambda>(lt, p).
     bindr (in_ctx T ''prev_trans_hash'' (unpack_bytes T 32 p)) (\<lambda>(prev_hash, p).
     bindr (in_ctx T ''prev_trans_lt'' (unpack_uint T p)) (\<lambda>(prev_lt, p).
     bindr (in_ctx T ''now'' (unpack_uint T p)) (\<lambda>(time, p).
     bindr (in_ctx T ''outmsg_cnt'' (unpack_nbits T 15 p)) (\<lambda>(cnt, p).
     bindr (in_ctx T ''orig_status'' (unpack_account_status T p)) (\<lambda>(orig, p).
     bindr (in_ctx T ''end_status'' (unpack_account_status T p)) (\<lambda>(end_st, p).
     bindr (in_ctx T ''(in_msg, out_msgs)'' (parse_as_ref T (fully T (\<lambda>p.
              bindr (parse_maybe T (parse_ref T) p) (\<lambda>(m, p).
              bindr (cell_dict B 15 (parse_ref T) p) (\<lambda>(ms, p). Inr ((m, ms), p))))) p)) (\<lambda>((m, ms), p).
     bindr (in_ctx T ''total_fees'' (parse_currency_collection T B p)) (\<lambda>(fees, p).
     bindr (in_ctx T ''state_update'' (parse_as_ref T (fully T (unpack_hash_update T)) p)) (\<lambda>(upd, p).
     bindr (in_ctx T ''description'' (parse_as_ref T rd p)) (\<lambda>(descr, p).
     Inr (TlbTx \<lparr>tt_account_addr = account_addr, tt_lt = lt, tt_prev_trans_hash = prev_hash, tt_prev_trans_lt = prev_lt,
                 tt_now = time, tt_in_msg = m, tt_out_msgs = map (\<lambda>(k, v). (load_be k, v)) ms,
                 tt_total_fees = cc_grams fees\<rparr>
            cnt orig end_st (cc_other fees) upd descr, p))))))))))))))"

fun parse_transaction_descr :: "nat \<Rightarrow> ('c, 'p, 'b) toner_lib \<Rightarrow> ('c, 'p) block_lib \<Rightarrow> 'p
    \<Rightarrow> string + 'c TransactionDescr \<times> 'p" where
  "parse_transaction_descr 0 T B p = Inl stack_overflow"
| "parse_transaction_descr (Suc fuel) T B p =
     bindr (exec_dispatch T ''TransactionDescr'' (enum_dispatch transaction_descr_tags) p) (\<lambda>(i, p).
     if i = 0 then
       bindr (in_ctx T ''credit_first'' (unpack_bool T p)) (\<lambda>(credit_first, p).
       bindr (in_ctx T ''storage_ph'' (parse_maybe T (unpack_tr_storage_phase T B) p)) (\<lambda>(storage_ph, p).
       bindr (in_ctx T ''credit_ph'' (parse_maybe T (parse_tr_credit_phase T B) p)) (\<lambda>(credit_ph, p).
       bindr (parse_compute_action T B p) (\<lambda>((compute, action, aborted), p).
       bindr (in_ctx T ''bounce'' (parse_maybe T (unpack_tr_bounce_phase T B) p)) (\<lambda>(bounce, p).
       bindr (in_ctx T ''destroyed'' (unpack_bool T p)) (\<lambda>(destroyed, p).
       Inr (TrOrdinary credit_first storage_ph credit_ph compute action aborted bounce destroyed, p)))))))
     else if i = 1 then
       bindr (in_ctx T ''storage_ph'' (unpack_tr_storage_phase T B p)) (\<lambda>(storage_ph, p).
       Inr (TrStorage storage_ph, p))
     else if i = 2 then
       bindr (in_ctx T ''is_tock'' (unpack_bool T p)) (\<lambda>(is_tock, p).
       bindr (in_ctx T ''storage_ph'' (unpack_tr_storage_phase T B p)) (\<lambda>(storage_ph, p).
       bindr (parse_compute_action T B p) (\<lambda>((compute, action, aborted), p).
       bindr (in_ctx T ''destroyed'' (unpack_bool T p)) (\<lambda>(destroyed, p).
       Inr (TrTickTock is_tock storage_ph compute action aborted destroyed, p)))))
     else
       bindr (in_ctx T ''split_info'' (unpack_split_merge_info T p)) (\<lambda>(split_info, p).
       if i = 3 then
         bindr (in_ctx T ''storage_ph'' (parse_maybe T (unpack_tr_storage_phase T B) p)) (\<lambda>(storage_ph, p).
         bindr (parse_compute_action T B p) (\<lambda>((compute, action, aborted), p).
         bindr (in_ctx T ''destroyed'' (unpack_bool T p)) (\<lambda>(destroyed, p).
         Inr (TrSplitPrepare split_info storage_ph compute action aborted destroyed, p))))
       else if i = 4 then
         bindr (in_ctx T ''prepare_transaction'' (parse_as_ref T (parse_transaction_with T B (parse_transaction_descr fuel T B)) p)) (\<lambda>(tx, p).
         bindr (in_ctx T ''installed'' (unpack_bool T p)) (\<lambda>(installed, p).
         Inr (TrSplitInstall split_info tx installed, p)))
       else if i = 5 then
         bindr (in_ctx T ''storage_ph'' (unpack_tr_storage_phase T B p)) (\<lambda>(storage_ph, p).
         bindr (in_ctx T ''aborted'' (unpack_bool T p)) (\<lambda>(aborted, p).
         Inr (TrMergePrepare split_info storage_ph aborted, p)))
       else
         bindr (in_ctx T ''prepare_transaction'' (parse_as_ref T (parse_transaction_with T B (parse_transaction_descr fuel T B)) p)) (\<lambda>(tx, p).
         bindr (in_ctx T ''storage_ph'' (parse_maybe T (unpack_tr_storage_phase T B) p)) (\<lambda>(storage_ph, p).
         bindr (in_ctx T ''credit_ph'' (parse_maybe T (parse_tr_credit_phase T B) p)) (\<lambda>(credit_ph, p).
         bindr (parse_compute_action T B p) (\<lambda>((compute, action, aborted), p).
         bindr (in_ctx T ''destroyed'' (unpack_bool T p)) (\<lambda>(destroyed, p).
         Inr (TrMergeInstall split_info tx storage_ph credit_ph compute action aborted destroyed, p))))))))"

definition parse_tlb_transaction :: "nat \<Rightarrow> ('c, 'p, 'b) toner_lib \<Rightarrow> ('c, 'p) block_lib \<Rightarrow> 'p \<Rightarrow> string + 'c TlbTx \<times> 'p" where
  "parse_tlb_transaction fuel T B = parse_transaction_with T B (parse_transaction_descr fuel T B)"

section \<open>The readers of the adapter\<close>

text \<open>
  A panic ends the task of the call; the caller gets no answer, and here the error \<open>panicked\<close>.
\<close>

definition read_result :: "read_fail + 'a \<Rightarrow> anyhow + 'a" where
  "read_result = map_err (\<lambda>e. case e of ReadError m \<Rightarrow> m | ReadPanic m \<Rightarrow> ''panicked: '' @ m)"

definition merkle_proof_of :: "('c, 'p, 'b) toner_lib \<Rightarrow> ('c, 'p) block_lib \<Rightarrow> ('p \<Rightarrow> read_fail + 'x \<times> 'p) \<Rightarrow> 'c
    \<Rightarrow> read_fail + 'x MerkleProof" where
  "merkle_proof_of T B rx = cell_parse_fully T (parse_merkle_proof T B rx)"

text \<open>
  The readers behind \<open>root.parse_fully(())\<close> in the adapter; \<open>parse_message\<close> reads a \<open>Message\<close> of \<open>toner\<close> and
  stays a parameter.
\<close>

definition tlb_readers :: "nat \<Rightarrow> ('c, 'p, 'b) toner_lib \<Rightarrow> ('c, 'p) block_lib \<Rightarrow> 'p shard_dict
    \<Rightarrow> ('c \<Rightarrow> anyhow + CommonMsgInfo \<times> (anyhow + 'c)) \<Rightarrow> 'c tlb_lib" where
  "tlb_readers fuel T B D rm = \<lparr>
     merkle_hash = (\<lambda>root. read_result (
       map_ok mp_virtual_hash (merkle_proof_of T B (\<lambda>p. lift_read (parse_cell B p)) root))),
     merkle_block_header = (\<lambda>root. read_result (
       map_ok (\<lambda>proof. (mp_virtual_hash proof, mp_virtual_root proof)) (merkle_proof_of T B (parse_block_header T B) root))),
     parse_shard_hashes = (\<lambda>root. read_result (
       map_ok (map (\<lambda>(wc, ds). (wc, map ShardDescr.truncate ds))) (cell_parse_fully T (parse_shard_hashes_cell T B D) root))),
     parse_transaction = (\<lambda>root. map_ok tx_part (parse_fully T (parse_tlb_transaction fuel T B) root)),
     parse_message = rm\<rparr>"

primrec account_part :: "'c TlbAccount \<Rightarrow> 'c Account" where
  "account_part TlbAccountNone = AccountNone"
| "account_part (TlbAccount addr stat storage) = Account (cc_grams (as_balance storage)) (as_account_state storage)"

definition account_readers :: "('c, 'p, 'b) toner_lib \<Rightarrow> ('c, 'p) block_lib \<Rightarrow> 'c account_lib" where
  "account_readers T B = \<lparr>
     parse_account = (\<lambda>root. map_ok account_part (parse_fully T (parse_tlb_account T B) root)),
     merkle_shard_state = (\<lambda>root. read_result (
       map_ok ss_gen_utime (cell_parse_fully T (parse_as_merkle_proof T B (\<lambda>p. lift_read (parse_shard_state T p))) root)))\<rparr>"

text \<open>
  The libraries of the adapter with the readers and writers of this crate in place: what is left as a parameter is
  BoC, \<open>toner\<close> and the big integers.
\<close>

definition libs_over :: "nat \<Rightarrow> 'c cell_lib \<Rightarrow> ('c, 'p, 'b) toner_lib \<Rightarrow> ('c, 'p) block_lib \<Rightarrow> 'p shard_dict
    \<Rightarrow> ('c vm_value, 'p, 'b) hashmap_lib \<Rightarrow> ('c \<Rightarrow> anyhow + CommonMsgInfo \<times> (anyhow + 'c)) \<Rightarrow> ('c, 'c VmCont) smc_lib
    \<Rightarrow> ('c, 'c VmCont) libs" where
  "libs_over fuel L T B D H rm S = \<lparr>
     cells = L,
     tlb = tlb_readers fuel T B D rm,
     accounts = account_readers T B,
     smc = S\<lparr>vm_stack_to_cell := (\<lambda>vs. to_cell T (store_stack T H vs)),
              parse_vm_stack := parse_fully T (parse_stack fuel T H)\<rparr>\<rparr>"

end
