(* ===== verification/Tlb_Block_Correct.thy ===== *)
theory Tlb_Block_Correct
  imports Tlb_Transaction
begin

text \<open>
  Block headers and Merkle proofs: what a reader returns is well formed, a header laid out in cells as the TL-B
  scheme says is read, and what an accepted proof says about the cell it carries.
\<close>

section \<open>Layout of primitive values\<close>

definition word_bits :: "('a :: len) word \<Rightarrow> bool list" where
  "word_bits w = nat_bits LENGTH('a) (unat w)"

definition int_bits :: "nat \<Rightarrow> int \<Rightarrow> bool list" where
  "int_bits n i = nat_bits n (nat (i mod 2 ^ n))"

definition hash_bits :: "bytes \<Rightarrow> bool list" where
  "hash_bits h = concat (map word_bits h)"

lemma reads_uint:
  assumes "parser_laws T pv"
  shows "reads pv (unpack_uint T) (word_bits (w :: ('a :: len) word)) [] w"
proof -
  have "reads pv (unpack_nbits T LENGTH('a)) (word_bits w) [] (unat w)"
    unfolding word_bits_def using assms by (rule reads_nat) (rule unsigned_less)
  from reads_map [OF this, of "word_of_nat :: nat \<Rightarrow> 'a word"] show ?thesis
    by (simp add: unpack_uint_def [abs_def])
qed

lemma reads_bool: "parser_laws T pv \<Longrightarrow> reads pv (unpack_bool T) [b] [] b"
  using reads_map [OF reads_nbits [of T pv "[b]" 1], of "\<lambda>v. v \<noteq> 0"]
  by (simp add: unpack_bool_def [abs_def] bits_nat_def)

lemma reads_bytes:
  assumes T: "parser_laws T pv"
  shows "reads pv (unpack_bytes T (length h)) (hash_bits h) [] h"
proof (induction h)
  case Nil
  show ?case by (simp add: hash_bits_def reads_def)
next
  case (Cons b h)
  let ?k = "\<lambda>b p. bindr (unpack_bytes T (length h) p) (\<lambda>(bs, p). Inr (b # bs, p))"
  have "reads pv (?k b) (hash_bits h) [] (b # h)" using reads_map [OF Cons, of "(#) b"] .
  from reads_bind [of pv "unpack_uint T" _ _ b ?k, OF reads_uint [OF T] this]
  show ?case by (simp add: hash_bits_def)
qed

lemma reads_hash: "parser_laws T pv \<Longrightarrow> length h = 32 \<Longrightarrow> reads pv (unpack_bytes T 32) (hash_bits h) [] h"
  by (metis reads_bytes)

lemma reads_i32: "parser_laws T pv \<Longrightarrow> i32_range i \<Longrightarrow> reads pv (unpack_int T 32) (int_bits 32 i) [] i"
  unfolding int_bits_def by (rule reads_int) (simp_all add: i32_range_def)

lemma reads_ctx: "reads pv (\<lambda>p. in_ctx T c (rd p)) bs rs v \<longleftrightarrow> reads pv rd bs rs v"
  by (simp add: in_ctx_def reads_context)

lemma reads_tag:
  assumes "parser_laws T pv" "unat lit < 2 ^ n"
  shows "reads pv (exec_tag_check T (name, n, lit)) (nat_bits n (unat lit)) [] ()"
proof -
  let ?k = "\<lambda>t p'. if t \<noteq> unat lit then Inl (''invalid '' @ name @ '' tag: 0x'' @ hex_padded ((n + 3) div 4) t) else Inr ((), p')"
  have "reads pv (?k (unat lit)) [] [] ()" by (simp add: reads_return)
  from reads_bind [of _ _ _ _ _ ?k, OF reads_nat [OF assms] this] show ?thesis
    by (simp add: exec_tag_check_def)
qed

lemma reads_when:
  assumes "b \<longleftrightarrow> v \<noteq> None" and "\<And>x. v = Some x \<Longrightarrow> reads pv rd bs rs x"
    and "v = None \<Longrightarrow> bs = [] \<and> rs = []"
  shows "reads pv (unpack_when b rd) bs rs v"
proof (cases v)
  case None
  with assms(1,3) show ?thesis by (simp add: unpack_when_def [abs_def] reads_def)
next
  case (Some x)
  with assms(1) reads_map [OF assms(2) [OF Some], of Some] show ?thesis by (simp add: unpack_when_def [abs_def])
qed

text \<open>A value alone in the cell of a reference.\<close>

lemma reads_child:
  assumes "parser_laws T pv" and "reads pv rd bs rs v" and "pv (cell_parser T c) = (bs, rs)"
  obtains q where "rd (cell_parser T c) = Inr (v, q)" and "pv q = ([], [])"
  using readsD [OF assms(2), of "cell_parser T c" "[]" "[]"] assms(3) by auto

lemma reads_as_ref:
  assumes T: "parser_laws T pv" and "reads pv rd bs rs v" and "pv (cell_parser T c) = (bs, rs)"
  shows "reads pv (parse_as_ref T rd) [] [c] v"
proof -
  from assms obtain q where q: "rd (cell_parser T c) = Inr (v, q)" "pv q = ([], [])" by (rule reads_child)
  let ?k = "\<lambda>c p'. bindr (rd (cell_parser T c)) (\<lambda>(v, q). bindr (ref_end T q) (\<lambda>_. Inr (v, p')))"
  have "reads pv (?k c) [] [] v" using reads_return by (simp add: q ref_end_empty [OF T])
  from reads_bind [of _ _ _ _ _ ?k, OF reads_ref [OF T] this] show ?thesis
    by (simp add: parse_as_ref_def [abs_def])
qed

lemma reads_fully_ref:
  assumes T: "parser_laws T pv" and "reads pv rd bs rs v" and "pv (cell_parser T c) = (bs, rs)"
  shows "reads pv (ref_as T (fully_as T rd)) [] [c] v"
proof -
  from assms obtain q where q: "rd (cell_parser T c) = Inr (v, q)" "pv q = ([], [])" by (rule reads_child)
  let ?k = "\<lambda>c p'. bindr (fully_as T rd (cell_parser T c)) (\<lambda>(v, q). bindr (lift_read (ref_end T q)) (\<lambda>_. Inr (v, p')))"
  have "ensure_empty T q = Inr ()" by (simp add: ensure_empty_iff [OF T] q)
  then have "reads pv (?k c) [] [] v" using reads_return by (simp add: fully_as_def q ref_end_empty [OF T])
  from reads_bind [of _ "\<lambda>p. lift_read (parse_ref T p)" _ _ _ ?k, OF _ this] reads_ref [OF T]
  show ?thesis by (simp add: ref_as_def [abs_def] reads_context)
qed

lemma reads_as_ref_fully:
  assumes T: "parser_laws T pv" and "reads pv rd bs rs v" and "pv (cell_parser T c) = (bs, rs)"
  shows "reads pv (parse_as_ref T (fully T rd)) [] [c] v"
proof -
  from assms obtain q where q: "rd (cell_parser T c) = Inr (v, q)" "pv q = ([], [])" by (rule reads_child)
  let ?k = "\<lambda>c p'. bindr (fully T rd (cell_parser T c)) (\<lambda>(v, q). bindr (ref_end T q) (\<lambda>_. Inr (v, p')))"
  have "ensure_empty T q = Inr ()" by (simp add: ensure_empty_iff [OF T] q)
  then have "reads pv (?k c) [] [] v" using reads_return by (simp add: fully_def q ref_end_empty [OF T])
  from reads_bind [of _ _ _ _ _ ?k, OF reads_ref [OF T] this] show ?thesis
    by (simp add: parse_as_ref_def [abs_def])
qed

lemma reads_pair:
  assumes "reads pv rd bs rs (a, b)"
  shows "reads pv (\<lambda>p. bindr (rd p) (\<lambda>((x, y), p'). Inr (f x y, p'))) bs rs (f a b)"
  using assms by (fastforce simp: reads_def)

lemma reads_parse_fully:
  assumes T: "parser_laws T pv" and "reads pv rd bs rs v" and "pv (cell_parser T c) = (bs, rs)"
  shows "cell_parse_fully T rd c = Inr v"
proof -
  from assms obtain q where q: "rd (cell_parser T c) = Inr (v, q)" "pv q = ([], [])" by (rule reads_child)
  have "ensure_empty T q = Inr ()" by (simp add: ensure_empty_iff [OF T] q)
  with q show ?thesis by (simp add: cell_parse_fully_def fully_as_def)
qed

section \<open>Layout of a block header\<close>

text \<open>The TL-B scheme in the comments of the structs: the bits of a value, and what its references hold.\<close>

definition ext_blk_ref_bits :: "ExtBlkRef \<Rightarrow> bool list" where
  "ext_blk_ref_bits r =
     word_bits (ref_end_lt r) @ word_bits (ref_seq_no r) @ hash_bits (ref_root_hash r) @ hash_bits (ref_file_hash r)"

definition ext_blk_ref_ok :: "ExtBlkRef \<Rightarrow> bool" where
  "ext_blk_ref_ok r \<longleftrightarrow> length (ref_root_hash r) = 32 \<and> length (ref_file_hash r) = 32"

definition shard_ident_bits :: "ShardIdent \<Rightarrow> bool list" where
  "shard_ident_bits s =
     nat_bits 2 0 @ nat_bits 6 (shard_pfx_bits s) @ int_bits 32 (ident_workchain s) @ word_bits (shard_prefix s)"

definition shard_ident_ok :: "ShardIdent \<Rightarrow> bool" where
  "shard_ident_ok s \<longleftrightarrow> shard_pfx_bits s \<le> 63 \<and> i32_range (ident_workchain s)"

definition global_version_bits :: "GlobalVersion \<Rightarrow> bool list" where
  "global_version_bits g = nat_bits 8 0xc4 @ word_bits (gv_version g) @ word_bits (gv_capabilities g)"

fun prev_info_ok :: "bool \<Rightarrow> BlkPrevInfo \<Rightarrow> bool" where
  "prev_info_ok merged (PrevRef r) \<longleftrightarrow> \<not> merged \<and> ext_blk_ref_ok r"
| "prev_info_ok merged (PrevRefPair a b) \<longleftrightarrow> merged \<and> ext_blk_ref_ok a \<and> ext_blk_ref_ok b"

text \<open>
  The conditional fields of \<open>BlockInfo\<close> are there exactly when the bits that announce them are set.
\<close>

definition block_info_ok :: "BlockInfo \<Rightarrow> bool" where
  "block_info_ok i \<longleftrightarrow>
     shard_ident_ok (bi_shard i)
     \<and> (bi_flags i AND 1 \<noteq> 0 \<longleftrightarrow> bi_gen_software i \<noteq> None)
     \<and> (bi_not_master i \<longleftrightarrow> bi_master_ref i \<noteq> None) \<and> pred_option ext_blk_ref_ok (bi_master_ref i)
     \<and> prev_info_ok (bi_after_merge i) (bi_prev_ref i)
     \<and> (bi_vert_seqno_incr i \<longleftrightarrow> bi_prev_vert_ref i \<noteq> None) \<and> pred_option (prev_info_ok False) (bi_prev_vert_ref i)"

definition header_ok :: "TlbBlockHeader \<Rightarrow> bool" where
  "header_ok h \<longleftrightarrow> i32_range (hd_global_id h) \<and> block_info_ok (hd_info h)"

definition block_info_bits :: "BlockInfo \<Rightarrow> bool list" where
  "block_info_bits i =
     nat_bits 32 0x9bc7a987 @ word_bits (bi_version i)
     @ [bi_not_master i] @ [bi_after_merge i] @ [bi_before_split i] @ [bi_after_split i]
     @ [bi_want_split i] @ [bi_want_merge i] @ [bi_key_block i] @ [bi_vert_seqno_incr i]
     @ word_bits (bi_flags i) @ word_bits (bi_seq_no i) @ word_bits (bi_vert_seq_no i)
     @ shard_ident_bits (bi_shard i) @ word_bits (bi_gen_utime i)
     @ word_bits (bi_start_lt i) @ word_bits (bi_end_lt i)
     @ word_bits (bi_gen_validator_list_hash_short i) @ word_bits (bi_gen_catchain_seqno i)
     @ word_bits (bi_min_ref_mc_seqno i) @ word_bits (bi_prev_key_block_seqno i)
     @ (case bi_gen_software i of None \<Rightarrow> [] | Some g \<Rightarrow> global_version_bits g)"

definition prev_info_at :: "('c, 'p, 'b) toner_lib \<Rightarrow> ('p \<Rightarrow> 'c view) \<Rightarrow> BlkPrevInfo \<Rightarrow> 'c \<Rightarrow> bool" where
  "prev_info_at T pv prev c \<longleftrightarrow> (case prev of
       PrevRef r \<Rightarrow> pv (cell_parser T c) = (ext_blk_ref_bits r, [])
     | PrevRefPair a b \<Rightarrow> (\<exists>ca cb. pv (cell_parser T c) = ([], [ca, cb])
         \<and> pv (cell_parser T ca) = (ext_blk_ref_bits a, []) \<and> pv (cell_parser T cb) = (ext_blk_ref_bits b, [])))"

text \<open>An optional reference: no cell, or one that holds the value.\<close>

definition maybe_ref_at :: "('v \<Rightarrow> 'c \<Rightarrow> bool) \<Rightarrow> 'v option \<Rightarrow> 'c list \<Rightarrow> bool" where
  "maybe_ref_at at v rs \<longleftrightarrow> (case v of None \<Rightarrow> rs = [] | Some x \<Rightarrow> \<exists>c. rs = [c] \<and> at x c)"

definition block_info_at :: "('c, 'p, 'b) toner_lib \<Rightarrow> ('p \<Rightarrow> 'c view) \<Rightarrow> BlockInfo \<Rightarrow> 'c \<Rightarrow> bool" where
  "block_info_at T pv i c \<longleftrightarrow> (\<exists>master prev vert.
     pv (cell_parser T c) = (block_info_bits i, master @ [prev] @ vert)
     \<and> maybe_ref_at (\<lambda>r m. pv (cell_parser T m) = (ext_blk_ref_bits r, [])) (bi_master_ref i) master
     \<and> prev_info_at T pv (bi_prev_ref i) prev
     \<and> maybe_ref_at (prev_info_at T pv) (bi_prev_vert_ref i) vert)"

text \<open>A header: the information in the first cell; the other three are pruned.\<close>

definition header_laid_out :: "('c, 'p, 'b) toner_lib \<Rightarrow> ('p \<Rightarrow> 'c view) \<Rightarrow> TlbBlockHeader \<Rightarrow> 'c \<Rightarrow> bool" where
  "header_laid_out T pv h c \<longleftrightarrow> (\<exists>info pruned.
     pv (cell_parser T c) = (nat_bits 32 0x11ef55aa @ int_bits 32 (hd_global_id h), info # pruned)
     \<and> length pruned = 3 \<and> block_info_at T pv (hd_info h) info)"

section \<open>Reading the layout\<close>

text \<open>
  Fields one after the other: a field of bits, a field in a child cell, and the last one.
\<close>

lemma reads_bits_bind:
  assumes "reads pv rd bs [] v" and "reads pv (k v) bs' rs w"
  shows "reads pv (\<lambda>p. bindr (rd p) (\<lambda>(x, p'). k x p')) (bs @ bs') rs w"
  using reads_bind [of pv rd bs "[]" v k bs' rs w, OF assms] by simp

lemma reads_ref_bind:
  assumes "reads pv rd [] rs v" and "reads pv (k v) bs rs' w"
  shows "reads pv (\<lambda>p. bindr (rd p) (\<lambda>(x, p'). k x p')) bs (rs @ rs') w"
  using reads_bind [of pv rd "[]" rs v k bs rs' w, OF assms] by simp

lemma reads_bits_end:
  assumes "reads pv rd bs [] v" and "reads pv (k v) [] rs w"
  shows "reads pv (\<lambda>p. bindr (rd p) (\<lambda>(x, p'). k x p')) bs rs w"
  using reads_bind [of pv rd bs "[]" v k "[]" rs w, OF assms] by simp

lemma reads_last:
  assumes "reads pv rd bs rs x" and "f x = v"
  shows "reads pv (\<lambda>p. bindr (rd p) (\<lambda>(x, p'). Inr (f x, p'))) bs rs v"
  using reads_map [OF assms(1), of f] assms(2) by simp

lemma reads_in_ctx: "reads pv rd bs rs v \<Longrightarrow> reads pv (\<lambda>p. in_ctx T c (rd p)) bs rs v"
  by (simp add: reads_ctx)

lemma reads_ext_blk_ref:
  assumes T: "parser_laws T pv" and "ext_blk_ref_ok r"
  shows "reads pv (unpack_ext_blk_ref T) (ext_blk_ref_bits r) [] r"
  unfolding unpack_ext_blk_ref_def [abs_def] ext_blk_ref_bits_def
  by ((rule reads_bits_bind, rule reads_in_ctx, rule reads_uint [OF T])+,
      (rule reads_bits_bind reads_last, rule reads_in_ctx, rule reads_hash [OF T],
        use assms(2) in \<open>simp add: ext_blk_ref_ok_def\<close>)+, simp)

lemma reads_shard_ident:
  assumes T: "parser_laws T pv" and "shard_ident_ok s"
  shows "reads pv (unpack_shard_ident T) (shard_ident_bits s) [] s"
  unfolding unpack_shard_ident_def [abs_def] shard_ident_bits_def
  by (rule reads_bits_bind, rule reads_tag [OF T, of 0 2, simplified],
      rule reads_bits_bind, rule reads_in_ctx, rule reads_nat [OF T],
      use assms(2) in \<open>simp add: shard_ident_ok_def\<close>,
      rule reads_bits_bind, rule reads_in_ctx, rule reads_i32 [OF T],
      use assms(2) in \<open>simp add: shard_ident_ok_def\<close>,
      rule reads_last, rule reads_in_ctx, rule reads_uint [OF T], simp)

lemma reads_global_version:
  assumes T: "parser_laws T pv"
  shows "reads pv (unpack_global_version T) (global_version_bits g) [] g"
  unfolding unpack_global_version_def [abs_def] global_version_bits_def
  by (rule reads_bits_bind, rule reads_tag [OF T, of "0xc4" 8, simplified],
      rule reads_bits_bind, rule reads_in_ctx, rule reads_uint [OF T],
      rule reads_last, rule reads_in_ctx, rule reads_uint [OF T], simp)

lemma parse_blk_prev_info_abs:
  "parse_blk_prev_info T False = (\<lambda>p. bindr (unpack_ext_blk_ref T p) (\<lambda>(r, p). Inr (PrevRef r, p)))"
  "parse_blk_prev_info T True = (\<lambda>p.
     bindr (parse_as_ref T (unpack_ext_blk_ref T) p) (\<lambda>(a, p).
     bindr (parse_as_ref T (unpack_ext_blk_ref T) p) (\<lambda>(b, p). Inr (PrevRefPair a b, p))))"
  by (rule ext, simp)+

lemma reads_prev_info:
  assumes T: "parser_laws T pv" and ok: "prev_info_ok merged prev" and c: "prev_info_at T pv prev c"
  shows "reads pv (parse_as_ref T (parse_blk_prev_info T merged)) [] [c] prev"
proof (cases prev)
  case (PrevRef r)
  with ok have "\<not> merged" "ext_blk_ref_ok r" by simp_all
  then have "reads pv (parse_blk_prev_info T merged) (ext_blk_ref_bits r) [] (PrevRef r)"
    using reads_map [OF reads_ext_blk_ref [OF T], of r PrevRef] by (simp add: parse_blk_prev_info_abs)
  with PrevRef c show ?thesis by (simp add: prev_info_at_def reads_as_ref [OF T])
next
  case (PrevRefPair a b)
  with ok have ok: "merged" "ext_blk_ref_ok a" "ext_blk_ref_ok b" by simp_all
  from PrevRefPair c obtain ca cb where cs: "pv (cell_parser T c) = ([], [ca] @ [cb])"
    "pv (cell_parser T ca) = (ext_blk_ref_bits a, [])" "pv (cell_parser T cb) = (ext_blk_ref_bits b, [])"
    by (auto simp: prev_info_at_def)
  let ?rd = "parse_as_ref T (unpack_ext_blk_ref T)"
  have rd: "reads pv ?rd [] [ca] a" "reads pv ?rd [] [cb] b"
    using reads_as_ref [OF T reads_ext_blk_ref [OF T]] ok cs by blast+
  have "reads pv (\<lambda>p. bindr (?rd p) (\<lambda>(a, p). bindr (?rd p) (\<lambda>(b, p). Inr (PrevRefPair a b, p))))
      [] ([ca] @ [cb]) (PrevRefPair a b)"
    by (rule reads_ref_bind [OF rd(1)]) (rule reads_last [OF rd(2)], simp)
  then have "reads pv (parse_blk_prev_info T merged) [] ([ca] @ [cb]) prev"
    using ok(1) PrevRefPair by (simp add: parse_blk_prev_info_abs)
  from reads_as_ref [OF T this cs(1)] show ?thesis .
qed

lemma reads_maybe_ref:
  assumes "b \<longleftrightarrow> v \<noteq> None" and "maybe_ref_at at v rs" and "\<And>x c. v = Some x \<Longrightarrow> at x c \<Longrightarrow> reads pv rd [] [c] x"
  shows "reads pv (unpack_when b rd) [] rs v"
  using assms by (intro reads_when) (auto simp: maybe_ref_at_def split: option.splits)

lemma reads_lift: "reads pv rd bs rs v \<Longrightarrow> reads pv (\<lambda>p. lift_read (rd p)) bs rs v"
  by (simp add: reads_context)

lemma reads_block_info:
  assumes T: "parser_laws T pv" and ok: "block_info_ok i"
    and refs: "maybe_ref_at (\<lambda>r m. pv (cell_parser T m) = (ext_blk_ref_bits r, [])) (bi_master_ref i) master"
      "prev_info_at T pv (bi_prev_ref i) prev" "maybe_ref_at (prev_info_at T pv) (bi_prev_vert_ref i) vert"
  shows "reads pv (parse_block_info T) (block_info_bits i) (master @ [prev] @ vert) i"
proof -
  have sid: "shard_ident_ok (bi_shard i)" and prev: "prev_info_ok (bi_after_merge i) (bi_prev_ref i)"
    using ok by (simp_all add: block_info_ok_def)
  have software: "reads pv (unpack_when (bi_flags i AND 1 \<noteq> 0) (unpack_global_version T))
      (case bi_gen_software i of None \<Rightarrow> [] | Some g \<Rightarrow> global_version_bits g) [] (bi_gen_software i)"
    using ok by (intro reads_when) (auto simp: block_info_ok_def reads_global_version [OF T])
  have master: "reads pv (unpack_when (bi_not_master i) (parse_as_ref T (unpack_blk_master_info T))) [] master (bi_master_ref i)"
  proof (rule reads_maybe_ref [OF _ refs(1)])
    fix r m assume r: "bi_master_ref i = Some r" "pv (cell_parser T m) = (ext_blk_ref_bits r, [])"
    with ok have "ext_blk_ref_ok r" by (simp add: block_info_ok_def)
    then have "reads pv (unpack_blk_master_info T) (ext_blk_ref_bits r) [] r"
      unfolding unpack_blk_master_info_def [abs_def] by (intro reads_in_ctx reads_ext_blk_ref [OF T])
    from reads_as_ref [OF T this r(2)] show "reads pv (parse_as_ref T (unpack_blk_master_info T)) [] [m] r" .
  qed (use ok in \<open>simp add: block_info_ok_def\<close>)
  have vert: "reads pv (unpack_when (bi_vert_seqno_incr i) (parse_as_ref T (parse_blk_prev_info T False))) [] vert (bi_prev_vert_ref i)"
    using ok by (intro reads_maybe_ref [OF _ refs(3)] reads_prev_info [OF T]) (auto simp: block_info_ok_def)
  show ?thesis
    unfolding parse_block_info_def [abs_def] block_info_bits_def
    by (rule reads_bits_bind, rule reads_lift, rule reads_nat [OF T], simp,
        simp only: simp_thms if_False, rule reads_lift,
        rule reads_bits_bind, rule reads_uint [OF T],
        (rule reads_bits_bind, rule reads_bool [OF T])+,
        (rule reads_bits_bind, rule reads_uint [OF T])+,
        rule reads_bits_bind, rule reads_shard_ident [OF T sid],
        (rule reads_bits_bind, rule reads_uint [OF T])+,
        rule reads_bits_end, rule software, rule reads_ref_bind, rule master,
        rule reads_ref_bind, rule reads_prev_info [OF T prev refs(2)],
        rule reads_last, rule vert, simp)
qed

lemma reads_cells:
  assumes "\<And>p. \<exists>c p'. parse_cell B p = Inr (c, p') \<and> pv p' = ([], [])"
  shows "\<exists>cs p'. parse_cells B (Suc n) p = Inr (cs, p') \<and> pv p' = ([], [])"
proof (induction n arbitrary: p)
  case 0
  from assms [of p] show ?case by auto
next
  case (Suc n)
  from assms obtain c p1 where "parse_cell B p = Inr (c, p1)" by blast
  with Suc [of p1] show ?case by auto
qed

text \<open>A header is read from the cell it is laid out in; the pruned cells are taken by the first \<open>Cell\<close>.\<close>

lemma laid_out_header_read:
  assumes T: "parser_laws T pv" and B: "\<And>p. \<exists>c p'. parse_cell B p = Inr (c, p') \<and> pv p' = ([], [])"
    and ok: "header_ok h" and c: "header_laid_out T pv h c"
  shows "cell_parse_fully T (parse_block_header T B) c = Inr h"
proof -
  from c obtain info pruned where v: "pv (cell_parser T c) = (nat_bits 32 0x11ef55aa @ int_bits 32 (hd_global_id h), info # pruned)"
    and info: "block_info_at T pv (hd_info h) info"
    by (auto simp: header_laid_out_def)
  from info obtain master prev vert where i: "pv (cell_parser T info) = (block_info_bits (hd_info h), master @ [prev] @ vert)"
    and refs: "maybe_ref_at (\<lambda>r m. pv (cell_parser T m) = (ext_blk_ref_bits r, [])) (bi_master_ref (hd_info h)) master"
      "prev_info_at T pv (bi_prev_ref (hd_info h)) prev" "maybe_ref_at (prev_info_at T pv) (bi_prev_vert_ref (hd_info h)) vert"
    unfolding block_info_at_def by blast
  have ok': "i32_range (hd_global_id h)" "block_info_ok (hd_info h)" using ok by (simp_all add: header_ok_def)
  from readsD [OF reads_lift [OF reads_nat [OF T, of "0x11ef55aa" 32]], of "cell_parser T c" _ "info # pruned"] v
  obtain p1 where p1: "lift_read (unpack_nbits T 32 (cell_parser T c)) = Inr (0x11ef55aa, p1)"
    "pv p1 = (int_bits 32 (hd_global_id h) @ [], [] @ info # pruned)" by auto
  from readsD [OF reads_lift [OF reads_i32 [OF T ok'(1)]] p1(2)]
  obtain p2 where p2: "lift_read (unpack_int T 32 p1) = Inr (hd_global_id h, p2)" "pv p2 = ([] @ [], [info] @ pruned)" by auto
  from readsD [OF reads_fully_ref [OF T reads_block_info [OF T ok'(2) refs] i] p2(2)]
  obtain p3 where p3: "ref_as T (fully_as T (parse_block_info T)) p2 = Inr (hd_info h, p3)" by auto
  from reads_cells [of B pv 2 p3, OF B] obtain cs p4 where p4: "parse_cells B 3 p3 = Inr (cs, p4)" "pv p4 = ([], [])"
    by (auto simp: numeral_eq_Suc)
  have "ensure_empty T p4 = Inr ()" by (simp add: ensure_empty_iff [OF T] p4)
  with p1(1) p2(1) p3 p4(1) show ?thesis
    by (simp add: cell_parse_fully_def fully_as_def parse_block_header_def)
qed

section \<open>What a reader returns is well formed\<close>

lemma unpack_bytes_length: "unpack_bytes T n p = Inr (h, p') \<Longrightarrow> length h = n"
  by (induction n arbitrary: p h p') (auto simp: bindr_eq_Inr)

lemma unpack_nbits_bound:
  assumes "parser_laws T pv" and "unpack_nbits T n p = Inr (v, p')"
  shows "v < 2 ^ n"
proof (cases "n \<le> length (fst (pv p))")
  case True
  then have "\<exists>p'. unpack_nbits T n p = Inr (bits_nat (take n (fst (pv p))), p')"
    using assms(1) unfolding parser_laws_def by meson
  with assms(2) True bits_nat_less [of "take n (fst (pv p))"] show ?thesis by simp
next
  case False
  with unpack_nbits_short [OF assms(1), of p n] assms(2) show ?thesis by simp
qed

lemma in_ctx_Inr: "in_ctx T c r = Inr v \<longleftrightarrow> r = Inr v"
  by (simp add: in_ctx_def map_err_eq_Inr)

lemma unpack_when_Inr:
  "unpack_when b rd p = Inr (v, p') \<longleftrightarrow>
     (b \<longleftrightarrow> v \<noteq> None) \<and> (case v of None \<Rightarrow> p' = p | Some x \<Rightarrow> rd p = Inr (x, p'))"
  by (auto simp: unpack_when_def bindr_eq_Inr split: option.splits)

lemmas read_ok = bindr_eq_Inr map_err_eq_Inr in_ctx_Inr unpack_when_Inr

lemma unpack_ext_blk_ref_ok: "unpack_ext_blk_ref T p = Inr (r, p') \<Longrightarrow> ext_blk_ref_ok r"
  by (auto simp: unpack_ext_blk_ref_def read_ok ext_blk_ref_ok_def unpack_bytes_length)

lemma parse_as_ref_Inr: "parse_as_ref T rd p = Inr (v, p') \<Longrightarrow> \<exists>c q. rd (cell_parser T c) = Inr (v, q)"
  by (auto simp: parse_as_ref_def read_ok)

lemma parse_blk_prev_info_ok: "parse_blk_prev_info T merged p = Inr (v, p') \<Longrightarrow> prev_info_ok merged v"
  by (cases merged)
    (auto simp: read_ok dest!: parse_as_ref_Inr dest: unpack_ext_blk_ref_ok)

lemma unpack_shard_ident_ok:
  assumes T: "parser_laws T pv" and r: "unpack_shard_ident T p = Inr (s, p')"
  shows "shard_ident_ok s"
proof -
  from r obtain q1 q2 q3 where "unpack_nbits T 6 q1 = Inr (shard_pfx_bits s, q2)" "unpack_int T 32 q2 = Inr (ident_workchain s, q3)"
    by (auto simp: unpack_shard_ident_def read_ok)
  with unpack_nbits_bound [OF T, of 6] unpack_int_bounds [OF T, of 32] show ?thesis
    by (fastforce simp: shard_ident_ok_def i32_range_def)
qed

lemma parse_block_info_ok:
  assumes T: "parser_laws T pv" and r: "parse_block_info T p = Inr (i, p')"
  shows "block_info_ok i"
proof -
  from r obtain q1 q2 q3 q4 q5 q6 q7 where
    "unpack_shard_ident T q1 = Inr (bi_shard i, q2)"
    "unpack_when (bi_flags i AND 1 \<noteq> 0) (unpack_global_version T) q3 = Inr (bi_gen_software i, q4)"
    "unpack_when (bi_not_master i) (parse_as_ref T (unpack_blk_master_info T)) q4 = Inr (bi_master_ref i, q5)"
    "parse_as_ref T (parse_blk_prev_info T (bi_after_merge i)) q5 = Inr (bi_prev_ref i, q6)"
    "unpack_when (bi_vert_seqno_incr i) (parse_as_ref T (parse_blk_prev_info T False)) q6 = Inr (bi_prev_vert_ref i, q7)"
    by (clarsimp simp: parse_block_info_def bindr_eq_Inr map_err_eq_Inr split: if_splits)
  then show ?thesis
    unfolding block_info_ok_def
    by (auto simp: unpack_when_Inr unpack_blk_master_info_def in_ctx_Inr split: option.splits
        dest!: parse_as_ref_Inr dest: unpack_shard_ident_ok [OF T] unpack_ext_blk_ref_ok parse_blk_prev_info_ok)
qed

lemma parse_block_header_ok:
  assumes T: "parser_laws T pv" and r: "parse_block_header T B p = Inr (h, p')"
  shows "header_ok h"
proof -
  from r obtain q1 q2 q3 q4 where "unpack_int T 32 q1 = Inr (hd_global_id h, q2)" "parse_block_info T q3 = Inr (hd_info h, q4)"
    by (auto simp: parse_block_header_def ref_as_def fully_as_def bindr_eq_Inr map_err_eq_Inr split: if_splits)
  with unpack_int_bounds [OF T, of 32] parse_block_info_ok [OF T] show ?thesis
    by (fastforce simp: header_ok_def i32_range_def)
qed

section \<open>Merkle proofs\<close>

lemma unpack_nbits_takes:
  assumes "parser_laws T pv" and "unpack_nbits T n p = Inr (v, p')"
  shows "pv p = (nat_bits n v @ fst (pv p'), snd (pv p'))" "v < 2 ^ n"
proof -
  show "v < 2 ^ n" using assms by (rule unpack_nbits_bound)
  have n: "n \<le> length (fst (pv p))"
    using unpack_nbits_short [OF assms(1), of p n] assms(2) by (cases "n \<le> length (fst (pv p))") auto
  then have "\<exists>p'. unpack_nbits T n p = Inr (bits_nat (take n (fst (pv p))), p') \<and> pv p' = (drop n (fst (pv p)), snd (pv p))"
    using assms(1) unfolding parser_laws_def by meson
  with assms(2) have v: "v = bits_nat (take n (fst (pv p)))" "pv p' = (drop n (fst (pv p)), snd (pv p))" by auto
  with n nat_bits_nat [of "take n (fst (pv p))"] have "nat_bits n v = take n (fst (pv p))" by simp
  with v(2) show "pv p = (nat_bits n v @ fst (pv p'), snd (pv p'))" by (simp add: prod_eq_iff)
qed

lemma unpack_uint_takes:
  assumes "parser_laws T pv" and "unpack_uint T p = Inr (w :: ('a :: len) word, p')"
  shows "pv p = (word_bits w @ fst (pv p'), snd (pv p'))"
proof -
  from assms(2) obtain v where v: "unpack_nbits T LENGTH('a) p = Inr (v, p')" "w = word_of_nat v"
    by (auto simp: unpack_uint_def bindr_eq_Inr)
  from unpack_nbits_takes [OF assms(1) v(1)] show ?thesis by (simp add: word_bits_def v(2) unat_of_nat)
qed

lemma unpack_bytes_takes:
  assumes "parser_laws T pv"
  shows "unpack_bytes T n p = Inr (h, p') \<Longrightarrow> pv p = (hash_bits h @ fst (pv p'), snd (pv p'))"
proof (induction n arbitrary: p h p')
  case 0
  then show ?case by (simp add: hash_bits_def)
next
  case (Suc n)
  then obtain b p1 bs where b: "unpack_uint T p = Inr (b, p1)" "unpack_bytes T n p1 = Inr (bs, p')" "h = b # bs"
    by (auto simp: bindr_eq_Inr)
  from unpack_uint_takes [OF assms b(1)] Suc.IH [OF b(2)] b(3) show ?case by (simp add: hash_bits_def)
qed

lemma parse_ref_takes:
  assumes "parser_laws T pv" and "parse_ref T p = Inr (c, p')"
  shows "pv p = (fst (pv p'), c # snd (pv p'))"
proof -
  have r: "case snd (pv p) of [] \<Rightarrow> (\<exists>e. parse_ref T p = Inl e)
        | c # cs \<Rightarrow> (\<exists>p'. parse_ref T p = Inr (c, p') \<and> pv p' = (fst (pv p), cs))"
    using assms(1) unfolding parser_laws_def by blast
  then show ?thesis using assms(2) by (cases "snd (pv p)") (auto simp: prod_eq_iff)
qed

lemma cell_parse_fully_Inr:
  "cell_parse_fully T rd c = Inr v \<longleftrightarrow> (\<exists>q. rd (cell_parser T c) = Inr (v, q) \<and> ensure_empty T q = Inr ())"
  by (auto simp: cell_parse_fully_def fully_as_def bindr_eq_Inr map_err_eq_Inr)

lemma parse_merkle_proof_Inr:
  "parse_merkle_proof T B rx p = Inr (m, p') \<longleftrightarrow>
     (\<exists>p1 p2 p3 c. ensure_exotic B p = Inr () \<and> unpack_nbits T 8 p = Inr (3, p1)
        \<and> unpack_bytes T 32 p1 = Inr (mp_virtual_hash m, p2) \<and> unpack_uint T p2 = Inr (mp_depth m, p3)
        \<and> parse_ref T p3 = Inr (c, p') \<and> level_hash B c = (mp_depth m, mp_virtual_hash m)
        \<and> cell_parse_fully T rx c = Inr (mp_virtual_root m) \<and> ensure_empty T p' = Inr ())"
  (is "?l \<longleftrightarrow> ?r")
proof
  assume ?l
  then show ?r
    by (clarsimp simp: parse_merkle_proof_def bindr_eq_Inr map_err_eq_Inr Let_def split_beta split: if_splits)
next
  assume ?r
  then obtain p1 p2 p3 c where "ensure_exotic B p = Inr ()" "unpack_nbits T 8 p = Inr (3, p1)"
    "unpack_bytes T 32 p1 = Inr (mp_virtual_hash m, p2)" "unpack_uint T p2 = Inr (mp_depth m, p3)"
    "parse_ref T p3 = Inr (c, p')" "level_hash B c = (mp_depth m, mp_virtual_hash m)"
    "cell_parse_fully T rx c = Inr (mp_virtual_root m)" "ensure_empty T p' = Inr ()" by blast
  then show ?l by (simp add: parse_merkle_proof_def)
qed

text \<open>A cell that is laid out as a proof is read up to its content.\<close>

definition proof_laid_out :: "('c, 'p, 'b) toner_lib \<Rightarrow> ('c, 'p) block_lib \<Rightarrow> ('p \<Rightarrow> 'c view) \<Rightarrow> bytes \<Rightarrow> u16 \<Rightarrow> 'c \<Rightarrow> 'c \<Rightarrow> bool" where
  "proof_laid_out T B pv hash depth c root \<longleftrightarrow>
     ensure_exotic B (cell_parser T root) = Inr ()
     \<and> pv (cell_parser T root) = (nat_bits 8 3 @ hash_bits hash @ word_bits depth, [c])
     \<and> length hash = 32 \<and> level_hash B c = (depth, hash)"

lemma proof_laid_out_content:
  assumes T: "parser_laws T pv" and l: "proof_laid_out T B pv hash depth c root"
  obtains p where "pv p = ([], [])" and "parse_merkle_proof T B rx (cell_parser T root) =
    bindr (cell_parse_fully T rx c) (\<lambda>x. Inr (\<lparr>mp_virtual_hash = hash, mp_depth = depth, mp_virtual_root = x\<rparr>, p))"
proof -
  have v: "pv (cell_parser T root) = (nat_bits 8 3 @ hash_bits hash @ word_bits depth, [] @ [c])"
    using l by (simp add: proof_laid_out_def)
  have h: "length hash = 32" using l by (simp add: proof_laid_out_def)
  have "reads pv (unpack_nbits T 8) (nat_bits 8 3) [] 3" by (rule reads_nat [OF T]) simp
  from readsD [OF this v] obtain p1 where p1: "unpack_nbits T 8 (cell_parser T root) = Inr (3, p1)"
    "pv p1 = (hash_bits hash @ word_bits depth, [] @ [c])" by auto
  from readsD [OF reads_hash [OF T h] p1(2)] obtain p2 where p2: "unpack_bytes T 32 p1 = Inr (hash, p2)"
    "pv p2 = (word_bits depth @ [], [] @ [c])" by auto
  from readsD [OF reads_uint [OF T] p2(2)]
  obtain p3 where p3: "unpack_uint T p2 = Inr (depth, p3)" "pv p3 = ([] @ [], [c] @ [])" by auto
  from readsD [OF reads_ref [OF T] p3(2)] obtain p4 where p4: "parse_ref T p3 = Inr (c, p4)" "pv p4 = ([], [])" by auto
  have "ensure_empty T p4 = Inr ()" by (simp add: ensure_empty_iff [OF T] p4)
  with l p1(1) p2(1) p3(1) p4 show thesis
    by (intro that [of p4]) (simp_all add: proof_laid_out_def parse_merkle_proof_def)
qed

lemma merkle_proof_of_laid_out:
  assumes T: "parser_laws T pv" and l: "proof_laid_out T B pv hash depth c root"
  shows "merkle_proof_of T B rx root =
    bindr (cell_parse_fully T rx c) (\<lambda>x. Inr \<lparr>mp_virtual_hash = hash, mp_depth = depth, mp_virtual_root = x\<rparr>)"
proof -
  obtain p where p: "pv p = ([], [])" "parse_merkle_proof T B rx (cell_parser T root) =
      bindr (cell_parse_fully T rx c) (\<lambda>x. Inr (\<lparr>mp_virtual_hash = hash, mp_depth = depth, mp_virtual_root = x\<rparr>, p))"
    by (rule proof_laid_out_content [OF assms])
  have "ensure_empty T p = Inr ()" by (simp add: ensure_empty_iff [OF T] p)
  then show ?thesis unfolding merkle_proof_of_def cell_parse_fully_def [of T "parse_merkle_proof T B rx"] fully_as_def [of T "parse_merkle_proof T B rx"] p(2)
    by (cases "cell_parse_fully T rx c") simp_all
qed

lemma merkle_proof_content:
  "cell_parse_fully T (parse_as_merkle_proof T B rx) root = map_ok mp_virtual_root (merkle_proof_of T B rx root)"
proof (cases "parse_merkle_proof T B rx (cell_parser T root)")
  case (Inr r)
  then show ?thesis
    by (cases r; cases "ensure_empty T (snd r)")
      (simp_all add: merkle_proof_of_def cell_parse_fully_def fully_as_def parse_as_merkle_proof_def)
qed (simp add: merkle_proof_of_def cell_parse_fully_def fully_as_def parse_as_merkle_proof_def)

lemma merkle_proof_of_Inr:
  assumes T: "parser_laws T pv"
  shows "merkle_proof_of T B rx root = Inr m \<longleftrightarrow>
    (\<exists>c. proof_laid_out T B pv (mp_virtual_hash m) (mp_depth m) c root \<and> cell_parse_fully T rx c = Inr (mp_virtual_root m))"
proof
  assume "merkle_proof_of T B rx root = Inr m"
  then obtain p' p1 p2 p3 c where r: "ensure_exotic B (cell_parser T root) = Inr ()"
    "unpack_nbits T 8 (cell_parser T root) = Inr (3, p1)" "unpack_bytes T 32 p1 = Inr (mp_virtual_hash m, p2)"
    "unpack_uint T p2 = Inr (mp_depth m, p3)" "parse_ref T p3 = Inr (c, p')"
    "level_hash B c = (mp_depth m, mp_virtual_hash m)" "cell_parse_fully T rx c = Inr (mp_virtual_root m)"
    "ensure_empty T p' = Inr ()"
    by (auto simp: merkle_proof_of_def cell_parse_fully_Inr [of T "parse_merkle_proof T B rx"] parse_merkle_proof_Inr)
  have "pv p' = ([], [])" using r(8) by (simp add: ensure_empty_iff [OF T])
  then have "pv (cell_parser T root) = (nat_bits 8 3 @ hash_bits (mp_virtual_hash m) @ word_bits (mp_depth m), [c])"
    using unpack_nbits_takes(1) [OF T r(2)] unpack_bytes_takes [OF T r(3)] unpack_uint_takes [OF T r(4)]
      parse_ref_takes [OF T r(5)] by simp
  with r show "\<exists>c. proof_laid_out T B pv (mp_virtual_hash m) (mp_depth m) c root \<and> cell_parse_fully T rx c = Inr (mp_virtual_root m)"
    by (auto simp: proof_laid_out_def dest: unpack_bytes_length)
qed (auto simp: merkle_proof_of_laid_out [OF T])

section \<open>Tags\<close>

text \<open>The enums of blocks, accounts and transactions have prefix-free tags.\<close>

lemma block_tags_bits:
  "tags_bits fsm_tags = map bin [''0'', ''10'', ''11'']"
  "tags_bits storage_extra_tags = map bin [''000'', ''001'']"
  "tags_bits account_tags = map bin [''0'', ''1'']"
  "tags_bits account_status_tags = map bin [''00'', ''01'', ''10'', ''11'']"
  "tags_bits acc_status_change_tags = map bin [''0'', ''10'', ''11'']"
  "tags_bits compute_skip_reason_tags = map bin [''00'', ''01'', ''10'', ''110'']"
  "tags_bits tr_compute_phase_tags = map bin [''0'', ''1'']"
  "tags_bits tr_bounce_phase_tags = map bin [''00'', ''01'', ''1'']"
  "tags_bits transaction_descr_tags = map bin [''0000'', ''0001'', ''001'', ''0100'', ''0101'', ''0110'', ''0111'']"
  by code_simp+

lemma block_tags_prefix_free:
  "prefix_free (tags_bits fsm_tags)"
  "prefix_free (tags_bits storage_extra_tags)"
  "prefix_free (tags_bits account_tags)"
  "prefix_free (tags_bits account_status_tags)"
  "prefix_free (tags_bits acc_status_change_tags)"
  "prefix_free (tags_bits compute_skip_reason_tags)"
  "prefix_free (tags_bits tr_compute_phase_tags)"
  "prefix_free (tags_bits tr_bounce_phase_tags)"
  "prefix_free (tags_bits transaction_descr_tags)"
  unfolding block_tags_bits by code_simp+

lemma block_tags_ok:
  "enum_tags_ok fsm_tags"
  "enum_tags_ok storage_extra_tags"
  "enum_tags_ok account_tags"
  "enum_tags_ok account_status_tags"
  "enum_tags_ok acc_status_change_tags"
  "enum_tags_ok compute_skip_reason_tags"
  "enum_tags_ok tr_compute_phase_tags"
  "enum_tags_ok tr_bounce_phase_tags"
  "enum_tags_ok transaction_descr_tags"
  using block_tags_prefix_free
  by (simp_all add: enum_tags_ok_def block_tags_bits bin_def tree_of_def tag_tree_new_def or_new_def)
    (simp_all add: fsm_tags_def storage_extra_tags_def account_tags_def account_status_tags_def acc_status_change_tags_def
      compute_skip_reason_tags_def tr_compute_phase_tags_def tr_bounce_phase_tags_def transaction_descr_tags_def)

section \<open>Shards\<close>

text \<open>On a cell that starts with these bits a reader takes them and continues as \<open>rd'\<close>.\<close>

definition goes_on :: "('p \<Rightarrow> 'c view) \<Rightarrow> ('p \<Rightarrow> 'e + 'v \<times> 'p) \<Rightarrow> bool list \<Rightarrow> ('p \<Rightarrow> 'e + 'v \<times> 'p) \<Rightarrow> bool" where
  "goes_on pv rd bs rd' \<longleftrightarrow> (\<forall>p xs ys. pv p = (bs @ xs, ys) \<longrightarrow> (\<exists>p'. pv p' = (xs, ys) \<and> rd p = rd' p'))"

lemma goes_onD:
  assumes "goes_on pv rd bs rd'" and "pv p = (bs @ xs, ys)"
  obtains p' where "pv p' = (xs, ys)" and "rd p = rd' p'"
  using assms unfolding goes_on_def by blast

lemma goes_on_bind:
  assumes "reads pv rd bs [] v" and "goes_on pv (k v) bs' rd'"
  shows "goes_on pv (\<lambda>p. bindr (rd p) (\<lambda>(x, p'). k x p')) (bs @ bs') rd'"
  unfolding goes_on_def
proof (intro allI impI)
  fix p xs ys assume "pv p = ((bs @ bs') @ xs, ys)"
  then have "pv p = (bs @ (bs' @ xs), [] @ ys)" by simp
  with assms(1) obtain p1 where p1: "rd p = Inr (v, p1)" "pv p1 = (bs' @ xs, ys)" by (rule readsD)
  from assms(2) p1(2) obtain p2 where "pv p2 = (xs, ys)" "k v p1 = rd' p2" by (rule goes_onD)
  with p1(1) show "\<exists>p'. pv p' = (xs, ys) \<and> bindr (rd p) (\<lambda>(x, p'). k x p') = rd' p'" by auto
qed

lemma goes_on_end:
  assumes "reads pv rd bs [] v"
  shows "goes_on pv (\<lambda>p. bindr (rd p) (\<lambda>(x, p'). k x p')) bs (k v)"
  using goes_on_bind [OF assms, of k "[]" "k v"] by (fastforce simp: goes_on_def)

lemma goes_on_reads:
  assumes "goes_on pv rd bs rd'" and "reads pv rd' bs' rs v"
  shows "reads pv rd (bs @ bs') rs v"
proof (rule readsI)
  fix p xs ys assume p: "pv p = ((bs @ bs') @ xs, rs @ ys)"
  then have "pv p = (bs @ (bs' @ xs), rs @ ys)" by simp
  with assms(1) obtain p' where p': "pv p' = (bs' @ xs, rs @ ys)" "rd p = rd' p'" by (rule goes_onD)
  from readsD [OF assms(2) p'(1)] p'(2) show "\<exists>p'. rd p = Inr (v, p') \<and> pv p' = (xs, ys)" by auto
qed

fun fsm_bits :: "FutureSplitMerge \<Rightarrow> bool list" where
  "fsm_bits FsmNone = [False]"
| "fsm_bits (FsmSplit u n) = [True, False] @ word_bits u @ word_bits n"
| "fsm_bits (FsmMerge u n) = [True, True] @ word_bits u @ word_bits n"

text \<open>The fields of a shard description between the tag and the amounts.\<close>

definition shard_head_bits :: "TlbShardDescr \<Rightarrow> bool list" where
  "shard_head_bits d =
     word_bits (sd_seq_no d) @ word_bits (sd_reg_mc_seqno d) @ word_bits (sd_start_lt d) @ word_bits (sd_end_lt d)
     @ hash_bits (sd_root_hash d) @ hash_bits (sd_file_hash d)
     @ [sd_before_split d] @ [sd_before_merge d] @ [sd_want_split d] @ [sd_want_merge d] @ [sd_nx_cc_updated d]
     @ nat_bits 3 (unat (sd_flags d)) @ word_bits (sd_next_catchain_seqno d) @ word_bits (sd_next_validator_shard d)
     @ word_bits (sd_min_ref_mc_seqno d) @ word_bits (sd_gen_utime d) @ fsm_bits (sd_split_merge_at d)"

definition shard_descr_ok :: "TlbShardDescr \<Rightarrow> bool" where
  "shard_descr_ok d \<longleftrightarrow> length (sd_root_hash d) = 32 \<and> length (sd_file_hash d) = 32 \<and> unat (sd_flags d) < 8"

lemma reads_fsm:
  assumes T: "parser_laws T pv"
  shows "reads pv (unpack_future_split_merge T) (fsm_bits v) [] v"
proof -
  have t: "tags_bits fsm_tags = [[False], [True, False], [True, True]]"
    by (simp add: block_tags_bits bin_def)
  have l: "length fsm_tags = 3" by (simp add: fsm_tags_def)
  have tag: "reads pv (exec_dispatch T ''FutureSplitMerge'' (enum_dispatch fsm_tags)) ([[False], [True, False], [True, True]] ! i) [] i"
    if "i < 3" for i
    using enum_dispatch_exact(1) [OF T block_tags_ok(1), of i] that by (simp add: t l)
  show ?thesis
  proof (cases v)
    case FsmNone
    show ?thesis unfolding FsmNone unpack_future_split_merge_def [abs_def] fsm_bits.simps
      by (rule reads_bits_end [OF tag [of 0, simplified]]) (simp add: reads_return)
  next
    case (FsmSplit u n)
    show ?thesis unfolding FsmSplit unpack_future_split_merge_def [abs_def] fsm_bits.simps
      by (rule reads_bits_bind [OF tag [of 1, simplified]], simp)
        (rule reads_bits_bind, rule reads_in_ctx, rule reads_uint [OF T], rule reads_last, rule reads_in_ctx,
          rule reads_uint [OF T], rule refl)
  next
    case (FsmMerge u n)
    show ?thesis unfolding FsmMerge unpack_future_split_merge_def [abs_def] fsm_bits.simps
      by (rule reads_bits_bind [OF tag [of 2, simplified]], simp)
        (rule reads_bits_bind, rule reads_in_ctx, rule reads_uint [OF T], rule reads_last, rule reads_in_ctx,
          rule reads_uint [OF T], rule refl)
  qed
qed

lemma shard_descr_goes_on:
  assumes T: "parser_laws T pv" and ok: "shard_descr_ok d" and t: "t < 16"
  shows "goes_on pv (parse_shard_descr T B) (nat_bits 4 t @ shard_head_bits d) (\<lambda>p.
     bindr (if t = 0xa then lift_read (parse_as_ref T (fully T (parse_fees T B)) p)
            else if t = 0xb then lift_read (parse_fees T B p)
            else Inl (ReadPanic ''internal error: entered unreachable code'')) (\<lambda>((fees, funds), p).
     Inr (d\<lparr>sd_fees_collected := fees, sd_funds_created := funds\<rparr>, p)))"
proof -
  have ok': "length (sd_root_hash d) = 32" "length (sd_file_hash d) = 32" "unat (sd_flags d) < 2 ^ 3"
    using ok by (simp_all add: shard_descr_ok_def)
  obtain a1 a2 a3 a4 a5 a6 a7 a8 a9 a10 a11 a12 a13 a14 a15 a16 a17 a18 a19 where
    d: "d = \<lparr>sd_seq_no = a1, sd_root_hash = a2, sd_file_hash = a3, sd_next_validator_shard = a4, sd_reg_mc_seqno = a5,
             sd_start_lt = a6, sd_end_lt = a7, sd_before_split = a8, sd_before_merge = a9, sd_want_split = a10,
             sd_want_merge = a11, sd_nx_cc_updated = a12, sd_flags = a13, sd_next_catchain_seqno = a14,
             sd_min_ref_mc_seqno = a15, sd_gen_utime = a16, sd_split_merge_at = a17, sd_fees_collected = a18,
             sd_funds_created = a19\<rparr>"
    by (cases d)
  have "goes_on pv (parse_shard_descr T B) (nat_bits 4 t @ shard_head_bits d) (\<lambda>p.
     bindr (if t = 0xa then lift_read (parse_as_ref T (fully T (parse_fees T B)) p)
            else if t = 0xb then lift_read (parse_fees T B p)
            else Inl (ReadPanic ''internal error: entered unreachable code'')) (\<lambda>((fees_collected, funds_created), p).
     Inr (\<lparr>sd_seq_no = sd_seq_no d, sd_root_hash = sd_root_hash d, sd_file_hash = sd_file_hash d,
           sd_next_validator_shard = sd_next_validator_shard d, sd_reg_mc_seqno = sd_reg_mc_seqno d,
           sd_start_lt = sd_start_lt d, sd_end_lt = sd_end_lt d, sd_before_split = sd_before_split d,
           sd_before_merge = sd_before_merge d, sd_want_split = sd_want_split d, sd_want_merge = sd_want_merge d,
           sd_nx_cc_updated = sd_nx_cc_updated d, sd_flags = word_of_nat (unat (sd_flags d)),
           sd_next_catchain_seqno = sd_next_catchain_seqno d,
           sd_min_ref_mc_seqno = sd_min_ref_mc_seqno d, sd_gen_utime = sd_gen_utime d,
           sd_split_merge_at = sd_split_merge_at d,
           sd_fees_collected = fees_collected, sd_funds_created = funds_created\<rparr>, p)))"
    unfolding parse_shard_descr_def [abs_def] shard_head_bits_def
    by (rule goes_on_bind, rule reads_lift, rule reads_nat [OF T], simp add: t,
        (rule goes_on_bind, rule reads_lift, rule reads_uint [OF T])+,
        rule goes_on_bind, rule reads_lift, rule reads_hash [OF T ok'(1)],
        rule goes_on_bind, rule reads_lift, rule reads_hash [OF T ok'(2)],
        (rule goes_on_bind, rule reads_lift, rule reads_bool [OF T])+,
        rule goes_on_bind, rule reads_lift, rule reads_nat [OF T ok'(3)],
        (rule goes_on_bind, rule reads_lift, rule reads_uint [OF T])+,
        rule goes_on_end, rule reads_lift, rule reads_fsm [OF T])
  then show ?thesis by (simp add: d)
qed

section \<open>Cells of a small chain\<close>

text \<open>
  For the witnesses: amounts with their length in front, empty dictionaries, and one hash for all cells.
\<close>

definition mem_var_int :: "nat \<Rightarrow> mem_cell view \<Rightarrow> string + nat \<times> mem_cell view" where
  "mem_var_int n p = bindr (unpack_nbits mem_toner n p) (\<lambda>(len, p). unpack_nbits mem_toner (8 * len) p)"

definition mem_empty_dict :: "mem_cell view \<Rightarrow> string + 'v list \<times> mem_cell view" where
  "mem_empty_dict p =
     bindr (unpack_bool mem_toner p) (\<lambda>(present, p). if present then Inl ''no dictionaries'' else Inr ([], p))"

definition mem_block :: "(mem_cell, mem_cell view) block_lib" where
  "mem_block = \<lparr>
     ensure_exotic = (\<lambda>_. Inr ()),
     level_hash = (\<lambda>_. (1, replicate 32 1)),
     parse_cell = (\<lambda>(bs, rs). Inr (MemCell bs rs, ([], []))),
     unpack_var_int = mem_var_int,
     unpack_grams = mem_var_int 4,
     unpack_anycast = (\<lambda>p. bindr (unpack_bool mem_toner p) (\<lambda>(b, p). if b then Inl ''no anycast'' else Inr ((), p))),
     unpack_tick_tock = (\<lambda>p. bindr (unpack_bool mem_toner p) (\<lambda>(b, p). if b then Inl ''no tick-tock'' else Inr ((), p))),
     amount_dict = (\<lambda>n rd. mem_empty_dict),
     cell_dict = (\<lambda>n rd. mem_empty_dict),
     library_dict = (\<lambda>n p. map_ok (\<lambda>(_ :: unit list, p). ((), p)) (mem_empty_dict p))\<rparr>"

lemma mem_parser_laws: "parser_laws mem_toner (\<lambda>p. p)"
  using mem_toner_laws by (simp add: toner_laws_def)

lemma mem_parse_cell: "\<exists>c p'. parse_cell mem_block p = Inr (c, p') \<and> p' = ([], [])"
  by (cases p) (simp add: mem_block_def)

definition proof_cell :: "mem_cell \<Rightarrow> mem_cell" where
  "proof_cell c = MemCell (nat_bits 8 3 @ hash_bits (replicate 32 1) @ word_bits (1 :: u16)) [c]"

lemma proof_cell_laid_out: "proof_laid_out mem_toner mem_block (\<lambda>p. p) (replicate 32 1) 1 c (proof_cell c)"
  by (simp add: proof_laid_out_def proof_cell_def mem_block_def mem_toner_def)

definition demo_header_cell :: mem_cell where
  "demo_header_cell = MemCell (nat_bits 32 0x11ef55aa @ int_bits 32 (-239))
     [MemCell (block_info_bits (hd_info demo_header))
        [MemCell (ext_blk_ref_bits \<lparr>ref_end_lt = 9, ref_seq_no = 4, ref_root_hash = replicate 32 3, ref_file_hash = replicate 32 4\<rparr>) []],
      MemCell [] [], MemCell [] [], MemCell [] []]"

lemma demo_header_laid_out: "header_ok demo_header" "header_laid_out mem_toner (\<lambda>p. p) demo_header demo_header_cell"
proof -
  show "header_ok demo_header"
    by (simp add: header_ok_def demo_header_def block_info_ok_def shard_ident_ok_def ext_blk_ref_ok_def demo_ident_def
        i32_range_def)
  show "header_laid_out mem_toner (\<lambda>p. p) demo_header demo_header_cell"
    unfolding header_laid_out_def demo_header_cell_def
    by (rule exI [of _ "MemCell (block_info_bits (hd_info demo_header)) [MemCell (ext_blk_ref_bits \<lparr>ref_end_lt = 9, ref_seq_no = 4, ref_root_hash = replicate 32 3, ref_file_hash = replicate 32 4\<rparr>) []]"])
      (simp add: mem_toner_def block_info_at_def maybe_ref_at_def prev_info_at_def demo_header_def)
qed

definition mem_cells :: "mem_cell cell_lib" where
  "mem_cells = \<lparr>
     b64_standard_encode = b64_standard_encode demo_cells, b64_standard_decode = b64_standard_decode demo_cells,
     boc_deserialize = (\<lambda>_. Inr [proof_cell demo_header_cell]), boc_unpack = (\<lambda>_. Inr [proof_cell demo_header_cell]),
     boc_unpack_fully = (\<lambda>_. Inr [proof_cell demo_header_cell]), boc_serialize = (\<lambda>_ _. Inr []),
     cell_hash = (\<lambda>_. replicate 32 1), hex_of = hex_enc\<rparr>"

lemma mem_try_from: "ton_node_block_id_ext_try_from mem_cells demo_block_ext = Inr demo_node_id"
  using demo_try_from by (simp add: ton_node_block_id_ext_try_from_def decode_hash_def mem_cells_def)

section \<open>Properties\<close>

text \<open>
  C27. A Merkle proof is accepted exactly when its cell is exotic, starts with the tag 3, a hash and a depth, has one
  reference, the cell behind it has this hash and depth at level 0, and its content is read whole. In particular
  a header read from a proof is a header of the cell with the stated hash, and its conditional fields are there
  exactly when its flags say so.
\<close>

theorem header_proof_exact:
  assumes "parser_laws T pv"
  shows "merkle_block_header (tlb_readers fuel T B D rm) root = Inr (hash, h) \<longleftrightarrow>
    (\<exists>depth c. ensure_exotic B (cell_parser T root) = Inr ()
       \<and> pv (cell_parser T root) = (nat_bits 8 3 @ hash_bits hash @ word_bits depth, [c]) \<and> length hash = 32
       \<and> level_hash B c = (depth, hash)
       \<and> cell_parse_fully T (parse_block_header T B) c = Inr h \<and> header_ok h)"
proof -
  have ok: "cell_parse_fully T (parse_block_header T B) c = Inr h \<Longrightarrow> header_ok h" for c
    by (auto simp: cell_parse_fully_Inr dest: parse_block_header_ok [OF assms])
  have "merkle_block_header (tlb_readers fuel T B D rm) root = Inr (hash, h) \<longleftrightarrow>
      (\<exists>m. merkle_proof_of T B (parse_block_header T B) root = Inr m \<and> hash = mp_virtual_hash m \<and> h = mp_virtual_root m)"
    by (auto simp: tlb_readers_def read_result_def map_err_eq_Inr map_ok_eq_Inr)
  also have "\<dots> \<longleftrightarrow> (\<exists>depth c. proof_laid_out T B pv hash depth c root
        \<and> cell_parse_fully T (parse_block_header T B) c = Inr h)"
    unfolding merkle_proof_of_Inr [OF assms] by (metis MerkleProof.select_convs(1-3))
  finally show ?thesis using ok by (auto simp: proof_laid_out_def)
qed

theorem header_proof_exact_witness:
  "\<forall>fuel D rm. merkle_block_header (tlb_readers fuel mem_toner mem_block D rm) (proof_cell demo_header_cell)
     = Inr (replicate 32 1, demo_header)"
proof (intro allI)
  fix fuel D rm
  have "cell_parse_fully mem_toner (parse_block_header mem_toner mem_block) demo_header_cell = Inr demo_header"
    by (rule laid_out_header_read [OF mem_parser_laws mem_parse_cell demo_header_laid_out])
  with proof_cell_laid_out [of demo_header_cell] demo_header_laid_out(1)
  show "merkle_block_header (tlb_readers fuel mem_toner mem_block D rm) (proof_cell demo_header_cell)
      = Inr (replicate 32 1, demo_header)"
    unfolding header_proof_exact [OF mem_parser_laws] proof_laid_out_def by blast
qed

text \<open>
  C25. A header that a liteserver holds reaches the caller. When the answer is a Merkle proof of the requested block
  and the proved cell holds the header in the layout of the TL-B scheme, with three pruned branches, the adapter
  returns this header: every flag, every conditional field and every reference is read back as it was laid out.
\<close>

theorem served_header_is_read:
  assumes "parser_laws T pv" and "\<And>p. \<exists>c p'. parse_cell B p = Inr (c, p') \<and> pv p' = ([], [])"
    and "ton_node_block_id_ext_try_from L block = Inr i"
    and "ls_get_block_header api i 0 s = (Inr response, s')"
    and "boc_unpack_fully L (bh_header_proof response) = Inr [root]"
    and "proof_laid_out T B pv (n_root_hash i) depth c root"
    and "header_ok h" and "header_laid_out T pv h c"
  shows "adapter_get_block_header (libs_over fuel L T B D H rm S) api block s
    = (Inr (block_header_to_ton_client L block h), s')"
proof -
  have "cell_parse_fully T (parse_block_header T B) c = Inr h"
    by (rule laid_out_header_read [OF assms(1,2,7,8)])
  then have "merkle_block_header (tlb_readers fuel T B D rm) root = Inr (n_root_hash i, h)"
    by (simp add: tlb_readers_def read_result_def merkle_proof_of_laid_out [OF assms(1,6)])
  with assms(3-5) show ?thesis
    by (simp add: adapter_get_block_header_def libs_over_def bind_io_def lift_io_def single_root_def)
qed

theorem served_header_is_read_witness:
  "\<forall>fuel D H rm S. adapter_get_block_header (libs_over fuel mem_cells mem_toner mem_block D H rm S) demo_api demo_block_ext ()
     = (Inr (block_header_to_ton_client mem_cells demo_block_ext demo_header), ())"
proof (intro allI)
  fix fuel D H rm S
  have root: "n_root_hash demo_node_id = replicate 32 1" by (simp add: demo_node_id_def)
  show "adapter_get_block_header (libs_over fuel mem_cells mem_toner mem_block D H rm S) demo_api demo_block_ext ()
     = (Inr (block_header_to_ton_client mem_cells demo_block_ext demo_header), ())"
    by (rule served_header_is_read [OF mem_parser_laws mem_parse_cell mem_try_from,
          where response = "\<lparr>bh_id = demo_node_id, bh_header_proof = n_root_hash demo_node_id\<rparr>"
            and root = "proof_cell demo_header_cell" and c = demo_header_cell and depth = 1])
      (simp_all add: demo_api_def ok_io_def mem_cells_def demo_header_laid_out proof_cell_laid_out root)
qed

text \<open>
  C29. A proof of a cell that is not a block header ends in a panic, not in an error: the tag of the proved cell is
  checked with \<open>unimplemented!\<close>, and the tag of the block information with \<open>unreachable!\<close>, although both come from
  the liteserver. The same proof read as a shard state is an ordinary error, which the adapter skips.
\<close>

theorem foreign_cell_panics:
  assumes "parser_laws T pv" and "proof_laid_out T B pv hash depth c root"
    and "pv (cell_parser T c) = (nat_bits 32 t @ xs, ys)" and "t < 2 ^ 32"
  shows "(t \<noteq> 0x11ef55aa \<longrightarrow>
      merkle_proof_of T B (parse_block_header T B) root = Inl (ReadPanic (''not implemented: actual tag is '' @ hex_text t)))
    \<and> (t \<noteq> 0x9bc7a987 \<longrightarrow>
      parse_block_info T (cell_parser T c) = Inl (ReadPanic ''internal error: entered unreachable code''))
    \<and> (t \<noteq> 0x9023afe2 \<longrightarrow> (\<exists>m. merkle_shard_state (account_readers T B) root = Inl m
         \<and> merkle_proof_of T B (\<lambda>p. lift_read (parse_shard_state T p)) root = Inl (ReadError m)))"
proof -
  from readsD [OF reads_nat [OF assms(1,4)], of "cell_parser T c" xs ys] assms(3)
  obtain p where p: "unpack_nbits T 32 (cell_parser T c) = Inr (t, p)" by auto
  have "merkle_shard_state (account_readers T B) root =
      read_result (map_ok (\<lambda>m. ss_gen_utime (mp_virtual_root m)) (merkle_proof_of T B (\<lambda>p. lift_read (parse_shard_state T p)) root))"
    unfolding account_readers_def merkle_proof_content
    by (cases "merkle_proof_of T B (\<lambda>p. lift_read (parse_shard_state T p)) root") simp_all
  with p show ?thesis
    by (simp add: read_result_def merkle_proof_of_laid_out [OF assms(1,2)] cell_parse_fully_def fully_as_def parse_block_header_def
        parse_block_info_def parse_shard_state_def exec_tag_check_def)
qed

theorem foreign_cell_panics_witness:
  "merkle_proof_of mem_toner mem_block (parse_block_header mem_toner mem_block) (proof_cell (MemCell (nat_bits 32 7) []))
     = Inl (ReadPanic ''not implemented: actual tag is 7'')
   \<and> (\<exists>m. merkle_shard_state (account_readers mem_toner mem_block) (proof_cell (MemCell (nat_bits 32 7) [])) = Inl m)"
proof -
  have "hex_text 7 = ''7''" by code_simp
  moreover have "cell_parser mem_toner (MemCell (nat_bits 32 7) []) = (nat_bits 32 7 @ [], [])"
    by (simp add: mem_toner_def)
  ultimately show ?thesis
    using foreign_cell_panics [OF mem_parser_laws proof_cell_laid_out, of "MemCell (nat_bits 32 7) []" 7 "[]" "[]"] by auto
qed

text \<open>
  A shard description is read alike in both layouts, with the amounts in the cell itself (tag b) or in a cell of
  their own (tag a); any other tag panics after all the other fields have been read.
\<close>

lemma shard_descr_tags:
  assumes "parser_laws T pv" and "shard_descr_ok d"
    and "reads pv (parse_fees T B) fb fr (sd_fees_collected d, sd_funds_created d)" and "pv (cell_parser T c) = (fb, fr)"
  shows "reads pv (parse_shard_descr T B) (nat_bits 4 0xb @ shard_head_bits d @ fb) fr d
    \<and> reads pv (parse_shard_descr T B) (nat_bits 4 0xa @ shard_head_bits d) [c] d
    \<and> (\<forall>t p xs ys. t < 16 \<and> t \<noteq> 0xa \<and> t \<noteq> 0xb \<and> pv p = (nat_bits 4 t @ shard_head_bits d @ xs, ys) \<longrightarrow>
         parse_shard_descr T B p = Inl (ReadPanic ''internal error: entered unreachable code''))"
proof (intro conjI allI impI)
  let ?f = "\<lambda>fees funds. d\<lparr>sd_fees_collected := fees, sd_funds_created := funds\<rparr>"
  note go = shard_descr_goes_on [OF assms(1,2), of _ B]
  have f: "?f (sd_fees_collected d) (sd_funds_created d) = d" by simp
  from goes_on_reads [OF go [of "0xb", simplified] reads_pair [OF reads_lift [OF assms(3)], of ?f]]
  show "reads pv (parse_shard_descr T B) (nat_bits 4 0xb @ shard_head_bits d @ fb) fr d" by (simp only: f append_assoc)
  from goes_on_reads [OF go [of "0xa", simplified] reads_pair [OF reads_lift [OF reads_as_ref_fully [OF assms(1,3,4)]], of ?f]]
  show "reads pv (parse_shard_descr T B) (nat_bits 4 0xa @ shard_head_bits d) [c] d"
    by (simp only: f append_assoc append_Nil2)
  fix t p xs ys
  assume "t < 16 \<and> t \<noteq> 0xa \<and> t \<noteq> 0xb \<and> pv p = (nat_bits 4 t @ shard_head_bits d @ xs, ys)"
  then show "parse_shard_descr T B p = Inl (ReadPanic ''internal error: entered unreachable code'')"
    by (elim conjE) (rule goes_onD [OF go [of t], of p xs ys]; simp)
qed

end
