(* ===== verification/Tlb_Transaction_Correct.thy ===== *)
theory Tlb_Transaction_Correct
  imports Tlb_Block_Correct
begin

text \<open>
  Transactions laid out in cells as the TL-B scheme in the comments says, and that they are read back. The layout of an
  amount is that of the library: \<open>gb\<close> gives the bits of \<open>Grams\<close> and \<open>vb n\<close> those of \<open>VarInt<n>\<close>.
\<close>

section \<open>Amounts and optional values\<close>

definition amount_laws :: "('c, 'p) block_lib \<Rightarrow> ('p \<Rightarrow> 'c view) \<Rightarrow> (nat \<Rightarrow> bool list) \<Rightarrow> (nat \<Rightarrow> nat \<Rightarrow> bool list) \<Rightarrow> bool" where
  "amount_laws B pv gb vb \<longleftrightarrow>
     (\<forall>v < 2 ^ 120. reads pv (unpack_grams B) (gb v) [] v) \<and>
     (\<forall>n v. v < 2 ^ (8 * (2 ^ n - 1)) \<longrightarrow> reads pv (unpack_var_int B n) (vb n v) [] v)"

lemma reads_grams: "amount_laws B pv gb vb \<Longrightarrow> v < 2 ^ 120 \<Longrightarrow> reads pv (unpack_grams B) (gb v) [] v"
  by (simp add: amount_laws_def)

lemma reads_var: "amount_laws B pv gb vb \<Longrightarrow> v < 2 ^ (8 * (2 ^ n - 1)) \<Longrightarrow> reads pv (unpack_var_int B n) (vb n v) [] v"
  by (simp add: amount_laws_def)

fun maybe_bits :: "('v \<Rightarrow> bool list) \<Rightarrow> 'v option \<Rightarrow> bool list" where
  "maybe_bits f None = [False]"
| "maybe_bits f (Some x) = [True] @ f x"

lemma reads_maybe_at:
  assumes T: "parser_laws T pv" and "\<And>x. v = Some x \<Longrightarrow> reads pv rd bs rs x" and "v = None \<Longrightarrow> bs = [] \<and> rs = []"
  shows "reads pv (parse_maybe T rd) ([v \<noteq> None] @ bs) rs v"
proof -
  have bit: "reads pv (unpack_nbits T 1) [v \<noteq> None] [] (if v = None then 0 else 1)"
    using reads_nbits [OF T, of "[v \<noteq> None]" 1] by (auto simp: bits_nat_def split: if_splits)
  show ?thesis
    unfolding parse_maybe_def [abs_def]
  proof (rule reads_bits_bind [OF bit], cases v)
    case (Some x)
    with reads_map [OF assms(2) [OF Some], of Some] show "reads pv (\<lambda>p. if (if v = None then 0 else 1) = (0 :: nat) then Inr (None, p)
        else bindr (rd p) (\<lambda>(v, p). Inr (Some v, p))) bs rs v" by simp
  qed (use assms(3) in \<open>simp add: reads_return\<close>)
qed

lemma reads_maybe:
  assumes T: "parser_laws T pv" and r: "\<And>x. v = Some x \<Longrightarrow> reads pv rd (f x) [] x"
  shows "reads pv (parse_maybe T rd) (maybe_bits f v) [] v"
proof (cases v)
  case None
  with reads_maybe_at [OF T, of v rd "[]" "[]"] show ?thesis by simp
next
  case (Some x)
  with r reads_maybe_at [OF T, of v rd "f x" "[]"] show ?thesis by simp
qed

section \<open>Phases\<close>

primrec account_status_bits :: "AccountStatus \<Rightarrow> bool list" where
  "account_status_bits StatusUninit = [False, False]"
| "account_status_bits StatusFrozen = [False, True]"
| "account_status_bits StatusActive = [True, False]"
| "account_status_bits StatusNonexist = [True, True]"

primrec status_change_bits :: "AccStatusChange \<Rightarrow> bool list" where
  "status_change_bits AcstUnchanged = [False]"
| "status_change_bits AcstFrozen = [True, False]"
| "status_change_bits AcstDeleted = [True, True]"

primrec skip_reason_bits :: "ComputeSkipReason \<Rightarrow> bool list" where
  "skip_reason_bits SkipNoState = [False, False]"
| "skip_reason_bits SkipBadState = [False, True]"
| "skip_reason_bits SkipNoGas = [True, False]"
| "skip_reason_bits SkipSuspended = [True, True, False]"

text \<open>The reader of an enum without fields: the tag of the \<open>i\<close>th variant is read as the \<open>i\<close>th value.\<close>

lemma reads_plain_enum:
  assumes T: "parser_laws T pv" and tags: "enum_tags_ok tags" and i: "i < length tags"
    and "tags_bits tags ! i = bs" and "vs ! i = v"
  shows "reads pv (\<lambda>p. bindr (exec_dispatch T name (enum_dispatch tags) p) (\<lambda>(i, p). Inr (vs ! i, p))) bs [] v"
  using reads_map [OF enum_dispatch_exact(1) [OF T tags i, of name], of "(!) vs"] assms(4,5) by simp

lemma block_tags_length:
  "length account_status_tags = 4" "length acc_status_change_tags = 3" "length compute_skip_reason_tags = 4"
  "length tr_compute_phase_tags = 2" "length tr_bounce_phase_tags = 3" "length transaction_descr_tags = 7"
  by (simp_all add: account_status_tags_def acc_status_change_tags_def compute_skip_reason_tags_def tr_compute_phase_tags_def
      tr_bounce_phase_tags_def transaction_descr_tags_def)

lemma reads_account_status:
  assumes T: "parser_laws T pv"
  shows "reads pv (unpack_account_status T) (account_status_bits v) [] v"
  unfolding unpack_account_status_def [abs_def]
  by (rule reads_plain_enum [OF T block_tags_ok(4),
        where i = "case v of StatusUninit \<Rightarrow> 0 | StatusFrozen \<Rightarrow> 1 | StatusActive \<Rightarrow> 2 | StatusNonexist \<Rightarrow> 3"])
    (cases v; simp add: block_tags_bits bin_def block_tags_length)+

lemma reads_acc_status_change:
  assumes T: "parser_laws T pv"
  shows "reads pv (unpack_acc_status_change T) (status_change_bits v) [] v"
  unfolding unpack_acc_status_change_def [abs_def]
  by (rule reads_plain_enum [OF T block_tags_ok(5),
        where i = "case v of AcstUnchanged \<Rightarrow> 0 | AcstFrozen \<Rightarrow> 1 | AcstDeleted \<Rightarrow> 2"])
    (cases v; simp add: block_tags_bits bin_def block_tags_length)+

lemma reads_skip_reason:
  assumes T: "parser_laws T pv"
  shows "reads pv (unpack_compute_skip_reason T) (skip_reason_bits v) [] v"
  unfolding unpack_compute_skip_reason_def [abs_def]
  by (rule reads_plain_enum [OF T block_tags_ok(6),
        where i = "case v of SkipNoState \<Rightarrow> 0 | SkipBadState \<Rightarrow> 1 | SkipNoGas \<Rightarrow> 2 | SkipSuspended \<Rightarrow> 3"])
    (cases v; simp add: block_tags_bits bin_def block_tags_length)+

text \<open>The phases that are bits alone.\<close>

definition storage_phase_bits :: "(nat \<Rightarrow> bool list) \<Rightarrow> TrStoragePhase \<Rightarrow> bool list" where
  "storage_phase_bits gb s =
     gb (sp_storage_fees_collected s) @ maybe_bits gb (sp_storage_fees_due s) @ status_change_bits (sp_status_change s)"

definition storage_phase_ok :: "TrStoragePhase \<Rightarrow> bool" where
  "storage_phase_ok s \<longleftrightarrow> sp_storage_fees_collected s < 2 ^ 120 \<and> pred_option (\<lambda>v. v < 2 ^ 120) (sp_storage_fees_due s)"

definition storage_used_bits :: "(nat \<Rightarrow> nat \<Rightarrow> bool list) \<Rightarrow> StorageUsed \<Rightarrow> bool list" where
  "storage_used_bits vb u = vb 3 (su_cells u) @ vb 3 (su_bits u)"

definition storage_used_ok :: "StorageUsed \<Rightarrow> bool" where
  "storage_used_ok u \<longleftrightarrow> su_cells u < 2 ^ 56 \<and> su_bits u < 2 ^ 56"

definition vm_details_bits :: "(nat \<Rightarrow> nat \<Rightarrow> bool list) \<Rightarrow> TrVmDetails \<Rightarrow> bool list" where
  "vm_details_bits vb d =
     vb 3 (vm_gas_used d) @ vb 3 (vm_gas_limit d) @ maybe_bits (vb 2) (vm_gas_credit d) @ int_bits 8 (vm_mode d)
     @ int_bits 32 (vm_exit_code d) @ maybe_bits (int_bits 32) (vm_exit_arg d) @ word_bits (vm_steps d)
     @ hash_bits (vm_init_state_hash d) @ hash_bits (vm_final_state_hash d)"

definition vm_details_ok :: "TrVmDetails \<Rightarrow> bool" where
  "vm_details_ok d \<longleftrightarrow> vm_gas_used d < 2 ^ 56 \<and> vm_gas_limit d < 2 ^ 56 \<and> pred_option (\<lambda>v. v < 2 ^ 24) (vm_gas_credit d)
     \<and> -128 \<le> vm_mode d \<and> vm_mode d < 128 \<and> i32_range (vm_exit_code d) \<and> pred_option i32_range (vm_exit_arg d)
     \<and> length (vm_init_state_hash d) = 32 \<and> length (vm_final_state_hash d) = 32"

definition action_phase_bits :: "(nat \<Rightarrow> bool list) \<Rightarrow> (nat \<Rightarrow> nat \<Rightarrow> bool list) \<Rightarrow> TrActionPhase \<Rightarrow> bool list" where
  "action_phase_bits gb vb a =
     [ap_success a] @ [ap_valid a] @ [ap_no_funds a] @ status_change_bits (ap_status_change a)
     @ maybe_bits gb (ap_total_fwd_fees a) @ maybe_bits gb (ap_total_action_fees a)
     @ int_bits 32 (ap_result_code a) @ maybe_bits (int_bits 32) (ap_result_arg a)
     @ word_bits (ap_tot_actions a) @ word_bits (ap_spec_actions a) @ word_bits (ap_skipped_actions a)
     @ word_bits (ap_msgs_created a) @ hash_bits (ap_action_list_hash a) @ storage_used_bits vb (ap_tot_msg_size a)"

definition action_phase_ok :: "TrActionPhase \<Rightarrow> bool" where
  "action_phase_ok a \<longleftrightarrow> pred_option (\<lambda>v. v < 2 ^ 120) (ap_total_fwd_fees a)
     \<and> pred_option (\<lambda>v. v < 2 ^ 120) (ap_total_action_fees a) \<and> i32_range (ap_result_code a)
     \<and> pred_option i32_range (ap_result_arg a) \<and> length (ap_action_list_hash a) = 32 \<and> storage_used_ok (ap_tot_msg_size a)"

fun bounce_bits :: "(nat \<Rightarrow> bool list) \<Rightarrow> (nat \<Rightarrow> nat \<Rightarrow> bool list) \<Rightarrow> TrBouncePhase \<Rightarrow> bool list" where
  "bounce_bits gb vb BounceNegFunds = [False, False]"
| "bounce_bits gb vb (BounceNoFunds sz fees) = [False, True] @ storage_used_bits vb sz @ gb fees"
| "bounce_bits gb vb (BounceOk sz mf ff) = [True] @ storage_used_bits vb sz @ gb mf @ gb ff"

fun bounce_ok :: "TrBouncePhase \<Rightarrow> bool" where
  "bounce_ok BounceNegFunds \<longleftrightarrow> True"
| "bounce_ok (BounceNoFunds sz fees) \<longleftrightarrow> storage_used_ok sz \<and> fees < 2 ^ 120"
| "bounce_ok (BounceOk sz mf ff) \<longleftrightarrow> storage_used_ok sz \<and> mf < 2 ^ 120 \<and> ff < 2 ^ 120"

definition split_merge_bits :: "SplitMergeInfo \<Rightarrow> bool list" where
  "split_merge_bits s =
     nat_bits 6 (sm_cur_shard_pfx_len s) @ nat_bits 6 (sm_acc_split_depth s) @ hash_bits (sm_this_addr s)
     @ hash_bits (sm_sibling_addr s)"

definition split_merge_ok :: "SplitMergeInfo \<Rightarrow> bool" where
  "split_merge_ok s \<longleftrightarrow> sm_cur_shard_pfx_len s < 64 \<and> sm_acc_split_depth s < 64 \<and> length (sm_this_addr s) = 32
     \<and> length (sm_sibling_addr s) = 32"

lemma reads_i8: "parser_laws T pv \<Longrightarrow> -128 \<le> i \<Longrightarrow> i < 128 \<Longrightarrow> reads pv (unpack_int T 8) (int_bits 8 i) [] i"
  unfolding int_bits_def by (rule reads_int) simp_all

lemma reads_storage_phase:
  assumes T: "parser_laws T pv" and A: "amount_laws B pv gb vb" and ok: "storage_phase_ok s"
  shows "reads pv (unpack_tr_storage_phase T B) (storage_phase_bits gb s) [] s"
  unfolding unpack_tr_storage_phase_def [abs_def] storage_phase_bits_def
  by (rule reads_bits_bind, rule reads_in_ctx, rule reads_grams [OF A], use ok in \<open>simp add: storage_phase_ok_def\<close>,
      rule reads_bits_bind, rule reads_in_ctx, rule reads_maybe [OF T], rule reads_grams [OF A],
      use ok in \<open>simp add: storage_phase_ok_def\<close>,
      rule reads_last, rule reads_in_ctx, rule reads_acc_status_change [OF T], simp)

lemma reads_storage_used:
  assumes "amount_laws B pv gb vb" and "storage_used_ok u"
  shows "reads pv (unpack_storage_used T B) (storage_used_bits vb u) [] u"
  unfolding unpack_storage_used_def [abs_def] storage_used_bits_def
  by (rule reads_bits_bind, rule reads_in_ctx, rule reads_var [OF assms(1)], use assms(2) in \<open>simp add: storage_used_ok_def\<close>,
      rule reads_last, rule reads_in_ctx, rule reads_var [OF assms(1)], use assms(2) in \<open>simp add: storage_used_ok_def\<close>, simp)

lemma reads_vm_details:
  assumes T: "parser_laws T pv" and A: "amount_laws B pv gb vb" and "vm_details_ok d"
  shows "reads pv (unpack_tr_vm_details T B) (vm_details_bits vb d) [] d"
proof -
  have ok: "vm_gas_used d < 2 ^ (8 * (2 ^ 3 - 1))" "vm_gas_limit d < 2 ^ (8 * (2 ^ 3 - 1))"
    "\<And>x. vm_gas_credit d = Some x \<Longrightarrow> x < 2 ^ (8 * (2 ^ 2 - 1))" "-128 \<le> vm_mode d" "vm_mode d < 128"
    "i32_range (vm_exit_code d)" "\<And>x. vm_exit_arg d = Some x \<Longrightarrow> i32_range x"
    "length (vm_init_state_hash d) = 32" "length (vm_final_state_hash d) = 32"
    using assms(3) by (auto simp: vm_details_ok_def)
  show ?thesis
    unfolding unpack_tr_vm_details_def [abs_def] vm_details_bits_def
    by (rule reads_bits_bind, rule reads_in_ctx, rule reads_var [OF A ok(1)],
        rule reads_bits_bind, rule reads_in_ctx, rule reads_var [OF A ok(2)],
        rule reads_bits_bind, rule reads_in_ctx, rule reads_maybe [OF T reads_var [OF A ok(3)]], assumption,
        rule reads_bits_bind, rule reads_in_ctx, rule reads_i8 [OF T ok(4,5)],
        rule reads_bits_bind, rule reads_in_ctx, rule reads_i32 [OF T ok(6)],
        rule reads_bits_bind, rule reads_in_ctx, rule reads_maybe [OF T reads_i32 [OF T ok(7)]], assumption,
        rule reads_bits_bind, rule reads_in_ctx, rule reads_uint [OF T],
        rule reads_bits_bind, rule reads_in_ctx, rule reads_hash [OF T ok(8)],
        rule reads_last, rule reads_in_ctx, rule reads_hash [OF T ok(9)], simp)
qed

lemma reads_action_phase:
  assumes T: "parser_laws T pv" and A: "amount_laws B pv gb vb" and "action_phase_ok a"
  shows "reads pv (unpack_tr_action_phase T B) (action_phase_bits gb vb a) [] a"
proof -
  have ok: "\<And>x. ap_total_fwd_fees a = Some x \<Longrightarrow> x < 2 ^ 120" "\<And>x. ap_total_action_fees a = Some x \<Longrightarrow> x < 2 ^ 120"
    "i32_range (ap_result_code a)" "\<And>x. ap_result_arg a = Some x \<Longrightarrow> i32_range x"
    "length (ap_action_list_hash a) = 32" "storage_used_ok (ap_tot_msg_size a)"
    using assms(3) by (auto simp: action_phase_ok_def)
  show ?thesis
    unfolding unpack_tr_action_phase_def [abs_def] action_phase_bits_def
    by ((rule reads_bits_bind, rule reads_in_ctx, rule reads_bool [OF T])+,
        rule reads_bits_bind, rule reads_in_ctx, rule reads_acc_status_change [OF T],
        rule reads_bits_bind, rule reads_in_ctx, rule reads_maybe [OF T reads_grams [OF A ok(1)]], assumption,
        rule reads_bits_bind, rule reads_in_ctx, rule reads_maybe [OF T reads_grams [OF A ok(2)]], assumption,
        rule reads_bits_bind, rule reads_in_ctx, rule reads_i32 [OF T ok(3)],
        rule reads_bits_bind, rule reads_in_ctx, rule reads_maybe [OF T reads_i32 [OF T ok(4)]], assumption,
        (rule reads_bits_bind, rule reads_in_ctx, rule reads_uint [OF T])+,
        rule reads_bits_bind, rule reads_in_ctx, rule reads_hash [OF T ok(5)],
        rule reads_last, rule reads_in_ctx, rule reads_storage_used [OF A ok(6)], simp)
qed

lemma reads_split_merge_info:
  assumes T: "parser_laws T pv" and "split_merge_ok s"
  shows "reads pv (unpack_split_merge_info T) (split_merge_bits s) [] s"
proof -
  have ok: "sm_cur_shard_pfx_len s < 2 ^ 6" "sm_acc_split_depth s < 2 ^ 6" "length (sm_this_addr s) = 32" "length (sm_sibling_addr s) = 32"
    using assms(2) by (auto simp: split_merge_ok_def)
  show ?thesis
    unfolding unpack_split_merge_info_def [abs_def] split_merge_bits_def
    by (rule reads_bits_bind, rule reads_in_ctx, rule reads_nat [OF T ok(1)],
        rule reads_bits_bind, rule reads_in_ctx, rule reads_nat [OF T ok(2)],
        rule reads_bits_bind, rule reads_in_ctx, rule reads_hash [OF T ok(3)],
        rule reads_last, rule reads_in_ctx, rule reads_hash [OF T ok(4)], simp)
qed

text \<open>Tags of enums with fields.\<close>

lemma reads_enum_tag:
  assumes "parser_laws T pv" and "enum_tags_ok tags" and "i < length tags" and "tags_bits tags ! i = bs"
  shows "reads pv (exec_dispatch T name (enum_dispatch tags)) bs [] i"
  using enum_dispatch_exact(1) [OF assms(1-3)] assms(4) by simp

lemma reads_bounce:
  assumes T: "parser_laws T pv" and A: "amount_laws B pv gb vb" and ok: "bounce_ok v"
  shows "reads pv (unpack_tr_bounce_phase T B) (bounce_bits gb vb v) [] v"
proof -
  have tag: "reads pv (exec_dispatch T ''TrBouncePhase'' (enum_dispatch tr_bounce_phase_tags)) bs [] i"
    if "(i, bs) \<in> {(0, [False, False]), (1, [False, True]), (2, [True])}" for i bs
    using that by (intro reads_enum_tag [OF T block_tags_ok(8)]) (auto simp: block_tags_bits bin_def block_tags_length)
  show ?thesis
  proof (cases v)
    case BounceNegFunds
    show ?thesis unfolding BounceNegFunds unpack_tr_bounce_phase_def [abs_def] bounce_bits.simps
      by (rule reads_bits_end, rule tag [of 0], simp, simp add: reads_return)
  next
    case (BounceNoFunds sz fees)
    with ok have ok: "storage_used_ok sz" "fees < 2 ^ 120" by simp_all
    show ?thesis unfolding BounceNoFunds unpack_tr_bounce_phase_def [abs_def] bounce_bits.simps
      by (rule reads_bits_bind, rule tag [of 1], simp, simp only: if_False if_True one_neq_zero simp_thms)
        (rule reads_bits_bind, rule reads_in_ctx, rule reads_storage_used [OF A ok(1)],
          rule reads_last, rule reads_in_ctx, rule reads_grams [OF A ok(2)], rule refl)
  next
    case (BounceOk sz mf ff)
    with ok have ok: "storage_used_ok sz" "mf < 2 ^ 120" "ff < 2 ^ 120" by simp_all
    show ?thesis unfolding BounceOk unpack_tr_bounce_phase_def [abs_def] bounce_bits.simps
      by (rule reads_bits_bind, rule tag [of 2], simp, simp)
        (rule reads_bits_bind, rule reads_in_ctx, rule reads_storage_used [OF A ok(1)],
          rule reads_bits_bind, rule reads_in_ctx, rule reads_grams [OF A ok(2)],
          rule reads_last, rule reads_in_ctx, rule reads_grams [OF A ok(3)], rule refl)
  qed
qed

section \<open>Phases with child cells\<close>

text \<open>
  An amount with its dictionary of other currencies, as the library lays it out. The compute phase keeps the details
  of the virtual machine in a child cell, and the action phase is a child cell.
\<close>

definition currency_at :: "('c, 'p) block_lib \<Rightarrow> ('p \<Rightarrow> 'c view) \<Rightarrow> (nat \<Rightarrow> bool list) \<Rightarrow> CurrencyCollection \<Rightarrow> bool list
    \<Rightarrow> 'c list \<Rightarrow> bool" where
  "currency_at B pv gb cc bs rs \<longleftrightarrow> (\<exists>eb. bs = gb (cc_grams cc) @ eb \<and> cc_grams cc < 2 ^ 120
     \<and> reads pv (parse_extra_currency_collection B) eb rs (cc_other cc))"

definition credit_at :: "('c, 'p) block_lib \<Rightarrow> ('p \<Rightarrow> 'c view) \<Rightarrow> (nat \<Rightarrow> bool list) \<Rightarrow> TrCreditPhase option \<Rightarrow> bool list
    \<Rightarrow> 'c list \<Rightarrow> bool" where
  "credit_at B pv gb v bs rs \<longleftrightarrow> (case v of None \<Rightarrow> bs = [False] \<and> rs = []
     | Some c \<Rightarrow> \<exists>cb. bs = [True] @ maybe_bits gb (cp_due_fees_collected c) @ cb
         \<and> pred_option (\<lambda>v. v < 2 ^ 120) (cp_due_fees_collected c) \<and> currency_at B pv gb (cp_credit c) cb rs)"

fun compute_at :: "('c, 'p, 'b) toner_lib \<Rightarrow> ('p \<Rightarrow> 'c view) \<Rightarrow> (nat \<Rightarrow> bool list) \<Rightarrow> (nat \<Rightarrow> nat \<Rightarrow> bool list) \<Rightarrow> TrComputePhase
    \<Rightarrow> bool list \<Rightarrow> 'c list \<Rightarrow> bool" where
  "compute_at T pv gb vb (ComputeSkipped r) bs rs \<longleftrightarrow> bs = [False] @ skip_reason_bits r \<and> rs = []"
| "compute_at T pv gb vb (ComputeVm success used activated fees d) bs rs \<longleftrightarrow>
     bs = [True] @ [success] @ [used] @ [activated] @ gb fees \<and> fees < 2 ^ 120 \<and> vm_details_ok d
     \<and> (\<exists>c. rs = [c] \<and> pv (cell_parser T c) = (vm_details_bits vb d, []))"

definition compute_action_at :: "('c, 'p, 'b) toner_lib \<Rightarrow> ('p \<Rightarrow> 'c view) \<Rightarrow> (nat \<Rightarrow> bool list) \<Rightarrow> (nat \<Rightarrow> nat \<Rightarrow> bool list)
    \<Rightarrow> TrComputePhase \<Rightarrow> TrActionPhase option \<Rightarrow> bool \<Rightarrow> bool list \<Rightarrow> 'c list \<Rightarrow> bool" where
  "compute_action_at T pv gb vb compute action aborted bs rs \<longleftrightarrow> (\<exists>cb cr ar.
     bs = cb @ [action \<noteq> None] @ [aborted] \<and> rs = cr @ ar \<and> compute_at T pv gb vb compute cb cr
     \<and> maybe_ref_at (\<lambda>a c. pv (cell_parser T c) = (action_phase_bits gb vb a, [])) action ar
     \<and> pred_option action_phase_ok action)"

lemma reads_currency:
  assumes "amount_laws B pv gb vb" and "currency_at B pv gb cc bs rs"
  shows "reads pv (parse_currency_collection T B) bs rs cc"
proof -
  from assms(2) obtain eb where eb: "bs = gb (cc_grams cc) @ eb" "cc_grams cc < 2 ^ 120"
    "reads pv (parse_extra_currency_collection B) eb rs (cc_other cc)" by (auto simp: currency_at_def)
  show ?thesis unfolding eb(1) parse_currency_collection_def [abs_def]
    by (rule reads_bits_bind, rule reads_in_ctx, rule reads_grams [OF assms(1) eb(2)],
        rule reads_last, rule reads_in_ctx, rule eb(3), simp)
qed

lemma reads_credit:
  assumes T: "parser_laws T pv" and A: "amount_laws B pv gb vb" and c: "credit_at B pv gb v bs rs"
  shows "reads pv (parse_maybe T (parse_tr_credit_phase T B)) bs rs v"
proof (cases v)
  case None
  with c reads_maybe_at [OF T, of v "parse_tr_credit_phase T B" "[]" "[]"] show ?thesis by (simp add: credit_at_def)
next
  case (Some x)
  with c obtain cb where cb: "bs = [True] @ maybe_bits gb (cp_due_fees_collected x) @ cb"
    "pred_option (\<lambda>v. v < 2 ^ 120) (cp_due_fees_collected x)" "currency_at B pv gb (cp_credit x) cb rs"
    by (auto simp: credit_at_def)
  have due: "y < 2 ^ 120" if "cp_due_fees_collected x = Some y" for y using cb(2) that by simp
  have "reads pv (parse_tr_credit_phase T B) (maybe_bits gb (cp_due_fees_collected x) @ cb) rs x"
    unfolding parse_tr_credit_phase_def [abs_def]
    by (rule reads_bits_bind, rule reads_in_ctx, rule reads_maybe [OF T reads_grams [OF A due]], assumption,
        rule reads_last, rule reads_in_ctx, rule reads_currency [OF A cb(3)], simp)
  with Some reads_maybe_at [OF T, of v] show ?thesis by (simp add: cb(1))
qed

lemma reads_compute:
  assumes T: "parser_laws T pv" and A: "amount_laws B pv gb vb" and c: "compute_at T pv gb vb v bs rs"
  shows "reads pv (parse_tr_compute_phase T B) bs rs v"
proof -
  have tag: "reads pv (exec_dispatch T ''TrComputePhase'' (enum_dispatch tr_compute_phase_tags)) bs [] i"
    if "(i, bs) \<in> {(0, [False]), (1, [True])}" for i bs
    using that by (intro reads_enum_tag [OF T block_tags_ok(7)]) (auto simp: block_tags_bits bin_def block_tags_length)
  show ?thesis
  proof (cases v)
    case (ComputeSkipped r)
    with c have c: "bs = [False] @ skip_reason_bits r" "rs = []" by simp_all
    show ?thesis unfolding ComputeSkipped c parse_tr_compute_phase_def [abs_def]
      by (rule reads_bits_bind, rule tag [of 0], simp, simp)
        (rule reads_last, rule reads_in_ctx, rule reads_skip_reason [OF T], rule refl)
  next
    case (ComputeVm success used activated fees d)
    with c obtain cell where c: "bs = [True] @ [success] @ [used] @ [activated] @ gb fees" "fees < 2 ^ 120" "vm_details_ok d"
      "rs = [cell]" "pv (cell_parser T cell) = (vm_details_bits vb d, [])" by auto
    from reads_child [OF T reads_vm_details [OF T A c(3)] c(5)]
    obtain q where q: "unpack_tr_vm_details T B (cell_parser T cell) = Inr (d, q)" "pv q = ([], [])" .
    have "ensure_empty T q = Inr ()" by (simp add: ensure_empty_iff [OF T] q)
    then have "reads pv (\<lambda>p. bindr (unpack_tr_vm_details T B (cell_parser T cell)) (\<lambda>(details, q).
        bindr (in_ctx T ''^]'' (ensure_empty T q)) (\<lambda>_. Inr (ComputeVm success used activated fees details, p)))) [] [] v"
      using reads_return by (simp add: q in_ctx_def ComputeVm)
    then show ?thesis unfolding c parse_tr_compute_phase_def [abs_def]
      by (intro reads_bits_bind [OF tag [of 1]], simp, simp only: if_False one_neq_zero)
        ((rule reads_bits_bind, rule reads_in_ctx, rule reads_bool [OF T])+,
          rule reads_bits_end, rule reads_in_ctx, rule reads_grams [OF A c(2)],
          rule reads_ref_bind [where rs' = "[]", simplified], rule reads_in_ctx, rule reads_ref [OF T])
  qed
qed

lemma reads_compute_action:
  assumes T: "parser_laws T pv" and A: "amount_laws B pv gb vb"
    and c: "compute_action_at T pv gb vb compute action aborted bs rs"
  shows "reads pv (parse_compute_action T B) bs rs (compute, action, aborted)"
proof -
  from c obtain cb cr ar where v: "bs = cb @ [action \<noteq> None] @ [aborted]" "rs = cr @ ar"
    and comp: "compute_at T pv gb vb compute cb cr"
    and act: "maybe_ref_at (\<lambda>a c. pv (cell_parser T c) = (action_phase_bits gb vb a, [])) action ar" "pred_option action_phase_ok action"
    by (auto simp: compute_action_at_def)
  have "reads pv (parse_maybe T (parse_as_ref T (fully T (unpack_tr_action_phase T B)))) ([action \<noteq> None] @ []) ar action"
  proof (rule reads_maybe_at [OF T])
    fix a assume a: "action = Some a"
    with act obtain c where c: "ar = [c]" "pv (cell_parser T c) = (action_phase_bits gb vb a, [])" "action_phase_ok a"
      by (auto simp: maybe_ref_at_def)
    from reads_as_ref_fully [OF T reads_action_phase [OF T A c(3)] c(2)]
    show "reads pv (parse_as_ref T (fully T (unpack_tr_action_phase T B))) [] ar a" by (simp add: c(1))
  qed (use act in \<open>simp add: maybe_ref_at_def\<close>)
  then have a: "reads pv (\<lambda>p. in_ctx T ''action'' (parse_maybe T (parse_as_ref T (fully T (unpack_tr_action_phase T B))) p))
      [action \<noteq> None] (ar @ []) action" by (simp add: reads_ctx)
  show ?thesis unfolding v parse_compute_action_def [abs_def]
    by (rule reads_bind, rule reads_in_ctx, rule reads_compute [OF T A comp])
      (rule reads_bind [OF a, where rs' = "[]", simplified append_Nil2], rule reads_last, rule reads_in_ctx, rule reads_bool [OF T], rule refl)
qed

section \<open>Transactions\<close>

definition messages_at :: "('c, 'p, 'b) toner_lib \<Rightarrow> ('c, 'p) block_lib \<Rightarrow> ('p \<Rightarrow> 'c view) \<Rightarrow> 'c option \<Rightarrow> (u16 \<times> 'c) list
    \<Rightarrow> 'c \<Rightarrow> bool" where
  "messages_at T B pv m out c \<longleftrightarrow> (\<exists>mb mr ms. pv (cell_parser T c) = ([m \<noteq> None] @ mb, (case m of None \<Rightarrow> [] | Some x \<Rightarrow> [x]) @ mr)
     \<and> reads pv (cell_dict B 15 (parse_ref T)) mb mr ms \<and> out = map (\<lambda>(k, v). (load_be k, v)) ms)"

definition tx_head_bits :: "'c TlbTransaction \<Rightarrow> nat \<Rightarrow> AccountStatus \<Rightarrow> AccountStatus \<Rightarrow> bool list" where
  "tx_head_bits x cnt orig end_st =
     nat_bits 4 7 @ hash_bits (tt_account_addr x) @ word_bits (tt_lt x) @ hash_bits (tt_prev_trans_hash x)
     @ word_bits (tt_prev_trans_lt x) @ word_bits (tt_now x) @ nat_bits 15 cnt @ account_status_bits orig
     @ account_status_bits end_st"

definition tx_head_ok :: "'c TlbTransaction \<Rightarrow> nat \<Rightarrow> HashUpdate \<Rightarrow> bool" where
  "tx_head_ok x cnt upd \<longleftrightarrow> length (tt_account_addr x) = 32 \<and> length (tt_prev_trans_hash x) = 32 \<and> cnt < 2 ^ 15
     \<and> length (fst upd) = 32 \<and> length (snd upd) = 32"

text \<open>The cells of a transaction and of its description, down to the transaction that prepared it.\<close>

inductive tx_at and descr_at for T :: "('c, 'p, 'b) toner_lib" and B pv gb vb where
  tx: "pv (cell_parser T c) = (tx_head_bits x cnt orig end_st @ fb, [m] @ fr @ [u] @ [d]) \<Longrightarrow> tx_head_ok x cnt upd \<Longrightarrow>
    messages_at T B pv (tt_in_msg x) (tt_out_msgs x) m \<Longrightarrow>
    currency_at B pv gb \<lparr>cc_grams = tt_total_fees x, cc_other = other\<rparr> fb fr \<Longrightarrow>
    pv (cell_parser T u) = (nat_bits 8 0x72 @ hash_bits (fst upd) @ hash_bits (snd upd), []) \<Longrightarrow>
    descr_at T B pv gb vb d descr \<Longrightarrow> tx_at T B pv gb vb c (TlbTx x cnt orig end_st other upd descr)"
| ordinary: "pv (cell_parser T c) = (bin ''0000'' @ [credit_first] @ maybe_bits (storage_phase_bits gb) sp @ kb @ ab
      @ maybe_bits (bounce_bits gb vb) bounce @ [destroyed], kr @ ar) \<Longrightarrow> pred_option storage_phase_ok sp \<Longrightarrow>
    credit_at B pv gb credit kb kr \<Longrightarrow> compute_action_at T pv gb vb compute action aborted ab ar \<Longrightarrow>
    pred_option bounce_ok bounce \<Longrightarrow>
    descr_at T B pv gb vb c (TrOrdinary credit_first sp credit compute action aborted bounce destroyed)"
| storage: "pv (cell_parser T c) = (bin ''0001'' @ storage_phase_bits gb s, []) \<Longrightarrow> storage_phase_ok s \<Longrightarrow>
    descr_at T B pv gb vb c (TrStorage s)"
| tick_tock: "pv (cell_parser T c) = (bin ''001'' @ [is_tock] @ storage_phase_bits gb s @ ab @ [destroyed], ar) \<Longrightarrow>
    storage_phase_ok s \<Longrightarrow> compute_action_at T pv gb vb compute action aborted ab ar \<Longrightarrow>
    descr_at T B pv gb vb c (TrTickTock is_tock s compute action aborted destroyed)"
| split_prepare: "pv (cell_parser T c) = (bin ''0100'' @ split_merge_bits i @ maybe_bits (storage_phase_bits gb) sp @ ab
      @ [destroyed], ar) \<Longrightarrow> split_merge_ok i \<Longrightarrow> pred_option storage_phase_ok sp \<Longrightarrow>
    compute_action_at T pv gb vb compute action aborted ab ar \<Longrightarrow>
    descr_at T B pv gb vb c (TrSplitPrepare i sp compute action aborted destroyed)"
| split_install: "pv (cell_parser T c) = (bin ''0101'' @ split_merge_bits i @ [installed], [t]) \<Longrightarrow> split_merge_ok i \<Longrightarrow>
    tx_at T B pv gb vb t tx \<Longrightarrow> descr_at T B pv gb vb c (TrSplitInstall i tx installed)"
| merge_prepare: "pv (cell_parser T c) = (bin ''0110'' @ split_merge_bits i @ storage_phase_bits gb s @ [aborted], []) \<Longrightarrow>
    split_merge_ok i \<Longrightarrow> storage_phase_ok s \<Longrightarrow> descr_at T B pv gb vb c (TrMergePrepare i s aborted)"
| merge_install: "pv (cell_parser T c) = (bin ''0111'' @ split_merge_bits i @ maybe_bits (storage_phase_bits gb) sp @ kb @ ab
      @ [destroyed], [t] @ kr @ ar) \<Longrightarrow> split_merge_ok i \<Longrightarrow> pred_option storage_phase_ok sp \<Longrightarrow>
    tx_at T B pv gb vb t tx \<Longrightarrow> credit_at B pv gb credit kb kr \<Longrightarrow>
    compute_action_at T pv gb vb compute action aborted ab ar \<Longrightarrow>
    descr_at T B pv gb vb c (TrMergeInstall i tx sp credit compute action aborted destroyed)"

text \<open>With enough fuel the reader takes exactly the content of the cell.\<close>

definition read_at :: "('c, 'p, 'b) toner_lib \<Rightarrow> ('p \<Rightarrow> 'c view) \<Rightarrow> (nat \<Rightarrow> 'p \<Rightarrow> string + 'v \<times> 'p) \<Rightarrow> 'c \<Rightarrow> 'v \<Rightarrow> bool" where
  "read_at T pv rd c v \<longleftrightarrow> (\<exists>F. \<forall>fuel \<ge> F. reads pv (rd fuel) (fst (pv (cell_parser T c))) (snd (pv (cell_parser T c))) v)"

lemma read_atI:
  assumes "pv (cell_parser T c) = (bs, rs)" and "\<And>fuel. F \<le> fuel \<Longrightarrow> reads pv (rd (Suc fuel)) bs rs v"
  shows "read_at T pv rd c v"
  unfolding read_at_def
proof (intro exI [of _ "Suc F"] allI impI)
  fix fuel assume "Suc F \<le> fuel"
  then obtain n where "fuel = Suc n" "F \<le> n" by (cases fuel) auto
  with assms show "reads pv (rd fuel) (fst (pv (cell_parser T c))) (snd (pv (cell_parser T c))) v" by simp
qed

lemma read_at_ref:
  assumes "parser_laws T pv" and "read_at T pv rd c v"
  obtains F where "\<And>fuel. F \<le> fuel \<Longrightarrow> reads pv (parse_as_ref T (rd fuel)) [] [c] v"
  using assms reads_as_ref [OF assms(1)] unfolding read_at_def by (metis prod.collapse)

lemma reads_hash_update:
  assumes T: "parser_laws T pv" and "length (fst upd) = 32" "length (snd upd) = 32"
  shows "reads pv (unpack_hash_update T) (nat_bits 8 0x72 @ hash_bits (fst upd) @ hash_bits (snd upd)) [] upd"
  unfolding unpack_hash_update_def [abs_def]
  by (rule reads_bits_bind, rule reads_nat [OF T], simp, simp only: simp_thms if_False)
    (rule reads_bits_bind, rule reads_hash [OF T assms(2)], rule reads_last, rule reads_hash [OF T assms(3)], simp)

lemma reads_messages:
  assumes T: "parser_laws T pv" and c: "messages_at T B pv m out c"
  obtains ms where "reads pv (parse_as_ref T (fully T (\<lambda>p. bindr (parse_maybe T (parse_ref T) p) (\<lambda>(m, p).
     bindr (cell_dict B 15 (parse_ref T) p) (\<lambda>(ms, p). Inr ((m, ms), p)))))) [] [c] (m, ms)"
    and "out = map (\<lambda>(k, v). (load_be k, v)) ms"
proof -
  from c obtain mb mr ms where v: "pv (cell_parser T c) = ([m \<noteq> None] @ mb, (case m of None \<Rightarrow> [] | Some x \<Rightarrow> [x]) @ mr)"
    and ms: "reads pv (cell_dict B 15 (parse_ref T)) mb mr ms" and out: "out = map (\<lambda>(k, v). (load_be k, v)) ms"
    by (auto simp: messages_at_def)
  have "reads pv (parse_maybe T (parse_ref T)) ([m \<noteq> None] @ []) (case m of None \<Rightarrow> [] | Some x \<Rightarrow> [x]) m"
    by (rule reads_maybe_at [OF T]) (auto intro: reads_ref [OF T])
  then have m: "reads pv (parse_maybe T (parse_ref T)) [m \<noteq> None] (case m of None \<Rightarrow> [] | Some x \<Rightarrow> [x]) m"
    by (simp only: append_Nil2)
  have "reads pv (\<lambda>p. bindr (parse_maybe T (parse_ref T) p) (\<lambda>(m, p).
     bindr (cell_dict B 15 (parse_ref T) p) (\<lambda>(ms, p). Inr ((m, ms), p)))) ([m \<noteq> None] @ mb)
     ((case m of None \<Rightarrow> [] | Some x \<Rightarrow> [x]) @ mr) (m, ms)"
    by (rule reads_bind [OF m]) (rule reads_last [OF ms], rule refl)
  from reads_as_ref_fully [OF T this v] out show thesis by (rule that)
qed

lemma reads_descr_tag:
  assumes T: "parser_laws T pv" and "(i, s) \<in> {(0, ''0000''), (1, ''0001''), (2, ''001''), (3, ''0100''), (4, ''0101''),
    (5, ''0110''), (6, ''0111'')}"
  shows "reads pv (exec_dispatch T ''TransactionDescr'' (enum_dispatch transaction_descr_tags)) (bin s) [] i"
  using assms(2) by (intro reads_enum_tag [OF T block_tags_ok(9)]) (auto simp: block_tags_bits block_tags_length)

lemma reads_triple:
  assumes "reads pv rd bs rs (a, b, c)" and "reads pv (k a b c) bs' rs' w"
  shows "reads pv (\<lambda>p. bindr (rd p) (\<lambda>((x, y, z), p'). k x y z p')) (bs @ bs') (rs @ rs') w"
  using reads_bind [of pv rd bs rs "(a, b, c)" "\<lambda>(x, y, z) p'. k x y z p'" bs' rs' w, OF assms(1)] assms(2)
  by (simp add: case_prod_unfold)

lemma reads_ref_pair:
  assumes "reads pv rd [] rs (a, b)" and "reads pv (k a b) bs rs' w"
  shows "reads pv (\<lambda>p. bindr (rd p) (\<lambda>((x, y), p'). k x y p')) bs (rs @ rs') w"
  using reads_ref_bind [of pv rd rs "(a, b)" "\<lambda>(x, y) p'. k x y p'" bs rs' w, OF assms(1)] assms(2)
  by (simp add: case_prod_unfold)

text \<open>The last field with bits, before fields in child cells.\<close>

lemma reads_end_bind:
  assumes "reads pv rd bs rs v" and "reads pv (k v) [] rs' w"
  shows "reads pv (\<lambda>p. bindr (rd p) (\<lambda>(x, p'). k x p')) bs (rs @ rs') w"
  using reads_bind [of pv rd bs rs v k "[]" rs' w, OF assms] by simp

lemma reads_maybe_storage:
  assumes T: "parser_laws T pv" and A: "amount_laws B pv gb vb" and "pred_option storage_phase_ok sp"
  shows "reads pv (parse_maybe T (unpack_tr_storage_phase T B)) (maybe_bits (storage_phase_bits gb) sp) [] sp"
  by (rule reads_maybe [OF T reads_storage_phase [OF T A]]) (use assms(3) in simp)

lemma reads_maybe_bounce:
  assumes T: "parser_laws T pv" and A: "amount_laws B pv gb vb" and "pred_option bounce_ok b"
  shows "reads pv (parse_maybe T (unpack_tr_bounce_phase T B)) (maybe_bits (bounce_bits gb vb) b) [] b"
  by (rule reads_maybe [OF T reads_bounce [OF T A]]) (use assms(3) in simp)

text \<open>Each rule of the layout is read.\<close>

lemma read_tx:
  assumes T: "parser_laws T pv" and A: "amount_laws B pv gb vb"
    and v: "pv (cell_parser T c) = (tx_head_bits x cnt orig end_st @ fb, [m] @ fr @ [u] @ [d])" and "tx_head_ok x cnt upd"
    and m: "messages_at T B pv (tt_in_msg x) (tt_out_msgs x) m"
    and fees: "currency_at B pv gb \<lparr>cc_grams = tt_total_fees x, cc_other = other\<rparr> fb fr"
    and u: "pv (cell_parser T u) = (nat_bits 8 0x72 @ hash_bits (fst upd) @ hash_bits (snd upd), [])"
    and d: "read_at T pv (\<lambda>fuel. parse_transaction_descr fuel T B) d descr"
  shows "read_at T pv (\<lambda>fuel. parse_tlb_transaction fuel T B) c (TlbTx x cnt orig end_st other upd descr)"
proof -
  have ok: "length (tt_account_addr x) = 32" "length (tt_prev_trans_hash x) = 32" "cnt < 2 ^ 15"
    "length (fst upd) = 32" "length (snd upd) = 32"
    using assms(4) by (simp_all add: tx_head_ok_def)
  from reads_messages [OF T m] obtain ms where ms: "reads pv (parse_as_ref T (fully T (\<lambda>p. bindr (parse_maybe T (parse_ref T) p) (\<lambda>(m, p).
     bindr (cell_dict B 15 (parse_ref T) p) (\<lambda>(ms, p). Inr ((m, ms), p)))))) [] [m] (tt_in_msg x, ms)"
    "tt_out_msgs x = map (\<lambda>(k, v). (load_be k, v)) ms" .
  from read_at_ref [OF T d] obtain F where
    F: "\<And>fuel. F \<le> fuel \<Longrightarrow> reads pv (parse_as_ref T (parse_transaction_descr fuel T B)) [] [d] descr" by blast
  have upd: "reads pv (parse_as_ref T (fully T (unpack_hash_update T))) [] [u] upd"
    by (rule reads_as_ref_fully [OF T reads_hash_update [OF T ok(4,5)] u])
  show ?thesis
  proof (rule read_atI [where pv = pv and T = T, OF v])
    fix fuel assume "F \<le> fuel"
    then have "F \<le> Suc fuel" by simp
    note descr = F [OF this]
    show "reads pv (parse_tlb_transaction (Suc fuel) T B) (tx_head_bits x cnt orig end_st @ fb) ([m] @ fr @ [u] @ [d])
       (TlbTx x cnt orig end_st other upd descr)"
      unfolding parse_tlb_transaction_def parse_transaction_with_def [abs_def] tx_head_bits_def append_assoc
      by (rule reads_bits_bind, rule reads_in_ctx, rule reads_nat [OF T], simp, simp only: simp_thms if_False,
        rule reads_bits_bind, rule reads_in_ctx, rule reads_hash [OF T ok(1)],
        rule reads_bits_bind, rule reads_in_ctx, rule reads_uint [OF T],
        rule reads_bits_bind, rule reads_in_ctx, rule reads_hash [OF T ok(2)],
        rule reads_bits_bind, rule reads_in_ctx, rule reads_uint [OF T],
        rule reads_bits_bind, rule reads_in_ctx, rule reads_uint [OF T],
        rule reads_bits_bind, rule reads_in_ctx, rule reads_nat [OF T ok(3)],
        rule reads_bits_bind, rule reads_in_ctx, rule reads_account_status [OF T],
        rule reads_bits_bind, rule reads_in_ctx, rule reads_account_status [OF T],
        rule reads_ref_pair, rule reads_in_ctx, rule ms(1),
        rule reads_end_bind, rule reads_in_ctx, rule reads_currency [OF A fees],
        rule reads_ref_bind, rule reads_in_ctx, rule upd,
        rule reads_last, rule reads_in_ctx, rule descr, simp add: ms(2))
  qed
qed

lemmas variant_simps = if_True if_False zero_neq_one one_neq_zero zero_neq_numeral numeral_neq_zero numeral_eq_iff
  numeral_eq_one_iff one_eq_numeral_iff num.distinct num.inject simp_thms

lemma read_ordinary:
  assumes T: "parser_laws T pv" and A: "amount_laws B pv gb vb"
    and v: "pv (cell_parser T c) = (bin ''0000'' @ [credit_first] @ maybe_bits (storage_phase_bits gb) sp @ kb @ ab
      @ maybe_bits (bounce_bits gb vb) bounce @ [destroyed], kr @ ar)"
    and sp: "pred_option storage_phase_ok sp" and credit: "credit_at B pv gb credit kb kr"
    and ca: "compute_action_at T pv gb vb compute action aborted ab ar" and b: "pred_option bounce_ok bounce"
  shows "read_at T pv (\<lambda>fuel. parse_transaction_descr fuel T B) c
    (TrOrdinary credit_first sp credit compute action aborted bounce destroyed)"
proof (rule read_atI [where pv = pv and T = T and F = 0, OF v])
  fix fuel
  have "reads pv (parse_transaction_descr (Suc fuel) T B) (bin ''0000'' @ [credit_first] @ maybe_bits (storage_phase_bits gb) sp @ kb @ ab
      @ maybe_bits (bounce_bits gb vb) bounce @ [destroyed]) (kr @ ar @ [])
      (TrOrdinary credit_first sp credit compute action aborted bounce destroyed)"
    unfolding parse_transaction_descr.simps(2) [abs_def, folded parse_tlb_transaction_def]
    by (rule reads_bits_bind, rule reads_descr_tag [OF T, of 0], simp, simp only: variant_simps,
        rule reads_bits_bind, rule reads_in_ctx, rule reads_bool [OF T],
        rule reads_bits_bind, rule reads_in_ctx, rule reads_maybe_storage [OF T A sp],
        rule reads_bind, rule reads_in_ctx, rule reads_credit [OF T A credit],
        rule reads_triple, rule reads_compute_action [OF T A ca],
        rule reads_bits_bind, rule reads_in_ctx, rule reads_maybe_bounce [OF T A b],
        rule reads_last, rule reads_in_ctx, rule reads_bool [OF T], rule refl)
  then show "reads pv (parse_transaction_descr (Suc fuel) T B) (bin ''0000'' @ [credit_first] @ maybe_bits (storage_phase_bits gb) sp @ kb @ ab
      @ maybe_bits (bounce_bits gb vb) bounce @ [destroyed]) (kr @ ar)
      (TrOrdinary credit_first sp credit compute action aborted bounce destroyed)" by (simp only: append_Nil2)
qed

lemma read_storage:
  assumes T: "parser_laws T pv" and A: "amount_laws B pv gb vb"
    and v: "pv (cell_parser T c) = (bin ''0001'' @ storage_phase_bits gb s, [])" and s: "storage_phase_ok s"
  shows "read_at T pv (\<lambda>fuel. parse_transaction_descr fuel T B) c (TrStorage s)"
proof (rule read_atI [where pv = pv and T = T and F = 0, OF v])
  fix fuel
  show "reads pv (parse_transaction_descr (Suc fuel) T B) (bin ''0001'' @ storage_phase_bits gb s) [] (TrStorage s)"
    unfolding parse_transaction_descr.simps(2) [abs_def, folded parse_tlb_transaction_def]
    by (rule reads_bits_bind, rule reads_descr_tag [OF T, of 1], simp, simp only: variant_simps,
        rule reads_last, rule reads_in_ctx, rule reads_storage_phase [OF T A s], rule refl)
qed

lemma read_tick_tock:
  assumes T: "parser_laws T pv" and A: "amount_laws B pv gb vb"
    and v: "pv (cell_parser T c) = (bin ''001'' @ [is_tock] @ storage_phase_bits gb s @ ab @ [destroyed], ar)"
    and s: "storage_phase_ok s" and ca: "compute_action_at T pv gb vb compute action aborted ab ar"
  shows "read_at T pv (\<lambda>fuel. parse_transaction_descr fuel T B) c (TrTickTock is_tock s compute action aborted destroyed)"
proof (rule read_atI [where pv = pv and T = T and F = 0, OF v])
  fix fuel
  have "reads pv (parse_transaction_descr (Suc fuel) T B) (bin ''001'' @ [is_tock] @ storage_phase_bits gb s @ ab @ [destroyed])
      (ar @ []) (TrTickTock is_tock s compute action aborted destroyed)"
    unfolding parse_transaction_descr.simps(2) [abs_def, folded parse_tlb_transaction_def]
    by (rule reads_bits_bind, rule reads_descr_tag [OF T, of 2], simp, simp only: variant_simps,
        rule reads_bits_bind, rule reads_in_ctx, rule reads_bool [OF T],
        rule reads_bits_bind, rule reads_in_ctx, rule reads_storage_phase [OF T A s],
        rule reads_triple, rule reads_compute_action [OF T A ca],
        rule reads_last, rule reads_in_ctx, rule reads_bool [OF T], rule refl)
  then show "reads pv (parse_transaction_descr (Suc fuel) T B) (bin ''001'' @ [is_tock] @ storage_phase_bits gb s @ ab @ [destroyed])
      ar (TrTickTock is_tock s compute action aborted destroyed)" by (simp only: append_Nil2)
qed

lemma read_split_prepare:
  assumes T: "parser_laws T pv" and A: "amount_laws B pv gb vb"
    and v: "pv (cell_parser T c) = (bin ''0100'' @ split_merge_bits i @ maybe_bits (storage_phase_bits gb) sp @ ab @ [destroyed], ar)"
    and i: "split_merge_ok i" and sp: "pred_option storage_phase_ok sp"
    and ca: "compute_action_at T pv gb vb compute action aborted ab ar"
  shows "read_at T pv (\<lambda>fuel. parse_transaction_descr fuel T B) c (TrSplitPrepare i sp compute action aborted destroyed)"
proof (rule read_atI [where pv = pv and T = T and F = 0, OF v])
  fix fuel
  have "reads pv (parse_transaction_descr (Suc fuel) T B) (bin ''0100'' @ split_merge_bits i @ maybe_bits (storage_phase_bits gb) sp
      @ ab @ [destroyed]) (ar @ []) (TrSplitPrepare i sp compute action aborted destroyed)"
    unfolding parse_transaction_descr.simps(2) [abs_def, folded parse_tlb_transaction_def]
    by (rule reads_bits_bind, rule reads_descr_tag [OF T, of 3], simp, simp only: variant_simps,
        rule reads_bits_bind, rule reads_in_ctx, rule reads_split_merge_info [OF T i],
        rule reads_bits_bind, rule reads_in_ctx, rule reads_maybe_storage [OF T A sp],
        rule reads_triple, rule reads_compute_action [OF T A ca],
        rule reads_last, rule reads_in_ctx, rule reads_bool [OF T], rule refl)
  then show "reads pv (parse_transaction_descr (Suc fuel) T B) (bin ''0100'' @ split_merge_bits i @ maybe_bits (storage_phase_bits gb) sp
      @ ab @ [destroyed]) ar (TrSplitPrepare i sp compute action aborted destroyed)" by (simp only: append_Nil2)
qed

lemma read_split_install:
  assumes T: "parser_laws T pv"
    and v: "pv (cell_parser T c) = (bin ''0101'' @ split_merge_bits i @ [installed], [t])" and i: "split_merge_ok i"
    and t: "read_at T pv (\<lambda>fuel. parse_tlb_transaction fuel T B) t tx"
  shows "read_at T pv (\<lambda>fuel. parse_transaction_descr fuel T B) c (TrSplitInstall i tx installed)"
proof -
  from read_at_ref [OF T t] obtain F where
    F: "\<And>fuel. F \<le> fuel \<Longrightarrow> reads pv (parse_as_ref T (parse_tlb_transaction fuel T B)) [] [t] tx" by blast
  show ?thesis
  proof (rule read_atI [where pv = pv and T = T, OF v])
    fix fuel assume "F \<le> fuel"
    note tx = F [OF this]
    have "reads pv (parse_transaction_descr (Suc fuel) T B) (bin ''0101'' @ split_merge_bits i @ [installed]) ([t] @ [])
        (TrSplitInstall i tx installed)"
      unfolding parse_transaction_descr.simps(2) [abs_def, folded parse_tlb_transaction_def]
      by (rule reads_bits_bind, rule reads_descr_tag [OF T, of 4], simp, simp only: variant_simps,
          rule reads_bits_bind, rule reads_in_ctx, rule reads_split_merge_info [OF T i],
          rule reads_ref_bind, rule reads_in_ctx, rule tx,
          rule reads_last, rule reads_in_ctx, rule reads_bool [OF T], rule refl)
    then show "reads pv (parse_transaction_descr (Suc fuel) T B) (bin ''0101'' @ split_merge_bits i @ [installed]) [t]
        (TrSplitInstall i tx installed)" by (simp only: append_Nil2)
  qed
qed

lemma read_merge_prepare:
  assumes T: "parser_laws T pv" and A: "amount_laws B pv gb vb"
    and v: "pv (cell_parser T c) = (bin ''0110'' @ split_merge_bits i @ storage_phase_bits gb s @ [aborted], [])"
    and i: "split_merge_ok i" and s: "storage_phase_ok s"
  shows "read_at T pv (\<lambda>fuel. parse_transaction_descr fuel T B) c (TrMergePrepare i s aborted)"
proof (rule read_atI [where pv = pv and T = T and F = 0, OF v])
  fix fuel
  show "reads pv (parse_transaction_descr (Suc fuel) T B) (bin ''0110'' @ split_merge_bits i @ storage_phase_bits gb s @ [aborted]) []
      (TrMergePrepare i s aborted)"
    unfolding parse_transaction_descr.simps(2) [abs_def, folded parse_tlb_transaction_def]
    by (rule reads_bits_bind, rule reads_descr_tag [OF T, of 5], simp, simp only: variant_simps,
        rule reads_bits_bind, rule reads_in_ctx, rule reads_split_merge_info [OF T i],
        rule reads_bits_bind, rule reads_in_ctx, rule reads_storage_phase [OF T A s],
        rule reads_last, rule reads_in_ctx, rule reads_bool [OF T], rule refl)
qed

lemma read_merge_install:
  assumes T: "parser_laws T pv" and A: "amount_laws B pv gb vb"
    and v: "pv (cell_parser T c) = (bin ''0111'' @ split_merge_bits i @ maybe_bits (storage_phase_bits gb) sp @ kb @ ab
      @ [destroyed], [t] @ kr @ ar)"
    and i: "split_merge_ok i" and sp: "pred_option storage_phase_ok sp" and credit: "credit_at B pv gb credit kb kr"
    and ca: "compute_action_at T pv gb vb compute action aborted ab ar"
    and t: "read_at T pv (\<lambda>fuel. parse_tlb_transaction fuel T B) t tx"
  shows "read_at T pv (\<lambda>fuel. parse_transaction_descr fuel T B) c
    (TrMergeInstall i tx sp credit compute action aborted destroyed)"
proof -
  from read_at_ref [OF T t] obtain F where
    F: "\<And>fuel. F \<le> fuel \<Longrightarrow> reads pv (parse_as_ref T (parse_tlb_transaction fuel T B)) [] [t] tx" by blast
  show ?thesis
  proof (rule read_atI [where pv = pv and T = T, OF v])
    fix fuel assume "F \<le> fuel"
    note tx = F [OF this]
    have "reads pv (parse_transaction_descr (Suc fuel) T B) (bin ''0111'' @ split_merge_bits i @ maybe_bits (storage_phase_bits gb) sp
        @ kb @ ab @ [destroyed]) ([t] @ kr @ ar @ []) (TrMergeInstall i tx sp credit compute action aborted destroyed)"
      unfolding parse_transaction_descr.simps(2) [abs_def, folded parse_tlb_transaction_def]
      by (rule reads_bits_bind, rule reads_descr_tag [OF T, of 6], simp, simp only: variant_simps,
          rule reads_bits_bind, rule reads_in_ctx, rule reads_split_merge_info [OF T i],
          rule reads_ref_bind, rule reads_in_ctx, rule tx,
          rule reads_bits_bind, rule reads_in_ctx, rule reads_maybe_storage [OF T A sp],
          rule reads_bind, rule reads_in_ctx, rule reads_credit [OF T A credit],
          rule reads_triple, rule reads_compute_action [OF T A ca],
          rule reads_last, rule reads_in_ctx, rule reads_bool [OF T], rule refl)
    then show "reads pv (parse_transaction_descr (Suc fuel) T B) (bin ''0111'' @ split_merge_bits i @ maybe_bits (storage_phase_bits gb) sp
        @ kb @ ab @ [destroyed]) ([t] @ kr @ ar) (TrMergeInstall i tx sp credit compute action aborted destroyed)"
      by (simp only: append_Nil2)
  qed
qed

lemma tx_at_read:
  assumes T: "parser_laws T pv" and A: "amount_laws B pv gb vb"
  shows "tx_at T B pv gb vb c tx \<Longrightarrow> read_at T pv (\<lambda>fuel. parse_tlb_transaction fuel T B) c tx"
    and "descr_at T B pv gb vb c descr \<Longrightarrow> read_at T pv (\<lambda>fuel. parse_transaction_descr fuel T B) c descr"
  by (induction rule: tx_at_descr_at.inducts)
    (rule read_tx [OF T A] read_ordinary [OF T A] read_storage [OF T A] read_tick_tock [OF T A] read_split_prepare [OF T A]
       read_split_install [OF T] read_merge_prepare [OF T A] read_merge_install [OF T A]; assumption)+

section \<open>Properties\<close>

text \<open>
  C26. A transaction laid out as the TL-B scheme says is read back whole, whatever its description: an ordinary
  transaction with its phases, a storage or tick-tock one, and one that installs a split or a merge, with the
  transaction that prepared it, to any depth. The recursion ends: from some depth of calls on the reader returns.
\<close>

theorem transaction_is_read:
  assumes "parser_laws T pv" and "amount_laws B pv gb vb" and "tx_at T B pv gb vb c tx"
  shows "\<exists>F. \<forall>fuel \<ge> F. parse_fully T (parse_tlb_transaction fuel T B) c = Inr tx
    \<and> parse_transaction (tlb_readers fuel T B D rm) c = Inr (tx_part tx)"
proof -
  from tx_at_read(1) [OF assms] obtain F where
    F: "\<And>fuel. F \<le> fuel \<Longrightarrow> reads pv (parse_tlb_transaction fuel T B) (fst (pv (cell_parser T c))) (snd (pv (cell_parser T c))) tx"
    unfolding read_at_def by blast
  have "parse_fully T (parse_tlb_transaction fuel T B) c = Inr tx" if "F \<le> fuel" for fuel
  proof -
    note r = F [OF that]
    obtain q where q: "parse_tlb_transaction fuel T B (cell_parser T c) = Inr (tx, q)" "pv q = ([], [])"
      by (rule reads_child [OF assms(1) r prod.collapse [symmetric]])
    have "ensure_empty T q = Inr ()" by (simp add: ensure_empty_iff [OF assms(1)] q)
    with q show ?thesis by (simp add: parse_fully_def)
  qed
  then show ?thesis by (intro exI [of _ F]) (simp add: tlb_readers_def)
qed

text \<open>Amounts of the small chain with the greatest length, and a split installed after it was prepared.\<close>

definition mem_gb :: "nat \<Rightarrow> bool list" where
  "mem_gb v = nat_bits 4 15 @ nat_bits (8 * 15) v"

definition mem_vb :: "nat \<Rightarrow> nat \<Rightarrow> bool list" where
  "mem_vb n v = nat_bits n (2 ^ n - 1) @ nat_bits (8 * (2 ^ n - 1)) v"

lemma mem_amount_laws: "amount_laws mem_block (\<lambda>p. p) mem_gb mem_vb"
proof -
  have v: "reads (\<lambda>p. p) (mem_var_int n) (nat_bits n len @ nat_bits (8 * len) v) [] v" if "len < 2 ^ n" "v < 2 ^ (8 * len)" for n len v
    unfolding mem_var_int_def [abs_def]
    by (rule reads_bits_bind, rule reads_nat [OF mem_parser_laws that(1)], rule reads_nat [OF mem_parser_laws that(2)])
  show ?thesis
    unfolding amount_laws_def mem_gb_def mem_vb_def using v [of 15 4] v [of "2 ^ n - 1" n for n]
    by (auto simp: mem_block_def)
qed

definition demo_tx_part :: "mem_cell TlbTransaction" where
  "demo_tx_part = \<lparr>tt_account_addr = replicate 32 1, tt_lt = 10, tt_prev_trans_hash = replicate 32 2, tt_prev_trans_lt = 9,
     tt_now = 1000, tt_in_msg = None, tt_out_msgs = [], tt_total_fees = 5\<rparr>"

definition demo_tx :: "mem_cell TransactionDescr \<Rightarrow> mem_cell TlbTx" where
  "demo_tx d = TlbTx demo_tx_part 0 StatusActive StatusActive [] (replicate 32 3, replicate 32 4) d"

definition demo_tx_cell :: "mem_cell \<Rightarrow> mem_cell" where
  "demo_tx_cell d = MemCell (tx_head_bits demo_tx_part 0 StatusActive StatusActive @ mem_gb 5 @ [False])
     [MemCell [False, False] [], MemCell (nat_bits 8 0x72 @ hash_bits (replicate 32 3) @ hash_bits (replicate 32 4)) [], d]"

lemma mem_empty_dict_reads: "reads (\<lambda>p. p) mem_empty_dict [False] [] []"
  unfolding mem_empty_dict_def [abs_def] by (rule reads_bits_end [OF reads_bool [OF mem_parser_laws]]) (simp add: reads_return)

lemma demo_tx_at:
  assumes "descr_at mem_toner mem_block (\<lambda>p. p) mem_gb mem_vb d descr"
  shows "tx_at mem_toner mem_block (\<lambda>p. p) mem_gb mem_vb (demo_tx_cell d) (demo_tx descr)"
  unfolding demo_tx_def
proof (rule tx_at_descr_at.tx [OF _ _ _ _ _ assms])
  show "cell_parser mem_toner (demo_tx_cell d) = (tx_head_bits demo_tx_part 0 StatusActive StatusActive @ mem_gb 5 @ [False],
     [MemCell [False, False] []] @ [] @ [MemCell (nat_bits 8 0x72 @ hash_bits (replicate 32 3) @ hash_bits (replicate 32 4)) []] @ [d])"
    by (simp add: demo_tx_cell_def mem_toner_def)
  show "tx_head_ok demo_tx_part 0 (replicate 32 3, replicate 32 4)" by (simp add: tx_head_ok_def demo_tx_part_def)
  show "messages_at mem_toner mem_block (\<lambda>p. p) (tt_in_msg demo_tx_part) (tt_out_msgs demo_tx_part) (MemCell [False, False] [])"
    unfolding messages_at_def using mem_empty_dict_reads by (fastforce simp: demo_tx_part_def mem_toner_def mem_block_def)
  have "reads (\<lambda>p. p) (parse_extra_currency_collection mem_block) [False] [] []"
    unfolding parse_extra_currency_collection_def [abs_def]
    by (rule reads_last) (use mem_empty_dict_reads in \<open>simp_all add: mem_block_def\<close>)
  then show "currency_at mem_block (\<lambda>p. p) mem_gb \<lparr>cc_grams = tt_total_fees demo_tx_part, cc_other = []\<rparr> (mem_gb 5 @ [False]) []"
    by (simp add: currency_at_def demo_tx_part_def)
qed (simp add: mem_toner_def)

definition demo_split_info :: SplitMergeInfo where
  "demo_split_info = \<lparr>sm_cur_shard_pfx_len = 1, sm_acc_split_depth = 2, sm_this_addr = replicate 32 5, sm_sibling_addr = replicate 32 6\<rparr>"

definition demo_storage_phase :: TrStoragePhase where
  "demo_storage_phase = \<lparr>sp_storage_fees_collected = 3, sp_storage_fees_due = Some 4, sp_status_change = AcstFrozen\<rparr>"

definition demo_install_cell :: mem_cell where
  "demo_install_cell = demo_tx_cell (MemCell (bin ''0101'' @ split_merge_bits demo_split_info @ [True])
     [demo_tx_cell (MemCell (bin ''0001'' @ storage_phase_bits mem_gb demo_storage_phase) [])])"

theorem transaction_is_read_witness:
  "\<exists>fuel. parse_fully mem_toner (parse_tlb_transaction fuel mem_toner mem_block) demo_install_cell
     = Inr (demo_tx (TrSplitInstall demo_split_info (demo_tx (TrStorage demo_storage_phase)) True))"
proof -
  have "descr_at mem_toner mem_block (\<lambda>p. p) mem_gb mem_vb (MemCell (bin ''0001'' @ storage_phase_bits mem_gb demo_storage_phase) [])
      (TrStorage demo_storage_phase)"
    by (rule tx_at_descr_at.storage) (simp_all add: mem_toner_def storage_phase_ok_def demo_storage_phase_def)
  from tx_at_descr_at.split_install [OF _ _ demo_tx_at [OF this], where i = demo_split_info and installed = True]
  have "tx_at mem_toner mem_block (\<lambda>p. p) mem_gb mem_vb demo_install_cell
      (demo_tx (TrSplitInstall demo_split_info (demo_tx (TrStorage demo_storage_phase)) True))"
    unfolding demo_install_cell_def by (intro demo_tx_at) (simp add: mem_toner_def split_merge_ok_def demo_split_info_def)
  from transaction_is_read [OF mem_parser_laws mem_amount_laws this] show ?thesis by blast
qed

end
