(* ===== verification/Tlb_Account_Correct.thy ===== *)
theory Tlb_Account_Correct
  imports Tlb_Transaction_Correct
begin

text \<open>
  Accounts laid out in cells as the TL-B scheme says (\<open>account.rs\<close>, \<open>account_state.rs\<close>, \<open>account_storage.rs\<close>,
  \<open>msg_address_int.rs\<close>, \<open>storage_info.rs\<close> and the structs they use) and that they are read back.
\<close>

section \<open>Layout\<close>

text \<open>\<open>yb\<close> are the bits of the optional \<open>Anycast\<close>, which is read and dropped.\<close>

fun addr_bits :: "bool list \<Rightarrow> MsgAddressInt \<Rightarrow> bool list" where
  "addr_bits yb (AddrStd wc address) = nat_bits 2 2 @ yb @ int_bits 8 wc @ hash_bits address"
| "addr_bits yb (AddrVar wc address) = nat_bits 2 3 @ yb @ nat_bits 9 (length address) @ int_bits 32 wc @ address"

fun addr_ok :: "MsgAddressInt \<Rightarrow> bool" where
  "addr_ok (AddrStd wc address) \<longleftrightarrow> -128 \<le> wc \<and> wc < 128 \<and> length address = 32"
| "addr_ok (AddrVar wc address) \<longleftrightarrow> i32_range wc \<and> length address < 512"

fun storage_extra_bits :: "StorageExtraInfo \<Rightarrow> bool list" where
  "storage_extra_bits StorageExtraNone = [False, False, False]"
| "storage_extra_bits (StorageExtra h) = [False, False, True] @ hash_bits h"

fun storage_extra_ok :: "StorageExtraInfo \<Rightarrow> bool" where
  "storage_extra_ok StorageExtraNone \<longleftrightarrow> True"
| "storage_extra_ok (StorageExtra h) \<longleftrightarrow> length h = 32"

definition storage_info_bits :: "(nat \<Rightarrow> bool list) \<Rightarrow> (nat \<Rightarrow> nat \<Rightarrow> bool list) \<Rightarrow> StorageInfo \<Rightarrow> bool list" where
  "storage_info_bits gb vb s =
     storage_used_bits vb (si_used s) @ storage_extra_bits (si_storage_extra s) @ word_bits (si_last_paid s)
     @ maybe_bits gb (si_due_payment s)"

definition storage_info_ok :: "StorageInfo \<Rightarrow> bool" where
  "storage_info_ok s \<longleftrightarrow> storage_used_ok (si_used s) \<and> storage_extra_ok (si_storage_extra s)
     \<and> pred_option (\<lambda>v. v < 2 ^ 120) (si_due_payment s)"

definition opt_ref :: "'c option \<Rightarrow> 'c list" where
  "opt_ref c = (case c of None \<Rightarrow> [] | Some x \<Rightarrow> [x])"

text \<open>The state: two bits and a hash, two bits, or one bit and the code and data with what is dropped around them.\<close>

fun account_state_at :: "('c, 'p) block_lib \<Rightarrow> ('p \<Rightarrow> 'c view) \<Rightarrow> 'c TlbAccountState \<Rightarrow> bool list \<Rightarrow> 'c list \<Rightarrow> bool" where
  "account_state_at B pv AccountUninit bs rs \<longleftrightarrow> bs = [False] @ [False] \<and> rs = []"
| "account_state_at B pv (AccountFrozen h) bs rs \<longleftrightarrow> bs = [False] @ [True] @ hash_bits h \<and> rs = [] \<and> length h = 32"
| "account_state_at B pv (AccountActive code data) bs rs \<longleftrightarrow> (\<exists>depth tb lb lr.
     bs = [True] @ maybe_bits (nat_bits 5) depth @ tb @ [code \<noteq> None] @ [data \<noteq> None] @ lb
     \<and> rs = opt_ref code @ opt_ref data @ lr \<and> pred_option (\<lambda>v. v < 32) depth
     \<and> reads pv (unpack_tick_tock B) tb [] () \<and> reads pv (library_dict B 256) lb lr ())"

inductive account_at for T :: "('c, 'p, 'b) toner_lib" and B pv gb vb where
  none: "pv (cell_parser T c) = ([False], []) \<Longrightarrow> account_at T B pv gb vb c TlbAccountNone"
| account: "pv (cell_parser T c) = ([True] @ addr_bits yb addr @ storage_info_bits gb vb stat
      @ word_bits (as_last_trans_lt st) @ fb @ sb, fr @ sr) \<Longrightarrow>
    reads pv (unpack_anycast B) yb [] () \<Longrightarrow> addr_ok addr \<Longrightarrow> storage_info_ok stat \<Longrightarrow>
    currency_at B pv gb (as_balance st) fb fr \<Longrightarrow> account_state_at B pv (as_account_state st) sb sr \<Longrightarrow>
    account_at T B pv gb vb c (TlbAccount addr stat st)"

section \<open>Reading\<close>

lemma reads_bits:
  assumes "parser_laws T pv"
  shows "reads pv (unpack_bits T (length bs)) bs [] bs"
  unfolding unpack_bits_def [abs_def]
  by (rule reads_last, rule reads_nbits [OF assms refl], rule nat_bits_nat)

lemma reads_addr:
  assumes T: "parser_laws T pv" and y: "reads pv (unpack_anycast B) yb [] ()" and "addr_ok a"
  shows "reads pv (unpack_msg_address_int T B) (addr_bits yb a) [] a"
proof (cases a)
  case (AddrStd wc address)
  with assms(3) have ok: "-128 \<le> wc" "wc < 128" "length address = 32" by simp_all
  show ?thesis unfolding AddrStd addr_bits.simps unpack_msg_address_int_def [abs_def]
    by (rule reads_bits_bind, rule reads_nat [OF T], simp, simp only: variant_simps,
        rule reads_bits_bind, rule y, rule reads_bits_bind, rule reads_i8 [OF T ok(1,2)],
        rule reads_last, rule reads_hash [OF T ok(3)], rule refl)
next
  case (AddrVar wc address)
  with assms(3) have ok: "length address < 2 ^ 9" "i32_range wc" by simp_all
  show ?thesis unfolding AddrVar addr_bits.simps unpack_msg_address_int_def [abs_def]
    by (rule reads_bits_bind, rule reads_nat [OF T], simp, simp only: variant_simps,
        rule reads_bits_bind, rule y, rule reads_bits_bind, rule reads_nat [OF T ok(1)],
        rule reads_bits_bind, rule reads_i32 [OF T ok(2)], rule reads_last, rule reads_bits [OF T], rule refl)
qed

lemma reads_storage_extra:
  assumes T: "parser_laws T pv" and "storage_extra_ok s"
  shows "reads pv (unpack_storage_extra_info T) (storage_extra_bits s) [] s"
proof -
  have tag: "reads pv (exec_dispatch T ''StorageExtraInfo'' (enum_dispatch storage_extra_tags)) bs [] i"
    if "(i, bs) \<in> {(0, [False, False, False]), (1, [False, False, True])}" for i bs
    using that by (intro reads_enum_tag [OF T block_tags_ok(2)])
      (auto simp: block_tags_bits bin_def, simp_all add: storage_extra_tags_def)
  show ?thesis
  proof (cases s)
    case StorageExtraNone
    show ?thesis unfolding StorageExtraNone storage_extra_bits.simps unpack_storage_extra_info_def [abs_def]
      by (rule reads_bits_end, rule tag [of 0], simp, simp add: reads_return)
  next
    case (StorageExtra h)
    with assms(2) have h: "length h = 32" by simp
    show ?thesis unfolding StorageExtra storage_extra_bits.simps unpack_storage_extra_info_def [abs_def]
      by (rule reads_bits_bind, rule tag [of 1], simp, simp only: variant_simps)
        (rule reads_last, rule reads_in_ctx, rule reads_hash [OF T h], rule refl)
  qed
qed

lemma reads_storage_info:
  assumes T: "parser_laws T pv" and A: "amount_laws B pv gb vb" and "storage_info_ok s"
  shows "reads pv (unpack_storage_info T B) (storage_info_bits gb vb s) [] s"
proof -
  have ok: "storage_used_ok (si_used s)" "storage_extra_ok (si_storage_extra s)"
    "\<And>y. si_due_payment s = Some y \<Longrightarrow> y < 2 ^ 120"
    using assms(3) by (simp_all add: storage_info_ok_def)
  show ?thesis
    unfolding storage_info_bits_def unpack_storage_info_def [abs_def]
    by (rule reads_bits_bind, rule reads_in_ctx, rule reads_storage_used [OF A ok(1)],
        rule reads_bits_bind, rule reads_in_ctx, rule reads_storage_extra [OF T ok(2)],
        rule reads_bits_bind, rule reads_in_ctx, rule reads_uint [OF T],
        rule reads_last, rule reads_in_ctx, rule reads_maybe [OF T reads_grams [OF A ok(3)]], assumption, simp)
qed

lemma reads_opt_ref:
  assumes T: "parser_laws T pv"
  shows "reads pv (parse_maybe T (parse_ref T)) [c \<noteq> None] (opt_ref c) c"
proof -
  have "reads pv (parse_maybe T (parse_ref T)) ([c \<noteq> None] @ []) (opt_ref c) c"
    by (rule reads_maybe_at [OF T]) (auto simp: opt_ref_def intro: reads_ref [OF T])
  then show ?thesis by (simp only: append_Nil2)
qed

lemma reads_account_state:
  assumes T: "parser_laws T pv" and s: "account_state_at B pv s bs rs"
  shows "reads pv (parse_account_state T B) bs rs s"
proof (cases s)
  case AccountUninit
  with s have b: "bs = [False] @ [False]" "rs = []" by simp_all
  show ?thesis unfolding AccountUninit b parse_account_state_def [abs_def]
    by (rule reads_bits_bind, rule reads_in_ctx, rule reads_bool [OF T], simp only: if_False)
      (rule reads_bits_end, rule reads_in_ctx, rule reads_bool [OF T], simp add: reads_return)
next
  case (AccountFrozen h)
  with s have b: "bs = [False] @ [True] @ hash_bits h" "rs = []" "length h = 32" by simp_all
  show ?thesis unfolding AccountFrozen b parse_account_state_def [abs_def]
    by (rule reads_bits_bind, rule reads_in_ctx, rule reads_bool [OF T], simp only: if_False)
      (rule reads_bits_bind, rule reads_in_ctx, rule reads_bool [OF T], simp only: if_True,
        rule reads_last, rule reads_in_ctx, rule reads_hash [OF T b(3)], rule refl)
next
  case (AccountActive code data)
  with s obtain depth tb lb lr where b: "bs = [True] @ maybe_bits (nat_bits 5) depth @ tb @ [code \<noteq> None] @ [data \<noteq> None] @ lb"
    "rs = opt_ref code @ opt_ref data @ lr" "pred_option (\<lambda>v. v < 32) depth" "reads pv (unpack_tick_tock B) tb [] ()"
    "reads pv (library_dict B 256) lb lr ()" by auto
  have depth: "y < 2 ^ 5" if "depth = Some y" for y using b(3) that by simp
  have "reads pv (parse_raw_state_init T B) (maybe_bits (nat_bits 5) depth @ tb @ [code \<noteq> None] @ [data \<noteq> None] @ lb) rs (code, data)"
    unfolding b parse_raw_state_init_def [abs_def]
    by (rule reads_bits_bind, rule reads_maybe [OF T reads_nat [OF T depth]], assumption,
        rule reads_bits_bind, rule b(4), rule reads_bind, rule reads_in_ctx, rule reads_opt_ref [OF T],
        rule reads_bind, rule reads_in_ctx, rule reads_opt_ref [OF T], rule reads_last, rule b(5), rule refl)
  then show ?thesis unfolding AccountActive b(1) parse_account_state_def [abs_def]
    by (intro reads_bits_bind [OF reads_in_ctx [OF reads_bool [OF T]]]) (simp only: if_True, intro reads_pair reads_in_ctx)
qed

lemma reads_account_storage:
  assumes T: "parser_laws T pv" and A: "amount_laws B pv gb vb" and f: "currency_at B pv gb (as_balance st) fb fr"
    and s: "account_state_at B pv (as_account_state st) sb sr"
  shows "reads pv (parse_account_storage T B) (word_bits (as_last_trans_lt st) @ fb @ sb) (fr @ sr) st"
  unfolding parse_account_storage_def [abs_def]
  by (rule reads_bits_bind, rule reads_in_ctx, rule reads_uint [OF T],
      rule reads_bind, rule reads_in_ctx, rule reads_currency [OF A f],
      rule reads_last, rule reads_in_ctx, rule reads_account_state [OF T s], simp)

lemma reads_account:
  assumes T: "parser_laws T pv" and A: "amount_laws B pv gb vb" and c: "account_at T B pv gb vb c a"
  shows "reads pv (parse_tlb_account T B) (fst (pv (cell_parser T c))) (snd (pv (cell_parser T c))) a"
proof -
  have tag: "reads pv (exec_dispatch T ''Account'' (enum_dispatch account_tags)) bs [] i"
    if "(i, bs) \<in> {(0, [False]), (1, [True])}" for i bs
    using that by (intro reads_enum_tag [OF T block_tags_ok(3)])
      (auto simp: block_tags_bits bin_def, simp_all add: account_tags_def)
  from c show ?thesis
  proof (cases rule: account_at.cases)
    case none
    show ?thesis unfolding none fst_conv snd_conv parse_tlb_account_def [abs_def]
      by (rule reads_bits_end, rule tag [of 0], simp, simp add: reads_return)
  next
    case (account yb addr stat st fb sb fr sr)
    show ?thesis unfolding account(1,2) fst_conv snd_conv parse_tlb_account_def [abs_def]
      by (rule reads_bits_bind, rule tag [of 1], simp, simp only: variant_simps)
        (rule reads_bits_bind, rule reads_in_ctx, rule reads_addr [OF T account(3,4)],
          rule reads_bits_bind, rule reads_in_ctx, rule reads_storage_info [OF T A account(5)],
          rule reads_last, rule reads_in_ctx, rule reads_account_storage [OF T A account(6,7)], rule refl)
  qed
qed

section \<open>Properties\<close>

text \<open>
  C28. An account laid out as the TL-B scheme says is read back, and the adapter gets its balance and its state: none,
  not initialised, frozen with the hash of its state, or active with the cells of its code and data as they are.
\<close>

theorem account_is_read:
  assumes "parser_laws T pv" and "amount_laws B pv gb vb" and "account_at T B pv gb vb c a"
  shows "parse_fully T (parse_tlb_account T B) c = Inr a \<and> parse_account (account_readers T B) c = Inr (account_part a)"
proof -
  obtain q where q: "parse_tlb_account T B (cell_parser T c) = Inr (a, q)" "pv q = ([], [])"
    by (rule reads_child [OF assms(1) reads_account [OF assms] prod.collapse [symmetric]])
  have "ensure_empty T q = Inr ()" by (simp add: ensure_empty_iff [OF assms(1)] q)
  with q show ?thesis by (simp add: parse_fully_def account_readers_def)
qed

definition demo_account :: "mem_cell TlbAccount" where
  "demo_account = TlbAccount (AddrStd (-1) (replicate 32 5))
     \<lparr>si_used = \<lparr>su_cells = 3, su_bits = 100\<rparr>, si_storage_extra = StorageExtraNone, si_last_paid = 1000, si_due_payment = None\<rparr>
     \<lparr>as_last_trans_lt = 10, as_balance = \<lparr>cc_grams = 77, cc_other = []\<rparr>,
      as_account_state = AccountActive (Some (MemCell [True] [])) None\<rparr>"

definition demo_account_cell :: mem_cell where
  "demo_account_cell = MemCell
     ([True] @ addr_bits [False] (AddrStd (-1) (replicate 32 5))
      @ storage_info_bits mem_gb mem_vb
          \<lparr>si_used = \<lparr>su_cells = 3, su_bits = 100\<rparr>, si_storage_extra = StorageExtraNone, si_last_paid = 1000, si_due_payment = None\<rparr>
      @ word_bits (10 :: u64) @ (mem_gb 77 @ [False]) @ [True] @ [False] @ [False] @ [True] @ [False] @ [False])
     [MemCell [True] []]"

theorem account_is_read_witness:
  "parse_account (account_readers mem_toner mem_block) demo_account_cell
     = Inr (Account 77 (AccountActive (Some (MemCell [True] [])) None))"
proof -
  have bit: "reads (\<lambda>p. p) (\<lambda>p. bindr (unpack_bool mem_toner p) (\<lambda>(b, p). if b then Inl e else Inr ((), p))) [False] [] ()" for e :: string
    by (rule reads_bits_end [OF reads_bool [OF mem_parser_laws]]) (simp add: reads_return)
  have lib: "reads (\<lambda>p. p) (library_dict mem_block 256) [False] [] ()"
    using mem_empty_dict_reads by (fastforce simp: reads_def mem_block_def map_ok_eq_Inr)
  have cur: "reads (\<lambda>p. p) (parse_extra_currency_collection mem_block) [False] [] []"
    unfolding parse_extra_currency_collection_def [abs_def]
    by (rule reads_last) (use mem_empty_dict_reads in \<open>simp_all add: mem_block_def\<close>)
  have "account_at mem_toner mem_block (\<lambda>p. p) mem_gb mem_vb demo_account_cell demo_account"
    unfolding demo_account_def
  proof (rule account_at.account [where yb = "[False]" and fb = "mem_gb 77 @ [False]" and fr = "[]" and sr = "[MemCell [True] []]"
        and sb = "[True] @ [False] @ [False] @ [True] @ [False] @ [False]"])
    show "account_state_at mem_block (\<lambda>p. p) (as_account_state \<lparr>as_last_trans_lt = 10, as_balance = \<lparr>cc_grams = 77, cc_other = []\<rparr>,
        as_account_state = AccountActive (Some (MemCell [True] [])) None\<rparr>) ([True] @ [False] @ [False] @ [True] @ [False] @ [False])
        [MemCell [True] []]"
      using bit lib
      by (simp, intro exI [of _ None] exI [of _ "[False]"] exI [of _ "[]"]) (auto simp: opt_ref_def mem_block_def)
  qed (use bit cur in \<open>simp_all add: demo_account_cell_def mem_toner_def mem_block_def storage_info_ok_def storage_used_ok_def
         currency_at_def\<close>)
  from account_is_read [OF mem_parser_laws mem_amount_laws this] show ?thesis by (simp add: demo_account_def)
qed

end
