(* ===== verification/Tlb_Messages.thy ===== *)
theory Tlb_Messages
  imports Tlb_Account_Correct
begin

text \<open>
  Whole blocks (\<open>ton-liteserver-client/src/tlb/block.rs\<close> and \<open>block_extra.rs\<close>) with the messages that enter and
  leave them (\<open>in_msg.rs\<close>, \<open>out_msg.rs\<close>, \<open>msg_envelope.rs\<close>) and the accounts they change (\<open>account_block.rs\<close>).
  \<open>Message\<close> and the augmented dictionaries belong to \<open>toner\<close>: their readers are arguments.
\<close>

section \<open>Envelopes\<close>

datatype IntermediateAddress = IntermRegular nat | IntermSimple int u64 | IntermExt i32 u64

definition intermediate_address_tags :: "string list" where
  "intermediate_address_tags = [''0b0'', ''0b10'', ''0b11'']"

definition unpack_intermediate_address :: "('c, 'p, 'b) toner_lib \<Rightarrow> 'p \<Rightarrow> string + IntermediateAddress \<times> 'p" where
  "unpack_intermediate_address T p =
     bindr (exec_dispatch T ''IntermediateAddress'' (enum_dispatch intermediate_address_tags) p) (\<lambda>(i, p).
     if i = 0 then bindr (in_ctx T ''use_dest_bits'' (unpack_nbits T 7 p)) (\<lambda>(n, p). Inr (IntermRegular n, p))
     else
       bindr (in_ctx T ''workchain_id'' (unpack_int T (if i = 1 then 8 else 32) p)) (\<lambda>(wc, p).
       bindr (in_ctx T ''addr_pfx'' (unpack_uint T p)) (\<lambda>(pfx, p).
       Inr (if i = 1 then IntermSimple wc pfx else IntermExt wc pfx, p))))"

record MsgMetadata =
  md_depth :: u32
  md_initiator_addr :: MsgAddressInt
  md_initiator_lt :: u64

definition unpack_msg_metadata :: "('c, 'p, 'b) toner_lib \<Rightarrow> ('c, 'p) block_lib \<Rightarrow> 'p \<Rightarrow> string + MsgMetadata \<times> 'p" where
  "unpack_msg_metadata T B p =
     bindr (exec_tag_check T (''MsgMetadata'', 4, 0) p) (\<lambda>(_, p).
     bindr (in_ctx T ''depth'' (unpack_uint T p)) (\<lambda>(d, p).
     bindr (in_ctx T ''initiator_addr'' (unpack_msg_address_int T B p)) (\<lambda>(a, p).
     bindr (in_ctx T ''initiator_lt'' (unpack_uint T p)) (\<lambda>(lt, p).
     Inr (\<lparr>md_depth = d, md_initiator_addr = a, md_initiator_lt = lt\<rparr>, p)))))"

datatype 'm MsgEnvelope =
    EnvelopeV1 IntermediateAddress IntermediateAddress nat 'm
  | EnvelopeV2 IntermediateAddress IntermediateAddress nat 'm "u64 option" "MsgMetadata option"

definition msg_envelope_tags :: "string list" where
  "msg_envelope_tags = [''0x4'', ''0x5'']"

definition parse_msg_envelope :: "('c, 'p, 'b) toner_lib \<Rightarrow> ('c, 'p) block_lib \<Rightarrow> ('p \<Rightarrow> string + 'm \<times> 'p) \<Rightarrow> 'p
    \<Rightarrow> string + 'm MsgEnvelope \<times> 'p" where
  "parse_msg_envelope T B rm p =
     bindr (exec_dispatch T ''MsgEnvelope'' (enum_dispatch msg_envelope_tags) p) (\<lambda>(i, p).
     bindr (in_ctx T ''cur_addr'' (unpack_intermediate_address T p)) (\<lambda>(cur, p).
     bindr (in_ctx T ''next_addr'' (unpack_intermediate_address T p)) (\<lambda>(nxt, p).
     bindr (in_ctx T ''fwd_fee_remaining'' (unpack_grams B p)) (\<lambda>(fee, p).
     bindr (in_ctx T ''msg'' (parse_as_ref T (fully T rm) p)) (\<lambda>(m, p).
     if i = 0 then Inr (EnvelopeV1 cur nxt fee m, p)
     else
       bindr (in_ctx T ''emitted_lt'' (parse_maybe T (unpack_uint T) p)) (\<lambda>(lt, p).
       bindr (in_ctx T ''metadata'' (parse_maybe T (unpack_msg_metadata T B) p)) (\<lambda>(md, p).
       Inr (EnvelopeV2 cur nxt fee m lt md, p))))))))"

section \<open>Messages of a block\<close>

datatype ('c, 'm) InMsg =
    ImportExt 'm "'c TlbTx"
  | ImportIhr 'm "'c TlbTx" nat 'c
  | ImportImm "'m MsgEnvelope" "'c TlbTx" nat
  | ImportFin "'m MsgEnvelope" "'c TlbTx" nat
  | ImportTr "'m MsgEnvelope" "'m MsgEnvelope" nat
  | DiscardFin "'m MsgEnvelope" u64 nat
  | DiscardTr "'m MsgEnvelope" u64 nat 'c
  | ImportDeferredFin "'m MsgEnvelope" "'c TlbTx" nat
  | ImportDeferredTr "'m MsgEnvelope" "'m MsgEnvelope"

definition in_msg_tags :: "string list" where
  "in_msg_tags = [''0b000'', ''0b010'', ''0b011'', ''0b100'', ''0b101'', ''0b110'', ''0b111'', ''0b00100'', ''0b00101'']"

text \<open>
  The fields of the variants: \<open>Ref<ParseFully>\<close> of an envelope, a transaction, a message or a cell, which \<open>Cell\<close> takes
  whole.
\<close>

definition ref_fully :: "('c, 'p, 'b) toner_lib \<Rightarrow> string \<Rightarrow> ('p \<Rightarrow> string + 'v \<times> 'p) \<Rightarrow> 'p \<Rightarrow> string + 'v \<times> 'p" where
  "ref_fully T name rd p = in_ctx T name (parse_as_ref T (fully T rd) p)"

definition parse_in_msg :: "nat \<Rightarrow> ('c, 'p, 'b) toner_lib \<Rightarrow> ('c, 'p) block_lib \<Rightarrow> ('p \<Rightarrow> string + 'm \<times> 'p) \<Rightarrow> 'p
    \<Rightarrow> string + ('c, 'm) InMsg \<times> 'p" where
  "parse_in_msg fuel T B rm p =
     (let env = parse_msg_envelope T B rm; rtx = parse_tlb_transaction fuel T B in
     bindr (exec_dispatch T ''InMsg'' (enum_dispatch in_msg_tags) p) (\<lambda>(i, p).
     if i = 0 then
       bindr (ref_fully T ''msg'' rm p) (\<lambda>(m, p).
       bindr (ref_fully T ''transaction'' rtx p) (\<lambda>(tx, p). Inr (ImportExt m tx, p)))
     else if i = 1 then
       bindr (ref_fully T ''msg'' rm p) (\<lambda>(m, p).
       bindr (ref_fully T ''transaction'' rtx p) (\<lambda>(tx, p).
       bindr (in_ctx T ''ihr_fee'' (unpack_grams B p)) (\<lambda>(fee, p).
       bindr (ref_fully T ''proof_created'' (parse_cell B) p) (\<lambda>(c, p). Inr (ImportIhr m tx fee c, p)))))
     else
       bindr (ref_fully T ''in_msg'' env p) (\<lambda>(e, p).
       if i = 2 \<or> i = 3 \<or> i = 7 then
         bindr (ref_fully T ''transaction'' rtx p) (\<lambda>(tx, p).
         bindr (in_ctx T ''fwd_fee'' (unpack_grams B p)) (\<lambda>(fee, p).
         Inr (if i = 2 then ImportImm e tx fee else if i = 3 then ImportFin e tx fee else ImportDeferredFin e tx fee, p)))
       else if i = 4 then
         bindr (ref_fully T ''out_msg'' env p) (\<lambda>(e', p).
         bindr (in_ctx T ''transit_fee'' (unpack_grams B p)) (\<lambda>(fee, p). Inr (ImportTr e e' fee, p)))
       else if i = 8 then
         bindr (ref_fully T ''out_msg'' env p) (\<lambda>(e', p). Inr (ImportDeferredTr e e', p))
       else
         bindr (in_ctx T ''transaction_id'' (unpack_uint T p)) (\<lambda>(tid, p).
         bindr (in_ctx T ''fwd_fee'' (unpack_grams B p)) (\<lambda>(fee, p).
         if i = 5 then Inr (DiscardFin e tid fee, p)
         else bindr (ref_fully T ''proof_delivered'' (parse_cell B) p) (\<lambda>(c, p). Inr (DiscardTr e tid fee c, p)))))))"

datatype ('c, 'm) OutMsg =
    ExportExt 'm "'c TlbTx"
  | ExportImm "'m MsgEnvelope" "'c TlbTx" "('c, 'm) InMsg"
  | ExportNew "'m MsgEnvelope" "'c TlbTx"
  | ExportTr "'m MsgEnvelope" "('c, 'm) InMsg"
  | ExportDeq "'m MsgEnvelope" nat
  | ExportDeqShort bytes i32 u64 u64
  | ExportTrReq "'m MsgEnvelope" "('c, 'm) InMsg"
  | ExportDeqImm "'m MsgEnvelope" "('c, 'm) InMsg"
  | ExportNewDefer "'m MsgEnvelope" "'c TlbTx"
  | ExportDeferredTr "'m MsgEnvelope" "('c, 'm) InMsg"

definition out_msg_tags :: "string list" where
  "out_msg_tags =
     [''0b000'', ''0b010'', ''0b001'', ''0b011'', ''0b1100'', ''0b1101'', ''0b111'', ''0b100'', ''0b10100'', ''0b10101'']"

definition parse_out_msg :: "nat \<Rightarrow> ('c, 'p, 'b) toner_lib \<Rightarrow> ('c, 'p) block_lib \<Rightarrow> ('p \<Rightarrow> string + 'm \<times> 'p) \<Rightarrow> 'p
    \<Rightarrow> string + ('c, 'm) OutMsg \<times> 'p" where
  "parse_out_msg fuel T B rm p =
     (let rtx = parse_tlb_transaction fuel T B; rin = parse_in_msg fuel T B rm in
     bindr (exec_dispatch T ''OutMsg'' (enum_dispatch out_msg_tags) p) (\<lambda>(i, p).
     if i = 0 then
       bindr (ref_fully T ''msg'' rm p) (\<lambda>(m, p).
       bindr (ref_fully T ''transaction'' rtx p) (\<lambda>(tx, p). Inr (ExportExt m tx, p)))
     else if i = 5 then
       bindr (in_ctx T ''msg_env_hash'' (unpack_bytes T 32 p)) (\<lambda>(h, p).
       bindr (in_ctx T ''next_workchain'' (unpack_int T 32 p)) (\<lambda>(wc, p).
       bindr (in_ctx T ''next_addr_pfx'' (unpack_uint T p)) (\<lambda>(pfx, p).
       bindr (in_ctx T ''import_block_lt'' (unpack_uint T p)) (\<lambda>(lt, p). Inr (ExportDeqShort h wc pfx lt, p)))))
     else
       bindr (ref_fully T ''out_msg'' (parse_msg_envelope T B rm) p) (\<lambda>(e, p).
       if i = 1 then
         bindr (ref_fully T ''transaction'' rtx p) (\<lambda>(tx, p).
         bindr (ref_fully T ''reimport'' rin p) (\<lambda>(m, p). Inr (ExportImm e tx m, p)))
       else if i = 2 \<or> i = 8 then
         bindr (ref_fully T ''transaction'' rtx p) (\<lambda>(tx, p). Inr (if i = 2 then ExportNew e tx else ExportNewDefer e tx, p))
       else if i = 4 then
         bindr (in_ctx T ''import_block_lt'' (unpack_nbits T 63 p)) (\<lambda>(lt, p). Inr (ExportDeq e lt, p))
       else if i = 7 then
         bindr (ref_fully T ''reimport'' rin p) (\<lambda>(m, p). Inr (ExportDeqImm e m, p))
       else
         bindr (ref_fully T ''imported'' rin p) (\<lambda>(m, p).
         Inr (if i = 3 then ExportTr e m else if i = 6 then ExportTrReq e m else ExportDeferredTr e m, p)))))"

record ImportFees =
  if_fees_collected :: nat
  if_value_imported :: CurrencyCollection

definition parse_import_fees :: "('c, 'p, 'b) toner_lib \<Rightarrow> ('c, 'p) block_lib \<Rightarrow> 'p \<Rightarrow> string + ImportFees \<times> 'p" where
  "parse_import_fees T B p =
     bindr (in_ctx T ''fees_collected'' (unpack_grams B p)) (\<lambda>(g, p).
     bindr (in_ctx T ''value_imported'' (parse_currency_collection T B p)) (\<lambda>(v, p).
     Inr (\<lparr>if_fees_collected = g, if_value_imported = v\<rparr>, p)))"

section \<open>Accounts changed in a block\<close>

text \<open>
  The augmented dictionaries of \<open>toner\<close>, with the reader of a leaf and of an extra: the entries under their keys with
  their extras, and for \<open>HashmapAugE\<close> the extra of the root.
\<close>

type_synonym ('v, 'e) aug_entries = "(bool list \<times> 'v \<times> 'e) list"

type_synonym ('v, 'e, 'p) aug_dict =
  "nat \<Rightarrow> ('p \<Rightarrow> string + 'v \<times> 'p) \<Rightarrow> ('p \<Rightarrow> string + 'e \<times> 'p) \<Rightarrow> 'p \<Rightarrow> string + ('v, 'e) aug_entries \<times> 'p"

type_synonym ('v, 'e, 'p) aug_dict_e =
  "nat \<Rightarrow> ('p \<Rightarrow> string + 'v \<times> 'p) \<Rightarrow> ('p \<Rightarrow> string + 'e \<times> 'p) \<Rightarrow> 'p \<Rightarrow> string + (('v, 'e) aug_entries \<times> 'e) \<times> 'p"

record 'c AccountBlock =
  ab_account_addr :: bytes
  ab_transaction :: "('c TlbTx, CurrencyCollection) aug_entries"
  ab_state_update :: HashUpdate

definition parse_account_block :: "nat \<Rightarrow> ('c, 'p, 'b) toner_lib \<Rightarrow> ('c, 'p) block_lib
    \<Rightarrow> ('c TlbTx, CurrencyCollection, 'p) aug_dict \<Rightarrow> 'p \<Rightarrow> string + 'c AccountBlock \<times> 'p" where
  "parse_account_block fuel T B txd p =
     bindr (exec_tag_check T (''AccountBlock'', 4, 5) p) (\<lambda>(_, p).
     bindr (in_ctx T ''account_addr'' (unpack_bytes T 32 p)) (\<lambda>(a, p).
     bindr (in_ctx T ''transaction''
       (txd 64 (parse_as_ref T (parse_tlb_transaction fuel T B)) (parse_currency_collection T B) p)) (\<lambda>(txs, p).
     bindr (in_ctx T ''state_update'' (parse_as_ref T (unpack_hash_update T) p)) (\<lambda>(u, p).
     Inr (\<lparr>ab_account_addr = a, ab_transaction = txs, ab_state_update = u\<rparr>, p)))))"

section \<open>Blocks\<close>

text \<open>The dictionaries of a block, one for each pair of values and extras.\<close>

record ('c, 'p, 'm) block_dicts =
  in_msg_dict :: "(('c, 'm) InMsg, ImportFees, 'p) aug_dict_e"
  out_msg_dict :: "(('c, 'm) OutMsg, CurrencyCollection, 'p) aug_dict_e"
  account_block_dict :: "('c AccountBlock, CurrencyCollection, 'p) aug_dict_e"
  tx_dict :: "('c TlbTx, CurrencyCollection, 'p) aug_dict"

type_synonym ('c, 'm) InMsgDescr = "(('c, 'm) InMsg, ImportFees) aug_entries \<times> ImportFees"
type_synonym ('c, 'm) OutMsgDescr = "(('c, 'm) OutMsg, CurrencyCollection) aug_entries \<times> CurrencyCollection"
type_synonym 'c ShardAccountBlocks = "('c AccountBlock, CurrencyCollection) aug_entries \<times> CurrencyCollection"

definition parse_in_msg_descr :: "nat \<Rightarrow> ('c, 'p, 'b) toner_lib \<Rightarrow> ('c, 'p) block_lib \<Rightarrow> ('c, 'p, 'm) block_dicts
    \<Rightarrow> ('p \<Rightarrow> string + 'm \<times> 'p) \<Rightarrow> 'p \<Rightarrow> string + ('c, 'm) InMsgDescr \<times> 'p" where
  "parse_in_msg_descr fuel T B E rm p =
     in_ctx T ''0'' (in_msg_dict E 256 (parse_in_msg fuel T B rm) (parse_import_fees T B) p)"

definition parse_out_msg_descr :: "nat \<Rightarrow> ('c, 'p, 'b) toner_lib \<Rightarrow> ('c, 'p) block_lib \<Rightarrow> ('c, 'p, 'm) block_dicts
    \<Rightarrow> ('p \<Rightarrow> string + 'm \<times> 'p) \<Rightarrow> 'p \<Rightarrow> string + ('c, 'm) OutMsgDescr \<times> 'p" where
  "parse_out_msg_descr fuel T B E rm p =
     in_ctx T ''0'' (out_msg_dict E 256 (parse_out_msg fuel T B rm) (parse_currency_collection T B) p)"

definition parse_shard_account_blocks :: "nat \<Rightarrow> ('c, 'p, 'b) toner_lib \<Rightarrow> ('c, 'p) block_lib \<Rightarrow> ('c, 'p, 'm) block_dicts
    \<Rightarrow> 'p \<Rightarrow> string + 'c ShardAccountBlocks \<times> 'p" where
  "parse_shard_account_blocks fuel T B E p =
     in_ctx T ''0'' (account_block_dict E 256 (parse_account_block fuel T B (tx_dict E)) (parse_currency_collection T B) p)"

record ('c, 'm) BlockExtra =
  be_in_msg_descr :: "('c, 'm) InMsgDescr"
  be_out_msg_descr :: "('c, 'm) OutMsgDescr"
  be_account_blocks :: "'c ShardAccountBlocks"
  be_rand_seed :: bytes
  be_created_by :: bytes
  be_custom :: "'c option"

definition parse_block_extra :: "nat \<Rightarrow> ('c, 'p, 'b) toner_lib \<Rightarrow> ('c, 'p) block_lib \<Rightarrow> ('c, 'p, 'm) block_dicts
    \<Rightarrow> ('p \<Rightarrow> string + 'm \<times> 'p) \<Rightarrow> 'p \<Rightarrow> string + ('c, 'm) BlockExtra \<times> 'p" where
  "parse_block_extra fuel T B E rm p =
     bindr (exec_tag_check T (''BlockExtra'', 32, 0x4a33f6fd) p) (\<lambda>(_, p).
     bindr (ref_fully T ''in_msg_descr'' (parse_in_msg_descr fuel T B E rm) p) (\<lambda>(ins, p).
     bindr (ref_fully T ''out_msg_descr'' (parse_out_msg_descr fuel T B E rm) p) (\<lambda>(outs, p).
     bindr (ref_fully T ''account_blocks'' (parse_shard_account_blocks fuel T B E) p) (\<lambda>(accs, p).
     bindr (in_ctx T ''rand_seed'' (unpack_bytes T 32 p)) (\<lambda>(seed, p).
     bindr (in_ctx T ''created_by'' (unpack_bytes T 32 p)) (\<lambda>(creator, p).
     bindr (in_ctx T ''custom'' (parse_maybe T (parse_as_ref T (fully T (parse_cell B))) p)) (\<lambda>(cu, p).
     Inr (\<lparr>be_in_msg_descr = ins, be_out_msg_descr = outs, be_account_blocks = accs, be_rand_seed = seed,
       be_created_by = creator, be_custom = cu\<rparr>, p))))))))"

record ('c, 'm) TlbBlock =
  tb_global_id :: i32
  tb_info :: BlockInfo
  tb_value_flow :: 'c
  tb_state_update :: "'c MerkleUpdate"
  tb_extra :: "('c, 'm) BlockExtra"

text \<open>The context of a field names an error; a panic passes through it.\<close>

definition fail_ctx :: "('c, 'p, 'b) toner_lib \<Rightarrow> string \<Rightarrow> read_fail + 'a \<Rightarrow> read_fail + 'a" where
  "fail_ctx T ctx = map_err (\<lambda>e. case e of ReadError m \<Rightarrow> ReadError (in_context T ctx m) | ReadPanic m \<Rightarrow> ReadPanic m)"

definition parse_tlb_block :: "nat \<Rightarrow> ('c, 'p, 'b) toner_lib \<Rightarrow> ('c, 'p) block_lib \<Rightarrow> ('c, 'p, 'm) block_dicts
    \<Rightarrow> ('p \<Rightarrow> string + 'm \<times> 'p) \<Rightarrow> 'p \<Rightarrow> read_fail + ('c, 'm) TlbBlock \<times> 'p" where
  "parse_tlb_block fuel T B E rm p =
     bindr (lift_read (exec_tag_check T (''Block'', 32, 0x11ef55aa) p)) (\<lambda>(_, p).
     bindr (lift_read (in_ctx T ''global_id'' (unpack_int T 32 p))) (\<lambda>(g, p).
     bindr (fail_ctx T ''info'' (ref_as T (fully_as T (parse_block_info T)) p)) (\<lambda>(info, p).
     bindr (lift_read (ref_fully T ''value_flow'' (parse_cell B) p)) (\<lambda>(flow, p).
     bindr (fail_ctx T ''state_update''
       (ref_as T (fully_as T (parse_merkle_update T B (\<lambda>p. lift_read (parse_cell B p)))) p)) (\<lambda>(u, p).
     bindr (lift_read (ref_fully T ''extra'' (parse_block_extra fuel T B E rm) p)) (\<lambda>(ex, p).
     Inr (\<lparr>tb_global_id = g, tb_info = info, tb_value_flow = flow, tb_state_update = u, tb_extra = ex\<rparr>, p)))))))"

section \<open>Tags\<close>

text \<open>The enums of messages have prefix-free tags, so one variant at most fits a cell.\<close>

lemma message_tags_bits:
  "tags_bits intermediate_address_tags = map bin [''0'', ''10'', ''11'']"
  "tags_bits msg_envelope_tags = map bin [''0100'', ''0101'']"
  "tags_bits in_msg_tags = map bin [''000'', ''010'', ''011'', ''100'', ''101'', ''110'', ''111'', ''00100'', ''00101'']"
  "tags_bits out_msg_tags =
     map bin [''000'', ''010'', ''001'', ''011'', ''1100'', ''1101'', ''111'', ''100'', ''10100'', ''10101'']"
  by code_simp+

lemma message_tags_prefix_free:
  "prefix_free (tags_bits intermediate_address_tags)"
  "prefix_free (tags_bits msg_envelope_tags)"
  "prefix_free (tags_bits in_msg_tags)"
  "prefix_free (tags_bits out_msg_tags)"
  unfolding message_tags_bits by code_simp+

lemma message_tags_ok:
  "enum_tags_ok intermediate_address_tags"
  "enum_tags_ok msg_envelope_tags"
  "enum_tags_ok in_msg_tags"
  "enum_tags_ok out_msg_tags"
  using message_tags_prefix_free
  by (simp_all add: enum_tags_ok_def message_tags_bits bin_def tree_of_def tag_tree_new_def or_new_def)
    (simp_all add: intermediate_address_tags_def msg_envelope_tags_def in_msg_tags_def out_msg_tags_def)

section \<open>State updates\<close>

lemma check_level_hash_Inr: "check_level_hash B side c h d = Inr u \<longleftrightarrow> level_hash B c = (d, h)"
  by (cases "level_hash B c") (auto simp: check_level_hash_def)

text \<open>An accepted Merkle update names the hash and the depth of both of its cells.\<close>

lemma parse_merkle_update_Inr:
  assumes "parse_merkle_update T B rx p = Inr (u, p')"
  obtains c c' where "level_hash B c = (mu_old_depth u, mu_old_hash u)" "level_hash B c' = (mu_new_depth u, mu_new_hash u)"
    "cell_parse_fully T rx c = Inr (mu_old u)" "cell_parse_fully T rx c' = Inr (mu_new u)" "ensure_empty T p' = Inr ()"
  using assms
  by (clarsimp simp: parse_merkle_update_def bindr_eq_Inr map_err_eq_Inr check_level_hash_Inr split: if_splits)

lemma fail_ctx_Inr: "fail_ctx T ctx r = Inr v \<longleftrightarrow> r = Inr v"
  by (simp add: fail_ctx_def map_err_eq_Inr)

lemma ref_fully_as_Inr:
  "ref_as T (fully_as T rd) p = Inr (v, p') \<Longrightarrow> \<exists>c q. rd (cell_parser T c) = Inr (v, q) \<and> ensure_empty T q = Inr ()"
  by (auto simp: ref_as_def fully_as_def bindr_eq_Inr map_err_eq_Inr)

text \<open>
  A block that is read has well-formed information, and a state update that is bound by hash to the states before
  and after it.
\<close>

lemma parse_tlb_block_sound:
  assumes T: "parser_laws T pv" and r: "parse_tlb_block fuel T B E rm p = Inr (b, p')"
  shows "block_info_ok (tb_info b) \<and> (\<exists>c c'.
      level_hash B c = (mu_old_depth (tb_state_update b), mu_old_hash (tb_state_update b))
    \<and> level_hash B c' = (mu_new_depth (tb_state_update b), mu_new_hash (tb_state_update b)))"
proof -
  from r obtain p1 p2 p3 p4 where i: "ref_as T (fully_as T (parse_block_info T)) p1 = Inr (tb_info b, p2)"
    and u: "ref_as T (fully_as T (parse_merkle_update T B (\<lambda>p. lift_read (parse_cell B p)))) p3 = Inr (tb_state_update b, p4)"
    by (clarsimp simp: parse_tlb_block_def bindr_eq_Inr map_err_eq_Inr fail_ctx_Inr)
  from ref_fully_as_Inr [OF i] have ok: "block_info_ok (tb_info b)" by (auto dest: parse_block_info_ok [OF T])
  from ref_fully_as_Inr [OF u] obtain c q where
    "parse_merkle_update T B (\<lambda>p. lift_read (parse_cell B p)) (cell_parser T c) = Inr (tb_state_update b, q)" by blast
  then show ?thesis by (rule parse_merkle_update_Inr) (use ok in blast)
qed

text \<open>A block whose information is tagged otherwise panics, as a header does.\<close>

lemma parse_tlb_block_panics:
  assumes "ref_as T (fully_as T (parse_block_info T)) p2 = Inl (ReadPanic m)"
    and "exec_tag_check T (''Block'', 32, 0x11ef55aa) p = Inr ((), p1)" and "unpack_int T 32 p1 = Inr (g, p2)"
  shows "parse_tlb_block fuel T B E rm p = Inl (ReadPanic m)"
  using assms by (simp add: parse_tlb_block_def fail_ctx_def in_ctx_def)

section \<open>Writers\<close>

definition pack_uint :: "('c, 'p, 'b) toner_lib \<Rightarrow> ('a :: len) word \<Rightarrow> 'b \<Rightarrow> string + 'b" where
  "pack_uint T w b = pack_nbits T LENGTH('a) (unat w) b"

fun pack_bytes :: "('c, 'p, 'b) toner_lib \<Rightarrow> bytes \<Rightarrow> 'b \<Rightarrow> string + 'b" where
  "pack_bytes T [] b = Inr b"
| "pack_bytes T (x # xs) b = bindr (pack_uint T x b) (pack_bytes T xs)"

definition writes :: "('b \<Rightarrow> 'c view) \<Rightarrow> ('b \<Rightarrow> string + 'b) \<Rightarrow> bool list \<Rightarrow> 'c list \<Rightarrow> bool" where
  "writes bv wr bs rs \<longleftrightarrow> (\<forall>b b'. wr b = Inr b' \<longrightarrow> bv b' = (fst (bv b) @ bs, snd (bv b) @ rs))"

lemma writes_return: "writes bv Inr [] []"
  by (simp add: writes_def)

lemma writes_bind:
  "writes bv wr bs rs \<Longrightarrow> writes bv wr' bs' rs' \<Longrightarrow> writes bv (\<lambda>b. bindr (wr b) wr') (bs @ bs') (rs @ rs')"
  by (fastforce simp: writes_def bindr_eq_Inr)

lemma writes_in_ctx: "writes bv (\<lambda>b. in_ctx T ctx (wr b)) bs rs \<longleftrightarrow> writes bv wr bs rs"
  by (simp add: writes_def in_ctx_Inr)

lemma writes_uint:
  assumes "toner_laws T pv bv"
  shows "writes bv (pack_uint T w) (word_bits w) []"
  using pack_nbits_view [OF assms, of "unat w"] unsigned_less [of w]
  by (simp add: writes_def pack_uint_def word_bits_def)

lemma writes_bytes:
  assumes T: "toner_laws T pv bv"
  shows "writes bv (pack_bytes T xs) (hash_bits xs) []"
proof (induction xs)
  case (Cons x xs)
  from writes_bind [OF writes_uint [OF T, of x] this] show ?case by (simp add: hash_bits_def)
qed (simp add: writes_def hash_bits_def)

lemma writes_to_cell:
  assumes T: "toner_laws T pv bv" and "writes bv wr bs rs" and "to_cell T wr = Inr c"
  shows "pv (cell_parser T c) = (bs, rs)"
  using assms(2,3) by (auto simp: writes_def to_cell_def map_ok_eq_Inr into_cell_view [OF T] builder_view [OF T])

text \<open>\<open>BitPack\<close> of block references, which is derived, and of shard identifiers, with the tag in front.\<close>

definition pack_ext_blk_ref :: "('c, 'p, 'b) toner_lib \<Rightarrow> ExtBlkRef \<Rightarrow> 'b \<Rightarrow> string + 'b" where
  "pack_ext_blk_ref T r b =
     bindr (in_ctx T ''end_lt'' (pack_uint T (ref_end_lt r) b)) (\<lambda>b.
     bindr (in_ctx T ''seq_no'' (pack_uint T (ref_seq_no r) b)) (\<lambda>b.
     bindr (in_ctx T ''root_hash'' (pack_bytes T (ref_root_hash r) b)) (\<lambda>b.
       in_ctx T ''file_hash'' (pack_bytes T (ref_file_hash r) b))))"

definition pack_shard_ident :: "('c, 'p, 'b) toner_lib \<Rightarrow> ShardIdent \<Rightarrow> 'b \<Rightarrow> string + 'b" where
  "pack_shard_ident T s b =
     bindr (pack_nbits T 2 0 b) (\<lambda>b.
     bindr (in_ctx T ''shard_pfx_bits'' (pack_nbits T 6 (shard_pfx_bits s) b)) (\<lambda>b.
     bindr (in_ctx T ''workchain_id'' (pack_int T 32 (ident_workchain s) b)) (\<lambda>b.
       in_ctx T ''shard_prefix'' (pack_uint T (shard_prefix s) b))))"

record TlbBlockIdExt =
  tbi_shard_id :: ShardIdent
  tbi_seq_no :: u32
  tbi_root_hash :: bytes
  tbi_file_hash :: bytes

definition unpack_block_id_ext :: "('c, 'p, 'b) toner_lib \<Rightarrow> 'p \<Rightarrow> string + TlbBlockIdExt \<times> 'p" where
  "unpack_block_id_ext T p =
     bindr (in_ctx T ''shard_id'' (unpack_shard_ident T p)) (\<lambda>(s, p).
     bindr (in_ctx T ''seq_no'' (unpack_uint T p)) (\<lambda>(n, p).
     bindr (in_ctx T ''root_hash'' (unpack_bytes T 32 p)) (\<lambda>(r, p).
     bindr (in_ctx T ''file_hash'' (unpack_bytes T 32 p)) (\<lambda>(f, p).
       Inr (\<lparr>tbi_shard_id = s, tbi_seq_no = n, tbi_root_hash = r, tbi_file_hash = f\<rparr>, p)))))"

lemma writes_nat: "toner_laws T pv bv \<Longrightarrow> v < 2 ^ n \<Longrightarrow> writes bv (pack_nbits T n v) (nat_bits n v) []"
  using pack_nbits_view by (fastforce simp: writes_def)

lemma writes_i32: "toner_laws T pv bv \<Longrightarrow> i32_range i \<Longrightarrow> writes bv (pack_int T 32 i) (int_bits 32 i) []"
  by (auto simp: writes_def toner_laws_def builder_laws_def int_bits_def i32_range_def)

text \<open>What is written of a reference or an identifier is its layout, so the readers give it back.\<close>

lemma codec_writes: "writes bv wr bs rs \<Longrightarrow> reads pv rd bs rs v \<Longrightarrow> codec pv bv rd wr v"
  by (auto simp: writes_def codec_def)

lemma ext_blk_ref_roundtrip:
  assumes T: "toner_laws T pv bv" and ok: "ext_blk_ref_ok r"
  shows "codec pv bv (unpack_ext_blk_ref T) (pack_ext_blk_ref T r) r"
proof (rule codec_writes)
  show "reads pv (unpack_ext_blk_ref T) (ext_blk_ref_bits r) [] r"
    using T ok by (intro reads_ext_blk_ref) (simp_all add: toner_laws_def)
  have "writes bv (\<lambda>b. bindr (in_ctx T ''end_lt'' (pack_uint T (ref_end_lt r) b)) (\<lambda>b.
     bindr (in_ctx T ''seq_no'' (pack_uint T (ref_seq_no r) b)) (\<lambda>b.
     bindr (in_ctx T ''root_hash'' (pack_bytes T (ref_root_hash r) b)) (\<lambda>b.
       in_ctx T ''file_hash'' (pack_bytes T (ref_file_hash r) b)))))
     (word_bits (ref_end_lt r) @ word_bits (ref_seq_no r) @ hash_bits (ref_root_hash r) @ hash_bits (ref_file_hash r))
     ([] @ [] @ [] @ [])"
    by (intro writes_bind) (simp_all add: writes_in_ctx writes_uint [OF T] writes_bytes [OF T])
  then show "writes bv (pack_ext_blk_ref T r) (ext_blk_ref_bits r) []"
    by (simp add: pack_ext_blk_ref_def [abs_def] ext_blk_ref_bits_def)
qed

lemma shard_ident_roundtrip:
  assumes T: "toner_laws T pv bv" and ok: "shard_ident_ok s"
  shows "codec pv bv (unpack_shard_ident T) (pack_shard_ident T s) s"
proof (rule codec_writes)
  show "reads pv (unpack_shard_ident T) (shard_ident_bits s) [] s"
    using T ok by (intro reads_shard_ident) (simp_all add: toner_laws_def)
  have "writes bv (\<lambda>b. bindr (pack_nbits T 2 0 b) (\<lambda>b.
     bindr (in_ctx T ''shard_pfx_bits'' (pack_nbits T 6 (shard_pfx_bits s) b)) (\<lambda>b.
     bindr (in_ctx T ''workchain_id'' (pack_int T 32 (ident_workchain s) b)) (\<lambda>b.
       in_ctx T ''shard_prefix'' (pack_uint T (shard_prefix s) b)))))
     (nat_bits 2 0 @ nat_bits 6 (shard_pfx_bits s) @ int_bits 32 (ident_workchain s) @ word_bits (shard_prefix s))
     ([] @ [] @ [] @ [])"
    using ok by (intro writes_bind) (simp_all add: writes_in_ctx writes_uint [OF T] writes_nat [OF T] writes_i32 [OF T] shard_ident_ok_def)
  then show "writes bv (pack_shard_ident T s) (shard_ident_bits s) []"
    by (simp add: pack_shard_ident_def [abs_def] shard_ident_bits_def)
qed

end
