(* ===== verification/Ton_Contract.thy ===== *)
theory Ton_Contract
  imports Tlb_Messages
begin

text \<open>
  Contracts (\<open>ton-contract/src\<close>): stack entries as values (\<open>adapters.rs\<close>), get methods (\<open>contract.rs\<close>), wallets and
  jetton wallets (\<open>wallet/mod.rs\<close>, \<open>jetton.rs\<close>), and the messages of a wallet of version 3 revision 2
  (\<open>wallet/v3r2.rs\<close>). \<open>MsgAddress\<close>, \<open>SendMsgAction\<close>, \<open>BoC\<close> and \<open>BigUint\<close> are of other crates and arguments.
\<close>

section \<open>Errors and numbers\<close>

datatype TonContractError =
    ContractExit i32
  | InvalidStack
  | TLB string
  | Base64Error
  | ParseNumber string
  | ClientError anyhow

text \<open>
  \<open>u32::from_str\<close>: an optional plus, then digits, each step checked for overflow. \<open>err.to_string()\<close> of its
  error.
\<close>

fun parse_digits_u32 :: "nat \<Rightarrow> string \<Rightarrow> int_error_kind + nat" where
  "parse_digits_u32 acc [] = Inr acc"
| "parse_digits_u32 acc (c # cs) =
     (case digit_val c of
        None \<Rightarrow> Inl InvalidDigit
      | Some d \<Rightarrow>
          if acc * 10 \<ge> 2 ^ 32 then Inl PosOverflow
          else if acc * 10 + d \<ge> 2 ^ 32 then Inl PosOverflow
          else parse_digits_u32 (acc * 10 + d) cs)"

definition from_str_u32 :: "string \<Rightarrow> int_error_kind + u32" where
  "from_str_u32 s =
     map_ok word_of_nat
       (case s of
          [] \<Rightarrow> Inl EmptyInt
        | c # cs \<Rightarrow>
            if (c = CHR ''+'' \<or> c = CHR ''-'') \<and> cs = [] then Inl InvalidDigit
            else if c = CHR ''+'' then parse_digits_u32 0 cs
            else parse_digits_u32 0 s)"

fun int_error_text :: "int_error_kind \<Rightarrow> string" where
  "int_error_text EmptyInt = ''cannot parse integer from empty string''"
| "int_error_text InvalidDigit = ''invalid digit found in string''"
| "int_error_text PosOverflow = ''number too large to fit in target type''"
| "int_error_text NegOverflow = ''number too small to fit in target type''"

section \<open>Stack entries\<close>

text \<open>
  \<open>pack_boc\<close> is \<open>pack\<close> of a bag of cells without index and checksum; it belongs to \<open>toner\<close>, and what it packs
  unpacks again.
\<close>

definition pack_boc_laws :: "'c cell_lib \<Rightarrow> ('c list \<Rightarrow> string + bytes) \<Rightarrow> bool" where
  "pack_boc_laws L pack_boc \<longleftrightarrow> (\<forall>roots bs. pack_boc roots = Inr bs \<longrightarrow> boc_unpack L bs = Inr roots)"

definition entry_to_boc :: "'c cell_lib \<Rightarrow> StackEntry \<Rightarrow> TonContractError + 'c list" where
  "entry_to_boc L e =
     bindr (case e of StackSlice bs \<Rightarrow> Inr bs | StackCell bs \<Rightarrow> Inr bs | _ \<Rightarrow> Inl InvalidStack) (\<lambda>text.
     bindr (ok_or Base64Error (b64_standard_decode L text)) (\<lambda>bs.
       map_err TLB (boc_unpack L bs)))"

definition entry_to_cell :: "'c cell_lib \<Rightarrow> StackEntry \<Rightarrow> TonContractError + 'c" where
  "entry_to_cell L e = bindr (entry_to_boc L e) (\<lambda>boc. ok_or (TLB ''single root'') (single_root boc))"

definition parse_cell_fully :: "('c, 'p, 'b) toner_lib \<Rightarrow> 'c cell_lib \<Rightarrow> ('p \<Rightarrow> string + 'v \<times> 'p) \<Rightarrow> StackEntry
    \<Rightarrow> TonContractError + 'v" where
  "parse_cell_fully T L rd e = bindr (entry_to_cell L e) (\<lambda>c. map_err TLB (parse_fully T rd c))"

definition entry_from_boc :: "'c cell_lib \<Rightarrow> ('c list \<Rightarrow> string + bytes) \<Rightarrow> 'c list \<Rightarrow> TonContractError + StackEntry" where
  "entry_from_boc L pack_boc boc =
     bindr (map_err TLB (pack_boc boc)) (\<lambda>bs. Inr (StackSlice (b64_standard_encode L bs)))"

definition entry_from_cell :: "'c cell_lib \<Rightarrow> ('c list \<Rightarrow> string + bytes) \<Rightarrow> 'c \<Rightarrow> TonContractError + StackEntry" where
  "entry_from_cell L pack_boc c = entry_from_boc L pack_boc [c]"

definition store_cell :: "('c, 'p, 'b) toner_lib \<Rightarrow> 'c cell_lib \<Rightarrow> ('c list \<Rightarrow> string + bytes) \<Rightarrow> ('b \<Rightarrow> string + 'b)
    \<Rightarrow> TonContractError + StackEntry" where
  "store_cell T L pack_boc wr = bindr (map_err TLB (to_cell T wr)) (entry_from_cell L pack_boc)"

definition to_number :: "(string \<Rightarrow> string + 'n) \<Rightarrow> StackEntry \<Rightarrow> TonContractError + 'n" where
  "to_number parse e = (case e of StackNumber text \<Rightarrow> map_err ParseNumber (parse text) | _ \<Rightarrow> Inl InvalidStack)"

definition from_number :: "string \<Rightarrow> StackEntry" where
  "from_number text = StackNumber text"

section \<open>Get methods\<close>

text \<open>
  \<open>addr_text\<close> is the text of an error of \<open>SmartContractAddress::from_str\<close>; \<open>hex\<close> is \<open>MsgAddress::to_hex\<close> of the
  contract.
\<close>

definition contract_run_get_method :: "addr_codecs \<Rightarrow> (address_error \<Rightarrow> anyhow) \<Rightarrow> 's handlers \<Rightarrow> string \<Rightarrow> string
    \<Rightarrow> StackEntry list \<Rightarrow> 's \<Rightarrow> (TonContractError + StackEntry list) \<times> 's" where
  "contract_run_get_method A addr_text h hex method stack s =
     (case from_str A hex of
        Inl e \<Rightarrow> (Inl (ClientError (addr_text e)), s)
      | Inr a \<Rightarrow>
          (case on_run_get_method h a method stack s of
             (Inl e, s') \<Rightarrow> (Inl (ClientError e), s')
           | (Inr r, s') \<Rightarrow>
               (if exit_code r = 0 \<or> exit_code r = 1 then Inr (smc_stack r) else Inl (ContractExit (exit_code r)), s')))"

definition wallet_seqno :: "addr_codecs \<Rightarrow> (address_error \<Rightarrow> anyhow) \<Rightarrow> 's handlers \<Rightarrow> string \<Rightarrow> 's
    \<Rightarrow> (TonContractError + u32) \<times> 's" where
  "wallet_seqno A addr_text h hex s =
     (let (r, s') = contract_run_get_method A addr_text h hex ''seqno'' [] s in
      (bindr r (\<lambda>stack.
         case stack of
           [n] \<Rightarrow> to_number (\<lambda>text. map_err int_error_text (from_str_u32 text)) n
         | _ \<Rightarrow> Inl InvalidStack), s'))"

record 'a JettonWalletData =
  jw_balance :: nat
  jw_owner :: 'a
  jw_master :: 'a

definition get_wallet_data :: "('c, 'p, 'b) toner_lib \<Rightarrow> 'c cell_lib \<Rightarrow> (string \<Rightarrow> string + nat) \<Rightarrow> ('p \<Rightarrow> string + 'a \<times> 'p)
    \<Rightarrow> addr_codecs \<Rightarrow> (address_error \<Rightarrow> anyhow) \<Rightarrow> 's handlers \<Rightarrow> string \<Rightarrow> 's
    \<Rightarrow> (TonContractError + 'a JettonWalletData) \<times> 's" where
  "get_wallet_data T L biguint rd_address A addr_text h hex s =
     (let (r, s') = contract_run_get_method A addr_text h hex ''get_wallet_data'' [] s in
      (bindr r (\<lambda>stack.
         case stack of
           [n, own, mas, jetton_wallet_code] \<Rightarrow>
             bindr (to_number biguint n) (\<lambda>b.
             bindr (parse_cell_fully T L rd_address own) (\<lambda>oa.
             bindr (parse_cell_fully T L rd_address mas) (\<lambda>ma.
               Inr \<lparr>jw_balance = b, jw_owner = oa, jw_master = ma\<rparr>)))
         | _ \<Rightarrow> Inl InvalidStack), s'))"

section \<open>Messages of a wallet\<close>

definition DEFAULT_WALLET_ID :: u32 where "DEFAULT_WALLET_ID = 0x29a9a317"

definition wallet_v3r2_code :: "(string \<Rightarrow> string + 'c list) \<Rightarrow> string \<Rightarrow> string + 'c" where
  "wallet_v3r2_code parse_base64 code_text =
     bindr (map_err (\<lambda>e. ''called Result::unwrap() on an Err value: '' @ e) (parse_base64 code_text)) (\<lambda>boc.
       ok_or ''code BoC must be single root'' (single_root boc))"

record WalletV3R2Data =
  wd_seqno :: u32
  wd_wallet_id :: u32
  wd_pubkey :: bytes

definition init_data :: "u32 \<Rightarrow> bytes \<Rightarrow> WalletV3R2Data" where
  "init_data wallet pubkey = \<lparr>wd_seqno = 0, wd_wallet_id = wallet, wd_pubkey = pubkey\<rparr>"

definition store_wallet_data :: "('c, 'p, 'b) toner_lib \<Rightarrow> WalletV3R2Data \<Rightarrow> 'b \<Rightarrow> string + 'b" where
  "store_wallet_data T d b =
     bindr (in_ctx T ''seqno'' (pack_uint T (wd_seqno d) b)) (\<lambda>b.
     bindr (in_ctx T ''wallet_id'' (pack_uint T (wd_wallet_id d) b)) (\<lambda>b.
       in_ctx T ''pubkey'' (pack_bytes T (wd_pubkey d) b)))"

definition parse_wallet_data :: "('c, 'p, 'b) toner_lib \<Rightarrow> 'p \<Rightarrow> string + WalletV3R2Data \<times> 'p" where
  "parse_wallet_data T p =
     bindr (in_ctx T ''seqno'' (unpack_uint T p)) (\<lambda>(n, p).
     bindr (in_ctx T ''wallet_id'' (unpack_uint T p)) (\<lambda>(w, p).
     bindr (in_ctx T ''pubkey'' (unpack_bytes T 32 p)) (\<lambda>(k, p).
       Inr (\<lparr>wd_seqno = n, wd_wallet_id = w, wd_pubkey = k\<rparr>, p))))"

record 'a WalletV3R2SignBody =
  sb_wallet_id :: u32
  sb_expire_at :: u32
  sb_seqno :: u32
  sb_msgs :: "'a list"

definition create_sign_body :: "u32 \<Rightarrow> u32 \<Rightarrow> u32 \<Rightarrow> 'a list \<Rightarrow> 'a WalletV3R2SignBody" where
  "create_sign_body wallet expire n msgs = \<lparr>sb_wallet_id = wallet, sb_expire_at = expire, sb_seqno = n, sb_msgs = msgs\<rparr>"

text \<open>\<open>store_many\<close>: one after the other. \<open>wr\<close> and \<open>rd\<close> are the writer and the reader of \<open>SendMsgAction\<close>.\<close>

fun store_many :: "('a \<Rightarrow> 'b \<Rightarrow> string + 'b) \<Rightarrow> 'a list \<Rightarrow> 'b \<Rightarrow> string + 'b" where
  "store_many wr [] b = Inr b"
| "store_many wr (a # as) b = bindr (wr a b) (store_many wr as)"

definition store_sign_body :: "('c, 'p, 'b) toner_lib \<Rightarrow> ('a \<Rightarrow> 'b \<Rightarrow> string + 'b) \<Rightarrow> 'a WalletV3R2SignBody \<Rightarrow> 'b
    \<Rightarrow> string + 'b" where
  "store_sign_body T wr body b =
     bindr (pack_uint T (sb_wallet_id body) b) (\<lambda>b.
     bindr (pack_uint T (sb_expire_at body) b) (\<lambda>b.
     bindr (pack_uint T (sb_seqno body) b) (\<lambda>b.
       store_many wr (sb_msgs body) b)))"

text \<open>
  The iterator reads while there is a reference left; a reader that takes none would be asked for ever, which is
  \<open>None\<close>.
\<close>

partial_function (option) parse_msgs ::
  "('p \<Rightarrow> bool) \<Rightarrow> ('p \<Rightarrow> string + 'a \<times> 'p) \<Rightarrow> 'p \<Rightarrow> (string + 'a list \<times> 'p) option" where
  "parse_msgs no_refs rd p =
     (if no_refs p then Some (Inr ([], p))
      else case rd p of
          Inl e \<Rightarrow> Some (Inl e)
        | Inr (a, p') \<Rightarrow>
            Option.bind (parse_msgs no_refs rd p') (\<lambda>r. Some (bindr r (\<lambda>(as, q). Inr (a # as, q)))))"

definition parse_sign_body :: "('c, 'p, 'b) toner_lib \<Rightarrow> ('p \<Rightarrow> bool) \<Rightarrow> ('p \<Rightarrow> string + 'a \<times> 'p) \<Rightarrow> 'p
    \<Rightarrow> (string + 'a WalletV3R2SignBody \<times> 'p) option" where
  "parse_sign_body T no_refs rd p =
     (case bindr (unpack_uint T p) (\<lambda>(w, p). bindr (unpack_uint T p) (\<lambda>(e, p). bindr (unpack_uint T p) (\<lambda>(n, p).
         Inr ((w, e, n), p)))) of
        Inl m \<Rightarrow> Some (Inl m)
      | Inr ((w, e, n), p) \<Rightarrow>
          map_option (\<lambda>r. bindr r (\<lambda>(msgs, p).
            Inr (\<lparr>sb_wallet_id = w, sb_expire_at = e, sb_seqno = n, sb_msgs = msgs\<rparr>, p))) (parse_msgs no_refs rd p))"

record 'a WalletV3R2ExternalBody =
  eb_signature :: bytes
  eb_body :: "'a WalletV3R2SignBody"

definition wrap_signed_external :: "'a WalletV3R2SignBody \<Rightarrow> bytes \<Rightarrow> 'a WalletV3R2ExternalBody" where
  "wrap_signed_external body signature = \<lparr>eb_signature = signature, eb_body = body\<rparr>"

definition store_external_body :: "('c, 'p, 'b) toner_lib \<Rightarrow> ('a \<Rightarrow> 'b \<Rightarrow> string + 'b) \<Rightarrow> 'a WalletV3R2ExternalBody \<Rightarrow> 'b
    \<Rightarrow> string + 'b" where
  "store_external_body T wr m b =
     bindr (in_ctx T ''signature'' (pack_bytes T (eb_signature m) b)) (\<lambda>b.
       in_ctx T ''body'' (store_sign_body T wr (eb_body m) b))"

definition parse_external_body :: "('c, 'p, 'b) toner_lib \<Rightarrow> ('p \<Rightarrow> bool) \<Rightarrow> ('p \<Rightarrow> string + 'a \<times> 'p) \<Rightarrow> 'p
    \<Rightarrow> (string + 'a WalletV3R2ExternalBody \<times> 'p) option" where
  "parse_external_body T no_refs rd p =
     (case in_ctx T ''signature'' (unpack_bytes T 64 p) of
        Inl m \<Rightarrow> Some (Inl m)
      | Inr (signature, p) \<Rightarrow>
          map_option (\<lambda>r. bindr (in_ctx T ''body'' r) (\<lambda>(body, p). Inr (\<lparr>eb_signature = signature, eb_body = body\<rparr>, p)))
            (parse_sign_body T no_refs rd p))"

section \<open>Numbers and entries\<close>

lemma parse_digits_u32_append:
  "parse_digits_u32 acc (xs @ ys) = bindr (parse_digits_u32 acc xs) (\<lambda>v. parse_digits_u32 v ys)"
  by (induction xs arbitrary: acc) (simp_all split: option.split)

lemma parse_digits_u32_dec_nat: "n < 2 ^ 32 \<Longrightarrow> parse_digits_u32 0 (dec_nat n) = Inr n"
proof (induction n rule: dec_nat.induct)
  case (1 n)
  show ?case
  proof (cases "n < 10")
    case True
    then show ?thesis by (simp add: dec_nat.simps [of n])
  next
    case False
    with 1 have "parse_digits_u32 0 (dec_nat (n div 10)) = Inr (n div 10)" by simp
    with False 1(2) show ?thesis
      by (simp add: dec_nat.simps [of n] parse_digits_u32_append)
  qed
qed

lemma from_str_u32_dec_nat: "from_str_u32 (dec_nat (unat w)) = Inr w"
proof -
  obtain c cs where c: "dec_nat (unat w) = c # cs" by (cases "dec_nat (unat w)") auto
  then have "c \<noteq> CHR ''+''" "c \<noteq> CHR ''-''" using dec_nat_digits [of c "unat w"] by auto
  moreover have "unat w < 2 ^ LENGTH(32)" by (rule unsigned_less)
  then have "parse_digits_u32 0 (c # cs) = Inr (unat w)" using parse_digits_u32_dec_nat [of "unat w"] c by simp
  ultimately show ?thesis by (simp add: from_str_u32_def c del: parse_digits_u32.simps)
qed

text \<open>What is stored in a stack entry is parsed from it.\<close>

lemma stored_cell_is_parsed:
  assumes T: "toner_laws T pv bv" and L: "b64_standard_laws L" "pack_boc_laws L pack_boc"
    and c: "codec pv bv rd wr v" and e: "store_cell T L pack_boc wr = Inr e"
  shows "parse_cell_fully T L rd e = Inr v"
proof -
  from e obtain c bs where w: "to_cell T wr = Inr c" and b: "pack_boc [c] = Inr bs"
    and e': "e = StackSlice (b64_standard_encode L bs)"
    by (auto simp: store_cell_def entry_from_cell_def entry_from_boc_def bindr_eq_Inr map_err_eq_Inr)
  have "entry_to_cell L e = Inr c"
    using L b by (simp add: e' entry_to_cell_def entry_to_boc_def b64_standard_laws_def pack_boc_laws_def single_root_def)
  with codec_to_cell [OF T c w] show ?thesis by (simp add: parse_cell_fully_def)
qed

text \<open>
  The sequence number of a wallet is the one number the method leaves on the stack of a run that ended with exit
  code 0 or 1; every other outcome is an error.
\<close>

lemma wallet_seqno_exact:
  "wallet_seqno A addr_text h hex s = (Inr n, s') \<longleftrightarrow>
     (\<exists>a r text. from_str A hex = Inr a \<and> on_run_get_method h a ''seqno'' [] s = (Inr r, s')
        \<and> exit_code r \<in> {0, 1} \<and> smc_stack r = [StackNumber text] \<and> from_str_u32 text = Inr n)"
  by (auto simp: wallet_seqno_def contract_run_get_method_def to_number_def bindr_eq_Inr map_err_eq_Inr
      split: prod.splits sum.splits list.splits StackEntry.splits if_splits)

section \<open>Layout of messages\<close>

text \<open>
  What the crate says of \<open>SendMsgAction\<close>: its mode and then its message in a cell of its own, read back as written.
  \<open>no_references_left\<close> says whether there is a reference left.
\<close>

definition action_laws :: "('p \<Rightarrow> 'c view) \<Rightarrow> ('b \<Rightarrow> 'c view) \<Rightarrow> ('p \<Rightarrow> string + 'a \<times> 'p) \<Rightarrow> ('a \<Rightarrow> 'b \<Rightarrow> string + 'b) \<Rightarrow> bool" where
  "action_laws pv bv rd wr \<longleftrightarrow> (\<forall>a. \<exists>bs c. writes bv (wr a) bs [c] \<and> reads pv rd bs [c] a)"

definition refs_laws :: "('p \<Rightarrow> 'c view) \<Rightarrow> ('p \<Rightarrow> bool) \<Rightarrow> bool" where
  "refs_laws pv no_refs \<longleftrightarrow> (\<forall>p. no_refs p \<longleftrightarrow> snd (pv p) = [])"

lemma msgs_laid_out:
  assumes L: "action_laws pv bv rd wr" "refs_laws pv no_refs"
  shows "\<exists>bs rs. writes bv (store_many wr msgs) bs rs \<and>
    (\<forall>p xs. pv p = (bs @ xs, rs) \<longrightarrow> (\<exists>p'. parse_msgs no_refs rd p = Some (Inr (msgs, p')) \<and> pv p' = (xs, [])))"
proof (induction msgs)
  case Nil
  have "parse_msgs no_refs rd p = Some (Inr ([], p))" if "snd (pv p) = []" for p
    using L(2) that by (subst parse_msgs.simps) (simp add: refs_laws_def)
  then show ?case by (intro exI [of _ "[]"]) (simp add: writes_def)
next
  case (Cons a msgs)
  from Cons obtain bs rs where w: "writes bv (store_many wr msgs) bs rs"
    and r: "\<And>p xs. pv p = (bs @ xs, rs) \<Longrightarrow> \<exists>p'. parse_msgs no_refs rd p = Some (Inr (msgs, p')) \<and> pv p' = (xs, [])"
    by blast
  from L(1) obtain as c where a: "writes bv (wr a) as [c]" "reads pv rd as [c] a"
    unfolding action_laws_def by blast
  have "\<exists>p'. parse_msgs no_refs rd p = Some (Inr (a # msgs, p')) \<and> pv p' = (xs, [])"
    if p: "pv p = ((as @ bs) @ xs, [c] @ rs)" for p xs
  proof -
    from readsD [OF a(2), of p "bs @ xs" rs] p obtain p1 where p1: "rd p = Inr (a, p1)" "pv p1 = (bs @ xs, rs)" by auto
    from r [OF p1(2)] p1(1) L(2) p show ?thesis by (subst parse_msgs.simps) (auto simp: refs_laws_def)
  qed
  with writes_bind [OF a(1) w] show ?case by (intro exI [of _ "as @ bs"] exI [of _ "[c] @ rs"]) simp
qed

lemma sign_body_laid_out:
  assumes T: "toner_laws T pv bv" and L: "action_laws pv bv rd wr" "refs_laws pv no_refs"
  obtains bs rs where "writes bv (store_sign_body T wr body) bs rs"
    and "\<And>p xs. pv p = (bs @ xs, rs) \<Longrightarrow> \<exists>p'. parse_sign_body T no_refs rd p = Some (Inr (body, p')) \<and> pv p' = (xs, [])"
proof -
  from msgs_laid_out [OF L, of "sb_msgs body"] obtain bs rs where w: "writes bv (store_many wr (sb_msgs body)) bs rs"
    and r: "\<And>p xs. pv p = (bs @ xs, rs) \<Longrightarrow>
      \<exists>p'. parse_msgs no_refs rd p = Some (Inr (sb_msgs body, p')) \<and> pv p' = (xs, [])" by blast
  let ?hd = "word_bits (sb_wallet_id body) @ word_bits (sb_expire_at body) @ word_bits (sb_seqno body)"
  let ?rd = "\<lambda>p. bindr (unpack_uint T p) (\<lambda>(w, p). bindr (unpack_uint T p) (\<lambda>(e, p). bindr (unpack_uint T p) (\<lambda>(n, p).
         Inr ((w, e, n), p))))"
  have P: "parser_laws T pv" using T by (simp add: toner_laws_def)
  have hd: "reads pv ?rd ?hd [] (sb_wallet_id body, sb_expire_at body, sb_seqno body)"
    by ((rule reads_bits_bind, rule reads_uint [OF P])+, rule reads_last, rule reads_uint [OF P], simp)
  show thesis
  proof (rule that [of "?hd @ bs" rs])
    show "writes bv (store_sign_body T wr body) (?hd @ bs) rs"
      using writes_bind [OF writes_uint [OF T] writes_bind [OF writes_uint [OF T] writes_bind [OF writes_uint [OF T] w]],
          of "sb_wallet_id body" "sb_expire_at body" "sb_seqno body"]
      by (simp add: store_sign_body_def [abs_def])
  next
    fix p xs assume "pv p = ((?hd @ bs) @ xs, rs)"
    then obtain p1 where "?rd p = Inr ((sb_wallet_id body, sb_expire_at body, sb_seqno body), p1)" "pv p1 = (bs @ xs, rs)"
      using readsD [OF hd, of p "bs @ xs" rs] by auto
    with r [of p1 xs] show "\<exists>p'. parse_sign_body T no_refs rd p = Some (Inr (body, p')) \<and> pv p' = (xs, [])"
      by (auto simp: parse_sign_body_def)
  qed
qed

section \<open>A wallet in memory\<close>

text \<open>For the witness: an action is its mode and the cell of its message.\<close>

definition mem_store_action :: "u8 \<times> mem_cell \<Rightarrow> mem_cell view \<Rightarrow> string + mem_cell view" where
  "mem_store_action a b = bindr (pack_uint mem_toner (fst a) b) (store_ref mem_toner (snd a))"

definition mem_parse_action :: "mem_cell view \<Rightarrow> string + (u8 \<times> mem_cell) \<times> mem_cell view" where
  "mem_parse_action p =
     bindr (unpack_uint mem_toner p) (\<lambda>(m, p). bindr (parse_ref mem_toner p) (\<lambda>(c, p). Inr ((m, c), p)))"

lemma mem_action_laws: "action_laws (\<lambda>p. p) (\<lambda>b. b) mem_parse_action mem_store_action"
proof -
  have "writes (\<lambda>b. b) (mem_store_action (m, c)) (word_bits m) [c]" for m c
  proof -
    have "writes (\<lambda>b. b) (store_ref mem_toner c) [] [c]"
      by (auto simp: writes_def mem_toner_def split: if_splits)
    from writes_bind [OF writes_uint [OF mem_toner_laws, of m] this] show ?thesis
      by (simp add: mem_store_action_def [abs_def])
  qed
  moreover have "reads (\<lambda>p. p) mem_parse_action (word_bits m) [c] (m, c)" for m c
    unfolding mem_parse_action_def [abs_def]
    by (rule reads_bits_bind [where bs' = "[]", simplified], rule reads_uint [OF mem_parser_laws],
        rule reads_map, rule reads_ref [OF mem_parser_laws])
  ultimately show ?thesis unfolding action_laws_def by (metis surj_pair)
qed

lemma mem_pack_bytes:
  "length bs + 8 * length xs \<le> 1023 \<Longrightarrow> pack_bytes mem_toner xs (bs, rs) = Inr (bs @ hash_bits xs, rs)"
proof (induction xs arbitrary: bs)
  case (Cons x xs)
  have "unat x < 2 ^ LENGTH(8)" by (rule unsigned_less)
  with Cons.prems have "pack_uint mem_toner x (bs, rs) = Inr (bs @ word_bits x, rs)"
    by (simp add: pack_uint_def word_bits_def mem_toner_def)
  with Cons.IH [of "bs @ word_bits x"] Cons.prems show ?case by (simp add: hash_bits_def word_bits_def)
qed (simp add: hash_bits_def)

definition demo_sign_body :: "(u8 \<times> mem_cell) WalletV3R2SignBody" where
  "demo_sign_body = create_sign_body DEFAULT_WALLET_ID 1700000000 7 [(3, MemCell [True] []), (1, MemCell [] [])]"

definition demo_wallet_message :: "(u8 \<times> mem_cell) WalletV3R2ExternalBody" where
  "demo_wallet_message = wrap_signed_external demo_sign_body (replicate 64 9)"

lemma demo_message_stored:
  "\<exists>c. to_cell mem_toner (store_sign_body mem_toner mem_store_action demo_sign_body) = Inr c"
  "\<exists>c. to_cell mem_toner (store_external_body mem_toner mem_store_action demo_wallet_message) = Inr c"
proof -
  have body: "\<exists>b'. store_sign_body mem_toner mem_store_action demo_sign_body (bs, []) = Inr b'" if "length bs \<le> 512" for bs
    using that by (simp add: demo_sign_body_def create_sign_body_def store_sign_body_def mem_store_action_def pack_uint_def
        mem_toner_def DEFAULT_WALLET_ID_def)
  from body [of "[]"]
  show "\<exists>c. to_cell mem_toner (store_sign_body mem_toner mem_store_action demo_sign_body) = Inr c"
    by (auto simp: to_cell_def mem_toner_def)
  have l: "length (hash_bits (replicate 64 9)) = 512" by (simp add: hash_bits_def word_bits_def length_concat sum_list_replicate)
  from body [of "hash_bits (replicate 64 9)"] l
  show "\<exists>c. to_cell mem_toner (store_external_body mem_toner mem_store_action demo_wallet_message) = Inr c"
    using mem_pack_bytes [of "[]" "replicate 64 9" "[]"]
    by (auto simp: to_cell_def store_external_body_def demo_wallet_message_def wrap_signed_external_def in_ctx_def
        mem_toner_def)
qed

section \<open>Properties\<close>

text \<open>
  C30. The message a wallet sends is read back whole: from the cell of an external message the reader returns the
  signature and the body, with the expiry, the sequence number and every action in order, and it ends, since every action takes
  a reference. What follows the signature in the cell is exactly the content of the cell that was signed.
\<close>

theorem wallet_message_roundtrip:
  assumes "toner_laws T pv bv" and "action_laws pv bv rd wr" and "refs_laws pv no_refs"
    and "length (eb_signature m) = 64"
    and "to_cell T (store_external_body T wr m) = Inr c" and "to_cell T (store_sign_body T wr (eb_body m)) = Inr body_cell"
  shows "(\<exists>q. parse_external_body T no_refs rd (cell_parser T c) = Some (Inr (m, q)) \<and> ensure_empty T q = Inr ())
    \<and> (\<exists>q. parse_sign_body T no_refs rd (cell_parser T body_cell) = Some (Inr (eb_body m, q)) \<and> ensure_empty T q = Inr ())
    \<and> pv (cell_parser T c) =
        (hash_bits (eb_signature m) @ fst (pv (cell_parser T body_cell)), snd (pv (cell_parser T body_cell)))"
proof -
  have P: "parser_laws T pv" using assms(1) by (simp add: toner_laws_def)
  obtain bs rs where w: "writes bv (store_sign_body T wr (eb_body m)) bs rs" and r: "\<And>p xs. pv p = (bs @ xs, rs) \<Longrightarrow>
      \<exists>p'. parse_sign_body T no_refs rd p = Some (Inr (eb_body m, p')) \<and> pv p' = (xs, [])"
    using sign_body_laid_out [OF assms(1-3), of "eb_body m"] by blast
  have "writes bv (\<lambda>b. bindr (in_ctx T ''signature'' (pack_bytes T (eb_signature m) b))
      (\<lambda>b. in_ctx T ''body'' (store_sign_body T wr (eb_body m) b))) (hash_bits (eb_signature m) @ bs) ([] @ rs)"
    by (rule writes_bind) (simp_all add: writes_in_ctx writes_bytes [OF assms(1)] w)
  from writes_to_cell [OF assms(1) this] assms(5) have c: "pv (cell_parser T c) = (hash_bits (eb_signature m) @ bs, rs)"
    by (simp add: store_external_body_def [abs_def])
  have s: "pv (cell_parser T body_cell) = (bs, rs)" by (rule writes_to_cell [OF assms(1) w assms(6)])
  have "reads pv (unpack_bytes T 64) (hash_bits (eb_signature m)) [] (eb_signature m)"
    using reads_bytes [OF P, of "eb_signature m"] assms(4) by simp
  from readsD [OF this, of "cell_parser T c" bs rs] c obtain p1
    where p1: "unpack_bytes T 64 (cell_parser T c) = Inr (eb_signature m, p1)" "pv p1 = (bs, rs)" by auto
  from r [of p1 "[]"] r [of "cell_parser T body_cell" "[]"] p1 s c show ?thesis
    by (auto simp: parse_external_body_def in_ctx_def ensure_empty_iff [OF P])
qed

theorem wallet_message_roundtrip_witness:
  "\<exists>c. to_cell mem_toner (store_external_body mem_toner mem_store_action demo_wallet_message) = Inr c
     \<and> (\<exists>q. parse_external_body mem_toner (\<lambda>p. snd p = []) mem_parse_action (cell_parser mem_toner c)
           = Some (Inr (demo_wallet_message, q)))"
proof -
  obtain c where c: "to_cell mem_toner (store_external_body mem_toner mem_store_action demo_wallet_message) = Inr c"
    using demo_message_stored(2) by blast
  obtain b where b: "to_cell mem_toner (store_sign_body mem_toner mem_store_action demo_sign_body) = Inr b"
    using demo_message_stored(1) by blast
  have l: "length (eb_signature demo_wallet_message) = 64" and d: "eb_body demo_wallet_message = demo_sign_body"
    by (simp_all add: demo_wallet_message_def wrap_signed_external_def)
  from wallet_message_roundtrip [OF mem_toner_laws mem_action_laws _ l c, of "\<lambda>p. snd p = []" b] b c
  show ?thesis by (auto simp: d refs_laws_def)
qed

end
