(* ===== verification/Emulator.thy ===== *)
theory Emulator
  imports Rust_Prelude
begin

text \<open>
  The safe wrappers around the C emulator (\<open>ton-emulator/src\<close>: \<open>emulator.rs\<close>, \<open>alloc.rs\<close>, \<open>error.rs\<close>). The C
  library is an argument: what it answers is a function of the calls it has had. The list of these calls, with
  the pointers they returned, is the state, so that \<open>heap\<close> can say what is allocated and that no call was
  made on a pointer that is not.
\<close>

section \<open>The C library\<close>

datatype tx_call =
    CEmulate string string
  | CSetUnixtime u32
  | CSetLt u64
  | CSetRandSeed string
  | CSetIgnoreChksig bool
  | CSetConfig string
  | CSetLibs string

datatype tvm_call =
    CSetLibraries string
  | CSetGasLimit i64
  | CSetC7 string u32 u64 string string
  | CSetExtraCurrencies string
  | CSetPrevBlocksInfo string
  | CRunGetMethod i32 string
  | CSendExternalMessage string
  | CSendInternalMessage string u64

datatype c_call =
    TxCreate string i32
  | OnTx nat tx_call
  | TxDestroy nat
  | TvmCreate string string i32
  | OnTvm nat tvm_call
  | TvmDestroy nat
  | EmulateRunMethod u32 bytes i64
  | SetVerbosityLevel i32
  | StringDestroy nat

text \<open>A call and the pointer it returned; null is \<open>None\<close>.\<close>

type_synonym c_calls = "(c_call \<times> nat option) list"

text \<open>
  What the library answers: the pointer of a new emulator, a flag, a text as its pointer and its bytes up to the NUL, and
  a buffer as its pointer and the bytes from there on. \<open>is_utf8\<close> is \<open>str::from_utf8\<close>, and \<open>utf8_error\<close> the text of its error.
\<close>

record c_lib =
  c_create :: "c_calls \<Rightarrow> c_call \<Rightarrow> nat option"
  c_flag :: "c_calls \<Rightarrow> c_call \<Rightarrow> bool"
  c_text :: "c_calls \<Rightarrow> c_call \<Rightarrow> (nat \<times> bytes) option"
  is_utf8 :: "bytes \<Rightarrow> bool"
  utf8_error :: "bytes \<Rightarrow> string"

section \<open>Errors\<close>

datatype emu_error = InvalidCString | Ffi | InvalidUtf8 | ParamsBocTooLarge nat

fun emu_error_text :: "emu_error \<Rightarrow> string" where
  "emu_error_text InvalidCString = ''input contains an interior NUL byte''"
| "emu_error_text Ffi = ''emulator FFI call failed''"
| "emu_error_text InvalidUtf8 = ''native emulator returned invalid UTF-8''"
| "emu_error_text (ParamsBocTooLarge len) = ''params BoC is too large: '' @ dec_nat len @ '' bytes''"

definition c_string :: "string \<Rightarrow> emu_error + string" where
  "c_string s = (if CHR 0x00 \<in> set s then Inl InvalidCString else Inr s)"

section \<open>Calls\<close>

text \<open>\<open>TvmString\<close>: the pointer and the bytes. It frees its allocation when it is dropped, also when its text is not UTF-8.\<close>

type_synonym TvmString = "nat \<times> bytes"

definition drop_string :: "nat \<Rightarrow> c_calls \<Rightarrow> c_calls" where
  "drop_string p h = h @ [(StringDestroy p, None)]"

definition tvm_string_from_raw :: "c_lib \<Rightarrow> nat \<Rightarrow> bytes \<Rightarrow> c_calls \<Rightarrow> (emu_error + TvmString) \<times> c_calls" where
  "tvm_string_from_raw C p bs h = (if is_utf8 C bs then (Inr (p, bs), h) else (Inl InvalidUtf8, drop_string p h))"

definition flag_call :: "c_lib \<Rightarrow> c_call \<Rightarrow> c_calls \<Rightarrow> bool \<times> c_calls" where
  "flag_call C f h = (c_flag C h f, h @ [(f, None)])"

definition text_call :: "c_lib \<Rightarrow> c_call \<Rightarrow> c_calls \<Rightarrow> (emu_error + TvmString) \<times> c_calls" where
  "text_call C f h =
     (case c_text C h f of
        None \<Rightarrow> (Inl Ffi, h @ [(f, None)])
      | Some (p, bs) \<Rightarrow> tvm_string_from_raw C p bs (h @ [(f, Some p)]))"

definition create_call :: "c_lib \<Rightarrow> c_call \<Rightarrow> c_calls \<Rightarrow> (emu_error + nat) \<times> c_calls" where
  "create_call C f h = (ok_or Ffi (c_create C h f), h @ [(f, c_create C h f)])"

text \<open>An argument that has a NUL in it ends the call before the library is called.\<close>

definition with_args :: "emu_error + 'a \<Rightarrow> ('a \<Rightarrow> c_calls \<Rightarrow> (emu_error + 'b) \<times> c_calls) \<Rightarrow> c_calls \<Rightarrow> (emu_error + 'b) \<times> c_calls" where
  "with_args r k h = (case r of Inl e \<Rightarrow> (Inl e, h) | Inr a \<Rightarrow> k a h)"

definition flag_ok :: "bool \<times> c_calls \<Rightarrow> (emu_error + bool) \<times> c_calls" where
  "flag_ok r = (Inr (fst r), snd r)"

section \<open>The transaction emulator\<close>

definition tx_new :: "c_lib \<Rightarrow> string \<Rightarrow> i32 \<Rightarrow> c_calls \<Rightarrow> (emu_error + nat) \<times> c_calls" where
  "tx_new C config_boc verbosity = with_args (c_string config_boc) (\<lambda>c. create_call C (TxCreate c verbosity))"

definition tx_emulate :: "c_lib \<Rightarrow> nat \<Rightarrow> string \<Rightarrow> string \<Rightarrow> c_calls \<Rightarrow> (emu_error + TvmString) \<times> c_calls" where
  "tx_emulate C e shard_account_boc message_boc =
     with_args (c_string shard_account_boc) (\<lambda>a.
     with_args (c_string message_boc) (\<lambda>m. text_call C (OnTx e (CEmulate a m))))"

definition tx_set_unixtime :: "c_lib \<Rightarrow> nat \<Rightarrow> u32 \<Rightarrow> c_calls \<Rightarrow> bool \<times> c_calls" where
  "tx_set_unixtime C e unixtime = flag_call C (OnTx e (CSetUnixtime unixtime))"

definition tx_set_lt :: "c_lib \<Rightarrow> nat \<Rightarrow> u64 \<Rightarrow> c_calls \<Rightarrow> bool \<times> c_calls" where
  "tx_set_lt C e lt = flag_call C (OnTx e (CSetLt lt))"

definition tx_set_rand_seed :: "c_lib \<Rightarrow> nat \<Rightarrow> string \<Rightarrow> c_calls \<Rightarrow> (emu_error + bool) \<times> c_calls" where
  "tx_set_rand_seed C e seed =
     with_args (c_string seed) (\<lambda>s h. flag_ok (flag_call C (OnTx e (CSetRandSeed s)) h))"

definition tx_set_ignore_chksig :: "c_lib \<Rightarrow> nat \<Rightarrow> bool \<Rightarrow> c_calls \<Rightarrow> bool \<times> c_calls" where
  "tx_set_ignore_chksig C e ignore_chksig = flag_call C (OnTx e (CSetIgnoreChksig ignore_chksig))"

definition tx_set_config :: "c_lib \<Rightarrow> nat \<Rightarrow> string \<Rightarrow> c_calls \<Rightarrow> (emu_error + bool) \<times> c_calls" where
  "tx_set_config C e config =
     with_args (c_string config) (\<lambda>s h. flag_ok (flag_call C (OnTx e (CSetConfig s)) h))"

definition tx_set_libs :: "c_lib \<Rightarrow> nat \<Rightarrow> string \<Rightarrow> c_calls \<Rightarrow> (emu_error + bool) \<times> c_calls" where
  "tx_set_libs C e libs =
     with_args (c_string libs) (\<lambda>s h. flag_ok (flag_call C (OnTx e (CSetLibs s)) h))"

definition tx_drop :: "nat \<Rightarrow> c_calls \<Rightarrow> c_calls" where
  "tx_drop e h = h @ [(TxDestroy e, None)]"

section \<open>The TVM emulator\<close>

definition tvm_new :: "c_lib \<Rightarrow> string \<Rightarrow> string \<Rightarrow> i32 \<Rightarrow> c_calls \<Rightarrow> (emu_error + nat) \<times> c_calls" where
  "tvm_new C code_boc data_boc verbosity =
     with_args (c_string code_boc) (\<lambda>c.
     with_args (c_string data_boc) (\<lambda>d. create_call C (TvmCreate c d verbosity)))"

definition tvm_set_libraries :: "c_lib \<Rightarrow> nat \<Rightarrow> string \<Rightarrow> c_calls \<Rightarrow> (emu_error + bool) \<times> c_calls" where
  "tvm_set_libraries C e libs_boc =
     with_args (c_string libs_boc) (\<lambda>s h. flag_ok (flag_call C (OnTvm e (CSetLibraries s)) h))"

definition tvm_set_gas_limit :: "c_lib \<Rightarrow> nat \<Rightarrow> i64 \<Rightarrow> c_calls \<Rightarrow> bool \<times> c_calls" where
  "tvm_set_gas_limit C e gas_limit = flag_call C (OnTvm e (CSetGasLimit gas_limit))"

definition tvm_set_c7 :: "c_lib \<Rightarrow> nat \<Rightarrow> string \<Rightarrow> u32 \<Rightarrow> u64 \<Rightarrow> string \<Rightarrow> string \<Rightarrow> c_calls
    \<Rightarrow> (emu_error + bool) \<times> c_calls" where
  "tvm_set_c7 C e address unixtime balance rand_seed_hex config =
     with_args (c_string address) (\<lambda>a.
     with_args (c_string rand_seed_hex) (\<lambda>r.
     with_args (c_string config) (\<lambda>c h. flag_ok (flag_call C (OnTvm e (CSetC7 a unixtime balance r c)) h))))"

definition tvm_set_extra_currencies :: "c_lib \<Rightarrow> nat \<Rightarrow> string \<Rightarrow> c_calls \<Rightarrow> (emu_error + bool) \<times> c_calls" where
  "tvm_set_extra_currencies C e extra_currencies =
     with_args (c_string extra_currencies) (\<lambda>s h. flag_ok (flag_call C (OnTvm e (CSetExtraCurrencies s)) h))"

definition tvm_set_prev_blocks_info :: "c_lib \<Rightarrow> nat \<Rightarrow> string \<Rightarrow> c_calls \<Rightarrow> (emu_error + bool) \<times> c_calls" where
  "tvm_set_prev_blocks_info C e info_boc =
     with_args (c_string info_boc) (\<lambda>s h. flag_ok (flag_call C (OnTvm e (CSetPrevBlocksInfo s)) h))"

definition tvm_run_get_method :: "c_lib \<Rightarrow> nat \<Rightarrow> i32 \<Rightarrow> string \<Rightarrow> c_calls \<Rightarrow> (emu_error + TvmString) \<times> c_calls" where
  "tvm_run_get_method C e method_id stack_boc =
     with_args (c_string stack_boc) (\<lambda>s. text_call C (OnTvm e (CRunGetMethod method_id s)))"

definition tvm_send_external_message :: "c_lib \<Rightarrow> nat \<Rightarrow> string \<Rightarrow> c_calls \<Rightarrow> (emu_error + TvmString) \<times> c_calls" where
  "tvm_send_external_message C e body_boc =
     with_args (c_string body_boc) (\<lambda>s. text_call C (OnTvm e (CSendExternalMessage s)))"

definition tvm_send_internal_message :: "c_lib \<Rightarrow> nat \<Rightarrow> string \<Rightarrow> u64 \<Rightarrow> c_calls \<Rightarrow> (emu_error + TvmString) \<times> c_calls" where
  "tvm_send_internal_message C e body_boc amount =
     with_args (c_string body_boc) (\<lambda>s. text_call C (OnTvm e (CSendInternalMessage s amount)))"

definition tvm_drop :: "nat \<Rightarrow> c_calls \<Rightarrow> c_calls" where
  "tvm_drop e h = h @ [(TvmDestroy e, None)]"

definition tvm_set_verbosity_level :: "c_lib \<Rightarrow> i32 \<Rightarrow> c_calls \<Rightarrow> bool \<times> c_calls" where
  "tvm_set_verbosity_level C level = flag_call C (SetVerbosityLevel level)"

text \<open>
  \<open>run_get_method_once\<close> needs no emulator. Its \<open>TvmBuffer\<close> is the pointer, the length in the first four bytes
  (\<open>from_ne_bytes\<close>, on a little endian machine) and the memory; \<open>as_ref\<close> is the slice of this length behind them.
\<close>

record TvmBuffer =
  buf_ptr :: nat
  buf_len :: nat
  buf_memory :: bytes

definition tvm_buffer_from_raw :: "nat \<Rightarrow> bytes \<Rightarrow> TvmBuffer" where
  "tvm_buffer_from_raw p mem = \<lparr>buf_ptr = p, buf_len = unat (u32_of_le (take 4 mem)), buf_memory = mem\<rparr>"

definition tvm_buffer_as_ref :: "TvmBuffer \<Rightarrow> bytes" where
  "tvm_buffer_as_ref b = take (buf_len b) (drop 4 (buf_memory b))"

definition tvm_buffer_as_str :: "c_lib \<Rightarrow> TvmBuffer \<Rightarrow> string + bytes" where
  "tvm_buffer_as_str C b =
     (if is_utf8 C (tvm_buffer_as_ref b) then Inr (tvm_buffer_as_ref b) else Inl (utf8_error C (tvm_buffer_as_ref b)))"

definition tvm_run_get_method_once :: "c_lib \<Rightarrow> bytes \<Rightarrow> i64 \<Rightarrow> c_calls \<Rightarrow> (emu_error + TvmBuffer) \<times> c_calls" where
  "tvm_run_get_method_once C params_boc gas_limit h =
     (if length params_boc \<ge> 2 ^ 32 then (Inl (ParamsBocTooLarge (length params_boc)), h)
      else
        let f = EmulateRunMethod (word_of_nat (length params_boc)) params_boc gas_limit in
        case c_text C h f of
          None \<Rightarrow> (Inl Ffi, h @ [(f, None)])
        | Some (p, mem) \<Rightarrow> (Inr (tvm_buffer_from_raw p mem), h @ [(f, Some p)]))"

section \<open>Allocations\<close>

text \<open>
  What is allocated after a sequence of calls, or \<open>None\<close> when one of them was made on something that was not: a use after
  it was freed, or freeing it twice.
\<close>

datatype resource = TxHandle nat | TvmHandle nat | CText nat

fun address_of :: "resource \<Rightarrow> nat" where
  "address_of (TxHandle p) = p"
| "address_of (TvmHandle p) = p"
| "address_of (CText p) = p"

fun uses :: "c_call \<Rightarrow> resource set" where
  "uses (OnTx p _) = {TxHandle p}"
| "uses (TxDestroy p) = {TxHandle p}"
| "uses (OnTvm p _) = {TvmHandle p}"
| "uses (TvmDestroy p) = {TvmHandle p}"
| "uses (StringDestroy p) = {CText p}"
| "uses _ = {}"

fun frees :: "c_call \<Rightarrow> resource set" where
  "frees (TxDestroy p) = {TxHandle p}"
| "frees (TvmDestroy p) = {TvmHandle p}"
| "frees (StringDestroy p) = {CText p}"
| "frees _ = {}"

fun gives :: "c_call \<Rightarrow> nat \<Rightarrow> resource" where
  "gives (TxCreate _ _) p = TxHandle p"
| "gives (TvmCreate _ _ _) p = TvmHandle p"
| "gives _ p = CText p"

definition c_step :: "c_call \<times> nat option \<Rightarrow> resource set \<Rightarrow> resource set option" where
  "c_step e L =
     (if uses (fst e) \<subseteq> L then Some ((L - frees (fst e)) \<union> gives (fst e) ` set_option (snd e)) else None)"

definition heap :: "c_calls \<Rightarrow> resource set option" where
  "heap h = foldl (\<lambda>L e. Option.bind L (c_step e)) (Some {}) h"

lemma heap_Nil [simp]: "heap [] = Some {}"
  by (simp add: heap_def)

lemma heap_snoc [simp]: "heap (h @ [e]) = Option.bind (heap h) (c_step e)"
  by (simp add: heap_def)

text \<open>The library returns pointers to new allocations.\<close>

definition c_lib_laws :: "c_lib \<Rightarrow> bool" where
  "c_lib_laws C \<longleftrightarrow>
     (\<forall>h f L p. heap h = Some L \<longrightarrow> c_create C h f = Some p \<longrightarrow> p \<notin> address_of ` L) \<and>
     (\<forall>h f L p bs. heap h = Some L \<longrightarrow> c_text C h f = Some (p, bs) \<longrightarrow> p \<notin> address_of ` L)"

lemma heap_drop_string: "heap h = Some (insert (CText p) L) \<Longrightarrow> CText p \<notin> L \<Longrightarrow> heap (drop_string p h) = Some L"
  by (simp add: drop_string_def c_step_def)

lemma heap_flag_call:
  "heap h = Some L \<Longrightarrow> uses f \<subseteq> L \<Longrightarrow> frees f = {} \<Longrightarrow> heap (snd (flag_call C f h)) = Some L"
  by (simp add: flag_call_def c_step_def)

lemma heap_create_call:
  assumes "c_lib_laws C" "heap h = Some L" "uses f = {}" "frees f = {}"
  shows "heap (snd (create_call C f h)) = Some (gives f ` set_option (c_create C h f) \<union> L)"
    "fst (create_call C f h) = Inr p \<longleftrightarrow> c_create C h f = Some p"
    "c_create C h f = Some p \<Longrightarrow> p \<notin> address_of ` L"
  using assms by (auto simp: create_call_def c_step_def c_lib_laws_def ok_or_eq_Inr)

text \<open>A text the library returned is there until it is dropped.\<close>

lemma heap_text_call:
  assumes "c_lib_laws C" "heap h = Some L" "uses f \<subseteq> L" "frees f = {}" "\<And>p. gives f p = CText p"
  shows "case fst (text_call C f h) of
      Inl e \<Rightarrow> heap (snd (text_call C f h)) = Some L
    | Inr (p, bs) \<Rightarrow> heap (snd (text_call C f h)) = Some (insert (CText p) L) \<and> p \<notin> address_of ` L"
proof (cases "c_text C h f")
  case None
  with assms show ?thesis by (simp add: text_call_def c_step_def)
next
  case (Some r)
  obtain p bs where r: "r = (p, bs)" by (cases r)
  with assms(1,2) Some have n: "p \<notin> address_of ` L" unfolding c_lib_laws_def by blast
  then have "CText p \<notin> L" by force
  moreover have "heap (h @ [(f, Some p)]) = Some (insert (CText p) L)" using assms by (simp add: c_step_def)
  ultimately show ?thesis
    using n Some r by (simp add: text_call_def tvm_string_from_raw_def heap_drop_string)
qed

lemma with_args_Inl [simp]: "with_args (Inl e) k h = (Inl e, h)"
  by (simp add: with_args_def)

lemma with_args_Inr [simp]: "with_args (Inr a) k h = k a h"
  by (simp add: with_args_def)

lemma c_string_cases: "c_string s = Inl InvalidCString \<or> c_string s = Inr s"
  by (simp add: c_string_def)

end
