(* ===== verification/Tvm_Grpc.thy ===== *)
theory Tvm_Grpc
  imports Emulator
begin

text \<open>
  The emulator server (\<open>tvm-grpc/src\<close>: \<open>threaded.rs\<close>, \<open>tvm.rs\<close>, \<open>tvm_emulator.rs\<close>, \<open>transaction_emulator.rs\<close>). Each of
  the two services has a worker thread with a state for each stream, a queue of commands, and the streams that
  its clients opened. JSON and the cache of configurations are of other crates and arguments.
\<close>

section \<open>Results\<close>

datatype tvm_status = Internal string | FailedPrecondition string

record 'd TvmResult =
  res_success :: bool
  res_error :: "string option"
  res_data :: "'d option"

definition tvm_result_into :: "'d \<Rightarrow> 'd TvmResult \<Rightarrow> tvm_status + 'd" where
  "tvm_result_into dflt r =
     (if res_success r then Inr (case res_data r of Some d \<Rightarrow> d | None \<Rightarrow> dflt)
      else Inl (Internal (case res_error r of Some e \<Rightarrow> e | None \<Rightarrow> ''ambiguous response'')))"

text \<open>\<open>map_err(|e| Status::internal(e.to_string()))\<close>.\<close>

definition internal :: "emu_error + 'a \<Rightarrow> tvm_status + 'a" where
  "internal = map_err (\<lambda>e. Internal (emu_error_text e))"

section \<open>Messages\<close>

record TvmRunResponse =
  rr_vm_exit_code :: i32
  rr_gas_used :: string
  rr_vm_log :: string
  rr_stack :: string
  rr_missing_library :: "string option"

record TvmSendResponse =
  sr_vm_exit_code :: i32
  sr_accepted :: bool
  sr_gas_used :: string
  sr_vm_log :: string
  sr_new_code :: string
  sr_new_data :: string
  sr_missing_library :: "string option"
  sr_actions :: "string option"

record TxEmulateResponse =
  er_transaction :: string
  er_shard_account :: string
  er_vm_log :: string
  er_actions :: "string option"

record TvmSetC7Request =
  c7_unixtime :: u32
  c7_balance :: u64
  c7_address :: string
  c7_rand_seed_hex :: string
  c7_config :: string
  c7_config_cache_key :: "string option"

datatype TvmRequest =
    TvmPrepare i32 string string
  | TvmRunGetMethod i32 string
  | TvmSendExternalMessage string
  | TvmSendInternalMessage u64 string
  | TvmSetLibraries string
  | TvmSetGasLimit i64
  | TvmSetC7 TvmSetC7Request

datatype TvmResponse =
    TvmPrepareResponse bool
  | TvmRunGetMethodResponse TvmRunResponse
  | TvmSendExternalMessageResponse TvmSendResponse
  | TvmSendInternalMessageResponse TvmSendResponse
  | TvmSetLibrariesResponse bool
  | TvmSetGasLimitResponse bool
  | TvmSetC7Response bool

datatype TxRequest =
    TxPrepare i32 string "string option"
  | TxEmulate string string
  | TxSetUnixtime u32
  | TxSetLt u64
  | TxSetRandSeed string
  | TxSetIgnoreChksig bool
  | TxSetConfig string
  | TxSetLibs string

datatype TxResponse =
    TxPrepareResponse bool
  | TxEmulateResponse TxEmulateResponse
  | TxSetUnixtimeResponse bool
  | TxSetLtResponse bool
  | TxSetRandSeedResponse bool
  | TxSetIgnoreChksigResponse bool
  | TxSetConfigResponse bool
  | TxSetLibsResponse bool

text \<open>
  The texts of the library are read by \<open>serde_json\<close>; a defaulted message has empty texts and zeros. The cache forgets
  entries when it is full and reorders them when one is read.
\<close>

record 'k tvm_lib =
  clib :: c_lib
  json_run :: "bytes \<Rightarrow> string + TvmRunResponse TvmResult"
  json_send :: "bytes \<Rightarrow> string + TvmSendResponse TvmResult"
  json_emulate :: "bytes \<Rightarrow> string + TxEmulateResponse TvmResult"
  cache_get :: "string \<Rightarrow> 'k \<Rightarrow> string option \<times> 'k"
  cache_insert :: "string \<Rightarrow> string \<Rightarrow> 'k \<Rightarrow> 'k"

definition empty_run :: TvmRunResponse where
  "empty_run = \<lparr>rr_vm_exit_code = 0, rr_gas_used = [], rr_vm_log = [], rr_stack = [], rr_missing_library = None\<rparr>"

definition empty_send :: TvmSendResponse where
  "empty_send = \<lparr>sr_vm_exit_code = 0, sr_accepted = False, sr_gas_used = [], sr_vm_log = [], sr_new_code = [],
     sr_new_data = [], sr_missing_library = None, sr_actions = None\<rparr>"

definition empty_emulate :: TxEmulateResponse where
  "empty_emulate = \<lparr>er_transaction = [], er_shard_account = [], er_vm_log = [], er_actions = None\<rparr>"

section \<open>Handlers\<close>

text \<open>
  A handler has the emulator of its stream, if there is one, the cache and the calls so far, and returns the answer with
  what became of them.
\<close>

type_synonym 'k emu_st = "nat option \<times> 'k \<times> c_calls"

definition not_initialized :: "tvm_status + 'r" where
  "not_initialized = Inl (Internal ''emulator not initialized'')"

text \<open>The text of a call, read as JSON and dropped at the end of the handler.\<close>

definition json_answer :: "(bytes \<Rightarrow> string + 'd TvmResult) \<Rightarrow> 'd \<Rightarrow> (emu_error + TvmString) \<times> c_calls
    \<Rightarrow> (tvm_status + 'd) \<times> c_calls" where
  "json_answer json dflt r =
     (case fst r of
        Inl e \<Rightarrow> (Inl (Internal (emu_error_text e)), snd r)
      | Inr (p, bs) \<Rightarrow> (bindr (map_err Internal (json bs)) (tvm_result_into dflt), drop_string p (snd r)))"

text \<open>The new emulator takes the place of the old one, which is dropped.\<close>

definition replace_emulator :: "(nat \<Rightarrow> c_calls \<Rightarrow> c_calls) \<Rightarrow> nat option \<Rightarrow> c_calls \<Rightarrow> c_calls" where
  "replace_emulator destroy old h = (case old of None \<Rightarrow> h | Some e \<Rightarrow> destroy e h)"

definition prepare_emu :: "'k tvm_lib \<Rightarrow> i32 \<Rightarrow> string \<Rightarrow> string \<Rightarrow> 'k emu_st \<Rightarrow> (tvm_status + bool) \<times> 'k emu_st" where
  "prepare_emu G verbosity code_boc data_boc = (\<lambda>(st, q, h).
     case tvm_new (clib G) code_boc data_boc verbosity h of
       (Inl e, h) \<Rightarrow> (Inl (Internal (emu_error_text e)), st, q, h)
     | (Inr e, h) \<Rightarrow> (Inr True, Some e, q, replace_emulator tvm_drop st h))"

definition run_get_method :: "'k tvm_lib \<Rightarrow> i32 \<Rightarrow> string \<Rightarrow> 'k emu_st \<Rightarrow> (tvm_status + TvmRunResponse) \<times> 'k emu_st" where
  "run_get_method G method_id stack_boc = (\<lambda>(st, q, h).
     case st of
       None \<Rightarrow> (not_initialized, st, q, h)
     | Some e \<Rightarrow>
         let (r, h) = json_answer (json_run G) empty_run (tvm_run_get_method (clib G) e method_id stack_boc h) in
         (r, st, q, h))"

definition send_external_message :: "'k tvm_lib \<Rightarrow> string \<Rightarrow> 'k emu_st \<Rightarrow> (tvm_status + TvmSendResponse) \<times> 'k emu_st" where
  "send_external_message G body_boc = (\<lambda>(st, q, h).
     case st of
       None \<Rightarrow> (not_initialized, st, q, h)
     | Some e \<Rightarrow>
         let (r, h) = json_answer (json_send G) empty_send (tvm_send_external_message (clib G) e body_boc h) in
         (r, st, q, h))"

definition send_internal_message :: "'k tvm_lib \<Rightarrow> string \<Rightarrow> u64 \<Rightarrow> 'k emu_st \<Rightarrow> (tvm_status + TvmSendResponse) \<times> 'k emu_st" where
  "send_internal_message G body_boc amount = (\<lambda>(st, q, h).
     case st of
       None \<Rightarrow> (not_initialized, st, q, h)
     | Some e \<Rightarrow>
         let (r, h) = json_answer (json_send G) empty_send (tvm_send_internal_message (clib G) e body_boc amount h) in
         (r, st, q, h))"

definition set_libraries :: "'k tvm_lib \<Rightarrow> string \<Rightarrow> 'k emu_st \<Rightarrow> (tvm_status + bool) \<times> 'k emu_st" where
  "set_libraries G libs_boc = (\<lambda>(st, q, h).
     case st of
       None \<Rightarrow> (not_initialized, st, q, h)
     | Some e \<Rightarrow> let (r, h) = tvm_set_libraries (clib G) e libs_boc h in (internal r, st, q, h))"

definition set_gas_limit :: "'k tvm_lib \<Rightarrow> i64 \<Rightarrow> 'k emu_st \<Rightarrow> (tvm_status + bool) \<times> 'k emu_st" where
  "set_gas_limit G gas_limit = (\<lambda>(st, q, h).
     case st of
       None \<Rightarrow> (not_initialized, st, q, h)
     | Some e \<Rightarrow> let (r, h) = tvm_set_gas_limit (clib G) e gas_limit h in (Inr r, st, q, h))"

text \<open>
  The configuration of a request: an empty one with a key is looked up in the cache, another one is put there.
\<close>

definition cached_config :: "'k tvm_lib \<Rightarrow> string option \<Rightarrow> string \<Rightarrow> 'k \<Rightarrow> (tvm_status + string) \<times> 'k" where
  "cached_config G cache_key config q =
     (case cache_key of
        None \<Rightarrow> (Inr config, q)
      | Some key \<Rightarrow>
          if config = [] then
            let (c, q') = cache_get G key q in (ok_or (FailedPrecondition ''config cache miss'') c, q')
          else (Inr config, cache_insert G key config q))"

definition set_c7 :: "'k tvm_lib \<Rightarrow> TvmSetC7Request \<Rightarrow> 'k emu_st \<Rightarrow> (tvm_status + bool) \<times> 'k emu_st" where
  "set_c7 G req = (\<lambda>(st, q, h).
     case st of
       None \<Rightarrow> (not_initialized, st, q, h)
     | Some e \<Rightarrow>
         (case cached_config G (c7_config_cache_key req) (c7_config req) q of
            (Inl s, q) \<Rightarrow> (Inl s, st, q, h)
          | (Inr config, q) \<Rightarrow>
              let (r, h) = tvm_set_c7 (clib G) e (c7_address req) (c7_unixtime req) (c7_balance req)
                (c7_rand_seed_hex req) config h in
              (internal r, st, q, h)))"

definition mapped :: "('a \<Rightarrow> 'b) \<Rightarrow> (tvm_status + 'a) \<times> 'x \<Rightarrow> (tvm_status + 'b) \<times> 'x" where
  "mapped f r = (map_ok f (fst r), snd r)"

fun tvm_handle :: "'k tvm_lib \<Rightarrow> TvmRequest \<Rightarrow> 'k emu_st \<Rightarrow> (tvm_status + TvmResponse) \<times> 'k emu_st" where
  "tvm_handle G (TvmPrepare v c d) s = mapped TvmPrepareResponse (prepare_emu G v c d s)"
| "tvm_handle G (TvmRunGetMethod m b) s = mapped TvmRunGetMethodResponse (run_get_method G m b s)"
| "tvm_handle G (TvmSendExternalMessage b) s = mapped TvmSendExternalMessageResponse (send_external_message G b s)"
| "tvm_handle G (TvmSendInternalMessage a b) s = mapped TvmSendInternalMessageResponse (send_internal_message G b a s)"
| "tvm_handle G (TvmSetLibraries b) s = mapped TvmSetLibrariesResponse (set_libraries G b s)"
| "tvm_handle G (TvmSetGasLimit g) s = mapped TvmSetGasLimitResponse (set_gas_limit G g s)"
| "tvm_handle G (TvmSetC7 req) s = mapped TvmSetC7Response (set_c7 G req s)"

text \<open>The transaction emulator. Its setters answer \<open>success: true\<close> whatever the library said.\<close>

definition tx_prepare :: "'k tvm_lib \<Rightarrow> i32 \<Rightarrow> string \<Rightarrow> string option \<Rightarrow> 'k emu_st \<Rightarrow> (tvm_status + bool) \<times> 'k emu_st" where
  "tx_prepare G vm_log_level config_boc cache_key = (\<lambda>(st, q, h).
     case cached_config G cache_key config_boc q of
       (Inl s, q) \<Rightarrow> (Inl s, st, q, h)
     | (Inr config, q) \<Rightarrow>
         (case tx_new (clib G) config vm_log_level h of
            (Inl e, h) \<Rightarrow> (Inl (Internal (emu_error_text e)), st, q, h)
          | (Inr e, h) \<Rightarrow> (Inr True, Some e, q, replace_emulator tx_drop st h)))"

definition emulate :: "'k tvm_lib \<Rightarrow> string \<Rightarrow> string \<Rightarrow> 'k emu_st \<Rightarrow> (tvm_status + TxEmulateResponse) \<times> 'k emu_st" where
  "emulate G shard_account_boc message_boc = (\<lambda>(st, q, h).
     case st of
       None \<Rightarrow> (not_initialized, st, q, h)
     | Some e \<Rightarrow>
         let (r, h) = json_answer (json_emulate G) empty_emulate (tx_emulate (clib G) e shard_account_boc message_boc h) in
         (r, st, q, h))"

definition set_unixtime :: "'k tvm_lib \<Rightarrow> u32 \<Rightarrow> 'k emu_st \<Rightarrow> (tvm_status + bool) \<times> 'k emu_st" where
  "set_unixtime G unixtime = (\<lambda>(st, q, h).
     case st of
       None \<Rightarrow> (not_initialized, st, q, h)
     | Some e \<Rightarrow> (Inr True, st, q, snd (tx_set_unixtime (clib G) e unixtime h)))"

definition set_lt :: "'k tvm_lib \<Rightarrow> u64 \<Rightarrow> 'k emu_st \<Rightarrow> (tvm_status + bool) \<times> 'k emu_st" where
  "set_lt G lt = (\<lambda>(st, q, h).
     case st of
       None \<Rightarrow> (not_initialized, st, q, h)
     | Some e \<Rightarrow> (Inr True, st, q, snd (tx_set_lt (clib G) e lt h)))"

definition set_rand_seed :: "'k tvm_lib \<Rightarrow> string \<Rightarrow> 'k emu_st \<Rightarrow> (tvm_status + bool) \<times> 'k emu_st" where
  "set_rand_seed G seed = (\<lambda>(st, q, h).
     case st of
       None \<Rightarrow> (not_initialized, st, q, h)
     | Some e \<Rightarrow> let (r, h) = tx_set_rand_seed (clib G) e seed h in (map_ok (\<lambda>_. True) (internal r), st, q, h))"

definition set_ignore_chksig :: "'k tvm_lib \<Rightarrow> bool \<Rightarrow> 'k emu_st \<Rightarrow> (tvm_status + bool) \<times> 'k emu_st" where
  "set_ignore_chksig G ignore = (\<lambda>(st, q, h).
     case st of
       None \<Rightarrow> (not_initialized, st, q, h)
     | Some e \<Rightarrow> (Inr True, st, q, snd (tx_set_ignore_chksig (clib G) e ignore h)))"

definition set_config :: "'k tvm_lib \<Rightarrow> string \<Rightarrow> 'k emu_st \<Rightarrow> (tvm_status + bool) \<times> 'k emu_st" where
  "set_config G config = (\<lambda>(st, q, h).
     case st of
       None \<Rightarrow> (not_initialized, st, q, h)
     | Some e \<Rightarrow> let (r, h) = tx_set_config (clib G) e config h in (map_ok (\<lambda>_. True) (internal r), st, q, h))"

definition set_libs :: "'k tvm_lib \<Rightarrow> string \<Rightarrow> 'k emu_st \<Rightarrow> (tvm_status + bool) \<times> 'k emu_st" where
  "set_libs G libs = (\<lambda>(st, q, h).
     case st of
       None \<Rightarrow> (not_initialized, st, q, h)
     | Some e \<Rightarrow> let (r, h) = tx_set_libs (clib G) e libs h in (map_ok (\<lambda>_. True) (internal r), st, q, h))"

fun tx_handle :: "'k tvm_lib \<Rightarrow> TxRequest \<Rightarrow> 'k emu_st \<Rightarrow> (tvm_status + TxResponse) \<times> 'k emu_st" where
  "tx_handle G (TxPrepare l c k) s = mapped TxPrepareResponse (tx_prepare G l c k s)"
| "tx_handle G (TxEmulate a m) s = mapped TxEmulateResponse (emulate G a m s)"
| "tx_handle G (TxSetUnixtime t) s = mapped TxSetUnixtimeResponse (set_unixtime G t s)"
| "tx_handle G (TxSetLt l) s = mapped TxSetLtResponse (set_lt G l s)"
| "tx_handle G (TxSetRandSeed x) s = mapped TxSetRandSeedResponse (set_rand_seed G x s)"
| "tx_handle G (TxSetIgnoreChksig b) s = mapped TxSetIgnoreChksigResponse (set_ignore_chksig G b s)"
| "tx_handle G (TxSetConfig c) s = mapped TxSetConfigResponse (set_config G c s)"
| "tx_handle G (TxSetLibs l) s = mapped TxSetLibsResponse (set_libs G l s)"

section \<open>The worker\<close>

datatype ('i, 'q) Command = CmdRequest 'i 'q | CmdDrop 'i

text \<open>
  A stream (\<open>process\<close>) reads its next message, or waits for the answer to one, or has ended. What comes in: a
  message with or without a request, an error, or nothing for three seconds; \<open>StreamEnd\<close> is the end of the stream.
\<close>

datatype stream_state = Reading | Awaiting u64 | Ended

datatype 'q incoming = StreamMsg u64 "'q option" | StreamError | Elapsed | StreamEnd

record ('i, 'q, 'r, 'k) emu_service =
  emu_states :: "'i \<Rightarrow> nat option option"
  emu_cache :: 'k
  emu_queue :: "('i, 'q) Command list"
  emu_streams :: "'i \<Rightarrow> stream_state option"
  emu_answers :: "('i \<times> u64 \<times> (tvm_status + 'r)) list"

text \<open>The emulator of a stream, \<open>states.entry(stream_id).or_default()\<close>.\<close>

definition emulator_of :: "('i \<Rightarrow> nat option option) \<Rightarrow> 'i \<Rightarrow> nat option" where
  "emulator_of states i = (case states i of Some st \<Rightarrow> st | None \<Rightarrow> None)"

text \<open>One turn of \<open>while let Some(command) = rx.blocking_recv()\<close>.\<close>

definition worker_step :: "('q \<Rightarrow> 'k emu_st \<Rightarrow> (tvm_status + 'r) \<times> 'k emu_st) \<Rightarrow> (nat \<Rightarrow> c_calls \<Rightarrow> c_calls)
    \<Rightarrow> ('i, 'q, 'r, 'k) emu_service \<times> c_calls \<Rightarrow> ('i, 'q, 'r, 'k) emu_service \<times> c_calls" where
  "worker_step handle destroy = (\<lambda>(S, h).
     case emu_queue S of
       [] \<Rightarrow> (S, h)
     | CmdDrop i # rest \<Rightarrow>
         (S\<lparr>emu_queue := rest, emu_states := (emu_states S)(i := None)\<rparr>,
          replace_emulator destroy (emulator_of (emu_states S) i) h)
     | CmdRequest i req # rest \<Rightarrow>
         let (r, st, q, h) = handle req (emulator_of (emu_states S) i, emu_cache S, h);
             S = S\<lparr>emu_queue := rest, emu_cache := q\<rparr> in
         (case emu_streams S i of
            Some (Awaiting n) \<Rightarrow>
              (S\<lparr>emu_states := (emu_states S)(i \<mapsto> st), emu_streams := (emu_streams S)(i \<mapsto> Reading),
                 emu_answers := emu_answers S @ [(i, n, r)]\<rparr>, h)
          | _ \<Rightarrow> (S\<lparr>emu_states := (emu_states S)(i := None)\<rparr>, replace_emulator destroy st h)))"

section \<open>Streams\<close>

text \<open>
  The end of a stream, whether the loop is left or the stream is dropped, drops \<open>Stop\<close>, which sends the last command.
\<close>

definition stop_stream :: "'i \<Rightarrow> ('i, 'q, 'r, 'k) emu_service \<Rightarrow> ('i, 'q, 'r, 'k) emu_service" where
  "stop_stream i S =
     S\<lparr>emu_streams := (emu_streams S)(i \<mapsto> Ended), emu_queue := emu_queue S @ [CmdDrop i]\<rparr>"

fun stream_incoming :: "'i \<Rightarrow> 'q incoming \<Rightarrow> ('i, 'q, 'r, 'k) emu_service \<Rightarrow> ('i, 'q, 'r, 'k) emu_service" where
  "stream_incoming i (StreamMsg n (Some req)) S =
     S\<lparr>emu_streams := (emu_streams S)(i \<mapsto> Awaiting n), emu_queue := emu_queue S @ [CmdRequest i req]\<rparr>"
| "stream_incoming i (StreamMsg n None) S = stop_stream i S"
| "stream_incoming i StreamError S = stop_stream i S"
| "stream_incoming i Elapsed S = stop_stream i S"
| "stream_incoming i StreamEnd S = stop_stream i S"

text \<open>
  What happens to a service, in any order: a client opens a stream, whose id is new; a message comes in; a client goes
  away; the worker takes a command. A command is handled and answered in one step: the workers of the two services run
  side by side, but each calls the C library only for the emulators that it owns.
\<close>

datatype ('i, 'q) emu_event = OpenStream 'i | Incoming 'i "'q incoming" | Abandon 'i | Work

definition service_step :: "('q \<Rightarrow> 'k emu_st \<Rightarrow> (tvm_status + 'r) \<times> 'k emu_st) \<Rightarrow> (nat \<Rightarrow> c_calls \<Rightarrow> c_calls)
    \<Rightarrow> ('i, 'q) emu_event \<Rightarrow> ('i, 'q, 'r, 'k) emu_service \<times> c_calls \<Rightarrow> ('i, 'q, 'r, 'k) emu_service \<times> c_calls" where
  "service_step handle destroy ev s =
     (case ev of
        OpenStream i \<Rightarrow>
          if emu_streams (fst s) i = None
          then ((fst s)\<lparr>emu_streams := (emu_streams (fst s))(i \<mapsto> Reading)\<rparr>, snd s) else s
      | Incoming i m \<Rightarrow> if emu_streams (fst s) i = Some Reading then (stream_incoming i m (fst s), snd s) else s
      | Abandon i \<Rightarrow>
          (case emu_streams (fst s) i of
             Some Reading \<Rightarrow> (stop_stream i (fst s), snd s)
           | Some (Awaiting n) \<Rightarrow> (stop_stream i (fst s), snd s)
           | _ \<Rightarrow> s)
      | Work \<Rightarrow> worker_step handle destroy s)"

text \<open>The service of the TVM emulator and the one of the transaction emulator, with the same worker and streams.\<close>

definition tvm_service_step :: "'k tvm_lib \<Rightarrow> ('i, TvmRequest) emu_event \<Rightarrow> ('i, TvmRequest, TvmResponse, 'k) emu_service \<times> c_calls
    \<Rightarrow> ('i, TvmRequest, TvmResponse, 'k) emu_service \<times> c_calls" where
  "tvm_service_step G = service_step (tvm_handle G) tvm_drop"

definition tx_service_step :: "'k tvm_lib \<Rightarrow> ('i, TxRequest) emu_event \<Rightarrow> ('i, TxRequest, TxResponse, 'k) emu_service \<times> c_calls
    \<Rightarrow> ('i, TxRequest, TxResponse, 'k) emu_service \<times> c_calls" where
  "tx_service_step G = service_step (tx_handle G) tx_drop"

section \<open>The server\<close>

text \<open>The two services share the C library. \<open>RunOnce\<close> is the call \<open>RunGetMethod\<close>, which has no stream.\<close>

record ('i, 'k) emu_server =
  srv_tvm :: "('i, TvmRequest, TvmResponse, 'k) emu_service"
  srv_tx :: "('i, TxRequest, TxResponse, 'k) emu_service"
  srv_calls :: c_calls

datatype 'i server_event = TvmEvent "('i, TvmRequest) emu_event" | TxEvent "('i, TxRequest) emu_event" | RunOnce bytes i64

definition run_get_method_once :: "c_lib \<Rightarrow> bytes \<Rightarrow> i64 \<Rightarrow> c_calls \<Rightarrow> (tvm_status + bytes) \<times> c_calls" where
  "run_get_method_once C params_boc gas_limit h =
     (case tvm_run_get_method_once C params_boc gas_limit h of
        (Inl e, h) \<Rightarrow> (Inl (Internal (emu_error_text e)), h)
      | (Inr b, h) \<Rightarrow>
          (map_err Internal (tvm_buffer_as_str C b), drop_string (buf_ptr b) h))"

definition server_step :: "'k tvm_lib \<Rightarrow> 'i server_event \<Rightarrow> ('i, 'k) emu_server \<Rightarrow> ('i, 'k) emu_server" where
  "server_step G ev s =
     (case ev of
        TvmEvent e \<Rightarrow>
          let (S, h) = tvm_service_step G e (srv_tvm s, srv_calls s) in s\<lparr>srv_tvm := S, srv_calls := h\<rparr>
      | TxEvent e \<Rightarrow>
          let (S, h) = tx_service_step G e (srv_tx s, srv_calls s) in s\<lparr>srv_tx := S, srv_calls := h\<rparr>
      | RunOnce params_boc gas_limit \<Rightarrow>
          s\<lparr>srv_calls := snd (run_get_method_once (clib G) params_boc gas_limit (srv_calls s))\<rparr>)"

definition new_service :: "'k \<Rightarrow> ('i, 'q, 'r, 'k) emu_service" where
  "new_service q = \<lparr>emu_states = (\<lambda>_. None), emu_cache = q, emu_queue = [], emu_streams = (\<lambda>_. None), emu_answers = []\<rparr>"

definition new_server :: "c_lib \<Rightarrow> 'k \<Rightarrow> 'k \<Rightarrow> ('i, 'k) emu_server" where
  "new_server C q q' =
     \<lparr>srv_tvm = new_service q, srv_tx = new_service q', srv_calls = snd (tvm_set_verbosity_level C 0 [])\<rparr>"

definition run_server :: "'k tvm_lib \<Rightarrow> 'k \<Rightarrow> 'k \<Rightarrow> 'i server_event list \<Rightarrow> ('i, 'k) emu_server" where
  "run_server G q q' evs = fold (server_step G) evs (new_server (clib G) q q')"

end
