(* ===== verification/Tvm_Grpc_Correct.thy ===== *)
theory Tvm_Grpc_Correct
  imports Tvm_Grpc
begin

text \<open>
  The emulator server frees what it allocates: the contract of a handler and its emulator as a locale, its
  interpretation for both services, and what follows for the server.
\<close>

section \<open>Ownership\<close>

lemma emulator_of_upd [simp]:
  "emulator_of (states(i := x)) j = (if j = i then (case x of Some st \<Rightarrow> st | None \<Rightarrow> None) else emulator_of states j)"
  by (simp add: emulator_of_def)

lemma emulator_of_Some: "emulator_of states i = Some p \<longleftrightarrow> states i = Some (Some p)"
  by (simp add: emulator_of_def split: option.split)

definition handles :: "(nat \<Rightarrow> resource) \<Rightarrow> ('i \<Rightarrow> nat option option) \<Rightarrow> resource set" where
  "handles H states = {H p | p i. emulator_of states i = Some p}"

definition one_owner :: "('i \<Rightarrow> nat option option) \<Rightarrow> bool" where
  "one_owner states \<longleftrightarrow> (\<forall>i j p. emulator_of states i = Some p \<and> emulator_of states j = Some p \<longrightarrow> i = j)"

text \<open>What is allocated: the emulators of the streams, one for each, and what others own.\<close>

definition owns :: "(nat \<Rightarrow> resource) \<Rightarrow> ('i \<Rightarrow> nat option option) \<Rightarrow> resource set \<Rightarrow> c_calls \<Rightarrow> bool" where
  "owns H states R h \<longleftrightarrow> heap h = Some (handles H states \<union> R) \<and> handles H states \<inter> R = {} \<and> one_owner states"

definition owns_one :: "(nat \<Rightarrow> resource) \<Rightarrow> nat option \<Rightarrow> resource set \<Rightarrow> c_calls \<Rightarrow> bool" where
  "owns_one H st R h \<longleftrightarrow> heap h = Some (H ` set_option st \<union> R) \<and> H ` set_option st \<inter> R = {}"

lemma handles_split:
  assumes "inj H" "one_owner states"
  shows "handles H states = H ` set_option (emulator_of states i) \<union> handles H (states(i := None))"
    "H ` set_option (emulator_of states i) \<inter> handles H (states(i := None)) = {}"
proof -
  show "handles H states = H ` set_option (emulator_of states i) \<union> handles H (states(i := None))" (is "?l = ?r")
  proof (intro set_eqI iffI)
    fix x assume "x \<in> ?l"
    then obtain p j where "x = H p" "emulator_of states j = Some p" by (auto simp: handles_def)
    then show "x \<in> ?r" by (cases "j = i") (auto simp: handles_def)
  qed (auto simp: handles_def split: if_splits)
  show "H ` set_option (emulator_of states i) \<inter> handles H (states(i := None)) = {}"
    using assms unfolding handles_def one_owner_def by (fastforce dest: injD split: if_splits)
qed

lemma one_owner_upd: "one_owner states \<Longrightarrow> one_owner (states(i := None))"
  by (auto simp: one_owner_def)

lemma owns_focus:
  assumes "inj H" "owns H states R h"
  shows "owns_one H (emulator_of states i) (handles H (states(i := None)) \<union> R) h"
  using assms handles_split [of H states i] unfolding owns_def owns_one_def by auto

lemma owns_unfocus:
  assumes "inj H" "owns_one H st (handles H (states(i := None)) \<union> R) h"
    and "handles H (states(i := None)) \<inter> R = {}" "one_owner (states(i := None))"
  shows "owns H (states(i \<mapsto> st)) R h"
proof -
  have "handles H (states(i \<mapsto> st)) = H ` set_option st \<union> handles H (states(i := None))"
    by (auto simp: handles_def)
  moreover have "one_owner (states(i \<mapsto> st))"
    unfolding one_owner_def
  proof (intro allI impI, elim conjE)
    fix j k p assume j: "emulator_of (states(i \<mapsto> st)) j = Some p" and k: "emulator_of (states(i \<mapsto> st)) k = Some p"
    have n: "emulator_of states l \<noteq> Some p" if "st = Some p" "l \<noteq> i" for l
    proof
      assume "emulator_of states l = Some p"
      with that(2) have "emulator_of (states(i := None)) l = Some p" by simp
      then have "H p \<in> handles H (states(i := None))" unfolding handles_def by blast
      with assms(2) that(1) show False by (simp add: owns_one_def)
    qed
    show "j = k" using j k n [of j] n [of k] assms(4) [unfolded one_owner_def, rule_format, of j p k]
      by (auto split: if_splits)
  qed
  ultimately show ?thesis using assms(2,3) unfolding owns_def owns_one_def by auto
qed

lemma owns_removed:
  assumes "owns_one H None (handles H (states(i := None)) \<union> R) h"
    and "handles H (states(i := None)) \<inter> R = {}" "one_owner (states(i := None))"
  shows "owns H (states(i := None)) R h"
  using assms by (auto simp: owns_def owns_one_def)

section \<open>The contract of a service\<close>

locale emulator_service =
  fixes C :: c_lib
    and handle :: "'q \<Rightarrow> 'k emu_st \<Rightarrow> (tvm_status + 'r) \<times> 'k emu_st"
    and destroy :: "nat \<Rightarrow> c_calls \<Rightarrow> c_calls"
    and H :: "nat \<Rightarrow> resource"
  assumes inj_H: "inj H"
    and handle_owns: "c_lib_laws C \<Longrightarrow> owns_one H st R h \<Longrightarrow> handle req (st, q, h) = (r, st', q', h') \<Longrightarrow> owns_one H st' R h'"
    and destroy_owns: "owns_one H (Some p) R h \<Longrightarrow> owns_one H None R (destroy p h)"
begin

lemma drop_owns: "owns_one H st R h \<Longrightarrow> owns_one H None R (replace_emulator destroy st h)"
  by (cases st) (simp_all add: replace_emulator_def destroy_owns)

lemma worker_owns:
  assumes C: "c_lib_laws C" and own: "owns H (emu_states S) R h" and step: "worker_step handle destroy (S, h) = (S', h')"
  shows "owns H (emu_states S') R h'"
proof (cases "emu_queue S")
  case (Cons c rest)
  have rest: "handles H ((emu_states S)(i := None)) \<inter> R = {}" "one_owner ((emu_states S)(i := None))" for i
    using own one_owner_upd unfolding owns_def handles_def by (fastforce split: if_splits)+
  note f = owns_focus [OF inj_H own]
  show ?thesis
  proof (cases c)
    case (CmdDrop i)
    with step Cons show ?thesis
      by (auto simp: worker_step_def intro: owns_removed [OF drop_owns [OF f] rest])
  next
    case (CmdRequest i req)
    obtain r st q g where g: "handle req (emulator_of (emu_states S) i, emu_cache S, h) = (r, st, q, g)"
      by (metis prod_cases4)
    from handle_owns [OF C f g] have o: "owns_one H st (handles H ((emu_states S)(i := None)) \<union> R) g" .
    have "owns H ((emu_states S)(i \<mapsto> st)) R g" by (rule owns_unfocus [OF inj_H o rest])
    moreover have "owns H ((emu_states S)(i := None)) R (replace_emulator destroy st g)"
      by (rule owns_removed [OF drop_owns [OF o] rest])
    ultimately show ?thesis using step Cons CmdRequest g
      by (auto simp: worker_step_def Let_def split: option.splits stream_state.splits)
  qed
qed (use assms in \<open>simp add: worker_step_def\<close>)

lemma stream_incoming_states [simp]: "emu_states (stream_incoming i m S) = emu_states S"
  by (induction i m S rule: stream_incoming.induct) (simp_all add: stop_stream_def)

lemma service_owns:
  assumes "c_lib_laws C" and "owns H (emu_states S) R h" and "service_step handle destroy ev (S, h) = (S', h')"
  shows "owns H (emu_states S') R h'"
  using assms worker_owns [of S R h S' h']
  by (cases ev) (auto simp: service_step_def stop_stream_def split: if_splits option.splits stream_state.splits)

end

section \<open>Streams that end\<close>

text \<open>A state belongs to a stream that is open, or its last command is still to be taken.\<close>

definition tracked :: "('i, 'q, 'r, 'k) emu_service \<Rightarrow> bool" where
  "tracked S \<longleftrightarrow> (\<forall>i. emu_states S i \<noteq> None \<longrightarrow>
     (\<exists>st. emu_streams S i = Some st \<and> (st = Ended \<longrightarrow> CmdDrop i \<in> set (emu_queue S))))"

text \<open>An open stream that waits has its request in the queue.\<close>

definition pending :: "('i, 'q, 'r, 'k) emu_service \<Rightarrow> bool" where
  "pending S \<longleftrightarrow> (\<forall>i n. emu_streams S i = Some (Awaiting n) \<longrightarrow> (\<exists>req. CmdRequest i req \<in> set (emu_queue S)))"

definition quiet :: "('i, 'q, 'r, 'k) emu_service \<Rightarrow> bool" where
  "quiet S \<longleftrightarrow> emu_queue S = [] \<and> (\<forall>i. emu_streams S i = None \<or> emu_streams S i = Some Ended)"

lemma tracked_quiet: "tracked S \<Longrightarrow> quiet S \<Longrightarrow> emu_states S = (\<lambda>_. None)"
proof (rule ext, rule ccontr)
  fix i assume t: "tracked S" and q: "quiet S" and "emu_states S i \<noteq> None"
  then obtain st where "emu_streams S i = Some st" "st = Ended \<longrightarrow> CmdDrop i \<in> set (emu_queue S)"
    unfolding tracked_def by blast
  moreover have "emu_queue S = []" "emu_streams S i = None \<or> emu_streams S i = Some Ended"
    using q by (simp_all add: quiet_def)
  ultimately show False by auto
qed

lemma worker_tracked:
  assumes "tracked S" and "worker_step handle destroy (S, h) = (S', h')"
  shows "tracked S'"
proof (cases "emu_queue S")
  case (Cons c rest)
  show ?thesis
  proof (cases c)
    case (CmdDrop i)
    with assms Cons show ?thesis by (fastforce simp: worker_step_def tracked_def split: if_splits)
  next
    case (CmdRequest i req)
    obtain r st q g where "handle req (emulator_of (emu_states S) i, emu_cache S, h) = (r, st, q, g)"
      by (metis prod_cases4)
    with assms Cons CmdRequest show ?thesis
      by (fastforce simp: worker_step_def tracked_def Let_def split: if_splits option.splits stream_state.splits)
  qed
qed (use assms in \<open>simp add: worker_step_def\<close>)

lemma stop_tracked: "tracked S \<Longrightarrow> tracked (stop_stream i S)"
  by (auto simp: tracked_def stop_stream_def)

lemma incoming_tracked: "tracked S \<Longrightarrow> emu_streams S i = Some Reading \<Longrightarrow> tracked (stream_incoming i m S)"
  by (induction i m S rule: stream_incoming.induct) (auto simp: stop_tracked, auto simp: tracked_def)

lemma service_tracked:
  assumes "tracked S" and "service_step handle destroy ev (S, h) = (S', h')"
  shows "tracked S'"
proof (cases ev)
  case (OpenStream i)
  with assms show ?thesis by (auto simp: service_step_def tracked_def split: if_splits)
next
  case (Incoming i m)
  with assms show ?thesis by (auto simp: service_step_def incoming_tracked split: if_splits)
next
  case (Abandon i)
  with assms show ?thesis by (auto simp: service_step_def stop_tracked split: option.splits stream_state.splits)
next
  case Work
  with assms worker_tracked [of S handle destroy h S' h'] show ?thesis by (simp add: service_step_def)
qed

section \<open>The handlers\<close>

lemma owns_oneI: "heap h = Some (H ` set_option st \<union> R) \<Longrightarrow> (\<And>p. st = Some p \<Longrightarrow> H p \<notin> R) \<Longrightarrow> owns_one H st R h"
  by (auto simp: owns_one_def)

text \<open>A call that returns a flag, or a text that is read and dropped, leaves everything as it was.\<close>

lemma flag_owns:
  "owns_one H st R h \<Longrightarrow> uses f \<subseteq> H ` set_option st \<Longrightarrow> frees f = {} \<Longrightarrow> owns_one H st R (snd (flag_call C f h))"
  using heap_flag_call [of h _ f C] by (auto simp: owns_one_def)

lemma json_owns:
  assumes C: "c_lib_laws C" and o: "owns_one H st R h"
    and f: "uses f \<subseteq> H ` set_option st" "frees f = {}" "\<And>p. gives f p = CText p"
  shows "owns_one H st R (snd (json_answer json dflt (text_call C f h)))"
proof -
  let ?L = "H ` set_option st \<union> R"
  have h: "heap h = Some ?L" and d: "H ` set_option st \<inter> R = {}" using o by (simp_all add: owns_one_def)
  from heap_text_call [OF C h _ f(2,3)] f(1)
  have t: "case fst (text_call C f h) of Inl e \<Rightarrow> heap (snd (text_call C f h)) = Some ?L
    | Inr (p, bs) \<Rightarrow> heap (snd (text_call C f h)) = Some (insert (CText p) ?L) \<and> p \<notin> address_of ` ?L" by blast
  have "CText p \<notin> ?L" if "p \<notin> address_of ` ?L" for p using that imageI [of "CText p" ?L address_of] by auto
  with t d show ?thesis
    by (cases "fst (text_call C f h)") (auto simp: json_answer_def owns_one_def heap_drop_string split: prod.splits)
qed

lemma create_owns:
  assumes C: "c_lib_laws C" and o: "owns_one H st R h" and f: "uses f = {}" "frees f = {}"
    and H: "\<And>p. gives f p = H p" "\<And>p. address_of (H p) = p"
    and d: "\<And>p R h. owns_one H (Some p) R h \<Longrightarrow> owns_one H None R (destroy p h)"
  shows "case create_call C f h of
      (Inl e, h') \<Rightarrow> owns_one H st R h'
    | (Inr e, h') \<Rightarrow> owns_one H (Some e) R (replace_emulator destroy st h')"
proof -
  let ?L = "H ` set_option st \<union> R"
  have h: "heap h = Some ?L" and n: "H ` set_option st \<inter> R = {}" using o by (simp_all add: owns_one_def)
  note c = heap_create_call [OF C h f]
  show ?thesis
  proof (cases "c_create C h f")
    case None
    with c(1) n show ?thesis by (simp add: create_call_def owns_one_def)
  next
    case (Some e)
    from c(3) [OF Some] have e: "H e \<notin> ?L" using H(2) [of e] by force
    let ?h = "snd (create_call C f h)"
    have he: "heap ?h = Some (insert (H e) ?L)" using c(1) Some H(1) by simp
    have "owns_one H (Some e) R (replace_emulator destroy st ?h)"
    proof (cases st)
      case None
      with he e show ?thesis by (simp add: owns_one_def replace_emulator_def)
    next
      case st: (Some x)
      have "owns_one H (Some x) (insert (H e) R) ?h" using he e n st by (auto simp: owns_one_def insert_commute)
      from d [OF this] e show ?thesis by (simp add: st owns_one_def replace_emulator_def)
    qed
    then show ?thesis using Some by (simp add: create_call_def)
  qed
qed

lemma inj_handles: "inj TvmHandle" "inj TxHandle"
  by (simp_all add: inj_def)

lemma tvm_drop_owns: "owns_one TvmHandle (Some p) R h \<Longrightarrow> owns_one TvmHandle None R (tvm_drop p h)"
  by (simp add: owns_one_def tvm_drop_def c_step_def)

lemma tx_drop_owns: "owns_one TxHandle (Some p) R h \<Longrightarrow> owns_one TxHandle None R (tx_drop p h)"
  by (simp add: owns_one_def tx_drop_def c_step_def)

text \<open>Arguments with a NUL leave everything as it was, too.\<close>

lemma with_args_owns:
  "owns_one H st R h \<Longrightarrow> (\<And>a. owns_one H st R (snd (k a h))) \<Longrightarrow> owns_one H st R (snd (with_args r k h))"
  by (cases r) simp_all

lemma json_answer_Inl [simp]: "json_answer json dflt (Inl e, h) = (Inl (Internal (emu_error_text e)), h)"
  by (simp add: json_answer_def)

lemma json_with_args_owns:
  assumes "owns_one H st R h" and "\<And>a. owns_one H st R (snd (json_answer json dflt (k a h)))"
  shows "owns_one H st R (snd (json_answer json dflt (with_args r k h)))"
  using assms by (cases r) simp_all

text \<open>The state after a handler.\<close>

abbreviation after_owns :: "(nat \<Rightarrow> resource) \<Rightarrow> resource set \<Rightarrow> 'x \<times> 'k emu_st \<Rightarrow> bool" where
  "after_owns H R r \<equiv> owns_one H (fst (snd r)) R (snd (snd (snd r)))"

lemma mapped_after [simp]: "snd (mapped f r) = snd r"
  by (simp add: mapped_def)

lemma prepare_emu_owns:
  assumes C: "c_lib_laws (clib G)" and o: "owns_one TvmHandle st R h"
  shows "after_owns TvmHandle R (prepare_emu G v c d (st, q, h))"
proof -
  have "case create_call (clib G) (TvmCreate c d v) h of (Inl e, h') \<Rightarrow> owns_one TvmHandle st R h'
      | (Inr e, h') \<Rightarrow> owns_one TvmHandle (Some e) R (replace_emulator tvm_drop st h')" for c d
    by (rule create_owns [OF C o]) (simp_all add: tvm_drop_owns)
  from this [of c d] o show ?thesis
    by (cases "c_string c"; cases "c_string d")
      (auto simp: prepare_emu_def tvm_new_def c_string_def split: prod.splits sum.splits if_splits)
qed

lemma tx_prepare_owns:
  assumes C: "c_lib_laws (clib G)" and o: "owns_one TxHandle st R h"
  shows "after_owns TxHandle R (tx_prepare G l c k (st, q, h))"
proof -
  have n: "case create_call (clib G) (TxCreate c l) h of (Inl e, h') \<Rightarrow> owns_one TxHandle st R h'
      | (Inr e, h') \<Rightarrow> owns_one TxHandle (Some e) R (replace_emulator tx_drop st h')" for c
    by (rule create_owns [OF C o]) (simp_all add: tx_drop_owns)
  obtain r q' where r: "cached_config G k c q = (r, q')" by (cases "cached_config G k c q")
  show ?thesis
  proof (cases r)
    case (Inr config)
    with n [of config] r o show ?thesis
      by (cases "c_string config") (auto simp: tx_prepare_def tx_new_def c_string_def split: prod.splits sum.splits if_splits)
  qed (use r o in \<open>simp add: tx_prepare_def\<close>)
qed

lemma tvm_json_handlers_own:
  assumes C: "c_lib_laws (clib G)" and o: "owns_one TvmHandle st R h"
  shows "after_owns TvmHandle R (run_get_method G m b (st, q, h))"
    "after_owns TvmHandle R (send_external_message G b (st, q, h))"
    "after_owns TvmHandle R (send_internal_message G b a (st, q, h))"
proof -
  have t: "owns_one TvmHandle (Some e) R
      (snd (json_answer json dflt (with_args r (\<lambda>s. text_call (clib G) (OnTvm e (f s))) h)))"
    if "st = Some e" for e r f and json :: "bytes \<Rightarrow> string + 'd TvmResult" and dflt :: 'd
    using json_with_args_owns [OF o, of json dflt _ r] json_owns [OF C o, of _ json dflt] that by simp
  show "after_owns TvmHandle R (run_get_method G m b (st, q, h))"
    using o t [of _ "json_run G"] by (cases st) (auto simp: run_get_method_def tvm_run_get_method_def split_beta)
  show "after_owns TvmHandle R (send_external_message G b (st, q, h))"
    using o t [of _ "json_send G"] by (cases st) (auto simp: send_external_message_def tvm_send_external_message_def split_beta)
  show "after_owns TvmHandle R (send_internal_message G b a (st, q, h))"
    using o t [of _ "json_send G" empty_send "c_string b" "\<lambda>s. CSendInternalMessage s a"]
    by (cases st) (auto simp: send_internal_message_def tvm_send_internal_message_def split_beta)
qed

lemma emulate_owns:
  assumes C: "c_lib_laws (clib G)" and o: "owns_one TxHandle st R h"
  shows "after_owns TxHandle R (emulate G a m (st, q, h))"
proof (cases st)
  case (Some e)
  have "owns_one TxHandle st R (snd (json_answer (json_emulate G) empty_emulate (tx_emulate (clib G) e a m h)))"
    unfolding tx_emulate_def
    by (intro json_with_args_owns o json_owns [OF C o]) (simp_all add: Some)
  with Some show ?thesis by (simp add: emulate_def split_beta)
qed (use o in \<open>simp add: emulate_def\<close>)

lemma snd_flag_ok [simp]: "snd (flag_ok r) = snd r"
  by (simp add: flag_ok_def)

lemma tvm_flag_handlers_own:
  assumes o: "owns_one TvmHandle st R h"
  shows "after_owns TvmHandle R (set_libraries G b (st, q, h))"
    "after_owns TvmHandle R (set_gas_limit G g (st, q, h))"
    "after_owns TvmHandle R (set_c7 G req (st, q, h))"
proof -
  have f: "owns_one TvmHandle st R (snd (flag_call C (OnTvm e f) h))" if "st = Some e" for C e f
    using that by (intro flag_owns [OF o]) simp_all
  show "after_owns TvmHandle R (set_libraries G b (st, q, h))"
    using o f by (cases st) (auto simp: set_libraries_def tvm_set_libraries_def split_beta intro: with_args_owns)
  show "after_owns TvmHandle R (set_gas_limit G g (st, q, h))"
    using o f by (cases st) (auto simp: set_gas_limit_def tvm_set_gas_limit_def split_beta)
  show "after_owns TvmHandle R (set_c7 G req (st, q, h))"
  proof (cases st)
    case (Some e)
    have "owns_one TvmHandle st R (snd (tvm_set_c7 (clib G) e a u b r c h))" for a u b r c
      unfolding tvm_set_c7_def using o f [OF Some] by (intro with_args_owns) simp_all
    with o Some show ?thesis
      by (cases "cached_config G (c7_config_cache_key req) (c7_config req) q")
        (auto simp: set_c7_def split_beta split: sum.split)
  qed (use o in \<open>simp add: set_c7_def\<close>)
qed

lemma tx_flag_handlers_own:
  assumes o: "owns_one TxHandle st R h"
  shows "after_owns TxHandle R (set_unixtime G t (st, q, h))"
    "after_owns TxHandle R (set_lt G l (st, q, h))"
    "after_owns TxHandle R (set_rand_seed G x (st, q, h))"
    "after_owns TxHandle R (set_ignore_chksig G b (st, q, h))"
    "after_owns TxHandle R (set_config G x (st, q, h))"
    "after_owns TxHandle R (set_libs G x (st, q, h))"
proof -
  have f: "owns_one TxHandle st R (snd (flag_call C (OnTx e f) h))" if "st = Some e" for C e f
    using that by (intro flag_owns [OF o]) simp_all
  have w: "owns_one TxHandle st R (snd (with_args r (\<lambda>s h. flag_ok (flag_call C (OnTx e (k s)) h)) h))"
    if "st = Some e" for C e k and r :: "emu_error + 'x"
    using o f [OF that] by (intro with_args_owns) simp_all
  show "after_owns TxHandle R (set_unixtime G t (st, q, h))"
    using o f by (cases st) (auto simp: set_unixtime_def tx_set_unixtime_def)
  show "after_owns TxHandle R (set_lt G l (st, q, h))"
    using o f by (cases st) (auto simp: set_lt_def tx_set_lt_def)
  show "after_owns TxHandle R (set_rand_seed G x (st, q, h))"
    using o w by (cases st) (auto simp: set_rand_seed_def tx_set_rand_seed_def split_beta)
  show "after_owns TxHandle R (set_ignore_chksig G b (st, q, h))"
    using o f by (cases st) (auto simp: set_ignore_chksig_def tx_set_ignore_chksig_def)
  show "after_owns TxHandle R (set_config G x (st, q, h))"
    using o w by (cases st) (auto simp: set_config_def tx_set_config_def split_beta)
  show "after_owns TxHandle R (set_libs G x (st, q, h))"
    using o w by (cases st) (auto simp: set_libs_def tx_set_libs_def split_beta)
qed

lemma tvm_handle_owns:
  "c_lib_laws (clib G) \<Longrightarrow> owns_one TvmHandle st R h \<Longrightarrow> after_owns TvmHandle R (tvm_handle G req (st, q, h))"
  by (cases req) (simp_all add: prepare_emu_owns tvm_json_handlers_own tvm_flag_handlers_own)

lemma tx_handle_owns:
  "c_lib_laws (clib G) \<Longrightarrow> owns_one TxHandle st R h \<Longrightarrow> after_owns TxHandle R (tx_handle G req (st, q, h))"
  by (cases req) (simp_all add: tx_prepare_owns emulate_owns tx_flag_handlers_own)

interpretation tvm: emulator_service "clib G" "tvm_handle G" tvm_drop TvmHandle for G
proof
  show "owns_one TvmHandle st' R h'" if "c_lib_laws (clib G)" "owns_one TvmHandle st R h"
    "tvm_handle G req (st, q, h) = (r, st', q', h')" for st R h req q r st' q' h'
    using tvm_handle_owns [OF that(1,2), of req q] that(3) by simp
qed (simp_all add: inj_handles tvm_drop_owns)

interpretation tx: emulator_service "clib G" "tx_handle G" tx_drop TxHandle for G
proof
  show "owns_one TxHandle st' R h'" if "c_lib_laws (clib G)" "owns_one TxHandle st R h"
    "tx_handle G req (st, q, h) = (r, st', q', h')" for st R h req q r st' q' h'
    using tx_handle_owns [OF that(1,2), of req q] that(3) by simp
qed (simp_all add: inj_handles tx_drop_owns)

section \<open>Answers\<close>

text \<open>
  A request that is in the queue of a worker is answered: as many turns as there are commands before it and one more
  give the answer to the stream that waits for it.
\<close>

lemma worker_other:
  assumes "emu_queue S = c # rest" and "\<And>req. c \<noteq> CmdRequest i req" and "worker_step handle destroy (S, h) = (S', h')"
  shows "emu_queue S' = rest" "emu_streams S' i = emu_streams S i"
proof -
  have "emu_queue S' = rest \<and> emu_streams S' i = emu_streams S i"
  proof (cases c)
    case (CmdDrop j)
    with assms show ?thesis by (auto simp: worker_step_def)
  next
    case (CmdRequest j req)
    obtain r st q g where "handle req (emulator_of (emu_states S) j, emu_cache S, h) = (r, st, q, g)"
      by (metis prod_cases4)
    moreover have "j \<noteq> i" using assms(2) CmdRequest by blast
    ultimately show ?thesis using assms(1,3) CmdRequest
      by (auto simp: worker_step_def Let_def split: option.splits stream_state.splits)
  qed
  then show "emu_queue S' = rest" "emu_streams S' i = emu_streams S i" by simp_all
qed

lemma request_is_answered:
  assumes "emu_streams S i = Some (Awaiting n)" and "emu_queue S = xs @ CmdRequest i req # ys"
    and "\<And>req. CmdRequest i req \<notin> set xs"
  shows "\<exists>S' h' r. (worker_step handle destroy ^^ Suc (length xs)) (S, h) = (S', h')
    \<and> emu_streams S' i = Some Reading \<and> (i, n, r) \<in> set (emu_answers S')"
  using assms
proof (induction xs arbitrary: S h)
  case Nil
  obtain r st q g where "handle req (emulator_of (emu_states S) i, emu_cache S, h) = (r, st, q, g)"
    by (metis prod_cases4)
  with Nil show ?case by (auto simp: worker_step_def)
next
  case (Cons c xs)
  obtain S1 h1 where w: "worker_step handle destroy (S, h) = (S1, h1)" by fastforce
  have q: "emu_queue S = c # (xs @ CmdRequest i req # ys)" and c: "\<And>req. c \<noteq> CmdRequest i req"
    using Cons.prems(2,3) by (auto dest: sym)
  have n: "CmdRequest i req \<notin> set xs" for req using Cons.prems(3) by simp
  have "emu_streams S1 i = Some (Awaiting n)" using worker_other(2) [OF q c w] Cons.prems(1) by simp
  from Cons.IH [OF this worker_other(1) [OF q c w] n] show ?case
    unfolding length_Cons funpow_Suc_right [of "Suc (length xs)"] comp_apply w .
qed

lemma worker_pending:
  assumes "pending S" and "worker_step handle destroy (S, h) = (S', h')"
  shows "pending S'"
proof (cases "emu_queue S")
  case (Cons c rest)
  show ?thesis
    unfolding pending_def
  proof (intro allI impI)
    fix i n assume a: "emu_streams S' i = Some (Awaiting n)"
    have c: "c \<noteq> CmdRequest i req" for req
    proof
      assume "c = CmdRequest i req"
      moreover obtain r st q g where "handle req (emulator_of (emu_states S) i, emu_cache S, h) = (r, st, q, g)"
        by (metis prod_cases4)
      ultimately show False using assms(2) Cons a
        by (auto simp: worker_step_def Let_def split: option.splits stream_state.splits)
    qed
    note o = worker_other [OF Cons c assms(2)]
    from assms(1) a o(2) obtain req where "CmdRequest i req \<in> set (emu_queue S)" unfolding pending_def by auto
    with Cons o(1) c [of req] show "\<exists>req. CmdRequest i req \<in> set (emu_queue S')" by auto
  qed
qed (use assms in \<open>simp add: worker_step_def\<close>)

lemma stop_pending: "pending S \<Longrightarrow> pending (stop_stream i S)"
  by (auto simp: pending_def stop_stream_def)

lemma incoming_pending: "pending S \<Longrightarrow> pending (stream_incoming i m S)"
  by (induction i m S rule: stream_incoming.induct) (auto simp: stop_pending, auto simp: pending_def)

lemma service_pending:
  assumes "pending S" and "service_step handle destroy ev (S, h) = (S', h')"
  shows "pending S'"
proof (cases ev)
  case (OpenStream i)
  with assms show ?thesis by (auto simp: service_step_def pending_def split: if_splits)
next
  case (Incoming i m)
  with assms show ?thesis by (auto simp: service_step_def incoming_pending split: if_splits)
next
  case (Abandon i)
  with assms show ?thesis by (auto simp: service_step_def stop_pending split: option.splits stream_state.splits)
next
  case Work
  with assms worker_pending [of S handle destroy h S' h'] show ?thesis by (simp add: service_step_def)
qed

text \<open>So a stream never waits for ever: the worker answers it within a turn for each command in its queue.\<close>

lemma waiting_stream_answered:
  assumes "pending S" and "emu_streams S i = Some (Awaiting n)"
  shows "\<exists>k \<le> length (emu_queue S). \<exists>S' h' r. (worker_step handle destroy ^^ k) (S, h) = (S', h')
    \<and> emu_streams S' i = Some Reading \<and> (i, n, r) \<in> set (emu_answers S')"
proof -
  from assms have "\<exists>c \<in> set (emu_queue S). \<exists>req. c = CmdRequest i req" unfolding pending_def by blast
  from split_list_first_prop [OF this] obtain xs req ys where q: "emu_queue S = xs @ CmdRequest i req # ys"
    and n: "\<And>req. CmdRequest i req \<notin> set xs" by blast
  from request_is_answered [OF assms(2) q n, of handle destroy h] q show ?thesis
    by (intro exI [of _ "Suc (length xs)"]) simp
qed

section \<open>The server\<close>

definition server_ok :: "('i, 'k) emu_server \<Rightarrow> bool" where
  "server_ok s \<longleftrightarrow>
     owns TvmHandle (emu_states (srv_tvm s)) (handles TxHandle (emu_states (srv_tx s))) (srv_calls s) \<and>
     owns TxHandle (emu_states (srv_tx s)) (handles TvmHandle (emu_states (srv_tvm s))) (srv_calls s) \<and>
     tracked (srv_tvm s) \<and> tracked (srv_tx s) \<and> pending (srv_tvm s) \<and> pending (srv_tx s)"

lemma owns_swap:
  assumes "owns H st (handles H' st') h" "one_owner st'"
  shows "owns H' st' (handles H st) h"
  using assms by (auto simp: owns_def Un_commute)

lemma run_once_heap:
  assumes C: "c_lib_laws C" and h: "heap h = Some L"
  shows "heap (snd (run_get_method_once C params gas h)) = Some L"
proof (cases "length params \<ge> 2 ^ 32")
  case False
  let ?f = "EmulateRunMethod (word_of_nat (length params)) params gas"
  show ?thesis
  proof (cases "c_text C h ?f")
    case (Some r)
    obtain p mem where r: "r = (p, mem)" by (cases r)
    with C h Some have "p \<notin> address_of ` L" unfolding c_lib_laws_def by blast
    then have "CText p \<notin> L" using imageI [of "CText p" L address_of] by auto
    moreover have "heap (h @ [(?f, Some p)]) = Some (insert (CText p) L)" using h by (simp add: c_step_def)
    ultimately show ?thesis using False Some r
      by (simp add: run_get_method_once_def tvm_run_get_method_once_def tvm_buffer_from_raw_def heap_drop_string)
  qed (use h False in \<open>simp add: run_get_method_once_def tvm_run_get_method_once_def c_step_def\<close>)
qed (use h in \<open>simp add: run_get_method_once_def tvm_run_get_method_once_def\<close>)

lemma server_step_ok:
  assumes C: "c_lib_laws (clib G)" and s: "server_ok s"
  shows "server_ok (server_step G ev s)"
proof (cases ev)
  case (TvmEvent e)
  obtain S h where e: "service_step (tvm_handle G) tvm_drop e (srv_tvm s, srv_calls s) = (S, h)" by fastforce
  from s have o: "owns TvmHandle (emu_states S) (handles TxHandle (emu_states (srv_tx s))) h" and t: "tracked S" "pending S"
    using tvm.service_owns [OF C _ e] service_tracked [OF _ e] service_pending [OF _ e] by (simp_all add: server_ok_def)
  have "one_owner (emu_states (srv_tx s))" using s by (simp add: server_ok_def owns_def)
  with o t s owns_swap [OF o] TvmEvent e show ?thesis by (simp add: server_ok_def server_step_def tvm_service_step_def)
next
  case (TxEvent e)
  obtain S h where e: "service_step (tx_handle G) tx_drop e (srv_tx s, srv_calls s) = (S, h)" by fastforce
  from s have o: "owns TxHandle (emu_states S) (handles TvmHandle (emu_states (srv_tvm s))) h" and t: "tracked S" "pending S"
    using tx.service_owns [OF C _ e] service_tracked [OF _ e] service_pending [OF _ e] by (simp_all add: server_ok_def)
  have "one_owner (emu_states (srv_tvm s))" using s by (simp add: server_ok_def owns_def)
  with o t s owns_swap [OF o] TxEvent e show ?thesis by (simp add: server_ok_def server_step_def tx_service_step_def)
next
  case (RunOnce b g)
  have "heap (snd (run_get_method_once (clib G) b g (srv_calls s))) = heap (srv_calls s)"
    using s run_once_heap [OF C] by (simp add: server_ok_def owns_def)
  with s RunOnce show ?thesis by (auto simp: server_ok_def server_step_def owns_def)
qed

lemma run_server_ok:
  assumes "c_lib_laws (clib G)"
  shows "server_ok (run_server G q q' evs)"
proof -
  have "server_ok (new_server (clib G) q q')"
    by (simp add: server_ok_def new_server_def new_service_def owns_def handles_def one_owner_def emulator_of_def
        tracked_def pending_def tvm_set_verbosity_level_def flag_call_def c_step_def heap_def)
  then show ?thesis
    unfolding run_server_def by (induction evs rule: rev_induct) (auto intro: server_step_ok [OF assms])
qed

text \<open>In every state the server reaches, both workers answer the streams that wait.\<close>

lemma server_answers:
  assumes "c_lib_laws (clib G)"
  shows "emu_streams (srv_tvm (run_server G q q' evs)) i = Some (Awaiting n) \<Longrightarrow>
      \<exists>k S' h' r. (worker_step (tvm_handle G) tvm_drop ^^ k) (srv_tvm (run_server G q q' evs), h) = (S', h')
        \<and> emu_streams S' i = Some Reading \<and> (i, n, r) \<in> set (emu_answers S')"
    and "emu_streams (srv_tx (run_server G q q' evs)) i = Some (Awaiting n) \<Longrightarrow>
      \<exists>k S' h' r. (worker_step (tx_handle G) tx_drop ^^ k) (srv_tx (run_server G q q' evs), h) = (S', h')
        \<and> emu_streams S' i = Some Reading \<and> (i, n, r) \<in> set (emu_answers S')"
  using run_server_ok [OF assms, of q q' evs] unfolding server_ok_def by (blast dest: waiting_stream_answered)+

section \<open>A small library\<close>

text \<open>
  For the witness: the next pointer is above all that were returned, every text is empty and every setter fails.
\<close>

definition top_pointer :: "c_calls \<Rightarrow> nat" where
  "top_pointer h = sum_list (map (\<lambda>e. case snd e of Some p \<Rightarrow> Suc p | None \<Rightarrow> 0) h)"

definition demo_c :: c_lib where
  "demo_c = \<lparr>c_create = (\<lambda>h f. Some (top_pointer h)), c_flag = (\<lambda>h f. False), c_text = (\<lambda>h f. Some (top_pointer h, [])),
     is_utf8 = (\<lambda>_. True), utf8_error = (\<lambda>_. [])\<rparr>"

lemma heap_below: "heap h = Some L \<Longrightarrow> r \<in> L \<Longrightarrow> address_of r < top_pointer h"
proof (induction h arbitrary: L r rule: rev_induct)
  case (snoc e h)
  then obtain L' where L': "heap h = Some L'" "c_step e L' = Some L" by (auto simp: bind_eq_Some_conv)
  then have "r \<in> L' \<or> (\<exists>p. snd e = Some p \<and> r = gives (fst e) p)"
    using snoc.prems(2) by (auto simp: c_step_def split: if_splits)
  moreover have "address_of (gives f p) = p" for f p by (cases f) simp_all
  ultimately show ?case using snoc.IH [OF L'(1), of r] by (auto simp: top_pointer_def)
qed simp

lemma demo_c_laws: "c_lib_laws demo_c"
  unfolding c_lib_laws_def demo_c_def by (auto simp: image_iff dest: heap_below)

definition demo_tvm :: "unit tvm_lib" where
  "demo_tvm = \<lparr>clib = demo_c, json_run = (\<lambda>_. Inl ''no JSON''), json_send = (\<lambda>_. Inl ''no JSON''),
     json_emulate = (\<lambda>_. Inl ''no JSON''), cache_get = (\<lambda>_ q. (None, q)), cache_insert = (\<lambda>_ _ q. q)\<rparr>"

text \<open>One client prepares an emulator twice and leaves while a call is running; another one leaves between two calls.\<close>

definition demo_events :: "nat server_event list" where
  "demo_events =
     [TvmEvent (OpenStream 0), TvmEvent (Incoming 0 (StreamMsg 1 (Some (TvmPrepare 0 ''c'' ''d'')))), TvmEvent Work,
      TvmEvent (Incoming 0 (StreamMsg 2 (Some (TvmPrepare 0 ''c'' ''d'')))), TvmEvent Work,
      TxEvent (OpenStream 0), TxEvent (Incoming 0 (StreamMsg 1 (Some (TxPrepare 0 ''c'' None)))), TxEvent Work,
      RunOnce [1, 2] 5,
      TvmEvent (Incoming 0 (StreamMsg 3 (Some (TvmRunGetMethod 7 ''s'')))), TvmEvent (Abandon 0), TvmEvent Work, TvmEvent Work,
      TxEvent (Incoming 0 Elapsed), TxEvent Work]"

lemma demo_events_quiet:
  "quiet (srv_tvm (run_server demo_tvm () () demo_events))" "quiet (srv_tx (run_server demo_tvm () () demo_events))"
  "length (srv_calls (run_server demo_tvm () () demo_events)) = 11"
  by (simp_all add: demo_events_def run_server_def new_server_def new_service_def server_step_def service_step_def tvm_service_step_def tx_service_step_def
      worker_step_def quiet_def stop_stream_def emulator_of_def prepare_emu_def tx_prepare_def cached_config_def
      run_get_method_def json_answer_def replace_emulator_def mapped_def tvm_new_def tx_new_def create_call_def c_string_def
      tvm_run_get_method_def text_call_def tvm_string_from_raw_def demo_tvm_def demo_c_def drop_string_def
      tvm_drop_def tx_drop_def run_get_method_once_def tvm_run_get_method_once_def tvm_buffer_from_raw_def
      tvm_set_verbosity_level_def flag_call_def)

section \<open>Properties\<close>

text \<open>
  C20. Whatever the clients do and in whatever order the workers take their commands, the server never calls the C library with
  a pointer that is not allocated, and nothing is left behind: after every step exactly the emulators of the streams are
  allocated, each owned by one stream, no text is, and when all streams have ended and the queues are empty nothing is. A
  prepared emulator is freed when another takes its place, when the client goes away during a call or between two,
  and after three seconds of silence.
\<close>

theorem emulators_freed_once:
  assumes "c_lib_laws (clib G)"
  shows "let s = run_server G q q' evs in
    heap (srv_calls s) = Some
        (TvmHandle ` {p. \<exists>i. emu_states (srv_tvm s) i = Some (Some p)} \<union> TxHandle ` {p. \<exists>i. emu_states (srv_tx s) i = Some (Some p)})
    \<and> (\<forall>i j p. emu_states (srv_tvm s) i = Some (Some p) \<and> emu_states (srv_tvm s) j = Some (Some p) \<longrightarrow> i = j)
    \<and> (\<forall>i j p. emu_states (srv_tx s) i = Some (Some p) \<and> emu_states (srv_tx s) j = Some (Some p) \<longrightarrow> i = j)
    \<and> (quiet (srv_tvm s) \<and> quiet (srv_tx s) \<longrightarrow> heap (srv_calls s) = Some {})"
proof -
  let ?s = "run_server G q q' evs"
  have ok: "server_ok ?s" by (rule run_server_ok [OF assms])
  have h: "handles H states = H ` {p. \<exists>i. states i = Some (Some p)}" for H and states :: "'i \<Rightarrow> nat option option"
    by (auto simp: handles_def emulator_of_Some)
  have o: "one_owner states \<longleftrightarrow> (\<forall>i j p. states i = Some (Some p) \<and> states j = Some (Some p) \<longrightarrow> i = j)"
    for states :: "'i \<Rightarrow> nat option option"
    by (simp add: one_owner_def emulator_of_Some)
  from ok have "heap (srv_calls ?s) = Some {}" if "quiet (srv_tvm ?s)" "quiet (srv_tx ?s)"
    using that tracked_quiet [of "srv_tvm ?s"] tracked_quiet [of "srv_tx ?s"]
    by (auto simp: server_ok_def owns_def h)
  with ok show ?thesis by (simp add: Let_def server_ok_def owns_def h o)
qed

theorem emulators_freed_once_witness:
  "heap (srv_calls (run_server demo_tvm () () demo_events)) = Some {}
   \<and> length (srv_calls (run_server demo_tvm () () demo_events)) = 11"
proof -
  have "c_lib_laws (clib demo_tvm)" using demo_c_laws by (simp add: demo_tvm_def)
  from emulators_freed_once [OF this, of "()" "()" demo_events] demo_events_quiet show ?thesis
    unfolding Let_def by blast
qed

text \<open>
  The setters of the transaction emulator hide what the library answers, those of the TVM emulator report it.
\<close>

lemma setters_report:
  "fst (set_unixtime G t (Some e, q, h)) = Inr True" "fst (set_lt G l (Some e, q, h)) = Inr True"
  "fst (set_ignore_chksig G b (Some e, q, h)) = Inr True"
  "fst (set_gas_limit G g (Some e, q, h)) = Inr (c_flag (clib G) h (OnTvm e (CSetGasLimit g)))"
  by (simp_all add: set_unixtime_def set_lt_def set_ignore_chksig_def set_gas_limit_def tvm_set_gas_limit_def flag_call_def)

text \<open>
  A configuration is put in the cache before the library has accepted it: after a \<open>prepare\<close> that failed, another request finds
  it under its key.
\<close>

lemma refused_config_is_cached:
  assumes "c_create (clib G) h (TxCreate config l) = None" and "config \<noteq> []" and "CHR 0x00 \<notin> set config"
  shows "tx_prepare G l config (Some key) (st, q, h) =
    (Inl (Internal ''emulator FFI call failed''), st, cache_insert G key config q, h @ [(TxCreate config l, None)])"
  using assms by (simp add: tx_prepare_def cached_config_def tx_new_def c_string_def create_call_def)

end
