(* ===== verification/Spec2Isabelle.thy ===== *)
theory Spec2Isabelle
  imports Ton_Address Tl_Serde Tonlibjson_Codegen Discover Adnl_Codec Tl_Codegen Reconnect_Service Service_Layers Pool_Discover Account_Range Liteserver_Client Liteserver_Adapter Grpc_Services Tonlibjson_Adapter Ton_Contract Tvm_Grpc_Correct
begin

text \<open>
  \<open>ton-grpc\<close>: a gRPC gateway to the TON blockchain, and the Rust crates it is built from. A client asks
  for blocks, transactions, accounts and get methods; \<open>ton-client\<close> routes each request to a liteserver
  that can answer it; \<open>ton-liteserver-client\<close> speaks to one liteserver over the encrypted transport of
  \<open>adnl-tcp\<close>, in the TL wire format whose code is generated from a schema that \<open>tl-parser\<close> reads.
  Beside it \<open>ton-contract\<close> builds and reads messages of contracts, and \<open>tvm-grpc\<close> serves an emulator.

  \<^bold>\<open>The theories, from the bottom up.\<close> Paths are under \<open>src/crates/\<close>.

  \<^item> \<open>Rust_Prelude\<close>: machine integers (\<open>i32\<close> and \<open>i64\<close> as integers with \<open>wrap_i32\<close>,
    \<open>wrap_i64\<close> written where the code can overflow, \<open>u8\<close> to \<open>u64\<close> as words), \<open>Result\<close> as a
    sum with the error on the left, byte orders, printing and parsing of numbers, polling (\<open>Ready\<close>,
    \<open>Pending\<close>) and panics as values. \<open>Std_Codecs\<close>: base64, hex and CRC-16 as concrete instances of
    the third-party codecs, for witnesses only.
  \<^item> \<open>Ton_Address\<close> (\<open>ton-address/src/lib.rs\<close>): addresses, parsing and printing.
  \<^item> \<open>Ton_Types\<close> (\<open>ton-tower/src/request.rs\<close>, \<open>response.rs\<close>): the requests and responses, and
    \<open>'s handlers\<close>, the service interface: a function for each request over the state \<open>'s\<close> of the world.
  \<^item> \<open>Tl_Serde\<close> (\<open>adnl-tcp/src/serializer.rs\<close>, \<open>deserializer.rs\<close>, \<open>types.rs\<close>): the TL wire
    format; the locale \<open>tl_codec\<close> is the contract of a writer and its reader and is interpreted for every
    built-in type. \<open>Tl_Codegen\<close> (\<open>tl-parser/src/lib.rs\<close>, \<open>ton-liteserver-client/build.rs\<close>,
    \<open>wait_seqno.rs\<close>): the schema and the code generated from it, as functions of the field list.
    \<open>Tonlibjson_Codegen\<close> (\<open>tonlibjson-client/build.rs\<close>): the other generator, from combinators and configuration to
    declarations; every combinator has its struct, whatever the order of the hash map (\<open>generated_structs\<close>).
  \<^item> \<open>Adnl_Codec\<close> (\<open>adnl-tcp/src\<close>: \<open>packet.rs\<close>, \<open>ping.rs\<close>, \<open>key.rs\<close>, \<open>aes_ctr.rs\<close>,
    \<open>codec.rs\<close>, \<open>client.rs\<close>, \<open>server.rs\<close>): packets, the codec and the handshake.
  \<^item> \<open>Liteserver_Client\<close> (\<open>ton-liteserver-client/src/client.rs\<close>, \<open>make.rs\<close>): the task that owns a
    connection, as a step per event, with its queue, its map of waiting requests and its oneshot channels; the
    service and its response futures.
  \<^item> \<open>Liteserver_Convert\<close>, \<open>Liteserver_Adapter\<close> (\<open>ton-liteserver-client/src/adapter/*.rs\<close>,
    \<open>tlb/*.rs\<close>): every service of the adapter, its checks of proofs and its conversions.
  \<^item> \<open>Tlb_Cells\<close>: what the TL-B code uses of the \<open>toner\<close> crate, with its laws, and the contracts of readers and
    writers of cells. \<open>Tlb_Derive\<close>, \<open>Tlb_Derive_Correct\<close> (\<open>toner-tlb-macros/src/*.rs\<close>): the derive macros, from
    attributes to statements, what the statements do, and their round trip. \<open>Tlb_Vm\<close>, \<open>Tlb_Vm_Correct\<close>
    (\<open>ton-liteserver-client/src/tlb/vm_stack.rs\<close>, \<open>vm_cont.rs\<close>): stacks, tuples and continuations as cells.
  \<^item> \<open>Tlb_Block\<close>, \<open>Tlb_Transaction\<close>, \<open>Tlb_Messages\<close> (the other files of \<open>ton-liteserver-client/src/tlb/\<close>): the readers
    of Merkle proofs and updates, headers, shards, accounts, transactions, messages and blocks; \<open>libs_over\<close> hands them to
    the adapter. A reader can return, fail or panic. \<open>Tlb_Block_Correct\<close>, \<open>Tlb_Transaction_Correct\<close>,
    \<open>Tlb_Account_Correct\<close>: the layout of these values in cells, and that the readers read exactly it.
  \<^item> \<open>Binary_Search\<close> (\<open>ton-client/src/algo/binary_search/*.rs\<close>): the search for the first block at
    which a probe succeeds.
  \<^item> \<open>Shard_Registry\<close>, \<open>Routing\<close> (\<open>ton-client/src/route/*.rs\<close>, \<open>pool/balance.rs\<close>,
    \<open>pool/forward.rs\<close>): what is known of each liteserver's blocks, and how a request is routed by it.
    \<open>Discover\<close> (\<open>ton-client/src/route/discover/*.rs\<close>): the tasks that keep that knowledge current.
  \<^item> \<open>Pool_Discover\<close> (\<open>ton-client/src/pool/discover.rs\<close>, \<open>builder.rs\<close>, \<open>ton-config/src/lib.rs\<close>):
    the set of liteservers that follows the configuration.
  \<^item> \<open>Reconnect_Service\<close>, \<open>Service_Layers\<close> (\<open>ton-tower/src/service/**\<close>): the services between the
    router and a client: reconnecting, sharing, retrying, time limits, load and errors. The locale
    \<open>checked_service\<close> is the protocol of a \<open>tower\<close> service (a call only after \<open>poll_ready\<close> said
    ready) and is interpreted for the shared reconnecting service.
  \<^item> \<open>Client_Streams\<close>, \<open>Account_Range\<close> (\<open>ton-client/src/client/client_ext.rs\<close>): the streams of a
    block and of an account, with the locale \<open>paged_source\<close> for what comes in pages, interpreted for both.
  \<^item> \<open>Tonlibjson_Client\<close>, \<open>Tonlibjson_Adapter\<close> (\<open>tonlibjson-client/src\<close>: \<open>client.rs\<close>, \<open>tl.rs\<close>,
    \<open>adapter/*.rs\<close>; \<open>tonlibjson-sys/src/tonlibjson.rs\<close>): the client over the C++ library, a step for each
    packet, call, poll and drop, and every service of its adapter.
  \<^item> \<open>Ton_Contract\<close> (\<open>ton-contract/src\<close>): get methods, stack entries, and the messages of a wallet.
  \<^item> \<open>Emulator\<close> (\<open>ton-emulator/src\<close>, \<open>tonlibjson-sys/src/tonemulator.rs\<close>): the wrappers of the C emulator, with the list of
    the calls they make; \<open>heap\<close> reads off it what is allocated. \<open>Tvm_Grpc\<close>, \<open>Tvm_Grpc_Correct\<close> (\<open>tvm-grpc/src\<close>): the
    handlers, workers and streams of the emulator server, a step for each event, with the locale
    \<open>emulator_service\<close> for what a handler does to the emulator it owns, interpreted for both services.
  \<^item> \<open>Grpc_Services\<close> (\<open>ton-grpc/src\<close>: \<open>block.rs\<close>, \<open>account.rs\<close>, \<open>message.rs\<close>, \<open>helpers.rs\<close>,
    \<open>ton.rs\<close>; \<open>ton-grpc/proto/ton.proto\<close>; \<open>ton-client/src/client/account_client.rs\<close>): the services.

  \<^bold>\<open>What is shown.\<close> Wire formats: what one side writes the other reads (\<open>codec_stream_roundtrip\<close>,
  \<open>handshake_agrees\<close>, \<open>struct_flags_roundtrip\<close>, \<open>derived_enum_roundtrip\<close>, \<open>vm_stack_roundtrip\<close>,
  \<open>address_roundtrip\<close>, \<open>wallet_message_roundtrip\<close>) and what is not well formed
  is refused (\<open>decode_checks_checksum\<close>, \<open>accepted_texts\<close>, \<open>result_or_error\<close>). What a liteserver sends as cells is read as it is laid out
  (\<open>served_header_is_read\<close>, \<open>transaction_is_read\<close>, \<open>account_is_read\<close>), proofs are accepted exactly when the hash is
  that of the proved cell (\<open>header_proof_exact\<close>), and cells of another kind make some readers panic
  (\<open>foreign_cell_panics\<close>). One liteserver: requests and answers are
  matched whatever the order (\<open>answers_in_any_order\<close>, \<open>request_on_its_own\<close>), nothing waits for ever
  (\<open>stopped_client_reports\<close>), answers are bound to proofs (\<open>block_answers_are_proved\<close>,
  \<open>account_answers_checked\<close>). Over the C++ library requests and answers find each other too, with what is left
  behind when the connection is lost (\<open>request_fate\<close>, \<open>storage_holds_waiting\<close>,
  \<open>readiness_follows_connection\<close>). Many liteservers: discovery learns what each has (\<open>last_block_catches_up\<close>,
  \<open>find_first_success\<close>, \<open>contains_lt_complete\<close>), the pool follows the configuration
  (\<open>pool_follows_config\<close>), and a request goes to one that can answer it (\<open>balance_sends_to_holder\<close>,
  \<open>lookup_by_lt_reaches_shard\<close>). Services: no interleaving of tasks makes a shared service panic
  (\<open>shared_reconnect_never_panics\<close>), the retry layer passes a message on once and other requests
  until they are settled (\<open>retry_attempts\<close>), and the
  emulator server frees every emulator once, also of clients that go away (\<open>emulators_freed_once\<close>). Streams: they
  end and give each item once (\<open>block_streams_complete\<close>, \<open>unordered_exactly_once\<close>,
  \<open>account_range_exact\<close>, \<open>range_in_chunks\<close>), also between the blocks that a gRPC request names
  (\<open>account_transactions_in_blocks\<close>) and over the adapter of the C++ library (\<open>tonlib_account_range\<close>,
  \<open>tonlib_block_streams\<close>). This theory holds what spans components: discovery and routing
  agree (\<open>discovery_covers_range\<close>), the adapter meets the contract that discovery assumes
  (\<open>adapter_serves_blocks\<close>), the one over the C++ library the contract of requests between blocks
  (\<open>tonlib_serves_dated\<close>), and what the other one does to account histories (\<open>adapter_account_stream_empty\<close>).

  \<^bold>\<open>Loops.\<close> A loop that the code may run for ever (the search, catching up with the last
  block, reconnecting, streams) is a \<open>partial_function\<close> into \<open>option\<close>, where \<open>None\<close> is not returning;
  that they return is proved (\<open>find_returns\<close>, \<open>last_block_catches_up\<close>, \<open>block_streams_complete\<close>),
  and where they need not, that is proved too (\<open>find_negative_diverges\<close>, \<open>reconnect_diverges\<close>). The other
  loops are recursive functions with a termination proof. Three recursions have fuel, the number of nested calls: the
  derive macro for enums, where the size of the tag tree is enough (\<open>derived_enum_roundtrip\<close>) and no fuel is enough
  for overlapping tags (\<open>overlapping_tags_diverge\<close>), the readers of VM values, where some fuel is enough for
  every stack (\<open>vm_stack_roundtrip\<close>), and the reader of transactions, which hold transactions, where the nesting of the
  value is enough (\<open>transaction_is_read\<close>). Reading the actions of a wallet loops while there are references, and ends because
  each action takes one (\<open>wallet_message_roundtrip\<close>). Tasks that run side by side are step functions, and
  the theorems range over every sequence of steps.

  \<^bold>\<open>Parameters.\<close> Code that is not in the repository is an argument: AES, SHA-256 and Ed25519
  (\<open>crypto\<close>, with \<open>cipher_laws\<close> and \<open>key_laws\<close>), base64 and hex (\<open>base64_laws\<close>, \<open>hex_laws\<close>,
  \<open>b64_standard_laws\<close>), CRC-32, bags of cells (\<open>cell_lib\<close>), big numbers (\<open>biguint_laws\<close>), the order
  in which a hash set is visited (\<open>hash_order\<close>), delays and timers (\<open>backoff_laws\<close>, \<open>timer_laws\<close>), the retry
  service of tower (\<open>tower_retry_laws\<close>), a retry that stops at the first success (\<open>retry_once\<close>), constructor numbers of the schema
  (\<open>tl_numbers\<close>), JSON and UUID texts (\<open>json_laws\<close>), cells with their
  parsers and builders (\<open>toner_laws\<close>), dictionaries (\<open>hashmap_laws\<close>), amounts (\<open>amount_laws\<close>), actions of wallets
  (\<open>action_laws\<close>) and the C emulator (\<open>c_lib_laws\<close>). The liteserver behind a client is an argument too; \<open>serves\<close>, \<open>lists_after\<close>,
  \<open>serves_account\<close>, \<open>serves_range\<close>, \<open>serves_dated\<close>, \<open>holds_block\<close>, \<open>liteserver_reply\<close>, \<open>tl_serves_history\<close>,
  \<open>tl_serves_dated\<close> and \<open>tl_lists\<close> say what an honest one
  answers. Every such law has an instance in a witness.

  \<^bold>\<open>Not modelled.\<close> The grammar of \<open>tl-parser\<close>, combinators of the \<open>nom\<close> crate; the tokens,
  names and derives that \<open>ton-liteserver-client/build.rs\<close> emits; how
  declarations are printed, and how \<open>serde\<close> reads the structs of \<open>tonlibjson-client\<close>; the C++ libraries; the build scripts; the
  start of the servers (\<open>ton-grpc/src/main.rs\<close>, \<open>tvm-grpc/src/main.rs\<close>);
  test containers, logging, metrics and command lines. Time is a number and the network is what the steps are given.
\<close>

section \<open>Making an adapter\<close>

text \<open>
  \<open>adapter/make.rs\<close>: the adapter for the first liteserver of a configuration. \<open>connect\<close> stands for the
  connection with its handshake.
\<close>

definition make_adapter ::
  "'cell cell_lib \<Rightarrow> (SocketAddrV4 \<Rightarrow> bytes \<Rightarrow> ('s, 'c) io) \<Rightarrow> 'v TonConfig \<Rightarrow> ('s, 'c) io" where
  "make_adapter L connect config =
     (case liteservers config of
        [] \<Rightarrow> err_io ''ton config does not contain any liteservers''
      | ls # _ \<Rightarrow>
          bind_io (lift_io (ok_or ''invalid base64'' (b64_standard_decode L (ls_key (ls_id ls))))) (\<lambda>key.
            if length key \<noteq> 32 then err_io ''invalid liteserver key length''
            else connect (ls_addr ls) key))"

lemma make_adapter_connects:
  assumes "b64_standard_laws L" "length key = 32"
  shows "make_adapter L connect (with_liteserver config
      \<lparr>ls_id = \<lparr>ls_key = b64_standard_encode L key\<rparr>, ls_addr = addr\<rparr>) = connect addr key"
  using assms by (auto simp: make_adapter_def with_liteserver_def b64_standard_laws_def bind_io_def lift_io_def)

section \<open>The flags of a request\<close>

text \<open>
  \<open>liteServer.listBlockTransactions\<close> with the conditions of its optional fields: the mode that the adapter
  computes has exactly the bits that the generated serializer sets for the fields that are present, so that
  \<open>struct_flags_roundtrip\<close> applies to every request the adapter sends.
\<close>

definition list_transactions_fields :: "Field list" where
  "list_transactions_fields =
     [Field (Some ''id'') (PlainType ''tonNode.blockIdExt'' None) False,
      Field (Some ''mode'') (PlainType ''#'' None) False,
      Field (Some ''count'') (PlainType ''#'' None) False,
      Field (Some ''after'') (PlainType ''liteServer.transactionId3'' (Some \<lparr>field_ref = ''mode'', bit_selector = Some 7\<rparr>)) False,
      Field (Some ''reverse_order'') (PlainType ''true'' (Some \<lparr>field_ref = ''mode'', bit_selector = Some 6\<rparr>)) False,
      Field (Some ''want_proof'') (PlainType ''true'' (Some \<lparr>field_ref = ''mode'', bit_selector = Some 5\<rparr>)) False]"

datatype ls_value = BlockValue TonNodeBlockIdExt | Id3Value LiteServerTransactionId3 | TrueValue

definition list_transactions_values :: "LiteServerListBlockTransactions \<Rightarrow> ls_value tl_value option list" where
  "list_transactions_values r =
     [Some (VOther (BlockValue (lbt_id r))), Some (VNat (lbt_mode r)), Some (VNat (lbt_count r)),
      map_option (\<lambda>a. VOther (Id3Value a)) (lbt_after r),
      map_option (\<lambda>_. VOther TrueValue) (lbt_reverse_order r),
      map_option (\<lambda>_. VOther TrueValue) (lbt_want_proof r)]"

lemma list_request_flags:
  fixes i aft reverse cnt
  defines "r \<equiv> list_transactions_request i aft reverse cnt"
  shows "final_locals list_transactions_fields (list_transactions_values r) ''mode'' = lbt_mode r
    \<and> absent_unset list_transactions_fields (list_transactions_values r)"
  unfolding r_def
  by (cases aft; cases reverse)
    (simp_all add: list_transactions_request_def list_transactions_fields_def list_transactions_values_def
      list_block_transactions_mode_def final_locals_def absent_unset_def flag_set_def type_condition_def
      field_type_def type_is_polymorphic_def the_id_def bit_mask_small bit_Suc numeral_eq_Suc)

section \<open>Properties that span components\<close>

text \<open>
  A liteserver that holds a block: it finds the block by its seqno and returns its header, both with a proof
  that binds to the block.
\<close>

definition holds_block ::
  "('cell, 'k) libs \<Rightarrow> 's ls_api \<Rightarrow> TonNodeBlockIdExt \<Rightarrow> TlbBlockHeader \<Rightarrow> bool" where
  "holds_block X api i h \<longleftrightarrow> wf_block_id i \<and>
     (\<forall>s. \<exists>r s'. ls_lookup_block api (lookup_block_seqno
          \<lparr>workchain = n_workchain i, shard = n_shard i, seqno = n_seqno i\<rparr>) s = (Inr r, s')
        \<and> bh_id r = i \<and> (\<exists>root. boc_unpack_fully (cells X) (bh_header_proof r) = Inr [root]
          \<and> merkle_hash (tlb X) root = Inr (n_root_hash i))) \<and>
     (\<forall>s. \<exists>r s'. ls_get_block_header api i 0 s = (Inr r, s')
        \<and> (\<exists>root. boc_unpack_fully (cells X) (bh_header_proof r) = Inr [root]
          \<and> merkle_block_header (tlb X) root = Inr (n_root_hash i, h)))"

text \<open>
  C1. Discovery and routing agree. After one step of the task for the last block and one of the task
  for the first block, the client of a liteserver that has the masterchain blocks from \<open>m\<close> on is
  ready, reports the synced block as its last one, and is chosen for a masterchain block exactly when the
  seqno is between \<open>m\<close> and the synced block.
\<close>

theorem discovery_covers_range:
  assumes "retry_once retry" and "lb_registry env = registry_default" and "lb_open env"
    and "on_get_masterchain_info client s = (Inr info, s1)" and "on_sync client s1 = (Inr b, s2)"
    and "i32_range (seqno b)" and "1 \<le> m" and "m \<le> seqno b"
    and "serves client (workchain b) (shard b) hdr (seqno b)"
    and "\<forall>n \<in> {1..seqno b}. \<forall>s. fst (block_probe client
      \<lparr>workchain = workchain b, shard = shard b, seqno = n\<rparr> s) = f n"
    and "\<forall>n \<in> {1..seqno b}. is_ok (f n) \<longleftrightarrow> m \<le> n"
    and "f m = Inr (hdr m # rest)"
    and "shard_id_of (header_id (hdr m)) = shard_id_of b" and "seqno (header_id (hdr m)) = m"
    and "distinct (map (\<lambda>h. shard_id_of (header_id h)) (hdr m # rest))"
  shows "\<exists>info' env' s' reg s''. last_block_next retry client None env s = Some (Inr (Some info'), env', s')
    \<and> first_block_next client None (mc_last info') (lb_registry env') s' = Some (Inr (Some (hdr m)), reg, s'')
    \<and> (let rc = \<lparr>rc_client = c, rc_last_value = lb_watch env', rc_registry = reg\<rparr> in
        edges_defined rc \<and> rc_last_seqno rc = Some (seqno b)
        \<and> (\<forall>n. rc_contains rc (workchain b) (CriteriaSeqno (shard b) n) = Some (m \<le> n \<and> n \<le> seqno b)))"
proof -
  let ?last = "hdr (seqno b)" and ?sid = "shard_id_of b"
  let ?info = "info\<lparr>mc_last := header_id ?last\<rparr>"
  have last: "workchain (header_id ?last) = workchain b" "shard (header_id ?last) = shard b"
    "seqno (header_id ?last) = seqno b"
    using assms(9) by (simp_all add: serves_def shard_id_of_def)
  obtain env' s' where env': "last_block_next retry client None env s = Some (Inr (Some ?info), env', s')"
    "lb_watch env' = Some ?info" "right_of (lb_registry env') ?sid = Some ?last"
    using last_block_next_catches_up [OF assms(1,3,4) _ assms(5,6), of None hdr] assms(2,6,9) by auto
  obtain reg s'' where reg: "first_block_next client None (mc_last ?info) (lb_registry env') s'
      = Some (Inr (Some (hdr m)), reg, s'')"
    "left_of reg (shard_id_of (header_id (hdr m))) = Some (hdr m)"
    "right_of reg = right_of (lb_registry env')"
    using first_block_found [OF assms(7), of "mc_last ?info" client f "hdr m" rest "lb_registry env'" s']
      assms(6,8,10,11,12,15) last by auto
  then have edges: "left_of reg ?sid = Some (hdr m)" "right_of reg ?sid = Some ?last"
    using assms(13) env'(3) by simp_all
  let ?rc = "\<lparr>rc_client = c, rc_last_value = lb_watch env', rc_registry = reg\<rparr>"
  have "rc_contains ?rc (workchain b) (CriteriaSeqno (shard b) n) = Some (m \<le> n \<and> n \<le> seqno b)" for n
    using edges last assms(14)
    by (simp add: rc_contains_def contains_seqno_edges shard_id_of_def del: registry_contains.simps)
  moreover have "edges_defined ?rc" "rc_last_seqno ?rc = Some (seqno b)"
    using edges env'(2) last
    by (simp_all add: edges_defined_def edges_defined_left rc_last_seqno_def get_last_seqno_right
        shard_id_of_def)
  ultimately show ?thesis using env'(1) reg(1) unfolding Let_def by blast
qed

theorem discovery_covers_range_witness:
  "\<exists>info' env' s' reg s''. last_block_next (\<lambda>m. m) (chain_server 3 12) None
      \<lparr>lb_registry = registry_default, lb_watch = None, lb_sent = [], lb_open = True\<rparr> ()
      = Some (Inr (Some info'), env', s')
    \<and> first_block_next (chain_server 3 12) None (mc_last info') (lb_registry env') s'
      = Some (Inr (Some (master_header 3)), reg, s'')
    \<and> (let rc = \<lparr>rc_client = ''ls'', rc_last_value = lb_watch env', rc_registry = reg\<rparr> in
        edges_defined rc \<and> rc_last_seqno rc = Some 12
        \<and> (\<forall>n. rc_contains rc (-1) (CriteriaSeqno (- (2 ^ 63)) n) = Some (3 \<le> n \<and> n \<le> 12)))"
proof -
  have probe: "fst (block_probe (chain_server 3 12) \<lparr>workchain = -1, shard = - (2 ^ 63), seqno = n\<rparr> s)
      = (if 3 \<le> n then Inr [master_header n] else Inl ''not in db'')" if "n \<le> 12" for n s
    using that by (simp add: block_probe_def chain_server_def bind_io_def ok_io_def err_io_def)
      (simp add: master_header_def header_at_def)
  show ?thesis
    using discovery_covers_range [OF retry_once_id, of "\<lparr>lb_registry = registry_default, lb_watch = None,
        lb_sent = [], lb_open = True\<rparr>" "chain_server 3 12" "()" "\<lparr>mc_last = header_id (master_header 12),
        mc_state_root_hash = [], mc_init = header_id (master_header 0)\<rparr>" "()" "header_id (master_header 12)"
        "()" 3 master_header "\<lambda>n. if 3 \<le> n then Inr [master_header n] else Inl ''not in db''" "[]" "''ls''"]
      chain_server_serves [of 3 12 12] probe
    by (simp add: i32_range_def chain_server_def ok_io_def)
qed

text \<open>
  C18. The liteserver adapter meets the contract that discovery relies on. For a block that the liteserver
  holds, with proofs that bind to it, the look-up by seqno gives the id of the block, the id is accepted by the
  request for the header although its hashes went through their text form, and the header has that id.
\<close>

theorem adapter_serves_blocks:
  assumes "b64_standard_laws (cells X)" and "holds_block X api i h" and "0 < n_seqno i"
  shows "serves (adapter X api) (n_workchain i) (n_shard i)
    (\<lambda>_. block_header_to_ton_client (cells X) (block_id_ext_from (cells X) i) h) (n_seqno i)"
proof -
  let ?b = "block_id_ext_from (cells X) i"
  have wf: "wf_block_id i" using assms(2) by (simp add: holds_block_def)
  have "\<exists>s'. on_look_up_block_by_seqno (adapter X api) (n_workchain i) (n_shard i) (n_seqno i) s = (Inr ?b, s')" for s
  proof -
    obtain r s' root where "ls_lookup_block api (lookup_block_seqno
        \<lparr>workchain = n_workchain i, shard = n_shard i, seqno = n_seqno i\<rparr>) s = (Inr r, s')" "bh_id r = i"
      "boc_unpack_fully (cells X) (bh_header_proof r) = Inr [root]" "merkle_hash (tlb X) root = Inr (n_root_hash i)"
      using assms(2) unfolding holds_block_def by blast
    then show ?thesis using assms(3)
      by (simp add: adapter_def adapter_look_up_block_by_seqno_def lookup_verified_def io_simps
          verify_header_proof_def single_root_def)
  qed
  moreover have "\<exists>s'. on_get_block_header (adapter X api) ?b s
      = (Inr (block_header_to_ton_client (cells X) ?b h), s')" for s
  proof -
    obtain r s' root where "ls_get_block_header api i 0 s = (Inr r, s')"
      "boc_unpack_fully (cells X) (bh_header_proof r) = Inr [root]"
      "merkle_block_header (tlb X) root = Inr (n_root_hash i, h)"
      using assms(2) unfolding holds_block_def by blast
    then show ?thesis using block_id_roundtrip [OF assms(1) wf]
      by (simp add: adapter_def adapter_get_block_header_def io_simps single_root_def bind_io_def)
  qed
  ultimately show ?thesis
    by (simp add: serves_def shard_id_of_def block_header_to_ton_client_def block_id_ext_from_def Let_def)
qed

theorem adapter_serves_blocks_witness:
  "serves (adapter demo_libs demo_api) (-1) (- (2 ^ 63))
    (\<lambda>_. block_header_to_ton_client demo_cells demo_block_ext demo_header) 5"
proof -
  have "holds_block demo_libs demo_api demo_node_id demo_header"
    by (simp add: holds_block_def wf_block_id_def demo_node_id_def demo_libs_def demo_cells_def demo_api_def ok_io_def)
  with adapter_serves_blocks [of demo_libs demo_api demo_node_id demo_header] demo_b64_laws show ?thesis
    by (simp add: demo_libs_def demo_node_id_def demo_block_ext_def)
qed

text \<open>
  The C++ library meets what a request for the transactions between blocks relies on: if it serves the history
  of an account, finds the blocks \<open>lo\<close> to \<open>hi\<close> of a shard and answers with the last transaction at each, the
  adapter over it serves the dated history. \<open>block_no\<close> is the seqno of the block of a transaction.
\<close>

definition tl_serves_dated ::
  "tonlib_lib \<Rightarrow> 's tl_api \<Rightarrow> SmartContractAddress \<Rightarrow> i32 \<Rightarrow> i64 \<Rightarrow> int \<Rightarrow> int \<Rightarrow> (InternalTransactionId \<Rightarrow> int)
     \<Rightarrow> RawTransaction list \<Rightarrow> bool" where
  "tl_serves_dated T api a wc sh lo hi block_no raws \<longleftrightarrow>
     tl_serves_history T api a raws \<and> sorted (rev (map (\<lambda>v. block_no (rt_transaction_id v)) raws)) \<and> 1 \<le> lo \<and>
     (\<forall>n s. lo \<le> n \<and> n \<le> hi \<longrightarrow>
        (\<exists>b s1. tl_lookup_block api (lookup_seqno \<lparr>t_workchain = wc, t_shard = sh, t_seqno = n\<rparr>) s = (Inr b, s1)
        \<and> (\<forall>s. \<exists>st s'. tl_raw_get_account_state api (Some b) (account_address_new T a) s = (Inr st, s')
             \<and> rf_last_transaction_id st
                 = map_option rt_transaction_id (List.find (\<lambda>v. block_no (rt_transaction_id v) \<le> n) raws))))"

lemma find_converted:
  assumes "list_all2 (\<lambda>v tx. transaction_from T v = Inr tx) raws hist"
  shows "map_option transaction_id (last_at (\<lambda>tx. block_no (tx_id_into (transaction_id tx))) hist n)
      = map_option tx_id_from (map_option rt_transaction_id (List.find (\<lambda>v. block_no (rt_transaction_id v) \<le> n) raws))"
    and "map (\<lambda>tx. block_no (tx_id_into (transaction_id tx))) hist = map (\<lambda>v. block_no (rt_transaction_id v)) raws"
  using assms by (induction rule: list_all2_induct) (simp_all add: last_at_def transaction_from_id)

lemma tonlib_serves_dated:
  assumes "tl_serves_dated T api a wc sh lo hi block_no raws" "try_map (transaction_from T) raws = Inr hist"
  shows "serves_dated (tonlib_adapter T api) a wc sh lo hi (\<lambda>tx. block_no (tx_id_into (transaction_id tx))) hist"
proof -
  have all2: "list_all2 (\<lambda>v tx. transaction_from T v = Inr tx) raws hist" using assms(2) by (simp add: try_map_eq_Inr)
  have lo: "1 \<le> lo" and history: "tl_serves_history T api a raws"
    and dates: "sorted (rev (map (\<lambda>v. block_no (rt_transaction_id v)) raws))"
    using assms(1) by (simp_all add: tl_serves_dated_def)
  have "\<exists>b s1. on_look_up_block_by_seqno (tonlib_adapter T api) wc sh n s = (Inr b, s1)
      \<and> (\<forall>s. \<exists>st s'. on_get_account_state_on_block (tonlib_adapter T api) a b s = (Inr st, s')
        \<and> last_transaction_id st
            = map_option transaction_id (last_at (\<lambda>tx. block_no (tx_id_into (transaction_id tx))) hist n))"
    if "lo \<le> n" "n \<le> hi" for n s
  proof -
    note in_range = that
    obtain b s1 where b: "tl_lookup_block api (lookup_seqno \<lparr>t_workchain = wc, t_shard = sh, t_seqno = n\<rparr>) s = (Inr b, s1)"
      "\<forall>s. \<exists>st s'. tl_raw_get_account_state api (Some b) (account_address_new T a) s = (Inr st, s')
        \<and> rf_last_transaction_id st = map_option rt_transaction_id (List.find (\<lambda>v. block_no (rt_transaction_id v) \<le> n) raws)"
      using assms(1) in_range unfolding tl_serves_dated_def by blast
    have "on_look_up_block_by_seqno (tonlib_adapter T api) wc sh n s = (Inr (block_id_from b), s1)"
      using b(1) in_range lo by (simp add: tonlib_adapter_def tonlib_look_up_block_by_seqno_def io_simps)
    moreover have "\<exists>st s'. on_get_account_state_on_block (tonlib_adapter T api) a (block_id_from b) s = (Inr st, s')
        \<and> last_transaction_id st
            = map_option transaction_id (last_at (\<lambda>tx. block_no (tx_id_into (transaction_id tx))) hist n)" for s
    proof -
      obtain st s' where "tl_raw_get_account_state api (Some b) (account_address_new T a) s = (Inr st, s')"
        "rf_last_transaction_id st = map_option rt_transaction_id (List.find (\<lambda>v. block_no (rt_transaction_id v) \<le> n) raws)"
        using b(2) by blast
      then show ?thesis using find_converted(1) [OF all2, of block_no n]
        by (simp add: tonlib_adapter_def tonlib_get_account_state_on_block_def io_simps account_state_of_raw_def)
    qed
    ultimately show ?thesis by blast
  qed
  then show ?thesis
    using tonlib_serves_account [OF history assms(2)] dates find_converted(2) [OF all2, of block_no] lo
    by (simp add: serves_dated_def tonlib_guards io_simps)
qed

definition demo_dated :: "RawTransaction list \<Rightarrow> unit tl_api" where
  "demo_dated raws = (demo_tonlib (demo_block 7) raws [] [])
     \<lparr>tl_lookup_block := (\<lambda>r. ok_io (block_id_into (demo_block (t_seqno (lk_id r))))),
      tl_raw_get_account_state := (\<lambda>b _. ok_io \<lparr>rf_balance = None, rf_code = [], rf_data = [], rf_frozen_hash = [],
        rf_last_transaction_id = map_option rt_transaction_id (case b of
            None \<Rightarrow> (case raws of [] \<Rightarrow> None | v # _ \<Rightarrow> Some v)
          | Some i \<Rightarrow> List.find (\<lambda>v. it_lt (rt_transaction_id v) \<le> t_seqno i) raws),
        rf_block_id = block_id_into (demo_block 7), rf_sync_utime = 0\<rparr>)\<rparr>"

lemma demo_dated_serves:
  assumes "distinct (map rt_transaction_id raws)" "sorted (rev (map (\<lambda>v. it_lt (rt_transaction_id v)) raws))"
  shows "tl_serves_dated T (demo_dated raws) a wc sh 1 hi it_lt raws"
proof -
  have "tl_serves_history T (demo_dated raws) a raws"
    using demo_serves_history [OF assms(1), of T "demo_block 7" "[]" "[]" a]
    by (cases raws) (simp_all add: tl_serves_history_def demo_dated_def ok_io_def)
  then show ?thesis using assms(2)
    by (simp add: tl_serves_dated_def demo_dated_def ok_io_def lookup_seqno_def block_id_into_def demo_block_def)
qed

text \<open>Such a library exists: an account with one transaction in each of the first five blocks.\<close>

lemma tonlib_dated_instance:
  "serves_dated (tonlib_adapter demo_lib (demo_dated (map demo_raw [5, 4, 3, 2, 1]))) a wc sh 1 hi
    (\<lambda>tx. tx_lt (transaction_id tx)) (map demo_of_raw [5, 4, 3, 2, 1])"
proof -
  let ?raws = "map demo_raw [5, 4, 3, 2, 1]"
  have "tl_serves_dated demo_lib (demo_dated ?raws) a wc sh 1 hi it_lt ?raws"
    by (rule demo_dated_serves) (simp_all add: demo_raw_def)
  moreover have "try_map (transaction_from demo_lib) ?raws = Inr (map demo_of_raw [5, 4, 3, 2, 1])"
    by (simp add: demo_transaction bindr_def map_ok_def)
  ultimately show ?thesis using tonlib_serves_dated [of demo_lib "demo_dated ?raws" a wc sh 1 hi it_lt]
    by (simp add: tx_id_into_def)
qed

lemma account_state_no_last: "account_state_from_response L T A r = Inr a \<Longrightarrow> last_transaction_id a = None"
  by (auto simp: account_state_from_response_def bindr_eq_Inr Let_def split: if_splits)

text \<open>
  Over the liteserver adapter the history of every account is empty. Whatever transactions the account
  has, once its state is read the stream of its transactions ends without an item, because the adapter
  never fills in the last transaction of a state.
\<close>

lemma adapter_account_stream_empty:
  assumes "on_get_account_state (adapter X api) address s = (Inr a, s1)"
  shows "get_account_tx_stream (adapter X api) address s = Some (([], Inr ()), s1)"
proof -
  have "last_transaction_id a = None"
    using assms by (auto simp: adapter_def adapter_get_account_state_def get_account_state_inner_def
        bind_io_eq_Inr lift_io_def account_state_no_last)
  then have "account_tx_step (adapter X api) address (account_page_from None) s = (Inr None, s1)"
    using assms by (simp add: account_tx_step_def account_page_from_def io_simps)
  then show ?thesis
    unfolding get_account_tx_stream_def get_account_tx_stream_from_def by (subst run_stream.simps) simp
qed

end
